(* ===== verification/Go_Prelude.thy ===== *)
theory Go_Prelude
  imports Main "HOL-Library.Word"
begin

text \<open>
  Shared ground of the development: the types that stand for Go's bytes and machine words,
  the effect type of Go code (a state, and a result that is a value, a returned error or a
  panic), little- and big-endian codecs of \<open>encoding/binary\<close>, and slices.
\<close>

unbundle bit_operations_syntax

named_theorems go_monad
named_theorems codec_simps

type_synonym byte = "8 word"
type_synonym bytes = "byte list"
type_synonym u16 = "16 word"
type_synonym u32 = "32 word"
type_synonym u64 = "64 word"

section \<open>Errors, panics and effects\<close>

text \<open>
  An \<open>err\<close> is a value of Go's \<open>error\<close> interface. Formatted messages are kept as
  their format strings; \<open>NilErr\<close> is a nil error where one is expected. \<open>TransportErr\<close> stands for the errors of the connection below the
  driver, which are not interpreted.
\<close>

datatype err =
    EOF
  | ErrUnexpectedEOF
  | TransportErr nat
  | ErrMsg string
  | NilErr

text \<open>
  How a Go call can fail: it returns a non-nil error (\<open>Err\<close>), it panics with a
  \<open>StreamError\<close> (\<open>badStreamPanic\<close>) or with a formatted error
  (\<open>badStreamPanicf\<close>), it panics with a string or a runtime error, or it never
  returns (\<open>Diverges\<close>).
\<close>

datatype fault =
    Err err
  | StreamPanic err
  | StreamPanicf string
  | RuntimePanic string
  | Diverges

type_synonym ('s, 'a) go = "'s \<Rightarrow> (fault + 'a) \<times> 's"

definition gret :: "'a \<Rightarrow> ('s, 'a) go" where
  "gret x = (\<lambda>s. (Inr x, s))"

definition graise :: "fault \<Rightarrow> ('s, 'a) go" where
  "graise f = (\<lambda>s. (Inl f, s))"

definition gbind :: "('s, 'a) go \<Rightarrow> ('a \<Rightarrow> ('s, 'b) go) \<Rightarrow> ('s, 'b) go" where
  "gbind m f = (\<lambda>s. case m s of (Inl e, s') \<Rightarrow> (Inl e, s') | (Inr x, s') \<Rightarrow> f x s')"

definition gthen :: "('s, 'a) go \<Rightarrow> ('s, 'b) go \<Rightarrow> ('s, 'b) go" where
  "gthen m k = gbind m (\<lambda>_. k)"

text \<open>The same for pure code: what follows a call is run when it returned no error.\<close>

definition sbind :: "'e + 'a \<Rightarrow> ('a \<Rightarrow> 'e + 'b) \<Rightarrow> 'e + 'b" where
  "sbind m f = (case m of Inl e \<Rightarrow> Inl e | Inr x \<Rightarrow> f x)"

lemma sbind_Inr_iff: "sbind m f = Inr y \<longleftrightarrow> (\<exists>x. m = Inr x \<and> f x = Inr y)"
  by (cases m) (auto simp: sbind_def)

lemma sbind_simps [simp]: "sbind (Inl e) f = Inl e" "sbind (Inr x) f = f x"
  by (simp_all add: sbind_def)

text \<open>\<open>if err != nil { badStreamPanic(err) }\<close> after a call that returns an error.\<close>

definition or_panic :: "('s, 'a) go \<Rightarrow> ('s, 'a) go" where
  "or_panic m = (\<lambda>s. case m s of
     (Inl (Err e), s') \<Rightarrow> (Inl (StreamPanic e), s') | r \<Rightarrow> r)"

lemma gret_run [go_monad]: "gret x s = (Inr x, s)"
  by (simp add: gret_def)

lemma graise_run [go_monad]: "graise f s = (Inl f, s)"
  by (simp add: graise_def)

lemma gbind_Inr [simp]: "m s = (Inr x, s') \<Longrightarrow> gbind m f s = f x s'"
  by (simp add: gbind_def)

lemma gbind_Inl [simp]: "m s = (Inl e, s') \<Longrightarrow> gbind m f s = (Inl e, s')"
  by (simp add: gbind_def)

lemma gbind_gret [simp]: "gbind (gret x) f = f x"
  by (simp add: gbind_def gret_def)

lemma gbind_assoc: "gbind (gbind m f) g = gbind m (\<lambda>x. gbind (f x) g)"
  by (auto simp: gbind_def fun_eq_iff split: prod.splits sum.splits)

lemma gbind_Inr_D:
  "gbind m f s = (Inr y, t) \<Longrightarrow> \<exists>x u. m s = (Inr x, u) \<and> f x u = (Inr y, t)"
  by (auto simp: gbind_def split: prod.splits sum.splits)

section \<open>Words and bytes\<close>

primrec le_bytes :: "nat \<Rightarrow> 'a::len word \<Rightarrow> bytes" where
  "le_bytes 0 w = []"
| "le_bytes (Suc n) w = ucast w # le_bytes n (drop_bit 8 w)"

primrec le_word :: "bytes \<Rightarrow> 'a::len word" where
  "le_word [] = 0"
| "le_word (b # bs) = ucast b OR push_bit 8 (le_word bs)"

definition be_bytes :: "nat \<Rightarrow> 'a::len word \<Rightarrow> bytes" where
  "be_bytes n w = rev (le_bytes n w)"

definition be_word :: "bytes \<Rightarrow> 'a::len word" where
  "be_word bs = le_word (rev bs)"

lemma le_bytes_numeral [simp]:
  "le_bytes (numeral k) w = ucast w # le_bytes (pred_numeral k) (drop_bit 8 w)"
  by (simp add: numeral_eq_Suc)

lemma length_le_bytes [simp]: "length (le_bytes n w) = n"
  by (induction n arbitrary: w) auto

lemma length_be_bytes [simp]: "length (be_bytes n w) = n"
  by (simp add: be_bytes_def)

lemma le_word_le_bytes: "le_word (le_bytes n w) = take_bit (8 * n) (w :: 'a::len word)"
proof (induction n arbitrary: w)
  case 0
  then show ?case by simp
next
  case (Suc n)
  have "ucast (ucast w :: byte) OR push_bit 8 (take_bit (8 * n) (drop_bit 8 w))
      = take_bit (8 + 8 * n) w"
    by (rule bit_word_eqI)
      (auto simp: bit_or_iff bit_push_bit_iff bit_take_bit_iff bit_drop_bit_eq bit_ucast_iff)
  with Suc show ?case by simp
qed

lemma le_word_high: "8 * length bs \<le> n \<Longrightarrow> \<not> bit (le_word bs :: 'a::len word) n"
proof (induction bs arbitrary: n)
  case Nil
  then show ?case by simp
next
  case (Cons b bs)
  then show ?case
    by (auto simp: bit_or_iff bit_push_bit_iff bit_ucast_iff dest: bit_imp_le_length)
qed

lemma le_bytes_le_word:
  "8 * length bs \<le> LENGTH('a) \<Longrightarrow> le_bytes (length bs) (le_word bs :: 'a::len word) = bs"
proof (induction bs)
  case Nil
  then show ?case by simp
next
  case (Cons b bs)
  let ?x = "le_word bs :: 'a word"
  have "ucast (ucast b OR push_bit 8 ?x) = b"
    using Cons.prems
    by (intro bit_word_eqI) (auto simp: bit_or_iff bit_push_bit_iff bit_ucast_iff)
  moreover have "drop_bit 8 (ucast b OR push_bit 8 ?x) = ?x"
  proof (rule bit_word_eqI)
    fix n assume n: "n < LENGTH('a)"
    show "bit (drop_bit 8 (ucast b OR push_bit 8 ?x)) n = bit ?x n"
    proof (cases "n + 8 < LENGTH('a)")
      case True
      then show ?thesis
        by (auto simp: bit_or_iff bit_push_bit_iff bit_ucast_iff bit_drop_bit_eq add.commute
            dest: bit_imp_le_length)
    next
      case False
      with Cons.prems have "\<not> bit ?x n" by (intro le_word_high) simp
      with False show ?thesis
        by (auto simp: bit_or_iff bit_push_bit_iff bit_ucast_iff bit_drop_bit_eq
            dest: bit_imp_le_length)
    qed
  qed
  ultimately show ?case using Cons by simp
qed

lemma le_codec [codec_simps]:
  "8 * n = LENGTH('a) \<Longrightarrow> le_word (le_bytes n w) = (w :: 'a::len word)"
  by (simp add: le_word_le_bytes)

lemma be_codec [codec_simps]:
  "8 * n = LENGTH('a) \<Longrightarrow> be_word (be_bytes n w) = (w :: 'a::len word)"
  by (simp add: be_word_def be_bytes_def le_word_le_bytes)

lemma be_bytes_be_word:
  "8 * length bs \<le> LENGTH('a) \<Longrightarrow> be_bytes (length bs) (be_word bs :: 'a::len word) = bs"
  using le_bytes_le_word [of "rev bs", where 'a = 'a] by (simp add: be_word_def be_bytes_def)

lemma bit_le_word:
  "bit (le_word bs :: 'a::len word) n \<longleftrightarrow>
     n < LENGTH('a) \<and> n div 8 < length bs \<and> bit (bs ! (n div 8)) (n mod 8)"
proof (induction bs arbitrary: n)
  case Nil
  then show ?case by simp
next
  case (Cons b bs)
  show ?case
  proof (cases "n < 8")
    case True
    then show ?thesis by (auto simp: bit_simps)
  next
    case False
    then obtain m where m: "n = 8 + m" using le_Suc_ex not_less by blast
    have "\<not> bit b (8 + m)" using bit_imp_le_length [of b "8 + m"] by auto
    moreover have "(8 + m) div 8 = Suc (m div 8)" "(8 + m) mod 8 = m mod 8" by simp_all
    ultimately show ?thesis using Cons.IH [of m] bit_imp_le_length [of "le_word bs :: 'a word" m]
      unfolding m by (simp add: bit_or_iff bit_push_bit_iff bit_ucast_iff) auto
  qed
qed

lemma le_word_and:
  "length xs = length ys \<Longrightarrow>
     (le_word xs AND le_word ys :: 'a::len word) = le_word (map2 (AND) xs ys)"
  by (rule bit_word_eqI) (auto simp: bit_and_iff bit_le_word)

lemma le_word_or:
  "length xs = length ys \<Longrightarrow>
     (le_word xs OR le_word ys :: 'a::len word) = le_word (map2 (OR) xs ys)"
  by (rule bit_word_eqI) (auto simp: bit_or_iff bit_le_word)

lemma ucast_le_word:
  "8 * length bs \<le> LENGTH('a) \<or> LENGTH('b) \<le> LENGTH('a) \<Longrightarrow>
     ucast (le_word bs :: 'a::len word) = (le_word bs :: 'b::len word)"
  by (rule bit_word_eqI) (auto simp: bit_ucast_iff bit_le_word)

lemma drop_le_word: "8 * length (b # bs) \<le> LENGTH('a) \<Longrightarrow> drop_bit 8 (le_word (b # bs) :: 'a::len word) = le_word bs"
  by (rule bit_word_eqI) (auto simp del: le_word.simps simp: bit_simps bit_le_word div_add_self1)

lemma le_word_eq_0:
  assumes "8 * length bs \<le> LENGTH('a)"
  shows "(le_word bs :: 'a::len word) = 0 \<longleftrightarrow> bs = replicate (length bs) 0"
proof
  have z: "le_bytes n (0 :: 'a word) = replicate n 0" for n by (induction n) auto
  assume "(le_word bs :: 'a word) = 0"
  with le_bytes_le_word [OF assms] z show "bs = replicate (length bs) 0" by metis
next
  assume r: "bs = replicate (length bs) 0"
  have "(le_word (replicate n 0) :: 'a word) = 0" for n by (induction n) auto
  with r show "(le_word bs :: 'a word) = 0" by metis
qed

lemma le_word_append:
  "le_word (xs @ ys) = (le_word xs OR push_bit (8 * length xs) (le_word ys) :: 'a::len word)"
  by (induction xs) (simp_all add: or.assoc)

section \<open>Slices\<close>

text \<open>Overwriting the part of an array that starts at \<open>off\<close> (Go's \<open>copy\<close>).\<close>

definition put_at :: "nat \<Rightarrow> 'a list \<Rightarrow> 'a list \<Rightarrow> 'a list" where
  "put_at off xs mem = take off mem @ xs @ drop (off + length xs) mem"

lemma length_put_at [simp]: "off + length xs \<le> length mem \<Longrightarrow> length (put_at off xs mem) = length mem"
  by (simp add: put_at_def)

lemma take_put_at: "off + length xs \<le> length mem \<Longrightarrow> n \<le> off \<Longrightarrow> take n (put_at off xs mem) = take n mem"
  by (simp add: put_at_def min_def)

lemma put_at_read:
  "off + length xs \<le> length mem \<Longrightarrow> take (length xs) (drop off (put_at off xs mem)) = xs"
  by (simp add: put_at_def)

lemma take_put_at_end:
  "off + length xs \<le> length mem \<Longrightarrow> take (off + length xs) (put_at off xs mem) = take off mem @ xs"
  by (simp add: put_at_def)

end
