(* ===== verification/Go_IO.thy ===== *)
theory Go_IO
  imports Go_Prelude
begin

text \<open>
  The parts of Go's \<open>io\<close> and \<open>encoding/binary\<close> packages the driver calls, over an
  arbitrary \<open>io.Reader\<close> (a function that reads at most \<open>n\<close> bytes) and an arbitrary
  \<open>io.Writer\<close>. The locales \<open>byte_source\<close> and \<open>byte_sink\<close> state what a reader
  and a writer promise; the lemmas of this theory are proved once from these promises and
  used for every reader and writer of the driver.
\<close>

section \<open>io.Reader\<close>

type_synonym 's reader = "nat \<Rightarrow> ('s, bytes) go"

text \<open>
  The loop of \<open>io.ReadAtLeast\<close>: read until \<open>n\<close> bytes are there or a call fails. The
  result carries the bytes read so far, also when it fails. \<open>None\<close>: it never returns.
\<close>

partial_function (option) io_fill ::
    "'s reader \<Rightarrow> nat \<Rightarrow> bytes \<Rightarrow> 's \<Rightarrow> ((bytes \<times> fault option) \<times> 's) option" where
  "io_fill rd n acc s =
     (if n \<le> length acc then Some ((acc, None), s)
      else (case rd (n - length acc) s of
              (Inl e, s') \<Rightarrow> Some ((acc, Some e), s')
            | (Inr bs, s') \<Rightarrow> io_fill rd n (acc @ bs) s'))"

definition short_read :: "bytes \<Rightarrow> fault \<Rightarrow> fault" where
  "short_read acc e = (if acc \<noteq> [] \<and> e = Err EOF then Err ErrUnexpectedEOF else e)"

text \<open>\<open>io.ReadFull\<close>.\<close>

definition io_ReadFull :: "'s reader \<Rightarrow> nat \<Rightarrow> ('s, bytes) go" where
  "io_ReadFull rd n s =
     (case io_fill rd n [] s of
        None \<Rightarrow> (Inl Diverges, s)
      | Some ((acc, None), s') \<Rightarrow> (Inr acc, s')
      | Some ((acc, Some e), s') \<Rightarrow> (Inl (short_read acc e), s'))"

text \<open>\<open>io.CopyN\<close>: the bytes copied; a source that ends early is \<open>EOF\<close>.\<close>

definition io_CopyN :: "'s reader \<Rightarrow> nat \<Rightarrow> ('s, bytes) go" where
  "io_CopyN rd n s =
     (case io_fill rd n [] s of
        None \<Rightarrow> (Inl Diverges, s)
      | Some ((acc, None), s') \<Rightarrow> (Inr acc, s')
      | Some ((acc, Some e), s') \<Rightarrow> (Inl e, s'))"

text \<open>\<open>io.ReadAll\<close>: read until \<open>EOF\<close>.\<close>

partial_function (option) io_drain ::
    "'s reader \<Rightarrow> bytes \<Rightarrow> 's \<Rightarrow> ((bytes \<times> fault) \<times> 's) option" where
  "io_drain rd acc s =
     (case rd 512 s of
        (Inl e, s') \<Rightarrow> Some ((acc, e), s')
      | (Inr bs, s') \<Rightarrow> io_drain rd (acc @ bs) s')"

definition io_ReadAll :: "'s reader \<Rightarrow> ('s, bytes) go" where
  "io_ReadAll rd s =
     (case io_drain rd [] s of
        None \<Rightarrow> (Inl Diverges, s)
      | Some ((acc, e), s') \<Rightarrow> (if e = Err EOF then Inr acc else Inl e, s'))"

text \<open>\<open>binary.Read(r, binary.LittleEndian, &x)\<close> for an \<open>x\<close> of \<open>n\<close> bytes.\<close>

definition binary_Read :: "'s reader \<Rightarrow> nat \<Rightarrow> ('s, 'a::len word) go" where
  "binary_Read rd n = gbind (io_ReadFull rd n) (\<lambda>bs. gret (le_word bs))"

text \<open>
  \<open>io.LimitedReader\<close>: its state is the number of bytes it may still read and the
  underlying reader's state.
\<close>

definition limited_read :: "'s reader \<Rightarrow> (int \<times> 's) reader" where
  "limited_read rd n = (\<lambda>(N, s).
     if N \<le> 0 then (Inl (Err EOF), (N, s))
     else (case rd (min n (nat N)) s of
             (Inl e, s') \<Rightarrow> (Inl e, (N, s'))
           | (Inr bs, s') \<Rightarrow> (Inr bs, (N - int (length bs), s'))))"

section \<open>What a reader promises\<close>

locale byte_source =
  fixes rd :: "'s reader"
    and src :: "'s \<Rightarrow> bytes"
    and inv :: "'s \<Rightarrow> bool"
    and steps :: "'s \<Rightarrow> nat"
  assumes read_some:
    "\<lbrakk>inv s; 0 < n; rd n s = (Inr bs, s')\<rbrakk> \<Longrightarrow>
       inv s' \<and> src s = bs @ src s' \<and> length bs \<le> n
       \<and> steps s' \<le> steps s \<and> (bs = [] \<longrightarrow> steps s' < steps s)"
  and read_none:
    "\<lbrakk>inv s; 0 < n; rd n s = (Inl e, s')\<rbrakk> \<Longrightarrow> src s = [] \<and> e \<noteq> Diverges"
begin

lemma fill_returns:
  assumes "inv s" "length acc \<le> n"
  shows "if n \<le> length acc + length (src s)
         then \<exists>s'. io_fill rd n acc s = Some ((acc @ take (n - length acc) (src s), None), s')
                   \<and> inv s' \<and> src s' = drop (n - length acc) (src s) \<and> steps s' \<le> steps s
         else \<exists>e s'. io_fill rd n acc s = Some ((acc @ src s, Some e), s') \<and> e \<noteq> Diverges"
  using assms
proof (induction "(steps s, n - length acc)" arbitrary: s acc
    rule: wf_induct_rule [OF wf_lex_prod [OF wf_less_than wf_less_than]])
  case 1
  show ?case
  proof (cases "n \<le> length acc")
    case True
    with 1 show ?thesis by (subst io_fill.simps) auto
  next
    case False
    show ?thesis
    proof (cases "rd (n - length acc) s")
      case (Pair r s')
      show ?thesis
      proof (cases r)
        case (Inl e)
        with Pair False 1(2) have "src s = []" "e \<noteq> Diverges"
          using read_none [of s "n - length acc" e s'] by auto
        with False Pair Inl show ?thesis by (subst io_fill.simps) auto
      next
        case (Inr bs)
        with Pair False 1(2) have sp: "inv s'" "src s = bs @ src s'" "length bs \<le> n - length acc"
          "steps s' \<le> steps s" "bs = [] \<longrightarrow> steps s' < steps s"
          using read_some [of s "n - length acc" bs s'] by auto
        have lt: "((steps s', n - length (acc @ bs)), (steps s, n - length acc))
            \<in> less_than <*lex*> less_than"
          using sp(4,5) False by (cases bs) auto
        have ln: "length (acc @ bs) \<le> n" using sp(3) False by simp
        have eq: "io_fill rd n acc s = io_fill rd n (acc @ bs) s'"
          using False Pair Inr by (subst io_fill.simps) simp
        have tk: "take (n - length acc) (src s) = bs @ take (n - length (acc @ bs)) (src s')"
          using sp(2,3) by simp
        have dr: "drop (n - length acc) (src s) = drop (n - length (acc @ bs)) (src s')"
          using sp(2,3) by simp
        show ?thesis
          using 1(1) [OF lt sp(1) ln] sp(2,4) unfolding eq tk dr
          by (auto simp: add.assoc split: if_splits intro: order_trans)
      qed
    qed
  qed
qed

text \<open>\<open>io.ReadFull\<close> on a source that holds enough bytes returns exactly the next ones.\<close>

lemma ReadFull_some:
  assumes "inv s" "src s = xs @ ys" "length xs = n"
  shows "\<exists>s'. io_ReadFull rd n s = (Inr xs, s') \<and> inv s' \<and> src s' = ys \<and> steps s' \<le> steps s"
  using fill_returns [of s "[]" n] assms by (auto simp: io_ReadFull_def)

text \<open>On a source that ends early it fails; it returns in every case.\<close>

lemma ReadFull_short:
  assumes "inv s" "length (src s) < n"
  shows "\<exists>e s'. io_ReadFull rd n s = (Inl e, s') \<and> e \<noteq> Diverges"
  using fill_returns [of s "[]" n] assms by (auto simp: io_ReadFull_def short_read_def)

lemma CopyN_some:
  assumes "inv s" "src s = xs @ ys" "length xs = n"
  shows "\<exists>s'. io_CopyN rd n s = (Inr xs, s') \<and> inv s' \<and> src s' = ys \<and> steps s' \<le> steps s"
  using fill_returns [of s "[]" n] assms by (auto simp: io_CopyN_def)

lemma binary_Read_some:
  assumes "inv s" "src s = le_bytes n (w :: 'a::len word) @ ys" "8 * n = LENGTH('a)"
  shows "\<exists>s'. binary_Read rd n s = (Inr w, s') \<and> inv s' \<and> src s' = ys \<and> steps s' \<le> steps s"
  using ReadFull_some [OF assms(1,2)] assms(3)
  by (auto simp: binary_Read_def le_codec gret_run)

lemma drain_returns:
  assumes "inv s"
  shows "\<exists>e s'. io_drain rd acc s = Some ((acc @ src s, e), s') \<and> e \<noteq> Diverges"
  using assms
proof (induction "(steps s, length (src s))" arbitrary: s acc
    rule: wf_induct_rule [OF wf_lex_prod [OF wf_less_than wf_less_than]])
  case 1
  show ?case
  proof (cases "rd 512 s")
    case (Pair r s')
    show ?thesis
    proof (cases r)
      case (Inl e)
      with Pair 1(2) show ?thesis
        using read_none [of s 512 e s'] by (subst io_drain.simps) auto
    next
      case (Inr bs)
      with Pair 1(2) have sp: "inv s'" "src s = bs @ src s'" "steps s' \<le> steps s"
        "bs = [] \<longrightarrow> steps s' < steps s"
        using read_some [of s 512 bs s'] by auto
      have lt: "((steps s', length (src s')), (steps s, length (src s)))
          \<in> less_than <*lex*> less_than"
        using sp by (cases "bs = []") auto
      have "io_drain rd acc s = io_drain rd (acc @ bs) s'"
        using Pair Inr by (subst io_drain.simps) simp
      with 1(1) [OF lt sp(1), of "acc @ bs"] sp(2) show ?thesis by simp
    qed
  qed
qed

end

section \<open>A limited reader is a source\<close>

context byte_source
begin

lemma limited_some:
  assumes "inv s" "0 < n" "limited_read rd n (N, s) = (Inr bs, (N', s'))"
  shows "inv s' \<and> take (nat N) (src s) = bs @ take (nat N') (src s') \<and> length bs \<le> n
       \<and> steps s' \<le> steps s \<and> (bs = [] \<longrightarrow> steps s' < steps s)"
proof -
  from assms(3) have N: "0 < N" and r: "rd (min n (nat N)) s = (Inr bs, s')"
    and N': "N' = N - int (length bs)"
    by (auto simp: limited_read_def split: if_splits prod.splits sum.splits)
  have sp: "inv s'" "src s = bs @ src s'" "length bs \<le> min n (nat N)"
    "steps s' \<le> steps s" "bs = [] \<longrightarrow> steps s' < steps s"
    using read_some [OF assms(1) _ r] N assms(2) by auto
  then have "nat N' = nat N - length bs" using N N' by auto
  with sp show ?thesis by auto
qed

lemma limited_none:
  assumes "inv s" "0 < n" "limited_read rd n (N, s) = (Inl e, t)"
  shows "take (nat N) (src s) = [] \<and> e \<noteq> Diverges"
proof (cases "N \<le> 0")
  case True
  with assms(3) show ?thesis by (auto simp: limited_read_def)
next
  case False
  with assms(3) obtain s' where "rd (min n (nat N)) s = (Inl e, s')"
    by (auto simp: limited_read_def split: prod.splits sum.splits)
  with read_none [OF assms(1), of "min n (nat N)" e s'] False assms(2) show ?thesis by auto
qed

lemma limited_source:
  "byte_source (limited_read rd) (\<lambda>(N, s). take (nat N) (src s)) (\<lambda>(N, s). inv s)
     (\<lambda>(N, s). steps s)"
proof (unfold_locales, goal_cases)
  case (1 s n bs s')
  then show ?case by (cases s; cases s') (auto dest: limited_some)
next
  case (2 s n e s')
  then show ?case by (cases s) (auto dest: limited_none)
qed

end

section \<open>io.Writer\<close>

type_synonym 's writer = "bytes \<Rightarrow> ('s, nat) go"

text \<open>\<open>_, err = w.Write(p)\<close>, and \<open>binary.Write(w, binary.LittleEndian, x)\<close>.\<close>

definition io_Write :: "'s writer \<Rightarrow> bytes \<Rightarrow> ('s, unit) go" where
  "io_Write wr p = gbind (wr p) (\<lambda>_. gret ())"

definition binary_Write :: "'s writer \<Rightarrow> nat \<Rightarrow> 'a::len word \<Rightarrow> ('s, unit) go" where
  "binary_Write wr n w = io_Write wr (le_bytes n w)"

text \<open>
  What a writer promises: in a state that has taken the bytes \<open>M\<close>, writing \<open>p\<close>
  succeeds, reports \<open>length p\<close> and leads to a state that has taken \<open>M @ p\<close>.
\<close>

locale byte_sink =
  fixes wr :: "'s writer"
    and holds :: "bytes \<Rightarrow> 's \<Rightarrow> bool"
  assumes write_all: "holds M s \<Longrightarrow> \<exists>s'. wr p s = (Inr (length p), s') \<and> holds (M @ p) s'"
begin

definition emits :: "('s, 'a) go \<Rightarrow> bytes \<Rightarrow> 'a \<Rightarrow> bool" where
  "emits m xs x \<longleftrightarrow> (\<forall>M s. holds M s \<longrightarrow> (\<exists>s'. m s = (Inr x, s') \<and> holds (M @ xs) s'))"

lemma emitsD: "emits m xs x \<Longrightarrow> holds M s \<Longrightarrow> \<exists>s'. m s = (Inr x, s') \<and> holds (M @ xs) s'"
  by (simp add: emits_def)

lemma emits_ret [intro]: "emits (gret x) [] x"
  by (simp add: emits_def gret_run)

lemma emits_bind [intro]:
  "emits m xs x \<Longrightarrow> emits (f x) ys y \<Longrightarrow> emits (gbind m f) (xs @ ys) y"
  unfolding emits_def by (metis append_assoc gbind_Inr)

lemma emits_then [intro]:
  "emits m xs x \<Longrightarrow> emits k ys y \<Longrightarrow> emits (gthen m k) (xs @ ys) y"
  by (simp add: gthen_def emits_bind)

lemma emits_wr: "emits (wr p) p (length p)"
  using write_all by (simp add: emits_def)

lemma emits_Write [intro]: "emits (io_Write wr p) p ()"
  using emits_bind [OF emits_wr emits_ret, of p "\<lambda>_. ()"] by (simp add: io_Write_def)

lemma emits_binary_Write [intro]: "emits (binary_Write wr n w) (le_bytes n w) ()"
  unfolding binary_Write_def by blast

end

text \<open>\<open>bytes.Buffer\<close> as a writer: it only grows.\<close>

definition buffer_write :: "bytes writer" where
  "buffer_write p = (\<lambda>s. (Inr (length p), s @ p))"

interpretation bytes_buffer: byte_sink buffer_write "\<lambda>M s. M = s"
  by unfold_locales (simp add: buffer_write_def)

end
