(* ===== verification/Go_Text.thy ===== *)
theory Go_Text
  imports Go_IO
begin

text \<open>
  Strings. A Go string is a sequence of bytes, here a \<open>string\<close> of HOL (its characters are
  bytes); \<open>[]rune(s)\<close> and \<open>string(runes)\<close> convert it from and to UTF-8 with U+FFFD
  for whatever is invalid, and \<open>unicode/utf16\<close> does the same for UTF-16.
\<close>

section \<open>Bytes and characters\<close>

definition char_byte :: "char \<Rightarrow> byte" where
  "char_byte c = word_of_nat (of_char c)"

definition byte_char :: "byte \<Rightarrow> char" where
  "byte_char b = char_of (unat b)"

definition str_bytes :: "string \<Rightarrow> bytes" where
  "str_bytes s = map char_byte s"

definition bytes_str :: "bytes \<Rightarrow> string" where
  "bytes_str bs = map byte_char bs"

lemma byte_char_byte [simp]: "byte_char (char_byte c) = c"
  by (simp add: char_byte_def byte_char_def unat_of_nat)

lemma char_byte_char [simp]: "char_byte (byte_char b) = b"
proof -
  have "(of_char (char_of (unat b) :: char) :: nat) = unat b mod 256" by simp
  also have "\<dots> = unat b" using unsigned_less [of b, where 'a = nat] by simp
  finally show ?thesis by (simp add: char_byte_def byte_char_def)
qed

lemma bytes_str_str_bytes [simp]: "bytes_str (str_bytes s) = s"
  by (simp add: bytes_str_def str_bytes_def o_def)

lemma str_bytes_bytes_str [simp]: "str_bytes (bytes_str bs) = bs"
  by (simp add: bytes_str_def str_bytes_def o_def)

lemma length_str_bytes [simp]: "length (str_bytes s) = length s"
  by (simp add: str_bytes_def)

lemma length_bytes_str [simp]: "length (bytes_str s) = length s"
  by (simp add: bytes_str_def)

section \<open>Runes\<close>

type_synonym rune = nat

definition RuneError :: rune where
  "RuneError = 0xFFFD"

text \<open>The code points that UTF-8 and UTF-16 can encode.\<close>

definition scalar :: "rune \<Rightarrow> bool" where
  "scalar r \<longleftrightarrow> r < 0xD800 \<or> (0xE000 \<le> r \<and> r < 0x110000)"

definition cont :: "nat \<Rightarrow> bool" where
  "cont b \<longleftrightarrow> 0x80 \<le> b \<and> b < 0xC0"

text \<open>
  \<open>utf8.DecodeRune\<close> on a non-empty list of byte values: the rune and the bytes it takes.
  The ranges of the second byte exclude overlong forms, surrogates and values above U+10FFFF;
  anything invalid is \<open>RuneError\<close> of width one.
\<close>

definition second_ok :: "nat \<Rightarrow> nat \<Rightarrow> bool" where
  "second_ok b0 b1 \<longleftrightarrow>
     (if b0 = 0xE0 then 0xA0 \<le> b1 \<and> b1 < 0xC0
      else if b0 = 0xED then 0x80 \<le> b1 \<and> b1 < 0xA0
      else if b0 = 0xF0 then 0x90 \<le> b1 \<and> b1 < 0xC0
      else if b0 = 0xF4 then 0x80 \<le> b1 \<and> b1 < 0x90
      else cont b1)"

definition DecodeRune :: "nat list \<Rightarrow> rune \<times> nat" where
  "DecodeRune p =
     (let b0 = p ! 0; b1 = p ! 1; b2 = p ! 2; b3 = p ! 3; n = length p in
      if b0 < 0x80 then (b0, 1)
      else if 0xC2 \<le> b0 \<and> b0 < 0xE0 \<and> 2 \<le> n \<and> cont b1
      then ((b0 - 0xC0) * 64 + (b1 - 0x80), 2)
      else if 0xE0 \<le> b0 \<and> b0 < 0xF0 \<and> 3 \<le> n \<and> second_ok b0 b1 \<and> cont b2
      then ((b0 - 0xE0) * 4096 + (b1 - 0x80) * 64 + (b2 - 0x80), 3)
      else if 0xF0 \<le> b0 \<and> b0 < 0xF5 \<and> 4 \<le> n \<and> second_ok b0 b1 \<and> cont b2 \<and> cont b3
      then ((b0 - 0xF0) * 262144 + (b1 - 0x80) * 4096 + (b2 - 0x80) * 64 + (b3 - 0x80), 4)
      else (RuneError, 1))"

definition EncodeRune :: "rune \<Rightarrow> nat list" where
  "EncodeRune r0 =
     (let r = (if scalar r0 then r0 else RuneError) in
      if r < 0x80 then [r]
      else if r < 0x800 then [0xC0 + r div 64, 0x80 + r mod 64]
      else if r < 0x10000 then [0xE0 + r div 4096, 0x80 + r div 64 mod 64, 0x80 + r mod 64]
      else [0xF0 + r div 262144, 0x80 + r div 4096 mod 64, 0x80 + r div 64 mod 64, 0x80 + r mod 64])"

lemma DecodeRune_width: "1 \<le> snd (DecodeRune p)"
  by (simp add: DecodeRune_def Let_def)

function utf8_runes :: "nat list \<Rightarrow> rune list" where
  "utf8_runes p =
     (if p = [] then [] else fst (DecodeRune p) # utf8_runes (drop (snd (DecodeRune p)) p))"
  by pat_completeness auto
termination
proof (relation "measure length")
  show "wf (measure (length :: nat list \<Rightarrow> nat))" by simp
next
  fix p :: "nat list" assume "p \<noteq> []"
  with DecodeRune_width [of p] show "(drop (snd (DecodeRune p)) p, p) \<in> measure length"
    by (simp add: neq_Nil_conv)
qed

declare utf8_runes.simps [simp del]

text \<open>\<open>[]rune(s)\<close> and \<open>string(rs)\<close>.\<close>

definition runes :: "string \<Rightarrow> rune list" where
  "runes s = utf8_runes (map unat (str_bytes s))"

definition string_of_runes :: "rune list \<Rightarrow> string" where
  "string_of_runes rs = bytes_str (map word_of_nat (concat (map EncodeRune rs)))"

text \<open>\<open>utf8.RuneCountInString\<close> counts what \<open>[]rune\<close> would return.\<close>

definition RuneCountInString :: "string \<Rightarrow> nat" where
  "RuneCountInString s = length (runes s)"

definition valid_utf8 :: "string \<Rightarrow> bool" where
  "valid_utf8 s \<longleftrightarrow> string_of_runes (runes s) = s"

lemma scalar_RuneError [simp]: "scalar RuneError"
  by (simp add: scalar_def RuneError_def)

lemma scalar_three:
  assumes "0xE0 \<le> b0" "b0 < 0xF0" "second_ok b0 b1" "cont b2"
  shows "scalar ((b0 - 0xE0) * 4096 + (b1 - 0x80) * 64 + (b2 - 0x80))"
proof -
  obtain x y z where v: "b0 = 0xE0 + x" "b1 = 0x80 + y" "b2 = 0x80 + z" "x < 16" "y < 64" "z < 64"
    "x = 13 \<Longrightarrow> y < 32"
  proof (rule that [of "b0 - 0xE0" "b1 - 0x80" "b2 - 0x80"])
  qed (use assms in \<open>auto simp: second_ok_def cont_def split: if_splits\<close>)
  consider "x \<le> 12" | "x = 13" | "14 \<le> x" by linarith
  then have "x * 4096 + y * 64 + z < 0xD800 \<or> 0xE000 \<le> x * 4096 + y * 64 + z"
    by cases (use v in linarith)+
  moreover have "x * 4096 + y * 64 + z < 0x110000" using v by linarith
  ultimately show ?thesis unfolding v(1-3) scalar_def by auto
qed

lemma scalar_four:
  assumes "0xF0 \<le> b0" "b0 < 0xF5" "second_ok b0 b1" "cont b2" "cont b3"
  shows "scalar ((b0 - 0xF0) * 262144 + (b1 - 0x80) * 4096 + (b2 - 0x80) * 64 + (b3 - 0x80))"
proof -
  obtain x y z u where v: "b0 = 0xF0 + x" "b1 = 0x80 + y" "b2 = 0x80 + z" "b3 = 0x80 + u"
    "x < 5" "y < 64" "z < 64" "u < 64" "x = 4 \<Longrightarrow> y < 16" "x = 0 \<Longrightarrow> 16 \<le> y"
  proof (rule that [of "b0 - 0xF0" "b1 - 0x80" "b2 - 0x80" "b3 - 0x80"])
  qed (use assms in \<open>auto simp: second_ok_def cont_def split: if_splits\<close>)
  consider "x = 0" | "0 < x" "x < 4" | "x = 4" using v(5) by linarith
  then have "0xE000 \<le> x * 262144 + y * 4096 + z * 64 + u \<and> x * 262144 + y * 4096 + z * 64 + u < 0x110000"
    by cases (use v in linarith)+
  then show ?thesis unfolding v(1-4) scalar_def by auto
qed

lemma DecodeRune_scalar: "scalar (fst (DecodeRune p))"
proof -
  have two: "scalar ((b0 - 0xC0) * 64 + (b1 - 0x80))" if "b0 < 0xE0" "cont b1" for b0 b1
    using that by (auto simp: scalar_def cont_def)
  have one: "scalar b" if "b < 0x80" for b using that by (simp add: scalar_def)
  show ?thesis by (simp add: DecodeRune_def Let_def one two scalar_three scalar_four del: One_nat_def)
qed

lemma utf8_runes_scalar: "list_all scalar (utf8_runes p)"
  by (induction p rule: utf8_runes.induct)
    (subst utf8_runes.simps, simp add: DecodeRune_scalar)

lemma EncodeRune_bytes: "b \<in> set (EncodeRune r) \<Longrightarrow> b < 256"
  by (auto simp: EncodeRune_def Let_def scalar_def RuneError_def split: if_splits)

lemma DecodeRune_2:
  "x < 32 \<Longrightarrow> 2 \<le> x \<Longrightarrow> y < 64 \<Longrightarrow> DecodeRune ((0xC0 + x) # (0x80 + y) # rest) = (x * 64 + y, 2)"
  by (simp add: DecodeRune_def cont_def)

lemma DecodeRune_3:
  "x < 16 \<Longrightarrow> (x = 0 \<longrightarrow> 32 \<le> y) \<Longrightarrow> (x = 13 \<longrightarrow> y < 32) \<Longrightarrow> y < 64 \<Longrightarrow> z < 64 \<Longrightarrow>
     DecodeRune ((0xE0 + x) # (0x80 + y) # (0x80 + z) # rest) = (x * 4096 + y * 64 + z, 3)"
  by (auto simp: DecodeRune_def cont_def second_ok_def Let_def)

lemma DecodeRune_4:
  "x < 5 \<Longrightarrow> (x = 0 \<longrightarrow> 16 \<le> y) \<Longrightarrow> (x = 4 \<longrightarrow> y < 16) \<Longrightarrow> y < 64 \<Longrightarrow> z < 64 \<Longrightarrow> u < 64 \<Longrightarrow>
     DecodeRune ((0xF0 + x) # (0x80 + y) # (0x80 + z) # (0x80 + u) # rest)
       = (x * 262144 + y * 4096 + z * 64 + u, 4)"
  by (auto simp: DecodeRune_def cont_def second_ok_def Let_def)

lemma base64_digits:
  fixes r :: nat
  shows "r div 64 = r div 4096 * 64 + r div 64 mod 64"
    "r div 4096 = r div 262144 * 64 + r div 4096 mod 64" "r = r div 64 * 64 + r mod 64"
  using div_mult_mod_eq [of "r div 64" 64] div_mult_mod_eq [of "r div 4096" 64]
    div_mult2_eq [of r 64 64] div_mult2_eq [of r 4096 64] by simp_all

lemma DecodeRune_EncodeRune:
  assumes "scalar r"
  shows "DecodeRune (EncodeRune r @ rest) = (r, length (EncodeRune r))"
proof -
  note d = base64_digits [of r]
  have lt: "r mod 64 < 64" "r div 64 mod 64 < 64" "r div 4096 mod 64 < 64" by simp_all
  consider "r < 0x80" | "0x80 \<le> r" "r < 0x800" | "0x800 \<le> r" "r < 0x10000" | "0x10000 \<le> r" by linarith
  then show ?thesis
  proof cases
    case 1
    with assms show ?thesis by (simp add: EncodeRune_def DecodeRune_def)
  next
    case 2
    have "r div 64 < 32" "2 \<le> r div 64" using 2 by simp_all
    note dec = DecodeRune_2 [OF this lt(1)]
    have "EncodeRune r = [0xC0 + r div 64, 0x80 + r mod 64]"
      using 2 assms by (simp add: EncodeRune_def)
    with dec d(3) show ?thesis by simp
  next
    case 3
    have "r div 4096 < 16" "r div 4096 = 0 \<longrightarrow> 32 \<le> r div 64 mod 64"
      "r div 4096 = 13 \<longrightarrow> r div 64 mod 64 < 32"
      using 3 d lt assms unfolding scalar_def by linarith+
    note dec = DecodeRune_3 [OF this lt(2,1)]
    have "EncodeRune r = [0xE0 + r div 4096, 0x80 + r div 64 mod 64, 0x80 + r mod 64]"
      using 3 assms by (simp add: EncodeRune_def)
    moreover have "r div 4096 * 4096 + r div 64 mod 64 * 64 + r mod 64 = r" using d by linarith
    ultimately show ?thesis using dec by simp
  next
    case 4
    have "r div 262144 < 5" "r div 262144 = 0 \<longrightarrow> 16 \<le> r div 4096 mod 64"
      "r div 262144 = 4 \<longrightarrow> r div 4096 mod 64 < 16"
      using 4 d lt assms unfolding scalar_def by linarith+
    note dec = DecodeRune_4 [OF this lt(3,2,1)]
    have "EncodeRune r
        = [0xF0 + r div 262144, 0x80 + r div 4096 mod 64, 0x80 + r div 64 mod 64, 0x80 + r mod 64]"
      using 4 assms by (simp add: EncodeRune_def)
    moreover have "r div 262144 * 262144 + r div 4096 mod 64 * 4096 + r div 64 mod 64 * 64 + r mod 64 = r"
      using d by linarith
    ultimately show ?thesis using dec by simp
  qed
qed

lemma EncodeRune_nonempty [simp]: "EncodeRune r \<noteq> []"
  by (simp add: EncodeRune_def Let_def)

lemma utf8_runes_encode: "list_all scalar rs \<Longrightarrow> utf8_runes (concat (map EncodeRune rs)) = rs"
proof (induction rs)
  case Nil
  then show ?case by (simp add: utf8_runes.simps)
next
  case (Cons r rs)
  then show ?case
    by (subst utf8_runes.simps) (simp add: DecodeRune_EncodeRune)
qed

lemma runes_string_of_runes: 
  assumes "list_all scalar rs" shows "runes (string_of_runes rs) = rs"
proof -
  have "map (unat o (word_of_nat :: nat \<Rightarrow> byte)) (concat (map EncodeRune rs)) = concat (map EncodeRune rs)"
    by (rule map_idI) (auto dest: EncodeRune_bytes simp: unat_of_nat)
  with assms utf8_runes_encode show ?thesis
    by (simp add: runes_def string_of_runes_def)
qed

lemma runes_scalar: "list_all scalar (runes s)"
  by (simp add: runes_def utf8_runes_scalar)

lemma valid_string_of_runes: "list_all scalar rs \<Longrightarrow> valid_utf8 (string_of_runes rs)"
  by (simp add: valid_utf8_def runes_string_of_runes)

section \<open>UTF-16\<close>

fun utf16_Encode :: "rune list \<Rightarrow> u16 list" where
  "utf16_Encode [] = []"
| "utf16_Encode (r # rs) =
     (if r < 0xD800 \<or> (0xE000 \<le> r \<and> r < 0x10000) then word_of_nat r # utf16_Encode rs
      else if 0x10000 \<le> r \<and> r < 0x110000
      then word_of_nat (0xD800 + (r - 0x10000) div 1024)
           # word_of_nat (0xDC00 + (r - 0x10000) mod 1024) # utf16_Encode rs
      else word_of_nat RuneError # utf16_Encode rs)"

fun utf16_Decode :: "u16 list \<Rightarrow> rune list" where
  "utf16_Decode [] = []"
| "utf16_Decode (u # us) =
     (let r = unat u in
      if r < 0xD800 \<or> 0xE000 \<le> r then r # utf16_Decode us
      else (case us of
              v # vs \<Rightarrow>
                if r < 0xDC00 \<and> 0xDC00 \<le> unat v \<and> unat v < 0xE000
                then ((r - 0xD800) * 1024 + (unat v - 0xDC00) + 0x10000) # utf16_Decode vs
                else RuneError # utf16_Decode us
            | [] \<Rightarrow> [RuneError]))"

lemma utf16_Decode_pair:
  "0xD800 \<le> unat u \<Longrightarrow> unat u < 0xDC00 \<Longrightarrow> 0xDC00 \<le> unat v \<Longrightarrow> unat v < 0xE000 \<Longrightarrow>
     utf16_Decode (u # v # us)
       = ((unat u - 0xD800) * 1024 + (unat v - 0xDC00) + 0x10000) # utf16_Decode us"
  by simp

lemma utf16_Decode_Encode:
  "list_all scalar rs \<Longrightarrow> utf16_Decode (utf16_Encode rs) = rs"
proof (induction rs)
  case Nil
  then show ?case by simp
next
  case (Cons r rs)
  have dm: "(r - 0x10000) div 1024 * 1024 + (r - 0x10000) mod 1024 = r - 0x10000" by simp
  show ?case
  proof (cases "r < 0x10000")
    case True
    with Cons show ?thesis by (auto simp: scalar_def unat_of_nat)
  next
    case False
    with Cons.prems have r: "r < 0x110000" by (auto simp: scalar_def)
    have h: "(r - 0x10000) div 1024 < 1024" using False r by simp
    have l: "(r - 0x10000) mod 1024 < 1024" by simp
    have u: "unat (word_of_nat (0xD800 + (r - 0x10000) div 1024) :: u16) = 0xD800 + (r - 0x10000) div 1024"
      "unat (word_of_nat (0xDC00 + (r - 0x10000) mod 1024) :: u16) = 0xDC00 + (r - 0x10000) mod 1024"
      using h l by (simp_all add: unat_of_nat del: of_nat_add)
    from False r have enc: "utf16_Encode (r # rs) = word_of_nat (0xD800 + (r - 0x10000) div 1024)
        # word_of_nat (0xDC00 + (r - 0x10000) mod 1024) # utf16_Encode rs" by (simp del: of_nat_add)
    show ?thesis unfolding enc
      by (subst utf16_Decode_pair) (use u False h l Cons dm in \<open>simp_all del: of_nat_add\<close>)
  qed
qed

lemma utf16_Decode_scalar: "list_all scalar (utf16_Decode us)"
proof (induction us rule: utf16_Decode.induct)
  case (2 u us)
  have b: "unat u < 65536" using unsigned_less [of u, where 'a = nat] by simp
  show ?case using 2 b
    by (auto simp: scalar_def Let_def RuneError_def split: list.splits)
qed simp


end
