(* ===== verification/Go_Strings.thy ===== *)
theory Go_Strings
  imports Go_Text
begin

text \<open>
  What the driver uses of Go's \<open>strings\<close>, \<open>strconv\<close> and \<open>unicode\<close> packages. The case
  mapping of runes outside ASCII, which Go takes from Unicode tables, is an argument \<open>uni\<close>.
\<close>

section \<open>Searching and splitting\<close>

definition HasPrefix :: "string \<Rightarrow> string \<Rightarrow> bool" where
  "HasPrefix s pre \<longleftrightarrow> take (length pre) s = pre"

definition HasSuffix :: "string \<Rightarrow> string \<Rightarrow> bool" where
  "HasSuffix s suf \<longleftrightarrow> length suf \<le> length s \<and> drop (length s - length suf) s = suf"

definition TrimPrefix :: "string \<Rightarrow> string \<Rightarrow> string" where
  "TrimPrefix s pre = (if HasPrefix s pre then drop (length pre) s else s)"

text \<open>\<open>strings.Split\<close> and \<open>strings.SplitN(s, sep, 2)\<close> for a separator of one byte.\<close>

fun Split :: "char \<Rightarrow> string \<Rightarrow> string list" where
  "Split sep [] = [[]]"
| "Split sep (c # s) =
     (if c = sep then [] # Split sep s
      else (case Split sep s of [] \<Rightarrow> [[c]] | p # ps \<Rightarrow> (c # p) # ps))"

fun SplitN2 :: "char \<Rightarrow> string \<Rightarrow> string \<times> string option" where
  "SplitN2 sep [] = ([], None)"
| "SplitN2 sep (c # s) =
     (if c = sep then ([], Some s) else (case SplitN2 sep s of (p, q) \<Rightarrow> (c # p, q)))"

text \<open>\<open>strings.ReplaceAll(s, "cc", "c")\<close> and \<open>strings.ReplaceAll(s, "c", "cc")\<close> for a byte \<open>c\<close>.\<close>

fun halve :: "char \<Rightarrow> string \<Rightarrow> string" where
  "halve q (a # b # s) = (if a = q \<and> b = q then q # halve q s else a # halve q (b # s))"
| "halve q s = s"

fun double :: "char \<Rightarrow> string \<Rightarrow> string" where
  "double q [] = []"
| "double q (a # s) = (if a = q then q # q # double q s else a # double q s)"

lemma halve_double [simp]: "halve q (double q s) = s"
proof (induction s)
  case (Cons a s)
  then show ?case by (cases s) auto
qed simp

lemma double_append [simp]: "double q (s @ t) = double q s @ double q t"
  by (induction s) auto

lemma SplitN2_append: "sep \<notin> set p \<Longrightarrow> SplitN2 sep (p @ sep # s) = (p, Some s)"
  by (induction p) auto

lemma SplitN2_none: "sep \<notin> set p \<Longrightarrow> SplitN2 sep p = (p, None)"
  by (induction p) auto

lemma Split_nonempty [simp]: "Split sep s \<noteq> []"
  by (cases s) (auto split: list.splits)

lemma Split_none: "sep \<notin> set p \<Longrightarrow> Split sep p = [p]"
  by (induction p) auto

lemma Split_append: "sep \<notin> set p \<Longrightarrow> Split sep (p @ sep # s) = p # Split sep s"
  by (induction p) auto

section \<open>Space\<close>

text \<open>\<open>unicode.IsSpace\<close>: the runes with the property White Space.\<close>

definition space_runes :: "rune list" where
  "space_runes = [0x09, 0x0A, 0x0B, 0x0C, 0x0D, 0x20, 0x85, 0xA0, 0x1680, 0x2000, 0x2001, 0x2002,
     0x2003, 0x2004, 0x2005, 0x2006, 0x2007, 0x2008, 0x2009, 0x200A, 0x2028, 0x2029, 0x202F,
     0x205F, 0x3000]"

definition IsSpace :: "rune \<Rightarrow> bool" where
  "IsSpace r \<longleftrightarrow> r \<in> set space_runes"

definition space_strings :: "string list" where
  "space_strings = map (\<lambda>r. string_of_runes [r]) space_runes"

text \<open>
  \<open>strings.TrimRightFunc(s, unicode.IsSpace)\<close> and its counterpart on the left: the last
  (first) rune of a string is a space exactly when the string ends (starts) with the encoding of
  one.
\<close>

lemma space_string_length: "e \<in> set space_strings \<Longrightarrow> 0 < length e"
  by (auto simp: space_strings_def string_of_runes_def bytes_str_def)

lemma find_space_length:
  "List.find P space_strings = Some e \<Longrightarrow> 0 < length e" "List.find P space_strings = Some e \<Longrightarrow> P e"
  by (auto simp: find_Some_iff dest: space_string_length [OF nth_mem])

function TrimRightSpace :: "string \<Rightarrow> string" where
  "TrimRightSpace s =
     (case List.find (\<lambda>e. HasSuffix s e) space_strings of
        None \<Rightarrow> s | Some e \<Rightarrow> TrimRightSpace (take (length s - length e) s))"
  by pat_completeness auto
termination
proof (relation "measure length")
  fix s e assume "List.find (HasSuffix s) space_strings = Some e"
  from find_space_length [OF this] have "0 < length e" "length e \<le> length s"
    by (simp_all add: HasSuffix_def)
  then show "(take (length s - length e) s, s) \<in> measure length" by (cases s) auto
qed simp

function TrimLeftSpace :: "string \<Rightarrow> string" where
  "TrimLeftSpace s =
     (case List.find (\<lambda>e. HasPrefix s e) space_strings of
        None \<Rightarrow> s | Some e \<Rightarrow> TrimLeftSpace (drop (length e) s))"
  by pat_completeness auto
termination
proof (relation "measure length")
  fix s e assume "List.find (HasPrefix s) space_strings = Some e"
  from find_space_length [OF this] have "0 < length e" "take (length e) s = e"
    by (simp_all add: HasPrefix_def)
  then have "0 < length e" "length e \<le> length s" by (metis, metis length_take min.cobounded1)
  then show "(drop (length e) s, s) \<in> measure length" by (cases s) auto
qed simp

declare TrimRightSpace.simps [simp del] TrimLeftSpace.simps [simp del]

definition TrimSpace :: "string \<Rightarrow> string" where
  "TrimSpace s = TrimRightSpace (TrimLeftSpace s)"

section \<open>Case\<close>

definition lower_rune :: "(rune \<Rightarrow> rune) \<Rightarrow> rune \<Rightarrow> rune" where
  "lower_rune uni r = (if r < 0x80 then (if 65 \<le> r \<and> r \<le> 90 then r + 32 else r) else uni r)"

definition upper_rune :: "(rune \<Rightarrow> rune) \<Rightarrow> rune \<Rightarrow> rune" where
  "upper_rune uni r = (if r < 0x80 then (if 97 \<le> r \<and> r \<le> 122 then r - 32 else r) else uni r)"

text \<open>\<open>strings.ToLower\<close> and \<open>strings.ToUpper\<close>; like \<open>strings.Map\<close>, they replace invalid bytes.\<close>

definition ToLower :: "(rune \<Rightarrow> rune) \<Rightarrow> string \<Rightarrow> string" where
  "ToLower uni s = string_of_runes (map (lower_rune uni) (runes s))"

definition ToUpper :: "(rune \<Rightarrow> rune) \<Rightarrow> string \<Rightarrow> string" where
  "ToUpper uni s = string_of_runes (map (upper_rune uni) (runes s))"

text \<open>
  \<open>strings.EqualFold(s, t)\<close> for an ASCII \<open>t\<close>: the only runes outside ASCII whose simple case
  folding has an ASCII member are U+017F (long s) and U+212A (Kelvin sign).
\<close>

definition fold_rune :: "rune \<Rightarrow> rune" where
  "fold_rune r = (if r = 0x17F then 115 else if r = 0x212A then 107
     else if 65 \<le> r \<and> r \<le> 90 then r + 32 else r)"

definition EqualFold :: "string \<Rightarrow> string \<Rightarrow> bool" where
  "EqualFold s t \<longleftrightarrow> map fold_rune (runes s) = map fold_rune (runes t)"

definition code :: "char \<Rightarrow> nat" where
  "code c = of_char c"

section \<open>Runes of concatenated strings\<close>

lemma runes_Nil [simp]: "runes [] = []"
  by (simp add: runes_def str_bytes_def utf8_runes.simps [of "[]"])

lemma utf8_runes_encode_append:
  "list_all scalar rs \<Longrightarrow> utf8_runes (concat (map EncodeRune rs) @ p) = rs @ utf8_runes p"
proof (induction rs)
  case (Cons r rs)
  then show ?case
    using DecodeRune_EncodeRune [of r "concat (map EncodeRune rs) @ p"]
    by (subst utf8_runes.simps) simp
qed simp

lemma runes_append:
  assumes "list_all scalar rs"
  shows "runes (string_of_runes rs @ t) = rs @ runes t"
proof -
  have "map (unat o (word_of_nat :: nat \<Rightarrow> byte)) (concat (map EncodeRune rs)) = concat (map EncodeRune rs)"
    by (rule map_idI) (auto simp: unat_of_nat dest: EncodeRune_bytes)
  then show ?thesis
    using utf8_runes_encode_append [OF assms, of "map unat (str_bytes t)"]
    by (simp add: runes_def string_of_runes_def str_bytes_def bytes_str_def o_def)
qed

lemma runes_append_valid: "valid_utf8 s \<Longrightarrow> runes (s @ t) = runes s @ runes t"
  using runes_append [OF runes_scalar, of s t] by (simp add: valid_utf8_def)

lemma string_of_runes_append [simp]: "string_of_runes (rs @ qs) = string_of_runes rs @ string_of_runes qs"
  by (simp add: string_of_runes_def bytes_str_def)

lemma string_of_runes_Nil [simp]: "string_of_runes [] = []"
  by (simp add: string_of_runes_def bytes_str_def)

lemma EncodeRune_high: "128 \<le> r \<Longrightarrow> b \<in> set (EncodeRune r) \<Longrightarrow> 128 \<le> b"
  by (auto simp: EncodeRune_def Let_def scalar_def RuneError_def split: if_splits)

lemma string_of_ascii: "r < 128 \<Longrightarrow> string_of_runes [r] = [char_of r]"
  by (simp add: string_of_runes_def bytes_str_def EncodeRune_def scalar_def byte_char_def unat_of_nat)

lemma string_of_code: "code c < 128 \<Longrightarrow> string_of_runes [code c] = [c]"
  by (simp add: string_of_ascii code_def)

lemma runes_ascii: "code c < 128 \<Longrightarrow> runes (c # t) = code c # runes t"
  using runes_append [of "[code c]" t] by (simp add: string_of_ascii scalar_def code_def)

lemma char_of_high:
  assumes "128 \<le> r" "code q < 128" shows "q \<notin> set (string_of_runes [r])"
proof
  assume "q \<in> set (string_of_runes [r])"
  then obtain b where b: "b \<in> set (EncodeRune r)" "q = char_of (unat (word_of_nat b :: byte))"
    by (auto simp: string_of_runes_def bytes_str_def byte_char_def)
  then have "b < 256" "128 \<le> b" using EncodeRune_bytes EncodeRune_high [OF assms(1)] by auto
  with b(2) have "code q = b" by (simp add: code_def unat_of_nat)
  with assms(2) \<open>128 \<le> b\<close> show False by simp
qed

definition double_runes :: "rune \<Rightarrow> rune list \<Rightarrow> rune list" where
  "double_runes q rs = concat (map (\<lambda>r. if r = q then [q, q] else [r]) rs)"

lemma double_none: "q \<notin> set s \<Longrightarrow> double q s = s"
  by (induction s) auto

lemma double_string_of_runes:
  assumes "code q < 128"
  shows "double q (string_of_runes rs) = string_of_runes (double_runes (code q) rs)"
proof (induction rs)
  case Nil
  then show ?case by (simp add: double_runes_def)
next
  case (Cons r rs)
  have one: "double q (string_of_runes [r]) = string_of_runes (if r = code q then [code q, code q] else [r])"
  proof (cases "r < 128")
    case True
    with assms show ?thesis
      using string_of_runes_append [of "[code q]" "[code q]"]
      by (auto simp: string_of_ascii code_def)
  next
    case False
    then show ?thesis using double_none [OF char_of_high [OF _ assms, of r]] assms by auto
  qed
  have "double q (string_of_runes ([r] @ rs)) = double q (string_of_runes [r]) @ double q (string_of_runes rs)"
    by (simp only: string_of_runes_append double_append)
  also have "\<dots> = string_of_runes ((if r = code q then [code q, code q] else [r]) @ double_runes (code q) rs)"
    by (simp only: one Cons.IH string_of_runes_append)
  finally show ?case by (simp add: double_runes_def)
qed

lemma scalar_double_runes: "list_all scalar rs \<Longrightarrow> scalar q \<Longrightarrow> list_all scalar (double_runes q rs)"
  by (induction rs) (auto simp: double_runes_def)

lemma runes_double:
  assumes "valid_utf8 v" "code q < 128"
  shows "runes (double q v @ t) = double_runes (code q) (runes v) @ runes t"
proof -
  have v: "v = string_of_runes (runes v)" using assms by (simp add: valid_utf8_def)
  have "scalar (code q)" using assms(2) by (simp add: scalar_def)
  from runes_append [OF scalar_double_runes [OF runes_scalar this], of v t]
  show ?thesis by (subst v) (simp only: double_string_of_runes [OF assms(2)])
qed

lemma runes_ascii_string: "list_all (\<lambda>c. code c < 128) s \<Longrightarrow> runes s = map code s"
  by (induction s) (simp_all add: runes_ascii)

lemma valid_ascii: "list_all (\<lambda>c. code c < 128) s \<Longrightarrow> valid_utf8 s"
proof (induction s)
  case (Cons c s)
  then have "string_of_runes ([code c] @ map code s) = c # s"
    using runes_ascii_string [of s] by (simp only: string_of_runes_append)
      (simp add: valid_utf8_def string_of_ascii code_def)
  then show ?case using runes_ascii_string [of "c # s"] Cons.prems by (simp add: valid_utf8_def)
qed (simp add: valid_utf8_def)

lemma space_string_chars:
  assumes "e \<in> set space_strings" "c \<in> set e" "code c < 128"
  shows "code c \<in> {9, 10, 11, 12, 13, 32}"
proof -
  obtain r where r: "r \<in> set space_runes" "e = string_of_runes [r]"
    using assms(1) by (auto simp: space_strings_def)
  have "r < 128" using char_of_high [OF _ assms(3), of r] assms(2) r(2) by (metis not_less)
  with r assms(2) show ?thesis by (auto simp: string_of_ascii code_def space_runes_def)
qed

lemma TrimRightSpace_id:
  assumes "s \<noteq> []" "code (last s) < 128" "code (last s) \<notin> {9, 10, 11, 12, 13, 32}"
  shows "TrimRightSpace s = s"
proof -
  have "\<not> HasSuffix s e" if e: "e \<in> set space_strings" for e
  proof
    assume "HasSuffix s e"
    moreover have "e \<noteq> []" using space_string_length [OF e] by simp
    ultimately have "last s \<in> set e" by (metis HasSuffix_def last_appendR last_in_set append_take_drop_id)
    with space_string_chars [OF e] assms show False by blast
  qed
  then have "List.find (HasSuffix s) space_strings = None" by (simp add: find_None_iff)
  then show ?thesis by (simp add: TrimRightSpace.simps)
qed

lemma TrimLeftSpace_id:
  assumes "s \<noteq> []" "code (hd s) < 128" "code (hd s) \<notin> {9, 10, 11, 12, 13, 32}"
  shows "TrimLeftSpace s = s"
proof -
  have "\<not> HasPrefix s e" if e: "e \<in> set space_strings" for e
  proof
    assume "HasPrefix s e"
    moreover have "e \<noteq> []" using space_string_length [OF e] by simp
    ultimately have "hd s \<in> set e"
      by (metis HasPrefix_def hd_in_set hd_append2 append_take_drop_id)
    with space_string_chars [OF e] assms show False by blast
  qed
  then have "List.find (HasPrefix s) space_strings = None" by (simp add: find_None_iff)
  then show ?thesis by (simp add: TrimLeftSpace.simps)
qed

lemma ToLower_ascii:
  "list_all (\<lambda>c. code c < 128 \<and> \<not> (65 \<le> code c \<and> code c \<le> 90)) s \<Longrightarrow> ToLower uni s = s"
proof -
  assume a: "list_all (\<lambda>c. code c < 128 \<and> \<not> (65 \<le> code c \<and> code c \<le> 90)) s"
  then have "list_all (\<lambda>c. code c < 128) s" by (simp add: list_all_iff)
  moreover from this have "map (lower_rune uni) (runes s) = runes s"
    using a runes_ascii_string by (auto simp: lower_rune_def list_all_iff)
  ultimately show ?thesis using valid_ascii by (simp add: ToLower_def valid_utf8_def)
qed

section \<open>strconv\<close>

definition ParseBool :: "string \<Rightarrow> bool option" where
  "ParseBool s =
     (if s \<in> {''1'', ''t'', ''T'', ''TRUE'', ''true'', ''True''} then Some True
      else if s \<in> {''0'', ''f'', ''F'', ''FALSE'', ''false'', ''False''} then Some False else None)"

text \<open>The digit a byte stands for, in any base up to 36.\<close>

definition digit_val :: "char \<Rightarrow> nat option" where
  "digit_val c =
     (if 48 \<le> code c \<and> code c \<le> 57 then Some (code c - 48)
      else if 97 \<le> code c \<and> code c \<le> 122 then Some (code c - 97 + 10)
      else if 65 \<le> code c \<and> code c \<le> 90 then Some (code c - 65 + 10) else None)"

fun parse_digits :: "bool \<Rightarrow> nat \<Rightarrow> nat \<Rightarrow> nat \<Rightarrow> string \<Rightarrow> nat option" where
  "parse_digits base0 base bits n [] = Some n"
| "parse_digits base0 base bits n (c # s) =
     (if c = CHR ''_'' \<and> base0 then parse_digits base0 base bits n s
      else (case digit_val c of
              None \<Rightarrow> None
            | Some d \<Rightarrow>
                if base \<le> d then None
                else if 2 ^ bits \<le> n * base + d then None
                else parse_digits base0 base bits (n * base + d) s))"

text \<open>\<open>underscoreOK\<close>, on a number whose other bytes are digits: an underscore follows and precedes a digit.\<close>

fun underscore_ok :: "bool \<Rightarrow> string \<Rightarrow> bool" where
  "underscore_ok saw_digit [] = True"
| "underscore_ok saw_digit (c # s) =
     (if c = CHR ''_'' then saw_digit \<and> s \<noteq> [] \<and> underscore_ok False s else underscore_ok True s)"

definition base_prefix :: "string \<Rightarrow> nat \<times> string \<times> bool" where
  "base_prefix s =
     (case s of
        CHR ''0'' # x # y # r \<Rightarrow>
          if x \<in> {CHR ''b'', CHR ''B''} then (2, y # r, True)
          else if x \<in> {CHR ''o'', CHR ''O''} then (8, y # r, True)
          else if x \<in> {CHR ''x'', CHR ''X''} then (16, y # r, True)
          else (8, x # y # r, True)
      | CHR ''0'' # r \<Rightarrow> (8, r, True)
      | _ \<Rightarrow> (10, s, False))"

text \<open>\<open>strconv.ParseUint(s, base, bits)\<close> for base 10 and base 0; \<open>None\<close> stands for its error.\<close>

definition ParseUint :: "string \<Rightarrow> nat \<Rightarrow> nat \<Rightarrow> nat option" where
  "ParseUint s base bits =
     (if s = [] then None
      else if base = 0 then
        (case base_prefix s of (b, r, pre) \<Rightarrow>
           (case parse_digits True b bits 0 r of
              None \<Rightarrow> None
            | Some n \<Rightarrow> if CHR ''_'' \<in> set r \<and> \<not> underscore_ok pre r then None else Some n))
      else parse_digits False base bits 0 s)"

lemma parse_digits_bound: "n < 2 ^ bits \<Longrightarrow> parse_digits b base bits n s = Some v \<Longrightarrow> v < 2 ^ bits"
  by (induction b base bits n s rule: parse_digits.induct) (auto split: if_splits option.splits)

lemma ParseUint_bound: "ParseUint s base bits = Some v \<Longrightarrow> v < 2 ^ bits"
  by (auto simp: ParseUint_def split: if_splits prod.splits option.splits dest: parse_digits_bound [rotated])

end
