(* ===== verification/Date_Time.thy ===== *)
theory Date_Time
  imports Go_Prelude "HOL-Library.Signed_Division"
begin

text \<open>
  Dates and times, \<open>src/types.go\<close>: the encodings of \<open>smalldatetime\<close>,
  \<open>datetime\<close>, \<open>date\<close>, \<open>time\<close>, \<open>datetime2\<close> and
  \<open>datetimeoffset\<close>. A \<open>time.Time\<close> is its wall clock in a location with a fixed
  offset from UTC; locations whose offset changes over the year are not modelled. The two
  conversions that go through \<open>float64\<close> on small integers are written as the exact
  integer functions they compute.
\<close>

named_theorems date_defs

section \<open>time.Time\<close>

text \<open>Days are counted from January 1st of the year 1 of the proleptic Gregorian calendar.\<close>

record time =
  t_day :: int
  t_ns :: int
  t_zone :: int

definition day_ns :: int where "day_ns = 86400 * 10 ^ 9"

definition time_ok :: "time \<Rightarrow> bool" where
  "time_ok t \<longleftrightarrow> 0 \<le> t_ns t \<and> t_ns t < day_ns"

text \<open>
  \<open>time.Date\<close> at midnight of a given day, plus seconds and nanoseconds that may exceed
  their ranges and are carried into the day.
\<close>

definition time_Date :: "int \<Rightarrow> int \<Rightarrow> int \<Rightarrow> int \<Rightarrow> time" where
  "time_Date day sec ns zone =
     (let s = sec + ns div 10 ^ 9 in
      \<lparr>t_day = day + s div 86400, t_ns = (s mod 86400) * 10 ^ 9 + ns mod 10 ^ 9, t_zone = zone\<rparr>)"

text \<open>The instant, in nanoseconds UTC, and \<open>t.In(time.UTC)\<close>.\<close>

definition instant :: "time \<Rightarrow> int" where
  "instant t = t_day t * day_ns + t_ns t - t_zone t * 10 ^ 9"

definition in_UTC :: "time \<Rightarrow> time" where
  "in_UTC t = \<lparr>t_day = instant t div day_ns, t_ns = instant t mod day_ns, t_zone = 0\<rparr>"

text \<open>\<open>t.Year()\<close> and \<open>t.YearDay()\<close>: cycles of 400, 100, 4 and 1 years.\<close>

definition Year :: "time \<Rightarrow> int" where
  "Year t =
     (let r = t_day t mod 146097; n100 = min 3 (r div 36524); r1 = r - 36524 * n100;
          r2 = r1 mod 1461
      in 400 * (t_day t div 146097) + 100 * n100 + 4 * (r1 div 1461) + min 3 (r2 div 365) + 1)"

definition YearDay :: "time \<Rightarrow> int" where
  "YearDay t =
     (let r = t_day t mod 146097; n100 = min 3 (r div 36524); r1 = r - 36524 * n100;
          r2 = r1 mod 1461
      in r2 - 365 * min 3 (r2 div 365) + 1)"

definition Hour :: "time \<Rightarrow> int" where "Hour t = t_ns t div (3600 * 10 ^ 9)"
definition Minute :: "time \<Rightarrow> int" where "Minute t = t_ns t div (60 * 10 ^ 9) mod 60"
definition Second :: "time \<Rightarrow> int" where "Second t = t_ns t div 10 ^ 9 mod 60"
definition Nanosecond :: "time \<Rightarrow> int" where "Nanosecond t = t_ns t mod 10 ^ 9"

text \<open>\<open>t.Sub(u)\<close>: a duration of 64 bits, saturating.\<close>

definition time_Sub :: "time \<Rightarrow> time \<Rightarrow> int" where
  "time_Sub t u = max (- (2 ^ 63)) (min (2 ^ 63 - 1) (instant t - instant u))"

section \<open>Calendar arithmetic of the driver\<close>

definition gregorianDays :: "int \<Rightarrow> int \<Rightarrow> int" where
  "gregorianDays year yearday =
     (let year0 = year - 1
      in year0 * 365 + year0 sdiv 4 - year0 sdiv 100 + year0 sdiv 400 + yearday - 1)"

definition dateTime2 :: "time \<Rightarrow> int \<times> int \<times> int" where
  "dateTime2 t =
     (let days = gregorianDays (Year t) (YearDay t);
          seconds = Second t + Minute t * 60 + Hour t * 60 * 60;
          ns = Nanosecond t;
          (days, seconds, ns) = (if days < 0 then (0, 0, 0) else (days, seconds, ns));
          mx = gregorianDays 9999 365
      in if mx < days then (mx, 59 + 59 * 60 + 23 * 60 * 60, 999999900) else (days, seconds, ns))"

section \<open>Bytes\<close>

text \<open>\<open>byte(x)\<close>, \<open>byte(x >> 8)\<close>, ... of a signed integer.\<close>

primrec int_bytes :: "nat \<Rightarrow> int \<Rightarrow> bytes" where
  "int_bytes 0 x = []"
| "int_bytes (Suc n) x = word_of_int x # int_bytes n (x div 256)"

fun decodeDateInt :: "bytes \<Rightarrow> fault + int" where
  "decodeDateInt (b0 # b1 # b2 # _) = Inr (uint b0 + uint b1 * 256 + uint b2 * 256 * 256)"
| "decodeDateInt _ = Inl (RuntimePanic ''index out of range'')"

fun Uint16 :: "bytes \<Rightarrow> fault + u16" where
  "Uint16 (b0 # b1 # _) = Inr (le_word [b0, b1])"
| "Uint16 _ = Inl (RuntimePanic ''index out of range'')"

fun Uint32 :: "bytes \<Rightarrow> fault + u32" where
  "Uint32 (b0 # b1 # b2 # b3 # _) = Inr (le_word [b0, b1, b2, b3])"
| "Uint32 _ = Inl (RuntimePanic ''index out of range'')"

section \<open>smalldatetime and datetime\<close>

definition base1900 :: int where "base1900 = gregorianDays 1900 1"

definition decodeDateTim4 :: "bytes \<Rightarrow> int \<Rightarrow> fault + time" where
  "decodeDateTim4 buf loc =
     sbind (Uint16 buf) (\<lambda>days. sbind (Uint16 (drop 2 buf)) (\<lambda>mins.
       Inr (time_Date (base1900 + uint days) (uint mins * 60) 0 loc)))"

definition encodeDateTim4 :: "time \<Rightarrow> int \<Rightarrow> bytes" where
  "encodeDateTim4 val loc =
     (let ref = time_Date base1900 0 0 loc;
          days = time_Sub val ref sdiv day_ns;
          mins = Hour val * 60 + Minute val;
          (days, mins) = (if days < 0 then (0, 0) else (days, mins))
      in le_bytes 2 (word_of_int days :: u16) @ le_bytes 2 (word_of_int mins :: u16))"

text \<open>
  \<open>int(math.Trunc(float64(ths)/0.3+0.5)) * 1000000\<close> for \<open>ths\<close> below 300, and
  \<open>int(math.Round(float64(ns) * 3 / 1e7))\<close> for \<open>ns\<close> below \<open>10 ^ 9\<close>.
\<close>

definition threeHundredthsOfASecondToNanos :: "int \<Rightarrow> int" where
  "threeHundredthsOfASecondToNanos ths = (20 * ths + 3) div 6 * 1000000"

definition nanosToThreeHundredthsOfASecond :: "int \<Rightarrow> int" where
  "nanosToThreeHundredthsOfASecond ns = (6 * ns + 10 ^ 7) div (2 * 10 ^ 7)"

definition encodeDateTime :: "time \<Rightarrow> bytes" where
  "encodeDateTime t =
     (let basedays = gregorianDays 1900 1;
          days = gregorianDays (Year t) (YearDay t) - basedays;
          tm = 300 * (Second t + Minute t * 60 + Hour t * 60 * 60)
               + nanosToThreeHundredthsOfASecond (Nanosecond t);
          (days, tm) = (if 300 * 86400 \<le> tm then (days + 1, tm - 300 * 86400) else (days, tm));
          mindays = gregorianDays 1753 1 - basedays;
          maxdays = gregorianDays 9999 365 - basedays;
          (days, tm) = (if days < mindays then (mindays, 0) else (days, tm));
          (days, tm) = (if maxdays < days then (maxdays, (23 * 60 * 60 + 59 * 60 + 59) * 300 + 299)
                        else (days, tm))
      in le_bytes 4 (word_of_int days :: u32) @ le_bytes 4 (word_of_int tm :: u32))"

definition decodeDateTime :: "bytes \<Rightarrow> int \<Rightarrow> fault + time" where
  "decodeDateTime buf loc =
     sbind (Uint32 buf) (\<lambda>d. sbind (Uint32 (drop 4 buf)) (\<lambda>tm.
       Inr (time_Date (base1900 + sint d) (uint tm div 300)
              (threeHundredthsOfASecondToNanos (uint tm mod 300)) loc)))"

section \<open>date, time, datetime2, datetimeoffset\<close>

definition decodeDate :: "bytes \<Rightarrow> int \<Rightarrow> fault + time" where
  "decodeDate buf loc = sbind (decodeDateInt buf) (\<lambda>days. Inr (time_Date days 0 0 loc))"

definition encodeDate :: "time \<Rightarrow> bytes" where
  "encodeDate val = int_bytes 3 (fst (dateTime2 val))"

definition decodeTimeInt :: "nat \<Rightarrow> bytes \<Rightarrow> int \<times> int" where
  "decodeTimeInt scale buf =
     (let acc = le_word buf * 10 ^ (7 - scale) :: u64; nsbig = acc * 100
      in (sint (nsbig div 1000000000), sint (nsbig mod 1000000000)))"

definition calcTimeSize :: "nat \<Rightarrow> nat" where
  "calcTimeSize scale = (if scale \<le> 2 then 3 else if scale \<le> 4 then 4 else 5)"

text \<open>
  \<open>encodeTimeInt\<close> fills the first \<open>calcTimeSize(scale)\<close> bytes of its buffer; here it
  returns them. The divisor \<open>int64(math.Pow10(-scale)*1e9)\<close> is \<open>10 ^ (9 - scale)\<close>,
  and 0 from scale 10 on.
\<close>

definition encodeTimeInt :: "int \<Rightarrow> int \<Rightarrow> nat \<Rightarrow> fault + bytes" where
  "encodeTimeInt seconds ns scale =
     (if 9 < scale then Inl (RuntimePanic ''integer divide by zero'')
      else Inr (int_bytes (calcTimeSize scale)
                  ((seconds * 1000 * 1000 * 1000 + ns) sdiv 10 ^ (9 - scale))))"

definition decodeTime :: "nat \<Rightarrow> bytes \<Rightarrow> int \<Rightarrow> time" where
  "decodeTime scale buf loc = (let (sec, ns) = decodeTimeInt scale buf in time_Date 0 sec ns loc)"

definition encodeTime :: "int \<Rightarrow> int \<Rightarrow> int \<Rightarrow> int \<Rightarrow> nat \<Rightarrow> fault + bytes" where
  "encodeTime hour minute second ns scale =
     encodeTimeInt (hour * 3600 + minute * 60 + second) ns scale"

definition decodeDateTime2 :: "nat \<Rightarrow> bytes \<Rightarrow> int \<Rightarrow> fault + time" where
  "decodeDateTime2 scale buf loc =
     (if length buf < 3 then Inl (RuntimePanic ''slice bounds out of range'')
      else let timesize = length buf - 3; (sec, ns) = decodeTimeInt scale (take timesize buf)
           in sbind (decodeDateInt (drop timesize buf)) (\<lambda>days. Inr (time_Date days sec ns loc)))"

definition encodeDateTime2 :: "time \<Rightarrow> nat \<Rightarrow> fault + bytes" where
  "encodeDateTime2 val scale =
     (let (days, seconds, ns) = dateTime2 val
      in sbind (encodeTimeInt seconds ns scale) (\<lambda>tm. Inr (tm @ int_bytes 3 days)))"

definition decodeDateTimeOffset :: "nat \<Rightarrow> bytes \<Rightarrow> fault + time" where
  "decodeDateTimeOffset scale buf =
     (if length buf < 5 then Inl (RuntimePanic ''slice bounds out of range'')
      else let timesize = length buf - 3 - 2; (sec, ns) = decodeTimeInt scale (take timesize buf);
               buf = drop timesize buf
           in sbind (decodeDateInt (take 3 buf)) (\<lambda>days. sbind (Uint16 (drop 3 buf)) (\<lambda>o16.
                Inr (time_Date days (sec + sint o16 * 60) ns (sint o16 * 60)))))"

definition encodeDateTimeOffset :: "time \<Rightarrow> nat \<Rightarrow> fault + bytes" where
  "encodeDateTimeOffset val scale =
     (let (days, seconds, ns) = dateTime2 (in_UTC val); offset = t_zone val sdiv 60
      in sbind (encodeTimeInt seconds ns scale) (\<lambda>tm. Inr (tm @ int_bytes 3 days @ int_bytes 2 offset)))"

section \<open>The calendar\<close>

lemma gregorianDays_pos:
  "1 \<le> y \<Longrightarrow> gregorianDays y yd = (y - 1) * 365 + (y - 1) div 4 - (y - 1) div 100 + (y - 1) div 400 + yd - 1"
  by (simp add: gregorianDays_def Let_def signed_divide_int_def sgn_if)

text \<open>A day number as cycles of 400, 100 and 4 years, years and a rest.\<close>

lemma year_cycles:
  obtains a b c e r where "t_day t = 146097 * a + 36524 * b + 1461 * c + r"
    "0 \<le> b" "b \<le> 3" "0 \<le> c" "c \<le> 24" "0 \<le> e" "e \<le> 3" "0 \<le> r" "r < 1461"
    "Year t = 400 * a + 100 * b + 4 * c + e + 1" "YearDay t = r - 365 * e + 1"
    "a = t_day t div 146097"
proof -
  define a where "a = t_day t div 146097"
  define s where "s = t_day t mod 146097"
  define b where "b = min 3 (s div 36524)"
  define r1 where "r1 = s - 36524 * b"
  define c where "c = r1 div 1461"
  define r where "r = r1 mod 1461"
  define e where "e = min 3 (r div 365)"
  have s: "t_day t = 146097 * a + s" "0 \<le> s" "s < 146097" by (simp_all add: a_def s_def)
  have b: "0 \<le> b" "b \<le> 3" "0 \<le> r1" "r1 \<le> 36524"
    using s(2,3) unfolding b_def r1_def by linarith+
  have r1: "r1 = 1461 * c + r" "0 \<le> r" "r < 1461" "0 \<le> c" "c \<le> 24"
    using b by (auto simp: c_def r_def)
  have e: "0 \<le> e" "e \<le> 3" using r1(2) unfolding e_def by linarith+
  have Y: "Year t = 400 * a + 100 * b + 4 * c + e + 1" "YearDay t = r - 365 * e + 1"
    unfolding Year_def YearDay_def Let_def a_def s_def b_def r1_def c_def r_def e_def by (rule refl)+
  have "t_day t = 146097 * a + 36524 * b + 1461 * c + r" using s r1 by (simp add: r1_def)
  with b(1,2) r1(2-5) e Y show ?thesis using that a_def by blast
qed

lemma gregorianDays_Year:
  assumes "0 \<le> t_day t"
  shows "gregorianDays (Year t) (YearDay t) = t_day t"
proof -
  obtain a b c e r where d: "t_day t = 146097 * a + 36524 * b + 1461 * c + r"
    and bd: "0 \<le> b" "b \<le> 3" "0 \<le> c" "c \<le> 24" "0 \<le> e" "e \<le> 3" "0 \<le> r" "r < 1461"
    and Y: "Year t = 400 * a + 100 * b + 4 * c + e + 1" "YearDay t = r - 365 * e + 1"
    and a: "a = t_day t div 146097" by (rule year_cycles)
  have a0: "0 \<le> a" using a assms by (simp add: pos_imp_zdiv_nonneg_iff)
  have "(400 * a + 100 * b + 4 * c + e) div 4 = 100 * a + 25 * b + c"
    "(400 * a + 100 * b + 4 * c + e) div 100 = 4 * a + b"
    "(400 * a + 100 * b + 4 * c + e) div 400 = a"
    using bd by linarith+
  then have "gregorianDays (Year t) (YearDay t) = 146097 * a + 36524 * b + 1461 * c + r"
    using Y a0 bd by (subst gregorianDays_pos) simp_all
  with d show ?thesis by simp
qed

lemma clock_total:
  assumes "0 \<le> t_ns t"
  shows "Second t + Minute t * 60 + Hour t * 60 * 60 = t_ns t div 10 ^ 9"
    "(Second t + Minute t * 60 + Hour t * 60 * 60) * 1000 * 1000 * 1000 + Nanosecond t = t_ns t"
proof -
  define s where "s = t_ns t div 10 ^ 9"
  have h: "Hour t = s div 60 div 60" "Minute t = s div 60 mod 60" "Second t = s mod 60"
    using zdiv_zmult2_eq [of "10 ^ 9 * 60" "t_ns t" 60] zdiv_zmult2_eq [of "10 ^ 9" "t_ns t" 60]
      zdiv_zmult2_eq [of 60 "t_ns t div 10 ^ 9" 60] zdiv_zmult2_eq [of 60 "t_ns t" "10 ^ 9"]
    by (simp_all add: Hour_def Minute_def Second_def s_def zdiv_zmult2_eq [symmetric])
  show sec: "Second t + Minute t * 60 + Hour t * 60 * 60 = t_ns t div 10 ^ 9"
    unfolding h using div_mult_mod_eq [of s 60] div_mult_mod_eq [of "s div 60" 60] s_def by linarith
  show "(Second t + Minute t * 60 + Hour t * 60 * 60) * 1000 * 1000 * 1000 + Nanosecond t = t_ns t"
    unfolding sec Nanosecond_def by (simp add: mult.assoc)
qed

lemma int_bytes_le:
  "0 \<le> x \<Longrightarrow> x < 2 ^ 64 \<Longrightarrow> int_bytes n x = le_bytes n (word_of_int x :: u64)"
proof (induction n arbitrary: x)
  case (Suc n)
  have "drop_bit 8 (word_of_int x :: u64) = word_of_int (x div 256)"
  proof -
    have u: "uint (word_of_int x :: u64) = x" "uint (word_of_int (x div 256) :: u64) = x div 256"
      using Suc.prems by (auto simp: uint_word_of_int_eq intro!: take_bit_int_eq_self)
    have "uint (drop_bit 8 (word_of_int x :: u64)) = x div 256"
      using u(1) by (simp add: drop_bit_eq_div uint_div)
    with u(2) show ?thesis by (metis word_uint_eq_iff)
  qed
  moreover have "ucast (word_of_int x :: u64) = (word_of_int x :: byte)"
    by (rule bit_word_eqI) (simp add: bit_simps)
  ultimately show ?case using Suc.IH [of "x div 256"] Suc.prems by simp
qed simp

lemma le_word_int_bytes:
  assumes "0 \<le> x" "x < 256 ^ n" "n \<le> 7"
  shows "uint (le_word (int_bytes n x) :: u64) = x"
proof -
  have "(256 :: int) ^ n \<le> 256 ^ 7" using assms(3) by (intro power_increasing) auto
  then have x: "x < 2 ^ 64" using assms(2) by simp
  have "x < 2 ^ (8 * n)" using assms(2) by (simp add: power_mult)
  with x assms(1) show ?thesis
    by (simp add: int_bytes_le le_word_le_bytes unsigned_take_bit_eq take_bit_int_eq_self uint_word_of_int_eq)
qed

lemma decodeDateInt_bytes:
  assumes "0 \<le> d" "d < 2 ^ 24" shows "decodeDateInt (int_bytes 3 d @ xs) = Inr d"
proof -
  have "d div 256 div 256 mod 256 = d div 256 div 256" using assms by simp
  moreover have "d mod 256 + d div 256 mod 256 * 256 + 65536 * (d div 256 div 256) = d"
    using div_mult_mod_eq [of d 256] div_mult_mod_eq [of "d div 256" 256] by linarith
  ultimately show ?thesis
    by (simp add: numeral_3_eq_3 uint_word_of_int_eq take_bit_eq_mod)
qed


lemma sint_small: "uint (w :: u64) < 2 ^ 63 \<Longrightarrow> sint w = uint w"
  unfolding sint_uint
  by (rule signed_take_bit_int_eq_self, rule order_trans [OF _ unsigned_greater_eq]) simp_all

text \<open>A time of day cut to the resolution of a scale.\<close>

definition cut :: "nat \<Rightarrow> time \<Rightarrow> time" where
  "cut scale t = t\<lparr>t_ns := t_ns t div 10 ^ (9 - scale) * 10 ^ (9 - scale)\<rparr>"

lemma scale_cases:
  assumes "(s :: nat) \<le> 7"
  obtains "s = 0" | "s = 1" | "s = 2" | "s = 3" | "s = 4" | "s = 5" | "s = 6" | "s = 7"
  using assms by linarith

lemma time_fits:
  assumes "0 \<le> x" "x < day_ns" "s \<le> 7"
  shows "x div 10 ^ (9 - s) < 256 ^ calcTimeSize s"
  using assms(3)
  by (cases rule: scale_cases) (use assms in \<open>simp_all add: calcTimeSize_def day_ns_def\<close>)

lemma decodeTimeInt_bytes:
  assumes "0 \<le> x" "x < day_ns" "s \<le> 7"
  shows "decodeTimeInt s (int_bytes (calcTimeSize s) (x div 10 ^ (9 - s)))
    = (x div 10 ^ (9 - s) * 10 ^ (9 - s) div 10 ^ 9, x div 10 ^ (9 - s) * 10 ^ (9 - s) mod 10 ^ 9)"
proof -
  let ?T = "x div 10 ^ (9 - s)"
  let ?w = "le_word (int_bytes (calcTimeSize s) ?T) :: u64"
  have c7: "calcTimeSize s \<le> 7" by (simp add: calcTimeSize_def)
  have T0: "0 \<le> ?T" using assms(1) by (simp add: pos_imp_zdiv_nonneg_iff)
  have w: "uint ?w = ?T" by (rule le_word_int_bytes [OF T0 time_fits [OF assms] c7])
  have p: "(10 :: int) ^ (7 - s) * 100 = 10 ^ (9 - s)"
    using assms(3) by (cases rule: scale_cases) simp_all
  have le: "?T * 10 ^ (9 - s) \<le> x"
    using assms(1) by (metis div_mult_mod_eq le_add_same_cancel1 pos_mod_sign zero_less_power zero_less_numeral)
  have b: "?T * 10 ^ (9 - s) < 2 ^ 47" using le assms(2) by (simp add: day_ns_def)
  have "uint (?w * 10 ^ (7 - s) * 100) = ?T * 10 ^ (9 - s)"
  proof -
    have "?w * 10 ^ (7 - s) * 100 = word_of_int (?T * 10 ^ (7 - s) * 100)"
      using w by (metis (no_types, lifting) of_int_mult of_int_numeral of_int_power word_of_int_uint)
    also have "\<dots> = word_of_int (?T * 10 ^ (9 - s))" by (simp only: mult.assoc p)
    finally show ?thesis
      using b T0 by (simp add: uint_word_of_int_eq take_bit_int_eq_self del: of_int_mult)
  qed
  note u = this
  let ?n = "?w * 10 ^ (7 - s) * 100"
  have "uint (?n div 1000000000) = ?T * 10 ^ (9 - s) div 10 ^ 9" "uint (?n mod 1000000000) = ?T * 10 ^ (9 - s) mod 10 ^ 9"
    using u by (simp_all add: uint_div uint_mod)
  moreover have "?T * 10 ^ (9 - s) div 10 ^ 9 < 2 ^ 63" "?T * 10 ^ (9 - s) mod 10 ^ 9 < 2 ^ 63"
    using b T0 pos_mod_bound [of "10 ^ 9" "?T * 10 ^ (9 - s)"] by simp_all
  ultimately have "sint (?n div 1000000000) = ?T * 10 ^ (9 - s) div 10 ^ 9"
    "sint (?n mod 1000000000) = ?T * 10 ^ (9 - s) mod 10 ^ 9"
    by (metis sint_small)+
  then show ?thesis by (simp add: decodeTimeInt_def Let_def)
qed

lemma time_Date_clock:
  assumes "0 \<le> x" "x < day_ns"
  shows "time_Date d (x div 10 ^ 9) (x mod 10 ^ 9) z = \<lparr>t_day = d, t_ns = x, t_zone = z\<rparr>"
proof -
  have "x mod 10 ^ 9 div 10 ^ 9 = 0" by simp
  moreover have "x div 10 ^ 9 div 86400 = 0" "x div 10 ^ 9 mod 86400 = x div 10 ^ 9"
    using assms by (simp_all add: day_ns_def pos_imp_zdiv_nonneg_iff)
  ultimately show ?thesis by (simp add: time_Date_def Let_def)
qed

lemma dateTime2_in_range:
  assumes "time_ok t" "0 \<le> t_day t" "t_day t \<le> 3652058"
  shows "dateTime2 t = (t_day t, t_ns t div 10 ^ 9, t_ns t mod 10 ^ 9)"
proof -
  have mx: "gregorianDays 9999 365 = 3652058" by (simp add: gregorianDays_pos)
  have "0 \<le> t_ns t" using assms(1) by (simp add: time_ok_def)
  from clock_total(1) [OF this] show ?thesis
    using assms(2,3) by (simp add: dateTime2_def Let_def mx gregorianDays_Year Nanosecond_def)
qed

lemma encodeTimeInt_day:
  assumes "0 \<le> x" "s \<le> 7"
  shows "encodeTimeInt (x div 10 ^ 9) (x mod 10 ^ 9) s
    = Inr (int_bytes (calcTimeSize s) (x div 10 ^ (9 - s)))"
proof -
  have "x div 10 ^ 9 * 1000 * 1000 * 1000 + x mod 10 ^ 9 = x" by simp
  with assms show ?thesis
    by (simp add: encodeTimeInt_def signed_divide_int_def sgn_if pos_imp_zdiv_nonneg_iff)
qed

lemma length_int_bytes [simp]: "length (int_bytes n x) = n"
  by (induction n arbitrary: x) auto

lemma cut_bounds:
  assumes "0 \<le> x" "x < day_ns"
  shows "0 \<le> x div 10 ^ k * 10 ^ k" "x div 10 ^ k * 10 ^ k < day_ns"
proof -
  show "0 \<le> x div 10 ^ k * 10 ^ k" using assms(1) by (simp add: pos_imp_zdiv_nonneg_iff)
  have "x div 10 ^ k * 10 ^ k \<le> x"
    by (metis div_mult_mod_eq le_add_same_cancel1 pos_mod_sign zero_less_power zero_less_numeral)
  with assms(2) show "x div 10 ^ k * 10 ^ k < day_ns" by simp
qed

lemma decodeDateTime2_encode:
  assumes t: "time_ok t" "0 \<le> t_day t" "t_day t \<le> 3652058" and s: "s \<le> 7"
  shows "\<exists>buf. encodeDateTime2 t s = Inr buf \<and> decodeDateTime2 s buf loc = Inr ((cut s t)\<lparr>t_zone := loc\<rparr>)"
proof -
  have n: "0 \<le> t_ns t" "t_ns t < day_ns" using t(1) by (auto simp: time_ok_def)
  let ?b = "int_bytes (calcTimeSize s) (t_ns t div 10 ^ (9 - s))"
  have e: "encodeDateTime2 t s = Inr (?b @ int_bytes 3 (t_day t))"
    unfolding encodeDateTime2_def dateTime2_in_range [OF t] Let_def prod.case encodeTimeInt_day [OF n(1) s] by simp
  have d: "decodeDateInt (int_bytes 3 (t_day t)) = Inr (t_day t)"
    using decodeDateInt_bytes [of "t_day t" "[]"] t(2,3) by simp
  show ?thesis
    unfolding e by (rule exI, rule conjI [OF refl])
      (simp add: decodeDateTime2_def decodeTimeInt_bytes [OF n s] d cut_def
        time_Date_clock [OF cut_bounds [OF n], simplified])
qed

lemma sdiv_nonneg: "0 \<le> x \<Longrightarrow> 0 < y \<Longrightarrow> (x :: int) sdiv y = x div y"
  by (auto simp: signed_divide_int_def sgn_if)

lemma time_Date_shift:
  assumes "x + z * 10 ^ 9 = k * day_ns + y" "0 \<le> y" "y < day_ns"
  shows "time_Date d (x div 10 ^ 9 + z) (x mod 10 ^ 9) zz = \<lparr>t_day = d + k, t_ns = y, t_zone = zz\<rparr>"
proof -
  have "x div 10 ^ 9 + z = (x + z * 10 ^ 9) div 10 ^ 9" "x mod 10 ^ 9 = (x + z * 10 ^ 9) mod 10 ^ 9" by simp_all
  then have xz: "x div 10 ^ 9 + z = k * 86400 + y div 10 ^ 9" "x mod 10 ^ 9 = y mod 10 ^ 9"
    unfolding assms(1) by (simp_all add: day_ns_def mod_add_eq [symmetric] flip: mult.assoc)
  have "(k * 86400 + y div 10 ^ 9) div 86400 = k" "(k * 86400 + y div 10 ^ 9) mod 86400 = y div 10 ^ 9"
    using assms(2,3) by (simp_all add: day_ns_def pos_imp_zdiv_nonneg_iff)
  moreover have "y mod 10 ^ 9 div 10 ^ 9 = 0" by simp
  ultimately show ?thesis unfolding time_Date_def Let_def xz by simp
qed

lemma cut_shift:
  assumes "s \<le> 7" "(x :: int) + z * 10 ^ 9 = k * day_ns + y"
  shows "x div 10 ^ (9 - s) * 10 ^ (9 - s) + z * 10 ^ 9 = k * day_ns + y div 10 ^ (9 - s) * 10 ^ (9 - s)"
proof -
  let ?P = "10 ^ (9 - s) :: int"
  have p: "(10 :: int) ^ 9 = 10 ^ s * ?P" using assms(1) by (simp flip: power_add)
  have "(x + z * 10 ^ 9) div ?P = x div ?P + z * 10 ^ s" unfolding p mult.assoc [symmetric] by simp
  moreover have "(k * day_ns + y) div ?P = k * 86400 * 10 ^ s + y div ?P"
    unfolding day_ns_def p mult.assoc [symmetric] by simp
  ultimately have "x div ?P + z * 10 ^ s = k * 86400 * 10 ^ s + y div ?P" using assms(2) by simp
  then have "(x div ?P + z * 10 ^ s) * ?P = (k * 86400 * 10 ^ s + y div ?P) * ?P" by simp
  then show ?thesis unfolding day_ns_def p by (simp add: algebra_simps)
qed

lemma Uint16_int_bytes: "Uint16 (int_bytes 2 x @ ys) = Inr (word_of_int x)"
proof -
  have d: "x div 256 = drop_bit 8 x" by (simp add: drop_bit_eq_div)
  have "le_word [word_of_int x, word_of_int (x div 256)] = (word_of_int x :: u16)"
    unfolding d by (rule bit_word_eqI) (auto simp: bit_simps)
  then show ?thesis by (simp add: numeral_2_eq_2)
qed

lemma decodeDateTimeOffset_encode:
  assumes t: "time_ok t" "0 \<le> instant t" "instant t < 3652059 * day_ns" and s: "s \<le> 7"
    and z: "60 dvd t_zone t" "\<bar>t_zone t\<bar> < 60 * 2 ^ 15"
  shows "\<exists>buf. encodeDateTimeOffset t s = Inr buf \<and> decodeDateTimeOffset s buf = Inr (cut s t)"
proof -
  define u where "u = in_UTC t"
  have u: "time_ok u" "0 \<le> t_day u" "t_day u \<le> 3652058"
    using t(2,3) by (auto simp: u_def in_UTC_def time_ok_def day_ns_def pos_imp_zdiv_nonneg_iff)
  have n: "0 \<le> t_ns u" "t_ns u < day_ns" using u(1) by (auto simp: time_ok_def)
  have y: "0 \<le> t_ns t" "t_ns t < day_ns" using t(1) by (auto simp: time_ok_def)
  have "t_day u * day_ns + t_ns u = instant t" by (simp add: u_def in_UTC_def)
  then have eq: "t_ns u + t_zone t * 10 ^ 9 = (t_day t - t_day u) * day_ns + t_ns t"
    by (simp add: instant_def algebra_simps)
  obtain m where m: "t_zone t = 60 * m" using z(1) by (elim dvdE)
  have m15: "- (2 ^ 15) < m" "m < 2 ^ 15" using z(2) m by auto
  have off: "t_zone t sdiv 60 = m" by (simp add: m signed_divide_int_def sgn_if abs_mult)
  have sm: "sint (word_of_int m :: u16) = m"
    using m15 by (simp add: signed_of_int signed_take_bit_int_eq_self)
  let ?b = "int_bytes (calcTimeSize s) (t_ns u div 10 ^ (9 - s))"
  have e: "encodeDateTimeOffset t s = Inr (?b @ int_bytes 3 (t_day u) @ int_bytes 2 m)"
    unfolding encodeDateTimeOffset_def u_def [symmetric] dateTime2_in_range [OF u] Let_def prod.case
      encodeTimeInt_day [OF n(1) s] off by simp
  have d: "decodeDateInt (int_bytes 3 (t_day u)) = Inr (t_day u)"
    using decodeDateInt_bytes [of "t_day u" "[]"] u(2,3) by simp
  have "decodeDateTimeOffset s (?b @ int_bytes 3 (t_day u) @ int_bytes 2 m) = Inr (cut s t)"
    using Uint16_int_bytes [of m "[]"] time_Date_shift [OF cut_shift [OF s eq] cut_bounds [OF y], of "t_day u" "t_zone t"]
    by (simp add: decodeDateTimeOffset_def decodeTimeInt_bytes [OF n s] d sm m cut_def mult.commute)
  with e show ?thesis by blast
qed


lemma threeHundredths_inverse:
  "0 \<le> r \<Longrightarrow> r < 300 \<Longrightarrow> nanosToThreeHundredthsOfASecond (threeHundredthsOfASecondToNanos r) = r"
proof -
  define m where "m = (20 * r + 3) div 6"
  have "6 * m \<le> 20 * r + 3" "20 * r + 3 < 6 * m + 6" unfolding m_def by linarith+
  then show ?thesis
    by (simp add: nanosToThreeHundredthsOfASecond_def threeHundredthsOfASecondToNanos_def flip: m_def)
qed

lemma threeHundredths_bounds:
  "0 \<le> r \<Longrightarrow> r < 300 \<Longrightarrow> 0 \<le> threeHundredthsOfASecondToNanos r \<and> threeHundredthsOfASecondToNanos r < 10 ^ 9"
  by (simp add: threeHundredthsOfASecondToNanos_def)

lemma Uint32_le: "Uint32 (le_bytes 4 w @ xs) = Inr w"
  using le_codec [of 4 w] by (simp add: eval_nat_numeral)

lemma Uint16_le: "Uint16 (le_bytes 2 w @ xs) = Inr w"
  using le_codec [of 2 w] by (simp add: eval_nat_numeral)

lemma base1900: "base1900 = 693595" "gregorianDays 1753 1 = 639905" "gregorianDays 9999 365 = 3652058"
  by (simp_all add: base1900_def gregorianDays_pos)

lemma encodeDateTime_decode:
  fixes dw tw :: u32
  assumes d: "-53690 \<le> sint dw" "sint dw \<le> 2958463" and tm: "uint tw < 25920000"
  shows "\<exists>t. decodeDateTime (le_bytes 4 dw @ le_bytes 4 tw) loc = Inr t \<and> time_ok t
     \<and> encodeDateTime t = le_bytes 4 dw @ le_bytes 4 tw"
proof -
  let ?t = "uint tw" and ?ns = "threeHundredthsOfASecondToNanos (uint tw mod 300)"
  define t where "t = \<lparr>t_day = base1900 + sint dw, t_ns = ?t div 300 * 10 ^ 9 + ?ns, t_zone = loc\<rparr>"
  have ns: "0 \<le> ?ns" "?ns < 10 ^ 9" using threeHundredths_bounds [of "?t mod 300"] by simp_all
  have t0: "0 \<le> ?t" by simp
  have sec: "0 \<le> ?t div 300" "?t div 300 < 86400" using t0 tm by (simp_all add: pos_imp_zdiv_nonneg_iff)
  have dec0: "decodeDateTime (le_bytes 4 dw @ le_bytes 4 tw) loc
      = Inr (time_Date (base1900 + sint dw) (?t div 300) ?ns loc)"
    using Uint32_le [of tw "[]"]
    by (simp only: decodeDateTime_def Uint32_le sbind_simps append_Nil2 drop_append length_le_bytes
        drop_all order_refl append_Nil diff_self_eq_0 drop_0)
  have dec: "decodeDateTime (le_bytes 4 dw @ le_bytes 4 tw) loc = Inr t"
  proof -
    have "?ns div 10 ^ 9 = 0" "?ns mod 10 ^ 9 = ?ns" using ns by simp_all
    moreover have "?t div 300 div 86400 = 0" "?t div 300 mod 86400 = ?t div 300" using sec by simp_all
    ultimately show ?thesis
      unfolding dec0 time_Date_def t_def Let_def by simp
  qed
  have ok: "time_ok t" using ns sec by (auto simp: time_ok_def t_def day_ns_def)
  have nn: "0 \<le> t_ns t" using ok by (simp add: time_ok_def)
  have day: "gregorianDays (Year t) (YearDay t) = base1900 + sint dw"
    using gregorianDays_Year [of t] d by (simp add: t_def base1900)
  have clk: "t_ns t div 10 ^ 9 = ?t div 300" "Nanosecond t = ?ns"
    using ns by (simp_all add: t_def Nanosecond_def)
  have tm': "300 * (Second t + Minute t * 60 + Hour t * 60 * 60) + nanosToThreeHundredthsOfASecond (Nanosecond t) = ?t"
    unfolding clock_total(1) [OF nn] clk by (simp add: threeHundredths_inverse)
  have "encodeDateTime t = le_bytes 4 (word_of_int (sint dw) :: u32) @ le_bytes 4 (word_of_int ?t :: u32)"
    unfolding encodeDateTime_def Let_def day tm' base1900_def [symmetric] base1900 using tm d by simp
  with dec ok show ?thesis by simp
qed

text \<open>
  A \<open>datetime\<close> has a resolution of 1/300 second: the time that is read back is the nearest one, in milliseconds; what is rounded up to midnight
  belongs to the next day.
\<close>

definition nearest_tick :: "time \<Rightarrow> int \<Rightarrow> time" where
  "nearest_tick t loc =
     (let ticks = (6 * t_ns t + 10 ^ 7) div (2 * 10 ^ 7); u = ticks mod 25920000
      in \<lparr>t_day = t_day t + ticks div 25920000, t_ns = u div 300 * 10 ^ 9 + (20 * (u mod 300) + 3) div 6 * 10 ^ 6, t_zone = loc\<rparr>)"

lemma decodeDateTime_bytes:
  assumes "- (2 ^ 31) \<le> d" "d < 2 ^ 31" "0 \<le> u" "u < 25920000"
  shows "decodeDateTime (le_bytes 4 (word_of_int d :: u32) @ le_bytes 4 (word_of_int u :: u32)) loc
    = Inr \<lparr>t_day = base1900 + d, t_ns = u div 300 * 10 ^ 9 + (20 * (u mod 300) + 3) div 6 * 10 ^ 6, t_zone = loc\<rparr>"
proof -
  have u: "uint (word_of_int u :: u32) = u" "sint (word_of_int d :: u32) = d"
    using assms by (simp_all add: uint_word_of_int_eq take_bit_int_eq_self signed_of_int signed_take_bit_int_eq_self)
  have "0 \<le> u mod 300" "u mod 300 < 300" by simp_all
  note b = threeHundredths_bounds [OF this]
  have x: "u div 300 * 10 ^ 9 + threeHundredthsOfASecondToNanos (u mod 300) < day_ns"
    "0 \<le> u div 300 * 10 ^ 9 + threeHundredthsOfASecondToNanos (u mod 300)"
  proof -
    have "0 \<le> u div 300" "u div 300 \<le> 86399" using assms(3,4) by (simp_all add: pos_imp_zdiv_nonneg_iff)
    with b show "u div 300 * 10 ^ 9 + threeHundredthsOfASecondToNanos (u mod 300) < day_ns"
      "0 \<le> u div 300 * 10 ^ 9 + threeHundredthsOfASecondToNanos (u mod 300)" by (simp_all add: day_ns_def)
  qed
  from time_Date_clock [OF x(2,1), of "base1900 + d" loc] b
  have "time_Date (base1900 + d) (u div 300) (threeHundredthsOfASecondToNanos (u mod 300)) loc
      = \<lparr>t_day = base1900 + d, t_ns = u div 300 * 10 ^ 9 + threeHundredthsOfASecondToNanos (u mod 300), t_zone = loc\<rparr>" by simp
  then show ?thesis
    unfolding decodeDateTime_def Uint32_le sbind_simps
    using Uint32_le [of "word_of_int u" "[]"] u by (simp add: threeHundredthsOfASecondToNanos_def)
qed

lemma decodeDateTime_encode:
  assumes "time_ok t" "639905 \<le> t_day t" "t_day t < 3652058"
  shows "decodeDateTime (encodeDateTime t) loc = Inr (nearest_tick t loc)"
proof -
  define T where "T = (6 * t_ns t + 10 ^ 7) div (2 * 10 ^ 7)"
  have n: "0 \<le> t_ns t" "t_ns t < 86400 * 10 ^ 9" using assms(1) by (simp_all add: time_ok_def day_ns_def)
  have T: "0 \<le> T" "T \<le> 25920000" using n by (simp_all add: T_def pos_imp_zdiv_nonneg_iff)
  have day: "gregorianDays (Year t) (YearDay t) = t_day t" using gregorianDays_Year [of t] assms(2) by simp
  have "6 * t_ns t + 10 ^ 7 = 300 * (t_ns t div 10 ^ 9) * (2 * 10 ^ 7) + (6 * (t_ns t mod 10 ^ 9) + 10 ^ 7)"
  proof -
    define q r where "q = t_ns t div 10 ^ 9" and "r = t_ns t mod 10 ^ 9"
    have "t_ns t = 10 ^ 9 * q + r" unfolding q_def r_def by simp
    then show ?thesis unfolding q_def [symmetric] r_def [symmetric] by simp
  qed
  then have tm: "300 * (Second t + Minute t * 60 + Hour t * 60 * 60) + nanosToThreeHundredthsOfASecond (Nanosecond t) = T"
    unfolding clock_total(1) [OF n(1)] by (simp add: T_def Nanosecond_def nanosToThreeHundredthsOfASecond_def)
  show ?thesis
  proof (cases "T = 25920000")
    case True
    then have e: "encodeDateTime t = le_bytes 4 (word_of_int (t_day t - 693595 + 1) :: u32) @ le_bytes 4 (word_of_int 0 :: u32)"
      unfolding encodeDateTime_def Let_def day tm base1900_def [symmetric] base1900 using assms(2,3) by simp
    show ?thesis unfolding e nearest_tick_def T_def [symmetric] True
      by (subst decodeDateTime_bytes) (use assms(2,3) in \<open>simp_all add: base1900\<close>)
  next
    case False
    then have T': "T < 25920000" using T by simp
    then have e: "encodeDateTime t = le_bytes 4 (word_of_int (t_day t - 693595) :: u32) @ le_bytes 4 (word_of_int T :: u32)"
      unfolding encodeDateTime_def Let_def day tm base1900_def [symmetric] base1900 using assms(2,3) by simp
    have "T div 25920000 = 0" "T mod 25920000 = T" using T T' by simp_all
    then show ?thesis unfolding e nearest_tick_def T_def [symmetric]
      by (subst decodeDateTime_bytes) (use assms(2,3) T T' in \<open>simp_all add: base1900\<close>)
  qed
qed

lemma decodeDate_encode:
  assumes "time_ok t" "0 \<le> t_day t" "t_day t \<le> 3652058"
  shows "decodeDate (encodeDate t) loc = Inr \<lparr>t_day = t_day t, t_ns = 0, t_zone = loc\<rparr>"
  using decodeDateInt_bytes [of "t_day t" "[]"] assms(2,3)
  by (simp add: decodeDate_def encodeDate_def dateTime2_in_range [OF assms] time_Date_def)

lemma decodeTime_encode:
  assumes "0 \<le> h" "h < 24" "0 \<le> m" "m < 60" "0 \<le> s" "s < 60" "0 \<le> ns" "ns < 10 ^ 9" "scale \<le> 7"
    and t: "t = \<lparr>t_day = 0, t_ns = (h * 3600 + m * 60 + s) * 10 ^ 9 + ns, t_zone = loc\<rparr>"
  shows "\<exists>buf. encodeTime h m s ns scale = Inr buf \<and> length buf = calcTimeSize scale \<and> decodeTime scale buf loc = cut scale t"
proof -
  let ?x = "(h * 3600 + m * 60 + s) * 10 ^ 9 + ns"
  have x: "0 \<le> ?x" "?x < day_ns" using assms(1-8) by (auto simp: day_ns_def)
  have "?x div 10 ^ 9 = h * 3600 + m * 60 + s" "?x mod 10 ^ 9 = ns"
    using assms(7,8) div_mult_self3 [of "10 ^ 9" "h * 3600 + m * 60 + s" ns] mod_mult_self3 [of "h * 3600 + m * 60 + s" "10 ^ 9" ns] by simp_all
  with encodeTimeInt_day [OF x(1) assms(9)]
  have e: "encodeTime h m s ns scale = Inr (int_bytes (calcTimeSize scale) (?x div 10 ^ (9 - scale)))" by (simp add: encodeTime_def)
  have "decodeTime scale (int_bytes (calcTimeSize scale) (?x div 10 ^ (9 - scale))) loc = cut scale t"
    unfolding decodeTime_def decodeTimeInt_bytes [OF x assms(9)] Let_def prod.case time_Date_clock [OF cut_bounds [OF x]]
    by (simp add: cut_def t)
  with e show ?thesis by simp
qed

lemma encodeDateTim4_decode:
  fixes dw mw :: u16
  assumes m: "uint mw < 1440"
  shows "\<exists>t. decodeDateTim4 (le_bytes 2 dw @ le_bytes 2 mw) loc = Inr t \<and> time_ok t
     \<and> encodeDateTim4 t loc = le_bytes 2 dw @ le_bytes 2 mw"
proof -
  define t where "t = \<lparr>t_day = base1900 + uint dw, t_ns = uint mw * 60 * 10 ^ 9, t_zone = loc\<rparr>"
  have m0: "0 \<le> uint mw" by simp
  have dec: "decodeDateTim4 (le_bytes 2 dw @ le_bytes 2 mw) loc = Inr t"
  proof -
    have "uint mw * 60 div 86400 = 0" "uint mw * 60 mod 86400 = uint mw * 60" using m m0 by simp_all
    then show ?thesis
      using Uint16_le [of mw "[]"]
      by (simp add: decodeDateTim4_def Uint16_le time_Date_def t_def del: le_bytes_numeral)
  qed
  have ok: "time_ok t" using m m0 by (auto simp: time_ok_def t_def day_ns_def)
  have dw: "0 \<le> uint dw" "uint dw < 65536" using unsigned_less [of dw, where 'a = int] by simp_all
  have "instant t - instant (time_Date base1900 0 0 loc) = uint dw * day_ns + t_ns t"
    by (simp add: instant_def time_Date_def t_def algebra_simps)
  moreover have lt: "0 \<le> t_ns t" "t_ns t < day_ns" using ok by (auto simp: time_ok_def)
  moreover have "uint dw * day_ns + t_ns t < 2 ^ 63" "0 \<le> uint dw * day_ns + t_ns t"
    using dw lt by (simp_all add: day_ns_def)
  ultimately have sub: "time_Sub t (time_Date base1900 0 0 loc) = uint dw * day_ns + t_ns t"
    unfolding time_Sub_def by linarith
  have days: "(uint dw * day_ns + t_ns t) sdiv day_ns = uint dw"
  proof -
    have "(uint dw * day_ns + t_ns t) div day_ns = uint dw"
      by (rule int_div_pos_eq [of _ _ _ "t_ns t"]) (use lt in \<open>simp_all add: day_ns_def\<close>)
    moreover have "0 \<le> uint dw * day_ns + t_ns t" "0 < day_ns" using dw lt by (simp_all add: day_ns_def)
    ultimately show ?thesis by (simp add: sdiv_nonneg)
  qed
  have mins: "Hour t * 60 + Minute t = uint mw"
    by (simp add: Hour_def Minute_def t_def)
  have "encodeDateTim4 t loc = le_bytes 2 dw @ le_bytes 2 mw"
    using dw by (simp add: encodeDateTim4_def Let_def sub days mins del: le_bytes_numeral)
  with dec ok show ?thesis by blast
qed


lemma decodeDateTim4_encode:
  assumes "time_ok t" and d: "d = t_day t - base1900 + (t_ns t - (t_zone t - loc) * 10 ^ 9) div day_ns"
    and "0 \<le> d" "d < 2 ^ 16"
  shows "decodeDateTim4 (encodeDateTim4 t loc) loc
    = Inr (time_Date (base1900 + d) ((Hour t * 60 + Minute t) * 60) 0 loc)"
proof -
  let ?x = "t_ns t - (t_zone t - loc) * 10 ^ 9"
  have p: "0 < day_ns" by (simp add: day_ns_def)
  have i: "instant t - instant (time_Date base1900 0 0 loc) = (t_day t - base1900) * day_ns + ?x"
    by (simp add: instant_def time_Date_def algebra_simps)
  have x: "?x = ?x div day_ns * day_ns + ?x mod day_ns" "0 \<le> ?x mod day_ns" "?x mod day_ns < day_ns"
    using p by simp_all
  then have i': "instant t - instant (time_Date base1900 0 0 loc) = d * day_ns + ?x mod day_ns"
    unfolding i d by (simp add: algebra_simps)
  have "0 \<le> d * day_ns + ?x mod day_ns" "d * day_ns + ?x mod day_ns < 2 ^ 63"
    using assms(3,4) x(2,3) by (simp_all add: day_ns_def)
  with i' have sub: "time_Sub t (time_Date base1900 0 0 loc) = d * day_ns + ?x mod day_ns"
    unfolding time_Sub_def by linarith
  have days: "(d * day_ns + ?x mod day_ns) sdiv day_ns = d"
    using \<open>0 \<le> d * day_ns + ?x mod day_ns\<close> p by (simp add: sdiv_nonneg)
  have h: "0 \<le> Hour t" "Hour t < 24" "0 \<le> Minute t" "Minute t < 60"
    using assms(1) by (auto simp: time_ok_def Hour_def Minute_def day_ns_def pos_imp_zdiv_nonneg_iff)
  have e: "encodeDateTim4 t loc
      = le_bytes 2 (word_of_int d :: u16) @ le_bytes 2 (word_of_int (Hour t * 60 + Minute t) :: u16)"
    using assms(3) unfolding encodeDateTim4_def Let_def sub days by simp
  have u: "uint (word_of_int d :: u16) = d" "uint (word_of_int (Hour t * 60 + Minute t) :: u16) = Hour t * 60 + Minute t"
    using assms(3,4) h by (simp_all add: uint_word_of_int_eq take_bit_int_eq_self del: of_int_add of_int_mult)
  show ?thesis
    unfolding e decodeDateTim4_def Uint16_le sbind_simps
    using Uint16_le [of "word_of_int (Hour t * 60 + Minute t)" "[]"] by (simp add: u del: le_bytes_numeral of_int_add of_int_mult)
qed

lemma gregorianDays_before:
  assumes "t_day t < -1"
  shows "gregorianDays (Year t) (YearDay t) < 0"
proof -
  obtain a b c e r where d: "t_day t = 146097 * a + 36524 * b + 1461 * c + r"
    and bd: "0 \<le> b" "b \<le> 3" "0 \<le> c" "c \<le> 24" "0 \<le> e" "e \<le> 3" "0 \<le> r" "r < 1461"
    and Y: "Year t = 400 * a + 100 * b + 4 * c + e + 1" "YearDay t = r - 365 * e + 1"
    and a: "a = t_day t div 146097" by (rule year_cycles)
  have "a \<le> - 1" using a assms by simp
  define n where "n = - (400 * a + 100 * b + 4 * c + e)"
  have n: "0 \<le> n" using \<open>a \<le> - 1\<close> bd by (simp add: n_def)
  have G: "gregorianDays (Year t) (YearDay t) = - n * 365 - n div 4 + n div 100 - n div 400 + r - 365 * e"
    using n by (simp add: gregorianDays_def Y Let_def signed_divide_int_def sgn_if n_def)
  have q4: "n div 4 = - (100 * a + 25 * b + c) - (if e = 0 then 0 else 1)"
    by (rule int_div_pos_eq [of _ _ _ "if e = 0 then 0 else 4 - e"]) (use bd in \<open>auto simp: n_def\<close>)
  have q100: "n div 100 = - (4 * a + b) - (if 4 * c + e = 0 then 0 else 1)"
    by (rule int_div_pos_eq [of _ _ _ "if 4 * c + e = 0 then 0 else 100 - (4 * c + e)"])
      (use bd in \<open>auto simp: n_def\<close>)
  have q400: "n div 400 = - a - (if 100 * b + 4 * c + e = 0 then 0 else 1)"
    by (rule int_div_pos_eq [of _ _ _ "if 100 * b + 4 * c + e = 0 then 0 else 400 - (100 * b + 4 * c + e)"])
      (use bd in \<open>auto simp: n_def\<close>)
  have "gregorianDays (Year t) (YearDay t) \<le> t_day t + 1"
    unfolding G q4 q100 q400 using d bd by (auto simp: n_def split: if_splits)
  with assms show ?thesis by simp
qed


section \<open>Properties of the date and time codecs\<close>

text \<open>
  C36. A \<open>datetime2\<close> value of scale at most 7 between the years 1 and 9999 is read back as
  the same wall clock, cut to the resolution of the scale, in the location of the reader.
\<close>

theorem datetime2_roundtrip:
  assumes "time_ok t" "0 \<le> t_day t" "t_day t \<le> 3652058" "scale \<le> 7"
  shows "\<exists>buf. encodeDateTime2 t scale = Inr buf
     \<and> decodeDateTime2 scale buf loc = Inr ((cut scale t)\<lparr>t_zone := loc\<rparr>)"
  by (rule decodeDateTime2_encode [OF assms])

definition ex_time :: time where
  "ex_time = \<lparr>t_day = 738000, t_ns = 45296789123456, t_zone = 7200\<rparr>"

lemma ex_time_ok: "time_ok ex_time" "instant ex_time = 63763238096789123456"
  by (simp_all add: time_ok_def ex_time_def day_ns_def instant_def)

theorem datetime2_roundtrip_witness:
  "\<exists>buf. encodeDateTime2 ex_time 3 = Inr buf
     \<and> decodeDateTime2 3 buf 0 = Inr ((cut 3 ex_time)\<lparr>t_zone := 0\<rparr>)"
  by (rule datetime2_roundtrip [OF ex_time_ok(1)]) (simp_all add: ex_time_def)

text \<open>
  C37. A \<open>datetimeoffset\<close> value whose offset is a whole number of minutes is read back as
  the same instant in the same zone, cut to the resolution of the scale.
\<close>

theorem datetimeoffset_roundtrip:
  assumes "time_ok t" "0 \<le> instant t" "instant t < 3652059 * day_ns" "scale \<le> 7"
    "60 dvd t_zone t" "\<bar>t_zone t\<bar> < 60 * 2 ^ 15"
  shows "\<exists>buf. encodeDateTimeOffset t scale = Inr buf \<and> decodeDateTimeOffset scale buf = Inr (cut scale t)"
  by (rule decodeDateTimeOffset_encode [OF assms])

theorem datetimeoffset_roundtrip_witness:
  "\<exists>buf. encodeDateTimeOffset ex_time 7 = Inr buf \<and> decodeDateTimeOffset 7 buf = Inr (cut 7 ex_time)"
proof (rule datetimeoffset_roundtrip [OF ex_time_ok(1)])
  show "0 \<le> instant ex_time" "instant ex_time < 3652059 * day_ns" by (simp_all add: ex_time_ok(2) day_ns_def)
qed (simp_all add: ex_time_def)

text \<open>
  Every \<open>datetime\<close> value the server can send (a day from 1753 to 9999 and a time of
  day in units of 1/300 second), decoded to milliseconds and encoded again, is the same eight
  bytes: rounding to milliseconds and back loses nothing.
\<close>

theorem datetime_reencode:
  fixes days tm :: u32
  assumes "-53690 \<le> sint days" "sint days \<le> 2958463" "uint tm < 300 * 86400"
  shows "\<exists>t. decodeDateTime (le_bytes 4 days @ le_bytes 4 tm) loc = Inr t \<and> time_ok t
     \<and> encodeDateTime t = le_bytes 4 days @ le_bytes 4 tm"
  using encodeDateTime_decode [OF assms(1,2)] assms(3) by simp

theorem datetime_reencode_witness:
  "\<exists>t. decodeDateTime (le_bytes 4 (45000 :: u32) @ le_bytes 4 (25919999 :: u32)) 0 = Inr t \<and> time_ok t
     \<and> encodeDateTime t = le_bytes 4 (45000 :: u32) @ le_bytes 4 (25919999 :: u32)"
  by (rule datetime_reencode) simp_all

text \<open>
  What \<open>dateTime2\<close> computes for every time: the day number and time of day, clamped to
  the years 1 to 9999. A time before the year 1 becomes the first midnight of the year 1, except
  on December 31st of the year 0, whose day number the truncating divisions of
  \<open>gregorianDays\<close> give as 0 as well, so that its time of day is kept.
\<close>

theorem dateTime2_clamps:
  assumes "time_ok t"
  shows "dateTime2 t =
    (if t_day t < -1 then (0, 0, 0)
     else if t_day t = -1 then (0, t_ns t div 10 ^ 9, t_ns t mod 10 ^ 9)
     else if 3652058 < t_day t then (3652058, 86399, 999999900)
     else (t_day t, t_ns t div 10 ^ 9, t_ns t mod 10 ^ 9))"
proof -
  have mx: "gregorianDays 9999 365 = 3652058" by (simp add: gregorianDays_pos)
  have n: "0 \<le> t_ns t" using assms by (simp add: time_ok_def)
  note clk = clock_total(1) [OF n]
  consider "t_day t < -1" | "t_day t = -1" | "0 \<le> t_day t" "3652058 < t_day t" | "0 \<le> t_day t" "t_day t \<le> 3652058"
    by linarith
  then show ?thesis
  proof cases
    case 1
    with gregorianDays_before [of t] show ?thesis by (simp add: dateTime2_def Let_def mx)
  next
    case 2
    then have "gregorianDays (Year t) (YearDay t) = 0"
      by (simp add: Year_def YearDay_def gregorianDays_def signed_divide_int_def)
    with 2 clk show ?thesis by (simp add: dateTime2_def Let_def mx Nanosecond_def)
  next
    case 3
    with gregorianDays_Year [of t] show ?thesis by (simp add: dateTime2_def Let_def mx)
  next
    case 4
    with dateTime2_in_range [OF assms] show ?thesis by simp
  qed
qed

theorem dateTime2_clamps_witness:
  "dateTime2 \<lparr>t_day = -1, t_ns = 36000 * 10 ^ 9, t_zone = 0\<rparr> = (0, 36000, 0)
   \<and> dateTime2 \<lparr>t_day = -2, t_ns = 36000 * 10 ^ 9, t_zone = 0\<rparr> = (0, 0, 0)"
  using dateTime2_clamps [of "\<lparr>t_day = -1, t_ns = 36000 * 10 ^ 9, t_zone = 0\<rparr>"]
    dateTime2_clamps [of "\<lparr>t_day = -2, t_ns = 36000 * 10 ^ 9, t_zone = 0\<rparr>"]
  by (simp add: time_ok_def day_ns_def)

text \<open>
  \<open>encodeDateTim4\<close> takes the day from the instant in the location it is given but the
  minutes from the value's own zone: for a value in another zone the two disagree, and the
  encoded day is off by the days that the difference of the offsets carries over midnight.
\<close>

theorem encodeDateTim4_mixes_zones:
  assumes "time_ok t" and d: "d = t_day t - base1900 + (t_ns t - (t_zone t - loc) * 10 ^ 9) div day_ns"
    and "0 \<le> d" "d < 2 ^ 16"
  shows "decodeDateTim4 (encodeDateTim4 t loc) loc
    = Inr (time_Date (base1900 + d) ((Hour t * 60 + Minute t) * 60) 0 loc)"
  by (rule decodeDateTim4_encode [OF assms])

theorem encodeDateTim4_mixes_zones_witness:
  "decodeDateTim4 (encodeDateTim4 \<lparr>t_day = 737426, t_ns = 3600 * 10 ^ 9, t_zone = 7200\<rparr> 0) 0
    = Inr \<lparr>t_day = 737425, t_ns = 3600 * 10 ^ 9, t_zone = 0\<rparr>"
  by (subst encodeDateTim4_mixes_zones [where d = "737425 - base1900"])
    (simp_all add: time_ok_def day_ns_def base1900 time_Date_def Hour_def Minute_def)

end
