(* ===== verification/Decimal.thy ===== *)
theory Decimal
  imports Date_Time
begin

text \<open>
  Exact decimals, \<open>src/internal/decimal/decimal.go\<close>, and the decoders of \<open>money\<close>
  and \<open>decimal\<close> columns in \<open>src/types.go\<close>. The conversions from and to
  \<open>float64\<close> are not modelled.
\<close>

section \<open>Decimal numerals\<close>

definition digit :: "nat \<Rightarrow> char" where
  "digit d = char_of (48 + d)"

definition digit_val :: "char \<Rightarrow> nat option" where
  "digit_val c = (let n = of_char c in if 48 \<le> n \<and> n \<le> 57 then Some (n - 48) else None)"

function show_nat :: "nat \<Rightarrow> string" where
  "show_nat n = (if n < 10 then [digit n] else show_nat (n div 10) @ [digit (n mod 10)])"
  by pat_completeness auto
termination by (relation "measure id") auto

declare show_nat.simps [simp del]

text \<open>\<open>strconv.FormatInt(i, 10)\<close> and \<open>big.Int.String()\<close>.\<close>

definition show_int :: "int \<Rightarrow> string" where
  "show_int i = (if i < 0 then CHR ''-'' # show_nat (nat (- i)) else show_nat (nat i))"

fun parse_digits :: "nat \<Rightarrow> string \<Rightarrow> nat option" where
  "parse_digits acc [] = Some acc"
| "parse_digits acc (c # cs) =
     (case digit_val c of None \<Rightarrow> None | Some d \<Rightarrow> parse_digits (10 * acc + d) cs)"

text \<open>\<open>big.Int.SetString(s, 10)\<close>: an optional sign and at least one digit.\<close>

definition SetString :: "string \<Rightarrow> int option" where
  "SetString s =
     (case s of
        [] \<Rightarrow> None
      | c # cs \<Rightarrow>
          let (neg, ds) = (if c = CHR ''-'' then (True, cs) else if c = CHR ''+'' then (False, cs) else (False, s))
          in if ds = [] then None
             else map_option (\<lambda>n. if neg then - int n else int n) (parse_digits 0 ds))"

lemma digit_val_digit [simp]: "d < 10 \<Longrightarrow> digit_val (digit d) = Some d"
  by (simp add: digit_val_def digit_def)

lemma digit_val_Some: "digit_val c = Some d \<Longrightarrow> c \<noteq> CHR ''-'' \<and> c \<noteq> CHR ''+'' \<and> c \<noteq> CHR ''.''"
  by (auto simp: digit_val_def)

lemma parse_digits_append:
  "parse_digits a (xs @ ys) = (case parse_digits a xs of None \<Rightarrow> None | Some b \<Rightarrow> parse_digits b ys)"
  by (induction xs arbitrary: a) (auto split: option.splits)

lemma parse_show_nat: "parse_digits 0 (show_nat n) = Some n"
proof (induction n rule: show_nat.induct)
  case (1 n)
  then show ?case by (subst show_nat.simps) (simp add: parse_digits_append)
qed

lemma show_nat_digits: "\<forall>c \<in> set (show_nat n). digit_val c \<noteq> None"
proof (induction n rule: show_nat.induct)
  case (1 n)
  then show ?case by (subst show_nat.simps) auto
qed

lemma show_nat_nonempty [simp]: "show_nat n \<noteq> []"
  by (subst show_nat.simps) simp

lemma parse_zeros: "parse_digits 0 (replicate k (CHR ''0'') @ xs) = parse_digits 0 xs"
  by (induction k) (simp_all add: digit_val_def)

section \<open>The Decimal type\<close>

record Decimal =
  integer :: "u32 list"
  positive :: bool
  prec :: byte
  scale :: byte

definition Decimal_zero :: Decimal where
  "Decimal_zero = \<lparr>integer = [0, 0, 0, 0], positive = False, prec = 0, scale = 0\<rparr>"

definition decimal_ok :: "Decimal \<Rightarrow> bool" where
  "decimal_ok d \<longleftrightarrow> length (integer d) = 4"

definition SetInteger :: "u32 \<Rightarrow> nat \<Rightarrow> Decimal \<Rightarrow> fault + Decimal" where
  "SetInteger v ind d =
     (if ind < length (integer d) then Inr (d\<lparr>integer := (integer d)[ind := v]\<rparr>)
      else Inl (RuntimePanic ''index out of range''))"

definition GetInteger :: "nat \<Rightarrow> Decimal \<Rightarrow> fault + u32" where
  "GetInteger ind d =
     (if ind < length (integer d) then Inr (integer d ! ind)
      else Inl (RuntimePanic ''index out of range''))"

definition SetPositive :: "bool \<Rightarrow> Decimal \<Rightarrow> Decimal" where "SetPositive p d = d\<lparr>positive := p\<rparr>"
definition SetPrec :: "byte \<Rightarrow> Decimal \<Rightarrow> Decimal" where "SetPrec p d = d\<lparr>prec := p\<rparr>"
definition SetScale :: "byte \<Rightarrow> Decimal \<Rightarrow> Decimal" where "SetScale s d = d\<lparr>scale := s\<rparr>"
definition IsPositive :: "Decimal \<Rightarrow> bool" where "IsPositive d = positive d"

text \<open>\<open>big.Int.SetBytes\<close> and \<open>big.Int.Bytes\<close>: big-endian, without leading zeros.\<close>

definition SetBytes :: "bytes \<Rightarrow> nat" where
  "SetBytes bs = foldl (\<lambda>a b. 256 * a + unat b) 0 bs"

function nat_Bytes :: "nat \<Rightarrow> bytes" where
  "nat_Bytes n = (if n = 0 then [] else nat_Bytes (n div 256) @ [word_of_nat n])"
  by pat_completeness auto
termination by (relation "measure id") auto

declare nat_Bytes.simps [simp del]

definition BigInt :: "Decimal \<Rightarrow> int" where
  "BigInt d =
     (let bytes = be_bytes 4 (integer d ! 3) @ be_bytes 4 (integer d ! 2)
                  @ be_bytes 4 (integer d ! 1) @ be_bytes 4 (integer d ! 0);
          x = int (SetBytes bytes)
      in if \<not> positive d then - x else x)"

definition ScaleBytes :: "string \<Rightarrow> nat \<Rightarrow> fault + string" where
  "ScaleBytes s0 sc =
     (case s0 of
        [] \<Rightarrow> Inl (RuntimePanic ''index out of range'')
      | c # cs \<Rightarrow>
          let (z, s) = (if c = CHR ''-'' \<or> c = CHR ''+'' then ([c], cs) else ([], s0));
              pos = int (length s) - int sc;
              z = (if pos \<le> 0 then z @ ''0'' else z @ take (nat pos) s)
          in Inr (if 0 < sc
                  then z @ ''.'' @ replicate (nat (- pos)) (CHR ''0'') @ drop (nat pos) s
                  else z))"

definition Decimal_Bytes :: "Decimal \<Rightarrow> fault + string" where
  "Decimal_Bytes d = ScaleBytes (show_int (BigInt d)) (unat (scale d))"

definition UnscaledBytes :: "Decimal \<Rightarrow> bytes" where
  "UnscaledBytes d = nat_Bytes (nat \<bar>BigInt d\<bar>)"

definition Decimal_String :: "Decimal \<Rightarrow> fault + string" where
  "Decimal_String d = Decimal_Bytes d"

definition Int64ToDecimalScale :: "64 word \<Rightarrow> byte \<Rightarrow> Decimal" where
  "Int64ToDecimalScale v sc =
     (if sint v < 0 then
        if sint v = - (2 ^ 63)
        then \<lparr>integer = [0, 0x80000000, 0, 0], positive = False, prec = 20, scale = 0\<rparr>
        else \<lparr>integer = [ucast (- v), ucast (drop_bit 32 (- v)), 0, 0], positive = False,
               prec = 20, scale = sc\<rparr>
      else \<lparr>integer = [ucast v, ucast (drop_bit 32 v), 0, 0], positive = True,
             prec = 20, scale = sc\<rparr>)"

text \<open>\<open>strings.LastIndexByte(v, '.')\<close>: the text before and after the last point.\<close>

fun split_point :: "string \<Rightarrow> (string \<times> string) option" where
  "split_point [] = None"
| "split_point (c # cs) =
     (case split_point cs of
        Some (a, b) \<Rightarrow> Some (c # a, b)
      | None \<Rightarrow> if c = CHR ''.'' then Some ([], cs) else None)"

text \<open>The loop that raises \<open>r\<close> to the scale of the target, by \<open>10 ^ 5\<close> while it can.\<close>

function scale_up :: "int \<Rightarrow> nat \<Rightarrow> nat \<Rightarrow> int \<times> nat" where
  "scale_up r inScale outScale =
     (if inScale < outScale
      then if 5 \<le> outScale - inScale then scale_up (r * 10 ^ 5) (inScale + 5) outScale
           else scale_up (r * 10) (inScale + 1) outScale
      else (r, inScale))"
  by pat_completeness auto
termination by (relation "measure (\<lambda>(r, i, out). out - i)") auto

declare scale_up.simps [simp del]

text \<open>The loop over the bytes of \<open>r\<close>; \<open>pos\<close> is the number of bytes that follow.\<close>

fun out_loop :: "bytes \<Rightarrow> u32 list \<Rightarrow> u32 list" where
  "out_loop [] out = out"
| "out_loop (b # bs) out =
     (let pos = length bs in
      out_loop bs (out[pos div 4 := out ! (pos div 4) + push_bit (pos mod 4 * 8) (ucast b)]))"

definition StringToDecimalScale :: "string \<Rightarrow> byte \<Rightarrow> err + Decimal" where
  "StringToDecimalScale v outScale =
     (let (unscaled, inScale) =
            (case split_point v of None \<Rightarrow> (v, 0) | Some (a, b) \<Rightarrow> (a @ b, length b))
      in if 255 < inScale then Inl (ErrMsg ''can't parse %q as a decimal number: scale too large'')
         else case SetString unscaled of
           None \<Rightarrow> Inl (ErrMsg ''can't parse %q as a decimal number'')
         | Some r \<Rightarrow>
             if unat outScale < inScale
             then Inl (ErrMsg ''can't parse %q as a decimal number: scale %d is larger than the scale %d of the target column'')
             else let (r, inScale) = scale_up r inScale (unat outScale);
                      bytes = nat_Bytes (nat \<bar>r\<bar>)
                  in if 16 < length bytes
                     then Inl (ErrMsg ''can't parse %q as a decimal number: precision too large'')
                     else Inr \<lparr>integer = out_loop bytes [0, 0, 0, 0], positive = 0 \<le> r,
                               prec = 20, scale = word_of_nat inScale\<rparr>)"

section \<open>Columns\<close>

fun decodeMoney :: "bytes \<Rightarrow> fault + string" where
  "decodeMoney (b0 # b1 # b2 # b3 # b4 # b5 # b6 # b7 # _) =
     ScaleBytes (show_int (sint (le_word [b4, b5, b6, b7, b0, b1, b2, b3] :: u64))) 4"
| "decodeMoney _ = Inl (RuntimePanic ''index out of range'')"

definition decodeMoney4 :: "bytes \<Rightarrow> fault + string" where
  "decodeMoney4 buf = sbind (Uint32 buf) (\<lambda>money. ScaleBytes (show_int (sint money)) 4)"

fun set_integers :: "nat \<Rightarrow> bytes \<Rightarrow> Decimal \<Rightarrow> fault + Decimal" where
  "set_integers i (b0 # b1 # b2 # b3 # rest) dec =
     sbind (SetInteger (le_word [b0, b1, b2, b3]) i dec) (set_integers (i + 1) rest)"
| "set_integers i _ dec = Inr dec"

definition decodeDecimal :: "byte \<Rightarrow> byte \<Rightarrow> bytes \<Rightarrow> fault + string" where
  "decodeDecimal pr sc buf =
     (case buf of
        [] \<Rightarrow> Inl (RuntimePanic ''index out of range'')
      | sign # rest \<Rightarrow>
          sbind (set_integers 0 rest
                   (SetScale sc (SetPrec pr (SetPositive (sign \<noteq> 0) Decimal_zero))))
            Decimal_Bytes)"


section \<open>Printing\<close>

text \<open>What a decimal stands for: \<open>dec_nat\<close> is the absolute value of its unscaled integer.\<close>

definition dec_nat :: "Decimal \<Rightarrow> nat" where
  "dec_nat d = unat (integer d ! 0) + unat (integer d ! 1) * 2 ^ 32
     + unat (integer d ! 2) * 2 ^ 64 + unat (integer d ! 3) * 2 ^ 96"

lemma SetBytes_append: "SetBytes (xs @ ys) = SetBytes xs * 256 ^ length ys + SetBytes ys"
proof -
  have "foldl (\<lambda>a b. 256 * a + unat b) n ys = n * 256 ^ length ys + foldl (\<lambda>a b. 256 * a + unat b) 0 ys" for n :: nat
  proof (induction ys rule: rev_induct)
    case (snoc y ys)
    then show ?case by (simp add: algebra_simps)
  qed simp
  then show ?thesis unfolding SetBytes_def foldl_append .
qed

lemma SetBytes_be_bytes: "SetBytes (be_bytes n w) = unat (w :: u32) mod 256 ^ n"
proof (induction n arbitrary: w)
  case 0
  then show ?case by (simp add: SetBytes_def be_bytes_def)
next
  case (Suc n)
  have "SetBytes (be_bytes (Suc n) w) = unat w div 256 mod 256 ^ n * 256 + unat w mod 256"
    using Suc.IH [of "drop_bit 8 w"]
    by (simp add: be_bytes_def SetBytes_append SetBytes_def [of "[_]"] drop_bit_eq_div unat_div
        unsigned_ucast_eq take_bit_eq_mod unsigned_of_nat)
  then show ?case using mod_mult2_eq [of "unat w" 256 "256 ^ n"] by (simp add: mult.commute)
qed

lemma BigInt_dec_nat: "BigInt d = (if positive d then int (dec_nat d) else - int (dec_nat d))"
proof -
  have w: "unat (w :: u32) mod 256 ^ 4 = unat w" for w
    using unsigned_less [of w, where 'a = nat] by simp
  show ?thesis
    unfolding BigInt_def Let_def SetBytes_append SetBytes_be_bytes w dec_nat_def by simp
qed


text \<open>
  The text \<open>ScaleBytes\<close> makes of the digits of \<open>n\<close>: taking the point out again
  leaves a numeral of \<open>n\<close>, and \<open>sc\<close> digits stand behind the point.
\<close>

definition point_form :: "nat \<Rightarrow> nat \<Rightarrow> string" where
  "point_form n sc =
     (let s = show_nat n; k = length s - sc
      in (if length s \<le> sc then ''0'' else take k s)
         @ (if 0 < sc then ''.'' @ replicate (sc - length s) (CHR ''0'') @ drop k s else []))"

lemma show_nat_Cons: "\<exists>c cs. show_nat n = c # cs \<and> c \<noteq> CHR ''-'' \<and> c \<noteq> CHR ''+''"
proof (cases "show_nat n")
  case (Cons c cs)
  with show_nat_digits [of n] obtain d where "digit_val c = Some d" by auto
  with Cons digit_val_Some show ?thesis by blast
qed simp

lemma ScaleBytes_show_int:
  "ScaleBytes (show_int i) sc = Inr ((if i < 0 then ''-'' else []) @ point_form (nat \<bar>i\<bar>) sc)"
proof -
  obtain c cs where c: "show_nat (nat \<bar>i\<bar>) = c # cs" "c \<noteq> CHR ''-''" "c \<noteq> CHR ''+''"
    using show_nat_Cons by blast
  have n: "nat (int (length s) - int sc) = length s - sc" "nat (- (int (length s) - int sc)) = sc - length s"
    "int (length s) - int sc \<le> 0 \<longleftrightarrow> length s \<le> sc" for s :: string by auto
  show ?thesis
  proof (cases "i < 0")
    case True
    then have s: "show_int i = CHR ''-'' # show_nat (nat \<bar>i\<bar>)" by (simp add: show_int_def)
    show ?thesis unfolding s ScaleBytes_def point_form_def Let_def n list.case prod.case using True by simp
  next
    case False
    then have s: "show_int i = show_nat (nat \<bar>i\<bar>)" by (simp add: show_int_def)
    have p: "nat (1 + int (length cs) - int sc) = Suc (length cs) - sc"
      "nat (int sc - (1 + int (length cs))) = sc - Suc (length cs)" by auto
    show ?thesis unfolding s c ScaleBytes_def point_form_def Let_def list.case
      using False c(2,3) by (simp add: n p)
  qed
qed

lemma split_point_none: "CHR ''.'' \<notin> set s \<Longrightarrow> split_point s = None"
  by (induction s) auto

lemma split_point_some: "CHR ''.'' \<notin> set b \<Longrightarrow> split_point (a @ CHR ''.'' # b) = Some (a, b)"
  by (induction a) (simp_all add: split_point_none)

lemma no_point: "CHR ''.'' \<notin> set (show_nat n)"
  using show_nat_digits [of n] by (auto dest: digit_val_Some)

text \<open>Taking a printed number apart again.\<close>

lemma split_point_form:
  "\<exists>u. (case split_point (sg @ point_form n sc) of None \<Rightarrow> (sg @ point_form n sc, 0) | Some (a, b) \<Rightarrow> (a @ b, length b))
     = (sg @ u, sc) \<and> parse_digits 0 u = Some n \<and> u \<noteq> [] \<and> (\<forall>c \<in> set u. digit_val c \<noteq> None)"
  if "sg = [] \<or> sg = ''-''"
proof -
  let ?s = "show_nat n"
  have np: "CHR ''.'' \<notin> set (drop k ?s)" "CHR ''.'' \<notin> set (take k ?s)" for k
    using no_point [of n] by (auto dest: in_set_dropD in_set_takeD)
  have dz: "digit_val (CHR ''0'') \<noteq> None" by (simp add: digit_val_def)
  have ds: "\<forall>c \<in> set (drop k ?s). digit_val c \<noteq> None" "\<forall>c \<in> set (take k ?s). digit_val c \<noteq> None" for k
    using show_nat_digits [of n] by (auto dest: in_set_dropD in_set_takeD)
  show ?thesis
  proof (cases "length ?s \<le> sc")
    case True
    let ?u = "CHR ''0'' # replicate (sc - length ?s) (CHR ''0'') @ ?s"
    have sc0: "0 < sc" using True by (cases "?s") auto
    have f: "sg @ point_form n sc = (sg @ ''0'') @ CHR ''.'' # replicate (sc - length ?s) (CHR ''0'') @ ?s"
      using True sc0 by (simp add: point_form_def Let_def)
    have "CHR ''.'' \<notin> set (replicate (sc - length ?s) (CHR ''0'') @ ?s)" using no_point [of n] by auto
    note sp = split_point_some [OF this, of "sg @ ''0''", folded f]
    have "parse_digits 0 ?u = Some n" 
      using parse_zeros [of "Suc (sc - length ?s)" ?s] parse_show_nat [of n] by simp
    with True sp dz show_nat_digits [of n] show ?thesis by (intro exI [of _ ?u]) auto
  next
    case False
    let ?k = "length ?s - sc"
    have p: "parse_digits 0 ?s = Some n" by (rule parse_show_nat)
    show ?thesis
    proof (cases "0 < sc")
      case True
      have f: "sg @ point_form n sc = (sg @ take ?k ?s) @ CHR ''.'' # drop ?k ?s"
        using True False by (simp add: point_form_def Let_def)
      note sp = split_point_some [OF np(1), of "sg @ take ?k ?s" ?k, folded f]
      show ?thesis using sp p False show_nat_digits [of n] by (intro exI [of _ ?s]) auto
    next
      case z: False
      then have f: "sg @ point_form n sc = sg @ ?s" by (simp add: point_form_def)
      have "CHR ''.'' \<notin> set (sg @ ?s)" using that no_point [of n] by auto
      from split_point_none [OF this] f z p show_nat_digits [of n] show ?thesis by (intro exI [of _ ?s]) auto
    qed
  qed
qed

lemma SetString_signed:
  assumes "parse_digits 0 u = Some n" "u \<noteq> []" "\<forall>c \<in> set u. digit_val c \<noteq> None"
  shows "SetString u = Some (int n)" "SetString (CHR ''-'' # u) = Some (- int n)"
proof -
  obtain c cs d where u: "u = c # cs" "digit_val c = Some d" using assms(2,3) by (cases u) auto
  with digit_val_Some [OF u(2)] assms(1) show "SetString u = Some (int n)" by (simp add: SetString_def)
  show "SetString (CHR ''-'' # u) = Some (- int n)" using assms(1,2) by (simp add: SetString_def)
qed

lemma split_SetString:
  "case split_point s of None \<Rightarrow> SetString s = Some i \<and> sc = 0 | Some (a, b) \<Rightarrow> SetString (a @ b) = Some i \<and> length b = sc"
  if "ScaleBytes (show_int i) sc = Inr s"
proof -
  let ?sg = "if i < 0 then ''-'' else []"
  have s: "s = ?sg @ point_form (nat \<bar>i\<bar>) sc" using that unfolding ScaleBytes_show_int by simp
  have "?sg = [] \<or> ?sg = ''-''" by simp
  from split_point_form [OF this, of "nat \<bar>i\<bar>" sc] obtain u where
    u: "(case split_point s of None \<Rightarrow> (s, 0) | Some (a, b) \<Rightarrow> (a @ b, length b)) = (?sg @ u, sc)"
      "parse_digits 0 u = Some (nat \<bar>i\<bar>)" "u \<noteq> []" "\<forall>c \<in> set u. digit_val c \<noteq> None"
    unfolding s by blast
  have "SetString (?sg @ u) = Some i"
    using SetString_signed [OF u(2-4)] by (cases "i < 0") simp_all
  with u(1) show ?thesis by (auto split: option.splits)
qed


section \<open>Parsing\<close>

text \<open>The sum that \<open>out_loop\<close> adds to limb \<open>j\<close>.\<close>

fun limb :: "nat \<Rightarrow> bytes \<Rightarrow> u32" where
  "limb j [] = 0"
| "limb j (b # bs) =
     (if length bs div 4 = j then push_bit (length bs mod 4 * 8) (ucast b) else 0) + limb j bs"

lemma out_loop_limbs:
  "length out = 4 \<Longrightarrow> length bs \<le> 16 \<Longrightarrow> j < 4 \<Longrightarrow> out_loop bs out ! j = out ! j + limb j bs"
  by (induction bs arbitrary: out) (auto simp: Let_def nth_list_update)

lemma length_out_loop [simp]: "length (out_loop bs out) = length out"
  by (induction bs arbitrary: out) (simp_all add: Let_def)

lemma SetBytes_Cons: "SetBytes (b # bs) = unat b * 256 ^ length bs + SetBytes bs"
  using SetBytes_append [of "[b]" bs] by (simp add: SetBytes_def)

lemma SetBytes_bound: "SetBytes bs < 256 ^ length bs"
proof (induction bs)
  case (Cons b bs)
  have "unat b < 256" using unsigned_less [of b, where 'a = nat] by simp
  then have "(unat b + 1) * 256 ^ length bs \<le> 256 * 256 ^ length bs" by (intro mult_le_mono1) simp
  then have "unat b * 256 ^ length bs + 256 ^ length bs \<le> 256 ^ length (b # bs)" by (simp add: add_mult_distrib)
  with Cons show ?case unfolding SetBytes_Cons by linarith
qed (simp add: SetBytes_def)

lemma limb_value: "limb j bs = word_of_nat (SetBytes bs div 2 ^ (32 * j))"
proof (induction bs)
  case Nil
  then show ?case by (simp add: SetBytes_def)
next
  case (Cons b bs)
  let ?p = "length bs" and ?v = "SetBytes bs"
  have p256: "(256 :: nat) ^ ?p = 2 ^ (8 * ?p)" by (simp add: power_mult)
  have vb: "?v < 2 ^ (8 * ?p)" using SetBytes_bound [of bs] p256 by simp
  consider "?p div 4 = j" | "?p div 4 < j" | "j < ?p div 4" by linarith
  then show ?case
  proof cases
    case 1
    have e: "8 * ?p = 32 * j + 8 * (?p mod 4)" using 1 div_mult_mod_eq [of ?p 4] by linarith
    have "SetBytes (b # bs) div 2 ^ (32 * j) = unat b * 2 ^ (8 * (?p mod 4)) + ?v div 2 ^ (32 * j)"
      unfolding SetBytes_Cons p256 e power_add
      by (subst mult.left_commute) simp
    moreover have "push_bit (?p mod 4 * 8) (ucast b) = (word_of_nat (unat b * 2 ^ (8 * (?p mod 4))) :: u32)"
      by (simp add: push_bit_eq_mult mult.commute)
    ultimately show ?thesis using 1 Cons by simp
  next
    case 2
    then have "8 * (?p + 1) \<le> 32 * j" by (simp add: div_less_iff_less_mult)
    then have "(2 :: nat) ^ (8 * length (b # bs)) \<le> 2 ^ (32 * j)" by (intro power_increasing) simp_all
    moreover have "(256 :: nat) ^ length (b # bs) = 2 ^ (8 * length (b # bs))" by (simp add: power_mult power_add)
    ultimately have "(256 :: nat) ^ length (b # bs) \<le> 2 ^ (32 * j)" by simp
    then have "SetBytes (b # bs) < 2 ^ (32 * j)" "?v < 2 ^ (32 * j)"
      using SetBytes_bound [of "b # bs"] by (auto simp: SetBytes_Cons)
    then show ?thesis using 2 Cons by simp
  next
    case 3
    then have "8 * ?p = 32 * j + 32 + (8 * ?p - 32 * j - 32)" by linarith
    then obtain q where q: "8 * ?p = 32 * j + 32 + q" by blast
    have "SetBytes (b # bs) div 2 ^ (32 * j) = unat b * 2 ^ q * 2 ^ 32 + ?v div 2 ^ (32 * j)"
    proof -
      have "unat b * 2 ^ (32 * j + 32 + q) = unat b * 2 ^ q * 2 ^ 32 * 2 ^ (32 * j)"
        by (simp only: power_add ac_simps)
      then show ?thesis unfolding SetBytes_Cons p256 q by (simp only: div_mult_self3 power_not_zero numeral_neq_zero simp_thms)
    qed
    moreover have "(word_of_nat (unat b * 2 ^ q * 2 ^ 32) :: u32) = 0"
    proof -
      have "(2 ^ 32 :: u32) = 0" by (rule exp_eq_zero_iff [THEN iffD2]) simp
      then show ?thesis by (simp only: of_nat_mult of_nat_power of_nat_numeral mult_zero_right)
    qed
    ultimately show ?thesis using 3 Cons by simp
  qed
qed


lemma SetBytes_nat_Bytes: "SetBytes (nat_Bytes n) = n"
proof (induction n rule: nat_Bytes.induct)
  case (1 n)
  show ?case
  proof (cases "n = 0")
    case True
    then show ?thesis by (simp add: nat_Bytes.simps SetBytes_def)
  next
    case False
    have "unat (word_of_nat n :: byte) = n mod 256" by (simp add: unat_of_nat)
    with 1 [OF False] False show ?thesis
      by (subst nat_Bytes.simps) (simp add: SetBytes_append SetBytes_def [of "[_]"])
  qed
qed

lemma length_nat_Bytes: "length (nat_Bytes n) \<le> k \<longleftrightarrow> n < 256 ^ k"
proof (induction k arbitrary: n)
  case 0
  then show ?case by (subst nat_Bytes.simps) simp
next
  case (Suc k)
  show ?case
    using Suc [of "n div 256"] by (subst nat_Bytes.simps) (auto simp: div_less_iff_less_mult mult.commute)
qed

lemma scale_up_value:
  "i \<le> out \<Longrightarrow> scale_up r i out = (r * 10 ^ (out - i), out)"
proof (induction r i out rule: scale_up.induct)
  case (1 r i out)
  show ?case
  proof (cases "i < out")
    case False
    with 1 show ?thesis by (simp add: scale_up.simps)
  next
    case True
    show ?thesis
    proof (cases "5 \<le> out - i")
      case five: True
      then have "out - i = 5 + (out - (i + 5))" by simp
      then have "(10 :: int) ^ (out - i) = 10 ^ 5 * 10 ^ (out - (i + 5))" by (metis power_add)
      with 1(1) [OF True five] five True show ?thesis by (subst scale_up.simps) simp
    next
      case False
      have "(10 :: int) ^ (out - i) = 10 * 10 ^ (out - (i + 1))"
        using True by (metis Suc_diff_Suc Suc_eq_plus1 power_Suc)
      with 1(2) [OF True False] False True show ?thesis by (subst scale_up.simps) simp
    qed
  qed
qed

lemma four_digits:
  "(n :: nat) = n mod x + n div x mod x * x + n div x div x mod x * (x * x) + n div x div x div x * (x * x * x)"
proof -
  define q1 q2 q3 where q: "q1 = n div x" "q2 = q1 div x" "q3 = q2 div x"
  have "n = q1 * x + n mod x" "q1 = q2 * x + q1 mod x" "q2 = q3 * x + q2 mod x" by (simp_all add: q)
  then have "n = ((q3 * x + q2 mod x) * x + q1 mod x) * x + n mod x" by metis
  also have "\<dots> = n mod x + q1 mod x * x + q2 mod x * (x * x) + q3 * (x * x * x)" by (simp add: algebra_simps)
  finally show ?thesis unfolding q .
qed

lemma dec_nat_limbs:
  assumes "n < 2 ^ 128"
  shows "dec_nat \<lparr>integer = out_loop (nat_Bytes n) [0, 0, 0, 0], positive = p, prec = q, scale = s\<rparr> = n"
proof -
  have "length (nat_Bytes n) \<le> 16" using assms length_nat_Bytes [of n 16] by simp
  then have l: "out_loop (nat_Bytes n) [0, 0, 0, 0] ! j = word_of_nat (n div 2 ^ (32 * j))" if "j < 4" for j
    using that out_loop_limbs [of "[0, 0, 0, 0]" "nat_Bytes n" j] nth_replicate [of j 4 "0 :: u32"]
    by (simp add: limb_value SetBytes_nat_Bytes eval_nat_numeral)
  have d: "n div 2 ^ 96 = n div 2 ^ 32 div 2 ^ 32 div 2 ^ 32" "n div 2 ^ 64 = n div 2 ^ 32 div 2 ^ 32"
    by (simp_all flip: div_mult2_eq)
  have "n div 2 ^ 96 mod 2 ^ 32 = n div 2 ^ 96" using assms by (simp add: div_less_iff_less_mult)
  moreover have "n = n mod 2 ^ 32 + n div 2 ^ 32 mod 2 ^ 32 * 2 ^ 32 + n div 2 ^ 64 mod 2 ^ 32 * 2 ^ 64 + n div 2 ^ 96 * 2 ^ 96"
    unfolding d using four_digits [of n "2 ^ 32"] by simp
  ultimately show ?thesis
    using l [of 0] l [of 1] l [of 2] l [of 3] by (simp add: dec_nat_def unat_of_nat)
qed


lemma BigInt_limbs:
  assumes "nat \<bar>r\<bar> < 2 ^ 128"
  shows "BigInt \<lparr>integer = out_loop (nat_Bytes (nat \<bar>r\<bar>)) [0, 0, 0, 0], positive = 0 \<le> r, prec = q, scale = s\<rparr> = r"
  using dec_nat_limbs [OF assms] unfolding BigInt_dec_nat by (cases "0 \<le> r") simp_all

lemma StringToDecimalScale_ok:
  fixes sc :: byte
  assumes "ScaleBytes (show_int i) (unat sc) = Inr s" "nat \<bar>i\<bar> * 10 ^ (unat out - unat sc) < 2 ^ 128"
    "unat sc \<le> unat out"
  shows "\<exists>d. StringToDecimalScale s out = Inr d \<and> decimal_ok d \<and> prec d = 20 \<and> scale d = out
     \<and> BigInt d = i * 10 ^ (unat out - unat sc)"
proof -
  let ?r = "i * 10 ^ (unat out - unat sc)"
  let ?d = "\<lparr>integer = out_loop (nat_Bytes (nat \<bar>?r\<bar>)) [0, 0, 0, 0], positive = 0 \<le> ?r, prec = 20, scale = out\<rparr>"
  have "unat sc < 256" using unsigned_less [of sc, where 'a = nat] by simp
  then have u: "unat sc \<le> 255" by linarith
  have a: "nat \<bar>?r\<bar> = nat \<bar>i\<bar> * 10 ^ (unat out - unat sc)"
    by (simp add: abs_mult nat_mult_distrib nat_power_eq)
  have l: "\<not> 16 < length (nat_Bytes (nat \<bar>?r\<bar>))" using length_nat_Bytes [of "nat \<bar>?r\<bar>" 16] a assms(2) by simp
  have up: "scale_up i (unat sc) (unat out) = (?r, unat out)" by (rule scale_up_value [OF assms(3)])
  have "StringToDecimalScale s out = Inr ?d"
  proof (cases "split_point s")
    case None
    with split_SetString [OF assms(1)] have "SetString s = Some i" "unat sc = 0" by auto
    with None up l show ?thesis by (simp add: StringToDecimalScale_def)
  next
    case (Some ab)
    then obtain a b where ab: "split_point s = Some (a, b)" by (cases ab) auto
    with split_SetString [OF assms(1)] have "SetString (a @ b) = Some i" "length b = unat sc" by auto
    with ab up l u assms(3) show ?thesis by (simp add: StringToDecimalScale_def)
  qed
  moreover have "BigInt ?d = ?r" by (rule BigInt_limbs) (use a assms(2) in simp)
  ultimately show ?thesis by (auto simp: decimal_ok_def)
qed

section \<open>Properties of decimals\<close>

text \<open>
  C38. Printing a decimal and parsing the text at the same or a larger scale gives a decimal of
  the same value: its unscaled integer is multiplied by the missing powers of ten. Parsing
  succeeds whenever the result fits in 128 bits.
\<close>

theorem decimal_print_parse:
  assumes "decimal_ok d" "unat (scale d) \<le> unat out"
    "dec_nat d * 10 ^ (unat out - unat (scale d)) < 2 ^ 128"
  shows "\<exists>s d'. Decimal_Bytes d = Inr s \<and> StringToDecimalScale s out = Inr d' \<and> decimal_ok d'
     \<and> scale d' = out \<and> BigInt d' = BigInt d * 10 ^ (unat out - unat (scale d))"
proof -
  obtain s where s: "ScaleBytes (show_int (BigInt d)) (unat (scale d)) = Inr s"
    by (simp add: ScaleBytes_show_int)
  have "nat \<bar>BigInt d\<bar> = dec_nat d" by (simp add: BigInt_dec_nat)
  with StringToDecimalScale_ok [OF s _ assms(2)] assms(3) s show ?thesis
    by (auto simp: Decimal_Bytes_def)
qed

definition ex_dec :: Decimal where
  "ex_dec = \<lparr>integer = [12345, 0, 0, 0], positive = False, prec = 10, scale = 2\<rparr>"

theorem decimal_print_parse_witness:
  "\<exists>s d'. Decimal_Bytes ex_dec = Inr s \<and> StringToDecimalScale s 4 = Inr d' \<and> decimal_ok d'
     \<and> scale d' = 4 \<and> BigInt d' = BigInt ex_dec * 10 ^ (unat (4 :: byte) - unat (scale ex_dec))"
  by (rule decimal_print_parse) (simp_all add: ex_dec_def decimal_ok_def dec_nat_def)

text \<open>
  \<open>Int64ToDecimalScale\<close> keeps the integer as it is and attaches the scale, except for
  the smallest \<open>int64\<close>, which cannot be negated: its integer is right as well, but the
  scale asked for is dropped.
\<close>

theorem Int64ToDecimalScale_value:
  "BigInt (Int64ToDecimalScale v sc) = sint v
   \<and> scale (Int64ToDecimalScale v sc) = (if sint v = - (2 ^ 63) then 0 else sc)"
proof -
  have val: "BigInt \<lparr>integer = [ucast x, ucast (drop_bit 32 x), 0, 0], positive = p, prec = 20, scale = sc\<rparr>
      = (if p then uint x else - uint x)" for x :: u64 and p
  proof -
    have "unat x < 2 ^ 64" using unsigned_less [of x, where 'a = nat] by simp
    then have "unat x div 2 ^ 32 mod 2 ^ 32 = unat x div 2 ^ 32" by (simp add: div_less_iff_less_mult)
    then have "unat (ucast x :: u32) + unat (ucast (drop_bit 32 x) :: u32) * 2 ^ 32 = unat x"
      by (simp add: unsigned_ucast_eq take_bit_eq_mod drop_bit_eq_div unat_div)
    then show ?thesis unfolding BigInt_dec_nat dec_nat_def by simp
  qed
  consider "sint v = - (2 ^ 63)" | "sint v < 0" "sint v \<noteq> - (2 ^ 63)" | "0 \<le> sint v" by linarith
  then show ?thesis
  proof cases
    case 1
    then show ?thesis by (simp add: Int64ToDecimalScale_def BigInt_dec_nat dec_nat_def)
  next
    case 2
    have "- (2 ^ 63) \<le> sint v" using sint_greater_eq [of v] by simp
    then have r: "0 \<le> - sint v" "- sint v < 2 ^ 64" using 2 by auto
    have "- v = word_of_int (- sint v)" by simp
    then have "uint (- v) = take_bit 64 (- sint v)" using uint_word_of_int_eq [of "- sint v", where 'a = 64] by simp
    then have "uint (- v) = - sint v" using r by (simp add: take_bit_int_eq_self)
    with 2 val [of "- v" False] show ?thesis by (simp add: Int64ToDecimalScale_def)
  next
    case 3
    have "sint v < 2 ^ 64" using sint_less [of v] by simp
    moreover have "uint v = take_bit 64 (sint v)" by (simp add: uint_sint)
    ultimately have "uint v = sint v" using 3 by (simp add: take_bit_int_eq_self)
    moreover have "\<not> sint v < 0" "sint v \<noteq> - (2 ^ 63)" using 3 by auto
    ultimately show ?thesis using val [of v True] by (simp add: Int64ToDecimalScale_def)
  qed
qed

lemma decodeMoney_words:
  fixes hi lo :: u32
  shows "decodeMoney (le_bytes 4 hi @ le_bytes 4 lo) = ScaleBytes (show_int (sint (ucast lo OR push_bit 32 (ucast hi) :: u64))) 4"
proof -
  obtain h0 h1 h2 h3 l0 l1 l2 l3 where b: "le_bytes 4 hi = [h0, h1, h2, h3]" "le_bytes 4 lo = [l0, l1, l2, l3]"
    by simp
  have "le_word ([l0, l1, l2, l3] @ [h0, h1, h2, h3]) = (ucast lo OR push_bit 32 (ucast hi) :: u64)"
  proof -
    have "ucast (le_word (le_bytes 4 w) :: u32) = (le_word (le_bytes 4 w) :: u64)" for w :: u32
      by (rule ucast_le_word) simp
    then have "(le_word (le_bytes 4 w) :: u64) = ucast w" for w :: u32 by (simp add: le_codec del: le_bytes_numeral)
    then show ?thesis unfolding le_word_append b [symmetric] by (simp del: le_bytes_numeral)
  qed
  then show ?thesis by (simp only: b append.simps decodeMoney.simps)
qed

text \<open>
  C40. A \<open>money\<close> column, sent as the high and the low 32 bits of an integer of
  ten-thousandths, is decoded to a text that parses back, at scale 4, to exactly that integer.
\<close>

theorem money_text_value:
  fixes hi lo :: u32
  defines "m \<equiv> ucast lo OR push_bit 32 (ucast hi) :: u64"
  shows "\<exists>s d. decodeMoney (le_bytes 4 hi @ le_bytes 4 lo) = Inr s
     \<and> StringToDecimalScale s 4 = Inr d \<and> scale d = 4 \<and> BigInt d = sint m"
proof -
  have dm: "decodeMoney (le_bytes 4 hi @ le_bytes 4 lo) = ScaleBytes (show_int (sint m)) 4" by (simp only: decodeMoney_words m_def)
  obtain s where s: "ScaleBytes (show_int (sint m)) (unat (4 :: byte)) = Inr s" by (simp add: ScaleBytes_show_int)
  have "- (2 ^ 63) \<le> sint m" "sint m < 2 ^ 63" using sint_ge [of m] sint_lt [of m] by simp_all
  then have "nat \<bar>sint m\<bar> * 10 ^ (unat (4 :: byte) - unat (4 :: byte)) < 2 ^ 128" by simp
  from StringToDecimalScale_ok [OF s this] s dm show ?thesis by auto
qed

text \<open>
  A sign behind the decimal point is accepted: the point is cut out before the integer is
  parsed, so that \<open>.-5\<close>, which is no number, is read as minus five hundredths.
\<close>

theorem StringToDecimalScale_inner_sign:
  "\<exists>d. StringToDecimalScale ''.-5'' 2 = Inr d \<and> BigInt d = -5 \<and> scale d = 2"
proof -
  have "SetString ''-5'' = Some (-5)" by (simp add: SetString_def digit_val_def)
  moreover have "split_point ''.-5'' = Some ([], ''-5'')" by simp
  ultimately have "StringToDecimalScale ''.-5'' 2
      = Inr \<lparr>integer = out_loop (nat_Bytes (nat \<bar>-5\<bar>)) [0, 0, 0, 0], positive = 0 \<le> (-5 :: int), prec = 20, scale = 2\<rparr>"
    by (simp add: StringToDecimalScale_def scale_up.simps nat_Bytes.simps)
  with BigInt_limbs [of "-5"] show ?thesis by auto
qed

end
