(* ===== verification/Sql_Text.thy ===== *)
theory Sql_Text
  imports Go_Strings Decimal
begin

text \<open>
  Statement text: \<open>TSQLQuoter\<close> of \<open>src/quoter.go\<close>, \<open>isProc\<close> of \<open>src/mssql.go\<close> and the
  placeholder parser of \<open>src/internal/querytext/parser.go\<close>. The lemmas show that quoted names are
  taken for procedure names and that the parser numbers the placeholders of a statement and leaves
  quoted values, quoted names and other text alone.
\<close>

section \<open>The quoter\<close>

definition ID :: "string \<Rightarrow> string" where
  "ID name = ''['' @ double (CHR '']'') name @ '']''"

definition sqlString :: "string \<Rightarrow> string" where
  "sqlString v = [CHR 0x27] @ double (CHR 0x27) v @ [CHR 0x27]"

datatype quoted_value = QString string | QVarChar string | QVarCharMax string | QNVarCharMax string | QOther

fun quoter_Value :: "quoted_value \<Rightarrow> string option" where
  "quoter_Value (QString v) = Some (sqlString v)"
| "quoter_Value (QVarChar v) = Some (sqlString v)"
| "quoter_Value (QVarCharMax v) = Some (sqlString v)"
| "quoter_Value (QNVarCharMax v) = Some (sqlString v)"
| "quoter_Value QOther = None"

section \<open>Procedure names\<close>

definition builtinCommands :: "string list" where
  "builtinCommands = [''RECONFIGURE'', ''SHUTDOWN'', ''CHECKPOINT'', ''COMMIT'', ''ROLLBACK'', ''REVERT'']"

datatype proc_state = Outside | InText | Escaped

definition lbracket :: rune where "lbracket = 0x5B"
definition rbracket :: rune where "rbracket = 0x5D"
definition apos :: rune where "apos = 0x27"

text \<open>\<open>unicode.IsLetter\<close>, with the tables for the runes outside ASCII as an argument.\<close>

definition IsLetter :: "(rune \<Rightarrow> bool) \<Rightarrow> rune \<Rightarrow> bool" where
  "IsLetter letter r = (if r < 0x80 then 0x61 \<le> r \<and> r \<le> 0x7A \<or> 0x41 \<le> r \<and> r \<le> 0x5A else letter r)"

text \<open>One rune; \<open>None\<close> is the early return of \<open>false\<close>.\<close>

definition proc_step :: "(rune \<Rightarrow> bool) \<Rightarrow> proc_state \<Rightarrow> rune \<Rightarrow> rune \<Rightarrow> proc_state option" where
  "proc_step letter st prev r =
     (if st \<noteq> Escaped \<and> r \<in> {0x0A, 0x0D, apos, 0x3B} then None
      else case st of
        Outside \<Rightarrow>
          if r = lbracket then Some Escaped
          else if r = rbracket \<and> prev = rbracket then Some Escaped
          else if IsLetter letter r \<or> r = 0x5F \<or> r = 0x23 then Some InText
          else if r = 0x2E then Some Outside
          else None
      | InText \<Rightarrow>
          if r = 0x2E then Some Outside
          else if r = lbracket \<or> r = 0x28 \<or> IsSpace r then None
          else Some InText
      | Escaped \<Rightarrow> if r = rbracket then Some Outside else Some Escaped)"

fun proc_run :: "(rune \<Rightarrow> bool) \<Rightarrow> proc_state \<Rightarrow> rune \<Rightarrow> rune list \<Rightarrow> bool" where
  "proc_run letter st prev [] = True"
| "proc_run letter st prev (r # rs) =
     (case proc_step letter st prev r of None \<Rightarrow> False | Some st' \<Rightarrow> proc_run letter st' r rs)"

definition isProc :: "(rune \<Rightarrow> bool) \<Rightarrow> (rune \<Rightarrow> rune) \<Rightarrow> string \<Rightarrow> bool" where
  "isProc letter upper s \<longleftrightarrow>
     s \<noteq> [] \<and> proc_run letter Outside 0 (runes s) \<and> ToUpper upper s \<notin> set builtinCommands"

section \<open>Placeholders\<close>

record qparser =
  p_w :: string
  paramCount :: "64 word"
  paramMax :: "64 word"
  namedParams :: "string list"

datatype pstate =
    Normal | Ordinal "64 word" | Named string | Quote | DoubleQuote | Bracket | BracketClose
  | LineStart | LineRest | CommentStart | Comment nat | CommentStar nat | CommentSlash nat

definition p_write :: "rune \<Rightarrow> qparser \<Rightarrow> qparser" where
  "p_write ch p = p\<lparr>p_w := p_w p @ string_of_runes [ch]\<rparr>"

definition is_digit :: "rune \<Rightarrow> bool" where "is_digit c \<longleftrightarrow> 0x30 \<le> c \<and> c \<le> 0x39"
definition is_alpha :: "rune \<Rightarrow> bool" where "is_alpha c \<longleftrightarrow> 0x61 \<le> c \<and> c \<le> 0x7A \<or> 0x41 \<le> c \<and> c \<le> 0x5A"

text \<open>The end of \<open>parseOrdinalParameter\<close> and of \<open>parseNamedParameter\<close>; \<open>int\<close> wraps around.\<close>

definition ordinal_done :: "64 word \<Rightarrow> qparser \<Rightarrow> qparser" where
  "ordinal_done n p =
     (let p = (if n = 0 then p\<lparr>paramCount := paramCount p + 1\<rparr> else p);
          n = (if n = 0 then paramCount p else n);
          p = (if sint (paramMax p) < sint n then p\<lparr>paramMax := n\<rparr> else p)
      in p\<lparr>p_w := p_w p @ ''@p'' @ show_int (sint n)\<rparr>)"

definition named_done :: "string \<Rightarrow> qparser \<Rightarrow> qparser" where
  "named_done nm p = p\<lparr>namedParams := List.insert nm (namedParams p), p_w := p_w p @ ''@'' @ nm\<rparr>"

text \<open>The state after a rune that is written in \<open>parseNormal\<close>.\<close>

definition normal_next :: "rune \<Rightarrow> pstate" where
  "normal_next ch =
     (if ch = apos then Quote else if ch = 0x22 then DoubleQuote else if ch = lbracket then Bracket
      else if ch = 0x2D then LineStart else if ch = 0x2F then CommentStart else Normal)"

fun prank :: "pstate \<Rightarrow> nat" where
  "prank Normal = 0"
| "prank _ = 1"

function parse_run :: "pstate \<Rightarrow> rune list \<Rightarrow> qparser \<Rightarrow> qparser" where
  "parse_run Normal [] p = p"
| "parse_run Normal (ch # rs) p =
     (if ch = 0x3F then parse_run (Ordinal 0) rs p
      else if ch = 0x24 \<or> ch = 0x3A then
        (case rs of
           [] \<Rightarrow> p_write ch p
         | ch2 # _ \<Rightarrow>
             if is_digit ch2 then parse_run (Ordinal 0) rs p
             else if is_alpha ch2 then parse_run (Named []) rs p
             else parse_run Normal rs (p_write ch p))
      else parse_run (normal_next ch) rs (p_write ch p))"
| "parse_run (Ordinal n) [] p = ordinal_done n p"
| "parse_run (Ordinal n) (ch # rs) p =
     (if is_digit ch then parse_run (Ordinal (n * 10 + of_nat (ch - 0x30))) rs p
      else parse_run Normal (ch # rs) (ordinal_done n p))"
| "parse_run (Named nm) [] p = named_done nm p"
| "parse_run (Named nm) (ch # rs) p =
     (if is_digit ch \<or> is_alpha ch then parse_run (Named (nm @ string_of_runes [ch])) rs p
      else parse_run Normal (ch # rs) (named_done nm p))"
| "parse_run Quote [] p = p"
| "parse_run Quote (ch # rs) p = parse_run (if ch = apos then Normal else Quote) rs (p_write ch p)"
| "parse_run DoubleQuote [] p = p"
| "parse_run DoubleQuote (ch # rs) p = parse_run (if ch = 0x22 then Normal else DoubleQuote) rs (p_write ch p)"
| "parse_run Bracket [] p = p"
| "parse_run Bracket (ch # rs) p = parse_run (if ch = rbracket then BracketClose else Bracket) rs (p_write ch p)"
| "parse_run BracketClose [] p = p"
| "parse_run BracketClose (ch # rs) p =
     (if ch \<noteq> rbracket then parse_run Normal (ch # rs) p else parse_run Bracket rs (p_write ch p))"
| "parse_run LineStart [] p = p"
| "parse_run LineStart (ch # rs) p =
     (if ch \<noteq> 0x2D then parse_run Normal (ch # rs) p else parse_run LineRest rs (p_write ch p))"
| "parse_run LineRest [] p = p"
| "parse_run LineRest (ch # rs) p = parse_run (if ch = 0x0A then Normal else LineRest) rs (p_write ch p)"
| "parse_run CommentStart [] p = p"
| "parse_run CommentStart (ch # rs) p =
     (if ch \<noteq> 0x2A then parse_run Normal (ch # rs) p else parse_run (Comment 0) rs (p_write ch p))"
| "parse_run (Comment k) [] p = p"
| "parse_run (Comment k) (ch # rs) p =
     parse_run (if ch = 0x2A then CommentStar k else if ch = 0x2F then CommentSlash k else Comment k) rs (p_write ch p)"
| "parse_run (CommentStar k) [] p = p"
| "parse_run (CommentStar k) (ch # rs) p =
     parse_run (if ch = 0x2F then (if k = 0 then Normal else CommentSlash (k - 1))
                else if ch = 0x2A then CommentStar k else Comment k) rs (p_write ch p)"
| "parse_run (CommentSlash k) [] p = p"
| "parse_run (CommentSlash k) (ch # rs) p =
     parse_run (if ch = 0x2A then Comment (k + 1) else if ch = 0x2F then CommentSlash k else Comment k) rs (p_write ch p)"
  by pat_completeness auto
termination
  by (relation "measure (\<lambda>(st, rs, p). 2 * length rs + prank st)") (auto simp: normal_next_def)

definition new_parser :: qparser where
  "new_parser = \<lparr>p_w = [], paramCount = 0, paramMax = 0, namedParams = []\<rparr>"

definition ParseParams :: "string \<Rightarrow> string \<times> int" where
  "ParseParams query =
     (let p = parse_run Normal (runes query) new_parser in (p_w p, sint (paramMax p) + int (length (namedParams p))))"

section \<open>Quoted names are procedure names\<close>

lemma proc_run_escaped:
  "proc_run letter Escaped prev (double_runes rbracket rs @ rbracket # ts) = proc_run letter Outside rbracket ts"
proof (induction rs arbitrary: prev)
  case Nil
  then show ?case by (simp add: double_runes_def proc_step_def)
next
  case (Cons r rs)
  then show ?case
    by (cases "r = rbracket") (simp_all add: double_runes_def proc_step_def rbracket_def lbracket_def apos_def)
qed

lemma runes_ID: "valid_utf8 name \<Longrightarrow> runes (ID name @ t) = lbracket # double_runes rbracket (runes name) @ rbracket # runes t"
  using runes_double [of name "CHR '']''" "CHR '']'' # t"]
  by (simp add: ID_def runes_ascii code_def lbracket_def rbracket_def)

lemma proc_run_ID:
  assumes "valid_utf8 name"
  shows "proc_run letter Outside prev (runes (ID name @ t)) = proc_run letter Outside rbracket (runes t)"
  unfolding runes_ID [OF assms] by (simp add: proc_step_def lbracket_def apos_def proc_run_escaped)

fun dotted :: "string list \<Rightarrow> string" where
  "dotted [] = []"
| "dotted [n] = ID n"
| "dotted (n # m # ns) = ID n @ ''.'' @ dotted (m # ns)"

lemma proc_run_dotted: "\<forall>n \<in> set ns. valid_utf8 n \<Longrightarrow> proc_run letter Outside prev (runes (dotted ns))"
proof (induction ns arbitrary: prev rule: dotted.induct)
  case (2 n)
  then show ?case using proc_run_ID [of n letter prev "[]"] by simp
next
  case (3 n m ns)
  then show ?case
    by (simp add: proc_run_ID runes_ascii code_def proc_step_def apos_def lbracket_def rbracket_def IsLetter_def)
qed simp

lemma ToUpper_ID: "valid_utf8 n \<Longrightarrow> \<exists>t. ToUpper upper (ID n @ x) = CHR ''['' # t"
proof -
  assume n: "valid_utf8 n"
  have u: "upper_rune upper lbracket = lbracket" "string_of_runes [lbracket] = ''[''"
    using string_of_code [of "CHR ''[''"] by (simp_all add: upper_rune_def lbracket_def code_def)
  have "map (upper_rune upper) (runes (ID n @ x)) = [lbracket] @ map (upper_rune upper) (tl (runes (ID n @ x)))"
    using u by (simp add: runes_ID [OF n])
  then show ?thesis unfolding ToUpper_def by (simp only: string_of_runes_append u) simp
qed

lemma dotted_ID: "ns \<noteq> [] \<Longrightarrow> \<exists>n t. n \<in> set ns \<and> dotted ns = ID n @ t"
  by (cases ns rule: dotted.cases) auto

section \<open>Placeholders of a statement\<close>

datatype seg = Plain string | Hole | Quoted string | Ident string

fun render :: "seg \<Rightarrow> string" where
  "render (Plain s) = s"
| "render Hole = ''?''"
| "render (Quoted v) = sqlString v"
| "render (Ident n) = ID n"

definition special_runes :: "rune list" where
  "special_runes = [0x3F, 0x24, 0x3A, apos, 0x22, lbracket, rbracket, 0x2D, 0x2F]"

fun seg_ok :: "seg \<Rightarrow> bool" where
  "seg_ok (Plain s) = (s \<noteq> [] \<and> valid_utf8 s \<and> list_all (\<lambda>r. r \<notin> set special_runes) (runes s))"
| "seg_ok Hole = True"
| "seg_ok (Quoted v) = valid_utf8 v"
| "seg_ok (Ident n) = valid_utf8 n"

text \<open>Digits behind a placeholder would be its number.\<close>

fun segs_ok :: "seg list \<Rightarrow> bool" where
  "segs_ok [] = True"
| "segs_ok (Hole # Plain s # ss) = (seg_ok (Plain s) \<and> \<not> is_digit (hd (runes s)) \<and> segs_ok (Plain s # ss))"
| "segs_ok (x # ss) = (seg_ok x \<and> segs_ok ss)"

fun numbered :: "nat \<Rightarrow> seg list \<Rightarrow> string" where
  "numbered k [] = []"
| "numbered k (Hole # ss) = ''@p'' @ show_nat (k + 1) @ numbered (k + 1) ss"
| "numbered k (x # ss) = render x @ numbered k ss"

definition holes :: "seg list \<Rightarrow> nat" where
  "holes ss = length (filter (\<lambda>x. x = Hole) ss)"

abbreviation adds :: "qparser \<Rightarrow> string \<Rightarrow> qparser" where
  "adds p s \<equiv> p\<lparr>p_w := p_w p @ s\<rparr>"

lemma p_write_adds: "p_write ch p = adds p (string_of_runes [ch])"
  by (simp add: p_write_def)

lemma adds_adds [simp]: "adds (adds p s) t = adds p (s @ t)" "adds p [] = p"
  by simp_all

lemma string_of_runes_Cons: "string_of_runes (r # rs) = string_of_runes [r] @ string_of_runes rs"
  using string_of_runes_append [of "[r]" rs] by simp

lemma quote_run:
  "parse_run Quote (double_runes apos rs @ apos # ts) p
     = parse_run Normal ts (adds p (string_of_runes (double_runes apos rs @ [apos])))"
proof (induction rs arbitrary: p)
  case Nil
  then show ?case by (simp add: double_runes_def p_write_def)
next
  case (Cons r rs)
  then show ?case
    by (cases "r = apos")
      (simp_all add: double_runes_def p_write_def normal_next_def apos_def string_of_runes_Cons [of _ "_ @ _"]
        string_of_runes_Cons [of _ "_ # _"])
qed

lemma bracket_run:
  "parse_run Bracket (double_runes rbracket rs @ rbracket # ts) p
     = parse_run BracketClose ts (adds p (string_of_runes (double_runes rbracket rs @ [rbracket])))"
proof (induction rs arbitrary: p)
  case Nil
  then show ?case by (simp add: double_runes_def p_write_def)
next
  case (Cons r rs)
  then show ?case
    by (cases "r = rbracket")
      (simp_all add: double_runes_def p_write_def rbracket_def string_of_runes_Cons [of _ "_ @ _"]
        string_of_runes_Cons [of _ "_ # _"])
qed

lemma plain_run:
  "list_all (\<lambda>r. r \<notin> set special_runes) rs \<Longrightarrow> parse_run Normal (rs @ ts) p = parse_run Normal ts (adds p (string_of_runes rs))"
proof (induction rs arbitrary: p)
  case (Cons r rs)
  then have "r \<notin> set special_runes" by simp
  then have "parse_run Normal (r # rs @ ts) p = parse_run Normal (rs @ ts) (p_write r p)"
    by (simp add: special_runes_def normal_next_def)
  with Cons show ?case by (simp add: p_write_def string_of_runes_Cons [of r rs])
qed simp

lemma bracket_closed: "ts = [] \<or> hd ts \<noteq> rbracket \<Longrightarrow> parse_run BracketClose ts p = parse_run Normal ts p"
  by (cases ts) auto

lemma ordinal_ended: "ts = [] \<or> \<not> is_digit (hd ts) \<Longrightarrow> parse_run (Ordinal n) ts p = parse_run Normal ts (ordinal_done n p)"
  by (cases ts) auto

lemma runes_sqlString: "valid_utf8 v \<Longrightarrow> runes (sqlString v @ t) = apos # double_runes apos (runes v) @ apos # runes t"
  using runes_double [of v "CHR 0x27" "CHR 0x27 # t"]
  by (simp add: sqlString_def runes_ascii code_def apos_def)

lemma string_of_quoted:
  assumes "valid_utf8 v"
  shows "string_of_runes [apos] @ string_of_runes (double_runes apos (runes v) @ [apos]) = sqlString v"
    "string_of_runes [lbracket] @ string_of_runes (double_runes rbracket (runes v) @ [rbracket]) = ID v"
proof -
  have v: "string_of_runes (runes v) = v" using assms by (simp add: valid_utf8_def)
  have a: "string_of_runes [apos] = [CHR 0x27]" "string_of_runes [lbracket] = ''[''" "string_of_runes [rbracket] = '']''"
    using string_of_code [of "CHR 0x27"] string_of_code [of "CHR ''[''"] string_of_code [of "CHR '']''"]
    by (simp_all add: apos_def lbracket_def rbracket_def code_def)
  have d: "string_of_runes (double_runes apos (runes v)) = double (CHR 0x27) v"
    "string_of_runes (double_runes rbracket (runes v)) = double (CHR '']'') v"
    using double_string_of_runes [of "CHR 0x27" "runes v"] double_string_of_runes [of "CHR '']''" "runes v"] v
    by (simp_all add: code_def apos_def rbracket_def)
  show "string_of_runes [apos] @ string_of_runes (double_runes apos (runes v) @ [apos]) = sqlString v"
    "string_of_runes [lbracket] @ string_of_runes (double_runes rbracket (runes v) @ [rbracket]) = ID v"
    by (simp_all add: a d sqlString_def ID_def)
qed

lemma seg_runes:
  assumes "seg_ok x"
  shows "\<exists>rs. runes (render x @ t) = rs @ runes t \<and> rs \<noteq> [] \<and> hd rs \<noteq> rbracket
     \<and> (is_digit (hd rs) \<longrightarrow> (\<exists>s. x = Plain s \<and> hd (runes s) = hd rs))"
proof (cases x)
  case (Plain s)
  with assms have v: "valid_utf8 s" "runes s \<noteq> []" by (auto simp: valid_utf8_def)
  moreover have "hd (runes s) \<notin> set special_runes" using assms Plain hd_in_set [OF v(2)] by (simp add: list_all_iff)
  ultimately show ?thesis using Plain by (auto simp: runes_append_valid special_runes_def)
next
  case Hole
  then show ?thesis using runes_ascii [of "CHR ''?''" t] by (auto simp: code_def is_digit_def rbracket_def)
next
  case (Quoted v)
  with assms runes_sqlString [of v t] show ?thesis
    by (intro exI [of _ "apos # double_runes apos (runes v) @ [apos]"]) (simp add: apos_def rbracket_def is_digit_def)
next
  case (Ident v)
  with assms runes_ID [of v t] show ?thesis
    by (intro exI [of _ "lbracket # double_runes rbracket (runes v) @ [rbracket]"]) (simp add: lbracket_def rbracket_def is_digit_def)
qed

lemma segs_okD: "segs_ok (x # ss) \<Longrightarrow> seg_ok x \<and> segs_ok ss"
  by (cases "x # ss" rule: segs_ok.cases) auto

lemma segs_first:
  assumes "segs_ok ss"
  shows "runes (concat (map render ss)) = [] \<or> hd (runes (concat (map render ss))) \<noteq> rbracket"
proof (cases ss)
  case (Cons x xs)
  with assms segs_okD have "seg_ok x" by blast
  from seg_runes [OF this, of "concat (map render xs)"] Cons show ?thesis by auto
qed simp

lemma hole_first:
  assumes "segs_ok (Hole # ss)"
  shows "runes (concat (map render ss)) = [] \<or> \<not> is_digit (hd (runes (concat (map render ss))))"
proof (cases ss)
  case (Cons x xs)
  have "segs_ok ss" using segs_okD [OF assms] by simp
  with Cons segs_okD have "seg_ok x" by blast
  moreover have "\<not> is_digit (hd (runes s))" if "x = Plain s" for s using assms Cons that by simp
  ultimately show ?thesis using seg_runes [of x "concat (map render xs)"] Cons by auto
qed simp

lemma ordinal_next:
  assumes "paramCount p = of_nat k" "paramMax p = of_nat k" "k + 1 < 2 ^ 63"
  shows "ordinal_done 0 p = p\<lparr>p_w := p_w p @ ''@p'' @ show_nat (k + 1), paramCount := of_nat (k + 1), paramMax := of_nat (k + 1)\<rparr>"
proof -
  have s: "sint (word_of_nat j :: 64 word) = int j" if "j < 2 ^ 63" for j
    using that by (simp add: signed_of_nat signed_take_bit_int_eq_self)
  have "word_of_nat (k + 1) = (word_of_nat k + 1 :: 64 word)" by simp
  then show ?thesis
    using assms s [of k] s [of "k + 1"] by (simp add: ordinal_done_def Let_def show_int_def add.commute nat_add_distrib)
qed

lemma normal_opens:
  "parse_run Normal (apos # rs) p = parse_run Quote rs (p_write apos p)"
  "parse_run Normal (lbracket # rs) p = parse_run Bracket rs (p_write lbracket p)"
  by (simp_all add: normal_next_def apos_def lbracket_def)

lemma segs_run:
  assumes "segs_ok ss" "k + holes ss < 2 ^ 63" "paramCount p = of_nat k" "paramMax p = of_nat k"
  shows "parse_run Normal (runes (concat (map render ss))) p
    = p\<lparr>p_w := p_w p @ numbered k ss, paramCount := of_nat (k + holes ss), paramMax := of_nat (k + holes ss)\<rparr>"
  using assms
proof (induction ss arbitrary: k p)
  case Nil
  then show ?case by (simp add: holes_def)
next
  case (Cons x ss)
  let ?t = "concat (map render ss)"
  have ok: "seg_ok x" "segs_ok ss" using segs_okD [OF Cons.prems(1)] by auto
  show ?case
  proof (cases x)
    case (Plain s)
    then have v: "valid_utf8 s" "string_of_runes (runes s) = s" using ok by (auto simp: valid_utf8_def)
    show ?thesis using Plain ok v Cons.IH [OF ok(2), of k "adds p s"] Cons.prems
      by (simp add: runes_append_valid plain_run holes_def)
  next
    case Hole
    have r: "runes (render Hole @ ?t) = 0x3F # runes ?t" using runes_ascii [of "CHR ''?''" ?t] by (simp add: code_def)
    have o: "parse_run (Ordinal 0) (runes ?t) p = parse_run Normal (runes ?t) (ordinal_done 0 p)"
      using hole_first Cons.prems(1) Hole by (intro ordinal_ended) auto
    show ?thesis
      using Hole r o ordinal_next [of p k] Cons.prems Cons.IH [OF ok(2), of "k + 1" "ordinal_done 0 p"]
      by (simp add: holes_def)
  next
    case (Quoted v)
    then have v: "valid_utf8 v" using ok by simp
    have "parse_run Normal (runes (render x @ ?t)) p = parse_run Normal (runes ?t) (adds p (sqlString v))"
      using Quoted v string_of_quoted(1) [OF v]
      by (simp add: runes_sqlString normal_opens quote_run p_write_def del: parse_run.simps)
    then show ?thesis using Quoted Cons.IH [OF ok(2), of k "adds p (sqlString v)"] Cons.prems by (simp add: holes_def)
  next
    case (Ident v)
    then have v: "valid_utf8 v" using ok by simp
    have "parse_run Normal (runes (render x @ ?t)) p = parse_run BracketClose (runes ?t) (adds p (ID v))"
      using Ident v string_of_quoted(2) [OF v]
      by (simp add: runes_ID normal_opens bracket_run p_write_def del: parse_run.simps)
    also have "\<dots> = parse_run Normal (runes ?t) (adds p (ID v))" by (rule bracket_closed [OF segs_first [OF ok(2)]])
    finally show ?thesis using Ident Cons.IH [OF ok(2), of k "adds p (ID v)"] Cons.prems by (simp add: holes_def)
  qed
qed

section \<open>Theorems\<close>

text \<open>
  C30. A name quoted by \<open>TSQLQuoter.ID\<close>, whatever characters it has, and names of several quoted
  parts joined by dots are taken for the name of a procedure, so a statement that consists of one is
  sent as a call of that procedure and never as the text of a batch.
\<close>

theorem quoted_name_is_proc:
  assumes "ns \<noteq> []" "\<forall>n \<in> set ns. valid_utf8 n"
  shows "isProc letter upper (dotted ns)"
proof -
  obtain n t where n: "n \<in> set ns" "dotted ns = ID n @ t" using dotted_ID [OF assms(1)] by blast
  then obtain u where "ToUpper upper (dotted ns) = CHR ''['' # u" using ToUpper_ID assms(2) by metis
  then have "ToUpper upper (dotted ns) \<notin> set builtinCommands" by (auto simp: builtinCommands_def)
  moreover have "dotted ns \<noteq> []" using n by (simp add: ID_def)
  ultimately show ?thesis using proc_run_dotted [OF assms(2)] by (simp add: isProc_def)
qed

theorem quoted_name_is_proc_witness:
  "isProc (\<lambda>_. False) id (dotted [''my; schema'', ''x]; drop table t --''])"
proof (rule quoted_name_is_proc)
  have "list_all (\<lambda>c. code c < 128) n" if "n \<in> {''my; schema'', ''x]; drop table t --''}" for n
    using that by (auto simp: code_def)
  then show "\<forall>n \<in> set [''my; schema'', ''x]; drop table t --'']. valid_utf8 n" by (auto intro: valid_ascii)
qed simp

text \<open>
  C29. The placeholder parser numbers placeholders and nothing else: in a statement made of plain text,
  placeholders, quoted values and quoted names, the n-th \<open>?\<close> becomes \<open>@pn\<close>, everything
  else is unchanged, question marks, dashes and colons inside quotes included, and the number of
  parameters is the number of placeholders.
\<close>

theorem ParseParams_numbers_placeholders:
  assumes "segs_ok ss" "holes ss < 2 ^ 63"
  shows "ParseParams (concat (map render ss)) = (numbered 0 ss, int (holes ss))"
proof -
  have "sint (word_of_nat (holes ss) :: 64 word) = int (holes ss)"
    using assms(2) by (simp add: signed_of_nat signed_take_bit_int_eq_self)
  then show ?thesis
    using segs_run [OF assms(1), of 0 new_parser] assms(2) by (simp add: ParseParams_def Let_def new_parser_def)
qed

definition ex_segs :: "seg list" where
  "ex_segs = [Plain ''select '', Ident ''a]?'', Plain '' where x = '', Hole, Plain '' and y = '', Quoted [CHR 0x27, CHR ''?''], Plain '' or z ='', Hole]"

theorem ParseParams_numbers_placeholders_witness:
  "ParseParams (concat (map render ex_segs)) = (numbered 0 ex_segs, 2)"
proof -
  have a: "list_all (\<lambda>c. code c < 128) s" if "s \<in> {''select '', ''a]?'', '' where x = '', '' and y = '', [CHR 0x27, CHR ''?''], '' or z =''}" for s
    using that by (auto simp: code_def)
  then have v: "valid_utf8 s" "runes s = map code s" if "s \<in> {''select '', ''a]?'', '' where x = '', '' and y = '', [CHR 0x27, CHR ''?''], '' or z =''}" for s
    using that by (simp_all add: valid_ascii runes_ascii_string)
  have "segs_ok ex_segs" by (simp add: ex_segs_def v special_runes_def code_def apos_def lbracket_def rbracket_def is_digit_def)
  from ParseParams_numbers_placeholders [OF this] show ?thesis by (simp add: ex_segs_def holes_def)
qed

end
