(* ===== verification/Batch_Split.thy ===== *)
theory Batch_Split
  imports Sql_Text "HOL-Library.Sublist"
begin

text \<open>
  The batch splitter, \<open>src/batch/batch.go\<close>: a script is cut at the lines that hold the separator,
  often \<open>GO\<close>, outside of strings and comments. The separator is ASCII text. The lemmas show that splitting
  always ends without a panic, that batches are pieces of the script, and that a script put together from batches
  is split into them again, with the counts of repetition.
\<close>

section \<open>The lexer\<close>

record lexer =
  l_At :: nat
  l_Start :: nat
  l_Skip :: "nat list"
  l_Batch :: "string list"

lemma rune_shortens: "(r, w) = DecodeRune p \<Longrightarrow> s \<noteq> [] \<Longrightarrow> 0 < w \<and> length s - w < length s"
  using DecodeRune_width [of p] by (cases s) (auto simp: prod_eq_iff)

text \<open>\<open>for i, r := range s\<close>: the runes with the positions of their first bytes.\<close>

function range_runes :: "nat \<Rightarrow> string \<Rightarrow> (nat \<times> rune) list" where
  "range_runes i s =
     (if s = [] then []
      else case DecodeRune (map unat (str_bytes s)) of (r, w) \<Rightarrow> (i, r) # range_runes (i + w) (drop w s))"
  by pat_completeness auto
termination
  by (relation "measure (\<lambda>(i, s). length s)") (auto dest: rune_shortens)

declare range_runes.simps [simp del]

definition hasPrefixFold :: "string \<Rightarrow> string \<Rightarrow> bool" where
  "hasPrefixFold s sep \<longleftrightarrow> length sep \<le> length s \<and> EqualFold (take (length sep) s) sep"

text \<open>The runes of a batch less those at the positions to skip.\<close>

fun skip_runes :: "nat list \<Rightarrow> (nat \<times> rune) list \<Rightarrow> rune list" where
  "skip_runes (k # ks) ((i, r) # rs) =
     (if i = k then skip_runes (if ks = [] then [k] else ks) rs else r # skip_runes (k # ks) rs)"
| "skip_runes ks rs = map snd rs"

definition current_text :: "string \<Rightarrow> lexer \<Rightarrow> string" where
  "current_text sql l =
     (let text = drop (l_Start l) (take (l_At l) sql)
      in if l_Skip l = [] then text else string_of_runes (skip_runes (l_Skip l) (range_runes 0 text)))"

definition AddCurrent :: "string \<Rightarrow> string \<Rightarrow> int \<Rightarrow> lexer \<Rightarrow> fault + lexer" where
  "AddCurrent sql sep count l =
     (let l = l\<lparr>l_At := min (l_At l) (length sql)\<rparr> in
      if l_At l < l_Start l then Inl (RuntimePanic ''slice bounds out of range'')
      else let text = current_text sql l;
               at' = l_At l + length sep
           in Inr \<lparr>l_At = at', l_Start = at', l_Skip = [],
                   l_Batch = l_Batch l @ (if text = [] then [] else replicate (nat (min (max count 0) 1000)) text)\<rparr>)"

datatype bstate = BSep | BText | BWhitespace | BLineComment | BMultiComment | BString

text \<open>
  \<open>unicode.IsLetter\<close> and \<open>unicode.IsNumber\<close> take their tables for runes outside ASCII as arguments.
\<close>

definition IsNumber :: "(rune \<Rightarrow> bool) \<Rightarrow> rune \<Rightarrow> bool" where
  "IsNumber number r = (if r < 0x80 then is_digit r else number r)"

record uni =
  u_letter :: "rune \<Rightarrow> bool"
  u_number :: "rune \<Rightarrow> bool"

definition is_newline :: "rune \<Rightarrow> bool" where
  "is_newline r \<longleftrightarrow> r = 0x0A \<or> r = 0x0D"

datatype scan = ScanNewline | ScanNumber nat | ScanEnd | ScanOther

text \<open>The loop after the separator passes over everything that is no newline and no number.\<close>

fun sep_scan :: "uni \<Rightarrow> (nat \<times> rune) list \<Rightarrow> scan" where
  "sep_scan u [] = ScanEnd"
| "sep_scan u ((i, r) # rs) =
     (if is_newline r then ScanNewline
      else if IsSpace r then sep_scan u rs
      else if IsNumber (u_number u) r then ScanNumber i
      else sep_scan u rs)"

fun number_count :: "uni \<Rightarrow> nat \<Rightarrow> (nat \<times> rune) list \<Rightarrow> nat" where
  "number_count u n [] = n"
| "number_count u n ((i, r) # rs) = (if IsNumber (u_number u) r then number_count u i rs else n)"

fun tail_scan :: "(nat \<times> rune) list \<Rightarrow> scan" where
  "tail_scan [] = ScanEnd"
| "tail_scan ((i, r) # rs) = (if is_newline r then ScanNewline else if IsSpace r then tail_scan rs else ScanOther)"

type_synonym lex_result = "fault + (bstate option \<times> lexer)"

definition stateSep :: "uni \<Rightarrow> string \<Rightarrow> string \<Rightarrow> lexer \<Rightarrow> lex_result" where
  "stateSep u sql sep l =
     (if length sql \<le> l_At l + length sep then Inr (None, l)
      else let s = drop (l_At l + length sep) sql in
        if IsLetter (u_letter u) (code (hd s)) then Inr (Some BText, l)
        else case sep_scan u (range_runes 0 s) of
            ScanNewline \<Rightarrow> sbind (AddCurrent sql sep 1 l) (\<lambda>l. Inr (Some BWhitespace, l))
          | ScanNumber start \<Rightarrow>
              let end' = start + number_count u 0 (range_runes 0 (drop start s)) + 1 in
              (case ParseUint (take (end' - start) (drop start s)) 10 63 of
                 None \<Rightarrow> Inr (Some BText, l)
               | Some n \<Rightarrow>
                   (case tail_scan (range_runes 0 (drop end' s)) of
                      ScanNewline \<Rightarrow> sbind (AddCurrent sql sep (int n) l) (\<lambda>l.
                         Inr (Some BWhitespace, l\<lparr>l_At := l_At l + end', l_Start := l_At l + end'\<rparr>))
                    | ScanOther \<Rightarrow> Inr (Some BText, l)
                    | _ \<Rightarrow> Inr (None, l)))
          | _ \<Rightarrow> Inr (None, l))"

definition advance :: "nat \<Rightarrow> lexer \<Rightarrow> lexer" where
  "advance n l = l\<lparr>l_At := l_At l + n\<rparr>"

text \<open>\<open>Next\<close> at the end of a loop body: go on with the same state or stop.\<close>

definition keep :: "string \<Rightarrow> bstate \<Rightarrow> lexer \<Rightarrow> lex_result" where
  "keep sql st l = Inr (if l_At l + 1 < length sql then Some st else None, advance 1 l)"

definition goes :: "bstate \<Rightarrow> lexer \<Rightarrow> lex_result" where
  "goes st l = Inr (Some st, l)"

definition stateText :: "string \<Rightarrow> lexer \<Rightarrow> lex_result" where
  "stateText sql l =
     (if length sql \<le> l_At l then Inl (RuntimePanic ''index out of range'')
      else let s = drop (l_At l) sql; ch = hd s in
        if HasPrefix s ''--'' then goes BLineComment (advance 2 l)
        else if HasPrefix s ''/*'' then goes BMultiComment (advance 2 l)
        else if ch = CHR 0x27 then goes BString (advance 1 l)
        else if is_newline (code ch) then goes BWhitespace (advance 1 l)
        else keep sql BText l)"

definition stateWhitespace :: "string \<Rightarrow> string \<Rightarrow> lexer \<Rightarrow> lex_result" where
  "stateWhitespace sql sep l =
     (if length sql \<le> l_At l then Inr (None, l)
      else let s = drop (l_At l) sql in
        if IsSpace (code (hd s)) then goes BWhitespace (advance 1 l)
        else if hasPrefixFold s sep then goes BSep l
        else goes BText l)"

definition stateLineComment :: "string \<Rightarrow> lexer \<Rightarrow> lex_result" where
  "stateLineComment sql l =
     (if length sql \<le> l_At l then Inr (None, l)
      else if is_newline (code (sql ! l_At l)) then goes BWhitespace (advance 1 l)
      else keep sql BLineComment l)"

definition stateMultiComment :: "string \<Rightarrow> lexer \<Rightarrow> lex_result" where
  "stateMultiComment sql l =
     (if length sql < l_At l then Inl (RuntimePanic ''slice bounds out of range'')
      else if HasPrefix (drop (l_At l) sql) ''*/'' then goes BWhitespace (advance 2 l)
      else keep sql BMultiComment l)"

definition stateString :: "string \<Rightarrow> lexer \<Rightarrow> lex_result" where
  "stateString sql l =
     (if length sql \<le> l_At l then Inr (None, l)
      else let at' = l_At l; ch = sql ! at'; more = at' + 1 < length sql; chNext = code (sql ! (at' + 1)) in
        if ch = CHR 0x5C \<and> more \<and> is_newline chNext then
          (let three = chNext = 0x0D \<and> at' + 2 < length sql \<and> code (sql ! (at' + 2)) = 0x0A
           in goes BString (advance (if three then 3 else 2)
                (l\<lparr>l_Skip := l_Skip l @ [at', at' + 1] @ (if three then [at' + 2] else [])\<rparr>)))
        else if ch = CHR 0x27 \<and> more \<and> chNext = 0x27 then goes BString (advance 2 l)
        else if ch = CHR 0x27 then goes BWhitespace (advance 1 l)
        else keep sql BString l)"

text \<open>One round of a state function's loop, or the whole function where it has none.\<close>

fun lex_step :: "uni \<Rightarrow> string \<Rightarrow> string \<Rightarrow> bstate \<Rightarrow> lexer \<Rightarrow> lex_result" where
  "lex_step u sql sep BSep l = stateSep u sql sep l"
| "lex_step u sql sep BText l = stateText sql l"
| "lex_step u sql sep BWhitespace l = stateWhitespace sql sep l"
| "lex_step u sql sep BLineComment l = stateLineComment sql l"
| "lex_step u sql sep BMultiComment l = stateMultiComment sql l"
| "lex_step u sql sep BString l = stateString sql l"

partial_function (option) lex_run :: "uni \<Rightarrow> string \<Rightarrow> string \<Rightarrow> bstate \<Rightarrow> lexer \<Rightarrow> (fault + lexer) option" where
  "lex_run u sql sep st l =
     (case lex_step u sql sep st l of
        Inl f \<Rightarrow> Some (Inl f)
      | Inr (None, l') \<Rightarrow> Some (Inr l')
      | Inr (Some st', l') \<Rightarrow> lex_run u sql sep st' l')"

definition new_lexer :: lexer where
  "new_lexer = \<lparr>l_At = 0, l_Start = 0, l_Skip = [], l_Batch = []\<rparr>"

definition batch_Split :: "uni \<Rightarrow> string \<Rightarrow> string \<Rightarrow> (fault + string list) option" where
  "batch_Split u sql sep =
     (if sep = [] \<or> length sql < length sep then Some (Inr [sql])
      else case lex_run u sql sep BWhitespace new_lexer of
          None \<Rightarrow> None
        | Some (Inl f) \<Rightarrow> Some (Inl f)
        | Some (Inr l) \<Rightarrow> Some (map_sum id l_Batch (AddCurrent sql sep 1 l)))"

section \<open>Splitting ends\<close>

lemma range_index: "(i, r) \<in> set (range_runes k s) \<Longrightarrow> k \<le> i \<and> i < k + length s"
proof (induction k s rule: range_runes.induct)
  case (1 k s)
  show ?case
  proof (cases "s = []")
    case False
    obtain r' w where d: "DecodeRune (map unat (str_bytes s)) = (r', w)" by force
    then have w: "0 < w" using rune_shortens [OF sym False] by auto
    from "1.prems" False d consider "i = k" | "(i, r) \<in> set (range_runes (k + w) (drop w s))"
      by (auto simp: range_runes.simps [of k s])
    then show ?thesis
    proof cases
      case 2
      from "1.IH" [OF False d [symmetric] 2] w False show ?thesis by auto
    qed (use False in simp)
  qed (use "1.prems" in \<open>simp add: range_runes.simps\<close>)
qed

lemma sep_scan_number: "sep_scan u rs = ScanNumber i \<Longrightarrow> \<exists>r. (i, r) \<in> set rs"
  by (induction u rs rule: sep_scan.induct) (auto split: if_splits)

lemma number_count_bound: "(\<And>i r. (i, r) \<in> set rs \<Longrightarrow> i < n) \<Longrightarrow> k < n \<Longrightarrow> number_count u k rs < n"
  by (induction u k rs rule: number_count.induct) (auto split: if_splits)

definition lex_ok :: "string \<Rightarrow> bstate \<Rightarrow> lexer \<Rightarrow> bool" where
  "lex_ok sql st l \<longleftrightarrow> l_Start l \<le> l_At l \<and> l_At l \<le> length sql \<and> (st \<in> {BText, BSep} \<longrightarrow> l_At l < length sql)
     \<and> (CHR 0x5C \<notin> set sql \<longrightarrow> l_Skip l = []) \<and> (CHR 0x5C \<notin> set sql \<longrightarrow> (\<forall>b\<in>set (l_Batch l). sublist b sql))"

definition stop_ok :: "string \<Rightarrow> lexer \<Rightarrow> bool" where
  "stop_ok sql l \<longleftrightarrow> l_Start l \<le> l_At l \<and> l_Start l \<le> length sql
     \<and> (CHR 0x5C \<notin> set sql \<longrightarrow> l_Skip l = []) \<and> (CHR 0x5C \<notin> set sql \<longrightarrow> (\<forall>b\<in>set (l_Batch l). sublist b sql))"

fun brank :: "bstate \<Rightarrow> nat" where
  "brank BWhitespace = 2"
| "brank BSep = 1"
| "brank _ = 0"

definition lex_measure :: "string \<Rightarrow> bstate \<Rightarrow> lexer \<Rightarrow> nat" where
  "lex_measure sql st l = 3 * (length sql - l_At l) + brank st"

definition steps_ok :: "string \<Rightarrow> nat \<Rightarrow> lex_result \<Rightarrow> bool" where
  "steps_ok sql n r \<longleftrightarrow> (case r of
       Inl _ \<Rightarrow> False
     | Inr (None, l) \<Rightarrow> stop_ok sql l
     | Inr (Some st, l) \<Rightarrow> lex_ok sql st l \<and> lex_measure sql st l < n)"

lemma drop_take_sublist: "sublist (drop i (take j xs)) xs"
  by (metis sublist_drop sublist_take sublist_order.order_trans)

lemma AddCurrent_ok:
  assumes "stop_ok sql l"
  shows "\<exists>l'. AddCurrent sql sep n l = Inr l' \<and> l_At l' = min (l_At l) (length sql) + length sep \<and> l_Start l' = l_At l' \<and> l_Skip l' = []
     \<and> (CHR 0x5C \<notin> set sql \<longrightarrow> (\<forall>b\<in>set (l_Batch l'). sublist b sql))"
  using assms
  by (auto simp: AddCurrent_def Let_def stop_ok_def current_text_def drop_take_sublist)

lemma lex_stop: "lex_ok sql st l \<Longrightarrow> stop_ok sql l"
  by (auto simp: lex_ok_def stop_ok_def)

lemma keep_ok: "lex_ok sql st l \<Longrightarrow> st \<noteq> BSep \<Longrightarrow> st' = st \<Longrightarrow> steps_ok sql (lex_measure sql st l) (keep sql st' l)"
  by (auto simp: keep_def steps_ok_def lex_ok_def stop_ok_def advance_def lex_measure_def)

lemma goes_ok:
  assumes "lex_ok sql st l" "0 < n" "l_At l + n \<le> length sql" "st' \<notin> {BText, BSep}"
  shows "steps_ok sql (lex_measure sql st l) (goes st' (advance n l))"
proof -
  have "brank st' \<le> 2" by (cases st') auto
  with assms show ?thesis by (auto simp: goes_def steps_ok_def lex_ok_def advance_def lex_measure_def)
qed

lemma prefix_length: "HasPrefix (drop n s) p \<Longrightarrow> n \<le> length s \<Longrightarrow> n + length p \<le> length s"
  by (auto simp: HasPrefix_def dest: arg_cong [of _ _ length])

lemma lex_step_ok:
  assumes "lex_ok sql st l" "sep \<noteq> []"
  shows "steps_ok sql (lex_measure sql st l) (lex_step u sql sep st l)"
proof (cases st)
  case BText
  then have a: "l_At l < length sql" using assms by (simp add: lex_ok_def)
  with assms BText prefix_length [of "l_At l" sql "''--''"] prefix_length [of "l_At l" sql "''/*''"] show ?thesis
    by (auto simp: stateText_def Let_def intro!: goes_ok keep_ok)
next
  case BWhitespace
  with assms show ?thesis
    by (auto simp: stateWhitespace_def Let_def lex_stop steps_ok_def [of _ _ "Inr _"] intro!: goes_ok)
       (auto simp: goes_def steps_ok_def lex_ok_def lex_measure_def)
next
  case BLineComment
  with assms show ?thesis
    by (auto simp: stateLineComment_def lex_stop steps_ok_def [of _ _ "Inr _"] intro!: goes_ok keep_ok)
next
  case BMultiComment
  then have a: "l_At l \<le> length sql" using assms by (simp add: lex_ok_def)
  with assms BMultiComment prefix_length [of "l_At l" sql "''*/''"] show ?thesis
    by (auto simp: stateMultiComment_def intro!: goes_ok keep_ok)
next
  case BString
  show ?thesis
  proof (cases "l_At l < length sql")
    case False
    with assms BString show ?thesis by (simp add: stateString_def steps_ok_def lex_stop)
  next
    case True
    have esc: "lex_ok sql st (l\<lparr>l_Skip := ks\<rparr>)" if "sql ! l_At l = CHR 0x5C" for ks
      using assms(1) that True nth_mem [OF True] by (auto simp: lex_ok_def)
    have m: "lex_measure sql st (l\<lparr>l_Skip := ks\<rparr>) = lex_measure sql st l" for ks by (simp add: lex_measure_def)
    have g: "steps_ok sql (lex_measure sql st l) (goes BString (advance n (l\<lparr>l_Skip := ks\<rparr>)))"
      if "sql ! l_At l = CHR 0x5C" "0 < n" "l_At l + n \<le> length sql" for n ks
      using goes_ok [OF esc [OF that(1), of ks], of n BString] that(2,3) m by simp
    show ?thesis using assms(1) BString True
      by (auto simp: stateString_def Let_def intro!: g [unfolded BString] goes_ok keep_ok)
  qed
next
  case BSep
  let ?s = "drop (l_At l + length sep) sql"
  have at_lt: "l_At l < length sql" and st: "stop_ok sql l" using assms(1) BSep lex_stop by (auto simp: lex_ok_def)
  then have mn: "min (l_At l) (length sql) = l_At l" by simp
  show ?thesis
  proof (cases "length sql \<le> l_At l + length sep")
    case True
    with BSep st show ?thesis by (simp add: stateSep_def steps_ok_def)
  next
    case False
    then have ls: "length ?s = length sql - (l_At l + length sep)" "0 < length ?s" by auto
    have t: "steps_ok sql (lex_measure sql st l) (Inr (Some BText, l))"
      using assms(1) BSep by (auto simp: steps_ok_def lex_ok_def lex_measure_def)
    have add: "steps_ok sql (lex_measure sql st l)
        (sbind (AddCurrent sql sep c l) (\<lambda>l. Inr (Some BWhitespace, l\<lparr>l_At := l_At l + k, l_Start := l_At l + k\<rparr>)))"
      if "k \<le> length ?s" for c k
    proof -
      obtain l' where l': "AddCurrent sql sep c l = Inr l'" "l_At l' = l_At l + length sep" "l_Skip l' = []"
        "CHR 0x5C \<notin> set sql \<longrightarrow> (\<forall>b\<in>set (l_Batch l'). sublist b sql)"
        using AddCurrent_ok [OF st, of sep c] mn by auto
      have "0 < length sep" using assms(2) by simp
      then have "Suc (3 * (length sql - (l_At l + length sep + k))) < 3 * (length sql - l_At l)" using at_lt by linarith
      with l' that ls at_lt False BSep show ?thesis by (auto simp: steps_ok_def lex_ok_def lex_measure_def)
    qed
    have addS: "steps_ok sql (lex_measure sql st l)
        (sbind (AddCurrent sql sep c l) (\<lambda>l. Inr (Some BWhitespace, l\<lparr>l_At := Suc (l_At l + k), l_Start := Suc (l_At l + k)\<rparr>)))"
      if "Suc k \<le> length ?s" for c k
      using add [OF that, of c] by simp
    have add0: "steps_ok sql (lex_measure sql st l) (sbind (AddCurrent sql sep c l) (\<lambda>l. Inr (Some BWhitespace, l)))" for c
      using add [of 0 c] AddCurrent_ok [OF st, of sep c] by (auto simp: steps_ok_def lex_ok_def lex_measure_def)
    have num: "start + number_count u 0 (range_runes 0 (drop start ?s)) + 1 \<le> length ?s"
      if "sep_scan u (range_runes 0 ?s) = ScanNumber start" for start
    proof -
      have st: "start < length ?s" using sep_scan_number [OF that] range_index by fastforce
      have "number_count u 0 (range_runes 0 (drop start ?s)) < length (drop start ?s)"
        by (rule number_count_bound) (use range_index [of _ _ 0 "drop start ?s"] st in auto)
      with st show ?thesis by simp
    qed
    show ?thesis unfolding BSep lex_step.simps stateSep_def Let_def
      using False st t add0 num
      by (auto simp: BSep [symmetric] steps_ok_def [of _ _ "Inr (None, _)"] simp del: length_drop intro!: addS
          split: scan.split option.split)
  qed
qed

lemma lex_run_ok:
  "lex_ok sql st l \<Longrightarrow> sep \<noteq> [] \<Longrightarrow> \<exists>l'. lex_run u sql sep st l = Some (Inr l') \<and> stop_ok sql l'"
proof (induction "lex_measure sql st l" arbitrary: st l rule: less_induct)
  case less
  have ok: "steps_ok sql (lex_measure sql st l) (lex_step u sql sep st l)" by (rule lex_step_ok [OF less.prems])
  show ?case
  proof (cases "lex_step u sql sep st l")
    case (Inr r)
    obtain st' l' where r: "r = (st', l')" by force
    show ?thesis
    proof (cases st')
      case None
      with ok Inr r show ?thesis by (simp add: lex_run.simps [of u sql sep st l] steps_ok_def)
    next
      case (Some st2)
      with ok Inr r have "lex_ok sql st2 l'" "lex_measure sql st2 l' < lex_measure sql st l" by (simp_all add: steps_ok_def)
      with less.hyps less.prems(2) Inr r Some show ?thesis by (simp add: lex_run.simps [of u sql sep st l])
    qed
  qed (use ok in \<open>simp add: steps_ok_def\<close>)
qed

lemma new_lexer_ok: "lex_ok sql BWhitespace new_lexer"
  by (simp add: lex_ok_def new_lexer_def)

text \<open>
  Splitting ends for every script and separator, without an index out of range; and the batches of a
  script without backslashes, which escape newlines in strings, are pieces of the script.
\<close>

theorem batch_Split_total:
  "\<exists>bs. batch_Split u sql sep = Some (Inr bs) \<and> (CHR 0x5C \<notin> set sql \<longrightarrow> (\<forall>b\<in>set bs. sublist b sql))"
proof (cases "sep = [] \<or> length sql < length sep")
  case False
  then obtain l where l: "lex_run u sql sep BWhitespace new_lexer = Some (Inr l)" "stop_ok sql l"
    using lex_run_ok [OF new_lexer_ok, of sep u] by blast
  with AddCurrent_ok [OF l(2), of sep 1] False show ?thesis by (auto simp: batch_Split_def)
qed (auto simp: batch_Split_def)

definition ex_uni :: uni where
  "ex_uni = \<lparr>u_letter = (\<lambda>_. False), u_number = (\<lambda>_. False)\<rparr>"

theorem batch_Split_total_witness:
  "\<exists>bs. batch_Split ex_uni ''select 1'' ''go'' = Some (Inr bs) \<and> (\<forall>b\<in>set bs. sublist b ''select 1'')"
proof -
  have "CHR 0x5C \<notin> set ''select 1''" by simp
  with batch_Split_total [of ex_uni "''select 1''" "''go''"] show ?thesis by blast
qed

section \<open>Scripts put together from batches\<close>

definition nl :: char where "nl = CHR 0x0A"

text \<open>
  A line without quotes and comments that does not start with the separator, or with it as the
  beginning of a word.
\<close>

fun calm :: "string \<Rightarrow> bool" where
  "calm [] = True"
| "calm (c # s) = (c \<noteq> CHR 0x27 \<and> \<not> is_newline (code c) \<and> \<not> HasPrefix (c # s) ''--'' \<and> \<not> HasPrefix (c # s) ''/*'' \<and> calm s)"

definition first_word :: "string \<Rightarrow> string" where
  "first_word L = dropWhile (\<lambda>c. IsSpace (code c)) L"

definition line_ok :: "uni \<Rightarrow> string \<Rightarrow> string \<Rightarrow> bool" where
  "line_ok u sep L \<longleftrightarrow> calm L \<and> valid_utf8 (first_word L)
     \<and> (hasPrefixFold (first_word L) sep \<longrightarrow>
          length sep < length (first_word L) \<and> IsLetter (u_letter u) (code (first_word L ! length sep)))"

definition sep_ok :: "string \<Rightarrow> bool" where
  "sep_ok sep \<longleftrightarrow> sep \<noteq> [] \<and> list_all (\<lambda>c. code c < 128 \<and> \<not> is_newline (code c)) sep \<and> \<not> IsSpace (code (hd sep))"

definition lines :: "string list \<Rightarrow> string" where
  "lines Ls = concat (map (\<lambda>L. L @ [nl]) Ls)"

definition mark :: "string \<Rightarrow> string option \<Rightarrow> string" where
  "mark sep cnt = sep @ (case cnt of None \<Rightarrow> [] | Some ds \<Rightarrow> CHR '' '' # ds)"

fun script :: "string \<Rightarrow> (string list \<times> string option) list \<Rightarrow> string list \<Rightarrow> string" where
  "script sep [] final = lines final"
| "script sep ((Ls, cnt) # ps) final = lines Ls @ mark sep cnt @ script sep ps final"

fun count_ok :: "string option \<Rightarrow> bool" where
  "count_ok None = True"
| "count_ok (Some ds) = (ds \<noteq> [] \<and> list_all (\<lambda>c. is_digit (code c)) ds \<and> ParseUint ds 10 63 \<noteq> None)"

fun repeats :: "string option \<Rightarrow> nat" where
  "repeats None = 1"
| "repeats (Some ds) = min (the (ParseUint ds 10 63)) 1000"

definition added :: "string \<Rightarrow> nat \<Rightarrow> string list" where
  "added b n = (if b = [] then [] else replicate n b)"

definition batches :: "(string list \<times> string option) list \<Rightarrow> string list \<Rightarrow> string list" where
  "batches ps final = concat (map (\<lambda>(Ls, cnt). added (lines Ls) (repeats cnt)) ps) @ added (lines final) 1"

text \<open>A line ends behind every separator.\<close>

fun script_ok :: "uni \<Rightarrow> string \<Rightarrow> (string list \<times> string option) list \<Rightarrow> string list \<Rightarrow> bool" where
  "script_ok u sep [] final = list_all (line_ok u sep) final"
| "script_ok u sep ((Ls, cnt) # ps) final =
     (list_all (line_ok u sep) Ls \<and> count_ok cnt \<and> script_ok u sep ps final
      \<and> (case (case ps of [] \<Rightarrow> final | (Ms, _) # _ \<Rightarrow> Ms) of L # _ \<Rightarrow> L = [] | [] \<Rightarrow> False))"

lemma lex_go: "lex_step u sql sep st l = Inr (Some st', l') \<Longrightarrow> lex_run u sql sep st l = lex_run u sql sep st' l'"
  by (simp add: lex_run.simps [of u sql sep st l])

lemma advance_advance [simp]: "advance n (advance m l) = advance (m + n) l" "l_At (advance n l) = l_At l + n" "advance 0 l = l"
  by (simp_all add: advance_def add_ac)

lemma nl_code [simp]: "is_newline 10" "IsSpace 10" "code nl = 10" "nl \<noteq> CHR 0x27" "nl \<noteq> CHR ''-''" "nl \<noteq> CHR ''*''" "nl \<noteq> CHR ''/''"
  by (simp_all add: nl_def is_newline_def IsSpace_def space_runes_def code_def)

lemma drop_Suc_eq: "drop n xs = y # ys \<Longrightarrow> drop (Suc n) xs = ys \<and> n < length xs"
  by (cases "n < length xs") (auto simp flip: Cons_nth_drop_Suc)

lemma text_line:
  "drop (l_At l) sql = L @ nl # rest \<Longrightarrow> calm L \<Longrightarrow> lex_run u sql sep BText l = lex_run u sql sep BWhitespace (advance (length L + 1) l)"
proof (induction L arbitrary: l)
  case Nil
  then have d: "drop (l_At l) sql = nl # rest" by simp
  have "l_At l < length sql" using drop_Suc_eq [OF d] by simp
  with d have "lex_step u sql sep BText l = Inr (Some BWhitespace, advance 1 l)"
    by (simp add: stateText_def Let_def HasPrefix_def goes_def)
  then show ?case by (simp add: lex_go)
next
  case (Cons c L)
  then have d: "drop (l_At l) sql = c # L @ nl # rest" by simp
  from drop_Suc_eq [OF d] have a: "l_At l < length sql" "drop (Suc (l_At l)) sql = L @ nl # rest" by auto
  then have "Suc (l_At l) < length sql" using drop_eq_Nil [of "Suc (l_At l)" sql] by fastforce
  moreover have "\<not> HasPrefix (c # L @ nl # rest) ''--''" "\<not> HasPrefix (c # L @ nl # rest) ''/*''"
    using Cons.prems(2) by (cases L; auto simp: HasPrefix_def nl_def)+
  ultimately have "lex_step u sql sep BText l = Inr (Some BText, advance 1 l)"
    using d a Cons.prems(2) by (simp add: stateText_def Let_def keep_def)
  with Cons.IH [of "advance 1 l"] a(2) Cons.prems(2) show ?case by (simp add: lex_go)
qed

lemma runes_sep: "list_all (\<lambda>c. code c < 128 \<and> P c) s \<Longrightarrow> runes s = map code s"
  by (induction s) (auto simp: runes_ascii)

lemma prefix_in_line:
  assumes "hasPrefixFold (w @ nl # rest) sep" "valid_utf8 w" "sep_ok sep"
  shows "hasPrefixFold w sep"
proof (cases "length sep \<le> length w")
  case True
  with assms(1) show ?thesis by (simp add: hasPrefixFold_def)
next
  case False
  then obtain k where k: "length sep - length w = Suc k" by (metis Suc_diff_Suc not_le)
  have "take (length sep) (w @ nl # rest) = w @ nl # take k rest" using False k by simp
  with assms(1,2) have "map fold_rune (runes sep) = map fold_rune (runes w @ 10 # runes (take k rest))"
    by (simp add: hasPrefixFold_def EqualFold_def runes_append_valid runes_ascii)
  then have "fold_rune 10 \<in> fold_rune ` set (runes sep)" by (simp flip: set_map)
  moreover have "runes sep = map code sep" using assms(3) runes_sep by (auto simp: sep_ok_def)
  ultimately obtain c where "c \<in> set sep" "fold_rune (code c) = 10" by (auto simp: fold_rune_def)
  moreover from this(2) have "code c = 10" by (auto simp: fold_rune_def split: if_splits)
  ultimately show ?thesis using assms(3) by (auto simp: sep_ok_def list_all_iff)
qed

lemma white_line:
  "drop (l_At l) sql = L @ nl # rest \<Longrightarrow> line_ok u sep L \<Longrightarrow> sep_ok sep \<Longrightarrow>
     lex_run u sql sep BWhitespace l = lex_run u sql sep BWhitespace (advance (length L + 1) l)"
proof (induction L arbitrary: l)
  case Nil
  then have d: "drop (l_At l) sql = nl # rest" by simp
  have "l_At l < length sql" using drop_Suc_eq [OF d] by simp
  with d have "lex_step u sql sep BWhitespace l = Inr (Some BWhitespace, advance 1 l)"
    by (simp add: stateWhitespace_def Let_def goes_def)
  then show ?case by (simp add: lex_go)
next
  case (Cons c L)
  then have d: "drop (l_At l) sql = c # L @ nl # rest" by simp
  from drop_Suc_eq [OF d] have a: "l_At l < length sql" "drop (Suc (l_At l)) sql = L @ nl # rest" by auto
  show ?case
  proof (cases "IsSpace (code c)")
    case True
    then have "line_ok u sep L" using Cons.prems(2) by (simp add: line_ok_def first_word_def)
    moreover have "lex_step u sql sep BWhitespace l = Inr (Some BWhitespace, advance 1 l)"
      using d a True by (simp add: stateWhitespace_def Let_def goes_def)
    ultimately show ?thesis using Cons.IH [of "advance 1 l"] a(2) Cons.prems(3) by (simp add: lex_go)
  next
    case False
    then have w: "first_word (c # L) = c # L" by (simp add: first_word_def)
    have "lex_run u sql sep BWhitespace l = lex_run u sql sep BText l"
    proof (cases "hasPrefixFold ((c # L) @ nl # rest) sep")
      case True
      with Cons.prems(2,3) w have "hasPrefixFold (c # L) sep" using prefix_in_line [of "c # L" rest sep] by (auto simp: line_ok_def)
      with Cons.prems(2) w have let': "length sep < length (c # L)" "IsLetter (u_letter u) (code ((c # L) ! length sep))"
        by (simp_all add: line_ok_def)
      have "length (drop (l_At l) sql) = length ((c # L) @ nl # rest)" using d by simp
      then have lt: "l_At l + length sep < length sql" using let'(1) a(1) by simp
      then have "hd (drop (l_At l + length sep) sql) = drop (l_At l) sql ! length sep" by (simp add: hd_drop_conv_nth)
      also have "\<dots> = (c # L) ! length sep" unfolding d using let'(1) by (simp add: nth_append flip: append_Cons)
      finally have "lex_step u sql sep BSep l = Inr (Some BText, l)" using lt let'(2) by (simp add: stateSep_def Let_def)
      moreover have "lex_step u sql sep BWhitespace l = Inr (Some BSep, l)"
        using d a False True by (simp add: stateWhitespace_def Let_def goes_def)
      ultimately show ?thesis by (simp add: lex_go)
    next
      case nosep: False
      then have "lex_step u sql sep BWhitespace l = Inr (Some BText, l)"
        using d a False by (simp add: stateWhitespace_def Let_def goes_def)
      then show ?thesis by (rule lex_go)
    qed
    with text_line [of l sql "c # L" rest u sep] Cons.prems show ?thesis by (simp add: line_ok_def)
  qed
qed

lemma lines_Cons [simp]: "lines [] = []" "lines (L # Ls) = L @ nl # lines Ls"
  by (simp_all add: lines_def)

lemma lines_run:
  "drop (l_At l) sql = lines Ls @ rest \<Longrightarrow> list_all (line_ok u sep) Ls \<Longrightarrow> sep_ok sep \<Longrightarrow>
     lex_run u sql sep BWhitespace l = lex_run u sql sep BWhitespace (advance (length (lines Ls)) l)"
proof (induction Ls arbitrary: l)
  case (Cons L Ls)
  then have d: "drop (l_At l) sql = L @ nl # lines Ls @ rest" by simp
  then have "drop (length L + 1) (drop (l_At l) sql) = lines Ls @ rest" by simp
  then have "drop (l_At (advance (length L + 1) l)) sql = lines Ls @ rest" by (simp add: add_ac)
  with Cons.IH [of "advance (length L + 1) l"] white_line [OF d, of u sep] Cons.prems show ?case by simp
qed simp

lemma range_ascii: "code c < 128 \<Longrightarrow> range_runes i (c # s) = (i, code c) # range_runes (Suc i) s"
proof -
  assume "code c < 128"
  moreover have "unat (char_byte c) = code c" by (simp add: char_byte_def code_def unat_of_nat)
  ultimately have "DecodeRune (map unat (str_bytes (c # s))) = (code c, 1)" by (simp add: DecodeRune_def str_bytes_def Let_def)
  then show ?thesis by (simp add: range_runes.simps [of i "c # s"])
qed

lemma number_digits:
  "list_all (\<lambda>c. is_digit (code c)) ds \<Longrightarrow>
     number_count u k (range_runes i (ds @ nl # rest)) = (if ds = [] then k else i + length ds - 1)"
proof (induction ds arbitrary: i k)
  case Nil
  then show ?case by (simp add: range_ascii IsNumber_def is_digit_def)
next
  case (Cons d ds)
  then have "code d < 128" by (auto simp: is_digit_def)
  with Cons show ?case by (auto simp: range_ascii IsNumber_def)
qed

lemma AddCurrent_text:
  assumes "l_Start l \<le> l_At l" "l_At l \<le> length sql" "l_Skip l = []"
  shows "AddCurrent sql sep (int n) l = Inr \<lparr>l_At = l_At l + length sep, l_Start = l_At l + length sep, l_Skip = [],
     l_Batch = l_Batch l @ added (drop (l_Start l) (take (l_At l) sql)) (min n 1000)\<rparr>"
  using assms by (simp add: AddCurrent_def Let_def current_text_def added_def min_def)

lemma mark_run:
  assumes "drop (l_At l) sql = mark sep cnt @ nl # rest" "sep_ok sep" "count_ok cnt" "l_Start l \<le> l_At l" "l_Skip l = []"
  shows "lex_run u sql sep BWhitespace l = lex_run u sql sep BWhitespace
     \<lparr>l_At = l_At l + length (mark sep cnt), l_Start = l_At l + length (mark sep cnt), l_Skip = [],
      l_Batch = l_Batch l @ added (drop (l_Start l) (take (l_At l) sql)) (repeats cnt)\<rparr>"
proof -
  let ?s = "drop (l_At l + length sep) sql"
  have "drop (length sep) (drop (l_At l) sql) = (case cnt of None \<Rightarrow> [] | Some ds \<Rightarrow> CHR '' '' # ds) @ nl # rest"
    unfolding assms(1) by (simp add: mark_def)
  then have s: "?s = (case cnt of None \<Rightarrow> [] | Some ds \<Rightarrow> CHR '' '' # ds) @ nl # rest" by (simp add: add.commute)
  then have "?s \<noteq> []" by auto
  then have lt: "l_At l + length sep < length sql" by (simp add: not_le)
  have sep: "sep \<noteq> []" "\<not> IsSpace (code (hd sep))" using assms(2) by (simp_all add: sep_ok_def)
  have hd: "hd (drop (l_At l) sql) = hd sep" "take (length sep) (drop (l_At l) sql) = sep" "length sep \<le> length (drop (l_At l) sql)"
    unfolding assms(1) using sep by (simp_all add: mark_def hd_append)
  have 1: "lex_step u sql sep BWhitespace l = Inr (Some BSep, l)"
    using lt sep hd by (simp add: stateWhitespace_def Let_def goes_def hasPrefixFold_def EqualFold_def)
  have nlet: "\<not> IsLetter (u_letter u) 32" "\<not> IsLetter (u_letter u) 10" by (simp_all add: IsLetter_def)
  have add: "AddCurrent sql sep (int n) l = Inr \<lparr>l_At = l_At l + length sep, l_Start = l_At l + length sep, l_Skip = [],
     l_Batch = l_Batch l @ added (drop (l_Start l) (take (l_At l) sql)) (min n 1000)\<rparr>" for n
    using assms(4,5) lt by (intro AddCurrent_text) simp_all
  show ?thesis
  proof (cases cnt)
    case None
    with s have s0: "?s = nl # rest" by simp
    have sc: "sep_scan u (range_runes 0 ?s) = ScanNewline" unfolding s0 by (simp add: range_ascii)
    have "lex_step u sql sep BSep l = Inr (Some BWhitespace, \<lparr>l_At = l_At l + length sep, l_Start = l_At l + length sep, l_Skip = [],
       l_Batch = l_Batch l @ added (drop (l_Start l) (take (l_At l) sql)) 1\<rparr>)"
      using lt s0 nlet sc add [of 1] by (simp add: stateSep_def Let_def)
    with 1 None show ?thesis by (simp add: lex_go mark_def)
  next
    case (Some ds)
    with assms(3) obtain n where ds: "ds \<noteq> []" "list_all (\<lambda>c. is_digit (code c)) ds" "ParseUint ds 10 63 = Some n" by auto
    from s Some have s0: "?s = CHR '' '' # ds @ nl # rest" by simp
    obtain d ds' where d: "ds = d # ds'" using ds(1) by (cases ds) auto
    with ds(2) have dd: "code d < 128" "is_digit (code d)" "\<not> IsSpace (code d)" "\<not> is_newline (code d)"
      by (auto simp: is_digit_def IsSpace_def space_runes_def is_newline_def)
    have sp: "code CHR '' '' = 32" "IsSpace 32" "\<not> is_newline 32" by (simp_all add: code_def IsSpace_def space_runes_def is_newline_def)
    have sc: "sep_scan u (range_runes 0 ?s) = ScanNumber 1"
      unfolding s0 d using dd sp by (simp add: range_ascii IsNumber_def)
    have nc: "number_count u 0 (range_runes 0 (drop 1 ?s)) = length ds - 1"
      using number_digits [OF ds(2), of u 0 0 rest] ds(1) by (simp add: s0)
    have tl: "tail_scan (range_runes 0 (drop (1 + (length ds - 1) + 1) ?s)) = ScanNewline"
      using ds(1) unfolding s0 by (cases ds) (simp_all add: range_ascii)
    have tk: "take (1 + (length ds - 1) + 1 - 1) (drop 1 ?s) = ds" using ds(1) unfolding s0 by (cases ds) simp_all
    have "lex_step u sql sep BSep l = Inr (Some BWhitespace, \<lparr>l_At = l_At l + length sep + (length ds + 1),
       l_Start = l_At l + length sep + (length ds + 1), l_Skip = [],
       l_Batch = l_Batch l @ added (drop (l_Start l) (take (l_At l) sql)) (min n 1000)\<rparr>)"
      unfolding lex_step.simps stateSep_def Let_def sc
      using lt nlet sp add [of n] ds(1,3) nc tl tk
      by (simp add: s0 del: drop_drop)
    with 1 Some ds show ?thesis by (simp add: lex_go mark_def add.assoc)
  qed
qed

lemma script_starts:
  assumes "case (case ps of [] \<Rightarrow> final | (Ms, _) # _ \<Rightarrow> Ms) of L # _ \<Rightarrow> L = [] | [] \<Rightarrow> False"
  obtains rest where "script sep ps final = nl # rest"
proof (cases ps)
  case Nil
  with assms that show ?thesis by (cases final) auto
next
  case (Cons p qs)
  obtain Ms c where "p = (Ms, c)" by force
  with assms that Cons show ?thesis by (cases Ms) auto
qed

lemma script_run:
  assumes "drop (l_At l) sql = script sep ps final" "l_At l \<le> length sql" "script_ok u sep ps final" "sep_ok sep"
    and "l_Start l = l_At l" "l_Skip l = []"
  shows "\<exists>l' l2. lex_run u sql sep BWhitespace l = Some (Inr l') \<and> AddCurrent sql sep 1 l' = Inr l2 \<and> l_Batch l2 = l_Batch l @ batches ps final"
  using assms
proof (induction ps arbitrary: l)
  case Nil
  let ?l = "advance (length (lines final)) l"
  have d: "drop (l_At l) sql = lines final @ []" using Nil.prems(1) by simp
  have "length (drop (l_At l) sql) = length (lines final)" using d by simp
  then have e: "l_At ?l = length sql" using Nil.prems(2) by simp
  then have "lex_step u sql sep BWhitespace ?l = Inr (None, ?l)" by (simp add: stateWhitespace_def)
  then have "lex_run u sql sep BWhitespace ?l = Some (Inr ?l)" by (simp add: lex_run.simps [of u sql sep BWhitespace ?l])
  moreover have "lex_run u sql sep BWhitespace l = lex_run u sql sep BWhitespace ?l"
    using Nil.prems by (intro lines_run [OF d]) simp_all
  moreover have "AddCurrent sql sep 1 ?l = Inr \<lparr>l_At = l_At ?l + length sep, l_Start = l_At ?l + length sep, l_Skip = [],
     l_Batch = l_Batch ?l @ added (drop (l_Start ?l) (take (l_At ?l) sql)) (min 1 1000)\<rparr>"
    using AddCurrent_text [of ?l sql sep 1] e Nil.prems by (simp add: advance_def)
  moreover have "drop (l_Start ?l) (take (l_At ?l) sql) = lines final" using e d Nil.prems(5) by (simp add: advance_def)
  ultimately show ?case by (simp add: batches_def advance_def)
next
  case (Cons p ps)
  obtain Ls cnt where p: "p = (Ls, cnt)" by force
  let ?b = "lines Ls" and ?m = "mark sep cnt"
  let ?l = "advance (length ?b) l"
  from Cons.prems(3) p have ok: "list_all (line_ok u sep) Ls" "count_ok cnt" "script_ok u sep ps final" by auto
  obtain rest where rest: "script sep ps final = nl # rest" using Cons.prems(3) p by (auto elim: script_starts)
  have d: "drop (l_At l) sql = ?b @ ?m @ script sep ps final" using Cons.prems(1) p by simp
  have r1: "lex_run u sql sep BWhitespace l = lex_run u sql sep BWhitespace ?l"
    using ok(1) Cons.prems(4) by (rule lines_run [OF d])
  have "drop (length ?b) (drop (l_At l) sql) = ?m @ script sep ps final" unfolding d by simp
  then have d1: "drop (l_At ?l) sql = ?m @ nl # rest" using rest by (simp add: add.commute)
  have tx: "drop (l_Start ?l) (take (l_At ?l) sql) = ?b"
  proof -
    have "take (length ?b) (drop (l_At l) sql) = ?b" unfolding d by simp
    then show ?thesis using Cons.prems(5) by (simp add: advance_def take_drop add.commute)
  qed
  let ?l2 = "\<lparr>l_At = l_At ?l + length ?m, l_Start = l_At ?l + length ?m, l_Skip = [], l_Batch = l_Batch l @ added ?b (repeats cnt)\<rparr>"
  have r2: "lex_run u sql sep BWhitespace ?l = lex_run u sql sep BWhitespace ?l2"
    using mark_run [OF d1 Cons.prems(4) ok(2), of u] Cons.prems(5,6) tx by (simp add: advance_def)
  have "drop (length ?m) (drop (l_At ?l) sql) = script sep ps final" unfolding d1 rest by simp
  then have d2: "drop (l_At ?l2) sql = script sep ps final" by (simp add: add_ac)
  then have "l_At ?l2 \<le> length sql" using rest by (cases "l_At ?l2 \<le> length sql") simp_all
  from Cons.IH [OF d2 this ok(3) Cons.prems(4)] r1 r2 p show ?case by (simp add: batches_def)
qed

text \<open>
  C31. A script made of batches is split into them: lines of text separated by the separator, alone or
  with a count, give each text as often as its count says, at most a thousand repeats and not at all when it is
  empty, in order.
\<close>

theorem batch_Split_script:
  assumes "script_ok u sep ps final" "sep_ok sep" "ps \<noteq> []"
  shows "batch_Split u (script sep ps final) sep = Some (Inr (batches ps final))"
proof -
  obtain Ls cnt qs where "ps = (Ls, cnt) # qs" using assms(3) by (cases ps) auto
  then have "length sep \<le> length (script sep ps final)" by (simp add: mark_def)
  moreover have "sep \<noteq> []" using assms(2) by (simp add: sep_ok_def)
  moreover obtain l l2 where "lex_run u (script sep ps final) sep BWhitespace new_lexer = Some (Inr l)"
    "AddCurrent (script sep ps final) sep 1 l = Inr l2" "l_Batch l2 = batches ps final"
    using script_run [of new_lexer "script sep ps final" sep ps final u] assms(1,2) by (auto simp: new_lexer_def)
  ultimately show ?thesis by (auto simp: batch_Split_def)
qed

theorem batch_Split_script_witness:
  "batch_Split ex_uni (script ''go'' [([''select 1''], Some ''2''), ([[], ''  Gone = 1-2''], None)] [[]]) ''go''
     = Some (Inr [''select 1'' @ [nl], ''select 1'' @ [nl], nl # ''  Gone = 1-2'' @ [nl], [nl]])"
proof -
  have v: "valid_utf8 s" "runes s = map code s" if "list_all (\<lambda>c. code c < 128) s" for s
    using that by (simp_all add: valid_ascii runes_ascii_string)
  have w: "first_word ''select 1'' = ''select 1''" "first_word ''  Gone = 1-2'' = ''Gone = 1-2''" "first_word [] = []"
    by (simp_all add: first_word_def code_def IsSpace_def space_runes_def)
  have "script_ok ex_uni ''go'' [([''select 1''], Some ''2''), ([[], ''  Gone = 1-2''], None)] [[]]"
    by (simp add: line_ok_def w v hasPrefixFold_def EqualFold_def fold_rune_def code_def is_newline_def HasPrefix_def IsLetter_def
        ParseUint_def Go_Strings.digit_val_def is_digit_def)
  moreover have "sep_ok ''go''" by (simp add: sep_ok_def code_def is_newline_def IsSpace_def space_runes_def)
  moreover have "ParseUint ''2'' 10 63 = Some 2" by (simp add: ParseUint_def Go_Strings.digit_val_def code_def)
  then have "repeats (Some ''2'') = Suc (Suc 0)" by simp
  then have "batches [([''select 1''], Some ''2''), ([[], ''  Gone = 1-2''], None)] [[]]
      = [''select 1'' @ [nl], ''select 1'' @ [nl], nl # ''  Gone = 1-2'' @ [nl], [nl]]"
    by (simp add: batches_def added_def del: repeats.simps(2))
  ultimately show ?thesis
    using batch_Split_script [of ex_uni "''go''" "[([''select 1''], Some ''2''), ([[], ''  Gone = 1-2''], None)]" "[[]]"] by simp
qed

end
