(* ===== verification/Float_Decimal.thy ===== *)
theory Float_Decimal
  imports Decimal Complex_Main
begin

text \<open>
  Floating-point numbers, and the conversions of \<open>src/internal/decimal/decimal.go\<close> that compute with them.
  A finite number is \<open>m * 2 ^ e\<close> with its sign; every operation rounds its exact result to the nearest number of the
  format, to the even one when there are two, as Go and IEEE 754 prescribe. The lemmas show which of the operations
  are exact, and with them what \<open>Float64ToDecimalScale\<close> computes.
\<close>

section \<open>Numbers and rounding\<close>

datatype flt = FNaN | FInf bool | FFin bool nat int

text \<open>The number of binary digits.\<close>

fun nbits :: "nat \<Rightarrow> nat" where
  "nbits n = (if n = 0 then 0 else Suc (nbits (n div 2)))"

declare nbits.simps [simp del]

text \<open>A format: digits of the mantissa, least and greatest exponent.\<close>

record fformat =
  fm_p :: nat
  fm_emin :: int
  fm_emax :: int

definition f64 :: fformat where "f64 = \<lparr>fm_p = 53, fm_emin = -1074, fm_emax = 971\<rparr>"
definition f32 :: fformat where "f32 = \<lparr>fm_p = 24, fm_emin = -149, fm_emax = 104\<rparr>"

definition fpack :: "fformat \<Rightarrow> bool \<Rightarrow> nat \<Rightarrow> int \<Rightarrow> flt" where
  "fpack fm s q e =
     (let (q, e) = (if q = 2 ^ fm_p fm then (2 ^ (fm_p fm - 1), e + 1) else (q, e))
      in if fm_emax fm < e then FInf s else FFin s q e)"

definition fround :: "fformat \<Rightarrow> bool \<Rightarrow> nat \<Rightarrow> int \<Rightarrow> flt" where
  "fround fm s m e =
     (if m = 0 then FFin s 0 (fm_emin fm)
      else let e' = max (fm_emin fm) (e + int (nbits m) - int (fm_p fm)) in
           if e' \<le> e then fpack fm s (m * 2 ^ nat (e - e')) e'
           else let d = 2 ^ nat (e' - e); q = m div d; r = m mod d
                in fpack fm s (if d < 2 * r \<or> (2 * r = d \<and> odd q) then q + 1 else q) e')"

section \<open>Bits\<close>

definition unpack :: "nat \<Rightarrow> nat \<Rightarrow> nat \<Rightarrow> flt" where
  "unpack p eb w =
     (let fr = w mod 2 ^ (p - 1); ex = w div 2 ^ (p - 1) mod 2 ^ eb; s = odd (w div 2 ^ (p - 1 + eb));
          bias = 2 ^ (eb - 1) - 1 + (int p - 1)
      in if ex = 2 ^ eb - 1 then (if fr = 0 then FInf s else FNaN)
         else if ex = 0 then FFin s fr (1 - bias)
         else FFin s (fr + 2 ^ (p - 1)) (int ex - bias))"

definition unpack64 :: "u64 \<Rightarrow> flt" where "unpack64 w = unpack 53 11 (unat w)"
definition unpack32 :: "u32 \<Rightarrow> flt" where "unpack32 w = unpack 24 8 (unat w)"

text \<open>The bits of a number the rounding gave; those of a NaN are not specified by the language.\<close>

definition fbits :: "nat \<Rightarrow> nat \<Rightarrow> nat \<Rightarrow> flt \<Rightarrow> nat" where
  "fbits p eb nan x =
     (case x of
        FNaN \<Rightarrow> nan
      | FInf s \<Rightarrow> of_bool s * 2 ^ (p - 1 + eb) + (2 ^ eb - 1) * 2 ^ (p - 1)
      | FFin s m e \<Rightarrow>
          of_bool s * 2 ^ (p - 1 + eb)
          + (if m < 2 ^ (p - 1) then m else nat (e + (2 ^ (eb - 1) - 1 + (int p - 1))) * 2 ^ (p - 1) + (m - 2 ^ (p - 1))))"

section \<open>Arithmetic\<close>

definition aligned :: "nat \<Rightarrow> int \<Rightarrow> int \<Rightarrow> nat" where
  "aligned m e e0 = m * 2 ^ nat (e - e0)"

definition fint :: "bool \<Rightarrow> nat \<Rightarrow> int" where
  "fint s n = (if s then - int n else int n)"

fun fneg :: "flt \<Rightarrow> flt" where
  "fneg (FFin s m e) = FFin (\<not> s) m e"
| "fneg (FInf s) = FInf (\<not> s)"
| "fneg FNaN = FNaN"

fun fabs :: "flt \<Rightarrow> flt" where
  "fabs (FFin s m e) = FFin False m e"
| "fabs (FInf s) = FInf False"
| "fabs FNaN = FNaN"

fun fmul :: "flt \<Rightarrow> flt \<Rightarrow> flt" where
  "fmul (FFin s1 m1 e1) (FFin s2 m2 e2) = fround f64 (s1 \<noteq> s2) (m1 * m2) (e1 + e2)"
| "fmul (FInf s1) (FFin s2 m e) = (if m = 0 then FNaN else FInf (s1 \<noteq> s2))"
| "fmul (FFin s1 m e) (FInf s2) = (if m = 0 then FNaN else FInf (s1 \<noteq> s2))"
| "fmul (FInf s1) (FInf s2) = FInf (s1 \<noteq> s2)"
| "fmul _ _ = FNaN"

fun fadd :: "flt \<Rightarrow> flt \<Rightarrow> flt" where
  "fadd (FFin s1 m1 e1) (FFin s2 m2 e2) =
     (let e0 = min e1 e2; z = fint s1 (aligned m1 e1 e0) + fint s2 (aligned m2 e2 e0)
      in fround f64 (if z = 0 then s1 \<and> s2 else z < 0) (nat \<bar>z\<bar>) e0)"
| "fadd (FInf s1) (FInf s2) = (if s1 = s2 then FInf s1 else FNaN)"
| "fadd (FInf s1) (FFin s2 m e) = FInf s1"
| "fadd (FFin s1 m e) (FInf s2) = FInf s2"
| "fadd _ _ = FNaN"

definition fsub :: "flt \<Rightarrow> flt \<Rightarrow> flt" where
  "fsub x y = fadd x (fneg y)"

text \<open>
  Division: enough digits of the quotient, and one that says whether there is a remainder, decide the rounding.
\<close>

fun fdiv :: "flt \<Rightarrow> flt \<Rightarrow> flt" where
  "fdiv (FFin s1 m1 e1) (FFin s2 m2 e2) =
     (if m2 = 0 then (if m1 = 0 then FNaN else FInf (s1 \<noteq> s2))
      else let k = 55 + nbits m2; n = m1 * 2 ^ k
           in fround f64 (s1 \<noteq> s2) (2 * (n div m2) + of_bool (n mod m2 \<noteq> 0)) (e1 - e2 - int k - 1))"
| "fdiv (FInf s1) (FFin s2 m e) = FInf (s1 \<noteq> s2)"
| "fdiv (FFin s1 m e) (FInf s2) = FFin (s1 \<noteq> s2) 0 (-1074)"
| "fdiv _ _ = FNaN"

text \<open>\<open>math.Mod\<close>, \<open>math.Trunc\<close> and the fraction of \<open>math.Modf\<close> are exact.\<close>

fun fmod :: "flt \<Rightarrow> flt \<Rightarrow> flt" where
  "fmod (FFin s1 m1 e1) (FFin s2 m2 e2) =
     (if m2 = 0 then FNaN
      else let e0 = min e1 e2 in FFin s1 (aligned m1 e1 e0 mod aligned m2 e2 e0) e0)"
| "fmod (FFin s m e) (FInf _) = FFin s m e"
| "fmod _ _ = FNaN"

fun ftrunc :: "flt \<Rightarrow> flt" where
  "ftrunc (FFin s m e) = FFin s (if e < 0 then m div 2 ^ nat (- e) * 2 ^ nat (- e) else m) e"
| "ftrunc x = x"

fun fle :: "flt \<Rightarrow> flt \<Rightarrow> bool" where
  "fle (FFin s1 m1 e1) (FFin s2 m2 e2) \<longleftrightarrow>
     (let e0 = min e1 e2 in fint s1 (aligned m1 e1 e0) \<le> fint s2 (aligned m2 e2 e0))"
| "fle (FInf s1) (FInf s2) \<longleftrightarrow> s1 \<or> \<not> s2"
| "fle (FInf s1) (FFin _ _ _) \<longleftrightarrow> s1"
| "fle (FFin _ _ _) (FInf s2) \<longleftrightarrow> \<not> s2"
| "fle _ _ \<longleftrightarrow> False"

fun int_of_flt :: "flt \<Rightarrow> int option" where
  "int_of_flt (FFin s m e) = Some (fint s (if e < 0 then m div 2 ^ nat (- e) else m * 2 ^ nat e))"
| "int_of_flt _ = None"

definition flt_of_int :: "int \<Rightarrow> flt" where
  "flt_of_int i = fround f64 (i < 0) (nat \<bar>i\<bar>) 0"

section \<open>Decimals from and to floats\<close>

text \<open>The table of powers of ten is computed in \<open>float64\<close>.\<close>

primrec scaletblflt64 :: "nat \<Rightarrow> flt" where
  "scaletblflt64 0 = flt_of_int 1"
| "scaletblflt64 (Suc i) = fmul (scaletblflt64 i) (flt_of_int 10)"

definition autoScale :: nat where "autoScale = 100"

definition two32 :: flt where "two32 = FFin False 1 32"
definition one_half :: flt where "one_half = FFin False 1 (-1)"
definition max_decimal :: flt where "max_decimal = FFin False 1 128"

definition no_fraction :: "flt \<Rightarrow> bool" where
  "no_fraction x = (case x of FFin s m e \<Rightarrow> 0 \<le> e \<or> 2 ^ nat (- e) dvd m | _ \<Rightarrow> False)"

text \<open>The loop over the scales; the table has 39 entries.\<close>

function scale_loop :: "flt \<Rightarrow> nat \<Rightarrow> nat \<Rightarrow> flt \<Rightarrow> fault + (nat \<times> flt)" where
  "scale_loop f sc i x =
     (if sc < i then Inr (i, x)
      else if 38 < i then Inl (RuntimePanic ''index out of range'')
      else let x = fmul f (scaletblflt64 i) in
           if no_fraction x \<and> sc = autoScale then Inr (i, x) else scale_loop f sc (i + 1) x)"
  by pat_completeness auto
termination
  by (relation "measure (\<lambda>(f, sc, i, x). Suc sc - i)") auto

declare scale_loop.simps [simp del]

definition limb_of :: "flt \<Rightarrow> u32" where
  "limb_of md =
     (let u = (case int_of_flt md of Some i \<Rightarrow> word_of_int i | None \<Rightarrow> 0)
      in if fle one_half (fsub md (ftrunc md)) then u + 1 else u)"

primrec limb_loop :: "nat \<Rightarrow> flt \<Rightarrow> u32 list" where
  "limb_loop 0 x = []"
| "limb_loop (Suc n) x = (let md = fmod x two32 in limb_of md # limb_loop n (fdiv (fsub x md) two32))"

definition Float64ToDecimalScale :: "flt \<Rightarrow> byte \<Rightarrow> fault + Decimal" where
  "Float64ToDecimalScale f sc =
     (case f of
        FNaN \<Rightarrow> Inl (Err (ErrMsg ''NaN''))
      | FInf _ \<Rightarrow> Inl (Err (ErrMsg ''Infinity can't be converted to decimal''))
      | FFin s m e \<Rightarrow>
          let pos = fle (FFin False 0 0) f; f = (if pos then f else fabs f) in
          if \<not> fle f max_decimal then Inl (Err (ErrMsg ''Float value is out of range''))
          else sbind (scale_loop f (unat sc) 0 (FFin False 0 0)) (\<lambda>(i, x).
                 Inr \<lparr>integer = limb_loop 4 x, positive = pos, prec = 20, scale = word_of_nat i\<rparr>))"

definition Float64ToDecimal :: "flt \<Rightarrow> fault + Decimal" where
  "Float64ToDecimal f = Float64ToDecimalScale f (word_of_nat autoScale)"

definition ToFloat64 :: "Decimal \<Rightarrow> fault + flt" where
  "ToFloat64 d =
     (let v = fold (\<lambda>i v. fadd (fmul v two32) (flt_of_int (uint (integer d ! i)))) [3, 2, 1, 0] (FFin False 0 0);
          v = (if \<not> positive d then fneg v else v)
      in if scale d = 0 then Inr v
         else if 38 < unat (scale d) then Inl (RuntimePanic ''index out of range'')
         else Inr (fdiv v (scaletblflt64 (unat (scale d)))))"

section \<open>Exact results\<close>

text \<open>The value of a finite number, without its sign.\<close>

fun fval :: "flt \<Rightarrow> real" where
  "fval (FFin s m e) = real m * 2 powi e"
| "fval _ = 0"

text \<open>The numbers of a format, apart from NaNs and infinities.\<close>

fun ffin :: "fformat \<Rightarrow> flt \<Rightarrow> bool" where
  "ffin fm (FFin s m e) \<longleftrightarrow> m < 2 ^ fm_p fm \<and> fm_emin fm \<le> e \<and> e \<le> fm_emax fm"
| "ffin fm _ \<longleftrightarrow> False"

lemma nbits_upper: "n < 2 ^ nbits n"
proof (induction n rule: nbits.induct)
  case (1 n)
  then show ?case by (cases "n = 0") (auto simp: nbits.simps [of n])
qed

lemma nbits_lower: "0 < n \<Longrightarrow> 2 ^ (nbits n - 1) \<le> n"
proof (induction n rule: nbits.induct)
  case (1 n)
  show ?case
  proof (cases "n div 2 = 0")
    case True
    then have "n = 1" using 1(2) by simp
    then show ?thesis by (simp add: nbits.simps [of "Suc 0"] nbits.simps [of 0])
  next
    case False
    then have "2 ^ (nbits (n div 2) - 1) \<le> n div 2" using 1 by simp
    moreover have "nbits (n div 2) > 0" using False by (simp add: nbits.simps [of "n div 2"])
    ultimately have "2 ^ nbits (n div 2) \<le> 2 * (n div 2)" by (cases "nbits (n div 2)") auto
    with 1(2) show ?thesis by (simp add: nbits.simps [of n])
  qed
qed

lemma nbits_pos: "0 < n \<Longrightarrow> 0 < nbits n"
  by (simp add: nbits.simps [of n])

lemma nbits_shift: "0 < n \<Longrightarrow> nbits (n * 2 ^ k) = nbits n + k"
proof (induction k)
  case (Suc k)
  have "nbits (n * 2 ^ Suc k) = Suc (nbits (n * 2 ^ Suc k div 2))"
    using Suc.prems by (subst nbits.simps) simp
  also have "n * 2 ^ Suc k div 2 = n * 2 ^ k" by simp
  finally show ?case using Suc by simp
qed simp

lemma nbits_le: "0 < n \<Longrightarrow> n < 2 ^ p \<Longrightarrow> nbits n \<le> p"
proof (rule ccontr)
  assume a: "0 < n" "n < 2 ^ p" "\<not> nbits n \<le> p"
  then have "(2 :: nat) ^ p \<le> 2 ^ (nbits n - 1)" by (intro power_increasing) auto
  with nbits_lower [OF a(1)] a(2) show False by linarith
qed

lemma powi_shift: "(2 :: real) powi (e + int k) = 2 powi e * 2 ^ k"
  by (simp add: power_int_add)

text \<open>A number that has a representation in the format is kept.\<close>

lemma fround_exact:
  assumes "M < 2 ^ fm_p fm" "fm_emin fm \<le> e" "e \<le> fm_emax fm" "D = M * 2 ^ k" "e0 = e - int k" "0 < fm_p fm"
  shows "ffin fm (fround fm s D e0) \<and> fval (fround fm s D e0) = real M * 2 powi e
     \<and> (\<exists>m' e'. fround fm s D e0 = FFin s m' e')"
proof (cases "M = 0")
  case True
  with assms show ?thesis by (simp add: fround_def)
next
  case False
  let ?p = "fm_p fm"
  define e' where "e' = max (fm_emin fm) (e0 + int (nbits D) - int ?p)"
  have nb: "nbits D = nbits M + k" using False assms(4) by (simp add: nbits_shift)
  have le: "nbits M \<le> ?p" using nbits_le False assms(1) by simp
  have e'e: "e' \<le> e" using nb le assms(2,5) by (simp add: e'_def)
  have D0: "D \<noteq> 0" using False assms(4) by simp
  \<comment> \<open>The mantissa at the chosen exponent.\<close>
  define q where "q = M * 2 ^ nat (e - e')"
  have "M < 2 ^ nbits M" by (rule nbits_upper)
  then have "q < 2 ^ nbits M * 2 ^ nat (e - e')" by (simp add: q_def)
  also have "\<dots> = 2 ^ (nbits M + nat (e - e'))" by (simp add: power_add)
  also have "\<dots> \<le> 2 ^ ?p"
    using e'e nb assms(5) by (intro power_increasing) (auto simp: e'_def)
  finally have q: "q < 2 ^ ?p" .
  have pk: "fpack fm s q e' = FFin s q e'" using q e'e assms(3) by (simp add: fpack_def)
  have "fround fm s D e0 = FFin s q e'"
  proof (cases "e' \<le> e0")
    case True
    have "D * 2 ^ nat (e0 - e') = q"
    proof -
      have "nat (e - e') = k + nat (e0 - e')" using True assms(5) e'e by simp
      then show ?thesis using assms(4) by (simp add: q_def power_add)
    qed
    with True D0 pk show ?thesis by (simp add: fround_def Let_def flip: e'_def)
  next
    case False
    have "nat (e - e') + nat (e' - e0) = k" using False assms(5) e'e by simp
    then have "D = q * 2 ^ nat (e' - e0)" using assms(4) by (simp add: q_def flip: power_add)
    then have "D div 2 ^ nat (e' - e0) = q" "D mod 2 ^ nat (e' - e0) = 0" by simp_all
    with False D0 pk show ?thesis by (simp add: fround_def Let_def flip: e'_def)
  qed
  moreover have "real q * 2 powi e' = real M * 2 powi e"
  proof -
    have "2 powi e = (2 :: real) powi e' * 2 ^ nat (e - e')" using powi_shift [of e' "nat (e - e')"] e'e by simp
    then show ?thesis by (simp add: q_def)
  qed
  ultimately show ?thesis using q e'e assms(2,3) by (auto simp: e'_def)
qed

lemma aligned_val: "e0 \<le> e \<Longrightarrow> real (aligned m e e0) * 2 powi e0 = real m * 2 powi e"
  using powi_shift [of e0 "nat (e - e0)"] by (simp add: aligned_def)

lemma fle_fval: "fle (FFin False m1 e1) (FFin False m2 e2) \<longleftrightarrow> fval (FFin False m1 e1) \<le> fval (FFin False m2 e2)"
proof -
  define e0 where "e0 = min e1 e2"
  have "fval (FFin False m1 e1) = real (aligned m1 e1 e0) * 2 powi e0" "fval (FFin False m2 e2) = real (aligned m2 e2 e0) * 2 powi e0"
    by (simp_all add: aligned_val e0_def)
  then show ?thesis by (simp add: fint_def e0_def Let_def)
qed

text \<open>Nonnegative numbers: zero may have a sign.\<close>

fun fpos :: "flt \<Rightarrow> bool" where
  "fpos (FFin s m e) \<longleftrightarrow> (s \<longrightarrow> m = 0)"
| "fpos _ \<longleftrightarrow> False"

text \<open>The integer part and the remainder after it.\<close>

definition ipart :: "nat \<Rightarrow> int \<Rightarrow> nat" where
  "ipart m e = (if e < 0 then m div 2 ^ nat (- e) else m * 2 ^ nat e)"

lemma ipart_floor: "nat \<lfloor>real m * 2 powi e\<rfloor> = ipart m e"
proof (cases "e < 0")
  case True
  then have "(2 :: real) powi e = 1 / 2 ^ nat (- e)" by (simp add: power_int_def power_one_over inverse_eq_divide)
  then have "real m * 2 powi e = real m / real (2 ^ nat (- e))" by simp
  then have "\<lfloor>real m * 2 powi e\<rfloor> = int (m div 2 ^ nat (- e))" by (simp only: floor_divide_of_nat_eq)
  then show ?thesis using True by (simp add: ipart_def)
next
  case False
  then have "real m * 2 powi e = real (m * 2 ^ nat e)" by (simp add: power_int_def)
  then have "\<lfloor>real m * 2 powi e\<rfloor> = int (m * 2 ^ nat e)" by (simp only: floor_of_nat)
  then show ?thesis using False by (simp add: ipart_def del: of_nat_mult of_nat_power)
qed

lemma f64_simps [simp]: "fm_p f64 = 53" "fm_emin f64 = -1074" "fm_emax f64 = 971"
  by (simp_all add: f64_def)

lemma fsub_aligned:
  assumes "r \<le> m"
  shows "fsub (FFin s m e) (FFin s r e) = fround f64 (s \<and> m \<noteq> r) (m - r) e"
proof -
  have "fint s m + fint (\<not> s) r = fint s (m - r)" using assms by (simp add: fint_def)
  moreover have "nat \<bar>fint s (m - r)\<bar> = m - r" "fint s (m - r) = 0 \<longleftrightarrow> m = r" "fint s (m - r) < 0 \<longleftrightarrow> s \<and> m \<noteq> r"
    using assms by (auto simp: fint_def)
  ultimately show ?thesis by (simp add: fsub_def aligned_def Let_def)
qed

text \<open>The remainder by \<open>2 ^ 32\<close> and what is left when it is taken away.\<close>

definition low_part :: "nat \<Rightarrow> int \<Rightarrow> nat" where
  "low_part m e = (if e < 32 then m mod 2 ^ nat (32 - e) else 0)"

lemma fmod_two32:
  "fmod (FFin s m e) two32 = FFin s (low_part m e) (min e 32)"
  by (auto simp: two32_def aligned_def low_part_def Let_def min_def)

lemma ffin_div_two32:
  assumes "ffin f64 y" "fpos y" "fval y = real q * 2 ^ 32"
  shows "ffin f64 (fdiv y two32) \<and> fpos (fdiv y two32) \<and> fval (fdiv y two32) = real q"
proof (cases y)
  case (FFin s m e)
  have m: "m < 2 ^ 53" "-1074 \<le> e" "e \<le> 971" "s \<longrightarrow> m = 0" using assms FFin by simp_all
  have d: "fdiv y two32 = fround f64 s (m * 2 ^ 57) (e - 32 - int 57)"
    using FFin by (simp add: two32_def Let_def nbits.simps [of "Suc 0"] nbits.simps [of 0] mult.commute)
  show ?thesis
  proof (cases "m = 0")
    case True
    then have "q = 0" using assms(3) FFin by simp
    with True d show ?thesis by (simp add: fround_def)
  next
    case False
    then have q0: "0 < real m * 2 powi e" by simp
    have q: "real m * 2 powi e = real q * 2 ^ 32" using assms(3) FFin by simp
    have "1 \<le> q"
    proof (rule ccontr)
      assume "\<not> 1 \<le> q"
      then have "real q = 0" by simp
      with q q0 show False by simp
    qed
    then have "(2 :: real) ^ 32 \<le> real m * 2 powi e" using q by simp
    also have "\<dots> \<le> 2 ^ 53 * 2 powi e" using m(1) by (intro mult_right_mono) auto
    finally have "(2 :: real) powi 32 \<le> 2 powi (53 + e)" by (simp add: power_int_add)
    then have "-1074 \<le> e - 32" using power_int_strict_increasing [of "53 + e" 32 "2 :: real"] by (cases "53 + e < 32") auto
    moreover have "real m * 2 powi (e - 32) = real q" using q by (simp add: power_int_diff)
    moreover have "\<not> s" using m(4) False by simp
    ultimately show ?thesis
      using fround_exact [of m f64 "e - 32" "m * 2 ^ 57" 57 "e - 32 - int 57" s] m d by auto
  qed
qed (use assms in auto)

text \<open>One round of the loop over the limbs: the quotient, and the limb with its rounding.\<close>

lemma low_part_le: "low_part m e \<le> m"
  by (simp add: low_part_def)

lemma high_part:
  assumes "m < 2 ^ 53" "-1074 \<le> e" "e \<le> 971" "s \<longrightarrow> m = 0"
  defines "y \<equiv> fsub (FFin s m e) (fmod (FFin s m e) two32)"
  shows "ffin f64 y \<and> fpos y \<and> fval y = real (ipart m (e - 32)) * 2 ^ 32"
proof -
  define M where "M = (if e < 32 then m div 2 ^ nat (32 - e) * 2 ^ nat (32 - e) else m)"
  have M: "M < 2 ^ 53" using assms(1) by (simp add: M_def le_less_trans [OF div_times_less_eq_dividend])
  have y: "y = fround f64 (s \<and> M \<noteq> 0) (aligned M e (min e 32)) (min e 32)"
  proof (cases "e < 32")
    case True
    then have "m - low_part m e = M" by (simp add: low_part_def M_def minus_mod_eq_div_mult)
    then have "y = fround f64 (s \<and> m \<noteq> low_part m e) M e"
      using True fsub_aligned [OF low_part_le, of s m e] by (simp add: y_def fmod_two32 min_def)
    moreover have "m \<noteq> low_part m e \<longleftrightarrow> M \<noteq> 0" using \<open>m - low_part m e = M\<close> low_part_le [of m e] by linarith
    ultimately show ?thesis using True by (simp add: aligned_def min_def)
  next
    case False
    then have "y = fadd (FFin s m e) (FFin (\<not> s) 0 32)" by (simp add: y_def fmod_two32 low_part_def fsub_def min_def)
    then show ?thesis using False assms(4)
      by (auto simp: M_def aligned_def fint_def Let_def min_def simp del: of_nat_mult of_nat_power)
  qed
  have s: "s \<longrightarrow> M = 0" using assms(4) by (auto simp: M_def)
  have "ffin f64 y \<and> fval y = real M * 2 powi e \<and> (\<exists>m' e'. y = FFin (s \<and> M \<noteq> 0) m' e')"
    unfolding y aligned_def by (rule fround_exact) (use M assms in auto)
  moreover have "real M * 2 powi e = real (ipart m (e - 32)) * 2 ^ 32"
  proof (cases "e < 32")
    case True
    then have "(2 :: real) powi e * 2 ^ nat (32 - e) = 2 powi 32" using powi_shift [of e "nat (32 - e)"] by simp
    then show ?thesis using True by (simp add: M_def ipart_def mult.assoc) (simp add: mult.commute)
  next
    case False
    then have "(2 :: real) powi e = 2 ^ nat (e - 32) * 2 ^ 32" using powi_shift [of 32 "nat (e - 32)"] by simp
    then show ?thesis using False by (simp add: M_def ipart_def)
  qed
  ultimately show ?thesis using s by auto
qed

lemma word_mod32: "(word_of_nat (n mod 2 ^ 32) :: u32) = word_of_nat n"
  by (simp add: word_of_nat_eq_iff take_bit_eq_mod)

lemma low_limb_fraction:
  assumes "m < 2 ^ 53" "-1074 \<le> e" "e \<le> 971" "s \<longrightarrow> m = 0" and neg: "e < 0"
  shows "limb_of (fmod (FFin s m e) two32)
     = word_of_nat (ipart m e) + of_bool (1 / 2 \<le> real m * 2 powi e - real (ipart m e))"
proof -
  let ?r = "low_part m e"
  have s: "s \<longrightarrow> ?r = 0" using assms(4) by (auto simp: low_part_def)
  let ?d = "2 ^ nat (- e) :: nat"
  have "nat (32 - e) = nat (- e) + 32" using neg by simp
  then have split: "2 ^ nat (32 - e) = ?d * 2 ^ 32" by (simp add: power_add)
  have "?r = ?d * (m div ?d mod 2 ^ 32) + m mod ?d" using neg split by (simp add: low_part_def mod_mult2_eq)
  then have r: "?r div ?d = m div ?d mod 2 ^ 32" "?r mod ?d = m mod ?d" by simp_all
  have int: "word_of_int (fint s (?r div ?d)) = (word_of_nat (ipart m e) :: u32)"
  proof -
    have "fint s (?r div ?d) = int (m div ?d mod 2 ^ 32)" using s r(1) by (auto simp: fint_def)
    moreover have "(word_of_nat (m div ?d mod 2 ^ 32) :: u32) = word_of_nat (m div ?d)" by (rule word_mod32)
    ultimately show ?thesis using neg by (simp add: ipart_def)
  qed
  have "?r div ?d * ?d \<le> ?r" by simp
  from fsub_aligned [OF this, of s e] neg
  have fr: "fsub (FFin s ?r e) (ftrunc (FFin s ?r e)) = fround f64 (s \<and> ?r \<noteq> ?r div ?d * ?d) (?r mod ?d) e"
    by (simp add: minus_div_mult_eq_mod)
  have "m mod ?d < 2 ^ 53" using assms(1) by (meson le_less_trans mod_less_eq_dividend)
  then have ex: "fval (fround f64 False (m mod ?d) e) = real (m mod ?d) * 2 powi e"
    "\<exists>m' e'. fround f64 False (m mod ?d) e = FFin False m' e'"
    using fround_exact [of "m mod ?d" f64 e "m mod ?d" 0 e False] assms by simp_all
  have sf: "(s \<and> ?r \<noteq> ?r div ?d * ?d) = False" using s by auto
  have fr': "fsub (FFin s ?r e) (ftrunc (FFin s ?r e)) = fround f64 False (m mod ?d) e" using fr unfolding sf r(2) .
  have one: "(2 :: real) powi e * real ?d = 1" using powi_shift [of e "nat (- e)"] neg by simp
  have "real m = real (m div ?d * ?d + m mod ?d)" by (simp only: div_mult_mod_eq)
  also have "\<dots> = real (m div ?d) * real ?d + real (m mod ?d)" by (simp only: of_nat_add of_nat_mult)
  finally have "real m * 2 powi e = real (m div ?d) * (2 powi e * real ?d) + real (m mod ?d) * 2 powi e" by (simp only: algebra_simps)
  then have frac: "real (m mod ?d) * 2 powi e = real m * 2 powi e - real (ipart m e)"
    using neg unfolding one by (simp add: ipart_def)
  obtain m' e' where m': "fround f64 False (m mod ?d) e = FFin False m' e'" using ex(2) by blast
  have "fval (FFin False 1 (- 1)) = 1 / 2" by (simp add: power_int_def)
  with fle_fval [of 1 "- 1" m' e'] ex(1) m'
  have "fle one_half (fround f64 False (m mod ?d) e) \<longleftrightarrow> 1 / 2 \<le> real m * 2 powi e - real (ipart m e)"
    unfolding one_half_def frac [symmetric] by (simp only:)
  then show ?thesis
    unfolding limb_of_def fmod_two32 using neg int fr' by (simp add: Let_def min_def del: ftrunc.simps)
qed

lemma low_limb_whole:
  assumes "m < 2 ^ 53" "-1074 \<le> e" "e \<le> 971" "s \<longrightarrow> m = 0" and nonneg: "\<not> e < 0"
  shows "limb_of (fmod (FFin s m e) two32)
     = word_of_nat (ipart m e) + of_bool (1 / 2 \<le> real m * 2 powi e - real (ipart m e))"
proof -
  let ?r = "low_part m e"
  have s: "s \<longrightarrow> ?r = 0" using assms(4) by (auto simp: low_part_def)
  let ?e = "min e 32"
  have low: "?r * 2 ^ nat ?e = ipart m e mod 2 ^ 32"
  proof (cases "e < 32")
    case True
    then have "(2 :: nat) ^ 32 = 2 ^ nat (32 - e) * 2 ^ nat e" using nonneg by (simp flip: power_add nat_add_distrib)
    moreover have "ipart m e = m * 2 ^ nat e" "?r = m mod 2 ^ nat (32 - e)" "?e = e" using True nonneg by (simp_all add: ipart_def low_part_def)
    ultimately show ?thesis by (simp only: mod_mult_mult2)
  next
    case big: False
    then have "nat e = nat (e - 32) + 32" by simp
    then have "(2 :: nat) ^ nat e = 2 ^ nat (e - 32) * 2 ^ 32" by (simp add: power_add)
    then show ?thesis using big by (simp add: low_part_def ipart_def)
  qed
  have "fint s (?r * 2 ^ nat ?e) = int (ipart m e mod 2 ^ 32)" using s low by (auto simp: fint_def)
  moreover have "(word_of_nat (ipart m e mod 2 ^ 32) :: u32) = word_of_nat (ipart m e)" by (rule word_mod32)
  ultimately have int: "word_of_int (fint s (?r * 2 ^ nat ?e)) = (word_of_nat (ipart m e) :: u32)" by simp
  have "\<not> ?e < 0" using nonneg by simp
  moreover have "fsub (FFin s ?r ?e) (FFin s ?r ?e) = FFin False 0 (-1074)" by (simp add: fsub_aligned fround_def)
  moreover have "\<not> fle one_half (FFin False 0 (-1074))" by (simp add: one_half_def fint_def aligned_def)
  moreover have "real m * 2 powi e - real (ipart m e) = 0" using nonneg by (simp add: ipart_def power_int_def)
  ultimately show ?thesis
    unfolding limb_of_def fmod_two32 using nonneg int by (simp add: Let_def)
qed

lemma low_limb:
  assumes "m < 2 ^ 53" "-1074 \<le> e" "e \<le> 971" "s \<longrightarrow> m = 0"
  shows "limb_of (fmod (FFin s m e) two32)
     = word_of_nat (ipart m e) + of_bool (1 / 2 \<le> real m * 2 powi e - real (ipart m e))"
  using low_limb_fraction [OF assms] low_limb_whole [OF assms] by blast

text \<open>The four limbs of a number: the limbs of its integer part, with the rounding in the lowest.\<close>

lemma limb_loop_integer:
  assumes "ffin f64 x" "fpos x" "fval x = real n"
  shows "limb_loop k x = map (\<lambda>i. word_of_nat (n div 2 ^ (32 * i))) [0..<k]"
  using assms
proof (induction k arbitrary: x n)
  case (Suc k)
  obtain s m e where x: "x = FFin s m e" using Suc.prems(1) by (cases x) auto
  with Suc.prems have m: "m < 2 ^ 53" "-1074 \<le> e" "e \<le> 971" "s \<longrightarrow> m = 0" "real m * 2 powi e = real n" by simp_all
  have n: "ipart m e = n" using ipart_floor [of m e] m(5) by simp
  have n32: "ipart m (e - 32) = n div 2 ^ 32"
  proof -
    have "real m * 2 powi (e - 32) = real n / real (2 ^ 32)" using m(5) by (simp add: power_int_diff)
    then have "ipart m (e - 32) = nat \<lfloor>real n / real (2 ^ 32)\<rfloor>" by (simp only: flip: ipart_floor)
    then show ?thesis by (simp only: floor_divide_of_nat_eq nat_int)
  qed
  note h = high_part [OF m(1-4), unfolded n32]
  note q = ffin_div_two32 [OF conjunct1 [OF h] conjunct1 [OF conjunct2 [OF h]] conjunct2 [OF conjunct2 [OF h]]]
  have "limb_of (fmod x two32) = word_of_nat n"
    using low_limb [OF m(1-4)] n m(5) by (simp add: x)
  moreover have "limb_loop k (fdiv (fsub x (fmod x two32)) two32) = map (\<lambda>i. word_of_nat (n div 2 ^ 32 div 2 ^ (32 * i))) [0..<k]"
    using q by (intro Suc.IH) (simp_all add: x)
  moreover have "n div 2 ^ 32 div 2 ^ (32 * i) = n div 2 ^ (32 * Suc i)" for i
    by (simp add: power_add div_mult2_eq)
  ultimately show ?case by (simp add: Let_def upt_conv_Cons comp_def del: upt_Suc flip: map_Suc_upt)
qed simp

lemma limb_loop_value:
  assumes "ffin f64 x" "fpos x"
  defines "n \<equiv> nat \<lfloor>fval x\<rfloor>"
  shows "limb_loop 4 x = [word_of_nat n + of_bool (1 / 2 \<le> fval x - real n), word_of_nat (n div 2 ^ 32), word_of_nat (n div 2 ^ 64),
     word_of_nat (n div 2 ^ 96)]"
proof -
  obtain s m e where x: "x = FFin s m e" using assms(1) by (cases x) auto
  with assms have m: "m < 2 ^ 53" "-1074 \<le> e" "e \<le> 971" "s \<longrightarrow> m = 0" by simp_all
  have n: "ipart m e = n" using ipart_floor [of m e] x n_def by simp
  have n32: "ipart m (e - 32) = n div 2 ^ 32"
  proof (cases "e < 0")
    case True
    then have "nat (32 - e) = nat (- e) + 32" by simp
    then show ?thesis using True n by (auto simp: ipart_def power_add div_mult2_eq)
  next
    case False
    show ?thesis
    proof (cases "e < 32")
      case True
      then have "(2 :: nat) ^ 32 = 2 ^ nat e * 2 ^ nat (32 - e)" using False by (simp flip: power_add nat_add_distrib)
      moreover have "n = 2 ^ nat e * m" "ipart m (e - 32) = m div 2 ^ nat (32 - e)" using True False n by (auto simp: ipart_def)
      ultimately show ?thesis by (simp only: nat_mult_div_cancel1 zero_less_power zero_less_numeral)
    next
      case big: False
      then have "nat e = nat (e - 32) + 32" by simp
      then have "(2 :: nat) ^ nat e = 2 ^ nat (e - 32) * 2 ^ 32" by (simp add: power_add)
      then show ?thesis using False big n by (auto simp: ipart_def)
    qed
  qed
  note h = high_part [OF m(1-4), unfolded n32]
  note q = ffin_div_two32 [OF conjunct1 [OF h] conjunct1 [OF conjunct2 [OF h]] conjunct2 [OF conjunct2 [OF h]]]
  have "limb_loop 3 (fdiv (fsub x (fmod x two32)) two32) = map (\<lambda>i. word_of_nat (n div 2 ^ 32 div 2 ^ (32 * i))) [0..<3]"
    using q by (intro limb_loop_integer) (simp_all add: x)
  moreover have "limb_of (fmod x two32) = word_of_nat n + of_bool (1 / 2 \<le> fval x - real n)"
    using low_limb [OF m(1-4)] n by (simp add: x)
  moreover have "limb_loop (Suc 3) x = limb_of (fmod x two32) # limb_loop 3 (fdiv (fsub x (fmod x two32)) two32)"
    by (simp only: limb_loop.simps Let_def)
  moreover have "[0..<3] = [0, 1, 2 :: nat]" by (simp add: numeral_3_eq_3 numeral_2_eq_2)
  moreover have "n div 2 ^ 32 div 2 ^ (32 * 0) = n div 2 ^ 32" "n div 2 ^ 32 div 2 ^ (32 * 1) = n div 2 ^ 64"
    "n div 2 ^ 32 div 2 ^ (32 * 2) = n div 2 ^ 96" by (simp_all add: div_mult2_eq [symmetric])
  moreover have "Suc 3 = 4" by simp
  ultimately show ?thesis by (simp only: list.map)
qed

section \<open>Rounding to a decimal\<close>

lemma unat_succ: "unat (w + 1 :: u32) = (if unat w = 2 ^ 32 - 1 then 0 else unat w + 1)"
proof -
  have "unat w < 2 ^ 32" using unsigned_less [of w, where 'a = nat] by simp
  then show ?thesis by (auto simp: unat_word_ariths)
qed

text \<open>
  The number the limbs stand for: the integer part modulo \<open>2 ^ 128\<close>, and one more for a fraction of at least one
  half, unless the lowest limb has only ones.
\<close>

definition rounded :: "real \<Rightarrow> nat" where
  "rounded v =
     (let n = nat \<lfloor>v\<rfloor>; r = n mod 2 ^ 128
      in if v - real n < 1 / 2 then r else if n mod 2 ^ 32 = 2 ^ 32 - 1 then r - (2 ^ 32 - 1) else r + 1)"

lemma dec_nat_words:
  "unat (word_of_nat n :: u32) + unat (word_of_nat (n div 2 ^ 32) :: u32) * 2 ^ 32 + unat (word_of_nat (n div 2 ^ 64) :: u32) * 2 ^ 64
     + unat (word_of_nat (n div 2 ^ 96) :: u32) * 2 ^ 96 = n mod 2 ^ 128"
proof -
  have m: "n mod (x * (x * (x * x))) = n mod x + n div x mod x * x + n div x div x mod x * (x * x) + n div x div x div x mod x * (x * x * x)"
    for x :: nat
    by (simp add: mod_mult2_eq algebra_simps)
  show ?thesis
    using m [of "2 ^ 32"] by (simp add: unsigned_of_nat take_bit_eq_mod div_mult2_eq [symmetric])
qed

lemma limbs_rounded:
  assumes "ffin f64 x" "fpos x"
  shows "dec_nat \<lparr>integer = limb_loop 4 x, positive = p, prec = q, scale = s\<rparr> = rounded (fval x)"
proof -
  define n where "n = nat \<lfloor>fval x\<rfloor>"
  define w where "w = (word_of_nat n :: u32)"
  let ?up = "1 / 2 \<le> fval x - real n"
  note l = limb_loop_value [OF assms, folded n_def]
  have w: "unat w = n mod 2 ^ 32" by (simp add: w_def unsigned_of_nat take_bit_eq_mod)
  have "dec_nat \<lparr>integer = limb_loop 4 x, positive = p, prec = q, scale = s\<rparr> + unat w = unat (w + of_bool ?up) + n mod 2 ^ 128"
    using dec_nat_words [of n] unfolding dec_nat_def l by (simp add: w_def)
  moreover have "unat w \<le> n mod 2 ^ 128" using dec_nat_words [of n] by (simp add: w_def)
  ultimately show ?thesis
    by (auto simp: rounded_def Let_def n_def [symmetric] unat_succ w)
qed

section \<open>From a float to a decimal\<close>

lemma fround_ffin:
  assumes "e + int (nbits m) \<le> 1000"
  shows "\<exists>q e'. fround f64 s m e = FFin s q e' \<and> q < 2 ^ 53 \<and> -1074 \<le> e' \<and> e' \<le> 971"
proof (cases "m = 0")
  case False
  define e' where "e' = max (-1074) (e + int (nbits m) - 53)"
  have e': "-1074 \<le> e'" "e' \<le> 970" "e + int (nbits m) \<le> e' + 53" using assms by (auto simp: e'_def)
  have pk: "\<exists>q' e''. fpack f64 s q e' = FFin s q' e'' \<and> q' < 2 ^ 53 \<and> -1074 \<le> e'' \<and> e'' \<le> 971" if "q \<le> 2 ^ 53" for q
    using that e' by (auto simp: fpack_def)
  show ?thesis
  proof (cases "e' \<le> e")
    case True
    have "m * 2 ^ nat (e - e') < 2 ^ nbits m * 2 ^ nat (e - e')" using nbits_upper [of m] by simp
    also have "\<dots> = 2 ^ (nbits m + nat (e - e'))" by (simp add: power_add)
    also have "\<dots> \<le> 2 ^ 53" using True e'(3) by (intro power_increasing) auto
    finally show ?thesis using pk [of "m * 2 ^ nat (e - e')"] True False by (simp add: fround_def Let_def flip: e'_def)
  next
    case big: False
    let ?d = "2 ^ nat (e' - e) :: nat"
    have "(2 :: nat) ^ nbits m \<le> 2 ^ (53 + nat (e' - e))" using big e'(3) by (intro power_increasing) auto
    then have "m < 2 ^ 53 * ?d" using nbits_upper [of m] by (simp add: power_add)
    then have "m div ?d < 2 ^ 53" by (rule less_mult_imp_div_less)
    then show ?thesis using pk [of "m div ?d"] pk [of "m div ?d + 1"] big False by (simp add: fround_def Let_def flip: e'_def)
  qed
qed (simp add: fround_def)

lemma nbits_mult: "nbits (a * b) \<le> nbits a + nbits b"
proof (cases "a * b = 0")
  case False
  have "a * b < 2 ^ nbits a * 2 ^ nbits b" using nbits_upper [of a] nbits_upper [of b] by (intro mult_strict_mono) auto
  with False show ?thesis by (intro nbits_le) (auto simp: power_add)
qed (auto simp: nbits.simps [of 0])

text \<open>The table is exact up to \<open>10 ^ 22\<close>.\<close>

definition entry_ok :: "nat \<Rightarrow> flt \<Rightarrow> bool" where
  "entry_ok i x = (case x of
       FFin s m e \<Rightarrow> \<not> s \<and> m < 2 ^ 53 \<and> -1074 \<le> e \<and> e \<le> 100
         \<and> (22 < i \<or> e \<le> int i \<and> m = 5 ^ i * 2 ^ nat (int i - e))
     | _ \<Rightarrow> False)"

primrec table_ok :: "nat \<Rightarrow> nat \<Rightarrow> flt \<Rightarrow> bool" where
  "table_ok 0 i x \<longleftrightarrow> entry_ok i x"
| "table_ok (Suc n) i x \<longleftrightarrow> entry_ok i x \<and> table_ok n (i + 1) (fmul x (flt_of_int 10))"

lemma table_ok_entry: "table_ok n i (scaletblflt64 i) \<Longrightarrow> k \<le> n \<Longrightarrow> entry_ok (i + k) (scaletblflt64 (i + k))"
proof (induction n arbitrary: i k)
  case (Suc n)
  then show ?case using Suc.IH [of "Suc i" "k - 1"] by (cases k) auto
qed simp

lemma nbits_numeral [simp]:
  "nbits (numeral (num.Bit0 n)) = Suc (nbits (numeral n))" "nbits (numeral (num.Bit1 n)) = Suc (nbits (numeral n))"
  "nbits (Suc 0) = 1"
  by (simp_all add: nbits.simps [of "numeral _"] nbits.simps [of "Suc 0"] nbits.simps [of 0])

lemma table_numeral:
  "table_ok (numeral n) i x \<longleftrightarrow> entry_ok i x \<and> table_ok (pred_numeral n) (i + 1) (fmul x (flt_of_int 10))"
  by (simp add: numeral_eq_Suc)

lemma table_38: "table_ok 38 0 (scaletblflt64 0)"
  by (simp add: table_numeral entry_ok_def flt_of_int_def fround_def fpack_def Let_def)

lemma scaletbl_entry:
  assumes "i \<le> 38"
  obtains m e where "scaletblflt64 i = FFin False m e" "m < 2 ^ 53" "-1074 \<le> e" "e \<le> 100"
    "22 < i \<or> e \<le> int i \<and> m = 5 ^ i * 2 ^ nat (int i - e)"
proof -
  have "entry_ok i (scaletblflt64 i)" using table_ok_entry [OF table_38 assms] by simp
  with that show ?thesis by (auto simp: entry_ok_def split: flt.splits)
qed

lemma powi_bound: "0 < n \<Longrightarrow> real n * 2 powi e \<le> 2 powi k \<Longrightarrow> e + int (nbits n - 1) \<le> k"
proof -
  assume n: "0 < n" "real n * 2 powi e \<le> 2 powi k"
  have "real (2 ^ (nbits n - 1)) \<le> real n" using nbits_lower [OF n(1)] by (simp only: of_nat_le_iff)
  then have "(2 :: real) ^ (nbits n - 1) * 2 powi e \<le> real n * 2 powi e" by (intro mult_right_mono) auto
  also have "(2 :: real) ^ (nbits n - 1) * 2 powi e = 2 powi (e + int (nbits n - 1))" by (simp only: powi_shift mult.commute)
  finally have "(2 :: real) powi (e + int (nbits n - 1)) \<le> 2 powi k" using n(2) by linarith
  then show "e + int (nbits n - 1) \<le> k" using power_int_strict_increasing [of k "e + int (nbits n - 1)" "2 :: real"] by force
qed

lemma fmul_scale:
  assumes "m < 2 ^ 53" "-1074 \<le> e" "real m * 2 powi e \<le> 2 ^ 128" "i \<le> 38" "s \<longrightarrow> m = 0"
  shows "ffin f64 (fmul (FFin s m e) (scaletblflt64 i)) \<and> fpos (fmul (FFin s m e) (scaletblflt64 i))"
proof -
  obtain m2 e2 where t: "scaletblflt64 i = FFin False m2 e2" "m2 < 2 ^ 53" "e2 \<le> 100" using scaletbl_entry [OF assms(4)] by metis
  show ?thesis
  proof (cases "m * m2 = 0")
    case True
    with t show ?thesis by (auto simp: fround_def)
  next
    case False
    then have "e + int (nbits m - 1) \<le> 128" using powi_bound [of m e 128] assms(3) by simp
    moreover have "nbits m2 \<le> 53" using t(2) False by (intro nbits_le) auto
    ultimately have "e + e2 + int (nbits (m * m2)) \<le> 1000" using t(3) nbits_mult [of m m2] nbits_pos [of m] False by simp
    then show ?thesis using fround_ffin [of "e + e2" "m * m2" s] t(1) assms(5) False by auto
  qed
qed

text \<open>The product is exact when it has at most 53 digits besides powers of two.\<close>

lemma fmul_exact:
  assumes "-1074 \<le> e" "real m * 2 powi e \<le> 2 ^ 128" "i \<le> 22" "m = M * 2 ^ t" "M * 5 ^ i < 2 ^ 53"
  shows "fval (fmul (FFin False m e) (scaletblflt64 i)) = real m * 2 powi e * 10 ^ i"
proof (cases "m = 0")
  case True
  then show ?thesis by (cases "scaletblflt64 i") (auto simp: fround_def)
next
  case False
  obtain m2 e2 where t: "scaletblflt64 i = FFin False m2 e2" "22 < i \<or> e2 \<le> int i \<and> m2 = 5 ^ i * 2 ^ nat (int i - e2)"
    by (rule scaletbl_entry [of i]) (use assms(3) in auto)
  then have m2: "e2 \<le> int i" "m2 = 5 ^ i * 2 ^ nat (int i - e2)" using assms(3) by auto
  have "M > 0" using False assms(4) by (cases M) auto
  then have "e + int t \<le> 128"
    using powi_bound [of m e 128] False assms(2) nbits_shift [of M t] nbits_pos [of M] by (simp add: assms(4))
  moreover have "m * m2 = M * 5 ^ i * 2 ^ (t + nat (int i - e2))" by (simp add: assms(4) m2(2) power_add)
  ultimately have "fval (fround f64 False (m * m2) (e + e2)) = real (M * 5 ^ i) * 2 powi (e + int t + int i)"
    using fround_exact [of "M * 5 ^ i" f64 "e + int t + int i" "m * m2" "t + nat (int i - e2)" "e + e2" False] assms m2(1) by simp
  also have "\<dots> = real m * 2 powi e * 10 ^ i"
    by (simp add: powi_shift assms(4) mult.assoc mult.left_commute flip: power_mult_distrib)
  finally show ?thesis by (simp add: t(1))
qed

lemma unpack64_finite: "unpack64 w = FFin s m e \<Longrightarrow> m < 2 ^ 53 \<and> -1074 \<le> e \<and> e \<le> 971"
proof -
  let ?fr = "unat w mod 2 ^ 52" and ?ex = "unat w div 2 ^ 52 mod 2 ^ 11"
  have "?fr < 2 ^ 52" "?ex < 2 ^ 11" by simp_all
  moreover assume "unpack64 w = FFin s m e"
  ultimately show ?thesis by (auto simp: unpack64_def unpack_def Let_def split: if_splits)
qed

lemma scale_loop_fixed:
  "sc \<noteq> autoScale \<Longrightarrow> sc \<le> 38 \<Longrightarrow> i \<le> sc \<Longrightarrow> scale_loop f sc i x = Inr (Suc sc, fmul f (scaletblflt64 sc))"
proof (induction "sc - i" arbitrary: i x)
  case 0
  then have "i = sc" by simp
  with 0 show ?case by (simp add: scale_loop.simps [of _ _ sc] scale_loop.simps [of _ _ "Suc sc"] Let_def)
next
  case (Suc k)
  then show ?case by (subst scale_loop.simps) (simp add: Let_def)
qed

lemma fle_max: "fle (FFin s m e) max_decimal \<longleftrightarrow> real m * 2 powi e \<le> 2 ^ 128" if "s \<longrightarrow> m = 0"
proof (cases s)
  case True
  with that show ?thesis by (simp add: max_decimal_def fint_def aligned_def Let_def)
next
  case False
  then show ?thesis using fle_fval [of m e 1 128] by (simp add: max_decimal_def del: fle.simps)
qed

lemma Float64ToDecimalScale_limbs:
  assumes "unpack64 w = FFin s m e" "real m * 2 powi e \<le> 2 ^ 128" "unat sc \<le> 38"
  shows "\<exists>d x. Float64ToDecimalScale (unpack64 w) sc = Inr d \<and> x = fmul (FFin False m e) (scaletblflt64 (unat sc))
     \<and> decimal_ok d \<and> positive d = (\<not> s \<or> m = 0) \<and> scale d = sc + 1 \<and> dec_nat d = rounded (fval x)
     \<and> (\<forall>M t. m = M * 2 ^ t \<and> unat sc \<le> 22 \<and> M * 5 ^ unat sc < 2 ^ 53 \<longrightarrow> fval x = real m * 2 powi e * 10 ^ unat sc)"
proof -
  note b = unpack64_finite [OF assms(1)]
  define f where "f = FFin (s \<and> m = 0) m e"
  let ?x = "fmul f (scaletblflt64 (unat sc))"
  have pos: "fle (FFin False 0 0) (FFin s m e) \<longleftrightarrow> \<not> s \<or> m = 0" by (auto simp: fint_def aligned_def Let_def mult_le_0_iff)
  have f: "(if \<not> s \<or> m = 0 then FFin s m e else fabs (FFin s m e)) = f" by (auto simp: f_def)
  have mx: "fle f max_decimal" unfolding f_def using fle_max assms(2) by auto
  have lp: "scale_loop f (unat sc) 0 (FFin False 0 0) = Inr (Suc (unat sc), ?x)"
    using assms(3) by (intro scale_loop_fixed) (auto simp: autoScale_def)
  have fx: "ffin f64 ?x" "fpos ?x" using fmul_scale [of m e "unat sc" "s \<and> m = 0"] assms b by (auto simp: f_def)
  have v: "fval ?x = fval (fmul (FFin False m e) (scaletblflt64 (unat sc)))"
  proof (cases "s \<and> m = 0")
    case True
    then show ?thesis by (cases "scaletblflt64 (unat sc)") (auto simp: f_def fround_def)
  next
    case False
    then have "(s \<and> m = 0) = False" by simp
    then show ?thesis unfolding f_def by (simp only:)
  qed
  let ?d = "\<lparr>integer = limb_loop 4 ?x, positive = (\<not> s \<or> m = 0), prec = 20, scale = word_of_nat (Suc (unat sc))\<rparr>"
  have "Float64ToDecimalScale (unpack64 w) sc = Inr ?d"
    unfolding Float64ToDecimalScale_def assms(1) flt.case Let_def pos f using mx lp by simp
  moreover have "dec_nat ?d = rounded (fval ?x)" using fx by (rule limbs_rounded)
  moreover have "decimal_ok ?d" by (simp add: decimal_ok_def limb_loop_value [OF fx])
  moreover have "word_of_nat (Suc (unat sc)) = sc + 1" by (simp add: add.commute)
  moreover have "fval (fmul (FFin False m e) (scaletblflt64 (unat sc))) = real m * 2 powi e * 10 ^ unat sc"
    if "m = M * 2 ^ t" "unat sc \<le> 22" "M * 5 ^ unat sc < 2 ^ 53" for M t
    using fmul_exact [OF _ assms(2) that(2,1,3)] b by simp
  ultimately show ?thesis unfolding v by (intro exI conjI allI impI) (assumption | simp | blast)+
qed

text \<open>
  C32. A float is converted to a decimal of scale at most 38 for every finite value up to \<open>2 ^ 128\<close>. Its
  digits are those of the product with the power of ten, computed in \<open>float64\<close> (exactly when it has 53
  digits and the power is at most \<open>10 ^ 22\<close>), rounded to the nearest integer; but a carry out of the lowest 32 bits
  is lost, and so is what exceeds 128 bits.
\<close>

theorem Float64ToDecimalScale_rounds:
  assumes "unpack64 w = FFin s m e" "real m * 2 powi e \<le> 2 ^ 128" "unat sc \<le> 38"
  shows "\<exists>d x. Float64ToDecimalScale (unpack64 w) sc = Inr d \<and> x = fmul (FFin False m e) (scaletblflt64 (unat sc))
     \<and> decimal_ok d \<and> positive d = (\<not> s \<or> m = 0) \<and> scale d = sc + 1 \<and> dec_nat d = rounded (fval x)
     \<and> (\<forall>M t. m = M * 2 ^ t \<and> unat sc \<le> 22 \<and> M * 5 ^ unat sc < 2 ^ 53 \<longrightarrow> fval x = real m * 2 powi e * 10 ^ unat sc)"
  by (rule Float64ToDecimalScale_limbs [OF assms])

text \<open>Minus 2.25, at scale 2: exact.\<close>

theorem Float64ToDecimalScale_rounds_witness:
  "\<exists>d. Float64ToDecimalScale (unpack64 0xC002000000000000) 2 = Inr d \<and> \<not> positive d \<and> dec_nat d = 225"
proof -
  have u: "unpack64 0xC002000000000000 = FFin True 0x12000000000000 (-51)" by (simp add: unpack64_def unpack_def Let_def)
  have p: "(2 :: real) powi (- 51) = 1 / 2 ^ 51" by (simp add: power_int_def power_one_over inverse_eq_divide)
  obtain d x where d: "Float64ToDecimalScale (unpack64 0xC002000000000000) 2 = Inr d" "\<not> positive d" "dec_nat d = rounded (fval x)"
      and x: "\<forall>M t. (0x12000000000000 :: nat) = M * 2 ^ t \<and> unat (2 :: byte) \<le> 22 \<and> M * 5 ^ unat (2 :: byte) < 2 ^ 53
        \<longrightarrow> fval x = real 0x12000000000000 * 2 powi (-51) * 10 ^ unat (2 :: byte)"
    using Float64ToDecimalScale_rounds [OF u, of 2] p by auto
  have "fval x = 225" using x [rule_format, of 9 49] p by simp
  moreover have "rounded 225 = 225" by (simp add: rounded_def)
  ultimately show ?thesis using d by auto
qed

text \<open>
  A carry out of the lowest limb is lost: 4294967295.5 becomes zero.
\<close>

lemma Float64ToDecimalScale_loses_carry:
  "\<exists>d. Float64ToDecimalScale (unpack64 0x41EFFFFFFFF00000) 0 = Inr d \<and> positive d \<and> dec_nat d = 0"
proof -
  have u: "unpack64 0x41EFFFFFFFF00000 = FFin False 0x1FFFFFFFF00000 (-21)" by (simp add: unpack64_def unpack_def Let_def)
  have p: "(2 :: real) powi (- 21) = 1 / 2 ^ 21" by (simp add: power_int_def power_one_over inverse_eq_divide)
  obtain d x where d: "Float64ToDecimalScale (unpack64 0x41EFFFFFFFF00000) 0 = Inr d" "positive d" "dec_nat d = rounded (fval x)"
      and x: "\<forall>M t. (0x1FFFFFFFF00000 :: nat) = M * 2 ^ t \<and> unat (0 :: byte) \<le> 22 \<and> M * 5 ^ unat (0 :: byte) < 2 ^ 53
        \<longrightarrow> fval x = real 0x1FFFFFFFF00000 * 2 powi (-21) * 10 ^ unat (0 :: byte)"
    using Float64ToDecimalScale_limbs [OF u, of 0] p by auto
  have "fval x = 8589934591 / 2" using x [rule_format, of "0x1FFFFFFFF00000" 0] p by simp
  moreover have "rounded (8589934591 / 2) = 0" by (simp add: rounded_def)
  ultimately have "dec_nat d = 0" using d(3) by (simp only:)
  with d show ?thesis by blast
qed

end
