(* ===== verification/Tds_Buffer.thy ===== *)
theory Tds_Buffer
  imports Go_IO
begin

text \<open>
  The packet layer, \<open>src/buf.go\<close>: a \<open>tdsBuffer\<close> cuts what is written into TDS
  packets and joins the packets it reads. The connection below it is not part of the
  repository's own logic; it is a record of what the peer still sends, how a read fails after
  that, what was accepted for sending and how the coming writes end.
\<close>

named_theorems buf_defs

section \<open>The connection\<close>

record conn =
  t_in :: bytes
  t_rerr :: err
  t_out :: "bytes list"
  t_wres :: "err option list"

definition conn_read :: "conn reader" where
  "conn_read n c =
     (if t_in c = [] then (Inl (Err (t_rerr c)), c)
      else (Inr (take n (t_in c)), c\<lparr>t_in := drop n (t_in c)\<rparr>))"

definition conn_write :: "bytes \<Rightarrow> conn \<Rightarrow> err option \<times> conn" where
  "conn_write p c =
     (case t_wres c of
        Some e # rs \<Rightarrow> (Some e, c\<lparr>t_wres := rs\<rparr>)
      | _ \<Rightarrow> (None, c\<lparr>t_out := t_out c @ [p], t_wres := tl (t_wres c)\<rparr>))"

section \<open>The buffer\<close>

record header =
  h_PacketType :: byte
  h_Status :: byte
  h_Size :: u16
  h_Spid :: u16
  h_PacketNo :: byte
  h_Pad :: byte

definition headerSize :: nat where
  "headerSize = 8"

text \<open>
  \<open>wbuf\<close> and \<open>rbuf\<close> are slices of one array from the pool: \<open>wbuf\<close> is its
  first \<open>wlen\<close> bytes (and, as a Go slice, has the whole array as capacity), \<open>rbuf\<close>
  starts at \<open>roff\<close>. \<open>afterFirst\<close>, the hook run after the first packet is sent, is
  the change it makes to the transport. \<open>bufClose\<close>, which hands the array back to the
  pool, has no effect on the buffer and is left out.
\<close>

record tdsBuffer =
  transport :: conn
  packetSize :: int
  bufmem :: bytes
  wlen :: nat
  wpos :: nat
  wPacketSeq :: byte
  wPacketType :: byte
  roff :: nat
  rpos :: nat
  rsize :: nat
  final :: bool
  rPacketType :: byte
  afterFirst :: "(conn \<Rightarrow> conn) option"

definition newTdsBuffer :: "u16 \<Rightarrow> bytes \<Rightarrow> conn \<Rightarrow> tdsBuffer" where
  "newTdsBuffer bufsize buf c =
     \<lparr>transport = c, packetSize = int (unat bufsize), bufmem = buf, wlen = 2 ^ 15,
      wpos = 0, wPacketSeq = 0, wPacketType = 0, roff = 2 ^ 15, rpos = 8, rsize = 0,
      final = False, rPacketType = 0, afterFirst = None\<rparr>"

definition ResizeBuffer :: "int \<Rightarrow> (tdsBuffer, unit) go" where
  "ResizeBuffer n = (\<lambda>rw. (Inr (), rw\<lparr>packetSize := n\<rparr>))"

definition PackageSize :: "tdsBuffer \<Rightarrow> int" where
  "PackageSize w = packetSize w"

subsection \<open>Writing\<close>

definition flush :: "(tdsBuffer, unit) go" where
  "flush w =
     (if wlen w < 8 \<or> length (bufmem w) < max (wlen w) (wpos w)
      then (Inl (RuntimePanic ''index out of range''), w)
      else
        let mem = put_at 2 (be_bytes 2 (word_of_nat (wpos w) :: u16))
                    ((bufmem w)[0 := wPacketType w]);
            w1 = w\<lparr>bufmem := mem[6 := wPacketSeq w]\<rparr>
        in (case conn_write (take (wpos w) (bufmem w1)) (transport w) of
              (Some e, c) \<Rightarrow> (Inl (Err e), w1\<lparr>transport := c\<rparr>)
            | (None, c) \<Rightarrow>
                (Inr (), w1\<lparr>transport := (case afterFirst w of None \<Rightarrow> c | Some hook \<Rightarrow> hook c),
                            afterFirst := None, wpos := 8, wPacketSeq := wPacketSeq w + 1\<rparr>)))"

text \<open>
  The loop of \<open>Write\<close>; \<open>None\<close>: it never returns. The number is what Go returns as
  \<open>total\<close>, kept beside the error.
\<close>

partial_function (option) Write_loop ::
    "bytes \<Rightarrow> nat \<Rightarrow> tdsBuffer \<Rightarrow> ((fault + nat) \<times> tdsBuffer) option" where
  "Write_loop p tot w =
     (if packetSize w < int (wpos w) \<or> int (length (bufmem w)) < packetSize w
      then Some (Inl (RuntimePanic ''slice bounds out of range''), w)
      else
        let copied = min (nat (packetSize w) - wpos w) (length p);
            w1 = w\<lparr>bufmem := put_at (wpos w) (take copied p) (bufmem w),
                   wpos := wpos w + copied\<rparr>
        in if copied = length p then Some (Inr (tot + copied), w1)
           else (case flush w1 of
                   (Inl e, w2) \<Rightarrow> Some (Inl e, w2)
                 | (Inr _, w2) \<Rightarrow> Write_loop (drop copied p) (tot + copied) w2))"

definition Write :: "tdsBuffer writer" where
  "Write p w = (case Write_loop p 0 w of None \<Rightarrow> (Inl Diverges, w) | Some r \<Rightarrow> r)"

definition WriteByte :: "byte \<Rightarrow> (tdsBuffer, unit) go" where
  "WriteByte b =
     gthen (\<lambda>w. if wpos w = wlen w \<or> int (wpos w) = packetSize w then flush w else (Inr (), w))
       (\<lambda>w. if wlen w \<le> wpos w then (Inl (RuntimePanic ''index out of range''), w)
            else (Inr (), w\<lparr>bufmem := (bufmem w)[wpos w := b], wpos := wpos w + 1\<rparr>))"

definition packSQLBatch :: byte where "packSQLBatch = 1"
definition packRPCRequest :: byte where "packRPCRequest = 3"
definition packReply :: byte where "packReply = 4"
definition packAttention :: byte where "packAttention = 6"
definition packBulkLoadBCP :: byte where "packBulkLoadBCP = 7"
definition packFedAuthToken :: byte where "packFedAuthToken = 8"
definition packTransMgrReq :: byte where "packTransMgrReq = 14"
definition packNormal :: byte where "packNormal = 15"
definition packLogin7 :: byte where "packLogin7 = 16"
definition packSSPIMessage :: byte where "packSSPIMessage = 17"
definition packPrelogin :: byte where "packPrelogin = 18"

definition begin_status :: "byte \<Rightarrow> bool \<Rightarrow> byte" where
  "begin_status ptype resetSession =
     (if resetSession \<and> ptype \<in> {packSQLBatch, packRPCRequest, packTransMgrReq}
      then 8 else 0)"

definition BeginPacket :: "byte \<Rightarrow> bool \<Rightarrow> (tdsBuffer, unit) go" where
  "BeginPacket ptype resetSession = (\<lambda>w.
     if wlen w < 2 then (Inl (RuntimePanic ''index out of range''), w)
     else (Inr (), w\<lparr>bufmem := (bufmem w)[1 := begin_status ptype resetSession],
                     wpos := 8, wPacketSeq := 1, wPacketType := ptype\<rparr>))"

definition FinishPacket :: "(tdsBuffer, unit) go" where
  "FinishPacket =
     gthen (\<lambda>w. if wlen w < 2 then (Inl (RuntimePanic ''index out of range''), w)
                else (Inr (), w\<lparr>bufmem := (bufmem w)[1 := (bufmem w ! 1) OR 1]\<rparr>))
       flush"

subsection \<open>Reading\<close>

text \<open>\<open>io.ReadFull(r.transport, r.rbuf[lo:hi])\<close>.\<close>

definition read_rbuf :: "nat \<Rightarrow> nat \<Rightarrow> (tdsBuffer, unit) go" where
  "read_rbuf lo hi r =
     (if hi < lo \<or> length (bufmem r) < roff r + hi
      then (Inl (RuntimePanic ''slice bounds out of range''), r)
      else (case io_fill conn_read (hi - lo) [] (transport r) of
              None \<Rightarrow> (Inl Diverges, r)
            | Some ((acc, f), c) \<Rightarrow>
                (case f of None \<Rightarrow> Inr () | Some e \<Rightarrow> Inl (short_read acc e),
                 r\<lparr>transport := c, bufmem := put_at (roff r + lo) acc (bufmem r)\<rparr>)))"

definition rbyte :: "tdsBuffer \<Rightarrow> nat \<Rightarrow> byte" where
  "rbyte r i = bufmem r ! (roff r + i)"

definition packet_header :: "tdsBuffer \<Rightarrow> header" where
  "packet_header r =
     \<lparr>h_PacketType = rbyte r 0, h_Status = rbyte r 1, h_Size = be_word [rbyte r 2, rbyte r 3],
      h_Spid = be_word [rbyte r 4, rbyte r 5], h_PacketNo = rbyte r 6, h_Pad = rbyte r 7\<rparr>"

definition readNextPacket :: "(tdsBuffer, unit) go" where
  "readNextPacket =
     gthen (read_rbuf 0 headerSize) (\<lambda>r.
       let h = packet_header r in
       if packetSize r < int (unat (h_Size h))
       then (Inl (Err (ErrMsg ''invalid packet size, it is longer than buffer size'')), r)
       else if unat (h_Size h) < headerSize
       then (Inl (Err (ErrMsg ''invalid packet size, it is shorter than header size'')), r)
       else gthen (read_rbuf headerSize (unat (h_Size h))) (\<lambda>r.
         (Inr (), r\<lparr>rpos := headerSize, rsize := unat (h_Size h),
                    final := (h_Status h \<noteq> 0), rPacketType := h_PacketType h\<rparr>)) r)"

definition BeginRead :: "(tdsBuffer, byte) go" where
  "BeginRead = gthen readNextPacket (\<lambda>r. (Inr (rPacketType r), r))"

text \<open>The beginning that \<open>ReadByte\<close> and \<open>Read\<close> share.\<close>

definition ensure_packet :: "(tdsBuffer, unit) go" where
  "ensure_packet r =
     (if rpos r = rsize r then (if final r then (Inl (Err EOF), r) else readNextPacket r)
      else (Inr (), r))"

definition ReadByte :: "(tdsBuffer, byte) go" where
  "ReadByte =
     gthen ensure_packet (\<lambda>r.
       if length (bufmem r) \<le> roff r + rpos r
       then (Inl (RuntimePanic ''index out of range''), r)
       else (Inr (rbyte r (rpos r)), r\<lparr>rpos := rpos r + 1\<rparr>))"

definition Read :: "tdsBuffer reader" where
  "Read n =
     gthen ensure_packet (\<lambda>r.
       if rsize r < rpos r \<or> length (bufmem r) < roff r + rsize r
       then (Inl (RuntimePanic ''slice bounds out of range''), r)
       else let copied = min n (rsize r - rpos r)
            in (Inr (take copied (drop (roff r + rpos r) (bufmem r))),
                r\<lparr>rpos := rpos r + copied\<rparr>))"

definition r_byte :: "(tdsBuffer, byte) go" where
  "r_byte = or_panic ReadByte"

definition r_ReadFull :: "nat \<Rightarrow> (tdsBuffer, bytes) go" where
  "r_ReadFull n = or_panic (io_ReadFull Read n)"

text \<open>
  \<open>uint16\<close>, \<open>uint32\<close>, \<open>uint64\<close>: read the \<open>n\<close> bytes straight from
  \<open>rbuf\<close> when the packet at hand holds them, and through \<open>ReadFull\<close> otherwise.
\<close>

definition r_uint :: "nat \<Rightarrow> (tdsBuffer, 'a::len word) go" where
  "r_uint n r =
     (if rsize r \<le> rpos r + (n - 1)
      then gbind (r_ReadFull n) (\<lambda>buf. gret (le_word buf)) r
      else if length (bufmem r) < roff r + rpos r + n
      then (Inl (RuntimePanic ''index out of range''), r)
      else (Inr (le_word (take n (drop (roff r + rpos r) (bufmem r)))),
            r\<lparr>rpos := rpos r + n\<rparr>))"

definition r_uint16 :: "(tdsBuffer, u16) go" where "r_uint16 = r_uint 2"
definition r_uint32 :: "(tdsBuffer, u32) go" where "r_uint32 = r_uint 4"
definition r_uint64 :: "(tdsBuffer, u64) go" where "r_uint64 = r_uint 8"

text \<open>\<open>int32\<close>: the same bits, read as two's complement.\<close>

definition r_int32 :: "(tdsBuffer, int) go" where
  "r_int32 = gbind r_uint32 (\<lambda>w. gret (sint w))"

lemmas [buf_defs] = flush_def WriteByte_def BeginPacket_def FinishPacket_def readNextPacket_def
  BeginRead_def ensure_packet_def ReadByte_def Read_def gthen_def gbind_def

end
