(* ===== verification/Tds_Reader.thy ===== *)
theory Tds_Reader
  imports Tds_Buffer
begin

text \<open>
  What the reading half of \<open>tdsBuffer\<close> delivers: the bytes of the packets, in order and
  without their headers. \<open>Read\<close> is a \<open>byte_source\<close> for this stream, and so is a
  limited reader on top of it; \<open>ReadByte\<close> and the integer readers with their short cut
  agree with it. The relation \<open>reads\<close> lifts this to parsers.
\<close>


interpretation wire: byte_source conn_read t_in "\<lambda>_. True" "\<lambda>_. 0"
  by unfold_locales (auto simp: conn_read_def split: if_splits)

lemma conn_fill:
  "io_fill conn_read n [] c =
     Some (if n \<le> length (t_in c) then ((take n (t_in c), None), c\<lparr>t_in := drop n (t_in c)\<rparr>)
           else ((t_in c, Some (Err (t_rerr c))), c\<lparr>t_in := []\<rparr>))"
proof (cases "n = 0 \<or> t_in c = []")
  case True
  then show ?thesis by (subst io_fill.simps) (auto simp: conn_read_def)
next
  case False
  then have "io_fill conn_read n [] c =
      io_fill conn_read n (take n (t_in c)) (c\<lparr>t_in := drop n (t_in c)\<rparr>)"
    by (subst io_fill.simps) (simp add: conn_read_def)
  also have "\<dots> = Some (if n \<le> length (t_in c)
        then ((take n (t_in c), None), c\<lparr>t_in := drop n (t_in c)\<rparr>)
        else ((t_in c, Some (Err (t_rerr c))), c\<lparr>t_in := []\<rparr>))"
    by (subst io_fill.simps) (auto simp: conn_read_def min_def)
  finally show ?thesis .
qed

section \<open>The byte stream a buffer delivers\<close>

text \<open>The payload of the packets in \<open>xs\<close>, up to a final or an unreadable packet.\<close>

definition wire_size :: "bytes \<Rightarrow> nat" where
  "wire_size xs = unat (be_word [xs ! 2, xs ! 3] :: u16)"

definition wire_packet :: "nat \<Rightarrow> bytes \<Rightarrow> bool" where
  "wire_packet mx xs \<longleftrightarrow> 8 \<le> length xs \<and> 8 \<le> wire_size xs \<and> wire_size xs \<le> mx
     \<and> wire_size xs \<le> length xs"

definition wire_body :: "bytes \<Rightarrow> bytes" where
  "wire_body xs = take (wire_size xs - 8) (drop 8 xs)"

function payload :: "nat \<Rightarrow> bytes \<Rightarrow> bytes" where
  "payload mx xs =
     (if wire_packet mx xs
      then wire_body xs @ (if xs ! 1 \<noteq> 0 then [] else payload mx (drop (wire_size xs) xs))
      else [])"
  by pat_completeness auto
termination
  by (relation "measure (\<lambda>(mx, xs). length xs)") (auto simp: wire_packet_def)

declare payload.simps [simp del]

definition pending :: "tdsBuffer \<Rightarrow> bytes" where
  "pending r = take (rsize r - rpos r) (drop (roff r + rpos r) (bufmem r))"

definition stream :: "tdsBuffer \<Rightarrow> bytes" where
  "stream r = pending r @ (if final r then [] else payload (nat (packetSize r)) (t_in (transport r)))"

definition rbuf_ok :: "tdsBuffer \<Rightarrow> bool" where
  "rbuf_ok r \<longleftrightarrow> roff r + headerSize \<le> length (bufmem r)
     \<and> int (roff r) + packetSize r \<le> int (length (bufmem r))"

definition rinv :: "tdsBuffer \<Rightarrow> bool" where
  "rinv r \<longleftrightarrow> rbuf_ok r \<and> rpos r \<le> rsize r \<and> roff r + rsize r \<le> length (bufmem r)"

lemma read_rbuf_exact:
  assumes "lo \<le> hi" "roff r + hi \<le> length (bufmem r)"
  shows "read_rbuf lo hi r =
     (if hi - lo \<le> length (t_in (transport r))
      then (Inr (), r\<lparr>transport := (transport r)\<lparr>t_in := drop (hi - lo) (t_in (transport r))\<rparr>,
              bufmem := put_at (roff r + lo) (take (hi - lo) (t_in (transport r))) (bufmem r)\<rparr>)
      else (Inl (short_read (t_in (transport r)) (Err (t_rerr (transport r)))),
            r\<lparr>transport := (transport r)\<lparr>t_in := []\<rparr>,
              bufmem := put_at (roff r + lo) (t_in (transport r)) (bufmem r)\<rparr>))"
  using assms by (simp add: read_rbuf_def conn_fill)

lemma nth_put_at:
  "i < length xs \<Longrightarrow> off + length xs \<le> length mem \<Longrightarrow> put_at off xs mem ! (off + i) = xs ! i"
  by (simp add: put_at_def nth_append)

text \<open>After a packet is read, the buffer holds its body and the wire holds the rest.\<close>

definition after_packet :: "tdsBuffer \<Rightarrow> tdsBuffer" where
  "after_packet r = (let xs = t_in (transport r) in
     r\<lparr>transport := (transport r)\<lparr>t_in := drop (wire_size xs) xs\<rparr>,
       bufmem := put_at (roff r) (take (wire_size xs) xs) (bufmem r),
       rpos := 8, rsize := wire_size xs, final := (xs ! 1 \<noteq> 0), rPacketType := xs ! 0\<rparr>)"

lemma put_at_append:
  "off + length xs + length ys \<le> length mem \<Longrightarrow>
   put_at (off + length xs) ys (put_at off xs mem) = put_at off (xs @ ys) mem"
  by (simp add: put_at_def ac_simps)

lemma readNextPacket_ok:
  assumes ok: "rbuf_ok r" and p: "wire_packet (nat (packetSize r)) (t_in (transport r))"
  shows "readNextPacket r = (Inr (), after_packet r)"
proof -
  define xs where "xs = t_in (transport r)"
  define sz where "sz = wire_size xs"
  from p have l: "8 \<le> length xs" "8 \<le> sz" "int sz \<le> packetSize r" "sz \<le> length xs"
    by (auto simp: wire_packet_def xs_def sz_def)
  from ok l have b: "roff r + 8 \<le> length (bufmem r)" "roff r + sz \<le> length (bufmem r)"
    by (auto simp: rbuf_ok_def headerSize_def)
  define r1 where "r1 = r\<lparr>transport := (transport r)\<lparr>t_in := drop 8 xs\<rparr>,
      bufmem := put_at (roff r) (take 8 xs) (bufmem r)\<rparr>"
  have s1: "read_rbuf 0 headerSize r = (Inr (), r1)"
    using l b by (simp add: read_rbuf_exact headerSize_def r1_def xs_def)
  have rb: "rbyte r1 i = xs ! i" if "i < 8" for i
    using that l b nth_put_at [of i "take 8 xs" "roff r" "bufmem r"] by (simp add: rbyte_def r1_def)
  have h: "unat (h_Size (packet_header r1)) = sz"
    by (simp add: packet_header_def rb sz_def wire_size_def)
  have tk: "take 8 xs @ take (sz - 8) (drop 8 xs) = take sz xs"
    using l by (metis add_diff_inverse_nat linorder_not_less take_add)
  have s2: "read_rbuf headerSize sz r1 = (Inr (), r1\<lparr>transport := (transport r)\<lparr>t_in := drop sz xs\<rparr>,
      bufmem := put_at (roff r) (take sz xs) (bufmem r)\<rparr>)"
    using l b put_at_append [of "roff r" "take 8 xs" "take (sz - 8) (drop 8 xs)" "bufmem r"]
    by (simp add: read_rbuf_exact headerSize_def r1_def tk)
  have hu: "uint (h_Size (packet_header r1)) = int sz"
    by (metis h uint_nat)
  have hs: "h_Status (packet_header r1) = xs ! 1" "h_PacketType (packet_header r1) = xs ! 0"
    by (simp_all add: packet_header_def rb)
  have ps: "packetSize r1 = packetSize r" by (simp add: r1_def)
  have "readNextPacket r = (Inr (), r1\<lparr>transport := (transport r)\<lparr>t_in := drop sz xs\<rparr>,
      bufmem := put_at (roff r) (take sz xs) (bufmem r), rpos := headerSize, rsize := sz,
      final := (xs ! 1 \<noteq> 0), rPacketType := xs ! 0\<rparr>)"
    unfolding readNextPacket_def gthen_def gbind_Inr [where m = "read_rbuf 0 headerSize", OF s1]
    using l(2,3) s2 by (simp add: Let_def h hu hs ps headerSize_def)
  then show ?thesis
    by (simp add: after_packet_def r1_def headerSize_def Let_def flip: xs_def sz_def)
qed

lemma readNextPacket_bad:
  assumes ok: "rbuf_ok r" and p: "\<not> wire_packet (nat (packetSize r)) (t_in (transport r))"
  shows "\<exists>e r'. readNextPacket r = (Inl (Err e), r')"
proof -
  define xs where "xs = t_in (transport r)"
  define sz where "sz = wire_size xs"
  from ok have b: "roff r + 8 \<le> length (bufmem r)" by (simp add: rbuf_ok_def headerSize_def)
  show ?thesis
  proof (cases "8 \<le> length xs")
    case False
    with b have "\<exists>e r'. read_rbuf 0 headerSize r = (Inl (Err e), r')"
      by (auto simp: read_rbuf_exact headerSize_def short_read_def simp flip: xs_def)
    then show ?thesis unfolding readNextPacket_def gthen_def by (force simp: gbind_def)
  next
    case True
    define r1 where "r1 = r\<lparr>transport := (transport r)\<lparr>t_in := drop 8 xs\<rparr>,
      bufmem := put_at (roff r) (take 8 xs) (bufmem r)\<rparr>"
    have s1: "read_rbuf 0 headerSize r = (Inr (), r1)"
      using True b by (simp add: read_rbuf_exact headerSize_def r1_def xs_def)
    have rb: "rbyte r1 i = xs ! i" if "i < 8" for i
      using that True b nth_put_at [of i "take 8 xs" "roff r" "bufmem r"]
      by (simp add: rbyte_def r1_def)
    have h: "unat (h_Size (packet_header r1)) = sz"
      by (simp add: packet_header_def rb sz_def wire_size_def)
    have hu: "uint (h_Size (packet_header r1)) = int sz"
      by (metis h uint_nat)
    have r1: "packetSize r1 = packetSize r" "roff r1 = roff r" "length (bufmem r1) = length (bufmem r)"
      "t_in (transport r1) = drop 8 xs"
      using True b by (simp_all add: r1_def)
    have s2: "\<exists>e r'. read_rbuf headerSize sz r1 = (Inl (Err e), r')"
      if "8 \<le> sz" "int sz \<le> packetSize r"
    proof -
      have "length xs < sz" using p True that
        by (auto simp: wire_packet_def simp flip: xs_def sz_def)
      moreover have "roff r + sz \<le> length (bufmem r)"
        using ok that by (auto simp: rbuf_ok_def)
      ultimately show ?thesis using that True
        by (auto simp: read_rbuf_exact r1 headerSize_def short_read_def)
    qed
    show ?thesis
      unfolding readNextPacket_def gthen_def gbind_Inr [where m = "read_rbuf 0 headerSize", OF s1]
      using s2 by (force simp: Let_def h hu r1 headerSize_def gbind_def)
  qed
qed


text \<open>No packet of the message is empty.\<close>

function dense :: "nat \<Rightarrow> bytes \<Rightarrow> bool" where
  "dense mx xs \<longleftrightarrow>
     (wire_packet mx xs \<longrightarrow>
        8 < wire_size xs \<and> (xs ! 1 \<noteq> 0 \<or> dense mx (drop (wire_size xs) xs)))"
  by pat_completeness auto
termination
  by (relation "measure (\<lambda>(mx, xs). length xs)") (auto simp: wire_packet_def)

declare dense.simps [simp del]

definition rok :: "tdsBuffer \<Rightarrow> bool" where
  "rok r \<longleftrightarrow> rinv r \<and> (final r \<or> dense (nat (packetSize r)) (t_in (transport r)))"

lemma after_packet_stream:
  assumes ok: "rbuf_ok r" and p: "wire_packet (nat (packetSize r)) (t_in (transport r))"
  shows "rinv (after_packet r)"
    and "stream (after_packet r) = payload (nat (packetSize r)) (t_in (transport r))"
    and "length (t_in (transport (after_packet r))) < length (t_in (transport r))"
    and "pending (after_packet r) = wire_body (t_in (transport r))"
proof -
  define xs where "xs = t_in (transport r)"
  from p have l: "8 \<le> wire_size xs" "int (wire_size xs) \<le> packetSize r" "wire_size xs \<le> length xs"
    by (auto simp: wire_packet_def xs_def)
  with ok have b: "roff r + wire_size xs \<le> length (bufmem r)"
    by (auto simp: rbuf_ok_def headerSize_def)
  show "rinv (after_packet r)"
    using ok l b by (simp add: rinv_def rbuf_ok_def after_packet_def Let_def flip: xs_def)
  have "drop 8 (take (wire_size xs) xs) = take (wire_size xs - 8) (drop 8 xs)"
    by (simp add: drop_take)
  with l b show pe: "pending (after_packet r) = wire_body (t_in (transport r))"
    by (simp add: pending_def after_packet_def put_at_def wire_body_def Let_def flip: xs_def)
  show "stream (after_packet r) = payload (nat (packetSize r)) (t_in (transport r))"
    unfolding stream_def pe using p
    by (subst payload.simps) (simp add: after_packet_def Let_def)
  show "length (t_in (transport (after_packet r))) < length (t_in (transport r))"
    using l by (simp add: after_packet_def Let_def flip: xs_def)
qed

lemma after_packet_rok:
  assumes "rok r" "\<not> final r" "wire_packet (nat (packetSize r)) (t_in (transport r))"
  shows "rok (after_packet r)" "rpos (after_packet r) < rsize (after_packet r)"
  using assms after_packet_stream(1) [of r]
  by (auto simp: rok_def rinv_def dense.simps [of _ "t_in (transport r)"] after_packet_def Let_def)

text \<open>Where the next byte comes from.\<close>

lemma ensure_packet_cases:
  assumes "rok r"
  obtains (here) "ensure_packet r = (Inr (), r)" "rpos r < rsize r"
  | (next_packet) r' where "ensure_packet r = (Inr (), r')" "rok r'" "rpos r' < rsize r'"
      "stream r' = stream r" "length (t_in (transport r')) < length (t_in (transport r))"
  | (stop) e r' where "ensure_packet r = (Inl (Err e), r')" "stream r = []"
proof (cases "rpos r = rsize r")
  case False
  with assms have "ensure_packet r = (Inr (), r)" "rpos r < rsize r"
    by (auto simp: ensure_packet_def rok_def rinv_def)
  then show ?thesis by (rule here)
next
  case True
  then have pe: "pending r = []" by (simp add: pending_def)
  have ok: "rbuf_ok r" using assms by (simp add: rok_def rinv_def)
  show ?thesis
  proof (cases "final r")
    case f: True
    with True pe show ?thesis by (intro stop) (auto simp: ensure_packet_def stream_def)
  next
    case f: False
    show ?thesis
    proof (cases "wire_packet (nat (packetSize r)) (t_in (transport r))")
      case p: True
      with f True show ?thesis
        using readNextPacket_ok [OF ok p] after_packet_stream [OF ok p] after_packet_rok [OF assms f p]
        by (intro next_packet) (auto simp: ensure_packet_def stream_def pe)
    next
      case p: False
      then obtain e r' where "readNextPacket r = (Inl (Err e), r')"
        using readNextPacket_bad [OF ok] by blast
      with f True p show ?thesis
        by (intro stop) (auto simp: ensure_packet_def stream_def pe payload.simps)
    qed
  qed
qed

lemma stream_advance_rinv:
  assumes "rinv r" "rpos r + k \<le> rsize r"
  shows "stream r = take k (drop (roff r + rpos r) (bufmem r)) @ stream (r\<lparr>rpos := rpos r + k\<rparr>)"
    and "rinv (r\<lparr>rpos := rpos r + k\<rparr>)"
    and "roff r + rpos r + k \<le> length (bufmem r)"
proof -
  have "rsize r - rpos r = k + (rsize r - (rpos r + k))" using assms(2) by simp
  then have "pending r = take k (drop (roff r + rpos r) (bufmem r)) @ pending (r\<lparr>rpos := rpos r + k\<rparr>)"
    by (simp add: pending_def take_add ac_simps)
  then show "stream r = take k (drop (roff r + rpos r) (bufmem r)) @ stream (r\<lparr>rpos := rpos r + k\<rparr>)"
    by (simp add: stream_def)
qed (use assms in \<open>auto simp: rinv_def rbuf_ok_def\<close>)

lemma stream_advance:
  assumes "rok r" "rpos r + k \<le> rsize r"
  shows "stream r = take k (drop (roff r + rpos r) (bufmem r)) @ stream (r\<lparr>rpos := rpos r + k\<rparr>)"
    and "rok (r\<lparr>rpos := rpos r + k\<rparr>)"
    and "roff r + rpos r + k \<le> length (bufmem r)"
  using assms stream_advance_rinv [of r k] by (simp_all add: rok_def)

lemma Read_run:
  assumes "rok r" "rpos r < rsize r" "ensure_packet q = (Inr (), r)" 
  shows "Read n q = (Inr (take (min n (rsize r - rpos r)) (drop (roff r + rpos r) (bufmem r))),
            r\<lparr>rpos := rpos r + min n (rsize r - rpos r)\<rparr>)"
  using assms by (simp add: Read_def gthen_def Let_def rok_def rinv_def)

text \<open>\<open>Read\<close> delivers the stream in order, piece by piece, and ends with an error.\<close>

interpretation tds: byte_source Read stream rok "\<lambda>r. length (t_in (transport r))"
proof (unfold_locales, goal_cases)
  case (1 r n bs r')
  have main: "rok r' \<and> stream r = bs @ stream r' \<and> length bs \<le> n \<and> bs \<noteq> []
      \<and> length (t_in (transport r')) \<le> length (t_in (transport r))"
    if e: "ensure_packet r = (Inr (), q)" and q: "rok q" "rpos q < rsize q" "stream q = stream r"
      "length (t_in (transport q)) \<le> length (t_in (transport r))" for q
  proof -
    let ?k = "min n (rsize q - rpos q)"
    have k: "rpos q + ?k \<le> rsize q" "0 < ?k" using q(2) 1(2) by auto
    from 1(3) Read_run [OF q(1,2) e]
    have r': "bs = take ?k (drop (roff q + rpos q) (bufmem q))" "r' = q\<lparr>rpos := rpos q + ?k\<rparr>"
      by auto
    have "length bs = ?k"
      using stream_advance(3) [OF q(1) k(1)] unfolding r' length_take length_drop by linarith
    moreover have "stream q = bs @ stream r'" "rok r'" "transport r' = transport q"
      using stream_advance(1,2) [OF q(1) k(1)] by (simp_all add: r')
    ultimately show ?thesis using k q(3,4) by auto
  qed
  from 1(1) show ?case
  proof (cases rule: ensure_packet_cases)
    case here
    with 1(1) main show ?thesis by blast
  next
    case (next_packet q)
    with main [OF next_packet(1-4)] show ?thesis by auto
  next
    case (stop e q)
    with 1(3) show ?thesis by (simp add: Read_def gthen_def)
  qed
next
  case (2 r n e r')
  from 2(1) show ?case
  proof (cases rule: ensure_packet_cases)
    case here
    with 2(1,3) Read_run [of r r] show ?thesis by simp
  next
    case (next_packet q)
    with 2(3) Read_run [of q r] show ?thesis by simp
  next
    case (stop e' q)
    with 2(3) show ?thesis by (auto simp: Read_def gthen_def)
  qed
qed

text \<open>
  The same holds for messages with empty packets: \<open>Read\<close> then returns no bytes and no error, but it has consumed a
  packet. \<open>ReadByte\<close> has no such luck, which is why the parsers below are about buffers that are \<open>rok\<close>.
\<close>

lemma ensure_packet_rinv:
  assumes "rinv r"
  obtains (here) "ensure_packet r = (Inr (), r)" "rpos r < rsize r"
  | (next_packet) "ensure_packet r = (Inr (), after_packet r)" "rinv (after_packet r)" "stream (after_packet r) = stream r"
      "length (t_in (transport (after_packet r))) < length (t_in (transport r))"
  | (stop) e r' where "ensure_packet r = (Inl (Err e), r')" "stream r = []"
proof (cases "rpos r = rsize r")
  case False
  with assms have "ensure_packet r = (Inr (), r)" "rpos r < rsize r" by (auto simp: ensure_packet_def rinv_def)
  then show ?thesis by (rule here)
next
  case True
  then have pe: "pending r = []" by (simp add: pending_def)
  have ok: "rbuf_ok r" using assms by (simp add: rinv_def)
  consider "final r" | "\<not> final r" "wire_packet (nat (packetSize r)) (t_in (transport r))"
    | "\<not> final r" "\<not> wire_packet (nat (packetSize r)) (t_in (transport r))" by blast
  then show ?thesis
  proof cases
    case 1
    with True pe show ?thesis by (intro stop) (auto simp: ensure_packet_def stream_def)
  next
    case 2
    with True readNextPacket_ok [OF ok 2(2)] after_packet_stream [OF ok 2(2)] show ?thesis
      by (intro next_packet) (auto simp: ensure_packet_def stream_def pe)
  next
    case 3
    obtain e r' where "readNextPacket r = (Inl (Err e), r')" using readNextPacket_bad [OF ok 3(2)] by blast
    with 3 True show ?thesis by (intro stop) (auto simp: ensure_packet_def stream_def pe payload.simps)
  qed
qed

lemma Read_rinv:
  assumes "rinv q" "ensure_packet r = (Inr (), q)"
  shows "\<exists>bs. Read n r = (Inr bs, q\<lparr>rpos := rpos q + length bs\<rparr>) \<and> rpos q + length bs \<le> rsize q \<and> length bs \<le> n
     \<and> stream q = bs @ stream (q\<lparr>rpos := rpos q + length bs\<rparr>) \<and> (bs = [] \<longrightarrow> n = 0 \<or> rpos q = rsize q)"
proof -
  let ?k = "min n (rsize q - rpos q)" and ?bs = "take (min n (rsize q - rpos q)) (drop (roff q + rpos q) (bufmem q))"
  have k: "rpos q + ?k \<le> rsize q" using assms(1) by (auto simp: rinv_def)
  note a = stream_advance_rinv [OF assms(1) k]
  have l: "length ?bs = ?k" using a(3) unfolding length_take length_drop by linarith
  have "Read n r = (Inr ?bs, q\<lparr>rpos := rpos q + ?k\<rparr>)"
    using assms by (simp add: Read_def gthen_def Let_def rinv_def)
  moreover have "?bs = [] \<longrightarrow> n = 0 \<or> rpos q = rsize q" using l assms(1) by (auto simp: rinv_def simp flip: length_0_conv)
  ultimately show ?thesis using a(1) k l by (intro exI [of _ ?bs]) simp
qed

interpretation tds_any: byte_source Read stream rinv "\<lambda>r. length (t_in (transport r))"
proof (unfold_locales, goal_cases)
  case (1 r n bs r')
  from 1(1) show ?case
  proof (cases rule: ensure_packet_rinv)
    case here
    with Read_rinv [OF 1(1) here(1), of n] 1 stream_advance_rinv(2) [OF 1(1), of "length bs"] show ?thesis by auto
  next
    case next_packet
    with Read_rinv [OF next_packet(2,1), of n] 1 stream_advance_rinv(2) [OF next_packet(2), of "length bs"] show ?thesis by auto
  next
    case (stop e q)
    with 1(3) show ?thesis by (simp add: Read_def gthen_def)
  qed
next
  case (2 r n e r')
  from 2(1) show ?case
  proof (cases rule: ensure_packet_rinv)
    case here
    with Read_rinv [OF 2(1) here(1), of n] 2(3) show ?thesis by auto
  next
    case next_packet
    with Read_rinv [OF next_packet(2,1), of n] 2(3) show ?thesis by auto
  next
    case (stop e' q)
    with 2(3) show ?thesis by (auto simp: Read_def gthen_def)
  qed
qed

interpretation tds_limited: byte_source "limited_read Read"
  "\<lambda>(N, r). take (nat N) (stream r)" "\<lambda>(N, r). rok r" "\<lambda>(N, r). length (t_in (transport r))"
  by (rule tds.limited_source)


section \<open>Parsers over a buffer\<close>

text \<open>
  \<open>reads m xs x\<close>: on any buffer whose stream starts with \<open>xs\<close>, however it is cut into
  packets, \<open>m\<close> returns \<open>x\<close> and consumes exactly \<open>xs\<close>.
\<close>

definition reads :: "(tdsBuffer, 'a) go \<Rightarrow> bytes \<Rightarrow> 'a \<Rightarrow> bool" where
  "reads m xs x \<longleftrightarrow>
     (\<forall>r ys. rok r \<longrightarrow> stream r = xs @ ys \<longrightarrow>
        (\<exists>r'. m r = (Inr x, r') \<and> rok r' \<and> stream r' = ys))"

named_theorems reads_intro

lemma readsD:
  "reads m xs x \<Longrightarrow> rok r \<Longrightarrow> stream r = xs @ ys \<Longrightarrow>
     \<exists>r'. m r = (Inr x, r') \<and> rok r' \<and> stream r' = ys"
  by (simp add: reads_def)

lemma reads_ret: "reads (gret x) [] x"
  by (simp add: reads_def gret_run)

lemma reads_bind:
  "reads m xs x \<Longrightarrow> reads (f x) ys y \<Longrightarrow> reads (gbind m f) (xs @ ys) y"
  unfolding reads_def
proof (intro allI impI)
  fix r zs
  assume m: "\<forall>r ys. rok r \<longrightarrow> stream r = xs @ ys \<longrightarrow> (\<exists>r'. m r = (Inr x, r') \<and> rok r' \<and> stream r' = ys)"
    and f: "\<forall>r zs. rok r \<longrightarrow> stream r = ys @ zs \<longrightarrow> (\<exists>r'. f x r = (Inr y, r') \<and> rok r' \<and> stream r' = zs)"
    and r: "rok r" "stream r = (xs @ ys) @ zs"
  from m r obtain r' where "m r = (Inr x, r')" "rok r'" "stream r' = ys @ zs" by auto
  with f show "\<exists>r'. gbind m f r = (Inr y, r') \<and> rok r' \<and> stream r' = zs" by auto
qed

lemma reads_then: "reads m xs x \<Longrightarrow> reads k ys y \<Longrightarrow> reads (gthen m k) (xs @ ys) y"
  by (simp add: gthen_def reads_bind)

lemma or_panic_Inr: "m s = (Inr x, s') \<Longrightarrow> or_panic m s = (Inr x, s')"
  by (simp add: or_panic_def)

lemma reads_or_panic: "reads m xs x \<Longrightarrow> reads (or_panic m) xs x"
  unfolding reads_def by (metis or_panic_Inr)

lemma reads_map: "reads m xs x \<Longrightarrow> reads (gbind m (\<lambda>y. gret (f y))) xs (f x)"
  using reads_bind [of m xs x "\<lambda>y. gret (f y)", OF _ reads_ret] by simp

lemma reads_io_ReadFull: "length xs = n \<Longrightarrow> reads (io_ReadFull Read n) xs xs"
  using tds.ReadFull_some by (fastforce simp: reads_def)

lemma reads_ReadFull: "length xs = n \<Longrightarrow> reads (r_ReadFull n) xs xs"
  by (simp add: r_ReadFull_def reads_or_panic reads_io_ReadFull)

lemma reads_CopyN: "length xs = n \<Longrightarrow> reads (io_CopyN Read n) xs xs"
  using tds.CopyN_some by (fastforce simp: reads_def)

lemma reads_ReadByte: "reads ReadByte [b] b"
  unfolding reads_def
proof (intro allI impI)
  fix r ys assume r: "rok r" and st: "stream r = [b] @ ys"
  have main: "\<exists>r'. ReadByte r = (Inr b, r') \<and> rok r' \<and> stream r' = ys"
    if e: "ensure_packet r = (Inr (), q)" and q: "rok q" "rpos q < rsize q" "stream q = stream r" for q
  proof -
    from q(2) have k: "rpos q + 1 \<le> rsize q" by simp
    note adv = stream_advance [OF q(1) k]
    have "take 1 (drop (roff q + rpos q) (bufmem q)) = [rbyte q (rpos q)]"
      using adv(3) by (simp add: rbyte_def take_Suc_conv_app_nth)
    with adv(1) q(3) st have "rbyte q (rpos q) = b" "stream (q\<lparr>rpos := rpos q + 1\<rparr>) = ys" by auto
    with e adv(2,3) show ?thesis by (auto simp: ReadByte_def gthen_def)
  qed
  from r show "\<exists>r'. ReadByte r = (Inr b, r') \<and> rok r' \<and> stream r' = ys"
  proof (cases rule: ensure_packet_cases)
    case here
    with r main show ?thesis by blast
  next
    case (next_packet q)
    with main show ?thesis by blast
  next
    case (stop e q)
    with st show ?thesis by simp
  qed
qed

lemma reads_byte: "reads r_byte [b] b"
  by (simp add: r_byte_def reads_or_panic reads_ReadByte)

text \<open>The short cut of \<open>uint16\<close>, \<open>uint32\<close> and \<open>uint64\<close> agrees with \<open>ReadFull\<close>.\<close>

lemma reads_uint_bytes:
  assumes "length xs = n" "0 < n"
  shows "reads (r_uint n) xs (le_word xs)"
  unfolding reads_def
proof (intro allI impI)
  fix r ys assume r: "rok r" and st: "stream r = xs @ ys"
  have slow: "reads (gbind (r_ReadFull n) (\<lambda>buf. gret (le_word buf))) xs (le_word xs)"
    by (rule reads_map [where f = le_word, OF reads_ReadFull [OF assms(1)]])
  show "\<exists>r'. r_uint n r = (Inr (le_word xs), r') \<and> rok r' \<and> stream r' = ys"
  proof (cases "rsize r \<le> rpos r + (n - 1)")
    case True
    with readsD [OF slow r st] show ?thesis by (simp add: r_uint_def)
  next
    case False
    then have k: "rpos r + n \<le> rsize r" using assms(2) by simp
    note adv = stream_advance [OF r k]
    have "length (take n (drop (roff r + rpos r) (bufmem r))) = n" using adv(3) by simp
    with adv(1) st assms(1) have "take n (drop (roff r + rpos r) (bufmem r)) = xs"
      "stream (r\<lparr>rpos := rpos r + n\<rparr>) = ys"
      by (metis append_eq_append_conv)+
    with False adv(2,3) show ?thesis by (simp add: r_uint_def)
  qed
qed

lemma reads_uint:
  "8 * n = LENGTH('a) \<Longrightarrow> reads (r_uint n) (le_bytes n w) (w :: 'a::len word)"
  using reads_uint_bytes [of "le_bytes n w" n, where 'a = 'a] le_codec [of n w]
  by (cases n) simp_all

lemma reads_uint16: "reads r_uint16 (le_bytes 2 w) w"
  unfolding r_uint16_def by (rule reads_uint) simp

lemma reads_uint32: "reads r_uint32 (le_bytes 4 w) w"
  unfolding r_uint32_def by (rule reads_uint) simp

lemma reads_uint64: "reads r_uint64 (le_bytes 8 w) w"
  unfolding r_uint64_def by (rule reads_uint) simp

lemma reads_int32: "reads r_int32 (le_bytes 4 w) (sint (w :: u32))"
  unfolding r_int32_def by (rule reads_map [where f = "sint :: u32 \<Rightarrow> int", OF reads_uint32])

lemmas [reads_intro] = reads_ret reads_bind reads_then reads_ReadFull reads_CopyN reads_byte
  reads_uint16 reads_uint32 reads_uint64 reads_int32 reads_or_panic

end
