(* ===== verification/Tds_Writer.thy ===== *)
theory Tds_Writer
  imports Tds_Reader
begin

text \<open>
  What the writing half of \<open>tdsBuffer\<close> sends: the message cut into packets of the packet
  size, with running sequence numbers and the end-of-message bit on the last. A buffer in a
  message is a \<open>byte_sink\<close>; what \<open>FinishPacket\<close> leaves on the wire is read back by
  the reading half of another buffer.
\<close>


section \<open>The packets a message is cut into\<close>

text \<open>
  The specification of the writer: a message is cut into full bodies of \<open>k\<close> bytes and a
  rest of at most \<open>k\<close> bytes that is still in the buffer.
\<close>

function chunks :: "nat \<Rightarrow> bytes \<Rightarrow> bytes list \<times> bytes" where
  "chunks k M =
     (if length M \<le> k \<or> k = 0 then ([], M)
      else (let (cs, r) = chunks k (drop k M) in (take k M # cs, r)))"
  by pat_completeness auto
termination
  by (relation "measure (\<lambda>(k, M). length M)") auto

declare chunks.simps [simp del]

lemma chunks_small [simp]: "length M \<le> k \<Longrightarrow> chunks k M = ([], M)"
  by (simp add: chunks.simps)

lemma chunks_concat: "chunks k M = (cs, r) \<Longrightarrow> concat cs @ r = M"
proof (induction k M arbitrary: cs r rule: chunks.induct)
  case (1 k M)
  show ?case
  proof (cases "length M \<le> k \<or> k = 0")
    case True
    with 1(2) show ?thesis by (auto simp: chunks.simps [of k M])
  next
    case False
    then obtain cs' where "chunks k (drop k M) = (cs', r)" "cs = take k M # cs'"
      using 1(2) by (auto simp: chunks.simps [of k M] split: prod.splits)
    with 1(1) [OF False] show ?thesis by simp
  qed
qed

lemma chunks_lengths:
  "0 < k \<Longrightarrow> chunks k M = (cs, r) \<Longrightarrow> (\<forall>c \<in> set cs. length c = k) \<and> length r \<le> k"
proof (induction k M arbitrary: cs r rule: chunks.induct)
  case (1 k M)
  show ?case
  proof (cases "length M \<le> k")
    case True
    with 1(3) show ?thesis by simp
  next
    case False
    with 1(2) obtain cs' where "chunks k (drop k M) = (cs', r)" "cs = take k M # cs'"
      using 1(3) by (auto simp: chunks.simps [of k M] split: prod.splits)
    with 1(1,2) False show ?thesis by auto
  qed
qed

text \<open>Appending to a message only touches the rest that is still in the buffer.\<close>

lemma chunks_append:
  "0 < k \<Longrightarrow> chunks k M = (cs, r) \<Longrightarrow> chunks k (r @ p) = (cs', r') \<Longrightarrow>
   chunks k (M @ p) = (cs @ cs', r')"
proof (induction k M arbitrary: cs r rule: chunks.induct)
  case (1 k M)
  show ?case
  proof (cases "length M \<le> k")
    case True
    with 1(3,4) show ?thesis by simp
  next
    case False
    with 1(2) obtain cs0 where cs0: "chunks k (drop k M) = (cs0, r)" "cs = take k M # cs0"
      using 1(3) by (auto simp: chunks.simps [of k M] split: prod.splits)
    have "chunks k (drop k M @ p) = (cs0 @ cs', r')"
      using 1(1) [OF _ 1(2) cs0(1) 1(4)] False 1(2) by simp
    with False 1(2) cs0 show ?thesis by (simp add: chunks.simps [of k "M @ p"])
  qed
qed

section \<open>The writer\<close>

definition packet_bytes :: "byte \<Rightarrow> byte \<Rightarrow> bytes \<Rightarrow> byte \<Rightarrow> byte \<Rightarrow> bytes \<Rightarrow> bytes" where
  "packet_bytes ptype status spid seq pad body =
     [ptype, status] @ be_bytes 2 (word_of_nat (8 + length body) :: u16) @ spid @ [seq, pad] @ body"

text \<open>Packets with the sequence numbers \<open>seq\<close>, \<open>seq + 1\<close>, \dots (wrapping at 256).\<close>

primrec packets :: "byte \<Rightarrow> byte \<Rightarrow> bytes \<Rightarrow> byte \<Rightarrow> byte \<Rightarrow> bytes list \<Rightarrow> bytes list" where
  "packets ptype status spid pad seq [] = []"
| "packets ptype status spid pad seq (c # cs) =
     packet_bytes ptype status spid seq pad c # packets ptype status spid pad (seq + 1) cs"

lemma packets_append:
  "packets t st sp pad seq (cs @ ds) =
     packets t st sp pad seq cs @ packets t st sp pad (seq + word_of_nat (length cs)) ds"
  by (induction cs arbitrary: seq) (auto simp: ac_simps)

text \<open>The writer can run: the packet size leaves room for a body and fits the array.\<close>

definition wbuf_ok :: "tdsBuffer \<Rightarrow> bool" where
  "wbuf_ok w \<longleftrightarrow> 9 \<le> packetSize w \<and> packetSize w \<le> int (wlen w) \<and> wlen w \<le> length (bufmem w)
     \<and> afterFirst w = None \<and> (\<forall>e \<in> set (t_wres (transport w)). e = None)"

definition body_room :: "tdsBuffer \<Rightarrow> nat" where
  "body_room w = nat (packetSize w) - 8"

definition spid_of :: "tdsBuffer \<Rightarrow> bytes" where
  "spid_of w = [bufmem w ! 4, bufmem w ! 5]"

text \<open>
  \<open>writing w0 M w\<close>: the message \<open>M\<close> was written since \<open>BeginPacket\<close> left the buffer
  as \<open>w0\<close>. All full packets are sent, the rest is in the buffer.
\<close>

definition sending :: "tdsBuffer \<Rightarrow> bytes list \<Rightarrow> bytes \<Rightarrow> tdsBuffer \<Rightarrow> bool" where
  "sending w0 cs r w \<longleftrightarrow> wbuf_ok w \<and> packetSize w = packetSize w0 \<and> wlen w = wlen w0
     \<and> wPacketType w = wPacketType w0
     \<and> bufmem w ! 1 = bufmem w0 ! 1 \<and> spid_of w = spid_of w0 \<and> bufmem w ! 7 = bufmem w0 ! 7
     \<and> t_out (transport w) = t_out (transport w0)
         @ packets (wPacketType w0) (bufmem w0 ! 1) (spid_of w0) (bufmem w0 ! 7) 1 cs
     \<and> wPacketSeq w = 1 + word_of_nat (length cs)
     \<and> wpos w = 8 + length r \<and> length r \<le> body_room w0 \<and> take (length r) (drop 8 (bufmem w)) = r"

definition writing :: "tdsBuffer \<Rightarrow> bytes \<Rightarrow> tdsBuffer \<Rightarrow> bool" where
  "writing w0 M w \<longleftrightarrow> (case chunks (body_room w0) M of (cs, r) \<Rightarrow> sending w0 cs r w)"

lemma take8: "take (8 + n) (a#b#c#d#e#f#g#h#m) = a#b#c#d#e#f#g#h#take n m"
  by (simp add: eval_nat_numeral)

lemma split8:
  assumes "8 \<le> length xs"
  obtains b0 b1 b2 b3 b4 b5 b6 b7 m where "xs = b0#b1#b2#b3#b4#b5#b6#b7#m"
  using assms by (auto simp: eval_nat_numeral Suc_le_length_iff)

lemma flush_ok:
  assumes ok: "wbuf_ok w" and pos: "8 \<le> wpos w" "wpos w \<le> wlen w"
    and body: "take (wpos w - 8) (drop 8 (bufmem w)) = r"
  shows "\<exists>w'. flush w = (Inr (), w') \<and> wbuf_ok w' \<and> wpos w' = 8
     \<and> packetSize w' = packetSize w \<and> wlen w' = wlen w \<and> wPacketType w' = wPacketType w
     \<and> wPacketSeq w' = wPacketSeq w + 1 \<and> bufmem w' ! 1 = bufmem w ! 1
     \<and> spid_of w' = spid_of w \<and> bufmem w' ! 7 = bufmem w ! 7
     \<and> t_out (transport w') = t_out (transport w) @
         [packet_bytes (wPacketType w) (bufmem w ! 1) (spid_of w) (wPacketSeq w) (bufmem w ! 7) r]"
proof -
  from ok have l: "9 \<le> wlen w" "wlen w \<le> length (bufmem w)" "afterFirst w = None"
    by (auto simp: wbuf_ok_def)
  from l have "8 \<le> length (bufmem w)" by simp
  then obtain b0 b1 b2 b3 b4 b5 b6 b7 m where m: "bufmem w = b0#b1#b2#b3#b4#b5#b6#b7#m"
    by (rule split8)
  have w: "wpos w = 8 + length r" "take (length r) m = r"
    using pos l body by (auto simp: m)
  have hd: "be_bytes 2 x = [be_bytes 2 x ! 0, be_bytes 2 x ! 1]" for x :: u16
    by (simp add: be_bytes_def)
  let ?sz = "be_bytes 2 (word_of_nat (wpos w) :: u16)"
  have p2: "put_at 2 ?sz (wPacketType w # b1 # b2 # b3 # b4 # b5 # b6 # b7 # m) =
      wPacketType w # b1 # ?sz ! 0 # ?sz ! 1 # b4 # b5 # b6 # b7 # m"
    unfolding put_at_def length_be_bytes by (subst hd) simp
  let ?mem = "wPacketType w # b1 # ?sz ! 0 # ?sz ! 1 # b4 # b5 # wPacketSeq w # b7 # m"
  have tk: "take (wpos w) ?mem =
      packet_bytes (wPacketType w) b1 [b4, b5] (wPacketSeq w) b7 r"
    unfolding w(1) take8 packet_bytes_def w(2) by (subst (3) hd) simp
  have cw: "conn_write p (transport w) =
      (None, (transport w)\<lparr>t_out := t_out (transport w) @ [p], t_wres := tl (t_wres (transport w))\<rparr>)" for p
    using ok by (auto simp: conn_write_def wbuf_ok_def split: list.splits option.splits)
  have "flush w = (Inr (), w\<lparr>bufmem := ?mem,
      transport := (transport w)\<lparr>t_out := t_out (transport w) @ [take (wpos w) ?mem],
        t_wres := tl (t_wres (transport w))\<rparr>,
      afterFirst := None, wpos := 8, wPacketSeq := wPacketSeq w + 1\<rparr>)"
    using l pos by (simp add: flush_def m p2 cw Let_def)
  moreover have "set (tl xs) \<subseteq> set xs" for xs :: "err option list" by (cases xs) auto
  ultimately show ?thesis
    using ok unfolding tk by (auto simp: wbuf_ok_def spid_of_def m)
qed

lemma flush_sending:
  assumes "sending w0 cs r w"
  shows "\<exists>w'. flush w = (Inr (), w') \<and> sending w0 (cs @ [r]) [] w'"
proof -
  from assms have "wbuf_ok w" "8 \<le> wpos w" "wpos w \<le> wlen w" "take (wpos w - 8) (drop 8 (bufmem w)) = r"
    by (auto simp: sending_def wbuf_ok_def body_room_def)
  from flush_ok [OF this] assms show ?thesis
    by (auto simp: sending_def packets_append)
qed

text \<open>Storing bytes in the room that is left.\<close>

lemma sending_store:
  assumes s: "sending w0 cs r w" and q: "length r + length q \<le> body_room w0"
  shows "sending w0 cs (r @ q) (w\<lparr>bufmem := put_at (wpos w) q (bufmem w), wpos := wpos w + length q\<rparr>)"
proof -
  from s q have l: "wpos w = 8 + length r" "8 + length r + length q \<le> length (bufmem w)"
    "take (length r) (drop 8 (bufmem w)) = r"
    by (auto simp: sending_def wbuf_ok_def body_room_def)
  let ?m = "put_at (wpos w) q (bufmem w)"
  have n: "?m ! i = bufmem w ! i" if "i < 8" for i
    using that l by (simp add: put_at_def nth_append)
  have "take (8 + length r + length q) ?m = take (8 + length r) (bufmem w) @ q"
    using take_put_at_end [of "8 + length r" q "bufmem w"] l by simp
  then have "drop 8 (take (8 + length r + length q) ?m) = r @ q"
    using l by (simp add: drop_take)
  then have "take (length r + length q) (drop 8 ?m) = r @ q"
    by (simp add: drop_take ac_simps)
  with s q l n show ?thesis
    by (simp add: sending_def wbuf_ok_def spid_of_def)
qed

text \<open>\<open>Write\<close> returns, and sends the full chunks of what is pending and what is new.\<close>

lemma Write_loop_ok:
  assumes "sending w0 cs r w" "chunks (body_room w0) (r @ p) = (ds, q)" "0 < body_room w0"
  shows "\<exists>w'. Write_loop p n w = Some (Inr (n + length p), w') \<and> sending w0 (cs @ ds) q w'"
  using assms
proof (induction "length r + length p" arbitrary: cs r p n w ds rule: less_induct)
  case less
  let ?k = "body_room w0" and ?c = "min (body_room w0 - length r) (length p)"
  let ?w = "w\<lparr>bufmem := put_at (wpos w) (take ?c p) (bufmem w), wpos := wpos w + ?c\<rparr>"
  from less.prems(1) have l: "wpos w = 8 + length r" "length r \<le> ?k" "packetSize w = packetSize w0"
    "int (wpos w) \<le> packetSize w" "packetSize w \<le> int (length (bufmem w))"
    by (auto simp: sending_def wbuf_ok_def body_room_def)
  then have c: "nat (packetSize w) - wpos w = ?k - length r" by (simp add: body_room_def)
  have s1: "sending w0 cs (r @ take ?c p) ?w"
    using sending_store [OF less.prems(1), of "take ?c p"] l(2) by simp
  show ?case
  proof (cases "length r + length p \<le> ?k")
    case True
    then have "?c = length p" by simp
    with True less.prems(2) l c s1 show ?thesis
      by (subst Write_loop.simps) (auto simp: Let_def)
  next
    case False
    then have c': "?c = ?k - length r" "?c \<noteq> length p" using l(2) by auto
    obtain ds' where d: "chunks ?k (drop ?c p) = (ds', q)" "ds = (r @ take ?c p) # ds'"
      using less.prems(2,3) False l(2) c'
      by (auto simp: chunks.simps [of ?k "r @ p"] split: prod.splits)
    obtain w2 where w2: "flush ?w = (Inr (), w2)" "sending w0 (cs @ [r @ take ?c p]) [] w2"
      using flush_sending [OF s1] by blast
    have "\<exists>w'. Write_loop (drop ?c p) (n + ?c) w2 = Some (Inr (n + ?c + length (drop ?c p)), w')
        \<and> sending w0 ((cs @ [r @ take ?c p]) @ ds') q w'"
      using less.prems(3) False l(2) c' d by (intro less.hyps [OF _ w2(2)]) auto
    moreover have "Write_loop p n w = Write_loop (drop ?c p) (n + ?c) w2"
      using l c c' w2(1) by (subst Write_loop.simps) (auto simp: Let_def)
    ultimately show ?thesis using c' by (simp add: d)
  qed
qed

lemma body_room_pos: "writing w0 M w \<Longrightarrow> 0 < body_room w0"
  by (auto simp: writing_def sending_def wbuf_ok_def body_room_def split: prod.splits)

text \<open>A \<open>tdsBuffer\<close> in a message is a sink.\<close>

interpretation tds_sink: byte_sink Write "writing w0" for w0
proof
  fix M p w assume w: "writing w0 M w"
  obtain cs r where cr: "chunks (body_room w0) M = (cs, r)" by fastforce
  obtain ds q where dq: "chunks (body_room w0) (r @ p) = (ds, q)" by fastforce
  from w cr have s: "sending w0 cs r w" by (simp add: writing_def)
  from Write_loop_ok [OF s dq body_room_pos [OF w], of 0]
    chunks_append [OF body_room_pos [OF w] cr dq]
  show "\<exists>w'. Write p w = (Inr (length p), w') \<and> writing w0 (M @ p) w'"
    by (auto simp: Write_def writing_def)
qed

lemma WriteByte_writing:
  assumes w: "writing w0 M w"
  shows "\<exists>w'. WriteByte b w = (Inr (), w') \<and> writing w0 (M @ [b]) w'"
proof -
  let ?k = "body_room w0"
  obtain cs r where cr: "chunks ?k M = (cs, r)" by fastforce
  with w have s: "sending w0 cs r w" by (simp add: writing_def)
  note k = body_room_pos [OF w]
  have st: "\<exists>w'. (if wlen v \<le> wpos v then (Inl (RuntimePanic ''index out of range''), v)
            else (Inr (), v\<lparr>bufmem := (bufmem v)[wpos v := b], wpos := wpos v + 1\<rparr>)) = (Inr (), w')
          \<and> sending w0 ds (q @ [b]) w'"
    if v: "sending w0 ds q v" and q: "length q < ?k" for ds q v
  proof -
    from v q have "wpos v < wlen v" "wpos v < length (bufmem v)"
      by (auto simp: sending_def wbuf_ok_def body_room_def)
    then have "put_at (wpos v) [b] (bufmem v) = (bufmem v)[wpos v := b]"
      by (simp add: put_at_def upd_conv_take_nth_drop)
    with sending_store [OF v, of "[b]"] q \<open>wpos v < wlen v\<close> show ?thesis by auto
  qed
  show ?thesis
  proof (cases "length r = ?k")
    case True
    then have full: "int (wpos w) = packetSize w" using s
      by (auto simp: sending_def wbuf_ok_def body_room_def)
    obtain w2 where w2: "flush w = (Inr (), w2)" "sending w0 (cs @ [r]) [] w2"
      using flush_sending [OF s] by blast
    have "chunks ?k (r @ [b]) = ([r], [b])"
      using True k by (simp add: chunks.simps [of ?k "r @ [b]"])
    with chunks_append [OF k cr] have "chunks ?k (M @ [b]) = (cs @ [r], [b])" by blast
    with st [OF w2(2)] w2(1) full k show ?thesis
      by (auto simp: WriteByte_def gthen_def gbind_def writing_def)
  next
    case False
    with s have r: "length r < ?k" by (simp add: sending_def)
    then have "int (wpos w) \<noteq> packetSize w" "wpos w \<noteq> wlen w" using s
      by (auto simp: sending_def wbuf_ok_def body_room_def)
    moreover have "chunks ?k (M @ [b]) = (cs, r @ [b])"
      using chunks_append [OF k cr, of "[b]" "[]" "r @ [b]"] r by simp
    ultimately show ?thesis using st [OF s r]
      by (auto simp: WriteByte_def gthen_def gbind_def writing_def)
  qed
qed

end
