(* ===== verification/Tds_Message.thy ===== *)
theory Tds_Message
  imports Tds_Writer
begin

text \<open>
  Whole messages: \<open>BeginPacket\<close>, writes and \<open>FinishPacket\<close> on one side,
  \<open>BeginRead\<close> and reads on the other. The properties of the packet layer are at the end.
\<close>


section \<open>Whole messages\<close>

definition message :: "tdsBuffer \<Rightarrow> bytes \<Rightarrow> bytes list" where
  "message w0 M =
     (case chunks (body_room w0) M of (cs, r) \<Rightarrow>
        packets (wPacketType w0) (bufmem w0 ! 1) (spid_of w0) (bufmem w0 ! 7) 1 cs
        @ [packet_bytes (wPacketType w0) (bufmem w0 ! 1 OR 1) (spid_of w0)
             (1 + word_of_nat (length cs)) (bufmem w0 ! 7) r])"

text \<open>The buffer as \<open>BeginPacket\<close> leaves it.\<close>

definition begun :: "byte \<Rightarrow> bool \<Rightarrow> tdsBuffer \<Rightarrow> tdsBuffer" where
  "begun ptype resetSession w =
     w\<lparr>bufmem := (bufmem w)[1 := begin_status ptype resetSession],
       wpos := 8, wPacketSeq := 1, wPacketType := ptype\<rparr>"

lemma BeginPacket_writing:
  assumes "wbuf_ok w"
  shows "BeginPacket t rs w = (Inr (), begun t rs w)" "writing (begun t rs w) [] (begun t rs w)"
  using assms
  by (auto simp: BeginPacket_def begun_def wbuf_ok_def writing_def sending_def)

lemma FinishPacket_writing:
  assumes w: "writing w0 M w"
  shows "\<exists>w'. FinishPacket w = (Inr (), w') \<and> wbuf_ok w' \<and> packetSize w' = packetSize w0
     \<and> t_out (transport w') = t_out (transport w0) @ message w0 M"
proof -
  obtain cs r where cr: "chunks (body_room w0) M = (cs, r)" by fastforce
  with w have s: "sending w0 cs r w" by (simp add: writing_def)
  let ?w = "w\<lparr>bufmem := (bufmem w)[1 := (bufmem w ! 1) OR 1]\<rparr>"
  from s have l: "9 \<le> length (bufmem w)" "2 \<le> wlen w"
    by (auto simp: sending_def wbuf_ok_def)
  have "wbuf_ok ?w" "8 \<le> wpos ?w" "wpos ?w \<le> wlen ?w" "take (wpos ?w - 8) (drop 8 (bufmem ?w)) = r"
    using s by (auto simp: sending_def wbuf_ok_def body_room_def)
  from flush_ok [OF this] obtain w' where w': "flush ?w = (Inr (), w')" "wbuf_ok w'"
    "packetSize w' = packetSize ?w"
    "t_out (transport w') = t_out (transport ?w) @
       [packet_bytes (wPacketType ?w) (bufmem ?w ! 1) (spid_of ?w) (wPacketSeq ?w) (bufmem ?w ! 7) r]"
    by blast
  moreover have "bufmem ?w ! 1 = bufmem w0 ! 1 OR 1" "spid_of ?w = spid_of w0" "bufmem ?w ! 7 = bufmem w0 ! 7"
    using s l by (auto simp: sending_def spid_of_def)
  ultimately show ?thesis
    using s l by (auto simp: FinishPacket_def gthen_def message_def cr sending_def)
qed

text \<open>A sender: begin a packet, write, finish.\<close>

definition send :: "byte \<Rightarrow> bool \<Rightarrow> (tdsBuffer, unit) go \<Rightarrow> (tdsBuffer, unit) go" where
  "send ptype resetSession body = gthen (BeginPacket ptype resetSession) (gthen body FinishPacket)"

lemma send_message:
  assumes "wbuf_ok w" and "\<And>w0. tds_sink.emits w0 body M ()"
  shows "\<exists>w'. send t rs body w = (Inr (), w') \<and> wbuf_ok w' \<and> packetSize w' = packetSize w
     \<and> t_out (transport w') = t_out (transport w) @ message (begun t rs w) M"
proof -
  obtain w1 where w1: "body (begun t rs w) = (Inr (), w1)" "writing (begun t rs w) M w1"
    using tds_sink.emitsD [OF assms(2) BeginPacket_writing(2) [OF assms(1)]] by auto
  from FinishPacket_writing [OF w1(2)] BeginPacket_writing(1) [OF assms(1)] w1(1)
  show ?thesis by (auto simp: send_def gthen_def begun_def)
qed

section \<open>Reading back what was sent\<close>

lemma wire_packet_bytes:
  assumes "length spid = 2" "length body + 8 < 2 ^ 16"
  shows "wire_size (packet_bytes t st spid sq pad body @ rest) = 8 + length body"
    and "(packet_bytes t st spid sq pad body @ rest) ! 0 = t"
    and "(packet_bytes t st spid sq pad body @ rest) ! 1 = st"
    and "length (packet_bytes t st spid sq pad body) = 8 + length body"
    and "wire_body (packet_bytes t st spid sq pad body @ rest) = body"
    and "drop (8 + length body) (packet_bytes t st spid sq pad body @ rest) = rest"
proof -
  obtain s1 s2 where sp: "spid = [s1, s2]"
    using assms(1) by (auto simp: numeral_2_eq_2 length_Suc_conv)
  let ?n = "word_of_nat (8 + length body) :: u16"
  have hd: "be_bytes 2 ?n = [be_bytes 2 ?n ! 0, be_bytes 2 ?n ! 1]" by (simp add: be_bytes_def)
  have pb: "packet_bytes t st spid sq pad body @ rest =
      t # st # be_bytes 2 ?n ! 0 # be_bytes 2 ?n ! 1 # s1 # s2 # sq # pad # body @ rest"
    unfolding packet_bytes_def sp by (subst hd) simp
  have u: "unat ?n = 8 + length body"
    unfolding unat_of_nat using assms(2) by simp
  have "be_word [be_bytes 2 ?n ! 0, be_bytes 2 ?n ! 1] = ?n"
    using hd be_codec [of 2 ?n] by simp
  then show ws: "wire_size (packet_bytes t st spid sq pad body @ rest) = 8 + length body"
    unfolding wire_size_def pb using u by simp
  show "(packet_bytes t st spid sq pad body @ rest) ! 0 = t"
    "(packet_bytes t st spid sq pad body @ rest) ! 1 = st" unfolding pb by simp_all
  show len: "length (packet_bytes t st spid sq pad body) = 8 + length body"
    by (simp add: packet_bytes_def sp)
  show "wire_body (packet_bytes t st spid sq pad body @ rest) = body"
    unfolding wire_body_def ws unfolding pb by simp
  show "drop (8 + length body) (packet_bytes t st spid sq pad body @ rest) = rest"
    using len by simp
qed

lemma payload_last:
  assumes "length spid = 2" "length body + 8 \<le> mx" "mx < 2 ^ 16" "st \<noteq> 0"
  shows "payload mx (packet_bytes t st spid sq pad body @ rest) = body"
    and "wire_packet mx (packet_bytes t st spid sq pad body @ rest)"
    and "body \<noteq> [] \<Longrightarrow> dense mx (packet_bytes t st spid sq pad body @ rest)"
proof -
  have l: "length body + 8 < 2 ^ 16" using assms by simp
  note f = wire_packet_bytes [OF assms(1) l]
  show w: "wire_packet mx (packet_bytes t st spid sq pad body @ rest)"
    unfolding wire_packet_def f(1) using assms(2) f(4) by simp
  show "payload mx (packet_bytes t st spid sq pad body @ rest) = body"
    using w assms(4) by (subst payload.simps) (simp only: f(3,5) if_True simp_thms append_Nil2)
  show "body \<noteq> [] \<Longrightarrow> dense mx (packet_bytes t st spid sq pad body @ rest)"
    using w assms(4) by (subst dense.simps) (simp only: f(1,3) simp_thms, simp)
qed

lemma payload_more:
  assumes "length spid = 2" "length body + 8 \<le> mx" "mx < 2 ^ 16"
  shows "payload mx (packet_bytes t 0 spid sq pad body @ rest) = body @ payload mx rest"
    and "wire_packet mx (packet_bytes t 0 spid sq pad body @ rest)"
    and "body \<noteq> [] \<Longrightarrow> dense mx (packet_bytes t 0 spid sq pad body @ rest) = dense mx rest"
proof -
  have l: "length body + 8 < 2 ^ 16" using assms by simp
  note f = wire_packet_bytes [OF assms(1) l]
  show w: "wire_packet mx (packet_bytes t 0 spid sq pad body @ rest)"
    unfolding wire_packet_def f(1) using assms(2) f(4) by simp
  show "payload mx (packet_bytes t 0 spid sq pad body @ rest) = body @ payload mx rest"
    using w by (subst payload.simps) (simp only: f(1,3,5,6) if_True simp_thms if_False)
  show "body \<noteq> [] \<Longrightarrow> dense mx (packet_bytes t 0 spid sq pad body @ rest) = dense mx rest"
    using w by (subst dense.simps) (simp only: f(1,3,6) simp_thms, simp)
qed

lemma payload_packets:
  assumes "length spid = 2" "mx < 2 ^ 16" "\<forall>c \<in> set cs. length c + 8 \<le> mx"
    "length r + 8 \<le> mx" "st \<noteq> 0"
  shows "payload mx (concat (packets t 0 spid pad sq cs) @ packet_bytes t st spid sq' pad r @ rest)
      = concat cs @ r"
    and "\<lbrakk>\<forall>c \<in> set cs. c \<noteq> []; r \<noteq> []\<rbrakk> \<Longrightarrow>
      dense mx (concat (packets t 0 spid pad sq cs) @ packet_bytes t st spid sq' pad r @ rest)"
  using assms(3)
  using payload_more [OF assms(1) _ assms(2)]
  by (induction cs arbitrary: sq)
    (simp_all add: payload_last [OF assms(1,4,2,5)])

lemma chunks_rest_nonempty: "M \<noteq> [] \<Longrightarrow> 0 < k \<Longrightarrow> chunks k M = (cs, r) \<Longrightarrow> r \<noteq> []"
proof (induction k M arbitrary: cs r rule: chunks.induct)
  case (1 k M)
  then show ?case
    by (cases "length M \<le> k") (auto simp: chunks.simps [of k M] split: prod.splits)
qed

text \<open>A message sent without the reset flag is a readable message with the same payload.\<close>

lemma message_payload:
  assumes ok: "wbuf_ok w0" and st: "bufmem w0 ! 1 = 0" and ps: "packetSize w0 \<le> int mx" "mx < 2 ^ 16"
  shows "payload mx (concat (message w0 M) @ rest) = M"
    and "M \<noteq> [] \<Longrightarrow> dense mx (concat (message w0 M) @ rest)"
    and "wire_packet mx (concat (message w0 M) @ rest)"
    and "(concat (message w0 M) @ rest) ! 0 = wPacketType w0"
proof -
  obtain cs r where cr: "chunks (body_room w0) M = (cs, r)" by fastforce
  have k: "0 < body_room w0" "body_room w0 + 8 \<le> mx"
    using ok ps by (auto simp: wbuf_ok_def body_room_def)
  have l: "\<forall>c \<in> set cs. length c = body_room w0" "length r \<le> body_room w0" "concat cs @ r = M"
    using chunks_lengths [OF k(1) cr] chunks_concat [OF cr] by auto
  then have b: "\<forall>c \<in> set cs. length c + 8 \<le> mx" "length r + 8 \<le> mx" "\<forall>c \<in> set cs. c \<noteq> []"
    using k by auto
  have sp: "length (spid_of w0) = 2" by (simp add: spid_of_def)
  have m: "concat (message w0 M) @ rest =
      concat (packets (wPacketType w0) 0 (spid_of w0) (bufmem w0 ! 7) 1 cs)
      @ packet_bytes (wPacketType w0) 1 (spid_of w0) (1 + word_of_nat (length cs)) (bufmem w0 ! 7) r
      @ rest"
    by (simp add: message_def cr st [unfolded One_nat_def])
  show "payload mx (concat (message w0 M) @ rest) = M"
    unfolding m using payload_packets(1) [OF sp ps(2) b(1,2)] l(3) by simp
  show "M \<noteq> [] \<Longrightarrow> dense mx (concat (message w0 M) @ rest)"
    unfolding m using payload_packets(2) [OF sp ps(2) b(1,2) _ b(3)] chunks_rest_nonempty [OF _ k(1) cr]
    by simp
  show "wire_packet mx (concat (message w0 M) @ rest)"
    unfolding m using b sp ps(2) by (cases cs) (simp_all add: payload_more payload_last)
  have "length c + 8 < 2 ^ 16" if "c \<in> set cs \<or> c = r" for c
    using that b ps(2) by fastforce
  then show "(concat (message w0 M) @ rest) ! 0 = wPacketType w0"
    unfolding m using wire_packet_bytes(2) [OF sp] by (cases cs) simp_all
qed

section \<open>Reading to the end of a message\<close>

function terminated :: "nat \<Rightarrow> bytes \<Rightarrow> bool" where
  "terminated mx xs \<longleftrightarrow>
     (if wire_packet mx xs then xs ! 1 \<noteq> 0 \<or> terminated mx (drop (wire_size xs) xs) else False)"
  by pat_completeness auto
termination
  by (relation "measure (\<lambda>(mx, xs). length xs)") (auto simp: wire_packet_def)

declare terminated.simps [simp del]

lemma terminated_packets:
  assumes "length spid = 2" "mx < 2 ^ 16" "\<forall>c \<in> set cs. length c + 8 \<le> mx"
    "length r + 8 \<le> mx" "st \<noteq> 0"
  shows "terminated mx (concat (packets t 0 spid pad sq cs) @ packet_bytes t st spid sq' pad r @ rest)"
  using assms(3)
proof (induction cs arbitrary: sq)
  case Nil
  have "length r + 8 < 2 ^ 16" using assms by simp
  with assms show ?case
    by (subst terminated.simps) (simp add: payload_last wire_packet_bytes(3) [unfolded One_nat_def])
next
  case (Cons c cs)
  then have l: "length c + 8 < 2 ^ 16" "length c + 8 \<le> mx" using assms by auto
  from Cons have "terminated mx (concat (packets t 0 spid pad (sq + 1) cs) @
      packet_bytes t st spid sq' pad r @ rest)" by simp
  with l assms(1,2) show ?case
    by (subst terminated.simps)
      (simp add: payload_more wire_packet_bytes(1,3,4) [OF assms(1) l(1), unfolded One_nat_def])
qed

definition will_end :: "tdsBuffer \<Rightarrow> bool" where
  "will_end r \<longleftrightarrow> final r \<or> terminated (nat (packetSize r)) (t_in (transport r))"

lemma after_packet_will_end:
  "terminated (nat (packetSize r)) (t_in (transport r)) \<Longrightarrow> will_end (after_packet r)"
  by (subst (asm) terminated.simps) (auto simp: will_end_def after_packet_def Let_def split: if_splits)

text \<open>\<open>Read\<close> on a message that ends properly fails only with \<open>EOF\<close>, at its end.\<close>

lemma Read_will_end:
  assumes "rok r" "will_end r" "0 < n"
  shows "case Read n r of (Inl e, r') \<Rightarrow> e = Err EOF | (Inr bs, r') \<Rightarrow> will_end r'"
proof (cases "rpos r = rsize r \<and> \<not> final r")
  case False
  with assms show ?thesis
    by (auto simp: Read_def gthen_def ensure_packet_def gbind_def will_end_def rok_def rinv_def Let_def)
next
  case True
  with assms(2) have t: "terminated (nat (packetSize r)) (t_in (transport r))" by (simp add: will_end_def)
  then have p: "wire_packet (nat (packetSize r)) (t_in (transport r))" by (subst (asm) terminated.simps) (simp split: if_splits)
  have ok: "rbuf_ok r" using assms(1) by (simp add: rok_def rinv_def)
  have e: "ensure_packet r = (Inr (), after_packet r)"
    using True readNextPacket_ok [OF ok p] by (simp add: ensure_packet_def)
  show ?thesis
    using Read_run [OF after_packet_rok [OF assms(1) _ p] e, of n] True after_packet_will_end [OF t]
    by (simp add: will_end_def)
qed

lemma ReadAll_message:
  assumes "rok r" "will_end r"
  shows "\<exists>r'. io_ReadAll Read r = (Inr (stream r), r')"
proof -
  have "\<exists>r'. io_drain Read acc r = Some ((acc @ stream r, Err EOF), r')" for acc
    using assms
  proof (induction "(length (t_in (transport r)), length (stream r))" arbitrary: r acc
      rule: wf_induct_rule [OF wf_lex_prod [OF wf_less_than wf_less_than]])
    case 1
    show ?case
    proof (cases "Read 512 r")
      case (Pair x r')
      show ?thesis
      proof (cases x)
        case (Inl e)
        with Pair 1(2,3) Read_will_end [of r 512] tds.read_none [of r 512 e r'] show ?thesis
          by (subst io_drain.simps) auto
      next
        case (Inr bs)
        with Pair 1(2,3) Read_will_end [of r 512] tds.read_some [of r 512 bs r']
        have sp: "rok r'" "stream r = bs @ stream r'" "will_end r'"
          "length (t_in (transport r')) \<le> length (t_in (transport r))"
          "bs = [] \<longrightarrow> length (t_in (transport r')) < length (t_in (transport r))" by auto
        have "((length (t_in (transport r')), length (stream r')),
            (length (t_in (transport r)), length (stream r))) \<in> less_than <*lex*> less_than"
          using sp by (cases "bs = []") auto
        moreover have "io_drain Read acc r = io_drain Read (acc @ bs) r'"
          using Pair Inr by (subst io_drain.simps) simp
        ultimately show ?thesis using 1(1) [of r' "acc @ bs"] sp by auto
      qed
    qed
  qed
  from this [of "[]"] show ?thesis by (auto simp: io_ReadAll_def)
qed

text \<open>The first packet of a message, read by \<open>BeginRead\<close>.\<close>

lemma BeginRead_message:
  assumes "rbuf_ok r" "wire_packet (nat (packetSize r)) (t_in (transport r))"
    "t_in (transport r) ! 1 \<noteq> 0 \<or> dense (nat (packetSize r)) (t_in (transport r))"
  shows "BeginRead r = (Inr (t_in (transport r) ! 0), after_packet r)" "rok (after_packet r)"
proof -
  show "BeginRead r = (Inr (t_in (transport r) ! 0), after_packet r)"
    using readNextPacket_ok [OF assms(1,2)]
    by (simp add: BeginRead_def gthen_def after_packet_def Let_def)
  show "rok (after_packet r)"
    using after_packet_stream(1) [OF assms(1,2)] assms(2,3)
    by (auto simp: rok_def dense.simps [of _ "t_in (transport r)"] after_packet_def Let_def)
qed

lemma message_terminated:
  assumes ok: "wbuf_ok w0" and st: "bufmem w0 ! 1 = 0" and ps: "packetSize w0 \<le> int mx" "mx < 2 ^ 16"
  shows "terminated mx (concat (message w0 M) @ rest)"
proof -
  obtain cs r where cr: "chunks (body_room w0) M = (cs, r)" by fastforce
  have k: "0 < body_room w0" "body_room w0 + 8 \<le> mx"
    using ok ps by (auto simp: wbuf_ok_def body_room_def)
  then have b: "\<forall>c \<in> set cs. length c + 8 \<le> mx" "length r + 8 \<le> mx"
    using chunks_lengths [OF k(1) cr] by auto
  have sp: "length (spid_of w0) = 2" by (simp add: spid_of_def)
  show ?thesis
    using terminated_packets [OF sp ps(2) b]
    by (simp add: message_def cr st [unfolded One_nat_def])
qed

text \<open>A message read back by another buffer.\<close>

definition receive :: "(tdsBuffer, byte \<times> bytes) go" where
  "receive = gbind BeginRead (\<lambda>t. gbind (io_ReadAll Read) (\<lambda>d. gret (t, d)))"

lemma receive_terminated:
  assumes "rbuf_ok r" "wire_packet (nat (packetSize r)) xs" "terminated (nat (packetSize r)) xs" "xs ! 1 \<noteq> 0 \<or> dense (nat (packetSize r)) xs"
    "t_in (transport r) = xs"
  shows "\<exists>r'. receive r = (Inr (xs ! 0, payload (nat (packetSize r)) xs), r')"
proof -
  note br = BeginRead_message [OF assms(1), unfolded assms(5), OF assms(2,4)]
  have "stream (after_packet r) = payload (nat (packetSize r)) xs"
    using after_packet_stream(2) [OF assms(1)] assms(2) by (simp add: assms(5))
  moreover have "will_end (after_packet r)" using after_packet_will_end [of r] assms(3) by (simp add: assms(5))
  ultimately obtain r' where "io_ReadAll Read (after_packet r) = (Inr (payload (nat (packetSize r)) xs), r')"
    using ReadAll_message [OF br(2)] by auto
  with br(1) show ?thesis by (simp add: receive_def gret_run)
qed

lemma receive_message:
  assumes w: "wbuf_ok w0" "bufmem w0 ! 1 = 0" and M: "M \<noteq> []"
    and r: "rbuf_ok r" "packetSize w0 \<le> packetSize r" "packetSize r < 2 ^ 16"
      "t_in (transport r) = concat (message w0 M) @ rest"
  shows "\<exists>r'. receive r = (Inr (wPacketType w0, M), r')"
proof -
  let ?mx = "nat (packetSize r)"
  have ps: "packetSize w0 \<le> int ?mx" "?mx < 2 ^ 16" using r(2,3) w(1) by (auto simp: wbuf_ok_def)
  note mp = message_payload [OF w ps, of M rest]
  from receive_terminated [OF r(1) mp(3) message_terminated [OF w ps] disjI2 [OF mp(2) [OF M]] r(4)] mp(1,4) show ?thesis by simp
qed

text \<open>
  A message whose first packet has a status other than 0 (it is the only packet, or the reset of the session was asked
  for) ends with that packet for the reading half.
\<close>

lemma receive_first_packet:
  assumes w: "wbuf_ok w0" "bufmem w0 ! 1 \<noteq> 0 \<or> length M \<le> body_room w0"
    and r: "rbuf_ok r" "packetSize w0 \<le> packetSize r" "packetSize r < 2 ^ 16"
      "t_in (transport r) = concat (message w0 M) @ rest"
  shows "\<exists>r'. receive r = (Inr (wPacketType w0, take (body_room w0) M), r')"
proof -
  let ?mx = "nat (packetSize r)" and ?k = "body_room w0"
  have k: "0 < ?k" "?k + 8 \<le> ?mx" "?mx < 2 ^ 16" using r(2,3) w(1) by (auto simp: wbuf_ok_def body_room_def)
  have "bit (bufmem w0 ! 1 OR 1) 0" by (simp add: bit_simps)
  then have o1: "bufmem w0 ! 1 OR 1 \<noteq> 0" by auto
  obtain st sq rest' where p: "concat (message w0 M) @ rest
      = packet_bytes (wPacketType w0) st (spid_of w0) sq (bufmem w0 ! 7) (take ?k M) @ rest'" "st \<noteq> 0"
  proof (cases "length M \<le> ?k")
    case True
    then show ?thesis using that [of "bufmem w0 ! 1 OR 1" 1 rest] o1 by (simp add: message_def)
  next
    case False
    obtain cs q where "chunks ?k (drop ?k M) = (cs, q)" by fastforce
    with False k(1) have "chunks ?k M = (take ?k M # cs, q)" by (simp add: chunks.simps [of ?k M])
    with False w(2) show ?thesis using that [of "bufmem w0 ! 1" 1] by (simp add: message_def)
  qed
  have l: "length (spid_of w0) = 2" "length (take ?k M) + 8 \<le> ?mx" "length (take ?k M) + 8 < 2 ^ 16" using k by (auto simp: spid_of_def)
  note f = wire_packet_bytes [OF l(1,3)] and g = payload_last [OF l(1,2) k(3) p(2)]
  have t: "terminated ?mx (packet_bytes (wPacketType w0) st (spid_of w0) sq (bufmem w0 ! 7) (take ?k M) @ rest')"
    using g(2) f(3) p(2) by (subst terminated.simps) simp
  have s: "(packet_bytes (wPacketType w0) st (spid_of w0) sq (bufmem w0 ! 7) (take ?k M) @ rest') ! 1 \<noteq> 0" using f(3) p(2) by simp
  from receive_terminated [OF r(1) g(2) t disjI1 [OF s]] r(4) p(1) f(2) g(1) show ?thesis by simp
qed

text \<open>The packets of a message: their bodies, types and status bytes.\<close>

lemma packets_parts:
  assumes "length spid = 2"
  shows "concat (map (drop 8) (packets t st spid pad sq cs)) = concat cs" "map (\<lambda>q. q ! 0) (packets t st spid pad sq cs) = replicate (length cs) t"
    "map (\<lambda>q. q ! 1) (packets t st spid pad sq cs) = replicate (length cs) st" "length (packets t st spid pad sq cs) = length cs"
proof -
  have d: "drop 8 (packet_bytes t st spid sq pad c) = c" for sq c
    using assms by (simp add: packet_bytes_def)
  show "concat (map (drop 8) (packets t st spid pad sq cs)) = concat cs" by (induction cs arbitrary: sq) (simp_all add: d)
  show "map (\<lambda>q. q ! 0) (packets t st spid pad sq cs) = replicate (length cs) t" "map (\<lambda>q. q ! 1) (packets t st spid pad sq cs) = replicate (length cs) st"
    "length (packets t st spid pad sq cs) = length cs"
    by (induction cs arbitrary: sq) (simp_all add: packet_bytes_def)
qed

lemma message_parts:
  "concat (map (drop 8) (message w0 M)) = M" "map (\<lambda>q. q ! 0) (message w0 M) = replicate (length (message w0 M)) (wPacketType w0)"
  "map (\<lambda>q. q ! 1) (message w0 M) = replicate (length (message w0 M) - 1) (bufmem w0 ! 1) @ [bufmem w0 ! 1 OR 1]"
proof -
  obtain cs r where cr: "chunks (body_room w0) M = (cs, r)" by fastforce
  have l: "length (spid_of w0) = 2" by (simp add: spid_of_def)
  have d: "drop 8 (packet_bytes t st (spid_of w0) sq pad c) = c" for t st sq pad c by (simp add: packet_bytes_def spid_of_def)
  show "concat (map (drop 8) (message w0 M)) = M"
    using chunks_concat [OF cr] by (simp add: message_def cr packets_parts [OF l] d)
  show "map (\<lambda>q. q ! 0) (message w0 M) = replicate (length (message w0 M)) (wPacketType w0)"
    using packets_parts(2,4) [OF l] by (simp add: message_def cr packet_bytes_def replicate_append_same)
  show "map (\<lambda>q. q ! 1) (message w0 M) = replicate (length (message w0 M) - 1) (bufmem w0 ! 1) @ [bufmem w0 ! 1 OR 1]"
    using packets_parts(3,4) [OF l, unfolded One_nat_def] by (simp add: message_def cr packet_bytes_def)
qed

section \<open>Packet sizes that do not work\<close>

text \<open>\<open>connect\<close> bounds the configured packet size before it creates the buffer.\<close>

definition connect_packetSize :: "u16 \<Rightarrow> u16" where
  "connect_packetSize p =
     (let ps = (if p = 0 then 4096 else p)
      in if ps < 512 then 512 else if 32767 < ps then 32767 else ps)"

lemma connect_packetSize_bounds:
  "512 \<le> unat (connect_packetSize p)" "unat (connect_packetSize p) \<le> 32767"
  by (auto simp: connect_packetSize_def Let_def word_less_nat_alt)

lemma newTdsBuffer_fields:
  "packetSize (newTdsBuffer n buf c) = int (unat n)" "bufmem (newTdsBuffer n buf c) = buf"
  "wlen (newTdsBuffer n buf c) = 32768" "roff (newTdsBuffer n buf c) = 32768"
  "transport (newTdsBuffer n buf c) = c" "afterFirst (newTdsBuffer n buf c) = None"
  by (simp_all add: newTdsBuffer_def)

text \<open>A packet size of 8 leaves no room for a body: the loop of \<open>Write\<close> never ends.\<close>

definition stuck :: "bytes \<Rightarrow> tdsBuffer \<Rightarrow> bool" where
  "stuck p w \<longleftrightarrow> p \<noteq> [] \<and> packetSize w = 8 \<and> wpos w = 8 \<and> 8 \<le> wlen w
     \<and> wlen w \<le> length (bufmem w) \<and> afterFirst w = None
     \<and> (\<forall>e \<in> set (t_wres (transport w)). e = None)"

lemma flush_stuck:
  assumes "stuck p w"
  shows "\<exists>w'. flush w = (Inr (), w') \<and> stuck p w'"
proof -
  have cw: "conn_write q (transport w) =
      (None, (transport w)\<lparr>t_out := t_out (transport w) @ [q], t_wres := tl (t_wres (transport w))\<rparr>)" for q
    using assms by (auto simp: conn_write_def stuck_def split: list.splits option.splits)
  have "set (tl xs) \<subseteq> set xs" for xs :: "err option list" by (cases xs) auto
  with assms cw show ?thesis
    by (auto simp: flush_def stuck_def Let_def put_at_def)
qed

lemma Write_loop_stuck: "stuck p w \<Longrightarrow> Write_loop p n w = None"
proof (rule ccontr)
  assume s: "stuck p w" and "Write_loop p n w \<noteq> None"
  then obtain r where ret: "Write_loop p n w = Some r" by auto
  have "\<not> stuck p w"
  proof (rule Write_loop.raw_induct [where P = "\<lambda>p n w r. \<not> stuck p w", OF _ ret])
    fix f p n w r
    assume IH: "\<And>p n w r. f p n w = Some r \<Longrightarrow> \<not> stuck p w"
      and eq: "(if packetSize w < int (wpos w) \<or> int (length (bufmem w)) < packetSize w
        then Some (Inl (RuntimePanic ''slice bounds out of range''), w)
        else let copied = min (nat (packetSize w) - wpos w) (length p);
                 w1 = w\<lparr>bufmem := put_at (wpos w) (take copied p) (bufmem w), wpos := wpos w + copied\<rparr>
             in if copied = length p then Some (Inr (n + copied), w1)
                else case flush w1 of (Inl e, w2) \<Rightarrow> Some (Inl e, w2)
                     | (Inr _, w2) \<Rightarrow> f (drop copied p) (n + copied) w2) = Some r"
    show "\<not> stuck p w"
    proof
      assume st: "stuck p w"
      then have w1: "w\<lparr>bufmem := put_at 8 [] (bufmem w), wpos := 8\<rparr> = w"
        by (simp add: stuck_def put_at_def)
      obtain w2 where "flush w = (Inr (), w2)" "stuck p w2" using flush_stuck [OF st] by blast
      with st w1 eq have "f p n w2 = Some r" by (simp add: stuck_def Let_def)
      with IH \<open>stuck p w2\<close> show False by blast
    qed
  qed
  with s show False by simp
qed

section \<open>Properties of the packet layer\<close>

lemma message_lengths:
  assumes "wbuf_ok w0" "q \<in> set (message w0 M)"
  shows "int (length q) \<le> packetSize w0"
proof -
  obtain cs r where cr: "chunks (body_room w0) M = (cs, r)" by fastforce
  have k: "0 < body_room w0" "int (body_room w0) + 8 = packetSize w0"
    using assms by (auto simp: wbuf_ok_def body_room_def)
  have pk: "q \<in> set (packets t st spid pad sq ds) \<Longrightarrow> \<exists>c \<in> set ds. length q = 6 + length spid + length c"
    for t st spid pad sq ds
    by (induction ds arbitrary: sq) (auto simp: packet_bytes_def)
  from chunks_lengths [OF k(1) cr] assms(2) k(2) show ?thesis
    by (auto simp: message_def cr spid_of_def packet_bytes_def dest!: pk)
qed

lemma begun_ok: "wbuf_ok w \<Longrightarrow> wbuf_ok (begun t rs w)"
  by (simp add: wbuf_ok_def begun_def)

lemma begun_status: "wbuf_ok w \<Longrightarrow> bufmem (begun t rs w) ! 1 = begin_status t rs"
  by (auto simp: wbuf_ok_def begun_def)

text \<open>Example buffers for the witnesses: a packet size of 12 leaves four bytes of body.\<close>

definition ex_conn :: "bytes \<Rightarrow> conn" where
  "ex_conn xs = \<lparr>t_in = xs, t_rerr = EOF, t_out = [], t_wres = []\<rparr>"

definition ex_buf :: "int \<Rightarrow> bytes \<Rightarrow> tdsBuffer" where
  "ex_buf n xs = \<lparr>transport = ex_conn xs, packetSize = n, bufmem = replicate 48 0, wlen = 24, wpos = 8,
     wPacketSeq = 0, wPacketType = 0, roff = 24, rpos = 8, rsize = 8, final = False,
     rPacketType = 0, afterFirst = None\<rparr>"

lemma ex_buf_ok: "9 \<le> n \<Longrightarrow> n \<le> 24 \<Longrightarrow> wbuf_ok (ex_buf n xs) \<and> rbuf_ok (ex_buf n xs)"
  by (simp add: wbuf_ok_def rbuf_ok_def ex_buf_def ex_conn_def headerSize_def)

text \<open>
  C1. A message written with \<open>BeginPacket\<close>, \<open>Write\<close> and \<open>FinishPacket\<close> goes out in
  packets no longer than the packet size, all of its type; their bodies put together are the message, and only the last
  has the bit for the end of the message in its status. Any buffer with at least that packet size that
  finds these packets on its connection reads back the packet type and exactly the bytes that
  were written, however many packets they were cut into. The exception is a message with the request to reset the session
  (\<open>resetSession\<close> with one of the three types that carry it): the reset bit is in the status of every packet and the driver's own reading half
  takes every status other than 0 for the end, so it would stop after the first packet. The receiver of such
  a message is the server.
\<close>

theorem message_roundtrip:
  assumes w: "wbuf_ok w"
  shows "\<exists>w' pkts. send t rs (io_Write Write p) w = (Inr (), w')
     \<and> t_out (transport w') = t_out (transport w) @ pkts
     \<and> list_all (\<lambda>q. int (length q) \<le> packetSize w) pkts
     \<and> concat (map (drop 8) pkts) = p
     \<and> map (\<lambda>q. q ! 0) pkts = replicate (length pkts) t
     \<and> map (\<lambda>q. q ! 1) pkts = replicate (length pkts - 1) (begin_status t rs) @ [begin_status t rs OR 1]
     \<and> (\<forall>r rest. rbuf_ok r \<and> packetSize w \<le> packetSize r \<and> packetSize r < 2 ^ 16
          \<and> t_in (transport r) = concat pkts @ rest
          \<longrightarrow> (\<exists>r'. receive r = (Inr (t, if begin_status t rs = 0 then p else take (nat (packetSize w) - 8) p), r')))"
proof -
  let ?w0 = "begun t rs w"
  obtain w' where w': "send t rs (io_Write Write p) w = (Inr (), w')"
    "t_out (transport w') = t_out (transport w) @ message ?w0 p"
    using send_message [OF w tds_sink.emits_Write, of t rs p] by blast
  have st: "bufmem ?w0 ! 1 = begin_status t rs" by (rule begun_status [OF w])
  have f: "wPacketType ?w0 = t" "packetSize ?w0 = packetSize w" "body_room ?w0 = nat (packetSize w) - 8"
    by (simp_all add: begun_def body_room_def)
  have rd: "\<exists>r'. receive r = (Inr (t, if begin_status t rs = 0 then p else take (nat (packetSize w) - 8) p), r')"
    if r: "rbuf_ok r \<and> packetSize w \<le> packetSize r \<and> packetSize r < 2 ^ 16
      \<and> t_in (transport r) = concat (message ?w0 p) @ rest" for r rest
  proof (cases "begin_status t rs = 0 \<and> p \<noteq> []")
    case True
    with receive_message [OF begun_ok [OF w], of t rs p r rest] r st f show ?thesis by simp
  next
    case False
    with receive_first_packet [OF begun_ok [OF w], of t rs p r rest] r st f show ?thesis by auto
  qed
  have ln: "list_all (\<lambda>q. int (length q) \<le> packetSize w) (message ?w0 p)"
    using message_lengths [OF begun_ok [OF w], of _ t rs p] f by (simp add: list_all_iff)
  show ?thesis
    by (rule exI [of _ w'], rule exI [of _ "message ?w0 p"])
      (use w' rd ln message_parts [of ?w0 p] st f in auto)
qed

theorem message_roundtrip_witness:
  "\<exists>w' pkts. send packSQLBatch False (io_Write Write [1, 2, 3, 4, 5, 6]) (ex_buf 12 []) = (Inr (), w')
     \<and> t_out (transport w') = t_out (transport (ex_buf 12 [])) @ pkts
     \<and> list_all (\<lambda>q. int (length q) \<le> packetSize (ex_buf 12 [])) pkts
     \<and> concat (map (drop 8) pkts) = [1, 2, 3, 4, 5, 6]
     \<and> map (\<lambda>q. q ! 0) pkts = replicate (length pkts) packSQLBatch
     \<and> map (\<lambda>q. q ! 1) pkts = replicate (length pkts - 1) (begin_status packSQLBatch False) @ [begin_status packSQLBatch False OR 1]
     \<and> (\<forall>r rest. rbuf_ok r \<and> packetSize (ex_buf 12 []) \<le> packetSize r \<and> packetSize r < 2 ^ 16
          \<and> t_in (transport r) = concat pkts @ rest
          \<longrightarrow> (\<exists>r'. receive r = (Inr (packSQLBatch, if begin_status packSQLBatch False = 0 then [1, 2, 3, 4, 5, 6]
                                                     else take (nat (packetSize (ex_buf 12 [])) - 8) [1, 2, 3, 4, 5, 6]), r')))"
  by (rule message_roundtrip) (simp_all add: ex_buf_ok)

text \<open>
  C17. The readers \<open>uint16\<close>, \<open>uint32\<close> and \<open>uint64\<close>, which take their bytes straight
  from the packet at hand when it holds them, return the same value and leave the same stream
  as reading the bytes with \<open>ReadFull\<close>: the little-endian value of the next \<open>n\<close> bytes.
\<close>

theorem uint_fast_path:
  assumes "rok r" "0 < n" "n \<le> length (stream r)"
  shows "\<exists>ra rb. r_uint n r = (Inr (le_word (take n (stream r)) :: 'a::len word), ra)
     \<and> gbind (r_ReadFull n) (\<lambda>buf. gret (le_word buf)) r
         = (Inr (le_word (take n (stream r)) :: 'a word), rb)
     \<and> stream ra = drop n (stream r) \<and> stream rb = drop n (stream r)"
proof -
  have st: "stream r = take n (stream r) @ drop n (stream r)" by simp
  have l: "length (take n (stream r)) = n" using assms(3) by simp
  from readsD [OF reads_uint_bytes [OF l assms(2)] assms(1) st]
    readsD [OF reads_map [OF reads_ReadFull [OF l]] assms(1) st]
  show ?thesis by blast
qed

definition ex_reading :: tdsBuffer where
  "ex_reading = after_packet (ex_buf 12 [4, 1, 0, 12, 0, 0, 1, 0, 10, 20, 30, 40])"

lemma ex_reading_ok: "rok ex_reading" "stream ex_reading = [10, 20, 30, 40]"
proof -
  show "rok ex_reading" by code_simp
  show "stream ex_reading = [10, 20, 30, 40]" by code_simp
qed

theorem uint_fast_path_witness:
  "\<exists>ra rb. r_uint 2 ex_reading = (Inr (le_word (take 2 (stream ex_reading)) :: u16), ra)
     \<and> gbind (r_ReadFull 2) (\<lambda>buf. gret (le_word buf)) ex_reading
         = (Inr (le_word (take 2 (stream ex_reading)) :: u16), rb)
     \<and> stream ra = drop 2 (stream ex_reading) \<and> stream rb = drop 2 (stream ex_reading)"
  by (rule uint_fast_path) (simp_all add: ex_reading_ok)

text \<open>
  C18. \<open>io.ReadFull\<close> on a \<open>tdsBuffer\<close> always returns: with exactly the next \<open>n\<close> bytes
  of the stream when it holds that many, and with an error otherwise. This holds for everything the peer may send, empty packets included, for which
  \<open>Read\<close> returns neither bytes nor an error: the only requirement is that the indices of the buffer are in their ranges, as they are
  after \<open>BeginRead\<close>, and they are again when it returns.
\<close>

theorem ReadFull_total:
  assumes "rbuf_ok r" "rpos r \<le> rsize r" "roff r + rsize r \<le> length (bufmem r)"
  shows "if n \<le> length (stream r)
         then \<exists>r'. io_ReadFull Read n r = (Inr (take n (stream r)), r')
                   \<and> stream r' = drop n (stream r) \<and> rinv r'
         else \<exists>e r'. io_ReadFull Read n r = (Inl e, r') \<and> e \<noteq> Diverges"
proof -
  have "rinv r" using assms by (simp add: rinv_def)
  from tds_any.ReadFull_some [OF this, of "take n (stream r)" "drop n (stream r)" n] tds_any.ReadFull_short [OF this, of n] show ?thesis by auto
qed

text \<open>A message of a byte, an empty packet and another byte.\<close>

definition ex_gap :: tdsBuffer where
  "ex_gap = after_packet (ex_buf 12 ([4, 0, 0, 9, 0, 0, 1, 0, 10] @ [4, 0, 0, 8, 0, 0, 2, 0] @ [4, 1, 0, 9, 0, 0, 3, 0, 20]))"

lemma ex_gap_ok: "rbuf_ok ex_gap" "rpos ex_gap \<le> rsize ex_gap" "roff ex_gap + rsize ex_gap \<le> length (bufmem ex_gap)" "stream ex_gap = [10, 20]"
  by code_simp+

theorem ReadFull_total_witness: "\<exists>r'. io_ReadFull Read 2 ex_gap = (Inr [10, 20], r')"
  using ReadFull_total [OF ex_gap_ok(1-3), of 2] by (auto simp: ex_gap_ok(4))

text \<open>
  C19. Whatever packet size the configuration asks for, the buffer that \<open>connect\<close> creates
  from a 64 KiB array of the pool can write and read packets of its packet size.
\<close>

theorem connect_buffer_ok:
  assumes "length buf = 65536" "set (t_wres c) \<subseteq> {None}"
  shows "wbuf_ok (newTdsBuffer (connect_packetSize p) buf c)
       \<and> rbuf_ok (newTdsBuffer (connect_packetSize p) buf c)"
proof
  note b = connect_packetSize_bounds [of p]
  have "9 \<le> int (unat (connect_packetSize p))" "int (unat (connect_packetSize p)) \<le> 32768"
    using b by linarith+
  with assms show "wbuf_ok (newTdsBuffer (connect_packetSize p) buf c)"
    unfolding wbuf_ok_def newTdsBuffer_fields by auto
  show "rbuf_ok (newTdsBuffer (connect_packetSize p) buf c)"
    unfolding rbuf_ok_def newTdsBuffer_fields headerSize_def using assms(1) b by linarith
qed

theorem connect_buffer_ok_witness:
  "wbuf_ok (newTdsBuffer (connect_packetSize 0) (replicate 65536 0) (ex_conn []))
   \<and> rbuf_ok (newTdsBuffer (connect_packetSize 0) (replicate 65536 0) (ex_conn []))"
  by (rule connect_buffer_ok) (simp_all only: length_replicate ex_conn_def conn.simps, simp)

text \<open>
  C39. A packet size of 8, which \<open>ResizeBuffer\<close> accepts from the server, makes \<open>Write\<close>
  send header-only packets for ever: on a connection that takes every packet it never returns.
\<close>

theorem Write_packetSize_8_diverges:
  assumes "stuck p w"
  shows "Write p w = (Inl Diverges, w)"
  by (simp add: Write_def Write_loop_stuck [OF assms])

theorem Write_packetSize_8_diverges_witness:
  "stuck [1] (snd (ResizeBuffer 8 (ex_buf 12 [])))
   \<and> Write [1] (snd (ResizeBuffer 8 (ex_buf 12 []))) =
       (Inl Diverges, snd (ResizeBuffer 8 (ex_buf 12 [])))"
proof -
  have s: "stuck [1] (snd (ResizeBuffer 8 (ex_buf 12 [])))"
    by (simp add: stuck_def ResizeBuffer_def ex_buf_def ex_conn_def)
  show ?thesis using s Write_packetSize_8_diverges [OF s] by simp
qed

text \<open>
  An empty packet in the middle of a message is not skipped by \<open>ReadByte\<close>: it returns
  whatever byte the read buffer held behind the header and moves past the end of the packet.
\<close>

theorem ReadByte_empty_packet:
  assumes ok: "rbuf_ok r" "roff r + 9 \<le> length (bufmem r)" and at_end: "rpos r = rsize r" "\<not> final r"
    and wire: "t_in (transport r) = [t, 0, 0, 8, s1, s2, sq, pad] @ rest" "8 \<le> packetSize r"
  shows "\<exists>r'. ReadByte r = (Inr (rbyte r 8), r') \<and> rsize r' = 8 \<and> rpos r' = 9"
proof -
  have sz: "wire_size (t_in (transport r)) = 8" by (simp add: wire wire_size_def be_word_def)
  have p: "wire_packet (nat (packetSize r)) (t_in (transport r))"
    using wire(2) unfolding wire_packet_def sz by (auto simp: wire(1))
  have e: "ensure_packet r = (Inr (), after_packet r)"
    using at_end readNextPacket_ok [OF ok(1) p] by (simp add: ensure_packet_def)
  have "rbyte (after_packet r) 8 = rbyte r 8"
    using ok(2) by (simp add: rbyte_def after_packet_def Let_def
        sz [unfolded wire(1) append.simps] wire(1) put_at_def nth_append eval_nat_numeral)
  with e ok(2) show ?thesis
    by (simp add: ReadByte_def gthen_def after_packet_def Let_def
        sz [unfolded wire(1) append.simps] wire(1))
qed

theorem ReadByte_empty_packet_witness:
  "\<exists>r'. ReadByte (ex_buf 12 [4, 0, 0, 8, 0, 0, 2, 0]) = (Inr (rbyte (ex_buf 12 [4, 0, 0, 8, 0, 0, 2, 0]) 8), r')
     \<and> rsize r' = 8 \<and> rpos r' = 9"
  by (rule ReadByte_empty_packet [where t = 4 and ?s1.0 = 0 and ?s2.0 = 0 and sq = 2 and pad = 0 and rest = "[]"])
    (simp_all add: ex_buf_def ex_conn_def rbuf_ok_def headerSize_def)

end
