(* ===== verification/Ucs2.thy ===== *)
theory Ucs2
  imports Go_Text Tds_Message
begin

text \<open>
  The string codecs of the driver: \<open>str2ucs2\<close>, \<open>manglePassword\<close> and the
  length-prefixed strings of \<open>src/tds.go\<close> (\<open>readUcs2\<close>, \<open>readUsVarChar\<close>,
  \<open>writeUsVarChar\<close>, \<open>readBVarChar\<close>, \<open>writeBVarChar\<close>, \<open>readBVarByte\<close>),
  and \<open>ucs22str\<close> (\<open>src/ucs22str.go\<close>) with its word-at-a-time ASCII path, which is
  proved equal to decoding UTF-16.
\<close>

section \<open>str2ucs2 and manglePassword\<close>

fun units_bytes :: "u16 list \<Rightarrow> bytes" where
  "units_bytes [] = []"
| "units_bytes (u # us) = ucast u # ucast (drop_bit 8 u) # units_bytes us"

fun units :: "bytes \<Rightarrow> u16 list" where
  "units (a # b # r) = le_word [a, b] # units r"
| "units _ = []"

definition str2ucs2 :: "string \<Rightarrow> bytes" where
  "str2ucs2 s = units_bytes (utf16_Encode (runes s))"

definition mangle_byte :: "byte \<Rightarrow> byte" where
  "mangle_byte ch = ((push_bit 4 ch AND 0xFF) OR drop_bit 4 ch) XOR 0xA5"

definition manglePassword :: "string \<Rightarrow> bytes" where
  "manglePassword password = map mangle_byte (str2ucs2 password)"

lemma units_units_bytes [simp]: "units (units_bytes us) = us"
proof (induction us rule: units_bytes.induct)
  case (2 u us)
  have "le_word [ucast u, ucast (drop_bit 8 u)] = u"
    using le_codec [of 2 u] by (simp add: numeral_2_eq_2)
  with 2 show ?case by simp
qed simp

lemma length_units_bytes [simp]: "length (units_bytes us) = 2 * length us"
  by (induction us rule: units_bytes.induct) auto

lemma length_str2ucs2: "length (str2ucs2 s) = 2 * length (utf16_Encode (runes s))"
  by (simp add: str2ucs2_def)

lemma even_str2ucs2 [simp]: "even (length (str2ucs2 s))"
  by (simp add: length_str2ucs2)

lemma mangle_byte_inverse:
  "(let x = mangle_byte b XOR 0xA5 in push_bit 4 x OR drop_bit 4 x) = b"
proof -
  have x: "mangle_byte b XOR 0xA5 = push_bit 4 b OR drop_bit 4 b"
  proof -
    have "(0xFF :: byte) = - 1" by simp
    then have "push_bit 4 b AND 0xFF = push_bit 4 b" by (simp only: and.right_neutral)
    then show ?thesis by (simp add: mangle_byte_def xor.assoc)
  qed
  have "push_bit 4 (push_bit 4 b OR drop_bit 4 b) OR drop_bit 4 (push_bit 4 b OR drop_bit 4 b) = b"
    by (rule bit_word_eqI) (auto simp: bit_simps)
  then show ?thesis unfolding x Let_def .
qed

section \<open>ucs22str\<close>

definition mask64 :: u64 where "mask64 = 0xFF80FF80FF80FF80"
definition mask32 :: u32 where "mask32 = 0xFF80FF80"
definition mask16 :: u16 where "mask16 = 0xFF80"

text \<open>
  A load of \<open>n\<close> bytes through an unsafe pointer, on a little-endian machine, which is
  what the code is written for; the stores below are little-endian likewise.
\<close>

definition load :: "nat \<Rightarrow> bytes \<Rightarrow> nat \<Rightarrow> 'a::len word" where
  "load n s i = le_word (take n (drop i s))"

definition narrow64 :: "u64 \<Rightarrow> u32" where
  "narrow64 w0 =
     (let w1 = drop_bit 8 w0; w2 = drop_bit 8 w1; w3 = drop_bit 8 w2 in
      ucast (ucast w0 :: byte) OR ucast (ucast w1 :: u16)
      OR ucast (w2 AND 0xFF0000) OR ucast (w3 AND 0xFF000000))"

definition narrow32 :: "u32 \<Rightarrow> u16" where
  "narrow32 w0 = ucast (ucast w0 :: byte) OR ucast (drop_bit 8 w0)"

text \<open>The loop over 8-byte chunks: whether all were ASCII, and the indexes and buffer at its end.\<close>

function ucs_loop ::
    "bytes \<Rightarrow> nat \<Rightarrow> nat \<Rightarrow> bytes \<Rightarrow> nat \<Rightarrow> bool \<times> nat \<times> bytes \<times> nat" where
  "ucs_loop s nlen8 readIndex buf writeIndex =
     (if readIndex < nlen8 then
        let ui64 = load 8 s readIndex in
        if ui64 AND mask64 \<noteq> 0 then (False, readIndex, buf, writeIndex)
        else ucs_loop s nlen8 (readIndex + 8) (put_at writeIndex (le_bytes 4 (narrow64 ui64)) buf)
               (writeIndex + 4)
      else (True, readIndex, buf, writeIndex))"
  by pat_completeness auto
termination by (relation "measure (\<lambda>(s, n, i, b, w). n - i)") auto

declare ucs_loop.simps [simp del]

text \<open>The tail of at most 7 bytes; \<open>None\<close>: not ASCII.\<close>

definition ucs_tail2 :: "bytes \<Rightarrow> nat \<Rightarrow> bytes \<Rightarrow> nat \<Rightarrow> bytes option" where
  "ucs_tail2 s readIndex buf writeIndex =
     (if 2 \<le> length s - readIndex then
        let ui16 = load 2 s readIndex in
        if ui16 AND mask16 = 0 then Some (buf[writeIndex := ucast (ui16 AND 0xFF)]) else None
      else Some buf)"

definition ucs_tail :: "bytes \<Rightarrow> nat \<Rightarrow> bytes \<Rightarrow> nat \<Rightarrow> bytes option" where
  "ucs_tail s readIndex buf writeIndex =
     (if 4 \<le> length s - readIndex then
        let ui32 = load 4 s readIndex in
        if ui32 AND mask32 \<noteq> 0 then None
        else ucs_tail2 s (readIndex + 4) (put_at writeIndex (le_bytes 2 (narrow32 ui32)) buf)
               (writeIndex + 2)
      else ucs_tail2 s readIndex buf writeIndex)"

definition ucs22str :: "bytes \<Rightarrow> err + string" where
  "ucs22str s =
     (if length s mod 2 \<noteq> 0 then Inl (ErrMsg ''illegal UCS2 string length: %d'')
      else
        case ucs_loop s (length s AND 0xFFFFFFF8) 0 (replicate (length s div 2) 0) 0 of
          (useFastPath, readIndex, buf, writeIndex) \<Rightarrow>
            (case if useFastPath then ucs_tail s readIndex buf writeIndex else None of
               Some b \<Rightarrow> Inr (bytes_str b)
             | None \<Rightarrow> Inr (string_of_runes (utf16_Decode (units s)))))"

subsection \<open>The ASCII path agrees with decoding UTF-16\<close>

text \<open>A string of ASCII code units, and its low bytes.\<close>

fun ascii16 :: "bytes \<Rightarrow> bool" where
  "ascii16 (a # b # r) \<longleftrightarrow> unat a < 0x80 \<and> b = 0 \<and> ascii16 r"
| "ascii16 _ \<longleftrightarrow> True"

fun lows :: "bytes \<Rightarrow> bytes" where
  "lows (a # b # r) = a # lows r"
| "lows _ = []"

lemma ascii16_append: "even (length xs) \<Longrightarrow> ascii16 (xs @ ys) \<longleftrightarrow> ascii16 xs \<and> ascii16 ys"
  by (induction xs rule: ascii16.induct) auto

lemma lows_append: "even (length xs) \<Longrightarrow> lows (xs @ ys) = lows xs @ lows ys"
  by (induction xs rule: lows.induct) auto

lemma length_lows [simp]: "length (lows xs) = length xs div 2"
  by (induction xs rule: lows.induct) auto

lemma and_high: "(b :: byte) AND 0x80 = 0 \<longleftrightarrow> unat b < 0x80"
proof -
  have "b AND 0x80 = 0 \<longleftrightarrow> \<not> bit b 7" using and_exp_eq_0_iff_not_bit [of b 7] by simp
  also have "\<dots> \<longleftrightarrow> \<not> bit (unat b) 7" by (simp add: bit_unsigned_iff)
  also have "\<dots> \<longleftrightarrow> even (unat b div 128)" by (simp add: bit_iff_odd)
  also have "\<dots> \<longleftrightarrow> unat b div 128 = 0"
  proof -
    have "unat b < 256" using unsigned_less [of b, where 'a = nat] by simp
    then have "unat b div 128 < 2" by (simp add: div_less_iff_less_mult)
    then show ?thesis by (auto simp: less_2_cases_iff)
  qed
  finally show ?thesis by (simp add: div_eq_0_iff)
qed

lemma and_high0: "(b :: byte) AND 0xFF = 0 \<longleftrightarrow> b = 0"
proof -
  have "(0xFF :: byte) = - 1" by simp
  then show ?thesis by (simp only: and.right_neutral)
qed

lemma mask_words:
  "mask64 = le_word [0x80, 0xFF, 0x80, 0xFF, 0x80, 0xFF, 0x80, 0xFF]"
  "mask32 = le_word [0x80, 0xFF, 0x80, 0xFF]" "mask16 = le_word [0x80, 0xFF]"
  by (simp_all add: mask64_def mask32_def mask16_def)

lemma chunk64:
  assumes "length c = 8"
  shows "(le_word c :: u64) AND mask64 = 0 \<longleftrightarrow> ascii16 c"
    "ascii16 c \<Longrightarrow> le_bytes 4 (narrow64 (le_word c)) = lows c"
proof -
  from assms obtain b0 b1 b2 b3 b4 b5 b6 b7 where c: "c = [b0, b1, b2, b3, b4, b5, b6, b7]"
    by (auto simp: length_Suc_conv eval_nat_numeral)
  show "(le_word c :: u64) AND mask64 = 0 \<longleftrightarrow> ascii16 c"
    unfolding mask_words c by (subst le_word_and, simp, subst le_word_eq_0) (simp_all add: and_high and_high0)
  assume "ascii16 c"
  then have z: "b1 = 0" "b3 = 0" "b5 = 0" "b7 = 0" by (simp_all add: c)
  have k: "(0xFF0000 :: u64) = le_word [0, 0, 0xFF, 0, 0, 0]" "(0xFF000000 :: u64) = le_word [0, 0, 0, 0xFF, 0]"
    by simp_all
  have f: "b AND 0xFF = b" for b :: byte
  proof -
    have "(0xFF :: byte) = - 1" by simp
    then show ?thesis by (simp only: and.right_neutral)
  qed
  have d1: "drop_bit 8 (le_word c :: u64) = le_word [0, b2, 0, b4, 0, b6, 0]"
    unfolding c z by (rule drop_le_word) simp
  have d2: "drop_bit 8 (le_word [0, b2, 0, b4, 0, b6, 0] :: u64) = le_word [b2, 0, b4, 0, b6, 0]"
    by (rule drop_le_word) simp
  have d3: "drop_bit 8 (le_word [b2, 0, b4, 0, b6, 0] :: u64) = le_word [0, b4, 0, b6, 0]"
    by (rule drop_le_word) simp
  have a2: "(le_word [b2, 0, b4, 0, b6, 0] AND 0xFF0000 :: u64) = le_word [0, 0, b4, 0, 0, 0]"
    unfolding k(1) by (subst le_word_and) (simp_all del: le_word.simps add: f)
  have a3: "(le_word [0, b4, 0, b6, 0] AND 0xFF000000 :: u64) = le_word [0, 0, 0, b6, 0]"
    unfolding k(2) by (subst le_word_and) (simp_all del: le_word.simps add: f)
  note bits = bit_simps bit_le_word less_Suc_eq_0_disj nth_Cons'
  have u: "ucast (ucast (le_word c :: u64) :: byte) = (le_word [b0, 0, 0, 0] :: u32)"
    "ucast (ucast (le_word [0, b2, 0, b4, 0, b6, 0] :: u64) :: u16) = (le_word [0, b2, 0, 0] :: u32)"
    "ucast (le_word [0, 0, b4, 0, 0, 0] :: u64) = (le_word [0, 0, b4, 0] :: u32)"
    "ucast (le_word [0, 0, 0, b6, 0] :: u64) = (le_word [0, 0, 0, b6] :: u32)"
    by (rule bit_word_eqI, auto simp: bits c simp del: le_word.simps)+
  have "narrow64 (le_word c) = le_word [b0, b2, b4, b6]"
    unfolding narrow64_def Let_def d1 d2 d3 a2 a3 u by (simp add: le_word_or del: le_word.simps)
  with le_bytes_le_word [of "[b0, b2, b4, b6]", where 'a = 32] show "le_bytes 4 (narrow64 (le_word c)) = lows c"
    by (simp add: c del: le_word.simps)
qed

lemma chunk32:
  assumes "length c = 4"
  shows "(le_word c :: u32) AND mask32 = 0 \<longleftrightarrow> ascii16 c"
    "ascii16 c \<Longrightarrow> le_bytes 2 (narrow32 (le_word c)) = lows c"
proof -
  from assms obtain b0 b1 b2 b3 where c: "c = [b0, b1, b2, b3]"
    by (auto simp: length_Suc_conv eval_nat_numeral)
  show "(le_word c :: u32) AND mask32 = 0 \<longleftrightarrow> ascii16 c"
    unfolding mask_words c by (subst le_word_and, simp, subst le_word_eq_0) (simp_all add: and_high and_high0)
  assume "ascii16 c"
  then have z: "b1 = 0" "b3 = 0" by (simp_all add: c)
  have d1: "drop_bit 8 (le_word c :: u32) = le_word [0, b2, 0]"
    unfolding c z by (rule drop_le_word) simp
  note bits = bit_simps bit_le_word less_Suc_eq_0_disj nth_Cons'
  have u: "ucast (ucast (le_word c :: u32) :: byte) = (le_word [b0, 0] :: u16)"
    "ucast (le_word [0, b2, 0] :: u32) = (le_word [0, b2] :: u16)"
    by (rule bit_word_eqI, auto simp: bits c simp del: le_word.simps)+
  have "narrow32 (le_word c) = le_word [b0, b2]"
    unfolding narrow32_def Let_def d1 u by (simp add: le_word_or del: le_word.simps)
  with le_bytes_le_word [of "[b0, b2]", where 'a = 16] show "le_bytes 2 (narrow32 (le_word c)) = lows c"
    by (simp add: c numeral_2_eq_2 del: le_word.simps)
qed

lemma chunk16:
  assumes "length c = 2"
  shows "(le_word c :: u16) AND mask16 = 0 \<longleftrightarrow> ascii16 c"
    "ascii16 c \<Longrightarrow> [ucast ((le_word c :: u16) AND 0xFF)] = lows c"
proof -
  from assms obtain b0 b1 where c: "c = [b0, b1]"
    by (auto simp: length_Suc_conv eval_nat_numeral)
  show "(le_word c :: u16) AND mask16 = 0 \<longleftrightarrow> ascii16 c"
    unfolding mask_words c by (subst le_word_and, simp, subst le_word_eq_0) (simp_all add: and_high and_high0)
  assume "ascii16 c"
  have "(le_word c :: u16) AND 0xFF = take_bit 8 (le_word c)" 
    by (simp add: take_bit_eq_mask mask_eq_exp_minus_1)
  moreover have "ucast (take_bit 8 (le_word c :: u16)) = b0"
    by (rule bit_word_eqI) (auto simp: bit_simps bit_le_word c simp del: le_word.simps)
  ultimately have "ucast ((le_word c :: u16) AND 0xFF) = b0" by simp
  then show "[ucast ((le_word c :: u16) AND 0xFF)] = lows c" by (simp add: c)
qed

definition copied :: "bytes \<Rightarrow> nat \<Rightarrow> bytes \<Rightarrow> nat \<Rightarrow> bool" where
  "copied s i buf w \<longleftrightarrow>
     i = 2 * w \<and> i \<le> length s \<and> length buf = length s div 2
     \<and> take w buf = lows (take i s) \<and> ascii16 (take i s)"

lemma copied_step:
  assumes "copied s i buf w" "i + 2 * k \<le> length s" "ascii16 (take (2 * k) (drop i s))"
  shows "copied s (i + 2 * k) (put_at w (lows (take (2 * k) (drop i s))) buf) (w + k)"
proof -
  from assms have i: "i = 2 * w" "i \<le> length s" "length buf = length s div 2"
    "take w buf = lows (take i s)" "ascii16 (take i s)" by (auto simp: copied_def)
  let ?c = "take (2 * k) (drop i s)"
  have sp: "take (i + 2 * k) s = take i s @ ?c" by (simp add: take_add)
  have ev: "even (length (take i s))" using i by simp
  have lc: "length (lows ?c) = k" using assms(2) by simp
  have fit: "w + length (lows ?c) \<le> length buf" using lc i assms(2) by simp
  have "take (w + k) (put_at w (lows ?c) buf) = take w buf @ lows ?c"
    using take_put_at_end [OF fit] lc by simp
  then show ?thesis
    using i assms(2,3) fit ev unfolding copied_def sp
    by (simp add: lows_append ascii16_append)
qed

lemma copied_rest:
  assumes "copied s i buf w"
  shows "ascii16 s \<longleftrightarrow> ascii16 (take (2 * k) (drop i s)) \<and> ascii16 (drop (i + 2 * k) s)"
proof -
  have "even (length (take i s))" "ascii16 (take i s)" using assms by (auto simp: copied_def)
  then have "ascii16 (take i s @ drop i s) \<longleftrightarrow> ascii16 (drop i s)" using ascii16_append by blast
  moreover have "ascii16 (take (2 * k) (drop i s) @ drop (2 * k) (drop i s)) \<longleftrightarrow>
      ascii16 (take (2 * k) (drop i s)) \<and> ascii16 (drop (2 * k) (drop i s))"
    by (cases "2 * k \<le> length (drop i s)") (simp_all add: ascii16_append)
  ultimately show ?thesis unfolding append_take_drop_id by (simp add: add.commute)
qed

lemma copied_all: "copied s i buf w \<Longrightarrow> even (length s) \<Longrightarrow> length s \<le> i \<Longrightarrow> ascii16 s \<and> buf = lows s"
  by (auto simp: copied_def)

lemma ucs_loop_ok:
  assumes "copied s i buf w" "n \<le> length s" "8 dvd n" "8 dvd i"
  shows "case ucs_loop s n i buf w of (f, i', buf', w') \<Rightarrow>
     if f then copied s i' buf' w' \<and> (i \<le> n \<longrightarrow> i' = n) else \<not> ascii16 s"
  using assms
proof (induction s n i buf w rule: ucs_loop.induct)
  case (1 s n i buf w)
  show ?case
  proof (cases "i < n")
    case False
    with 1 show ?thesis by (simp add: ucs_loop.simps)
  next
    case True
    have i8: "i + 8 \<le> n" using True 1(4,5) by (auto simp: dvd_def)
    let ?c = "take 8 (drop i s)"
    have lc: "length ?c = 8" using i8 1(3) by simp
    note ch = chunk64 [OF lc]
    show ?thesis
    proof (cases "ascii16 ?c")
      case False
      then have "\<not> ascii16 s" using copied_rest [OF 1(2), of 4] by simp
      with True False ch(1) show ?thesis by (simp add: ucs_loop.simps load_def)
    next
      case ok: True
      have cs: "copied s (i + 8) (put_at w (le_bytes 4 (narrow64 (load 8 s i))) buf) (w + 4)"
        using copied_step [of s i buf w 4] 1(2,3) i8 ok ch(2) by (simp add: load_def)
      have mk: "\<not> load 8 s i AND mask64 \<noteq> (0 :: u64)" using ok ch(1) by (simp add: load_def)
      have eq: "ucs_loop s n i buf w
          = ucs_loop s n (i + 8) (put_at w (le_bytes 4 (narrow64 (load 8 s i))) buf) (w + 4)"
        using True mk by (simp add: ucs_loop.simps [of s n i] Let_def)
      show ?thesis
        unfolding eq using 1(1) [OF True refl mk cs 1(3,4)] 1(5) i8 by (auto split: prod.splits if_splits)
    qed
  qed
qed

lemma ucs_tail2_ok:
  assumes "copied s i buf w" "even (length s)" "length s < i + 4"
  shows "ucs_tail2 s i buf w = (if ascii16 s then Some (lows s) else None)"
proof (cases "2 \<le> length s - i")
  case True
  let ?c = "take 2 (drop i s)"
  have i: "i + 2 = length s"
  proof -
    obtain m where "length s = 2 * m" using assms(2) by (rule evenE)
    moreover have "i = 2 * w" using assms(1) by (simp add: copied_def)
    ultimately have "m = w + 1" using assms(3) True by simp
    with \<open>length s = 2 * m\<close> \<open>i = 2 * w\<close> show ?thesis by simp
  qed
  have lc: "length ?c = 2" using True by simp
  note ch = chunk16 [OF lc]
  have as: "ascii16 s \<longleftrightarrow> ascii16 ?c" using copied_rest [OF assms(1), of 1] i by simp
  show ?thesis
  proof (cases "ascii16 ?c")
    case ok: True
    have w: "w < length buf" using assms(1) i by (auto simp: copied_def)
    have "put_at w [ucast ((le_word ?c :: u16) AND 0xFF)] buf = buf[w := ucast ((le_word ?c :: u16) AND 0xFF)]"
      using w by (simp add: put_at_def upd_conv_take_nth_drop)
    then have "copied s (i + 2) (buf[w := ucast ((le_word ?c :: u16) AND 0xFF)]) (w + 1)"
      using copied_step [OF assms(1), of 1] i ok ch(2) by simp
    from copied_all [OF this assms(2)] i ok ch(1) as True show ?thesis
      by (simp add: ucs_tail2_def load_def)
  next
    case False
    with as ch(1) True show ?thesis by (simp add: ucs_tail2_def load_def)
  qed
next
  case False
  with assms have "length s \<le> i" by (auto simp: copied_def elim!: evenE)
  from copied_all [OF assms(1,2) this] False show ?thesis by (simp add: ucs_tail2_def)
qed

lemma ucs_tail_ok:
  assumes "copied s i buf w" "even (length s)" "length s < i + 8"
  shows "ucs_tail s i buf w = (if ascii16 s then Some (lows s) else None)"
proof (cases "4 \<le> length s - i")
  case True
  let ?c = "take 4 (drop i s)"
  have lc: "length ?c = 4" using True by simp
  note ch = chunk32 [OF lc]
  have as: "ascii16 s \<longleftrightarrow> ascii16 ?c \<and> ascii16 (drop (i + 4) s)"
    using copied_rest [OF assms(1), of 2] by simp
  show ?thesis
  proof (cases "ascii16 ?c")
    case ok: True
    have "copied s (i + 4) (put_at w (le_bytes 2 (narrow32 (le_word ?c))) buf) (w + 2)"
      using copied_step [OF assms(1), of 2] True ok ch(2) by simp
    from ucs_tail2_ok [OF this assms(2)] assms(3) True ok ch(1) show ?thesis
      by (simp add: ucs_tail_def load_def del: le_bytes_numeral)
  next
    case False
    with as ch(1) True show ?thesis by (simp add: ucs_tail_def load_def)
  qed
next
  case False
  with ucs_tail2_ok [OF assms(1,2)] assms(3) show ?thesis by (simp add: ucs_tail_def)
qed

lemma ascii_runes:
  "even (length s) \<Longrightarrow> ascii16 s \<Longrightarrow>
     map word_of_nat (concat (map EncodeRune (utf16_Decode (units s)))) = lows s"
proof (induction s rule: lows.induct)
  case (1 a b r)
  have "unat (ucast a :: u16) = unat a"
    using unsigned_less [of a, where 'a = nat] by (simp add: unsigned_ucast_eq take_bit_nat_eq_self)
  with 1 show ?case by (simp add: EncodeRune_def scalar_def)
qed auto

lemma nlen8: "n < 2 ^ 32 \<Longrightarrow> (n :: nat) AND 0xFFFFFFF8 = n div 8 * 8"
proof -
  assume n: "n < 2 ^ 32"
  have "(0xFFFFFFF8 :: nat) = push_bit 3 (mask 29)" by (simp add: push_bit_eq_mult mask_eq_exp_minus_1)
  moreover have "n AND push_bit 3 (mask 29) = push_bit 3 (take_bit 29 (drop_bit 3 n))"
    by (rule bit_eqI) (auto simp: bit_simps)
  ultimately have "n AND 0xFFFFFFF8 = push_bit 3 (take_bit 29 (drop_bit 3 n))" by simp
  then show ?thesis using n by (simp add: take_bit_eq_mod drop_bit_eq_div push_bit_eq_mult)
qed

lemma ucs22str_decodes:
  assumes "even (length s)" "length s < 2 ^ 32"
  shows "ucs22str s = Inr (string_of_runes (utf16_Decode (units s)))"
proof -
  let ?n = "length s div 8 * 8"
  obtain f i buf w where l: "ucs_loop s ?n 0 (replicate (length s div 2) 0) 0 = (f, i, buf, w)"
    by (metis prod_cases4)
  have c0: "copied s 0 (replicate (length s div 2) 0) 0" by (simp add: copied_def)
  have r: "if f then copied s i buf w \<and> i = ?n else \<not> ascii16 s"
    using ucs_loop_ok [OF c0, of ?n] unfolding l prod.case by (cases f) auto
  have "length s < ?n + 8" by presburger
  with r have t: "(if f then ucs_tail s i buf w else None) = (if ascii16 s then Some (lows s) else None)"
    using ucs_tail_ok [OF _ assms(1), of i buf w] by (cases f) auto
  show ?thesis
    unfolding ucs22str_def nlen8 [OF assms(2)] l prod.case t
    using assms(1) by (simp add: string_of_runes_def ascii_runes)
qed

lemma ucs22str_str2ucs2:
  assumes "length (str2ucs2 s) < 2 ^ 32"
  shows "ucs22str (str2ucs2 s) = Inr (string_of_runes (runes s))"
  using ucs22str_decodes [OF even_str2ucs2 assms]
  by (simp add: str2ucs2_def utf16_Decode_Encode runes_scalar)

section \<open>Length-prefixed strings\<close>

text \<open>A call that returns \<open>(x, err)\<close> computed without effects.\<close>

definition glift :: "err + 'a \<Rightarrow> ('s, 'a) go" where
  "glift r = (case r of Inl e \<Rightarrow> graise (Err e) | Inr x \<Rightarrow> gret x)"

definition readUcs2 :: "'s reader \<Rightarrow> nat \<Rightarrow> ('s, string) go" where
  "readUcs2 r numchars = gbind (io_ReadFull r (numchars * 2)) (\<lambda>buf. glift (ucs22str buf))"

definition readUshort :: "'s reader \<Rightarrow> ('s, u16) go" where
  "readUshort r = binary_Read r 2"

text \<open>One call of \<open>Read\<close> on one byte: when it delivers nothing and no error, the byte is 0.\<close>

definition readByte :: "'s reader \<Rightarrow> ('s, byte) go" where
  "readByte r = gbind (r 1) (\<lambda>b. gret (case b of [] \<Rightarrow> 0 | x # _ \<Rightarrow> x))"

definition readUsVarChar :: "'s reader \<Rightarrow> ('s, string) go" where
  "readUsVarChar r = gbind (readUshort r) (\<lambda>numchars. readUcs2 r (unat numchars))"

definition writeUsVarChar :: "'s writer \<Rightarrow> string \<Rightarrow> ('s, unit) go" where
  "writeUsVarChar w s =
     (let buf = str2ucs2 s; numchars = length buf div 2 in
      if 0xFFFF < numchars then graise (RuntimePanic ''invalid size for US_VARCHAR'')
      else gthen (binary_Write w 2 (word_of_nat numchars :: u16)) (io_Write w buf))"

definition readBVarChar :: "'s reader \<Rightarrow> ('s, string) go" where
  "readBVarChar r =
     gbind (readByte r) (\<lambda>numchars. if numchars = 0 then gret [] else readUcs2 r (unat numchars))"

definition writeBVarChar :: "'s writer \<Rightarrow> string \<Rightarrow> ('s, unit) go" where
  "writeBVarChar w s =
     (let buf = str2ucs2 s; numchars = length buf div 2 in
      if 0xFF < numchars then graise (RuntimePanic ''invalid size for B_VARCHAR'')
      else gthen (binary_Write w 1 (word_of_nat numchars :: byte)) (io_Write w buf))"

definition readBVarByte :: "'s reader \<Rightarrow> ('s, bytes) go" where
  "readBVarByte r = gbind (readByte r) (\<lambda>len. io_ReadFull r (unat len))"

text \<open>What they put on the wire, and the lengths that fit.\<close>

definition utf16_len :: "string \<Rightarrow> nat" where
  "utf16_len s = length (utf16_Encode (runes s))"

definition usvarchar :: "string \<Rightarrow> bytes" where
  "usvarchar s = le_bytes 2 (word_of_nat (utf16_len s) :: u16) @ str2ucs2 s"

definition bvarchar :: "string \<Rightarrow> bytes" where
  "bvarchar s = (word_of_nat (utf16_len s) :: byte) # str2ucs2 s"

context byte_sink
begin

lemma emits_UsVarChar: "utf16_len s \<le> 0xFFFF \<Longrightarrow> emits (writeUsVarChar wr s) (usvarchar s) ()"
  unfolding writeUsVarChar_def usvarchar_def Let_def
  by (auto simp: length_str2ucs2 utf16_len_def simp del: le_bytes_numeral)

lemma emits_BVarChar: 
  assumes "utf16_len s \<le> 0xFF" shows "emits (writeBVarChar wr s) (bvarchar s) ()"
proof -
  have b: "le_bytes 1 (word_of_nat n :: byte) @ xs = word_of_nat n # xs" for n xs by simp
  have "emits (gthen (binary_Write wr 1 (word_of_nat n :: byte)) (io_Write wr xs)) (word_of_nat n # xs) ()" for n xs
    using emits_then [OF emits_binary_Write [of 1 "word_of_nat n :: byte"] emits_Write [of xs]] by (simp only: b)
  with assms show ?thesis
    unfolding writeBVarChar_def bvarchar_def Let_def by (simp add: length_str2ucs2 utf16_len_def)
qed

end

lemma reads_Read1: "reads (Read 1) [b] [b]"
  unfolding reads_def
proof (intro allI impI)
  fix r ys assume r: "rok r" and st: "stream r = [b] @ ys"
  have main: "\<exists>r'. Read 1 r = (Inr [b], r') \<and> rok r' \<and> stream r' = ys"
    if e: "ensure_packet r = (Inr (), q)" and q: "rok q" "rpos q < rsize q" "stream q = stream r" for q
  proof -
    from q(2) have m: "min 1 (rsize q - rpos q) = 1" and k: "rpos q + 1 \<le> rsize q" by auto
    note adv = stream_advance [OF q(1) k]
    have "length (take 1 (drop (roff q + rpos q) (bufmem q))) = 1" using adv(3) by simp
    with adv(1) q(3) st have "take 1 (drop (roff q + rpos q) (bufmem q)) = [b]"
      "stream (q\<lparr>rpos := rpos q + 1\<rparr>) = ys"
      by (metis append_eq_append_conv length_Cons list.size(3) One_nat_def)+
    with Read_run [OF q(1,2) e, of 1] adv(2) m show ?thesis by simp
  qed
  from r show "\<exists>r'. Read 1 r = (Inr [b], r') \<and> rok r' \<and> stream r' = ys"
    by (cases rule: ensure_packet_cases) (use r st main in auto)
qed

lemma reads_readByte: "reads (readByte Read) [b] b"
  unfolding readByte_def using reads_map [OF reads_Read1, of "\<lambda>b. case b of [] \<Rightarrow> 0 | x # _ \<Rightarrow> x" b] by simp

lemma reads_readUshort: "reads (readUshort Read) (le_bytes 2 w) w"
  unfolding readUshort_def binary_Read_def
  using reads_map [OF reads_io_ReadFull [of "le_bytes 2 w" 2], of "le_word :: bytes \<Rightarrow> u16"]
  by (simp add: le_codec del: le_bytes_numeral)

lemma reads_glift: "r = Inr x \<Longrightarrow> reads (glift r) [] x"
  by (simp add: glift_def reads_ret)

text \<open>A string as the peer reads it: invalid bytes have become U+FFFD.\<close>

definition sanitized :: "string \<Rightarrow> string" where
  "sanitized s = string_of_runes (runes s)"

lemma sanitized_valid: "valid_utf8 s \<Longrightarrow> sanitized s = s"
  by (simp add: sanitized_def valid_utf8_def)

lemma reads_readUcs2:
  assumes "utf16_len s = n" "n < 2 ^ 31"
  shows "reads (readUcs2 Read n) (str2ucs2 s) (sanitized s)"
proof -
  have l: "length (str2ucs2 s) = n * 2" using assms by (simp add: length_str2ucs2 utf16_len_def)
  have "reads (glift (ucs22str (str2ucs2 s))) [] (sanitized s)"
    by (rule reads_glift) (use ucs22str_str2ucs2 [of s] l assms(2) in \<open>simp add: sanitized_def\<close>)
  from reads_bind [where f = "\<lambda>buf. glift (ucs22str buf)", OF reads_io_ReadFull [OF l] this]
  show ?thesis by (simp add: readUcs2_def)
qed

lemma reads_UsVarChar:
  assumes "utf16_len s \<le> 0xFFFF"
  shows "reads (readUsVarChar Read) (usvarchar s) (sanitized s)"
  unfolding readUsVarChar_def usvarchar_def
  by (rule reads_bind [OF reads_readUshort], rule reads_readUcs2) (use assms in \<open>simp_all add: unat_of_nat\<close>)

lemma utf16_empty:
  assumes "utf16_len s = 0" shows "str2ucs2 s = [] \<and> sanitized s = []"
proof -
  have "utf16_Encode (runes s) = []" using assms by (simp add: utf16_len_def)
  moreover have "runes s = []" using calculation by (cases "runes s") (auto split: if_splits)
  ultimately show ?thesis by (simp add: str2ucs2_def sanitized_def string_of_runes_def bytes_str_def)
qed

lemma reads_BVarChar:
  assumes "utf16_len s \<le> 0xFF"
  shows "reads (readBVarChar Read) (bvarchar s) (sanitized s)"
proof -
  have u: "unat (word_of_nat (utf16_len s) :: byte) = utf16_len s" using assms by (simp add: unat_of_nat)
  have "reads (if word_of_nat (utf16_len s) = (0 :: byte) then gret []
      else readUcs2 Read (unat (word_of_nat (utf16_len s) :: byte))) (str2ucs2 s) (sanitized s)"
  proof (cases "utf16_len s = 0")
    case True
    with utf16_empty show ?thesis by (simp add: reads_ret)
  next
    case False
    with u have "word_of_nat (utf16_len s) \<noteq> (0 :: byte)" by auto
    with u assms show ?thesis by (simp add: reads_readUcs2)
  qed
  from reads_bind [where f = "\<lambda>numchars. if numchars = 0 then gret [] else readUcs2 Read (unat numchars)",
      OF reads_readByte this]
  show ?thesis by (simp add: readBVarChar_def bvarchar_def)
qed

lemma reads_BVarByte: "length xs < 256 \<Longrightarrow> reads (readBVarByte Read) (word_of_nat (length xs) # xs) xs"
  using reads_bind [where f = "\<lambda>len. io_ReadFull Read (unat len)",
      OF reads_readByte reads_io_ReadFull, of xs "word_of_nat (length xs)"]
  by (simp add: readBVarByte_def unat_of_nat)

section \<open>Properties of the string codecs\<close>

text \<open>
  C35. The word-at-a-time ASCII path of \<open>ucs22str\<close> is unobservable: on every byte string of
  even length (below the 4 GiB at which the chunk count \<open>len(s) & 0xFFFFFFF8\<close> loses its
  high bits) the result is that of decoding UTF-16, and an odd length is an error.
\<close>

theorem ucs22str_reference:
  assumes "length s < 2 ^ 32"
  shows "ucs22str s = (if even (length s) then Inr (string_of_runes (utf16_Decode (units s)))
                       else Inl (ErrMsg ''illegal UCS2 string length: %d''))"
  using ucs22str_decodes [OF _ assms] by (simp add: ucs22str_def odd_iff_mod_2_eq_one)

theorem ucs22str_reference_witness:
  "ucs22str [72, 0, 105, 0, 0x3D, 0xD8, 0, 0xDE] = Inr (map char_of [72, 105, 0xF0, 0x9F, 0x98, 0x80 :: nat])"
proof -
  have "ucs22str [72, 0, 105, 0, 0x3D, 0xD8, 0, 0xDE]
      = Inr (string_of_runes (utf16_Decode (units [72, 0, 105, 0, 0x3D, 0xD8, 0, 0xDE])))"
    by (subst ucs22str_reference) simp_all
  also have "string_of_runes (utf16_Decode (units [72, 0, 105, 0, 0x3D, 0xD8, 0, 0xDE]))
      = map char_of [72, 105, 0xF0, 0x9F, 0x98, 0x80 :: nat]"
    by (simp add: string_of_runes_def bytes_str_def byte_char_def EncodeRune_def scalar_def)
  finally show ?thesis .
qed

text \<open>
  A string of at most 65535 UTF-16 code units written as US_VARCHAR is read back by
  \<open>readUsVarChar\<close> with every byte sequence that is not UTF-8 replaced by U+FFFD, hence
  unchanged when it is valid; longer strings panic before anything is written.
\<close>

theorem UsVarChar_roundtrip:
  "if utf16_len s \<le> 0xFFFF
   then \<exists>out. writeUsVarChar buffer_write s [] = (Inr (), out)
          \<and> reads (readUsVarChar Read) out (if valid_utf8 s then s else sanitized s)
   else writeUsVarChar buffer_write s [] = (Inl (RuntimePanic ''invalid size for US_VARCHAR''), [])"
proof (cases "utf16_len s \<le> 0xFFFF")
  case True
  then show ?thesis
    using bytes_buffer.emitsD [OF bytes_buffer.emits_UsVarChar [OF True] refl, of "[]"]
      reads_UsVarChar [OF True] sanitized_valid [of s] by (cases "valid_utf8 s") simp_all
next
  case False
  then show ?thesis
    by (simp add: writeUsVarChar_def Let_def length_str2ucs2 utf16_len_def graise_run)
qed

text \<open>
  The server can undo \<open>manglePassword\<close>: swapping the nibbles of every byte after
  exclusive-or with 0xA5 gives the UTF-16 form of the password, from which the password itself
  is decoded when it is valid UTF-8.
\<close>

theorem manglePassword_recovers:
  assumes "valid_utf8 p" "utf16_len p < 2 ^ 31"
  shows "ucs22str (map (\<lambda>m. let x = m XOR 0xA5 in push_bit 4 x OR drop_bit 4 x) (manglePassword p)) = Inr p"
proof -
  have "map (\<lambda>m. let x = m XOR 0xA5 in push_bit 4 x OR drop_bit 4 x) (manglePassword p) = str2ucs2 p"
    unfolding manglePassword_def map_map o_def mangle_byte_inverse by simp
  with ucs22str_str2ucs2 [of p] assms show ?thesis
    by (simp add: length_str2ucs2 utf16_len_def valid_utf8_def)
qed

theorem manglePassword_recovers_witness:
  "ucs22str (map (\<lambda>m. let x = m XOR 0xA5 in push_bit 4 x OR drop_bit 4 x) (manglePassword ''pw'')) = Inr ''pw''"
proof (rule manglePassword_recovers)
  have r: "runes ''pw'' = [112, 119]"
    by (simp add: runes_def str_bytes_def char_byte_def utf8_runes.simps DecodeRune_def)
  have "map char_of [112, 119 :: nat] = ''pw''" by code_simp
  then show "valid_utf8 ''pw''"
    by (simp add: valid_utf8_def r string_of_runes_def bytes_str_def byte_char_def EncodeRune_def scalar_def)
  show "utf16_len ''pw'' < 2 ^ 31" by (simp add: utf16_len_def r)
qed

end
