(* ===== verification/Charset.thy ===== *)
theory Charset
  imports Code_Pages Go_Text
begin

text \<open>
  Collations and character sets, \<open>src/internal/cp/collation.go\<close> and
  \<open>src/internal/cp/charset.go\<close>: which code page a collation uses and the conversion of
  a \<open>char\<close> value to UTF-8. The double-byte maps of the pages 932, 936, 949 and 950 are
  an argument \<open>db\<close> of the conversion.
\<close>

record Collation =
  LcidAndFlags :: u32
  SortId :: byte

definition getLcid :: "Collation \<Rightarrow> u32" where
  "getLcid c = LcidAndFlags c AND 0x000fffff"

definition getFlags :: "Collation \<Rightarrow> u32" where
  "getFlags c = drop_bit 20 (LcidAndFlags c AND 0x0ff00000)"

definition getVersion :: "Collation \<Rightarrow> u32" where
  "getVersion c = drop_bit 28 (LcidAndFlags c AND 0xf0000000)"

datatype codepage = CP437 | CP850 | CP874 | CP932 | CP936 | CP949 | CP950 | CP1250 | CP1251
  | CP1252 | CP1253 | CP1254 | CP1255 | CP1256 | CP1257 | CP1258

fun sb :: "codepage \<Rightarrow> int list" where
  "sb CP437 = cp437" | "sb CP850 = cp850" | "sb CP874 = cp874" | "sb CP932 = cp932"
| "sb CP936 = cp936" | "sb CP949 = cp949" | "sb CP950 = cp950" | "sb CP1250 = cp1250"
| "sb CP1251 = cp1251" | "sb CP1252 = cp1252" | "sb CP1253 = cp1253" | "sb CP1254 = cp1254"
| "sb CP1255 = cp1255" | "sb CP1256 = cp1256" | "sb CP1257 = cp1257" | "sb CP1258 = cp1258"

text \<open>The switch on the sort id; \<open>None\<close>: no case matches.\<close>

definition sortid_charset :: "nat \<Rightarrow> codepage option" where
  "sortid_charset i =
     (if i \<in> {30, 31, 32, 33, 34} then Some CP437
      else if i \<in> {40, 41, 42, 44, 49, 55, 56, 57, 58, 59, 60, 61} then Some CP850
      else if i \<in> {50, 51, 52, 53, 54, 71, 72, 73, 74, 75} then Some CP1252
      else if i \<in> {80, 81, 82, 83, 84, 85, 86, 87, 88, 89, 90, 91, 92, 93, 94, 95, 96} then Some CP1250
      else if i \<in> {104, 105, 106, 107, 108} then Some CP1251
      else if i \<in> {112, 113, 114, 121, 124} then Some CP1253
      else if i \<in> {128, 129, 130} then Some CP1254
      else if i \<in> {136, 137, 138} then Some CP1255
      else if i \<in> {144, 145, 146} then Some CP1256
      else if i \<in> {152, 153, 154, 155, 156, 157, 158, 159, 160} then Some CP1257
      else if i \<in> {183, 184, 185, 186} then Some CP1252
      else if i \<in> {192, 193} then Some CP932
      else if i \<in> {194, 195} then Some CP949
      else if i \<in> {196, 197} then Some CP950
      else if i \<in> {198, 199} then Some CP936
      else if i = 200 then Some CP932
      else if i = 201 then Some CP949
      else if i = 202 then Some CP950
      else if i = 203 then Some CP936
      else if i \<in> {204, 205, 206} then Some CP874
      else if i \<in> {210, 211, 212, 213, 214, 215, 216, 217} then Some CP1252
      else None)"

text \<open>The switch on the LCID; \<open>None\<close> is the nil of the Unicode-only collations.\<close>

definition lcid_charset :: "nat \<Rightarrow> codepage option" where
  "lcid_charset l =
     (if l \<in> {0x001e, 0x041e} then Some CP874
      else if l \<in> {0x0411, 0x10411, 0x40411} then Some CP932
      else if l \<in> {0x0804, 0x1004, 0x20804} then Some CP936
      else if l \<in> {0x0012, 0x0412} then Some CP949
      else if l \<in> {0x0404, 0x1404, 0x0c04, 0x7c04, 0x30404, 0x21404} then Some CP950
      else if l \<in> {0x041c, 0x041a, 0x0405, 0x040e, 0x104e, 0x0415, 0x0418, 0x041b, 0x0424, 0x1040e,
                   0x0442, 0x081A, 0x141A} then Some CP1250
      else if l \<in> {0x0423, 0x0402, 0x042f, 0x0419, 0x0c1a, 0x0422, 0x043f, 0x0444, 0x082c, 0x046D,
                   0x0485, 0x201A} then Some CP1251
      else if l = 0x0408 then Some CP1253
      else if l \<in> {0x041f, 0x042c, 0x0443} then Some CP1254
      else if l = 0x040d then Some CP1255
      else if l \<in> {0x0401, 0x0801, 0xc01, 0x1001, 0x1401, 0x1801, 0x1c01, 0x2001, 0x2401, 0x2801,
                   0x2c01, 0x3001, 0x3401, 0x3801, 0x3c01, 0x4001, 0x0429, 0x0420, 0x0480, 0x048C}
      then Some CP1256
      else if l \<in> {0x0425, 0x0426, 0x0427, 0x0827} then Some CP1257
      else if l = 0x042a then Some CP1258
      else if l \<in> {0x0439, 0x045a, 0x0465, 0x043A, 0x0445, 0x044D, 0x0451, 0x0453, 0x0454, 0x0461,
                   0x0463, 0x0481} then None
      else Some CP1252)"

definition collation2charset :: "Collation \<Rightarrow> codepage option" where
  "collation2charset col =
     (case sortid_charset (unat (SortId col)) of
        Some cp \<Rightarrow> Some cp
      | None \<Rightarrow> lcid_charset (unat (getLcid col)))"

type_synonym dbcs = "codepage \<Rightarrow> nat \<Rightarrow> rune option"

fun charset_runes :: "dbcs \<Rightarrow> codepage \<Rightarrow> bytes \<Rightarrow> rune list" where
  "charset_runes db cm [] = []"
| "charset_runes db cm (b # rest) =
     (let ch = sb cm ! unat b in
      if ch = -1
      then (case rest of
              [] \<Rightarrow> [0xFFFD]
            | c # rest' \<Rightarrow>
                (case db cm (unat c + unat b * 256) of Some r \<Rightarrow> r | None \<Rightarrow> 0xFFFD)
                # charset_runes db cm rest')
      else nat ch # charset_runes db cm rest)"

definition CharsetToUTF8 :: "dbcs \<Rightarrow> Collation \<Rightarrow> bytes \<Rightarrow> string" where
  "CharsetToUTF8 db col s =
     (case collation2charset col of
        None \<Rightarrow> bytes_str s
      | Some cm \<Rightarrow> string_of_runes (charset_runes db cm s))"

section \<open>Every page extends ASCII\<close>

definition ascii128 :: "int list" where
  "ascii128 = map int [0..<128]"

lemma ascii128: "ascii128 = take 128 cp437"
  unfolding ascii128_def cp437_def by (simp add: upt_rec)

lemma sb_ascii128: "take 128 (sb cm) = ascii128"
  by (cases cm) (simp_all only: sb.simps ascii128,
    simp_all add: cp437_def cp850_def cp874_def cp932_def cp936_def cp949_def cp950_def cp1250_def
      cp1251_def cp1252_def cp1253_def cp1254_def cp1255_def cp1256_def cp1257_def cp1258_def)

lemma sb_ascii:
  assumes "n < 128" shows "sb cm ! n = int n"
proof -
  have "sb cm ! n = take 128 (sb cm) ! n" using assms by simp
  also have "\<dots> = int n" using assms by (simp add: sb_ascii128 ascii128_def)
  finally show ?thesis .
qed

lemma charset_runes_ascii:
  "\<forall>b \<in> set s. unat b < 128 \<Longrightarrow> charset_runes db cm s = map unat s"
proof (induction s)
  case (Cons b s)
  moreover from Cons.prems have "sb cm ! unat b = int (unat b)" by (intro sb_ascii) simp
  moreover have "int (unat b) \<noteq> -1" using of_nat_0_le_iff [of "unat b", where 'a = int] by linarith
  ultimately show ?case by simp
qed simp

lemma EncodeRune_replacement: "EncodeRune (if scalar r then r else RuneError) = EncodeRune r"
  by (simp add: EncodeRune_def)

lemma valid_any_runes: "valid_utf8 (string_of_runes rs)"
proof -
  let ?f = "\<lambda>r. if scalar r then r else RuneError"
  have "list_all scalar (map ?f rs)" by (auto simp: list_all_iff)
  moreover have "string_of_runes (map ?f rs) = string_of_runes rs"
    by (simp add: string_of_runes_def o_def EncodeRune_replacement)
  ultimately show ?thesis using valid_string_of_runes [of "map ?f rs"] by simp
qed

text \<open>
  Text that is ASCII is the same text in every collation: whatever code page the collation
  selects, or none, the conversion to UTF-8 returns the bytes unchanged. And whatever the bytes
  are, the conversion through a code page returns valid UTF-8.
\<close>

theorem CharsetToUTF8_ascii_valid:
  "((\<forall>b. b \<in> set s \<longrightarrow> unat b < 128) \<longrightarrow> CharsetToUTF8 db col s = bytes_str s)
   \<and> (collation2charset col \<noteq> None \<longrightarrow> valid_utf8 (CharsetToUTF8 db col s))"
proof (cases "collation2charset col")
  case None
  then show ?thesis by (simp add: CharsetToUTF8_def)
next
  case (Some cm)
  have enc: "EncodeRune n = [n]" if "n < 128" for n using that by (simp add: EncodeRune_def scalar_def)
  have "concat (map EncodeRune (map unat s)) = map unat s" if "\<forall>b \<in> set s. unat b < 128"
    using that by (induction s) (simp_all add: enc)
  with Some show ?thesis
    by (auto simp: CharsetToUTF8_def charset_runes_ascii string_of_runes_def [of "map unat s"] o_def valid_any_runes)
qed

theorem CharsetToUTF8_ascii_valid_witness:
  "CharsetToUTF8 (\<lambda>_ _. None) \<lparr>LcidAndFlags = 0x411, SortId = 0\<rparr> [0x48, 0x69] = bytes_str [0x48, 0x69]
   \<and> valid_utf8 (CharsetToUTF8 (\<lambda>_ _. None) \<lparr>LcidAndFlags = 0x411, SortId = 0\<rparr> [0x81, 0x40])"
proof -
  let ?c = "\<lparr>LcidAndFlags = 0x411, SortId = 0\<rparr>"
  have c: "collation2charset ?c = Some CP932"
    by (simp add: collation2charset_def sortid_charset_def lcid_charset_def getLcid_def)
  show ?thesis
    using CharsetToUTF8_ascii_valid [of "[0x48, 0x69]" "\<lambda>_ _. None" ?c]
      CharsetToUTF8_ascii_valid [of "[0x81, 0x40]" "\<lambda>_ _. None" ?c] c by simp
qed

end
