(* ===== verification/Tds_Types.thy ===== *)
theory Tds_Types
  imports Ucs2 Decimal Charset
begin

text \<open>
  Column types and values, \<open>src/types.go\<close>: the type information of a column
  (\<open>readTypeInfo\<close>, \<open>writeTypeInfo\<close>) and the readers and writers of the values of
  every type.
\<close>

section \<open>Types\<close>

definition typeNull :: byte where "typeNull = 0x1f"
definition typeInt1 :: byte where "typeInt1 = 0x30"
definition typeBit :: byte where "typeBit = 0x32"
definition typeInt2 :: byte where "typeInt2 = 0x34"
definition typeInt4 :: byte where "typeInt4 = 0x38"
definition typeDateTim4 :: byte where "typeDateTim4 = 0x3a"
definition typeFlt4 :: byte where "typeFlt4 = 0x3b"
definition typeMoney :: byte where "typeMoney = 0x3c"
definition typeDateTime :: byte where "typeDateTime = 0x3d"
definition typeFlt8 :: byte where "typeFlt8 = 0x3e"
definition typeMoney4 :: byte where "typeMoney4 = 0x7a"
definition typeInt8 :: byte where "typeInt8 = 0x7f"
definition typeGuid :: byte where "typeGuid = 0x24"
definition typeIntN :: byte where "typeIntN = 0x26"
definition typeDecimal :: byte where "typeDecimal = 0x37"
definition typeNumeric :: byte where "typeNumeric = 0x3f"
definition typeBitN :: byte where "typeBitN = 0x68"
definition typeDecimalN :: byte where "typeDecimalN = 0x6a"
definition typeNumericN :: byte where "typeNumericN = 0x6c"
definition typeFltN :: byte where "typeFltN = 0x6d"
definition typeMoneyN :: byte where "typeMoneyN = 0x6e"
definition typeDateTimeN :: byte where "typeDateTimeN = 0x6f"
definition typeDateN :: byte where "typeDateN = 0x28"
definition typeTimeN :: byte where "typeTimeN = 0x29"
definition typeDateTime2N :: byte where "typeDateTime2N = 0x2a"
definition typeDateTimeOffsetN :: byte where "typeDateTimeOffsetN = 0x2b"
definition typeChar :: byte where "typeChar = 0x2f"
definition typeVarChar :: byte where "typeVarChar = 0x27"
definition typeBinary :: byte where "typeBinary = 0x2d"
definition typeVarBinary :: byte where "typeVarBinary = 0x25"
definition typeBigVarBin :: byte where "typeBigVarBin = 0xa5"
definition typeBigVarChar :: byte where "typeBigVarChar = 0xa7"
definition typeBigBinary :: byte where "typeBigBinary = 0xad"
definition typeBigChar :: byte where "typeBigChar = 0xaf"
definition typeNVarChar :: byte where "typeNVarChar = 0xe7"
definition typeNChar :: byte where "typeNChar = 0xef"
definition typeXml :: byte where "typeXml = 0xf1"
definition typeUdt :: byte where "typeUdt = 0xf0"
definition typeTvp :: byte where "typeTvp = 0xf3"
definition typeText :: byte where "typeText = 0x23"
definition typeImage :: byte where "typeImage = 0x22"
definition typeNText :: byte where "typeNText = 0x63"
definition typeVariant :: byte where "typeVariant = 0x62"

lemmas type_ids = typeNull_def typeInt1_def typeBit_def typeInt2_def typeInt4_def typeDateTim4_def
  typeFlt4_def typeMoney_def typeDateTime_def typeFlt8_def typeMoney4_def typeInt8_def typeGuid_def
  typeIntN_def typeDecimal_def typeNumeric_def typeBitN_def typeDecimalN_def typeNumericN_def
  typeFltN_def typeMoneyN_def typeDateTimeN_def typeDateN_def typeTimeN_def typeDateTime2N_def
  typeDateTimeOffsetN_def typeChar_def typeVarChar_def typeBinary_def typeVarBinary_def
  typeBigVarBin_def typeBigVarChar_def typeBigBinary_def typeBigChar_def typeNVarChar_def
  typeNChar_def typeXml_def typeUdt_def typeTvp_def typeText_def typeImage_def typeNText_def
  typeVariant_def

definition PLP_NULL :: u64 where "PLP_NULL = 0xFFFFFFFFFFFFFFFF"
definition UNKNOWN_PLP_LEN :: u64 where "UNKNOWN_PLP_LEN = 0xFFFFFFFFFFFFFFFE"
definition PLP_TERMINATOR :: u32 where "PLP_TERMINATOR = 0"

text \<open>
  The \<open>Reader\<close> and \<open>Writer\<close> of a type are one of the functions below. Its
  \<open>Buffer\<close> is scratch space: a reader overwrites the bytes it uses, so that only the
  length of the buffer matters.
\<close>

datatype rdr = RdFixed | RdByteLen | RdShortLen | RdLongLen
  | RdPLP | RdVariant

datatype wtr = WrFixed | WrByteLen | WrGuid | WrShortLen
  | WrLongLen | WrPLP

record udtInfo =
  u_DBName :: string
  u_SchemaName :: string
  u_TypeName :: string
  u_AssemblyQualifiedName :: string

record xmlInfo =
  x_SchemaPresent :: byte
  x_DBName :: string
  x_OwningSchema :: string
  x_XmlSchemaCollection :: string

record typeInfo =
  TypeId :: byte
  UserType :: u32
  Flags :: u16
  Size :: int
  Scale :: byte
  Prec :: byte
  Buffer :: bytes
  Coll :: Collation
  UdtInfo :: udtInfo
  XmlInfo :: xmlInfo
  Reader :: "rdr option"
  Writer :: "wtr option"

definition typeInfo_zero :: typeInfo where
  "typeInfo_zero = \<lparr>TypeId = 0, UserType = 0, Flags = 0, Size = 0, Scale = 0, Prec = 0, Buffer = [],
     Coll = \<lparr>LcidAndFlags = 0, SortId = 0\<rparr>,
     UdtInfo = \<lparr>u_DBName = [], u_SchemaName = [], u_TypeName = [], u_AssemblyQualifiedName = []\<rparr>,
     XmlInfo = \<lparr>x_SchemaPresent = 0, x_DBName = [], x_OwningSchema = [], x_XmlSchemaCollection = []\<rparr>,
     Reader = None, Writer = None\<rparr>"

text \<open>The encoding parameters of the connection; the zone is an offset in seconds, nil is UTC.\<close>

record EncodeParameters =
  Timezone :: "int option"
  GuidConversion :: bool

definition GetTimezone :: "EncodeParameters \<Rightarrow> int" where
  "GetTimezone e = (case Timezone e of None \<Rightarrow> 0 | Some z \<Rightarrow> z)"

text \<open>
  What a reader returns. A \<open>float32\<close> or \<open>float64\<close> is kept as its bits; the driver
  only passes them on.
\<close>

datatype val = VNil | VInt int | VBool bool | VFlt4 u32 | VFlt8 u64 | VTime time | VBytes bytes | VStr string

definition is_fixed :: "byte \<Rightarrow> bool" where
  "is_fixed t \<longleftrightarrow> t \<in> {typeNull, typeInt1, typeBit, typeInt2, typeInt4, typeDateTim4, typeFlt4, typeMoney,
     typeDateTime, typeFlt8, typeMoney4, typeInt8}"

definition is_decimal :: "byte \<Rightarrow> bool" where
  "is_decimal t \<longleftrightarrow> t \<in> {typeDecimal, typeNumeric, typeDecimalN, typeNumericN}"

definition is_bytelen :: "byte \<Rightarrow> bool" where
  "is_bytelen t \<longleftrightarrow> t \<in> {typeIntN, typeDecimal, typeNumeric, typeBitN, typeDecimalN, typeNumericN, typeFltN,
     typeMoneyN, typeDateTimeN, typeChar, typeVarChar, typeBinary, typeVarBinary}"

definition has_collation :: "byte \<Rightarrow> bool" where
  "has_collation t \<longleftrightarrow> t \<in> {typeBigVarChar, typeBigChar, typeNVarChar, typeNChar}"

definition is_scaled_time :: "byte \<Rightarrow> bool" where
  "is_scaled_time t \<longleftrightarrow> t \<in> {typeTimeN, typeDateTime2N, typeDateTimeOffsetN}"

definition gfault :: "fault + 'a \<Rightarrow> ('s, 'a) go" where
  "gfault r = (case r of Inl f \<Rightarrow> graise f | Inr x \<Rightarrow> gret x)"

section \<open>Reading type information\<close>

definition r_BVarChar :: "(tdsBuffer, string) go" where
  "r_BVarChar = or_panic (readBVarChar Read)"

definition r_UsVarChar :: "(tdsBuffer, string) go" where
  "r_UsVarChar = or_panic (readUsVarChar Read)"

definition readCollation :: "(tdsBuffer, Collation) go" where
  "readCollation = gbind r_uint32 (\<lambda>l. gbind r_byte (\<lambda>s. gret \<lparr>LcidAndFlags = l, SortId = s\<rparr>))"

definition scale_size :: "byte \<Rightarrow> fault + int" where
  "scale_size sc =
     (if unat sc \<le> 2 then Inr 3 else if unat sc \<le> 4 then Inr 4 else if unat sc \<le> 7 then Inr 5
      else Inl (StreamPanicf ''Invalid scale for TIME/DATETIME2/DATETIMEOFFSET type''))"

primrec skip_UsVarChars :: "nat \<Rightarrow> (tdsBuffer, unit) go" where
  "skip_UsVarChars 0 = gret ()"
| "skip_UsVarChars (Suc n) = gthen r_UsVarChar (skip_UsVarChars n)"

definition readXmlInfo :: "(tdsBuffer, xmlInfo) go" where
  "readXmlInfo =
     gbind r_byte (\<lambda>present.
       if present \<noteq> 0
       then gbind r_BVarChar (\<lambda>db. gbind r_BVarChar (\<lambda>os. gbind r_UsVarChar (\<lambda>sc.
              gret \<lparr>x_SchemaPresent = present, x_DBName = db, x_OwningSchema = os,
                    x_XmlSchemaCollection = sc\<rparr>)))
       else gret \<lparr>x_SchemaPresent = present, x_DBName = [], x_OwningSchema = [],
                  x_XmlSchemaCollection = []\<rparr>)"

definition readUdtInfo :: "(tdsBuffer, udtInfo) go" where
  "readUdtInfo =
     gbind r_BVarChar (\<lambda>db. gbind r_BVarChar (\<lambda>sn. gbind r_BVarChar (\<lambda>tn. gbind r_UsVarChar (\<lambda>an.
       gret \<lparr>u_DBName = db, u_SchemaName = sn, u_TypeName = tn, u_AssemblyQualifiedName = an\<rparr>))))"

definition set_size :: "int \<Rightarrow> rdr \<Rightarrow> typeInfo \<Rightarrow> typeInfo" where
  "set_size n rd ti = ti\<lparr>Size := n, Buffer := replicate (nat n) 0, Reader := Some rd\<rparr>"

definition readVarLen :: "typeInfo \<Rightarrow> (tdsBuffer, typeInfo) go" where
  "readVarLen ti =
     (let t = TypeId ti in
      if t = typeDateN then gret (set_size 3 RdByteLen ti)
      else if is_scaled_time t then
        gbind r_byte (\<lambda>sc. gbind (gfault (scale_size sc)) (\<lambda>n.
          let n = (if t = typeDateTime2N then n + 3 else if t = typeDateTimeOffsetN then n + 5 else n)
          in gret (set_size n RdByteLen (ti\<lparr>Scale := sc\<rparr>))))
      else if t = typeGuid \<or> is_bytelen t then
        gbind r_byte (\<lambda>n.
          let ti = set_size (uint n) RdByteLen ti in
          if is_decimal t
          then gbind r_byte (\<lambda>pr. gbind r_byte (\<lambda>sc. gret (ti\<lparr>Prec := pr, Scale := sc\<rparr>)))
          else gret ti)
      else if t = typeXml then
        gbind readXmlInfo (\<lambda>x. gret (ti\<lparr>XmlInfo := x, Reader := Some RdPLP\<rparr>))
      else if t = typeUdt then
        gbind r_uint16 (\<lambda>n. gbind readUdtInfo (\<lambda>u.
          gret ((set_size (uint n) RdPLP ti)\<lparr>UdtInfo := u\<rparr>)))
      else if t \<in> {typeBigVarBin, typeBigVarChar, typeBigBinary, typeBigChar, typeNVarChar, typeNChar} then
        gbind r_uint16 (\<lambda>n.
          gbind (if has_collation t then gbind readCollation (\<lambda>c. gret (ti\<lparr>Coll := c\<rparr>)) else gret ti) (\<lambda>ti.
            if n = 0xffff then gret (ti\<lparr>Size := uint n, Reader := Some RdPLP\<rparr>)
            else gret (set_size (uint n) RdShortLen ti)))
      else if t \<in> {typeText, typeImage, typeNText, typeVariant} then
        gbind r_int32 (\<lambda>n.
          let ti = ti\<lparr>Size := n\<rparr> in
          if t = typeText \<or> t = typeNText then
            gbind readCollation (\<lambda>c. gbind r_byte (\<lambda>parts. gthen (skip_UsVarChars (unat parts))
              (gret (ti\<lparr>Coll := c, Reader := Some RdLongLen\<rparr>))))
          else if t = typeImage then
            gbind r_byte (\<lambda>parts. gthen (skip_UsVarChars (unat parts))
              (gret (ti\<lparr>Reader := Some RdLongLen\<rparr>)))
          else gret (ti\<lparr>Reader := Some RdVariant\<rparr>))
      else graise (StreamPanicf ''Invalid type %d''))"

definition fixed_size :: "byte \<Rightarrow> int" where
  "fixed_size t =
     (if t = typeNull then 0
      else if t \<in> {typeInt1, typeBit} then 1
      else if t = typeInt2 then 2
      else if t \<in> {typeInt4, typeDateTim4, typeFlt4, typeMoney4} then 4
      else if t \<in> {typeMoney, typeDateTime, typeFlt8, typeInt8} then 8
      else 0)"

definition readTypeInfo :: "byte \<Rightarrow> (tdsBuffer, typeInfo) go" where
  "readTypeInfo typeId =
     (let res = typeInfo_zero\<lparr>TypeId := typeId\<rparr> in
      if is_fixed typeId then gret (set_size (fixed_size typeId) RdFixed res)
      else readVarLen res)"


section \<open>Decoding values\<close>

definition decodeGuid :: "bytes \<Rightarrow> EncodeParameters \<Rightarrow> bytes" where
  "decodeGuid buf encoding =
     (let res = take 16 (buf @ replicate 16 0) in
      if GuidConversion encoding
      then rev (take 4 res) @ rev (take 2 (drop 4 res)) @ rev (take 2 (drop 6 res)) @ drop 8 res
      else res)"

definition decodeChar :: "dbcs \<Rightarrow> Collation \<Rightarrow> bytes \<Rightarrow> string" where
  "decodeChar db col buf = CharsetToUTF8 db col buf"

definition decodeUcs2 :: "bytes \<Rightarrow> fault + string" where
  "decodeUcs2 buf =
     (case ucs22str buf of Inl e \<Rightarrow> Inl (StreamPanicf ''Invalid UCS2 encoding: %s'') | Inr s \<Rightarrow> Inr s)"

definition decodeNChar :: "bytes \<Rightarrow> fault + string" where "decodeNChar buf = decodeUcs2 buf"
definition decodeXml :: "bytes \<Rightarrow> fault + string" where "decodeXml buf = decodeUcs2 buf"
definition decodeUdt :: "bytes \<Rightarrow> bytes" where "decodeUdt buf = buf"

definition vmap :: "('a \<Rightarrow> val) \<Rightarrow> fault + 'a \<Rightarrow> fault + val" where
  "vmap f r = sbind r (\<lambda>x. Inr (f x))"

fun Uint64 :: "bytes \<Rightarrow> fault + u64" where
  "Uint64 (b0 # b1 # b2 # b3 # b4 # b5 # b6 # b7 # _) = Inr (le_word [b0, b1, b2, b3, b4, b5, b6, b7])"
| "Uint64 _ = Inl (RuntimePanic ''index out of range'')"

definition first_byte :: "bytes \<Rightarrow> fault + byte" where
  "first_byte buf = (case buf of [] \<Rightarrow> Inl (RuntimePanic ''index out of range'') | b # _ \<Rightarrow> Inr b)"

definition fixed_value :: "byte \<Rightarrow> bytes \<Rightarrow> int \<Rightarrow> fault + val" where
  "fixed_value t buf loc =
     (if t = typeNull then Inr VNil
      else if t = typeInt1 then vmap (\<lambda>b. VInt (uint b)) (first_byte buf)
      else if t = typeBit then vmap (\<lambda>b. VBool (b \<noteq> 0)) (first_byte buf)
      else if t = typeInt2 then vmap (\<lambda>w. VInt (sint w)) (Uint16 buf)
      else if t = typeInt4 then vmap (\<lambda>w. VInt (sint w)) (Uint32 buf)
      else if t = typeDateTim4 then vmap VTime (decodeDateTim4 buf loc)
      else if t = typeFlt4 then vmap VFlt4 (Uint32 buf)
      else if t = typeMoney4 then vmap (\<lambda>s. VBytes (str_bytes s)) (decodeMoney4 buf)
      else if t = typeMoney then vmap (\<lambda>s. VBytes (str_bytes s)) (decodeMoney buf)
      else if t = typeDateTime then vmap VTime (decodeDateTime buf loc)
      else if t = typeFlt8 then vmap VFlt8 (Uint64 buf)
      else if t = typeInt8 then vmap (\<lambda>w. VInt (sint w)) (Uint64 buf)
      else Inl (StreamPanicf ''Invalid typeid''))"

definition readFixedType :: "typeInfo \<Rightarrow> EncodeParameters \<Rightarrow> (tdsBuffer, val) go" where
  "readFixedType ti encoding =
     gbind (r_ReadFull (length (Buffer ti))) (\<lambda>buf.
       gfault (fixed_value (TypeId ti) buf (GetTimezone encoding)))"

definition intn_value :: "bytes \<Rightarrow> fault + val" where
  "intn_value buf =
     (if length buf = 1 then vmap (\<lambda>b. VInt (uint b)) (first_byte buf)
      else if length buf = 2 then vmap (\<lambda>w. VInt (sint w)) (Uint16 buf)
      else if length buf = 4 then vmap (\<lambda>w. VInt (sint w)) (Uint32 buf)
      else if length buf = 8 then vmap (\<lambda>w. VInt (sint w)) (Uint64 buf)
      else Inl (StreamPanicf ''Invalid size for INTNTYPE: %d''))"

definition bytelen_value :: "dbcs \<Rightarrow> typeInfo \<Rightarrow> bytes \<Rightarrow> EncodeParameters \<Rightarrow> fault + val" where
  "bytelen_value db ti buf encoding =
     (let t = TypeId ti; loc = GetTimezone encoding; sc = unat (Scale ti) in
      if t = typeDateN then
        (if length buf \<noteq> 3 then Inl (StreamPanicf ''Invalid size for DATENTYPE'')
         else vmap VTime (decodeDate buf loc))
      else if t = typeTimeN then Inr (VTime (decodeTime sc buf loc))
      else if t = typeDateTime2N then vmap VTime (decodeDateTime2 sc buf loc)
      else if t = typeDateTimeOffsetN then vmap VTime (decodeDateTimeOffset sc buf)
      else if t = typeGuid then Inr (VBytes (decodeGuid buf encoding))
      else if t = typeIntN then intn_value buf
      else if is_decimal t
      then vmap (\<lambda>s. VBytes (str_bytes s)) (decodeDecimal (Prec ti) (Scale ti) buf)
      else if t = typeBitN then
        (if length buf \<noteq> 1 then Inl (StreamPanicf ''Invalid size for BITNTYPE'')
         else vmap (\<lambda>b. VBool (b \<noteq> 0)) (first_byte buf))
      else if t = typeFltN then
        (if length buf = 4 then vmap VFlt4 (Uint32 buf)
         else if length buf = 8 then vmap VFlt8 (Uint64 buf)
         else Inl (StreamPanicf ''Invalid size for FLTNTYPE''))
      else if t = typeMoneyN then
        (if length buf = 4 then vmap (\<lambda>s. VBytes (str_bytes s)) (decodeMoney4 buf)
         else if length buf = 8 then vmap (\<lambda>s. VBytes (str_bytes s)) (decodeMoney buf)
         else Inl (StreamPanicf ''Invalid size for MONEYNTYPE''))
      else if t = typeDateTim4 then vmap VTime (decodeDateTim4 buf loc)
      else if t = typeDateTime then vmap VTime (decodeDateTime buf loc)
      else if t = typeDateTimeN then
        (if length buf = 4 then vmap VTime (decodeDateTim4 buf loc)
         else if length buf = 8 then vmap VTime (decodeDateTime buf loc)
         else Inl (StreamPanicf ''Invalid size for DATETIMENTYPE''))
      else if t = typeChar \<or> t = typeVarChar then Inr (VStr (decodeChar db (Coll ti) buf))
      else if t = typeBinary \<or> t = typeVarBinary then Inr (VBytes buf)
      else Inl (StreamPanicf ''Invalid typeid''))"

text \<open>\<open>r.ReadFull(ti.Buffer[:size])\<close>.\<close>

definition read_into :: "typeInfo \<Rightarrow> nat \<Rightarrow> (tdsBuffer, bytes) go" where
  "read_into ti n =
     (if length (Buffer ti) < n then graise (RuntimePanic ''slice bounds out of range'')
      else r_ReadFull n)"

text \<open>
  \<open>c\<close>: whether the value comes from a decrypted cell (the \<open>cryptoMetadata\<close> is not
  nil), in which case the buffer holds exactly the value.
\<close>

definition readByteLenTypeWithEncoding ::
    "dbcs \<Rightarrow> typeInfo \<Rightarrow> bool \<Rightarrow> EncodeParameters \<Rightarrow> (tdsBuffer, val) go" where
  "readByteLenTypeWithEncoding db ti c encoding =
     gbind (if c then (\<lambda>r. (Inr (word_of_nat (rsize r)), r)) else r_byte) (\<lambda>size.
       if size = 0 then gret VNil
       else gbind (read_into ti (unat size)) (\<lambda>buf. gfault (bytelen_value db ti buf encoding)))"

definition readShortLenType :: "dbcs \<Rightarrow> typeInfo \<Rightarrow> bool \<Rightarrow> (tdsBuffer, val) go" where
  "readShortLenType db ti c =
     gbind (if c then (\<lambda>r. (Inr (word_of_nat (rsize r)), r)) else r_uint16) (\<lambda>size.
       if size = 0xffff then gret VNil
       else gbind (read_into ti (unat size)) (\<lambda>buf.
         let t = TypeId ti in
         if t = typeBigVarChar \<or> t = typeBigChar then gret (VStr (decodeChar db (Coll ti) buf))
         else if t = typeBigVarBin \<or> t = typeBigBinary then gret (VBytes buf)
         else if t = typeNVarChar \<or> t = typeNChar then gfault (vmap VStr (decodeNChar buf))
         else if t = typeUdt then gret (VBytes (decodeUdt buf))
         else graise (StreamPanicf ''Invalid typeid'')))"

text \<open>\<open>make([]byte, n)\<close> followed by \<open>r.ReadFull\<close>.\<close>

definition read_make :: "int \<Rightarrow> (tdsBuffer, bytes) go" where
  "read_make n =
     (if n < 0 then graise (RuntimePanic ''makeslice: len out of range'') else r_ReadFull (nat n))"

definition readLongLenType :: "dbcs \<Rightarrow> typeInfo \<Rightarrow> (tdsBuffer, val) go" where
  "readLongLenType db ti =
     gbind r_byte (\<lambda>textptrsize.
       if textptrsize = 0 then gret VNil
       else gthen (r_ReadFull (unat textptrsize)) (gthen r_uint64 (gbind r_int32 (\<lambda>size.
         if size = -1 then gret VNil
         else gbind (read_make size) (\<lambda>buf.
           let t = TypeId ti in
           if t = typeText then gret (VStr (decodeChar db (Coll ti) buf))
           else if t = typeImage then gret (VBytes buf)
           else if t = typeNText then gfault (vmap VStr (decodeNChar buf))
           else graise (StreamPanicf ''Invalid typeid''))))))"

text \<open>The size of a variant's value is computed in \<open>int32\<close>.\<close>

definition variant_size :: "int \<Rightarrow> byte \<Rightarrow> int" where
  "variant_size sz propbytes = sint (word_of_int (sz - 2 - uint propbytes) :: u32)"

definition readVariantTypeWithEncoding :: "dbcs \<Rightarrow> EncodeParameters \<Rightarrow> (tdsBuffer, val) go" where
  "readVariantTypeWithEncoding db encoding =
     gbind r_int32 (\<lambda>size.
       if size = 0 then gret VNil
       else gbind r_byte (\<lambda>t. gbind r_byte (\<lambda>propbytes.
         let loc = GetTimezone encoding; rest = read_make (variant_size size propbytes) in
         if t = typeGuid then gbind rest (\<lambda>buf. gret (VBytes (decodeGuid buf encoding)))
         else if t = typeBit then gbind r_byte (\<lambda>b. gret (VBool (b \<noteq> 0)))
         else if t = typeInt1 then gbind r_byte (\<lambda>b. gret (VInt (uint b)))
         else if t = typeInt2 then gbind r_uint16 (\<lambda>w. gret (VInt (sint w)))
         else if t = typeInt4 then gbind r_int32 (\<lambda>i. gret (VInt i))
         else if t = typeInt8 then gbind r_uint64 (\<lambda>w. gret (VInt (sint w)))
         else if t = typeDateTime then gbind rest (\<lambda>buf. gfault (vmap VTime (decodeDateTime buf loc)))
         else if t = typeDateTim4 then gbind rest (\<lambda>buf. gfault (vmap VTime (decodeDateTim4 buf loc)))
         else if t = typeFlt4 then gbind r_uint32 (\<lambda>w. gret (VFlt4 w))
         else if t = typeFlt8 then gbind r_uint64 (\<lambda>w. gret (VFlt8 w))
         else if t = typeMoney4
         then gbind rest (\<lambda>buf. gfault (vmap (\<lambda>s. VBytes (str_bytes s)) (decodeMoney4 buf)))
         else if t = typeMoney
         then gbind rest (\<lambda>buf. gfault (vmap (\<lambda>s. VBytes (str_bytes s)) (decodeMoney buf)))
         else if t = typeDateN then gbind rest (\<lambda>buf. gfault (vmap VTime (decodeDate buf loc)))
         else if t = typeTimeN
         then gbind r_byte (\<lambda>sc. gbind rest (\<lambda>buf. gret (VTime (decodeTime (unat sc) buf loc))))
         else if t = typeDateTime2N
         then gbind r_byte (\<lambda>sc. gbind rest (\<lambda>buf. gfault (vmap VTime (decodeDateTime2 (unat sc) buf loc))))
         else if t = typeDateTimeOffsetN
         then gbind r_byte (\<lambda>sc. gbind rest (\<lambda>buf. gfault (vmap VTime (decodeDateTimeOffset (unat sc) buf))))
         else if t = typeBigVarBin \<or> t = typeBigBinary
         then gthen r_uint16 (gbind rest (\<lambda>buf. gret (VBytes buf)))
         else if t = typeDecimalN \<or> t = typeNumericN
         then gbind r_byte (\<lambda>pr. gbind r_byte (\<lambda>sc. gbind rest (\<lambda>buf.
                gfault (vmap (\<lambda>s. VBytes (str_bytes s)) (decodeDecimal pr sc buf)))))
         else if t = typeBigVarChar \<or> t = typeBigChar
         then gbind readCollation (\<lambda>col. gthen r_uint16 (gbind rest (\<lambda>buf. gret (VStr (decodeChar db col buf)))))
         else if t = typeNVarChar \<or> t = typeNChar
         then gthen readCollation (gthen r_uint16 (gbind rest (\<lambda>buf. gfault (vmap VStr (decodeNChar buf)))))
         else graise (StreamPanicf ''Invalid variant typeid''))))"

text \<open>The loop over the chunks of a partially length-prefixed value; \<open>None\<close>: it never ends.\<close>

partial_function (option) plp_loop ::
    "bytes \<Rightarrow> tdsBuffer \<Rightarrow> ((fault + bytes) \<times> tdsBuffer) option" where
  "plp_loop buf r =
     (case r_uint32 r of
        (Inl e, r') \<Rightarrow> Some (Inl e, r')
      | (Inr chunksize, r') \<Rightarrow>
          if chunksize = 0 then Some (Inr buf, r')
          else (case io_CopyN Read (unat chunksize) r' of
                  (Inl (Err e), r'') \<Rightarrow> Some (Inl (StreamPanicf ''Reading PLP type failed: %s''), r'')
                | (Inl f, r'') \<Rightarrow> Some (Inl f, r'')
                | (Inr bs, r'') \<Rightarrow> plp_loop (buf @ bs) r''))"

definition readPLP :: "(tdsBuffer, bytes) go" where
  "readPLP r = (case plp_loop [] r of None \<Rightarrow> (Inl Diverges, r) | Some x \<Rightarrow> x)"

definition plp_value :: "dbcs \<Rightarrow> typeInfo \<Rightarrow> bytes \<Rightarrow> fault + val" where
  "plp_value db ti buf =
     (let t = TypeId ti in
      if t = typeXml then vmap VStr (decodeXml buf)
      else if t \<in> {typeBigVarChar, typeBigChar, typeText} then Inr (VStr (decodeChar db (Coll ti) buf))
      else if t \<in> {typeBigVarBin, typeBigBinary, typeImage} then Inr (VBytes buf)
      else if t \<in> {typeNVarChar, typeNChar, typeNText} then vmap VStr (decodeNChar buf)
      else if t = typeUdt then Inr (VBytes (decodeUdt buf))
      else Inl (RuntimePanic ''shouldn't get here''))"

definition readPLPType :: "dbcs \<Rightarrow> typeInfo \<Rightarrow> bool \<Rightarrow> (tdsBuffer, val) go" where
  "readPLPType db ti c =
     (if c then (\<lambda>r. gfault (plp_value db ti (drop (roff r) (bufmem r))) r)
      else gbind r_uint64 (\<lambda>size.
             if size = PLP_NULL then gret VNil
             else gbind readPLP (\<lambda>buf. gfault (plp_value db ti buf))))"

text \<open>\<open>ti.Reader(&ti, r, c, encoding)\<close>.\<close>

definition read_value :: "dbcs \<Rightarrow> typeInfo \<Rightarrow> bool \<Rightarrow> EncodeParameters \<Rightarrow> (tdsBuffer, val) go" where
  "read_value db ti c encoding =
     (case Reader ti of
        Some RdFixed \<Rightarrow> readFixedType ti encoding
      | Some RdByteLen \<Rightarrow> readByteLenTypeWithEncoding db ti c encoding
      | Some RdShortLen \<Rightarrow> readShortLenType db ti c
      | Some RdLongLen \<Rightarrow> readLongLenType db ti
      | Some RdPLP \<Rightarrow> readPLPType db ti c
      | Some RdVariant \<Rightarrow> readVariantTypeWithEncoding db encoding
      | None \<Rightarrow> graise (RuntimePanic ''nil pointer dereference''))"


section \<open>Writing\<close>

text \<open>A \<open>[]byte\<close> that may be nil is an option; its length is that of the empty slice when nil.\<close>

definition obytes :: "bytes option \<Rightarrow> bytes" where
  "obytes buf = (case buf of None \<Rightarrow> [] | Some xs \<Rightarrow> xs)"

definition writeCollation :: "'s writer \<Rightarrow> Collation \<Rightarrow> ('s, unit) go" where
  "writeCollation w col = gthen (binary_Write w 4 (LcidAndFlags col)) (binary_Write w 1 (SortId col))"

definition writeFixedType :: "'s writer \<Rightarrow> bytes option \<Rightarrow> ('s, unit) go" where
  "writeFixedType w buf = io_Write w (obytes buf)"

definition writeByteLenType :: "'s writer \<Rightarrow> typeInfo \<Rightarrow> bytes option \<Rightarrow> ('s, unit) go" where
  "writeByteLenType w ti buf =
     (if 0xff < Size ti then graise (RuntimePanic ''Invalid size for BYTELEN_TYPE'')
      else gthen (binary_Write w 1 (word_of_nat (length (obytes buf)) :: byte)) (io_Write w (obytes buf)))"

definition writeGuidType :: "'s writer \<Rightarrow> typeInfo \<Rightarrow> bytes option \<Rightarrow> EncodeParameters \<Rightarrow> ('s, unit) go" where
  "writeGuidType w ti buf encoding =
     (if \<not> (Size ti = 0x10 \<or> Size ti = 0) then graise (RuntimePanic ''Invalid size for UNIQUEIDENTIFIER'')
      else gthen (binary_Write w 1 (word_of_nat (length (obytes buf)) :: byte))
        (if Size ti = 0x10
         then let res = take 16 (obytes buf @ replicate 16 0);
                  res = (if GuidConversion encoding
                         then rev (take 4 res) @ rev (take 2 (drop 4 res)) @ rev (take 2 (drop 6 res)) @ drop 8 res
                         else res)
              in io_Write w res
         else gret ()))"

definition writeShortLenType :: "'s writer \<Rightarrow> typeInfo \<Rightarrow> bytes option \<Rightarrow> ('s, unit) go" where
  "writeShortLenType w ti buf =
     (case buf of
        None \<Rightarrow> binary_Write w 2 (0xffff :: u16)
      | Some xs \<Rightarrow>
          if 0xfffe < Size ti then graise (RuntimePanic ''Invalid size for USHORTLEN_TYPE'')
          else gthen (binary_Write w 2 (word_of_int (Size ti) :: u16)) (io_Write w xs))"

definition writeLongLenType :: "'s writer \<Rightarrow> typeInfo \<Rightarrow> bytes option \<Rightarrow> ('s, unit) go" where
  "writeLongLenType w ti buf =
     (case buf of
        None \<Rightarrow> binary_Write w 1 (0 :: byte)
      | Some xs \<Rightarrow>
          gthen (binary_Write w 1 (0x10 :: byte))
            (gthen (binary_Write w 8 (0xFFFFFFFFFFFFFFFF :: u64))
              (gthen (binary_Write w 8 (0xFFFFFFFFFFFFFFFF :: u64))
                (gthen (binary_Write w 8 (0xFFFFFFFFFFFFFFFF :: u64))
                  (gthen (binary_Write w 4 (word_of_int (Size ti) :: u32)) (io_Write w xs))))))"

text \<open>The chunk loop: a chunk is as long as \<open>uint32(len(buf))\<close>.\<close>

function writePLP_loop :: "'s writer \<Rightarrow> bytes \<Rightarrow> ('s, unit) go" where
  "writePLP_loop w buf =
     (let chunksize = length buf mod 2 ^ 32 in
      if chunksize = 0 then binary_Write w 4 PLP_TERMINATOR
      else gthen (binary_Write w 4 (word_of_nat (length buf) :: u32))
             (gthen (io_Write w (take chunksize buf)) (writePLP_loop w (drop chunksize buf))))"
  by pat_completeness auto
termination
proof (relation "measure (\<lambda>(w, buf). length buf)")
  fix w :: "'s writer" and buf :: bytes and n
  assume "n = length buf mod 2 ^ 32" "n \<noteq> 0"
  then have "buf \<noteq> []" "0 < n" by auto
  then show "((w, drop n buf), (w, buf)) \<in> measure (\<lambda>(w, buf). length buf)" by simp
qed simp

declare writePLP_loop.simps [simp del]

definition writePLPType :: "'s writer \<Rightarrow> bytes option \<Rightarrow> ('s, unit) go" where
  "writePLPType w buf =
     (case buf of
        None \<Rightarrow> binary_Write w 8 PLP_NULL
      | Some xs \<Rightarrow> gthen (binary_Write w 8 UNKNOWN_PLP_LEN) (writePLP_loop w xs))"

text \<open>\<open>writeVarLen\<close> and \<open>writeTypeInfo\<close> also set the \<open>Writer\<close> of the type; they return the type.\<close>

definition writeVarLen :: "'s writer \<Rightarrow> typeInfo \<Rightarrow> bool \<Rightarrow> ('s, typeInfo) go" where
  "writeVarLen w ti out =
     (let t = TypeId ti in
      if t = typeDateN then gret (ti\<lparr>Writer := Some WrByteLen\<rparr>)
      else if is_scaled_time t
      then gthen (binary_Write w 1 (Scale ti)) (gret (ti\<lparr>Writer := Some WrByteLen\<rparr>))
      else if is_bytelen t then
        (if 0xff < Size ti then graise (RuntimePanic ''Invalid size for BYTELEN_TYPE'')
         else gthen (binary_Write w 1 (word_of_int (Size ti) :: byte))
           (gthen (if is_decimal t
                   then gthen (binary_Write w 1 (Prec ti)) (binary_Write w 1 (Scale ti))
                   else gret ())
             (gret (ti\<lparr>Writer := Some WrByteLen\<rparr>))))
      else if t = typeGuid then
        (if \<not> (Size ti = 0x10 \<or> Size ti = 0) then graise (RuntimePanic ''Invalid size for UNIQUEIDENTIFIER'')
         else gthen (binary_Write w 1 (word_of_int (Size ti) :: byte)) (gret (ti\<lparr>Writer := Some WrGuid\<rparr>)))
      else if t \<in> {typeBigVarBin, typeBigVarChar, typeBigBinary, typeBigChar, typeNVarChar, typeNChar,
                   typeXml, typeUdt} then
        gbind (if 8000 < Size ti \<or> Size ti = 0 \<or> out
               then gthen (binary_Write w 2 (0xffff :: u16)) (gret (ti\<lparr>Writer := Some WrPLP\<rparr>))
               else gthen (binary_Write w 2 (word_of_int (Size ti) :: u16)) (gret (ti\<lparr>Writer := Some WrShortLen\<rparr>)))
          (\<lambda>ti. gthen (if has_collation t then writeCollation w (Coll ti)
                       else if t = typeXml then binary_Write w 1 (x_SchemaPresent (XmlInfo ti))
                       else gret ())
                  (gret ti))
      else if t \<in> {typeText, typeImage, typeNText, typeVariant} then
        gthen (binary_Write w 4 (word_of_int (Size ti) :: u32))
          (gthen (if t = typeText \<or> t = typeNText then writeCollation w (Coll ti) else gret ())
            (gret (ti\<lparr>Writer := Some WrLongLen\<rparr>)))
      else graise (RuntimePanic ''Invalid type''))"

definition writeTypeInfo :: "'s writer \<Rightarrow> typeInfo \<Rightarrow> bool \<Rightarrow> ('s, typeInfo) go" where
  "writeTypeInfo w ti out =
     gthen (binary_Write w 1 (TypeId ti))
       (if is_fixed (TypeId ti) \<or> TypeId ti = typeTvp then gret (ti\<lparr>Writer := Some WrFixed\<rparr>)
        else writeVarLen w ti out)"

text \<open>\<open>ti.Writer(w, ti, buf, encoding)\<close>.\<close>

definition write_value ::
    "'s writer \<Rightarrow> typeInfo \<Rightarrow> bytes option \<Rightarrow> EncodeParameters \<Rightarrow> ('s, unit) go" where
  "write_value w ti buf encoding =
     (case Writer ti of
        Some WrFixed \<Rightarrow> writeFixedType w buf
      | Some WrByteLen \<Rightarrow> writeByteLenType w ti buf
      | Some WrGuid \<Rightarrow> writeGuidType w ti buf encoding
      | Some WrShortLen \<Rightarrow> writeShortLenType w ti buf
      | Some WrLongLen \<Rightarrow> writeLongLenType w ti buf
      | Some WrPLP \<Rightarrow> writePLPType w buf
      | None \<Rightarrow> graise (RuntimePanic ''nil pointer dereference''))"

section \<open>Readers and the bytes they consume\<close>

declare le_bytes_numeral [simp del]

lemma reads_gfault: "r = Inr x \<Longrightarrow> reads (gfault r) [] x"
  by (simp add: gfault_def reads_ret)

lemma reads_BVarChar_or: "utf16_len s \<le> 0xFF \<Longrightarrow> reads r_BVarChar (bvarchar s) (sanitized s)"
  by (simp add: r_BVarChar_def reads_or_panic reads_BVarChar)

lemma reads_UsVarChar_or: "utf16_len s \<le> 0xFFFF \<Longrightarrow> reads r_UsVarChar (usvarchar s) (sanitized s)"
  by (simp add: r_UsVarChar_def reads_or_panic reads_UsVarChar)

definition collation_bytes :: "Collation \<Rightarrow> bytes" where
  "collation_bytes c = le_bytes 4 (LcidAndFlags c) @ [SortId c]"

lemma reads_bind_nil:
  "reads m xs x \<Longrightarrow> reads (f x) [] y \<Longrightarrow> reads (gbind m f) xs y"
  using reads_bind [of m xs x f "[]" y] by simp

lemma reads_Collation: "reads readCollation (collation_bytes c) c"
proof -
  have "reads readCollation (le_bytes 4 (LcidAndFlags c) @ [SortId c] @ []) \<lparr>LcidAndFlags = LcidAndFlags c, SortId = SortId c\<rparr>"
    unfolding readCollation_def by (rule reads_bind reads_uint32 reads_byte reads_ret)+
  then show ?thesis by (cases c) (simp add: collation_bytes_def)
qed

text \<open>A value in partially length-prefixed form, cut into chunks.\<close>

definition plp_chunks :: "bytes list \<Rightarrow> bytes" where
  "plp_chunks cs = concat (map (\<lambda>c. le_bytes 4 (word_of_nat (length c) :: u32) @ c) cs) @ le_bytes 4 PLP_TERMINATOR"

definition chunk_ok :: "bytes \<Rightarrow> bool" where
  "chunk_ok c \<longleftrightarrow> c \<noteq> [] \<and> length c < 2 ^ 32"

lemma plp_loop_chunks:
  "\<lbrakk>list_all chunk_ok cs; rok r; stream r = plp_chunks cs @ ys\<rbrakk> \<Longrightarrow>
     \<exists>r'. plp_loop acc r = Some (Inr (acc @ concat cs), r') \<and> rok r' \<and> stream r' = ys"
proof (induction cs arbitrary: acc r)
  case Nil
  then have "stream r = le_bytes 4 PLP_TERMINATOR @ ys" by (simp add: plp_chunks_def)
  from readsD [OF reads_uint32 Nil(2) this] obtain r'
    where r': "r_uint32 r = (Inr PLP_TERMINATOR, r')" "rok r'" "stream r' = ys" by blast
  then show ?case by (subst plp_loop.simps) (simp add: PLP_TERMINATOR_def)
next
  case (Cons c cs)
  let ?n = "word_of_nat (length c) :: u32"
  have c: "c \<noteq> []" "unat ?n = length c" using Cons.prems(1) by (auto simp: chunk_ok_def unat_of_nat)
  then have n0: "?n \<noteq> 0" by auto
  have st: "stream r = le_bytes 4 ?n @ (c @ (plp_chunks cs @ ys))"
    using Cons.prems(3) by (simp add: plp_chunks_def)
  obtain r1 where r1: "r_uint32 r = (Inr ?n, r1)" "rok r1" "stream r1 = c @ (plp_chunks cs @ ys)"
    using readsD [OF reads_uint32 Cons.prems(2) st] by blast
  obtain r2 where r2: "io_CopyN Read (length c) r1 = (Inr c, r2)" "rok r2" "stream r2 = plp_chunks cs @ ys"
    using readsD [OF reads_CopyN [OF refl] r1(2,3)] by blast
  have eq: "plp_loop acc r = plp_loop (acc @ c) r2"
    using r1(1) r2(1) n0 c(2) by (subst plp_loop.simps) simp
  from Cons.IH [OF _ r2(2,3), of "acc @ c"] Cons.prems(1) show ?case by (simp add: eq)
qed

lemma reads_PLP: "list_all chunk_ok cs \<Longrightarrow> reads readPLP (plp_chunks cs) (concat cs)"
  unfolding reads_def readPLP_def using plp_loop_chunks [of cs _ _ "[]"] by fastforce

lemma reads_PLPType:
  assumes "list_all chunk_ok cs" "n \<noteq> PLP_NULL" "plp_value db ti (concat cs) = Inr v"
  shows "reads (readPLPType db ti False) (le_bytes 8 n @ plp_chunks cs) v"
proof -
  have "reads (gbind readPLP (\<lambda>buf. gfault (plp_value db ti buf))) (plp_chunks cs) v"
    by (rule reads_bind_nil, rule reads_PLP [OF assms(1)], rule reads_gfault [OF assms(3)])
  then have "reads (gbind r_uint64 (\<lambda>size. if size = PLP_NULL then gret VNil
      else gbind readPLP (\<lambda>buf. gfault (plp_value db ti buf)))) (le_bytes 8 n @ plp_chunks cs) v"
    using assms(2) by - (rule reads_bind, rule reads_uint64, simp)
  then show ?thesis by (simp add: readPLPType_def)
qed

lemma reads_PLP_null: "reads (readPLPType db ti False) (le_bytes 8 PLP_NULL) VNil"
proof -
  have "reads (gbind r_uint64 (\<lambda>size. if size = PLP_NULL then gret VNil
      else gbind readPLP (\<lambda>buf. gfault (plp_value db ti buf)))) (le_bytes 8 PLP_NULL @ []) VNil"
    by (rule reads_bind, rule reads_uint64) (simp add: reads_ret)
  then show ?thesis by (simp add: readPLPType_def)
qed

section \<open>Writers and the bytes they produce\<close>

definition plp_bytes :: "bytes option \<Rightarrow> bytes" where
  "plp_bytes buf =
     (case buf of None \<Rightarrow> le_bytes 8 PLP_NULL
      | Some xs \<Rightarrow> le_bytes 8 UNKNOWN_PLP_LEN @ plp_chunks (if xs = [] then [] else [xs]))"

context byte_sink
begin

lemma emits_PLP_loop:
  assumes "length xs < 2 ^ 32"
  shows "emits (writePLP_loop wr xs) (plp_chunks (if xs = [] then [] else [xs])) ()"
proof (cases "xs = []")
  case True
  have "emits (binary_Write wr 4 PLP_TERMINATOR) (le_bytes 4 PLP_TERMINATOR) ()" by (rule emits_binary_Write)
  with True show ?thesis by (simp add: writePLP_loop.simps plp_chunks_def)
next
  case False
  have m: "length xs mod 2 ^ 32 = length xs" using assms by simp
  have "writePLP_loop wr xs = gthen (binary_Write wr 4 (word_of_nat (length xs) :: u32))
      (gthen (io_Write wr xs) (binary_Write wr 4 PLP_TERMINATOR))"
    using False by (simp add: writePLP_loop.simps [of wr xs] Let_def m [simplified] writePLP_loop.simps [of wr "[]"])
  moreover have "emits \<dots> (le_bytes 4 (word_of_nat (length xs) :: u32) @ xs @ le_bytes 4 PLP_TERMINATOR) ()"
    by (rule emits_then emits_binary_Write emits_Write)+
  ultimately show ?thesis using False by (simp add: plp_chunks_def)
qed

lemma emits_PLPType:
  assumes "length (obytes buf) < 2 ^ 32"
  shows "emits (writePLPType wr buf) (plp_bytes buf) ()"
proof (cases buf)
  case None
  then show ?thesis by (auto simp: writePLPType_def plp_bytes_def)
next
  case (Some xs)
  have "emits (gthen (binary_Write wr 8 UNKNOWN_PLP_LEN) (writePLP_loop wr xs))
      (le_bytes 8 UNKNOWN_PLP_LEN @ plp_chunks (if xs = [] then [] else [xs])) ()"
    by (rule emits_then, rule emits_binary_Write, rule emits_PLP_loop) (use assms Some in \<open>simp add: obytes_def\<close>)
  with Some show ?thesis by (simp add: writePLPType_def plp_bytes_def)
qed

lemma emits_Collation: "emits (writeCollation wr c) (collation_bytes c) ()"
proof -
  have "emits (writeCollation wr c) (le_bytes 4 (LcidAndFlags c) @ le_bytes 1 (SortId c)) ()"
    unfolding writeCollation_def by (rule emits_then emits_binary_Write)+
  then show ?thesis by (simp add: collation_bytes_def)
qed

lemma emits_byte: "emits (binary_Write wr 1 (b :: byte)) [b] ()"
  using emits_binary_Write [of 1 b] by simp

end

section \<open>Type information there and back\<close>

definition is_shortlen :: "byte \<Rightarrow> bool" where
  "is_shortlen t \<longleftrightarrow> t \<in> {typeBigVarBin, typeBigVarChar, typeBigBinary, typeBigChar, typeNVarChar, typeNChar}"

text \<open>The types the driver sends with parameters and bulk rows, with sizes that fit.\<close>

definition sendable :: "typeInfo \<Rightarrow> bool" where
  "sendable ti \<longleftrightarrow>
     (let t = TypeId ti in
      is_fixed t \<or> t = typeDateN \<or> (is_scaled_time t \<and> unat (Scale ti) \<le> 7)
      \<or> (is_bytelen t \<and> 0 \<le> Size ti \<and> Size ti \<le> 0xff) \<or> (t = typeGuid \<and> Size ti \<in> {0, 0x10})
      \<or> (is_shortlen t \<and> 0 \<le> Size ti))"

definition as_plp :: "typeInfo \<Rightarrow> bool \<Rightarrow> bool" where
  "as_plp ti out \<longleftrightarrow> 8000 < Size ti \<or> Size ti = 0 \<or> out"

definition typeinfo_bytes :: "typeInfo \<Rightarrow> bool \<Rightarrow> bytes" where
  "typeinfo_bytes ti out =
     (let t = TypeId ti in
      [t] @ (if is_fixed t \<or> t = typeDateN then []
             else if is_scaled_time t then [Scale ti]
             else if is_bytelen t \<or> t = typeGuid
             then [word_of_int (Size ti)] @ (if is_decimal t then [Prec ti] @ [Scale ti] else [])
             else le_bytes 2 (if as_plp ti out then 0xffff else word_of_int (Size ti) :: u16)
                  @ (if has_collation t then collation_bytes (Coll ti) else [])))"

text \<open>The writer that is chosen, and the type information as it is read back.\<close>

definition sent_writer :: "typeInfo \<Rightarrow> bool \<Rightarrow> wtr" where
  "sent_writer ti out =
     (let t = TypeId ti in
      if is_fixed t then WrFixed else if t = typeGuid then WrGuid
      else if is_shortlen t then (if as_plp ti out then WrPLP else WrShortLen) else WrByteLen)"

definition received :: "typeInfo \<Rightarrow> bool \<Rightarrow> typeInfo" where
  "received ti out =
     (let t = TypeId ti; z = typeInfo_zero\<lparr>TypeId := t\<rparr> in
      if is_fixed t then set_size (fixed_size t) RdFixed z
      else if t = typeDateN then set_size 3 RdByteLen z
      else if is_scaled_time t
      then set_size (int (calcTimeSize (unat (Scale ti)))
             + (if t = typeDateTime2N then 3 else if t = typeDateTimeOffsetN then 5 else 0))
             RdByteLen (z\<lparr>Scale := Scale ti\<rparr>)
      else if is_bytelen t \<or> t = typeGuid
      then (let z = set_size (Size ti) RdByteLen z in
            if is_decimal t then z\<lparr>Prec := Prec ti, Scale := Scale ti\<rparr> else z)
      else let z = (if has_collation t then z\<lparr>Coll := Coll ti\<rparr> else z) in
           if as_plp ti out then z\<lparr>Size := 0xffff, Reader := Some RdPLP\<rparr>
           else set_size (Size ti) RdShortLen z)"

lemmas kind_defs = is_fixed_def is_decimal_def is_bytelen_def has_collation_def is_scaled_time_def
  is_shortlen_def type_ids

lemma kind_fixed:
  "is_fixed t \<Longrightarrow> \<not> is_scaled_time t \<and> \<not> is_bytelen t \<and> \<not> is_shortlen t \<and> t \<noteq> typeGuid
     \<and> t \<noteq> typeDateN \<and> t \<noteq> typeTvp"
  unfolding is_fixed_def insert_iff empty_iff by (elim disjE FalseE) (simp_all add: kind_defs)

lemma kind_time:
  "is_scaled_time t \<Longrightarrow> \<not> is_fixed t \<and> \<not> is_bytelen t \<and> \<not> is_shortlen t \<and> t \<noteq> typeGuid
     \<and> t \<noteq> typeDateN \<and> t \<noteq> typeTvp"
  unfolding is_scaled_time_def insert_iff empty_iff by (elim disjE FalseE) (simp_all add: kind_defs)

lemma kind_bytelen:
  "is_bytelen t \<Longrightarrow> \<not> is_fixed t \<and> \<not> is_scaled_time t \<and> \<not> is_shortlen t \<and> t \<noteq> typeGuid
     \<and> t \<noteq> typeDateN \<and> t \<noteq> typeTvp"
  unfolding is_bytelen_def insert_iff empty_iff by (elim disjE FalseE) (simp_all add: kind_defs)

lemma kind_shortlen:
  "is_shortlen t \<Longrightarrow> \<not> is_fixed t \<and> \<not> is_scaled_time t \<and> \<not> is_bytelen t \<and> t \<noteq> typeGuid
     \<and> t \<noteq> typeDateN \<and> t \<noteq> typeTvp \<and> t \<noteq> typeXml \<and> t \<noteq> typeUdt"
  unfolding is_shortlen_def insert_iff empty_iff by (elim disjE FalseE) (simp_all add: kind_defs)

lemma kind_single:
  "\<not> is_fixed typeGuid \<and> \<not> is_scaled_time typeGuid \<and> \<not> is_bytelen typeGuid \<and> \<not> is_shortlen typeGuid
     \<and> \<not> is_decimal typeGuid \<and> typeGuid \<noteq> typeDateN \<and> typeGuid \<noteq> typeTvp"
  "\<not> is_fixed typeDateN \<and> \<not> is_scaled_time typeDateN \<and> \<not> is_bytelen typeDateN \<and> \<not> is_shortlen typeDateN
     \<and> typeDateN \<noteq> typeTvp \<and> typeDateN \<noteq> typeGuid"
  by (simp_all add: kind_defs)

context byte_sink
begin

lemma emits_then_ret: "emits m xs () \<Longrightarrow> emits (gthen m (gret x)) xs x"
  using emits_then [of m xs "()" "gret x" "[]" x] by auto

lemma emits_TypeInfo:
  assumes "sendable ti"
  shows "emits (writeTypeInfo wr ti out) (typeinfo_bytes ti out) (ti\<lparr>Writer := Some (sent_writer ti out)\<rparr>)"
proof -
  let ?t = "TypeId ti"
  let ?ti = "ti\<lparr>Writer := Some (sent_writer ti out)\<rparr>"
  consider (fixed) "is_fixed ?t" | (date) "?t = typeDateN" | (time) "is_scaled_time ?t"
    | (byte) "is_bytelen ?t" "Size ti \<le> 0xff" | (guid) "?t = typeGuid" "Size ti \<in> {0, 0x10}" | (short) "is_shortlen ?t"
    using assms by (auto simp: sendable_def Let_def)
  then have "\<exists>xs. typeinfo_bytes ti out = [?t] @ xs
      \<and> emits (if is_fixed ?t \<or> ?t = typeTvp then gret (ti\<lparr>Writer := Some WrFixed\<rparr>) else writeVarLen wr ti out) xs ?ti"
  proof cases
    case fixed
    then show ?thesis by (auto simp: typeinfo_bytes_def sent_writer_def)
  next
    case date
    with kind_single(2) show ?thesis by (auto simp: typeinfo_bytes_def sent_writer_def writeVarLen_def Let_def)
  next
    case time
    with kind_time show ?thesis
      by (auto simp: typeinfo_bytes_def sent_writer_def writeVarLen_def Let_def intro!: emits_then_ret emits_byte [unfolded One_nat_def])
  next
    case byte
    note k = kind_bytelen [OF byte(1)]
    have "emits (gthen (binary_Write wr 1 (word_of_int (Size ti) :: byte))
        (gthen (if is_decimal ?t then gthen (binary_Write wr 1 (Prec ti)) (binary_Write wr 1 (Scale ti)) else gret ())
          (gret (ti\<lparr>Writer := Some WrByteLen\<rparr>))))
        ([word_of_int (Size ti)] @ (if is_decimal ?t then [Prec ti] @ [Scale ti] else []))
        (ti\<lparr>Writer := Some WrByteLen\<rparr>)"
      by (rule emits_then [OF emits_byte], rule emits_then_ret)
        (auto intro!: emits_then [OF emits_byte emits_byte, of "Prec ti" "Scale ti", simplified])
    with k byte show ?thesis by (simp add: typeinfo_bytes_def sent_writer_def writeVarLen_def Let_def)
  next
    case guid
    with kind_single(1) show ?thesis
      by (auto simp: typeinfo_bytes_def sent_writer_def writeVarLen_def Let_def intro!: emits_then_ret emits_byte [unfolded One_nat_def])
  next
    case short
    note k = kind_shortlen [OF short]
    have sh: "?t \<in> {typeBigVarBin, typeBigVarChar, typeBigBinary, typeBigChar, typeNVarChar, typeNChar, typeXml, typeUdt}"
      using short by (auto simp: is_shortlen_def)
    let ?m = "if 8000 < Size ti \<or> Size ti = 0 \<or> out
          then gthen (binary_Write wr 2 (0xffff :: u16)) (gret (ti\<lparr>Writer := Some WrPLP\<rparr>))
          else gthen (binary_Write wr 2 (word_of_int (Size ti) :: u16)) (gret (ti\<lparr>Writer := Some WrShortLen\<rparr>))"
    let ?f = "\<lambda>ti'. gthen (if has_collation ?t then writeCollation wr (Coll ti')
          else if ?t = typeXml then binary_Write wr 1 (x_SchemaPresent (XmlInfo ti')) else gret ()) (gret ti')"
    have e1: "emits ?m (le_bytes 2 (if as_plp ti out then 0xffff else word_of_int (Size ti) :: u16)) ?ti"
      using k short by (auto simp: as_plp_def sent_writer_def intro!: emits_then_ret)
    have e2: "emits (?f ?ti) (if has_collation ?t then collation_bytes (Coll ti) else []) ?ti"
      using k by (auto intro!: emits_then_ret emits_Collation)
    have W: "writeVarLen wr ti out = gbind ?m ?f"
      unfolding writeVarLen_def Let_def using k sh by simp
    have B: "typeinfo_bytes ti out = [?t] @ le_bytes 2 (if as_plp ti out then 0xffff else word_of_int (Size ti) :: u16)
          @ (if has_collation ?t then collation_bytes (Coll ti) else [])"
      using k by (simp add: typeinfo_bytes_def Let_def)
    have F: "(is_fixed ?t \<or> ?t = typeTvp) = False" using k by simp
    show ?thesis unfolding B W F if_False using emits_bind [where f = ?f, OF e1 e2] by blast
  qed
  then obtain xs where xs: "typeinfo_bytes ti out = [?t] @ xs"
    "emits (if is_fixed ?t \<or> ?t = typeTvp then gret (ti\<lparr>Writer := Some WrFixed\<rparr>) else writeVarLen wr ti out) xs ?ti" by blast
  show ?thesis unfolding xs(1) writeTypeInfo_def by (rule emits_then [OF emits_byte xs(2)])
qed

end


lemma scale_size_ok: "unat sc \<le> 7 \<Longrightarrow> scale_size sc = Inr (int (calcTimeSize (unat sc)))"
  by (simp add: scale_size_def calcTimeSize_def)

lemma reads_byte_then: "reads (f b) ys y \<Longrightarrow> reads (gbind r_byte f) (b # ys) y"
  using reads_bind [where f = f, OF reads_byte] by fastforce

lemma reads_TypeInfo:
  assumes "sendable ti"
  shows "reads (gbind r_byte readTypeInfo) (typeinfo_bytes ti out) (received ti out)"
proof -
  let ?t = "TypeId ti" and ?z = "typeInfo_zero\<lparr>TypeId := TypeId ti\<rparr>"
  consider (fixed) "is_fixed ?t" | (date) "?t = typeDateN" | (time) "is_scaled_time ?t" "unat (Scale ti) \<le> 7"
    | (byte) "is_bytelen ?t" "0 \<le> Size ti" "Size ti \<le> 0xff" | (guid) "?t = typeGuid" "Size ti \<in> {0, 0x10}"
    | (short) "is_shortlen ?t" "0 \<le> Size ti"
    using assms by (auto simp: sendable_def Let_def)
  then show ?thesis
  proof cases
    case fixed
    then show ?thesis
      by (auto simp: typeinfo_bytes_def received_def readTypeInfo_def Let_def intro!: reads_byte_then reads_ret)
  next
    case date
    with kind_single(2) show ?thesis
      by (auto simp: typeinfo_bytes_def received_def readTypeInfo_def readVarLen_def Let_def typeInfo_zero_def
          intro!: reads_byte_then reads_ret)
  next
    case time
    note k = kind_time [OF time(1)]
    have "reads (gbind (gfault (scale_size (Scale ti))) (\<lambda>n.
          let n = (if ?t = typeDateTime2N then n + 3 else if ?t = typeDateTimeOffsetN then n + 5 else n)
          in gret (set_size n RdByteLen (?z\<lparr>Scale := Scale ti\<rparr>)))) [] (received ti out)"
      using k time by (auto simp: scale_size_ok gfault_def received_def Let_def reads_ret)
    with k time show ?thesis
      by (auto simp: typeinfo_bytes_def readTypeInfo_def readVarLen_def Let_def intro!: reads_byte_then cong: if_cong)
  next
    case byte
    note k = kind_bytelen [OF byte(1)]
    have u: "uint (word_of_int (Size ti) :: byte) = Size ti"
      using byte(2,3) by (simp add: uint_word_of_int_eq take_bit_int_eq_self)
    show ?thesis
    proof (cases "is_decimal ?t")
      case True
      with k byte u show ?thesis
        by (auto simp: typeinfo_bytes_def received_def readTypeInfo_def readVarLen_def Let_def
            intro!: reads_byte_then reads_ret)
    next
      case False
      with k byte u show ?thesis
        by (auto simp: typeinfo_bytes_def received_def readTypeInfo_def readVarLen_def Let_def
            intro!: reads_byte_then reads_ret)
    qed
  next
    case guid
    have "uint (word_of_int (Size ti) :: byte) = Size ti" using guid(2) by auto
    with guid kind_single(1) show ?thesis
      by (auto simp: typeinfo_bytes_def received_def readTypeInfo_def readVarLen_def Let_def
          intro!: reads_byte_then reads_ret)
  next
    case short
    note k = kind_shortlen [OF short(1)]
    let ?n = "if as_plp ti out then 0xffff else word_of_int (Size ti) :: u16"
    let ?f = "\<lambda>n :: u16. gbind (if has_collation ?t then gbind readCollation (\<lambda>c. gret (?z\<lparr>Coll := c\<rparr>)) else gret ?z) (\<lambda>ti.
            if n = 0xffff then gret (ti\<lparr>Size := uint n, Reader := Some RdPLP\<rparr>)
            else gret (set_size (uint n) RdShortLen ti))"
    have n: "if as_plp ti out then ?n = 0xffff else ?n \<noteq> 0xffff \<and> uint ?n = Size ti"
    proof (cases "as_plp ti out")
      case False
      then have "uint ?n = Size ti" "Size ti \<le> 8000"
        using short(2) by (auto simp: as_plp_def uint_word_of_int_eq take_bit_int_eq_self)
      moreover have "uint (0xffff :: u16) = 65535" by simp
      ultimately have "?n \<noteq> 0xffff" by force
      with \<open>uint ?n = Size ti\<close> False show ?thesis by simp
    qed simp
    have "reads (?f ?n) (if has_collation ?t then collation_bytes (Coll ti) else []) (received ti out)"
    proof (cases "has_collation ?t")
      case True
      have "reads (gbind (gbind readCollation (\<lambda>c. gret (?z\<lparr>Coll := c\<rparr>))) (\<lambda>ti.
            if ?n = 0xffff then gret (ti\<lparr>Size := uint ?n, Reader := Some RdPLP\<rparr>)
            else gret (set_size (uint ?n) RdShortLen ti))) (collation_bytes (Coll ti)) (received ti out)"
        by (rule reads_bind_nil, rule reads_bind_nil, rule reads_Collation, rule reads_ret)
          (use n k True in \<open>auto simp: received_def Let_def reads_ret split: if_splits\<close>)
      with True show ?thesis by simp
    next
      case False
      with n k show ?thesis by (auto simp: received_def Let_def reads_ret split: if_splits)
    qed
    from reads_bind [where f = ?f, OF reads_uint16 this]
    have "reads (gbind r_uint16 ?f) (le_bytes 2 ?n @ (if has_collation ?t then collation_bytes (Coll ti) else [])) (received ti out)" .
    moreover have "readTypeInfo ?t = gbind r_uint16 ?f"
      using k short(1) by (simp add: readTypeInfo_def readVarLen_def Let_def is_shortlen_def)
    ultimately have "reads (gbind r_byte readTypeInfo) (?t # le_bytes 2 ?n
        @ (if has_collation ?t then collation_bytes (Coll ti) else [])) (received ti out)"
      by (intro reads_byte_then) (simp only:)
    moreover have "typeinfo_bytes ti out = ?t # le_bytes 2 ?n @ (if has_collation ?t then collation_bytes (Coll ti) else [])"
      using k by (simp add: typeinfo_bytes_def Let_def)
    ultimately show ?thesis by (simp only:)
  qed
qed


section \<open>Values there and back\<close>

text \<open>What the reader makes of the bytes of a value.\<close>

definition value_of :: "dbcs \<Rightarrow> typeInfo \<Rightarrow> EncodeParameters \<Rightarrow> bytes \<Rightarrow> fault + val" where
  "value_of db ti encoding xs =
     (case Reader ti of
        Some RdFixed \<Rightarrow> fixed_value (TypeId ti) xs (GetTimezone encoding)
      | Some RdByteLen \<Rightarrow> bytelen_value db ti xs encoding
      | Some RdPLP \<Rightarrow> plp_value db ti xs
      | _ \<Rightarrow> (let t = TypeId ti in
           if t = typeBigVarChar \<or> t = typeBigChar then Inr (VStr (decodeChar db (Coll ti) xs))
           else if t = typeBigVarBin \<or> t = typeBigBinary then Inr (VBytes xs)
           else if t = typeNVarChar \<or> t = typeNChar then vmap VStr (decodeNChar xs)
           else Inl (StreamPanicf ''Invalid typeid'')))"

text \<open>The bytes of a value that fit the type: as long as the type says, or below its maximum.\<close>

definition value_fits :: "typeInfo \<Rightarrow> bytes \<Rightarrow> bool" where
  "value_fits ti xs \<longleftrightarrow>
     (let t = TypeId ti; n = length xs in
      if is_fixed t then int n = fixed_size t
      else if t = typeGuid then Size ti = 0x10 \<and> n = 16
      else if is_shortlen t then int n < 2 ^ 32 \<and> (\<not> as_plp ti False \<longrightarrow> int n = Size ti)
      else 0 < n \<and> n \<le> 0xff \<and> Size ti \<le> 0xff \<and> int n \<le> Size (received ti False))"

definition value_bytes :: "typeInfo \<Rightarrow> EncodeParameters \<Rightarrow> bytes \<Rightarrow> bytes" where
  "value_bytes ti encoding xs =
     (let t = TypeId ti in
      if is_fixed t then xs
      else if t = typeGuid
      then 16 # (if GuidConversion encoding
                 then rev (take 4 xs) @ rev (take 2 (drop 4 xs)) @ rev (take 2 (drop 6 xs)) @ drop 8 xs
                 else xs)
      else if is_shortlen t
      then (if as_plp ti False then plp_bytes (Some xs) else le_bytes 2 (word_of_nat (length xs) :: u16) @ xs)
      else word_of_nat (length xs) # xs)"

text \<open>
  The same for a buffer that may be nil or empty, of a parameter that may be an output parameter (\<open>out\<close>): when it fits the type, the bytes that are
  sent, and what is received. An output parameter of a length-word type is sent in chunks. A nil buffer of a length-word type and an empty buffer
  of a length-byte type are NULL; a \<open>uniqueidentifier\<close> of 16 bytes has no NULL that can be read back.
\<close>

definition buffer_fits :: "typeInfo \<Rightarrow> bool \<Rightarrow> bytes option \<Rightarrow> bool" where
  "buffer_fits ti out buf \<longleftrightarrow>
     (let t = TypeId ti; n = length (obytes buf) in
      if is_fixed t then int n = fixed_size t
      else if t = typeGuid then int n = Size ti
      else if is_shortlen t then n < 2 ^ 32 \<and> (buf \<noteq> None \<and> \<not> as_plp ti out \<longrightarrow> int n = Size ti)
      else n \<le> 0xff \<and> Size ti \<le> 0xff \<and> int n \<le> Size (received ti out))"

definition guid_wire :: "EncodeParameters \<Rightarrow> bytes \<Rightarrow> bytes" where
  "guid_wire encoding xs =
     (if GuidConversion encoding then rev (take 4 xs) @ rev (take 2 (drop 4 xs)) @ rev (take 2 (drop 6 xs)) @ drop 8 xs else xs)"

definition buffer_bytes :: "typeInfo \<Rightarrow> bool \<Rightarrow> EncodeParameters \<Rightarrow> bytes option \<Rightarrow> bytes" where
  "buffer_bytes ti out encoding buf =
     (let t = TypeId ti; xs = obytes buf in
      if is_fixed t then xs
      else if t = typeGuid then (if xs = [] then [0] else 16 # guid_wire encoding xs)
      else if is_shortlen t
      then (if as_plp ti out then plp_bytes buf
            else case buf of None \<Rightarrow> le_bytes 2 (0xffff :: u16) | Some ys \<Rightarrow> le_bytes 2 (word_of_nat (length ys) :: u16) @ ys)
      else word_of_nat (length xs) # xs)"

definition buffer_value :: "dbcs \<Rightarrow> typeInfo \<Rightarrow> bool \<Rightarrow> EncodeParameters \<Rightarrow> bytes option \<Rightarrow> fault + val" where
  "buffer_value db ti out encoding buf =
     (let t = TypeId ti; xs = obytes buf in
      if is_fixed t then value_of db (received ti out) encoding xs
      else if is_shortlen t then (case buf of None \<Rightarrow> Inr VNil | Some ys \<Rightarrow> value_of db (received ti out) encoding ys)
      else if xs = [] then Inr VNil
      else if t = typeGuid then Inr (VBytes xs)
      else value_of db (received ti out) encoding xs)"

context byte_sink
begin

lemma emits_buffer:
  assumes "sendable ti" "buffer_fits ti out buf" "Writer ti = Some (sent_writer ti out)"
  shows "emits (write_value wr ti buf encoding) (buffer_bytes ti out encoding buf) ()"
proof -
  let ?t = "TypeId ti" and ?xs = "obytes buf"
  have len: "emits (gthen (binary_Write wr 1 (word_of_nat (length ?xs) :: byte)) (io_Write wr ys)) (word_of_nat (length ?xs) # ys) ()" for ys
    using emits_then [OF emits_byte emits_Write, of "word_of_nat (length ?xs)" ys] by simp
  have g: "Size ti = 16 \<and> length ?xs = 16 \<or> Size ti = 0 \<and> ?xs = []" if "?t = typeGuid"
  proof -
    have "int (length ?xs) = Size ti" using assms(2) that kind_single(1) by (simp add: buffer_fits_def)
    moreover have "Size ti \<in> {0, 16}" using assms(1) that kind_single(1) by (auto simp: sendable_def)
    ultimately show ?thesis by auto
  qed
  consider (fixed) "is_fixed ?t" | (guid) "?t = typeGuid" "Size ti = 16" "length ?xs = 16" | (noguid) "?t = typeGuid" "Size ti = 0" "?xs = []"
    | (plp) "is_shortlen ?t" "as_plp ti out" | (short) "is_shortlen ?t" "\<not> as_plp ti out"
    | (byte) "\<not> is_fixed ?t" "?t \<noteq> typeGuid" "\<not> is_shortlen ?t"
    using g by blast
  then show ?thesis
  proof cases
    case fixed
    with assms(3) show ?thesis by (auto simp: write_value_def sent_writer_def writeFixedType_def buffer_bytes_def)
  next
    case guid
    then have "?xs \<noteq> []" by auto
    with guid assms(3) kind_single(1) len [of "guid_wire encoding ?xs"] show ?thesis
      by (simp add: write_value_def sent_writer_def writeGuidType_def buffer_bytes_def guid_wire_def Let_def)
  next
    case noguid
    with assms(3) kind_single(1) emits_then_ret [OF emits_byte, of 0 "()"] show ?thesis
      by (simp add: write_value_def sent_writer_def writeGuidType_def buffer_bytes_def Let_def)
  next
    case plp
    with assms kind_shortlen [OF plp(1)] show ?thesis
      by (auto simp: write_value_def sent_writer_def buffer_bytes_def buffer_fits_def Let_def intro!: emits_PLPType)
  next
    case short
    note k = kind_shortlen [OF short(1)]
    show ?thesis
    proof (cases buf)
      case None
      with short k assms(3) show ?thesis
        by (auto simp: write_value_def sent_writer_def writeShortLenType_def buffer_bytes_def Let_def)
    next
      case (Some xs)
      with assms(2) k short have n: "int (length xs) = Size ti" "Size ti \<le> 8000"
        by (auto simp: buffer_fits_def Let_def as_plp_def obytes_def)
      have "emits (gthen (binary_Write wr 2 (word_of_nat (length xs) :: u16)) (io_Write wr xs))
          (le_bytes 2 (word_of_nat (length xs) :: u16) @ xs) ()" by (rule emits_then emits_binary_Write emits_Write)+
      with Some short assms(3) k n show ?thesis
        by (simp add: write_value_def sent_writer_def writeShortLenType_def buffer_bytes_def Let_def flip: n(1))
    qed
  next
    case byte
    then have "Size ti \<le> 0xff" using assms(2) by (simp add: buffer_fits_def Let_def)
    with assms(3) byte len [of ?xs] show ?thesis
      by (simp add: write_value_def sent_writer_def writeByteLenType_def buffer_bytes_def Let_def)
  qed
qed

end

text \<open>Values are buffers.\<close>

lemma value_buffer:
  assumes "value_fits ti xs"
  shows "buffer_fits ti False (Some xs)" "value_bytes ti e xs = buffer_bytes ti False e (Some xs)"
    "TypeId ti \<noteq> typeGuid \<Longrightarrow> buffer_value db ti False e (Some xs) = value_of db (received ti False) e xs"
proof -
  let ?t = "TypeId ti"
  consider (fixed) "is_fixed ?t" | (guid) "?t = typeGuid" | (short) "is_shortlen ?t" "\<not> is_fixed ?t" "?t \<noteq> typeGuid"
    | (byte) "\<not> is_fixed ?t" "?t \<noteq> typeGuid" "\<not> is_shortlen ?t"
    by blast
  then have "buffer_fits ti False (Some xs) \<and> value_bytes ti e xs = buffer_bytes ti False e (Some xs)
      \<and> (?t \<noteq> typeGuid \<longrightarrow> buffer_value db ti False e (Some xs) = value_of db (received ti False) e xs)"
  proof cases
    case fixed
    with assms show ?thesis by (simp add: value_fits_def buffer_fits_def value_bytes_def buffer_bytes_def buffer_value_def obytes_def)
  next
    case guid
    have "\<not> is_fixed ?t" using guid kind_single(1) by simp
    with assms guid show ?thesis
      by (auto simp add: value_fits_def buffer_fits_def value_bytes_def buffer_bytes_def guid_wire_def obytes_def)
  next
    case short
    from assms short have "int (length xs) < 2 ^ 32" by (simp add: value_fits_def Let_def)
    then have "length xs < 2 ^ 32" by simp
    with assms short show ?thesis
      by (simp add: value_fits_def buffer_fits_def value_bytes_def buffer_bytes_def buffer_value_def plp_bytes_def obytes_def)
  next
    case byte
    with assms show ?thesis
      by (auto simp add: value_fits_def buffer_fits_def value_bytes_def buffer_bytes_def buffer_value_def obytes_def)
  qed
  then show "buffer_fits ti False (Some xs)" "value_bytes ti e xs = buffer_bytes ti False e (Some xs)"
    "?t \<noteq> typeGuid \<Longrightarrow> buffer_value db ti False e (Some xs) = value_of db (received ti False) e xs"
    by blast+
qed

lemma guid_twice:
  assumes "length xs = 16"
  shows "(let ys = rev (take 4 xs) @ rev (take 2 (drop 4 xs)) @ rev (take 2 (drop 6 xs)) @ drop 8 xs
          in rev (take 4 ys) @ rev (take 2 (drop 4 ys)) @ rev (take 2 (drop 6 ys)) @ drop 8 ys) = xs"
proof -
  from assms obtain a b c d e f g h rest where "xs = [a, b, c, d, e, f, g, h] @ rest" "length rest = 8"
    by (auto simp: length_Suc_conv eval_nat_numeral)
  then show ?thesis by (simp add: Let_def eval_nat_numeral)
qed

lemma decodeGuid_encoded: "length xs = 16 \<Longrightarrow> decodeGuid (guid_wire e xs) e = xs"
  using guid_twice [of xs] by (simp add: decodeGuid_def guid_wire_def Let_def)

lemma reads_read_into: "length xs \<le> length (Buffer ti) \<Longrightarrow> reads (read_into ti (length xs)) xs xs"
  by (simp add: read_into_def reads_ReadFull)

lemma reads_ByteLen:
  assumes "0 < length xs" "length xs \<le> 0xff" "length xs \<le> length (Buffer ti)" "bytelen_value db ti xs e = Inr v"
  shows "reads (readByteLenTypeWithEncoding db ti False e) (word_of_nat (length xs) # xs) v"
proof -
  let ?n = "word_of_nat (length xs) :: byte"
  have n: "unat ?n = length xs" using assms(2) by (simp add: unat_of_nat)
  then have n0: "?n \<noteq> 0" using assms(1) by auto
  have "reads (gbind (read_into ti (length xs)) (\<lambda>buf. gfault (bytelen_value db ti buf e))) xs v"
    by (rule reads_bind_nil, rule reads_read_into [OF assms(3)], rule reads_gfault [OF assms(4)])
  with n n0 show ?thesis
    by (auto simp: readByteLenTypeWithEncoding_def intro!: reads_byte_then)
qed

lemma Writer_irrelevant:
  "as_plp (ti\<lparr>Writer := w\<rparr>) out = as_plp ti out" "sendable (ti\<lparr>Writer := w\<rparr>) = sendable ti"
  "received (ti\<lparr>Writer := w\<rparr>) out = received ti out" "sent_writer (ti\<lparr>Writer := w\<rparr>) out = sent_writer ti out"
  "buffer_fits (ti\<lparr>Writer := w\<rparr>) out buf = buffer_fits ti out buf" "buffer_bytes (ti\<lparr>Writer := w\<rparr>) out e buf = buffer_bytes ti out e buf"
proof -
  have f: "TypeId (ti\<lparr>Writer := w\<rparr>) = TypeId ti" "Size (ti\<lparr>Writer := w\<rparr>) = Size ti"
    "Scale (ti\<lparr>Writer := w\<rparr>) = Scale ti" "Prec (ti\<lparr>Writer := w\<rparr>) = Prec ti"
    "Coll (ti\<lparr>Writer := w\<rparr>) = Coll ti" by simp_all
  show p: "as_plp (ti\<lparr>Writer := w\<rparr>) out = as_plp ti out" for out by (simp only: as_plp_def f)
  show "sendable (ti\<lparr>Writer := w\<rparr>) = sendable ti" by (simp only: sendable_def f)
  show r: "received (ti\<lparr>Writer := w\<rparr>) out = received ti out" for out by (simp only: received_def f p)
  show "sent_writer (ti\<lparr>Writer := w\<rparr>) out = sent_writer ti out" by (simp only: sent_writer_def f p)
  show "buffer_fits (ti\<lparr>Writer := w\<rparr>) out buf = buffer_fits ti out buf" by (simp only: buffer_fits_def f p r)
  show "buffer_bytes (ti\<lparr>Writer := w\<rparr>) out e buf = buffer_bytes ti out e buf" by (simp only: buffer_bytes_def f p)
qed

lemma reads_ShortLen:
  assumes "length xs \<le> length (Buffer ti)" "length xs < 0xffff" "typeInfo.Reader ti = Some RdShortLen" "value_of db ti e xs = Inr v"
    "is_shortlen (TypeId ti)"
  shows "reads (read_value db ti False e) (le_bytes 2 (word_of_nat (length xs) :: u16) @ xs) v"
proof -
  let ?n = "word_of_nat (length xs) :: u16"
  note k = kind_shortlen [OF assms(5)]
  have u: "unat ?n = length xs" using assms(2) by (simp add: unat_of_nat)
  moreover have "unat (0xffff :: u16) = 65535" by simp
  ultimately have n0: "?n \<noteq> 0xffff" using assms(2) by fastforce
  let ?g = "\<lambda>buf. let t = TypeId ti in
       if t = typeBigVarChar \<or> t = typeBigChar then gret (VStr (decodeChar db (Coll ti) buf))
       else if t = typeBigVarBin \<or> t = typeBigBinary then gret (VBytes buf)
       else if t = typeNVarChar \<or> t = typeNChar then gfault (vmap VStr (decodeNChar buf))
       else if t = typeUdt then gret (VBytes (decodeUdt buf))
       else graise (StreamPanicf ''Invalid typeid'')"
  have g: "reads (?g xs) [] v"
    using assms(3,4) k by (auto simp: value_of_def Let_def reads_ret intro!: reads_gfault split: if_splits)
  have "reads (gbind (read_into ti (length xs)) ?g) xs v"
    by (rule reads_bind_nil, rule reads_read_into) (use assms(1) g in auto)
  then have "reads (readShortLenType db ti False) (le_bytes 2 ?n @ xs) v"
    unfolding readShortLenType_def using u n0 by - (simp, rule reads_bind, rule reads_uint16, simp)
  then show ?thesis by (simp add: read_value_def assms(3))
qed

lemma reads_ShortLen_null:
  assumes "typeInfo.Reader ti = Some RdShortLen"
  shows "reads (read_value db ti False e) (le_bytes 2 (0xffff :: u16)) VNil"
proof -
  have "reads (gbind r_uint16 (\<lambda>size. if size = 0xffff then gret VNil else k size)) (le_bytes 2 (0xffff :: u16) @ []) VNil" for k
    by (rule reads_bind, rule reads_uint16) (simp add: reads_ret)
  then show ?thesis by (simp add: read_value_def readShortLenType_def assms)
qed

lemma reads_ByteLen_null: "typeInfo.Reader ti = Some RdByteLen \<Longrightarrow> reads (read_value db ti False e) [0] VNil"
  by (auto simp: read_value_def readByteLenTypeWithEncoding_def intro!: reads_byte_then reads_ret)

lemma Reader_received:
  assumes "sendable ti"
  shows "is_fixed (TypeId ti) \<Longrightarrow> typeInfo.Reader (received ti out) = Some RdFixed \<and> int (length (Buffer (received ti out))) = fixed_size (TypeId ti)"
    "is_shortlen (TypeId ti) \<Longrightarrow> as_plp ti out \<Longrightarrow> typeInfo.Reader (received ti out) = Some RdPLP"
    "is_shortlen (TypeId ti) \<Longrightarrow> \<not> as_plp ti out \<Longrightarrow> typeInfo.Reader (received ti out) = Some RdShortLen \<and> int (length (Buffer (received ti out))) = Size ti"
    "\<not> is_fixed (TypeId ti) \<Longrightarrow> \<not> is_shortlen (TypeId ti) \<Longrightarrow>
       typeInfo.Reader (received ti out) = Some RdByteLen \<and> length (Buffer (received ti out)) = nat (Size (received ti out))"
    "TypeId (received ti out) = TypeId ti"
proof -
  show "is_shortlen (TypeId ti) \<Longrightarrow> as_plp ti out \<Longrightarrow> typeInfo.Reader (received ti out) = Some RdPLP"
    "is_shortlen (TypeId ti) \<Longrightarrow> \<not> as_plp ti out \<Longrightarrow> typeInfo.Reader (received ti out) = Some RdShortLen \<and> int (length (Buffer (received ti out))) = Size ti"
    using assms kind_shortlen by (auto simp: received_def set_size_def sendable_def Let_def)
  show "is_fixed (TypeId ti) \<Longrightarrow> typeInfo.Reader (received ti out) = Some RdFixed \<and> int (length (Buffer (received ti out))) = fixed_size (TypeId ti)"
    by (simp add: received_def set_size_def fixed_size_def)
  show "\<not> is_fixed (TypeId ti) \<Longrightarrow> \<not> is_shortlen (TypeId ti) \<Longrightarrow>
      typeInfo.Reader (received ti out) = Some RdByteLen \<and> length (Buffer (received ti out)) = nat (Size (received ti out))"
    using assms by (auto simp: received_def set_size_def sendable_def Let_def)
  show "TypeId (received ti out) = TypeId ti" by (simp add: received_def set_size_def Let_def)
qed

lemma reads_buffer:
  assumes "sendable ti" "buffer_fits ti out buf" "buffer_value db ti out e buf = Inr v"
  shows "reads (read_value db (received ti out) False e) (buffer_bytes ti out e buf) v"
proof -
  let ?t = "TypeId ti" and ?r = "received ti out" and ?xs = "obytes buf"
  note R = Reader_received [OF assms(1), of out]
  consider (fixed) "is_fixed ?t" | (guid) "?t = typeGuid" "?xs \<noteq> []" | (plp) "is_shortlen ?t" "as_plp ti out"
    | (short) "is_shortlen ?t" "\<not> as_plp ti out" | (nil) "\<not> is_fixed ?t" "\<not> is_shortlen ?t" "?xs = []"
    | (byte) "\<not> is_fixed ?t" "\<not> is_shortlen ?t" "?t \<noteq> typeGuid" "?xs \<noteq> []"
    by blast
  then show ?thesis
  proof cases
    case fixed
    have v: "fixed_value ?t ?xs (GetTimezone e) = Inr v" using assms(3) R(1,5) fixed by (simp add: buffer_value_def value_of_def)
    have "length (Buffer ?r) = length ?xs" using assms(2) R(1) fixed by (simp add: buffer_fits_def)
    then have "reads (readFixedType ?r e) ?xs v"
      unfolding readFixedType_def by - (rule reads_bind_nil, rule reads_ReadFull, use v R(5) in \<open>auto intro!: reads_gfault\<close>)
    with fixed R(1) show ?thesis by (simp add: read_value_def buffer_bytes_def)
  next
    case guid
    note k = kind_single(1)
    have n: "int (length ?xs) = Size ti" using assms(2) guid(1) k by (simp add: buffer_fits_def)
    moreover have "Size ti \<in> {0, 16}" using assms(1) guid(1) k by (auto simp: sendable_def)
    ultimately have l: "length ?xs = 16" using guid(2) by auto
    have v: "v = VBytes ?xs" using assms(3) guid k by (simp add: buffer_value_def)
    have "length (guid_wire e ?xs) = 16" using l by (simp add: guid_wire_def)
    moreover have "Size ?r = 16" using guid(1) k n l by (simp add: received_def set_size_def)
    then have "length (Buffer ?r) = 16" using R(4) guid(1) k by simp
    moreover have "bytelen_value db ?r (guid_wire e ?xs) e = Inr v"
      using guid(1) R(5) v decodeGuid_encoded [OF l] by (simp add: bytelen_value_def type_ids)
    ultimately have "reads (readByteLenTypeWithEncoding db ?r False e) (word_of_nat 16 # guid_wire e ?xs) v"
      using reads_ByteLen [of "guid_wire e ?xs" ?r db e v] by simp
    with guid k R(4) show ?thesis by (simp add: read_value_def buffer_bytes_def)
  next
    case plp
    note k = kind_shortlen [OF plp(1)]
    show ?thesis
    proof (cases buf)
      case None
      with plp k assms(3) R(2) reads_PLP_null show ?thesis by (simp add: read_value_def buffer_bytes_def buffer_value_def plp_bytes_def)
    next
      case (Some xs)
      have l: "length xs < 2 ^ 32" "plp_value db ?r xs = Inr v"
        using assms(2,3) Some k plp R(2) by (simp_all add: buffer_fits_def buffer_value_def value_of_def obytes_def)
      have c: "list_all chunk_ok (if xs = [] then [] else [xs])" "concat (if xs = [] then [] else [xs]) = xs"
        using l(1) by (auto simp: chunk_ok_def)
      have "UNKNOWN_PLP_LEN \<noteq> PLP_NULL" by (simp add: UNKNOWN_PLP_LEN_def PLP_NULL_def)
      from reads_PLPType [OF c(1) this, of db ?r v] c(2) l(2)
      have "reads (readPLPType db ?r False) (plp_bytes buf) v" by (simp add: plp_bytes_def Some)
      with plp k R(2) show ?thesis by (simp add: read_value_def buffer_bytes_def)
    qed
  next
    case short
    note k = kind_shortlen [OF short(1)]
    show ?thesis
    proof (cases buf)
      case None
      with short k assms(3) R(3) reads_ShortLen_null show ?thesis by (simp add: buffer_bytes_def buffer_value_def)
    next
      case (Some xs)
      have "int (length xs) = Size ti" "Size ti \<le> 8000" "value_of db ?r e xs = Inr v"
        using assms(2,3) Some short k by (auto simp: buffer_fits_def buffer_value_def as_plp_def obytes_def Let_def)
      then show ?thesis using reads_ShortLen [of xs ?r db e v] short k R(3,5) Some by (simp add: buffer_bytes_def Let_def)
    qed
  next
    case nil
    with assms(3) R(4) reads_ByteLen_null [of ?r db e] show ?thesis by (simp add: buffer_bytes_def buffer_value_def Let_def)
  next
    case byte
    have "0 < length ?xs" "length ?xs \<le> 0xff" "length ?xs \<le> length (Buffer ?r)"
      using assms(2) byte R(4) by (auto simp: buffer_fits_def Let_def)
    from reads_ByteLen [OF this, of db e v] assms(3) byte R(4) show ?thesis
      by (simp add: buffer_value_def buffer_bytes_def value_of_def read_value_def Let_def)
  qed
qed

lemma reads_value:
  assumes "sendable ti" "value_fits ti xs" "value_of db (received ti False) e xs = Inr v" "TypeId ti \<noteq> typeGuid"
  shows "reads (read_value db (received ti False) False e) (value_bytes ti e xs) v"
  using reads_buffer [OF assms(1) value_buffer(1) [OF assms(2)], of db e v] value_buffer(2,3) [OF assms(2)] assms(3,4) by simp

section \<open>Properties of types and values\<close>

text \<open>
  C16. What the driver sends as the type information and value of a parameter is what its own
  readers understand. For the fixed types, the length-byte types (integers, bits, floats, decimals, money, \<open>datetime\<close>, \<open>uniqueidentifier\<close>, dates and times) and
  the length-word types (binary, character and national character data, below and above 8000 bytes), with a buffer that fits the type, for input and for output
  parameters, the receiver that parses the type information and then the value gets the type, size, scale, precision and
  collation that were sent and decodes exactly the bytes of the buffer, through the fixed, the length-byte,
  the length-word or the chunked form. A nil buffer of a length-word type and an empty buffer of a length-byte type arrive as NULL.
  Not covered are \<open>text\<close>, \<open>ntext\<close>, \<open>image\<close>, \<open>xml\<close>, \<open>sql_variant\<close>, UDTs and table-valued parameters (of which \<open>makeParam\<close> chooses only the last one), a buffer longer than its type,
  and the empty buffer of a \<open>uniqueidentifier\<close> of size 16, which cannot be read back (\<open>null_guid_stray_bytes\<close> below).
\<close>

theorem parameter_roundtrip:
  assumes "sendable ti" "buffer_fits ti out buf"
    and "buffer_value db ti out encoding buf = Inr v"
  shows "\<exists>xs. gbind (writeTypeInfo buffer_write ti out) (\<lambda>ti'. write_value buffer_write ti' buf encoding) []
           = (Inr (), xs)
     \<and> reads (gbind (gbind r_byte readTypeInfo) (\<lambda>ti'. gbind (read_value db ti' False encoding) (\<lambda>v. gret (ti', v)))) xs
         (received ti out, v)"
proof -
  let ?ti = "ti\<lparr>Writer := Some (sent_writer ti out)\<rparr>"
  have s: "sendable ?ti" "buffer_fits ?ti out buf" "Writer ?ti = Some (sent_writer ?ti out)"
    "buffer_bytes ?ti out encoding buf = buffer_bytes ti out encoding buf"
    using assms(1,2) by (simp_all add: Writer_irrelevant)
  have w: "bytes_buffer.emits (gbind (writeTypeInfo buffer_write ti out) (\<lambda>ti'. write_value buffer_write ti' buf encoding))
      (typeinfo_bytes ti out @ buffer_bytes ti out encoding buf) ()"
    by (rule bytes_buffer.emits_bind, rule bytes_buffer.emits_TypeInfo [OF assms(1)])
      (use bytes_buffer.emits_buffer [OF s(1-3), of encoding] s(4) in simp)
  have r: "reads (gbind (gbind r_byte readTypeInfo) (\<lambda>ti'. gbind (read_value db ti' False encoding) (\<lambda>v. gret (ti', v))))
      (typeinfo_bytes ti out @ buffer_bytes ti out encoding buf) (received ti out, v)"
    by (rule reads_bind, rule reads_TypeInfo [OF assms(1)], rule reads_bind_nil,
        rule reads_buffer [OF assms], rule reads_ret)
  show ?thesis using bytes_buffer.emitsD [OF w refl, of "[]"] r by auto
qed

text \<open>
  An empty buffer of a \<open>uniqueidentifier\<close>, as a \<open>NullUniqueIdentifier\<close> that is not valid makes it, is sent as the length 0 and sixteen
  more bytes, which the receiver takes for the beginning of the next parameter.
\<close>

lemma null_guid_stray_bytes:
  assumes "TypeId ti = typeGuid" "Size ti = 16"
  shows "gbind (writeTypeInfo buffer_write ti False) (\<lambda>ti'. write_value buffer_write ti' (Some []) encoding) []
     = (Inr (), [typeGuid, 16, 0] @ replicate 16 0)"
proof -
  let ?m = "gbind (writeTypeInfo buffer_write ti False) (\<lambda>ti'. write_value buffer_write ti' (Some []) encoding)"
  have s: "sendable ti" using assms kind_single(1) by (simp add: sendable_def)
  have v: "bytes_buffer.emits (write_value buffer_write (ti\<lparr>Writer := Some (sent_writer ti False)\<rparr>) (Some []) encoding) ([0] @ replicate 16 0) ()"
    using assms kind_single(1) bytes_buffer.emits_then [OF bytes_buffer.emits_byte bytes_buffer.emits_Write, of 0 "replicate 16 0"]
    by (simp add: write_value_def sent_writer_def writeGuidType_def obytes_def Let_def eval_nat_numeral split: if_splits)
  have "typeinfo_bytes ti False = [typeGuid, 16]" using assms kind_single(1) by (simp add: typeinfo_bytes_def)
  with bytes_buffer.emits_bind [where f = "\<lambda>ti'. write_value buffer_write ti' (Some []) encoding", OF bytes_buffer.emits_TypeInfo [OF s, of False] v]
  have "bytes_buffer.emits ?m ([typeGuid, 16] @ [0] @ replicate 16 0) ()" by simp
  from bytes_buffer.emitsD [OF this refl, of "[]"] show ?thesis by auto
qed

text \<open>A \<open>varbinary\<close> parameter of three bytes.\<close>

definition ex_varbinary :: typeInfo where
  "ex_varbinary = typeInfo_zero\<lparr>TypeId := typeBigVarBin, Size := 3\<rparr>"

theorem parameter_roundtrip_witness:
  "\<exists>xs. gbind (writeTypeInfo buffer_write ex_varbinary True)
           (\<lambda>ti'. write_value buffer_write ti' (Some [1, 2, 3]) \<lparr>Timezone = None, GuidConversion = False\<rparr>) []
           = (Inr (), xs)
     \<and> reads (gbind (gbind r_byte readTypeInfo)
           (\<lambda>ti'. gbind (read_value (\<lambda>_ _. None) ti' False \<lparr>Timezone = None, GuidConversion = False\<rparr>) (\<lambda>v. gret (ti', v)))) xs
         (received ex_varbinary True, VBytes [1, 2, 3])"
proof (rule parameter_roundtrip)
  have k: "is_shortlen typeBigVarBin" by (simp add: kind_defs)
  note k' = kind_shortlen [OF k]
  show "sendable ex_varbinary" using k by (simp add: sendable_def ex_varbinary_def)
  show "buffer_fits ex_varbinary True (Some [1, 2, 3])" using k k' by (simp add: buffer_fits_def ex_varbinary_def obytes_def as_plp_def)
  show "buffer_value (\<lambda>_ _. None) ex_varbinary True \<lparr>Timezone = None, GuidConversion = False\<rparr> (Some [1, 2, 3]) = Inr (VBytes [1, 2, 3])"
    by code_simp
qed

text \<open>
  A partially length-prefixed value may come in any number of chunks: the reader returns
  their concatenation, whatever length it was announced with, and ends at the terminator.
\<close>

theorem plp_any_chunks:
  assumes "list_all chunk_ok cs" "announced \<noteq> PLP_NULL" "TypeId ti = typeBigVarBin"
  shows "reads (readPLPType db ti False) (le_bytes 8 announced @ plp_chunks cs) (VBytes (concat cs))"
  by (rule reads_PLPType [OF assms(1,2)]) (simp add: plp_value_def assms(3) type_ids)

theorem plp_any_chunks_witness:
  "reads (readPLPType (\<lambda>_ _. None) ex_varbinary False) (le_bytes 8 (5 :: u64) @ plp_chunks [[1, 2], [3]]) (VBytes (concat [[1, 2], [3]]))"
  by (rule plp_any_chunks) (simp_all add: chunk_ok_def PLP_NULL_def ex_varbinary_def)

text \<open>
  A \<open>uniqueidentifier\<close> parameter is read back unchanged, with and without the
  conversion between the mixed-endian form of the wire and the big-endian form of the
  application, because the conversion is applied in both directions.
\<close>

theorem guid_roundtrip:
  assumes "TypeId ti = typeGuid" "Size ti = 16" "length xs = 16"
  shows "\<exists>out. gbind (writeTypeInfo buffer_write ti False) (\<lambda>ti'. write_value buffer_write ti' (Some xs) encoding) []
           = (Inr (), out)
     \<and> reads (gbind (gbind r_byte readTypeInfo) (\<lambda>ti'. read_value db ti' False encoding)) out (VBytes xs)"
proof -
  let ?ti = "ti\<lparr>Writer := Some (sent_writer ti False)\<rparr>"
  note k = kind_single(1)
  have s: "sendable ti" "buffer_fits ti False (Some xs)" "buffer_value db ti False encoding (Some xs) = Inr (VBytes xs)"
    using assms k by (auto simp: sendable_def buffer_fits_def buffer_value_def obytes_def)
  have w: "bytes_buffer.emits (gbind (writeTypeInfo buffer_write ti False) (\<lambda>ti'. write_value buffer_write ti' (Some xs) encoding))
      (typeinfo_bytes ti False @ buffer_bytes ti False encoding (Some xs)) ()"
    by (rule bytes_buffer.emits_bind, rule bytes_buffer.emits_TypeInfo [OF s(1)])
      (use bytes_buffer.emits_buffer [of ?ti False "Some xs" encoding] s in \<open>simp add: Writer_irrelevant\<close>)
  have "reads (gbind (gbind r_byte readTypeInfo) (\<lambda>ti'. read_value db ti' False encoding))
      (typeinfo_bytes ti False @ buffer_bytes ti False encoding (Some xs)) (VBytes xs)"
    by (rule reads_bind, rule reads_TypeInfo [OF s(1)], rule reads_buffer [OF s])
  with bytes_buffer.emitsD [OF w refl, of "[]"] show ?thesis by auto
qed

theorem guid_roundtrip_witness:
  "\<exists>out. gbind (writeTypeInfo buffer_write (typeInfo_zero\<lparr>TypeId := typeGuid, Size := 16\<rparr>) False)
       (\<lambda>ti'. write_value buffer_write ti' (Some [0, 1, 2, 3, 4, 5, 6, 7, 8, 9, 10, 11, 12, 13, 14, 15]) \<lparr>Timezone = None, GuidConversion = True\<rparr>) []
           = (Inr (), out)
     \<and> reads (gbind (gbind r_byte readTypeInfo) (\<lambda>ti'. read_value (\<lambda>_ _. None) ti' False \<lparr>Timezone = None, GuidConversion = True\<rparr>)) out
         (VBytes [0, 1, 2, 3, 4, 5, 6, 7, 8, 9, 10, 11, 12, 13, 14, 15])"
  by (rule guid_roundtrip) simp_all

end
