(* ===== verification/Tds_Prelogin.thy ===== *)
theory Tds_Prelogin
  imports Tds_Types
begin

text \<open>
  The prelogin exchange of \<open>src/tds.go\<close>: the option table \<open>writePrelogin\<close> sends and
  \<open>readPrelogin\<close> parses. A Go map from option tokens to values is a map; the keys in the
  order \<open>sort.Sort\<close> puts them in are the tokens of its domain in increasing order.
\<close>

section \<open>Sending\<close>

definition preloginVERSION :: byte where "preloginVERSION = 0"
definition preloginENCRYPTION :: byte where "preloginENCRYPTION = 1"
definition preloginINSTOPT :: byte where "preloginINSTOPT = 2"
definition preloginTHREADID :: byte where "preloginTHREADID = 3"
definition preloginMARS :: byte where "preloginMARS = 4"
definition preloginTRACEID :: byte where "preloginTRACEID = 5"
definition preloginFEDAUTHREQUIRED :: byte where "preloginFEDAUTHREQUIRED = 6"
definition preloginTERMINATOR :: byte where "preloginTERMINATOR = 0xff"

type_synonym prelogin_fields = "byte \<rightharpoonup> bytes"

definition prelogin_keys :: "prelogin_fields \<Rightarrow> byte list" where
  "prelogin_keys flds = filter (\<lambda>k. flds k \<noteq> None) (map word_of_nat [0..<256])"

text \<open>\<open>flds[k]\<close>: the empty slice for a key that is not there.\<close>

definition field :: "prelogin_fields \<Rightarrow> byte \<Rightarrow> bytes" where
  "field flds k = (case flds k of None \<Rightarrow> [] | Some v \<Rightarrow> v)"

primrec write_option_table ::
    "prelogin_fields \<Rightarrow> u16 \<Rightarrow> byte list \<Rightarrow> (tdsBuffer, unit) go" where
  "write_option_table flds offset [] = gret ()"
| "write_option_table flds offset (k # ks) =
     gthen (WriteByte k)
       (gthen (io_Write Write (be_bytes 2 offset))
          (let sz = word_of_nat (length (field flds k)) :: u16
           in gthen (io_Write Write (be_bytes 2 sz)) (write_option_table flds (offset + sz) ks)))"

primrec write_option_values :: "prelogin_fields \<Rightarrow> byte list \<Rightarrow> (tdsBuffer, unit) go" where
  "write_option_values flds [] = gret ()"
| "write_option_values flds (k # ks) =
     gbind (Write (field flds k)) (\<lambda>written.
       if written \<noteq> length (field flds k)
       then graise (Err (ErrMsg ''Write method didn't write the whole value''))
       else write_option_values flds ks)"

definition writePrelogin :: "byte \<Rightarrow> prelogin_fields \<Rightarrow> (tdsBuffer, unit) go" where
  "writePrelogin packetType flds =
     gthen (BeginPacket packetType False)
       (gthen
          (let keys = prelogin_keys flds;
               offset = word_of_nat (5 * length keys + 1) :: u16
           in gthen (write_option_table flds offset keys)
                (gthen (WriteByte preloginTERMINATOR) (write_option_values flds keys)))
          FinishPacket)"

section \<open>Receiving\<close>

record preloginOption =
  po_token :: byte
  po_offset :: u16
  po_length :: u16

definition preloginOptionSize :: nat where "preloginOptionSize = 5"

definition bad_option :: err where
  "bad_option = ErrMsg ''invalid buffer, invalid prelogin option''"

definition readPreloginOption :: "bytes \<Rightarrow> nat \<Rightarrow> err + preloginOption" where
  "readPreloginOption buffer offset =
     (if length buffer \<le> offset then Inl bad_option
      else let rec_type = buffer ! offset in
      if rec_type = preloginTERMINATOR
      then Inr \<lparr>po_token = rec_type, po_offset = 0, po_length = 0\<rparr>
      else if length buffer \<le> offset + preloginOptionSize then Inl bad_option
      else Inr \<lparr>po_token = rec_type,
                po_offset = be_word [buffer ! (offset + 1), buffer ! (offset + 2)],
                po_length = be_word [buffer ! (offset + 3), buffer ! (offset + 4)]\<rparr>)"

text \<open>
  The sum of offset and length is a \<open>uint16\<close> and wraps; a slice whose end is before its
  start panics.
\<close>

definition readPreloginOptionData :: "preloginOption \<Rightarrow> bytes \<Rightarrow> fault + bytes" where
  "readPreloginOptionData plOption buffer =
     (let hi = unat (po_length plOption + po_offset plOption); lo = unat (po_offset plOption) in
      if length buffer < hi \<or> length buffer \<le> lo then Inl (Err bad_option)
      else if po_token plOption = preloginTERMINATOR
      then Inl (Err (ErrMsg ''cannot read data for prelogin terminator record''))
      else if hi < lo then Inl (RuntimePanic ''slice bounds out of range'')
      else Inr (take (hi - lo) (drop lo buffer)))"

function read_options :: "bytes \<Rightarrow> nat \<Rightarrow> prelogin_fields \<Rightarrow> fault + prelogin_fields" where
  "read_options struct_buf offset results =
     (case readPreloginOption struct_buf offset of
        Inl e \<Rightarrow> Inl (Err e)
      | Inr plOption \<Rightarrow>
          if po_token plOption = preloginTERMINATOR then Inr results
          else if po_token plOption \<noteq> preloginTRACEID
          then (case readPreloginOptionData plOption struct_buf of
                  Inl e \<Rightarrow> Inl e
                | Inr v \<Rightarrow> read_options struct_buf (offset + preloginOptionSize)
                             (results(po_token plOption \<mapsto> v)))
          else read_options struct_buf (offset + preloginOptionSize) results)"
  by pat_completeness auto
termination
  by (relation "measure (\<lambda>(b, off, _). length b - off)")
    (auto simp: readPreloginOption_def preloginOptionSize_def split: if_splits)

declare read_options.simps [simp del]

definition readPrelogin :: "(tdsBuffer, prelogin_fields) go" where
  "readPrelogin =
     gbind BeginRead (\<lambda>packet_type. gbind (io_ReadAll Read) (\<lambda>struct_buf.
       if packet_type \<noteq> packReply
       then graise (Err (ErrMsg ''invalid respones, expected packet type 4, PRELOGIN RESPONSE''))
       else if struct_buf = []
       then graise (Err (ErrMsg ''invalid empty PRELOGIN response, it must contain at least one byte''))
       else (\<lambda>r. (read_options struct_buf 0 Map.empty, r))))"

section \<open>What goes on the wire\<close>

primrec option_table :: "prelogin_fields \<Rightarrow> u16 \<Rightarrow> byte list \<Rightarrow> bytes" where
  "option_table flds offset [] = []"
| "option_table flds offset (k # ks) =
     (let sz = word_of_nat (length (field flds k)) :: u16
      in k # be_bytes 2 offset @ be_bytes 2 sz @ option_table flds (offset + sz) ks)"

definition prelogin_bytes :: "prelogin_fields \<Rightarrow> bytes" where
  "prelogin_bytes flds =
     (let keys = prelogin_keys flds in
      option_table flds (word_of_nat (5 * length keys + 1)) keys
      @ preloginTERMINATOR # concat (map (field flds) keys))"

definition prelogin_size :: "prelogin_fields \<Rightarrow> nat" where
  "prelogin_size flds =
     5 * length (prelogin_keys flds) + 1 + length (concat (map (field flds) (prelogin_keys flds)))"

lemma emits_WriteByte: "tds_sink.emits w0 (WriteByte b) [b] ()"
  using WriteByte_writing by (simp add: tds_sink.emits_def)

lemma emits_table: "tds_sink.emits w0 (write_option_table flds off ks) (option_table flds off ks) ()"
proof (induction ks arbitrary: off)
  case Nil
  then show ?case by (simp add: tds_sink.emits_ret)
next
  case (Cons k ks)
  show ?case
    using tds_sink.emits_then [OF emits_WriteByte tds_sink.emits_then [OF tds_sink.emits_Write
      tds_sink.emits_then [OF tds_sink.emits_Write Cons.IH]]]
    by (simp add: Let_def)
qed

lemma emits_values: "tds_sink.emits w0 (write_option_values flds ks) (concat (map (field flds) ks)) ()"
proof (induction ks)
  case Nil
  then show ?case by (simp add: tds_sink.emits_ret)
next
  case (Cons k ks)
  from tds_sink.emits_bind [OF tds_sink.emits_wr [of _ "field flds k"], where f = "\<lambda>written.
     if written \<noteq> length (field flds k)
       then graise (Err (ErrMsg ''Write method didn't write the whole value''))
       else write_option_values flds ks"] Cons.IH
  show ?case by simp
qed

lemma writePrelogin_send:
  "writePrelogin t flds = send t False (gthen (write_option_table flds
      (word_of_nat (5 * length (prelogin_keys flds) + 1)) (prelogin_keys flds))
    (gthen (WriteByte preloginTERMINATOR) (write_option_values flds (prelogin_keys flds))))"
  by (simp add: writePrelogin_def send_def Let_def)

lemma emits_prelogin:
  "tds_sink.emits w0 (gthen (write_option_table flds
      (word_of_nat (5 * length (prelogin_keys flds) + 1)) (prelogin_keys flds))
    (gthen (WriteByte preloginTERMINATOR) (write_option_values flds (prelogin_keys flds))))
    (prelogin_bytes flds) ()"
  using tds_sink.emits_then [OF emits_table tds_sink.emits_then [OF emits_WriteByte emits_values]]
  by (simp add: prelogin_bytes_def Let_def)

section \<open>Reading the table back\<close>

lemma be2: "be_bytes 2 (w :: u16) = [ucast (drop_bit 8 w), ucast w]"
  by (simp add: be_bytes_def numeral_2_eq_2)

lemma be2_word: "be_word [ucast (drop_bit 8 w), ucast w] = (w :: u16)"
  using be_codec [of 2 w] by (simp add: be2)

lemma length_option_table [simp]: "length (option_table flds off ks) = 5 * length ks"
  by (induction ks arbitrary: off) (auto simp: Let_def)

lemma readPreloginOption_at:
  assumes "buf = pre @ k # be_bytes 2 off @ be_bytes 2 sz @ post" "post \<noteq> []" "k \<noteq> preloginTERMINATOR"
  shows "readPreloginOption buf (length pre) = Inr \<lparr>po_token = k, po_offset = off, po_length = sz\<rparr>"
  using assms
  by (cases post) (auto simp: readPreloginOption_def preloginOptionSize_def be2 be2_word nth_append Let_def)

lemma readPreloginOptionData_at:
  assumes "buf = pre @ v @ post" "v \<noteq> []" "length buf < 2 ^ 16" "k \<noteq> preloginTERMINATOR"
    "off = word_of_nat (length pre)" "sz = word_of_nat (length v)"
  shows "readPreloginOptionData \<lparr>po_token = k, po_offset = off, po_length = sz\<rparr> buf = Inr v"
proof -
  have o: "unat off = length pre" using assms by (simp add: unat_of_nat)
  have "sz + off = word_of_nat (length pre + length v)" using assms by simp
  then have h: "unat (sz + off) = length pre + length v"
    using assms(1,3) by (simp del: of_nat_add add: unat_of_nat)
  from assms(1,2,4) show ?thesis
    by (cases v) (simp_all add: readPreloginOptionData_def o h)
qed

lemma read_options_table:
  assumes "buf = pre @ option_table flds off ks @ preloginTERMINATOR # vs @ concat (map (field flds) ks)"
    "off = word_of_nat (length pre + 5 * length ks + 1 + length vs)" "length buf < 2 ^ 16"
    "\<forall>k \<in> set ks. k \<noteq> preloginTERMINATOR \<and> field flds k \<noteq> []" "distinct ks"
  shows "read_options buf (length pre) res =
    Inr (\<lambda>k. if k \<in> set ks \<and> k \<noteq> preloginTRACEID then Some (field flds k) else res k)"
  using assms
proof (induction ks arbitrary: pre off vs res)
  case Nil
  then show ?case by (subst read_options.simps) (simp add: readPreloginOption_def nth_append Let_def)
next
  case (Cons k ks)
  let ?sz = "word_of_nat (length (field flds k)) :: u16"
  let ?pre = "pre @ k # be_bytes 2 off @ be_bytes 2 ?sz"
  have k: "k \<noteq> preloginTERMINATOR" "field flds k \<noteq> []" using Cons.prems by auto
  have buf: "buf = ?pre @ option_table flds (off + ?sz) ks @ preloginTERMINATOR # (vs @ field flds k)
      @ concat (map (field flds) ks)"
    using Cons.prems(1) by (simp add: Let_def)
  have opt: "readPreloginOption buf (length pre) = Inr \<lparr>po_token = k, po_offset = off, po_length = ?sz\<rparr>"
    by (rule readPreloginOption_at [OF buf [unfolded append_assoc append_Cons] _ k(1)]) simp
  have dat: "readPreloginOptionData \<lparr>po_token = k, po_offset = off, po_length = ?sz\<rparr> buf = Inr (field flds k)"
    by (rule readPreloginOptionData_at [OF _ k(2) Cons.prems(3) k(1),
          where pre = "?pre @ option_table flds (off + ?sz) ks @ preloginTERMINATOR # vs"])
      (simp_all add: buf Cons.prems(2))
  have "off + ?sz = word_of_nat (length ?pre + 5 * length ks + 1 + length (vs @ field flds k))"
    using Cons.prems(2) by simp
  note IH = Cons.IH [OF buf this Cons.prems(3)]
  have len: "length ?pre = length pre + preloginOptionSize" by (simp add: preloginOptionSize_def)
  have d: "k \<notin> set ks" "distinct ks" "\<forall>k \<in> set ks. k \<noteq> preloginTERMINATOR \<and> field flds k \<noteq> []"
    using Cons.prems by auto
  show ?case
    unfolding read_options.simps [of buf "length pre"] opt
    using IH [OF d(3,2), unfolded len] k(1) d(1) dat by (auto simp: fun_eq_iff)
qed

lemma set_prelogin_keys: "set (prelogin_keys flds) = dom flds"
proof -
  have "k \<in> (word_of_nat :: nat \<Rightarrow> byte) ` {0..<256}" for k :: byte
    by (rule image_eqI [of _ _ "unat k"]) (use unsigned_less [of k, where 'a = nat] in auto)
  then show ?thesis by (auto simp: prelogin_keys_def image_iff)
qed

lemma distinct_prelogin_keys: "distinct (prelogin_keys flds)"
proof -
  have "inj_on (word_of_nat :: nat \<Rightarrow> byte) {0..<256}"
    by (rule inj_on_inverseI [where g = unat]) (simp add: unat_of_nat)
  then show ?thesis by (simp add: prelogin_keys_def distinct_map)
qed

lemma length_prelogin_bytes: "length (prelogin_bytes flds) = prelogin_size flds"
  by (simp add: prelogin_bytes_def prelogin_size_def Let_def)

lemma read_options_prelogin:
  assumes "flds preloginTERMINATOR = None" "\<forall>v \<in> ran flds. v \<noteq> []" "prelogin_size flds < 2 ^ 16"
  shows "read_options (prelogin_bytes flds) 0 Map.empty = Inr (flds |` (- {preloginTRACEID}))"
proof -
  have f: "flds k = Some (field flds k)" if "k \<in> dom flds" for k
    using that by (auto simp: field_def)
  have "\<forall>k \<in> set (prelogin_keys flds). k \<noteq> preloginTERMINATOR \<and> field flds k \<noteq> []"
    using assms(1,2) f by (auto simp: set_prelogin_keys ran_def field_def)
  from read_options_table [of "prelogin_bytes flds" "[]" flds _ "prelogin_keys flds" "[]", OF _ refl _ this
      distinct_prelogin_keys] assms(3)
  have "read_options (prelogin_bytes flds) 0 Map.empty = Inr (\<lambda>k. if k \<in> dom flds \<and> k \<noteq> preloginTRACEID
      then Some (field flds k) else None)"
    by (simp add: length_prelogin_bytes prelogin_size_def set_prelogin_keys prelogin_bytes_def Let_def)
  also have "(\<lambda>k. if k \<in> dom flds \<and> k \<noteq> preloginTRACEID then Some (field flds k) else None)
      = flds |` (- {preloginTRACEID})"
    using f by (auto simp: fun_eq_iff restrict_map_def)
  finally show ?thesis .
qed

lemma readPrelogin_receive:
  "readPrelogin = gbind receive (\<lambda>(packet_type, struct_buf).
       if packet_type \<noteq> packReply
       then graise (Err (ErrMsg ''invalid respones, expected packet type 4, PRELOGIN RESPONSE''))
       else if struct_buf = []
       then graise (Err (ErrMsg ''invalid empty PRELOGIN response, it must contain at least one byte''))
       else (\<lambda>r. (read_options struct_buf 0 Map.empty, r)))"
  by (simp add: readPrelogin_def receive_def gbind_assoc)

section \<open>Properties\<close>

text \<open>
  C23. A prelogin message whose values are not empty and which fits a \<open>uint16\<close> offset is read
  back by \<open>readPrelogin\<close>, from the packets \<open>writePrelogin\<close> sent, as exactly the map that was
  written, less the trace id, which the reader skips.
\<close>

theorem prelogin_roundtrip:
  assumes w: "wbuf_ok w"
    and flds: "flds preloginTERMINATOR = None" "\<forall>v \<in> ran flds. v \<noteq> []" "prelogin_size flds < 2 ^ 16"
  shows "\<exists>w' pkts. writePrelogin packReply flds w = (Inr (), w')
     \<and> t_out (transport w') = t_out (transport w) @ pkts
     \<and> (\<forall>r rest. rbuf_ok r \<and> packetSize w \<le> packetSize r \<and> packetSize r < 2 ^ 16
          \<and> t_in (transport r) = concat pkts @ rest
          \<longrightarrow> (\<exists>r'. readPrelogin r = (Inr (flds |` (- {preloginTRACEID})), r')))"
proof -
  let ?w0 = "begun packReply False w"
  have ne: "prelogin_bytes flds \<noteq> []" by (simp add: prelogin_bytes_def Let_def)
  obtain w' where w': "writePrelogin packReply flds w = (Inr (), w')"
    "t_out (transport w') = t_out (transport w) @ message ?w0 (prelogin_bytes flds)"
    using send_message [OF w emits_prelogin, of packReply False flds] by (auto simp: writePrelogin_send)
  have st: "bufmem ?w0 ! 1 = 0" using begun_status [OF w] by (simp add: begin_status_def)
  have f: "wPacketType ?w0 = packReply" "packetSize ?w0 = packetSize w" by (simp_all add: begun_def)
  have "\<exists>r'. readPrelogin r = (Inr (flds |` (- {preloginTRACEID})), r')"
    if rd: "rbuf_ok r \<and> packetSize w \<le> packetSize r \<and> packetSize r < 2 ^ 16
      \<and> t_in (transport r) = concat (message ?w0 (prelogin_bytes flds)) @ rest" for r rest
  proof -
    obtain r' where "receive r = (Inr (packReply, prelogin_bytes flds), r')"
      using receive_message [OF begun_ok [OF w] st ne, of r rest] rd f by auto
    then show ?thesis using ne read_options_prelogin [OF flds] by (simp add: readPrelogin_receive)
  qed
  with w' show ?thesis by blast
qed

lemma prelogin_size_sum:
  "prelogin_size flds = 5 * card (dom flds) + 1 + (\<Sum>k \<in> dom flds. length (field flds k))"
  unfolding prelogin_size_def
  by (simp add: distinct_card [symmetric] set_prelogin_keys [symmetric] distinct_prelogin_keys length_concat
      sum_list_distinct_conv_sum_set o_def)

definition ex_prelogin :: prelogin_fields where
  "ex_prelogin = [preloginVERSION \<mapsto> [11, 0, 0, 0, 0, 0], preloginENCRYPTION \<mapsto> [1], preloginTRACEID \<mapsto> [7]]"

lemma ex_prelogin_ok:
  "ex_prelogin preloginTERMINATOR = None" "\<forall>v \<in> ran ex_prelogin. v \<noteq> []" "prelogin_size ex_prelogin < 2 ^ 16"
proof -
  show "ex_prelogin preloginTERMINATOR = None" by code_simp
  show "\<forall>v \<in> ran ex_prelogin. v \<noteq> []"
    by (auto simp: ex_prelogin_def ran_def split: if_splits)
  have "dom ex_prelogin = {preloginVERSION, preloginENCRYPTION, preloginTRACEID}"
    by (auto simp: ex_prelogin_def)
  then show "prelogin_size ex_prelogin < 2 ^ 16"
    by (simp add: prelogin_size_sum ex_prelogin_def field_def preloginVERSION_def
        preloginENCRYPTION_def preloginTRACEID_def)
qed

theorem prelogin_roundtrip_witness:
  "\<exists>w' pkts. writePrelogin packReply ex_prelogin (ex_buf 12 []) = (Inr (), w')
     \<and> t_out (transport w') = t_out (transport (ex_buf 12 [])) @ pkts
     \<and> (\<forall>r rest. rbuf_ok r \<and> packetSize (ex_buf 12 []) \<le> packetSize r \<and> packetSize r < 2 ^ 16
          \<and> t_in (transport r) = concat pkts @ rest
          \<longrightarrow> (\<exists>r'. readPrelogin r = (Inr (ex_prelogin |` (- {preloginTRACEID})), r')))"
  by (rule prelogin_roundtrip [OF _ ex_prelogin_ok]) (simp add: ex_buf_ok)

text \<open>
  A prelogin reply whose first option has an offset inside the reply and a length that carries
  the sum of the two past 65535 passes the bounds check, because the sum is a \<open>uint16\<close>, and makes
  \<open>readPrelogin\<close> panic on the slice instead of returning an error.
\<close>

theorem prelogin_wrap_panics:
  fixes off sz :: u16
  assumes "receive r = (Inr (packReply, buf), r')" "buf = k # be_bytes 2 off @ be_bytes 2 sz @ post" "post \<noteq> []"
    "k \<noteq> preloginTERMINATOR" "k \<noteq> preloginTRACEID" "unat off < length buf" "2 ^ 16 \<le> unat off + unat sz"
  shows "readPrelogin r = (Inl (RuntimePanic ''slice bounds out of range''), r')"
proof -
  have opt: "readPreloginOption buf 0 = Inr \<lparr>po_token = k, po_offset = off, po_length = sz\<rparr>"
    using readPreloginOption_at [of buf "[]" k off sz post] assms(2-4) by simp
  have lt: "unat off < 2 ^ 16" "unat sz < 2 ^ 16"
    using unsigned_less [of off, where 'a = nat] unsigned_less [of sz, where 'a = nat] by simp_all
  then have "unat (sz + off) = unat sz + unat off - 2 ^ 16"
    using assms(7) by (simp add: unat_word_ariths mod_if)
  with lt assms(4,6,7) have "readPreloginOptionData \<lparr>po_token = k, po_offset = off, po_length = sz\<rparr> buf
      = Inl (RuntimePanic ''slice bounds out of range'')"
    by (simp add: readPreloginOptionData_def Let_def)
  with opt assms(4,5) have "read_options buf 0 Map.empty = Inl (RuntimePanic ''slice bounds out of range'')"
    by (subst read_options.simps) simp
  with assms(1,2) show ?thesis by (simp add: readPrelogin_receive)
qed

definition ex_wrap :: bytes where
  "ex_wrap = preloginVERSION # be_bytes 2 (6 :: u16) @ be_bytes 2 (0xffff :: u16) @ [preloginTERMINATOR, 9]"

definition ex_wrap_reply :: bytes where
  "ex_wrap_reply = concat (message (begun packReply False (ex_buf 24 [])) ex_wrap)"

lemma ex_wrap_receive: "\<exists>r'. receive (ex_buf 24 ex_wrap_reply) = (Inr (packReply, ex_wrap), r')"
  using receive_message [of "begun packReply False (ex_buf 24 [])" ex_wrap "ex_buf 24 ex_wrap_reply" "[]"]
    begun_ok [of "ex_buf 24 []" packReply False] begun_status [of "ex_buf 24 []" packReply False]
    ex_buf_ok [of 24]
  by (simp add: begin_status_def begun_def ex_wrap_def ex_wrap_reply_def) (simp add: ex_buf_def ex_conn_def)

theorem prelogin_wrap_panics_witness:
  "\<exists>r'. receive (ex_buf 24 ex_wrap_reply) = (Inr (packReply, ex_wrap), r')
     \<and> readPrelogin (ex_buf 24 ex_wrap_reply) = (Inl (RuntimePanic ''slice bounds out of range''), r')"
proof -
  obtain r' where r: "receive (ex_buf 24 ex_wrap_reply) = (Inr (packReply, ex_wrap), r')"
    using ex_wrap_receive by blast
  have "readPrelogin (ex_buf 24 ex_wrap_reply) = (Inl (RuntimePanic ''slice bounds out of range''), r')"
    by (rule prelogin_wrap_panics [OF r ex_wrap_def])
      (simp_all add: preloginVERSION_def preloginTERMINATOR_def preloginTRACEID_def ex_wrap_def)
  with r show ?thesis by blast
qed

end
