(* ===== verification/Conn_String.thy ===== *)
theory Conn_String
  imports Go_Strings Tds_Types
begin

text \<open>
  Connection strings, \<open>src/msdsn/conn_str.go\<close>: the three formats, the parameters they give and
  the configuration \<open>Parse\<close> builds from them. A parameter map is a map from strings to
  strings. What comes from outside the program (the host name, an environment variable, a random
  id, the time zone database, certificate files, the URL parser of \<open>net/url\<close>, the case
  mapping of runes outside ASCII) is collected in a record \<open>environ\<close>.
\<close>

section \<open>Configuration\<close>

type_synonym params = "string \<rightharpoonup> string"

datatype Encryption = EncryptionOff | EncryptionRequired | EncryptionDisabled | EncryptionStrict

datatype BrowserMsg = BrowserDefault | BrowserAllInstances | BrowserDAC

text \<open>
  A \<open>tls.Config\<close>: how the peer's certificate is checked beside Go's own verification, which
  \<open>InsecureSkipVerify\<close> turns off.
\<close>

datatype peer_check =
    NoExtraCheck
  | ExactCertificate bytes
  | CommonNameCheck bytes
  | RootPool bytes

record tls_config =
  tls_ServerName :: string
  InsecureSkipVerify :: bool
  MinVersion :: nat
  Verify :: peer_check

record url =
  u_Scheme :: string
  u_User :: "(string \<times> string option) option"
  u_Host :: string
  u_Port :: string
  u_Path :: string
  u_Query :: "(string \<times> string list) list"

record environ =
  env_lower :: "rune \<Rightarrow> rune"
  env_upper :: "rune \<Rightarrow> rune"
  env_uuid :: "bytes option"
  env_hostname :: "string option"
  env_epa :: string
  env_location :: "string \<Rightarrow> int option"
  env_readFile :: "string \<Rightarrow> err + bytes"
  env_parseDER :: "bytes \<Rightarrow> err + bytes"
  env_pem :: "bytes \<Rightarrow> bytes option"
  env_url :: "string \<Rightarrow> url option"

record Config =
  c_Port :: nat
  c_Host :: string
  c_Instance :: string
  c_Database :: string
  c_User :: string
  c_Password :: string
  c_Encryption :: Encryption
  c_TLSConfig :: "tls_config option"
  c_FailOverPartner :: string
  c_FailOverPort :: nat
  c_FailOverPartnerSPN :: string
  c_HostInCertificateProvided :: bool
  c_ReadOnlyIntent :: bool
  c_LogFlags :: nat
  c_ServerSPN :: string
  c_Workstation :: string
  c_AppName :: string
  c_DisableRetry :: bool
  c_DialTimeout :: int
  c_ConnTimeout :: int
  c_KeepAlive :: int
  c_PacketSize :: u16
  c_Parameters :: params
  c_Protocols :: "string list"
  c_BrowserMessage :: BrowserMsg
  c_ChangePassword :: string
  c_ColumnEncryption :: bool
  c_MultiSubnetFailover :: bool
  c_ActivityID :: bytes
  c_NoTraceID :: bool
  c_TrustServerCertificate :: bool
  c_Encoding :: EncodeParameters
  c_EpaEnabled :: bool

definition pget :: "params \<Rightarrow> string \<Rightarrow> string" where
  "pget ps k = (case ps k of None \<Rightarrow> [] | Some v \<Rightarrow> v)"

definition zero_Config :: Config where
  "zero_Config = \<lparr>c_Port = 0, c_Host = [], c_Instance = [], c_Database = [], c_User = [],
     c_Password = [], c_Encryption = EncryptionOff, c_TLSConfig = None, c_FailOverPartner = [],
     c_FailOverPort = 0, c_FailOverPartnerSPN = [], c_HostInCertificateProvided = False,
     c_ReadOnlyIntent = False, c_LogFlags = 0, c_ServerSPN = [], c_Workstation = [],
     c_AppName = [], c_DisableRetry = False, c_DialTimeout = 0, c_ConnTimeout = 0,
     c_KeepAlive = 0, c_PacketSize = 0, c_Parameters = Map.empty, c_Protocols = [],
     c_BrowserMessage = BrowserDefault, c_ChangePassword = [], c_ColumnEncryption = False,
     c_MultiSubnetFailover = False, c_ActivityID = [], c_NoTraceID = False,
     c_TrustServerCertificate = False,
     c_Encoding = \<lparr>Timezone = Some 0, GuidConversion = False\<rparr>, c_EpaEnabled = False\<rparr>"

section \<open>Certificates and TLS\<close>

definition filepath_Ext :: "string \<Rightarrow> string" where
  "filepath_Ext path =
     (let t = takeWhile (\<lambda>c. c \<noteq> CHR ''/'') (rev path)
      in if CHR ''.'' \<in> set t then CHR ''.'' # rev (takeWhile (\<lambda>c. c \<noteq> CHR ''.'') t) else [])"

definition readDERFile :: "environ \<Rightarrow> string \<Rightarrow> err + bytes" where
  "readDERFile env filename = sbind (env_readFile env filename) (env_parseDER env)"

definition readCertificate :: "environ \<Rightarrow> string \<Rightarrow> err + bytes" where
  "readCertificate env certificate =
     (let certType = ToLower (env_lower env) (filepath_Ext certificate)
      in if certType = ''.pem'' then env_readFile env certificate
         else if certType = ''.der'' then readDERFile env certificate
         else Inl (ErrMsg ''certificate type %s is not supported''))"

definition TLSVersionFromString :: "string \<Rightarrow> nat" where
  "TLSVersionFromString v =
     (if v = ''1.0'' then 0x0301 else if v = ''1.1'' then 0x0302
      else if v = ''1.2'' then 0x0303 else if v = ''1.3'' then 0x0304 else 0)"

definition setupTLSServerCertificateOnly :: "environ \<Rightarrow> tls_config \<Rightarrow> bytes \<Rightarrow> err + tls_config" where
  "setupTLSServerCertificateOnly env config pemData =
     (case env_pem env pemData of
        None \<Rightarrow> Inl (ErrMsg ''failed to decode PEM certificate'')
      | Some block \<Rightarrow> Inr (config\<lparr>InsecureSkipVerify := True, Verify := ExactCertificate block\<rparr>))"

definition setupTLSCommonName :: "tls_config \<Rightarrow> bytes \<Rightarrow> tls_config" where
  "setupTLSCommonName config pem = config\<lparr>InsecureSkipVerify := True, Verify := CommonNameCheck pem\<rparr>"

definition SetupTLS ::
    "environ \<Rightarrow> string \<Rightarrow> string \<Rightarrow> bool \<Rightarrow> string \<Rightarrow> string \<Rightarrow> err + tls_config" where
  "SetupTLS env certificate serverCertificate insecureSkipVerify hostInCertificate minTLSVersion =
     (let config = \<lparr>tls_ServerName = hostInCertificate, InsecureSkipVerify = insecureSkipVerify,
                    MinVersion = TLSVersionFromString minTLSVersion, Verify = NoExtraCheck\<rparr>
      in if serverCertificate \<noteq> [] then
           (case readCertificate env serverCertificate of
              Inl e \<Rightarrow> Inl (ErrMsg ''cannot read server certificate %q: %w'')
            | Inr pem \<Rightarrow> setupTLSServerCertificateOnly env config pem)
         else if certificate = [] then Inr config
         else (case readCertificate env certificate of
                 Inl e \<Rightarrow> Inl (ErrMsg ''cannot read certificate %q: %w'')
               | Inr pem \<Rightarrow>
                   if CHR '':'' \<in> set (tls_ServerName config) \<and> \<not> insecureSkipVerify
                   then Inr (setupTLSCommonName config pem)
                   else Inr (config\<lparr>Verify := RootPool pem\<rparr>)))"

definition encrypt_option :: "string \<Rightarrow> Encryption option" where
  "encrypt_option encrypt =
     (if encrypt \<in> {''mandatory'', ''yes'', ''1'', ''t'', ''true''} then Some EncryptionRequired
      else if encrypt = ''disable'' then Some EncryptionDisabled
      else if encrypt = ''strict'' then Some EncryptionStrict
      else if encrypt \<in> {''optional'', ''no'', ''0'', ''f'', ''false''} then Some EncryptionOff
      else None)"

definition parseTLS ::
    "environ \<Rightarrow> params \<Rightarrow> string \<Rightarrow> err + (Encryption \<times> tls_config option \<times> bool)" where
  "parseTLS env ps host =
     (let encrypt = (case ps ''encrypt'' of None \<Rightarrow> [] | Some e \<Rightarrow> ToLower (env_lower env) e)
      in sbind
        (case ps ''encrypt'' of
           None \<Rightarrow> Inr (EncryptionOff, True)
         | Some _ \<Rightarrow> (case encrypt_option encrypt of
                       None \<Rightarrow> Inl (ErrMsg ''invalid encrypt %s'')
                     | Some e \<Rightarrow> Inr (e, False)))
        (\<lambda>(encryption, trust0).
      sbind
        (case ps ''trustservercertificate'' of
           None \<Rightarrow> Inr trust0
         | Some t \<Rightarrow> (case ParseBool t of
                       None \<Rightarrow> Inl (ErrMsg ''invalid trust server certificate %s: %s'')
                     | Some b \<Rightarrow> Inr b))
        (\<lambda>trustServerCert.
      let certificate = pget ps ''certificate'';
          serverCertificate = pget ps ''servercertificate'';
          hostInCertificate = pget ps ''hostnameincertificate''
      in if serverCertificate \<noteq> [] \<and> certificate \<noteq> []
         then Inl (ErrMsg ''cannot specify both certificate and serverCertificate parameters'')
         else if serverCertificate \<noteq> [] \<and> hostInCertificate \<noteq> []
         then Inl (ErrMsg ''cannot specify both serverCertificate and hostnameincertificate parameters'')
         else if encryption \<noteq> EncryptionDisabled then
           (let trust = (if encrypt = ''strict'' then False else trustServerCert)
            in (case SetupTLS env certificate serverCertificate trust host (pget ps ''tlsmin'') of
                  Inl e \<Rightarrow> Inl (ErrMsg ''failed to setup TLS: %w'')
                | Inr tls \<Rightarrow> Inr (encryption, Some tls, trust)))
         else Inr (encryption, None, trustServerCert))))"

section \<open>ADO connection strings\<close>

definition adoSynonyms :: params where
  "adoSynonyms = map_of
    [(''app'', ''app name''), (''application name'', ''app name''), (''data source'', ''server''),
     (''address'', ''server''), (''network address'', ''server''), (''addr'', ''server''),
     (''user'', ''user id''), (''uid'', ''user id''), (''pwd'', ''password''),
     (''initial catalog'', ''database''), (''connect timeout'', ''connection timeout''),
     (''timeout'', ''connection timeout''), (''failover partner'', ''failoverpartner''),
     (''failover partner spn'', ''failoverpartnerspn''),
     (''application intent'', ''applicationintent''),
     (''trust server certificate'', ''trustservercertificate''),
     (''multi subnet failover'', ''multisubnetfailover''),
     (''host name in certificate'', ''hostnameincertificate''), (''server spn'', ''serverspn''),
     (''server certificate'', ''servercertificate''), (''wsid'', ''workstation id''),
     (''column encryption setting'', ''columnencryption'')]"

definition WriteRune :: "string \<Rightarrow> rune \<Rightarrow> string" where
  "WriteRune s c = s @ string_of_runes [c]"

definition quote :: rune where "quote = 0x22"
definition semicolon :: rune where "semicolon = 0x3B"
definition equals :: rune where "equals = 0x3D"
definition open_brace :: rune where "open_brace = 0x7B"
definition close_brace :: rune where "close_brace = 0x7D"

fun ado_parts :: "rune list \<Rightarrow> bool \<Rightarrow> string \<Rightarrow> string list" where
  "ado_parts [] inQuotes current = (if current = [] then [] else [current])"
| "ado_parts [c] inQuotes current =
     (if c = quote then ado_parts [] (\<not> inQuotes) (WriteRune current c)
      else if c = semicolon \<and> \<not> inQuotes then current # ado_parts [] inQuotes []
      else ado_parts [] inQuotes (WriteRune current c))"
| "ado_parts (c # d # rs) inQuotes current =
     (if c = quote then
        (if inQuotes \<and> d = quote
         then ado_parts rs inQuotes (WriteRune (WriteRune current c) d)
         else ado_parts (d # rs) (\<not> inQuotes) (WriteRune current c))
      else if c = semicolon \<and> \<not> inQuotes then current # ado_parts (d # rs) inQuotes []
      else ado_parts (d # rs) inQuotes (WriteRune current c))"

definition splitAdoConnectionStringParts :: "string \<Rightarrow> string list" where
  "splitAdoConnectionStringParts dsn = ado_parts (runes dsn) False []"

definition unquote :: "string \<Rightarrow> string" where
  "unquote v =
     (if 2 \<le> length v \<and> HasPrefix v [CHR 0x22] \<and> HasSuffix v [CHR 0x22]
      then halve (CHR 0x22) (take (length v - 2) (drop 1 v)) else v)"

text \<open>The protocol prefixes and the port of a \<open>server\<close> value.\<close>

fun strip_protocols :: "string list \<Rightarrow> string \<Rightarrow> params \<Rightarrow> string \<times> params" where
  "strip_protocols [] v res = (v, res)"
| "strip_protocols (prot # ps) v res =
     strip_protocols ps (TrimPrefix v (prot @ '':''))
       (if HasPrefix v (prot @ '':'') then res(''protocol'' \<mapsto> prot) else res)"

definition ado_server :: "string list \<Rightarrow> string \<Rightarrow> params \<Rightarrow> string \<times> params" where
  "ado_server protocols v0 res0 =
     (case strip_protocols protocols v0 res0 of (v, res) \<Rightarrow>
        (case Split (CHR '','') v of
           [h, p] \<Rightarrow> if p \<noteq> [] then (h, res(''port'' \<mapsto> p)) else (v, res)
         | _ \<Rightarrow> (v, res)))"

definition ado_part :: "environ \<Rightarrow> string list \<Rightarrow> string \<Rightarrow> params \<Rightarrow> params" where
  "ado_part env protocols part res =
     (if part = [] then res
      else (case SplitN2 (CHR ''='') part of (l0, l1) \<Rightarrow>
        (let name0 = TrimSpace (ToLower (env_lower env) l0) in
         if name0 = [] then res
         else
           let v = (case l1 of None \<Rightarrow> [] | Some x \<Rightarrow> unquote (TrimSpace x));
               name = (case adoSynonyms name0 of None \<Rightarrow> name0 | Some syn \<Rightarrow> syn)
           in if name = ''server''
              then (case ado_server protocols v res of (v', res') \<Rightarrow> res'(name \<mapsto> v'))
              else res(name \<mapsto> v))))"

definition splitConnectionString :: "environ \<Rightarrow> string list \<Rightarrow> string \<Rightarrow> params" where
  "splitConnectionString env protocols dsn =
     fold (ado_part env protocols) (splitAdoConnectionStringParts dsn) Map.empty"

section \<open>ODBC connection strings\<close>

datatype parserState =
    parserStateBeforeKey | parserStateKey | parserStateBeginValue | parserStateBareValue
  | parserStateBracedValue | parserStateBracedValueClosingBrace | parserStateEndValue

record odbc =
  o_state :: parserState
  o_key :: string
  o_value :: string
  o_res :: params

definition normalizeOdbcKey :: "environ \<Rightarrow> string \<Rightarrow> string" where
  "normalizeOdbcKey env s = ToLower (env_lower env) (TrimRightSpace s)"

text \<open>\<open>res[key] = v\<close>, with the key and value cleared.\<close>

definition odbc_store :: "string \<Rightarrow> parserState \<Rightarrow> odbc \<Rightarrow> odbc" where
  "odbc_store v st s = s\<lparr>o_res := (o_res s)(o_key s \<mapsto> v), o_key := [], o_value := [], o_state := st\<rparr>"

definition after_value :: "rune \<Rightarrow> odbc \<Rightarrow> err + odbc" where
  "after_value c s =
     (if c = semicolon then Inr (s\<lparr>o_state := parserStateBeforeKey\<rparr>)
      else if IsSpace c then Inr s
      else Inl (ErrMsg ''unexpected character %c at index %d. Expected semi-colon or whitespace''))"

definition odbc_step :: "environ \<Rightarrow> rune \<Rightarrow> odbc \<Rightarrow> err + odbc" where
  "odbc_step env c s =
     (case o_state s of
        parserStateBeforeKey \<Rightarrow>
          if c = equals
          then Inl (ErrMsg ''unexpected character = at index %d. Expected start of key or semi-colon or whitespace'')
          else if \<not> IsSpace c \<and> c \<noteq> semicolon
          then Inr (s\<lparr>o_state := parserStateKey, o_key := WriteRune (o_key s) c\<rparr>)
          else Inr s
      | parserStateKey \<Rightarrow>
          if c = equals
          then Inr (s\<lparr>o_key := normalizeOdbcKey env (o_key s), o_state := parserStateBeginValue\<rparr>)
          else if c = semicolon
          then Inr (odbc_store (o_value s) parserStateBeforeKey
                     (s\<lparr>o_key := normalizeOdbcKey env (o_key s)\<rparr>))
          else Inr (s\<lparr>o_key := WriteRune (o_key s) c\<rparr>)
      | parserStateBeginValue \<Rightarrow>
          if c = open_brace then Inr (s\<lparr>o_state := parserStateBracedValue\<rparr>)
          else if c = semicolon
          then Inr (s\<lparr>o_res := (o_res s)(o_key s \<mapsto> o_value s), o_key := [],
                      o_state := parserStateBeforeKey\<rparr>)
          else if IsSpace c then Inr s
          else Inr (s\<lparr>o_state := parserStateBareValue, o_value := WriteRune (o_value s) c\<rparr>)
      | parserStateBareValue \<Rightarrow>
          if c = semicolon
          then Inr (odbc_store (TrimRightSpace (o_value s)) parserStateBeforeKey s)
          else Inr (s\<lparr>o_value := WriteRune (o_value s) c\<rparr>)
      | parserStateBracedValue \<Rightarrow>
          if c = close_brace then Inr (s\<lparr>o_state := parserStateBracedValueClosingBrace\<rparr>)
          else Inr (s\<lparr>o_value := WriteRune (o_value s) c\<rparr>)
      | parserStateBracedValueClosingBrace \<Rightarrow>
          if c = close_brace
          then Inr (s\<lparr>o_value := WriteRune (o_value s) c, o_state := parserStateBracedValue\<rparr>)
          else after_value c (odbc_store (o_value s) parserStateEndValue s)
      | parserStateEndValue \<Rightarrow> after_value c s)"

fun odbc_run :: "environ \<Rightarrow> rune list \<Rightarrow> odbc \<Rightarrow> err + odbc" where
  "odbc_run env [] s = Inr s"
| "odbc_run env (c # cs) s = sbind (odbc_step env c s) (odbc_run env cs)"

definition odbc_end :: "environ \<Rightarrow> odbc \<Rightarrow> err + params" where
  "odbc_end env s =
     (case o_state s of
        parserStateBeforeKey \<Rightarrow> Inr (o_res s)
      | parserStateKey \<Rightarrow> Inr ((o_res s)(normalizeOdbcKey env (o_key s) \<mapsto> o_value s))
      | parserStateBeginValue \<Rightarrow> Inr ((o_res s)(o_key s \<mapsto> o_value s))
      | parserStateBareValue \<Rightarrow> Inr ((o_res s)(o_key s \<mapsto> TrimRightSpace (o_value s)))
      | parserStateBracedValue \<Rightarrow> Inl (ErrMsg ''unexpected end of braced value at index %d'')
      | parserStateBracedValueClosingBrace \<Rightarrow> Inr ((o_res s)(o_key s \<mapsto> o_value s))
      | parserStateEndValue \<Rightarrow> Inr (o_res s))"

definition odbc_start :: odbc where
  "odbc_start = \<lparr>o_state = parserStateBeforeKey, o_key = [], o_value = [], o_res = Map.empty\<rparr>"

definition splitConnectionStringOdbc :: "environ \<Rightarrow> string \<Rightarrow> err + params" where
  "splitConnectionStringOdbc env dsn = sbind (odbc_run env (runes dsn) odbc_start) (odbc_end env)"

section \<open>URLs\<close>

fun url_query :: "environ \<Rightarrow> (string \<times> string list) list \<Rightarrow> params \<Rightarrow> err + params" where
  "url_query env [] res = Inr res"
| "url_query env ((k, v) # q) res =
     (if 1 < length v then Inl (ErrMsg ''key %s provided more than once'')
      else if res (ToLower (env_lower env) k) \<noteq> None
      then Inl (ErrMsg ''key %q provided more than once (connection string keys are case-insensitive; remove the duplicate)'')
      else url_query env q (res(ToLower (env_lower env) k \<mapsto> hd v)))"

definition splitConnectionStringURL :: "environ \<Rightarrow> string \<Rightarrow> err + params" where
  "splitConnectionStringURL env dsn =
     (case env_url env dsn of
        None \<Rightarrow> Inl (ErrMsg ''unable to parse connection string: invalid URL format'')
      | Some u \<Rightarrow>
          if u_Scheme u \<noteq> ''sqlserver'' then Inl (ErrMsg ''scheme %s is not recognized'')
          else
            let r0 = (case u_User u of
                        None \<Rightarrow> Map.empty
                      | Some (n, pw) \<Rightarrow>
                          (case pw of None \<Rightarrow> [''user id'' \<mapsto> n]
                                    | Some p \<Rightarrow> [''user id'' \<mapsto> n, ''password'' \<mapsto> p]));
                r1 = r0(''server'' \<mapsto> (if u_Path u \<noteq> [] then u_Host u @ [CHR 0x5C] @ drop 1 (u_Path u)
                                      else u_Host u));
                r2 = (if u_Port u \<noteq> [] then r1(''port'' \<mapsto> u_Port u) else r1)
            in url_query env (u_Query u) r2)"

datatype dsn_type = DsnTypeURL | DsnTypeOdbc | DsnTypeAdo

definition getDsnType :: "string \<Rightarrow> dsn_type" where
  "getDsnType dsn =
     (if HasPrefix dsn ''sqlserver://'' then DsnTypeURL
      else if HasPrefix dsn ''odbc:'' then DsnTypeOdbc else DsnTypeAdo)"

definition getDsnParams :: "environ \<Rightarrow> string list \<Rightarrow> string \<Rightarrow> err + params" where
  "getDsnParams env protocols dsn =
     (case getDsnType dsn of
        DsnTypeOdbc \<Rightarrow> splitConnectionStringOdbc env (drop (length ''odbc:'') dsn)
      | DsnTypeURL \<Rightarrow> splitConnectionStringURL env dsn
      | DsnTypeAdo \<Rightarrow> Inr (splitConnectionString env protocols dsn))"

section \<open>Protocols\<close>

text \<open>
  A protocol parser; \<open>ParseServer\<close> updates the configuration also when it returns an error. The
  list of parsers is a variable of the package that other packages append to, so it is an argument.
\<close>

record protocolParser =
  pp_Protocol :: string
  pp_Hidden :: bool
  pp_ParseServer :: "string \<Rightarrow> Config \<Rightarrow> err option \<times> Config"

definition tcp_ParseServer :: "environ \<Rightarrow> string \<Rightarrow> string \<Rightarrow> Config \<Rightarrow> err option \<times> Config" where
  "tcp_ParseServer env pre server p =
     (case SplitN2 (CHR 0x5C) server of (host, inst) \<Rightarrow>
        let host' = (if host = ''.'' \<or> ToUpper (env_upper env) host = ''(LOCAL)'' \<or> host = []
                     then ''localhost'' else host);
            p1 = p\<lparr>c_Host := host', c_Instance := (case inst of None \<Rightarrow> c_Instance p | Some i \<Rightarrow> i)\<rparr>
        in (None,
            if pre = ''admin''
            then p1\<lparr>c_Port := (if c_Instance p1 = [] then 1434 else c_Port p1),
                    c_BrowserMessage := BrowserDAC\<rparr>
            else p1\<lparr>c_BrowserMessage := BrowserAllInstances\<rparr>))"

definition tcpParser :: "environ \<Rightarrow> string \<Rightarrow> protocolParser" where
  "tcpParser env pre =
     \<lparr>pp_Protocol = pre, pp_Hidden = (pre = ''admin''), pp_ParseServer = tcp_ParseServer env pre\<rparr>"

definition ProtocolParsers :: "environ \<Rightarrow> protocolParser list" where
  "ProtocolParsers env = [tcpParser env ''tcp'', tcpParser env ''admin'']"

fun parse_protocols ::
    "string option \<Rightarrow> string \<Rightarrow> protocolParser list \<Rightarrow> Config \<Rightarrow> err + Config" where
  "parse_protocols protocol server [] p = Inr p"
| "parse_protocols protocol server (q # qs) p =
     (if (protocol = None \<and> \<not> pp_Hidden q) \<or> protocol = Some (pp_Protocol q)
         \<or> (protocol = None \<and> pp_Protocol q = [])
      then (case pp_ParseServer q server p of
              (Some e, p') \<Rightarrow> if protocol \<noteq> None then Inl e else parse_protocols protocol server qs p'
            | (None, p') \<Rightarrow> parse_protocols protocol server qs
                              (p'\<lparr>c_Protocols := c_Protocols p' @ [pp_Protocol q]\<rparr>))
      else parse_protocols protocol server qs p)"

section \<open>Parse\<close>

definition opt_param ::
    "params \<Rightarrow> string \<Rightarrow> (string \<Rightarrow> Config \<Rightarrow> err + Config) \<Rightarrow> Config \<Rightarrow> err + Config" where
  "opt_param ps k f p = (case ps k of None \<Rightarrow> Inr p | Some v \<Rightarrow> f v p)"

definition or_err :: "'a option \<Rightarrow> string \<Rightarrow> err + 'a" where
  "or_err r msg = (case r of None \<Rightarrow> Inl (ErrMsg msg) | Some x \<Rightarrow> Inr x)"

text \<open>\<open>time.Duration(n) * time.Second\<close>: the product is an \<open>int64\<close> and wraps.\<close>

definition seconds :: "nat \<Rightarrow> int" where
  "seconds n = sint (word_of_nat n * 1000000000 :: u64)"

definition clamp_packet_size :: "u16 \<Rightarrow> u16" where
  "clamp_packet_size n = (if n < 512 then 512 else if 32767 < n then 32767 else n)"

definition parse_enabled :: "string \<Rightarrow> bool option" where
  "parse_enabled v =
     (case ParseBool v of
        Some b \<Rightarrow> Some b
      | None \<Rightarrow> if EqualFold v ''Enabled'' then Some True
                else if EqualFold v ''Disabled'' then Some False else None)"

definition parse_basic :: "environ \<Rightarrow> params \<Rightarrow> Config \<Rightarrow> err + Config" where
  "parse_basic env ps p0 =
     sbind (opt_param ps ''log'' (\<lambda>v p. sbind (or_err (ParseUint v 10 64) ''invalid log parameter %s: %s'')
       (\<lambda>n. Inr (p\<lparr>c_LogFlags := n\<rparr>))) p0) (\<lambda>p.
     sbind (opt_param ps ''timezone'' (\<lambda>v p. sbind (or_err (env_location env v) ''invalid timezone %s: %s'')
       (\<lambda>z. Inr (p\<lparr>c_Encoding := (c_Encoding p)\<lparr>Timezone := Some z\<rparr>\<rparr>))) p) (\<lambda>p.
     sbind (opt_param ps ''port'' (\<lambda>v p. sbind (or_err (ParseUint v 10 16) ''invalid tcp port %v: %v'')
       (\<lambda>n. Inr (p\<lparr>c_Port := n\<rparr>)))
       (p\<lparr>c_Database := pget ps ''database'', c_User := pget ps ''user id'',
          c_Password := pget ps ''password'', c_ChangePassword := pget ps ''change password'',
          c_Port := 0\<rparr>)) (\<lambda>p.
     sbind (opt_param ps ''packet size'' (\<lambda>v p. sbind (or_err (ParseUint v 0 16) ''invalid packet size %v: %v'')
       (\<lambda>n. Inr (p\<lparr>c_PacketSize := clamp_packet_size (word_of_nat n)\<rparr>))) p) (\<lambda>p.
     sbind (opt_param ps ''connection timeout'' (\<lambda>v p. sbind (or_err (ParseUint v 10 64)
         ''invalid connection timeout %v: %v'') (\<lambda>n. Inr (p\<lparr>c_ConnTimeout := seconds n\<rparr>))) p) (\<lambda>p.
     opt_param ps ''keepalive'' (\<lambda>v p. sbind (or_err (ParseUint v 10 64)
         ''invalid keepAlive value %s: %s'') (\<lambda>n. Inr (p\<lparr>c_KeepAlive := seconds n\<rparr>)))
       (p\<lparr>c_KeepAlive := seconds 30\<rparr>))))))"

definition parse_identity :: "environ \<Rightarrow> params \<Rightarrow> Config \<Rightarrow> err + Config" where
  "parse_identity env ps p =
     (let p1 = p\<lparr>c_ServerSPN := (case ps ''serverspn'' of None \<Rightarrow> c_ServerSPN p | Some v \<Rightarrow> v),
                 c_Workstation := (case ps ''workstation id'' of
                    Some v \<Rightarrow> v
                  | None \<Rightarrow> (case env_hostname env of None \<Rightarrow> c_Workstation p | Some h \<Rightarrow> h)),
                 c_AppName := (case ps ''app name'' of None \<Rightarrow> ''go-mssqldb'' | Some v \<Rightarrow> v)\<rparr>
      in if ps ''applicationintent'' = Some ''ReadOnly'' then
           (if c_Database p1 = []
            then Inl (ErrMsg ''database must be specified when ApplicationIntent is ReadOnly'')
            else Inr (p1\<lparr>c_ReadOnlyIntent := True\<rparr>))
         else Inr p1)"

definition parse_failover :: "params \<Rightarrow> Config \<Rightarrow> err + Config" where
  "parse_failover ps p0 =
     sbind (opt_param ps ''failoverport'' (\<lambda>v p. sbind (or_err (ParseUint v 0 16) ''invalid failover port %v: %v'')
       (\<lambda>n. Inr (p\<lparr>c_FailOverPort := n\<rparr>)))
       (p0\<lparr>c_FailOverPartner := (case ps ''failoverpartner'' of None \<Rightarrow> c_FailOverPartner p0 | Some v \<Rightarrow> v)\<rparr>)) (\<lambda>p.
     opt_param ps ''disableretry'' (\<lambda>v p. sbind (or_err (ParseBool v) ''invalid disableRetry %s: %s'')
       (\<lambda>b. Inr (p\<lparr>c_DisableRetry := b\<rparr>)))
       (p\<lparr>c_FailOverPartnerSPN := (case ps ''failoverpartnerspn'' of None \<Rightarrow> c_FailOverPartnerSPN p | Some v \<Rightarrow> v),
          c_DisableRetry := False\<rparr>))"

definition parse_server :: "protocolParser list \<Rightarrow> params \<Rightarrow> Config \<Rightarrow> err + Config" where
  "parse_server parsers ps p0 =
     sbind (parse_protocols (ps ''protocol'') (pget ps ''server'') parsers p0) (\<lambda>p.
       if ps ''protocol'' \<noteq> None \<and> c_Protocols p = []
       then Inl (ErrMsg ''No protocol handler is available for protocol: %s'')
       else opt_param ps ''dial timeout'' (\<lambda>v p. sbind (or_err (ParseUint v 10 64) ''invalid dial timeout %v: %v'')
              (\<lambda>n. Inr (p\<lparr>c_DialTimeout := seconds n\<rparr>)))
              (p\<lparr>c_DialTimeout := seconds (15 * max 1 (length (c_Protocols p)))\<rparr>))"

definition parse_security :: "environ \<Rightarrow> params \<Rightarrow> Config \<Rightarrow> err + Config" where
  "parse_security env ps p =
     (let hostInCertificate = (case ps ''hostnameincertificate'' of None \<Rightarrow> c_Host p | Some h \<Rightarrow> h)
      in sbind (parseTLS env ps hostInCertificate) (\<lambda>(enc, tls, trust).
           Inr (p\<lparr>c_HostInCertificateProvided := (ps ''hostnameincertificate'' \<noteq> None),
                  c_Encryption := enc, c_TLSConfig := tls, c_TrustServerCertificate := trust\<rparr>)))"

definition parse_rest :: "environ \<Rightarrow> params \<Rightarrow> Config \<Rightarrow> err + Config" where
  "parse_rest env ps p0 =
     sbind (opt_param ps ''columnencryption'' (\<lambda>v p. sbind (or_err (parse_enabled v) ''invalid columnencryption %v : %v'')
       (\<lambda>b. Inr (p\<lparr>c_ColumnEncryption := b\<rparr>))) p0) (\<lambda>p.
     sbind (opt_param ps ''multisubnetfailover'' (\<lambda>v p. sbind (or_err (parse_enabled v)
         ''invalid multiSubnetFailover value %v: %v'') (\<lambda>b. Inr (p\<lparr>c_MultiSubnetFailover := b\<rparr>)))
       (p\<lparr>c_MultiSubnetFailover := True\<rparr>)) (\<lambda>p.
     sbind (opt_param ps ''guid conversion'' (\<lambda>v p. sbind (or_err (ParseBool v) ''invalid guid conversion %s: %s'')
       (\<lambda>b. Inr (p\<lparr>c_Encoding := (c_Encoding p)\<lparr>GuidConversion := b\<rparr>\<rparr>)))
       (p\<lparr>c_NoTraceID := (case ps ''notraceid'' of
             Some v \<Rightarrow> (case ParseBool v of None \<Rightarrow> c_NoTraceID p | Some b \<Rightarrow> b)
           | None \<Rightarrow> c_NoTraceID p),
          c_Encoding := (c_Encoding p)\<lparr>GuidConversion := False\<rparr>\<rparr>)) (\<lambda>p.
     let epaString = (case ps ''epa enabled'' of None \<Rightarrow> env_epa env | Some v \<Rightarrow> v)
     in if epaString = [] then Inr (p\<lparr>c_EpaEnabled := False\<rparr>)
        else sbind (or_err (ParseBool epaString) ''invalid epa enabled value %s: %v'')
               (\<lambda>b. Inr (p\<lparr>c_EpaEnabled := b\<rparr>)))))"

definition Parse :: "environ \<Rightarrow> protocolParser list \<Rightarrow> string \<Rightarrow> err + Config" where
  "Parse env parsers dsn =
     (let p0 = zero_Config\<lparr>c_ActivityID := (case env_uuid env of None \<Rightarrow> [] | Some u \<Rightarrow> u)\<rparr>
      in sbind (getDsnParams env (map pp_Protocol parsers) dsn) (\<lambda>ps.
         sbind (parse_basic env ps (p0\<lparr>c_Parameters := ps\<rparr>)) (\<lambda>p.
         sbind (parse_identity env ps p) (\<lambda>p.
         sbind (parse_failover ps p) (\<lambda>p.
         sbind (parse_server parsers ps p) (\<lambda>p.
         sbind (parse_security env ps p) (\<lambda>p.
         parse_rest env ps p)))))))"

section \<open>What Parse guarantees\<close>

definition checked :: "tls_config \<Rightarrow> bool" where
  "checked c \<longleftrightarrow> \<not> InsecureSkipVerify c
     \<or> (case Verify c of ExactCertificate _ \<Rightarrow> True | CommonNameCheck _ \<Rightarrow> True | _ \<Rightarrow> False)"

definition tls_ok :: "Config \<Rightarrow> bool" where
  "tls_ok p \<longleftrightarrow>
     (case c_TLSConfig p of
        None \<Rightarrow> c_Encryption p = EncryptionDisabled
      | Some c \<Rightarrow> c_Encryption p \<noteq> EncryptionDisabled \<and> (\<not> c_TrustServerCertificate p \<longrightarrow> checked c)
                  \<and> (c_Encryption p = EncryptionStrict \<longrightarrow> \<not> c_TrustServerCertificate p))"

definition sizes_ok :: "Config \<Rightarrow> bool" where
  "sizes_ok p \<longleftrightarrow> (c_PacketSize p = 0 \<or> 512 \<le> unat (c_PacketSize p) \<and> unat (c_PacketSize p) \<le> 32767)
     \<and> c_Port p < 2 ^ 16 \<and> c_FailOverPort p < 2 ^ 16
     \<and> (c_ReadOnlyIntent p \<longrightarrow> c_Database p \<noteq> [])"

lemma or_err_Inr [simp]: "or_err r m = Inr x \<longleftrightarrow> r = Some x"
  by (auto simp: or_err_def split: option.splits)

lemma opt_param_cases:
  assumes "opt_param ps k f p = Inr q"
  obtains (absent) "q = p" | (present) v where "ps k = Some v" "f v p = Inr q"
  using assms by (auto simp: opt_param_def split: option.splits)

lemma clamp_bounds: "512 \<le> unat (clamp_packet_size n)" "unat (clamp_packet_size n) \<le> 32767"
  by (auto simp: clamp_packet_size_def word_less_nat_alt)

text \<open>Fields the guarantees do not mention.\<close>

lemma sizes_ok_frame [simp]:
  "sizes_ok (p\<lparr>c_LogFlags := x0\<rparr>) = sizes_ok p"
  "sizes_ok (p\<lparr>c_Encoding := x1\<rparr>) = sizes_ok p"
  "sizes_ok (p\<lparr>c_User := x2\<rparr>) = sizes_ok p"
  "sizes_ok (p\<lparr>c_Password := x3\<rparr>) = sizes_ok p"
  "sizes_ok (p\<lparr>c_ChangePassword := x4\<rparr>) = sizes_ok p"
  "sizes_ok (p\<lparr>c_ConnTimeout := x5\<rparr>) = sizes_ok p"
  "sizes_ok (p\<lparr>c_KeepAlive := x6\<rparr>) = sizes_ok p"
  "sizes_ok (p\<lparr>c_ServerSPN := x7\<rparr>) = sizes_ok p"
  "sizes_ok (p\<lparr>c_Workstation := x8\<rparr>) = sizes_ok p"
  "sizes_ok (p\<lparr>c_AppName := x9\<rparr>) = sizes_ok p"
  "sizes_ok (p\<lparr>c_FailOverPartner := x10\<rparr>) = sizes_ok p"
  "sizes_ok (p\<lparr>c_FailOverPartnerSPN := x11\<rparr>) = sizes_ok p"
  "sizes_ok (p\<lparr>c_DisableRetry := x12\<rparr>) = sizes_ok p"
  "sizes_ok (p\<lparr>c_Protocols := x13\<rparr>) = sizes_ok p"
  "sizes_ok (p\<lparr>c_DialTimeout := x14\<rparr>) = sizes_ok p"
  "sizes_ok (p\<lparr>c_HostInCertificateProvided := x15\<rparr>) = sizes_ok p"
  "sizes_ok (p\<lparr>c_Encryption := x16\<rparr>) = sizes_ok p"
  "sizes_ok (p\<lparr>c_TLSConfig := x17\<rparr>) = sizes_ok p"
  "sizes_ok (p\<lparr>c_TrustServerCertificate := x18\<rparr>) = sizes_ok p"
  "sizes_ok (p\<lparr>c_ColumnEncryption := x19\<rparr>) = sizes_ok p"
  "sizes_ok (p\<lparr>c_MultiSubnetFailover := x20\<rparr>) = sizes_ok p"
  "sizes_ok (p\<lparr>c_NoTraceID := x21\<rparr>) = sizes_ok p"
  "sizes_ok (p\<lparr>c_EpaEnabled := x22\<rparr>) = sizes_ok p"
  "sizes_ok (p\<lparr>c_BrowserMessage := x23\<rparr>) = sizes_ok p"
  "sizes_ok (p\<lparr>c_Host := x24\<rparr>) = sizes_ok p"
  "sizes_ok (p\<lparr>c_Instance := x25\<rparr>) = sizes_ok p"
  "sizes_ok (p\<lparr>c_Parameters := x26\<rparr>) = sizes_ok p"
  "sizes_ok (p\<lparr>c_ActivityID := x27\<rparr>) = sizes_ok p"
  by (simp_all add: sizes_ok_def)

lemma tls_ok_frame [simp]:
  "tls_ok (p\<lparr>c_ColumnEncryption := x0\<rparr>) = tls_ok p"
  "tls_ok (p\<lparr>c_MultiSubnetFailover := x1\<rparr>) = tls_ok p"
  "tls_ok (p\<lparr>c_Encoding := x2\<rparr>) = tls_ok p"
  "tls_ok (p\<lparr>c_NoTraceID := x3\<rparr>) = tls_ok p"
  "tls_ok (p\<lparr>c_EpaEnabled := x4\<rparr>) = tls_ok p"
  by (simp_all add: tls_ok_def split: option.split)

lemma sizes_ok_update [simp]:
  "n < 2 ^ 16 \<Longrightarrow> sizes_ok p \<Longrightarrow> sizes_ok (p\<lparr>c_Port := n\<rparr>)"
  "n < 2 ^ 16 \<Longrightarrow> sizes_ok p \<Longrightarrow> sizes_ok (p\<lparr>c_FailOverPort := n\<rparr>)"
  "sizes_ok p \<Longrightarrow> sizes_ok (p\<lparr>c_PacketSize := clamp_packet_size w\<rparr>)"
  "sizes_ok p \<Longrightarrow> c_Database p \<noteq> [] \<Longrightarrow> sizes_ok (p\<lparr>c_ReadOnlyIntent := True\<rparr>)"
  "sizes_ok p \<Longrightarrow> \<not> c_ReadOnlyIntent p \<Longrightarrow> sizes_ok (p\<lparr>c_Database := d\<rparr>)"
  by (simp_all add: sizes_ok_def clamp_bounds)

lemma parse_basic_ok:
  assumes "parse_basic env ps p = Inr q" "sizes_ok p" "\<not> c_ReadOnlyIntent p"
  shows "sizes_ok q \<and> \<not> c_ReadOnlyIntent q"
  using assms
  by (auto simp: parse_basic_def sbind_Inr_iff elim!: opt_param_cases dest!: ParseUint_bound)

lemma parse_identity_ok: "parse_identity env ps p = Inr q \<Longrightarrow> sizes_ok p \<Longrightarrow> sizes_ok q"
  by (auto simp: parse_identity_def Let_def split: if_splits)

lemma parse_failover_ok: "parse_failover ps p = Inr q \<Longrightarrow> sizes_ok p \<Longrightarrow> sizes_ok q"
  by (auto simp: parse_failover_def sbind_Inr_iff elim!: opt_param_cases dest!: ParseUint_bound)

lemma tcp_ParseServer_ok: "sizes_ok p \<Longrightarrow> sizes_ok (snd (tcp_ParseServer env pre server p))"
  by (auto simp: tcp_ParseServer_def Let_def split: prod.splits)

lemma parse_protocols_ok:
  assumes "\<And>q s p. q \<in> set qs \<Longrightarrow> sizes_ok p \<Longrightarrow> sizes_ok (snd (pp_ParseServer q s p))"
  shows "parse_protocols protocol server qs p = Inr p' \<Longrightarrow> sizes_ok p \<Longrightarrow> sizes_ok p'"
  using assms
proof (induction protocol server qs p rule: parse_protocols.induct)
  case (2 protocol server q qs p)
  obtain e p1 where ps: "pp_ParseServer q server p = (e, p1)" by fastforce
  have "sizes_ok p1" using "2.prems"(2) "2.prems"(3) [of q p server] ps by simp
  then show ?case using 2 ps by (auto split: if_splits option.splits)
qed simp

lemma parse_server_ok:
  assumes "parse_server (ProtocolParsers env) ps p = Inr q" "sizes_ok p"
  shows "sizes_ok q"
proof -
  obtain p1 where p1: "parse_protocols (ps ''protocol'') (pget ps ''server'') (ProtocolParsers env) p = Inr p1"
    using assms(1) by (auto simp: parse_server_def sbind_Inr_iff)
  have "sizes_ok p1"
    by (rule parse_protocols_ok [OF _ p1 assms(2)])
      (auto simp: ProtocolParsers_def tcpParser_def tcp_ParseServer_ok)
  with assms(1) p1 show ?thesis
    by (auto simp: parse_server_def sbind_Inr_iff split: if_splits elim!: opt_param_cases)
qed

lemma SetupTLS_checked: "SetupTLS env cert srv trust host v = Inr c \<Longrightarrow> \<not> trust \<Longrightarrow> checked c"
  by (auto simp: SetupTLS_def Let_def checked_def setupTLSServerCertificateOnly_def setupTLSCommonName_def
      split: if_splits sum.splits option.splits)

lemma encrypt_option_strict: "encrypt_option e = Some EncryptionStrict \<Longrightarrow> e = ''strict''"
  by (auto simp: encrypt_option_def split: if_splits)

lemma parseTLS_ok:
  assumes "parseTLS env ps host = Inr (enc, tls, trust)"
  shows "case tls of None \<Rightarrow> enc = EncryptionDisabled
    | Some c \<Rightarrow> enc \<noteq> EncryptionDisabled \<and> (\<not> trust \<longrightarrow> checked c) \<and> (enc = EncryptionStrict \<longrightarrow> \<not> trust)"
  using assms
  by (auto simp: parseTLS_def Let_def sbind_Inr_iff SetupTLS_checked dest!: encrypt_option_strict
      split: if_splits option.splits sum.splits)

lemma parse_security_ok:
  "parse_security env ps p = Inr q \<Longrightarrow> sizes_ok p \<Longrightarrow> sizes_ok q \<and> tls_ok q"
  by (auto simp: parse_security_def Let_def sbind_Inr_iff tls_ok_def dest!: parseTLS_ok split: option.splits)

lemma opt_param_keeps:
  assumes "opt_param ps k f p = Inr q" "I p" "\<And>v. f v p = Inr q \<Longrightarrow> I q"
  shows "I q"
  using assms by (auto elim: opt_param_cases)

lemma parse_rest_ok:
  assumes "parse_rest env ps p = Inr q" "sizes_ok p" "tls_ok p"
  shows "sizes_ok q \<and> tls_ok q"
proof -
  let ?I = "\<lambda>p. sizes_ok p \<and> tls_ok p"
  note [simp] = sbind_Inr_iff
  from assms(1) obtain p1 where 1: "opt_param ps ''columnencryption'' (\<lambda>v p. sbind (or_err (parse_enabled v)
      ''invalid columnencryption %v : %v'') (\<lambda>b. Inr (p\<lparr>c_ColumnEncryption := b\<rparr>))) p = Inr p1"
    unfolding parse_rest_def sbind_Inr_iff by blast
  have I1: "?I p1" by (rule opt_param_keeps [OF 1]) (use assms in auto)
  from assms(1) 1 obtain p2 where 2: "opt_param ps ''multisubnetfailover'' (\<lambda>v p. sbind (or_err (parse_enabled v)
      ''invalid multiSubnetFailover value %v: %v'') (\<lambda>b. Inr (p\<lparr>c_MultiSubnetFailover := b\<rparr>)))
      (p1\<lparr>c_MultiSubnetFailover := True\<rparr>) = Inr p2"
    unfolding parse_rest_def by (simp only: sbind_simps) (auto simp only: sbind_Inr_iff)
  have I2: "?I p2" by (rule opt_param_keeps [OF 2]) (use I1 in auto)
  let ?p = "p2\<lparr>c_NoTraceID := (case ps ''notraceid'' of
             Some v \<Rightarrow> (case ParseBool v of None \<Rightarrow> c_NoTraceID p2 | Some b \<Rightarrow> b)
           | None \<Rightarrow> c_NoTraceID p2), c_Encoding := (c_Encoding p2)\<lparr>GuidConversion := False\<rparr>\<rparr>"
  from assms(1) 1 2 obtain p3 where 3: "opt_param ps ''guid conversion'' (\<lambda>v p. sbind (or_err (ParseBool v)
      ''invalid guid conversion %s: %s'') (\<lambda>b. Inr (p\<lparr>c_Encoding := (c_Encoding p)\<lparr>GuidConversion := b\<rparr>\<rparr>))) ?p = Inr p3"
    unfolding parse_rest_def by (simp only: sbind_simps) (auto simp only: sbind_Inr_iff)
  have I3: "?I p3" by (rule opt_param_keeps [OF 3]) (use I2 in auto)
  from assms(1) 1 2 3 have "\<exists>b. q = p3\<lparr>c_EpaEnabled := b\<rparr>"
    unfolding parse_rest_def by (simp only: sbind_simps) (auto simp: Let_def split: if_splits)
  with I3 show ?thesis by auto
qed

text \<open>
  C25. Whatever connection string \<open>Parse\<close> accepts, in any of the three formats, the configuration
  has a packet size of 0 (the default) or between 512 and 32767, ports below 65536, a database name
  when the intent is read-only, and a TLS configuration exactly when encryption is not disabled; the
  peer's certificate is checked, by Go's verification or by a callback, unless the server
  certificate is trusted, which strict encryption never allows.
\<close>

theorem Parse_config_ok:
  assumes "Parse env (ProtocolParsers env) dsn = Inr p"
  shows "sizes_ok p \<and> tls_ok p"
proof -
  define p0 where "p0 = zero_Config\<lparr>c_ActivityID := (case env_uuid env of None \<Rightarrow> [] | Some u \<Rightarrow> u)\<rparr>"
  obtain ps p1 p2 p3 p4 p5 where steps: "parse_basic env ps (p0\<lparr>c_Parameters := ps\<rparr>) = Inr p1"
    "parse_identity env ps p1 = Inr p2" "parse_failover ps p2 = Inr p3"
    "parse_server (ProtocolParsers env) ps p3 = Inr p4" "parse_security env ps p4 = Inr p5"
    "parse_rest env ps p5 = Inr p"
    using assms by (auto simp: Parse_def Let_def sbind_Inr_iff p0_def [symmetric])
  have "sizes_ok p0" "\<not> c_ReadOnlyIntent p0"
    by (simp_all add: p0_def) (simp_all add: zero_Config_def sizes_ok_def)
  then have "sizes_ok p4"
    using parse_basic_ok [OF steps(1)] parse_identity_ok [OF steps(2)] parse_failover_ok [OF steps(3)]
      parse_server_ok [OF steps(4)] by simp
  then show ?thesis using parse_security_ok [OF steps(5)] parse_rest_ok [OF steps(6)] by blast
qed

definition ex_env :: environ where
  "ex_env = \<lparr>env_lower = id, env_upper = id, env_uuid = None, env_hostname = None, env_epa = [],
     env_location = (\<lambda>_. None), env_readFile = (\<lambda>_. Inl EOF), env_parseDER = Inr, env_pem = Some,
     env_url = (\<lambda>_. None)\<rparr>"

section \<open>ODBC round trip\<close>

definition odbc_pair :: "string \<times> string \<Rightarrow> string" where
  "odbc_pair kv = fst kv @ ''={'' @ double (CHR ''}'') (snd kv) @ ''};''"

definition odbc_key_ok :: "environ \<Rightarrow> string \<Rightarrow> bool" where
  "odbc_key_ok env k \<longleftrightarrow> valid_utf8 k \<and> k \<noteq> [] \<and> \<not> IsSpace (hd (runes k))
     \<and> equals \<notin> set (runes k) \<and> semicolon \<notin> set (runes k) \<and> normalizeOdbcKey env k = k"

lemma odbc_run_append: "odbc_run env (xs @ ys) s = sbind (odbc_run env xs s) (odbc_run env ys)"
  by (induction xs arbitrary: s) (auto simp: sbind_def split: sum.splits)

lemma odbc_run_key:
  "o_state s = parserStateKey \<Longrightarrow> equals \<notin> set rs \<Longrightarrow> semicolon \<notin> set rs \<Longrightarrow>
     odbc_run env rs s = Inr (s\<lparr>o_key := o_key s @ string_of_runes rs\<rparr>)"
proof (induction rs arbitrary: s)
  case (Cons r rs)
  then show ?case
    using string_of_runes_append [of "[r]" rs] by (simp add: odbc_step_def WriteRune_def)
qed simp

lemma odbc_run_braced:
  "o_state s = parserStateBracedValue \<Longrightarrow>
     odbc_run env (double_runes close_brace rs) s = Inr (s\<lparr>o_value := o_value s @ string_of_runes rs\<rparr>)"
proof (induction rs arbitrary: s)
  case Nil
  then show ?case by (simp add: double_runes_def)
next
  case (Cons r rs)
  let ?s = "s\<lparr>o_value := o_value s @ string_of_runes [r]\<rparr>"
  have "odbc_run env (if r = close_brace then [close_brace, close_brace] else [r]) s = Inr ?s"
    using Cons.prems by (simp add: odbc_step_def WriteRune_def)
  moreover have "double_runes close_brace (r # rs) =
      (if r = close_brace then [close_brace, close_brace] else [r]) @ double_runes close_brace rs"
    by (simp add: double_runes_def)
  ultimately show ?case
    using Cons.IH [of ?s] Cons.prems string_of_runes_append [of "[r]" rs] by (simp add: odbc_run_append)
qed

lemma odbc_run_pair:
  assumes "odbc_key_ok env k" "valid_utf8 v"
  shows "odbc_run env (runes (odbc_pair (k, v) @ t)) (odbc_start\<lparr>o_res := res\<rparr>)
       = odbc_run env (runes t) (odbc_start\<lparr>o_res := res(k \<mapsto> v)\<rparr>)"
proof -
  have k: "string_of_runes (runes k) = k" "valid_utf8 k" using assms(1) by (auto simp: odbc_key_ok_def valid_utf8_def)
  have kne: "runes k \<noteq> []"
  proof
    assume "runes k = []"
    with k(1) have "k = []" by simp
    with assms(1) show False by (simp add: odbc_key_ok_def)
  qed
  then obtain c cs where kc: "runes k = c # cs" by (cases "runes k") auto
  have rk: "odbc_run env (runes k) (odbc_start\<lparr>o_res := res\<rparr>) =
      Inr (odbc_start\<lparr>o_res := res, o_state := parserStateKey, o_key := k\<rparr>)"
    using assms(1) odbc_run_key [of "odbc_start\<lparr>o_res := res, o_state := parserStateKey, o_key := string_of_runes [c]\<rparr>" cs env]
      string_of_runes_append [of "[c]" cs] k(1)
    by (auto simp: odbc_key_ok_def kc odbc_step_def odbc_start_def WriteRune_def)
  have v: "string_of_runes (runes v) = v" using assms(2) by (simp add: valid_utf8_def)
  have "runes (odbc_pair (k, v) @ t)
      = runes k @ [equals, open_brace] @ double_runes close_brace (runes v) @ [close_brace, semicolon] @ runes t"
    using runes_double [OF assms(2), of "CHR ''}''"]
    by (simp add: odbc_pair_def runes_append_valid [OF k(2)] runes_ascii code_def equals_def open_brace_def
        close_brace_def semicolon_def)
  moreover have "odbc_run env [equals, open_brace] (odbc_start\<lparr>o_res := res, o_state := parserStateKey, o_key := k\<rparr>)
      = Inr (odbc_start\<lparr>o_res := res, o_state := parserStateBracedValue, o_key := k\<rparr>)"
    using assms(1) by (simp add: odbc_key_ok_def odbc_step_def)
  moreover have "odbc_run env (double_runes close_brace (runes v))
      (odbc_start\<lparr>o_res := res, o_state := parserStateBracedValue, o_key := k\<rparr>)
      = Inr (odbc_start\<lparr>o_res := res, o_state := parserStateBracedValue, o_key := k, o_value := v\<rparr>)"
    by (subst odbc_run_braced) (simp_all add: v odbc_start_def)
  moreover have "odbc_run env [close_brace, semicolon]
      (odbc_start\<lparr>o_res := res, o_state := parserStateBracedValue, o_key := k, o_value := v\<rparr>)
      = Inr (odbc_start\<lparr>o_res := res(k \<mapsto> v)\<rparr>)"
    by (simp add: odbc_step_def odbc_store_def after_value_def odbc_start_def close_brace_def semicolon_def)
  ultimately show ?thesis by (simp only: odbc_run_append rk sbind_simps)
qed

lemma odbc_run_pairs:
  assumes "\<forall>(k, v) \<in> set kvs. odbc_key_ok env k \<and> valid_utf8 v"
  shows "odbc_run env (runes (concat (map odbc_pair kvs))) (odbc_start\<lparr>o_res := res\<rparr>)
       = Inr (odbc_start\<lparr>o_res := res ++ map_of (rev kvs)\<rparr>)"
  using assms
proof (induction kvs arbitrary: res)
  case Nil
  then show ?case by simp
next
  case (Cons kv kvs)
  obtain k v where kv: "kv = (k, v)" by (cases kv)
  have "res(k \<mapsto> v) ++ map_of (rev kvs) = res ++ map_of (rev (kv # kvs))"
    by (simp add: kv map_add_def fun_eq_iff split: option.splits)
  moreover have "odbc_run env (runes (concat (map odbc_pair (kv # kvs)))) (odbc_start\<lparr>o_res := res\<rparr>)
      = odbc_run env (runes (concat (map odbc_pair kvs))) (odbc_start\<lparr>o_res := res(k \<mapsto> v)\<rparr>)"
    unfolding kv list.map concat.simps by (rule odbc_run_pair) (use Cons.prems kv in auto)
  moreover have "\<forall>(k, v) \<in> set kvs. odbc_key_ok env k \<and> valid_utf8 v" using Cons.prems by simp
  ultimately show ?case by (simp only: Cons.IH)
qed

text \<open>
  C33. An ODBC connection string in which every key is followed by its value in braces, with the
  closing braces in the value doubled, is parsed into exactly these keys and values, whatever the
  values contain; of a key that occurs twice the last value counts.
\<close>

theorem odbc_roundtrip:
  assumes "\<forall>(k, v) \<in> set kvs. odbc_key_ok env k \<and> valid_utf8 v"
  shows "splitConnectionStringOdbc env (concat (map odbc_pair kvs)) = Inr (map_of (rev kvs))"
  using odbc_run_pairs [OF assms, of Map.empty]
  by (simp add: splitConnectionStringOdbc_def odbc_end_def odbc_start_def)

definition ex_params :: "(string \<times> string) list" where
  "ex_params = [(''server'', ''db1''), (''password'', ''a;}b'')]"

theorem odbc_roundtrip_witness:
  "splitConnectionStringOdbc ex_env (concat (map odbc_pair ex_params)) = Inr (map_of (rev ex_params))"
proof (rule odbc_roundtrip)
  have "odbc_key_ok ex_env k" if "k \<in> {''server'', ''password''}" for k
  proof -
    have a: "list_all (\<lambda>c. code c < 128 \<and> \<not> (65 \<le> code c \<and> code c \<le> 90)) k"
      using that by (auto simp: code_def)
    then have "list_all (\<lambda>c. code c < 128) k" by (simp add: list_all_iff)
    note r = runes_ascii_string [OF this] valid_ascii [OF this] ToLower_ascii [OF a]
    have "TrimRightSpace k = k" by (rule TrimRightSpace_id) (use that in \<open>auto simp: code_def\<close>)
    with r that show ?thesis
      by (auto simp: odbc_key_ok_def normalizeOdbcKey_def IsSpace_def space_runes_def code_def
          equals_def semicolon_def)
  qed
  moreover have "valid_utf8 v" if "v \<in> {''db1'', ''a;}b''}" for v
    by (rule valid_ascii) (use that in \<open>auto simp: code_def\<close>)
  ultimately show "\<forall>(k, v) \<in> set ex_params. odbc_key_ok ex_env k \<and> valid_utf8 v"
    by (simp add: ex_params_def)
qed

section \<open>ADO round trip\<close>

definition ado_pair :: "string \<times> string \<Rightarrow> string" where
  "ado_pair kv = fst kv @ ''='' @ [CHR 0x22] @ double (CHR 0x22) (snd kv) @ [CHR 0x22] @ '';''"

definition ado_key_ok :: "environ \<Rightarrow> string \<Rightarrow> bool" where
  "ado_key_ok env k \<longleftrightarrow> valid_utf8 k \<and> k \<noteq> [] \<and> CHR ''='' \<notin> set k
     \<and> quote \<notin> set (runes k) \<and> semicolon \<notin> set (runes k)
     \<and> TrimSpace (ToLower (env_lower env) k) = k \<and> adoSynonyms k = None \<and> k \<noteq> ''server''"

lemma ado_parts_plain:
  "c \<noteq> quote \<Longrightarrow> \<not> (c = semicolon \<and> \<not> q) \<Longrightarrow> ado_parts (c # rs) q cur = ado_parts rs q (WriteRune cur c)"
  by (cases rs) auto

lemma ado_parts_key:
  "quote \<notin> set ks \<Longrightarrow> semicolon \<notin> set ks \<Longrightarrow>
     ado_parts (ks @ rs) False cur = ado_parts rs False (cur @ string_of_runes ks)"
proof (induction ks arbitrary: cur)
  case (Cons k ks)
  then show ?case using string_of_runes_append [of "[k]" ks] by (simp add: ado_parts_plain WriteRune_def)
qed simp

lemma ado_parts_quoted:
  "ado_parts (double_runes quote rs @ quote # semicolon # T) True cur =
     (cur @ string_of_runes (double_runes quote rs @ [quote])) # ado_parts T False []"
proof (induction rs arbitrary: cur)
  case Nil
  then show ?case by (cases T) (simp_all add: double_runes_def quote_def semicolon_def WriteRune_def)
next
  case (Cons r rs)
  let ?w = "if r = quote then [quote, quote] else [r]"
  have d: "double_runes quote (r # rs) = ?w @ double_runes quote rs" by (simp add: double_runes_def)
  have "ado_parts (?w @ double_runes quote rs @ quote # semicolon # T) True cur =
      ado_parts (double_runes quote rs @ quote # semicolon # T) True (cur @ string_of_runes ?w)"
    using string_of_runes_append [of "[quote]" "[quote]"] by (auto simp: ado_parts_plain WriteRune_def)
  with Cons.IH show ?case by (simp only: d append_assoc string_of_runes_append)
qed

lemma ado_parts_pair:
  assumes "ado_key_ok env k" "valid_utf8 v"
  shows "ado_parts (runes (ado_pair (k, v) @ t)) False [] =
    (k @ ''='' @ [CHR 0x22] @ double (CHR 0x22) v @ [CHR 0x22]) # ado_parts (runes t) False []"
proof -
  have k: "valid_utf8 k" "string_of_runes (runes k) = k" "quote \<notin> set (runes k)" "semicolon \<notin> set (runes k)"
    using assms(1) by (auto simp: ado_key_ok_def valid_utf8_def)
  have v: "string_of_runes (runes v) = v" using assms(2) by (simp add: valid_utf8_def)
  have r: "runes (ado_pair (k, v) @ t) =
      runes k @ equals # quote # double_runes quote (runes v) @ quote # semicolon # runes t"
    using runes_double [OF assms(2), of "CHR 0x22"]
    by (simp add: ado_pair_def runes_append_valid [OF k(1)] runes_ascii code_def equals_def quote_def semicolon_def)
  have qe: "ado_parts (equals # quote # rs) False k = ado_parts rs True (k @ ''='' @ [CHR 0x22])" for rs
    using string_of_code [of "CHR ''=''"] string_of_code [of "CHR 0x22"]
    by (cases rs) (simp_all add: equals_def quote_def semicolon_def WriteRune_def code_def)
  have s: "string_of_runes (double_runes quote (runes v) @ [quote]) = double (CHR 0x22) v @ [CHR 0x22]"
    using double_string_of_runes [of "CHR 0x22" "runes v"] v string_of_code [of "CHR 0x22"]
    by (simp add: code_def quote_def)
  show ?thesis
    unfolding r ado_parts_key [OF k(3,4)] append_Nil k(2) qe ado_parts_quoted s by simp
qed

lemma ado_part_pair:
  assumes "ado_key_ok env k"
  shows "ado_part env protocols (k @ ''='' @ [CHR 0x22] @ double (CHR 0x22) v @ [CHR 0x22]) res = res(k \<mapsto> v)"
proof -
  let ?q = "[CHR 0x22] @ double (CHR 0x22) v @ [CHR 0x22]"
  have "TrimSpace ?q = ?q" by (simp add: TrimSpace_def TrimLeftSpace_id TrimRightSpace_id code_def)
  moreover have "unquote ?q = v" by (simp add: unquote_def HasPrefix_def HasSuffix_def)
  moreover have "SplitN2 (CHR ''='') (k @ ''='' @ ?q) = (k, Some ?q)"
    using SplitN2_append [of "CHR ''=''" k ?q] assms by (simp add: ado_key_ok_def)
  ultimately show ?thesis using assms by (simp add: ado_part_def ado_key_ok_def)
qed

text \<open>
  C34. An ADO connection string of keys and values in double quotes, with the quotes inside a
  value doubled, is parsed into exactly these keys and values, whatever the values contain
  (semicolons, quotes, equals signs, spaces); keys are lower-case, no synonyms and not \<open>server\<close>.
\<close>

theorem ado_roundtrip:
  assumes "\<forall>(k, v) \<in> set kvs. ado_key_ok env k \<and> valid_utf8 v"
  shows "splitConnectionString env protocols (concat (map ado_pair kvs)) = map_of (rev kvs)"
proof -
  have "fold (ado_part env protocols) (ado_parts (runes (concat (map ado_pair kvs))) False []) res
      = res ++ map_of (rev kvs)" for res
    using assms
  proof (induction kvs arbitrary: res)
    case Nil
    then show ?case by simp
  next
    case (Cons kv kvs)
    obtain k v where kv: "kv = (k, v)" by (cases kv)
    have ok: "ado_key_ok env k" "valid_utf8 v" "\<forall>(k, v) \<in> set kvs. ado_key_ok env k \<and> valid_utf8 v"
      using Cons.prems kv by auto
    have "res(k \<mapsto> v) ++ map_of (rev kvs) = res ++ map_of (rev (kv # kvs))"
      by (simp add: kv map_add_def fun_eq_iff split: option.splits)
    then show ?case
      unfolding kv list.map concat.simps ado_parts_pair [OF ok(1,2)] fold_Cons o_apply ado_part_pair [OF ok(1)]
      by (simp only: Cons.IH [OF ok(3)] kv)
  qed
  from this [of Map.empty] show ?thesis
    by (simp add: splitConnectionString_def splitAdoConnectionStringParts_def)
qed

definition ex_ado :: "(string \<times> string) list" where
  "ex_ado = [(''database'', ''my;db''), (''password'', [CHR ''a'', CHR 0x22, CHR ''='', CHR '' ''])]"

theorem ado_roundtrip_witness:
  "splitConnectionString ex_env [''tcp'', ''admin''] (concat (map ado_pair ex_ado)) = map_of (rev ex_ado)"
proof (rule ado_roundtrip)
  have "ado_key_ok ex_env k" if "k \<in> {''database'', ''password''}" for k
  proof -
    have a: "list_all (\<lambda>c. code c < 128 \<and> \<not> (65 \<le> code c \<and> code c \<le> 90)) k"
      using that by (auto simp: code_def)
    then have "list_all (\<lambda>c. code c < 128) k" by (simp add: list_all_iff)
    note r = runes_ascii_string [OF this] valid_ascii [OF this] ToLower_ascii [OF a]
    have "TrimSpace k = k" unfolding TrimSpace_def
      by (subst TrimLeftSpace_id, (use that in \<open>auto simp: code_def\<close>)[3], rule TrimRightSpace_id)
        (use that in \<open>auto simp: code_def\<close>)
    moreover have "adoSynonyms k = None" using that by (elim insertE emptyE) (simp_all add: adoSynonyms_def)
    moreover have "quote \<notin> set (map code k)" "semicolon \<notin> set (map code k)" "CHR ''='' \<notin> set k" "k \<noteq> []"
      "k \<noteq> ''server''"
      using that by (auto simp: code_def quote_def semicolon_def)
    ultimately show ?thesis using r by (simp add: ado_key_ok_def)
  qed
  moreover have "valid_utf8 v" if "v \<in> {''my;db'', [CHR ''a'', CHR 0x22, CHR ''='', CHR '' '']}" for v
    by (rule valid_ascii) (use that in \<open>auto simp: code_def\<close>)
  ultimately show "\<forall>(k, v) \<in> set ex_ado. ado_key_ok ex_env k \<and> valid_utf8 v"
    by (simp add: ex_ado_def)
qed

theorem Parse_config_ok_witness:
  "\<exists>p. Parse ex_env (ProtocolParsers ex_env) [] = Inr p \<and> sizes_ok p \<and> tls_ok p"
proof -
  have "\<exists>p. Parse ex_env (ProtocolParsers ex_env) [] = Inr p"
    by (simp add: Parse_def getDsnParams_def getDsnType_def HasPrefix_def splitConnectionString_def
        splitAdoConnectionStringParts_def Let_def parse_basic_def
        opt_param_def parse_identity_def parse_failover_def parse_server_def ProtocolParsers_def tcpParser_def
        tcp_ParseServer_def pget_def parse_security_def parseTLS_def SetupTLS_def parse_rest_def ex_env_def)
  then show ?thesis using Parse_config_ok by blast
qed

end
