(* ===== verification/Unique_Identifier.thy ===== *)
theory Unique_Identifier
  imports Go_Strings
begin

text \<open>
  \<open>src/uniqueidentifier.go\<close> and \<open>src/uniqueidentifier_null.go\<close>: a 16-byte identifier, read
  from and written to the wire with its first three groups reversed, and its text form. A value is a
  list of 16 bytes; \<open>Scan\<close> and \<open>UnmarshalJSON\<close> update it also when they fail.
\<close>

section \<open>Hexadecimal text\<close>

definition hex_digit :: "nat \<Rightarrow> char" where
  "hex_digit n = (if n < 10 then char_of (48 + n) else char_of (55 + n))"

text \<open>\<open>%X\<close> of a byte slice.\<close>

definition upper_hex :: "bytes \<Rightarrow> string" where
  "upper_hex bs = concat (map (\<lambda>b. [hex_digit (unat b div 16), hex_digit (unat b mod 16)]) bs)"

text \<open>\<open>reverseHexTable\<close>: the value of a hexadecimal digit.\<close>

definition from_hex :: "char \<Rightarrow> nat option" where
  "from_hex c =
     (let n = code c in
      if 48 \<le> n \<and> n \<le> 57 then Some (n - 48)
      else if 65 \<le> n \<and> n \<le> 70 then Some (n - 55)
      else if 97 \<le> n \<and> n \<le> 102 then Some (n - 87) else None)"

definition InvalidByte :: fault where "InvalidByte = Err (ErrMsg ''encoding/hex: invalid byte: %#U'')"
definition ErrLength :: fault where "ErrLength = Err (ErrMsg ''encoding/hex: odd length hex string'')"

text \<open>\<open>hex.Decode(dst, src)\<close> from index \<open>i\<close> on: the failure, if any, and what \<open>dst\<close> holds then.\<close>

fun hex_Decode :: "bytes \<Rightarrow> nat \<Rightarrow> string \<Rightarrow> fault option \<times> bytes" where
  "hex_Decode dst i (p # q # src) =
     (case (from_hex p, from_hex q) of
        (Some a, Some b) \<Rightarrow>
          if i < length dst then hex_Decode (dst[i := word_of_nat (a * 16 + b)]) (Suc i) src
          else (Some (RuntimePanic ''index out of range''), dst)
      | _ \<Rightarrow> (Some InvalidByte, dst))"
| "hex_Decode dst i [p] = (Some (if from_hex p = None then InvalidByte else ErrLength), dst)"
| "hex_Decode dst i [] = (None, dst)"

section \<open>UniqueIdentifier\<close>

text \<open>The first three groups reversed, in a copy of the 16 bytes.\<close>

definition swap_groups :: "bytes \<Rightarrow> bytes" where
  "swap_groups raw =
     rev (take 4 raw) @ rev (take 2 (drop 4 raw)) @ rev (take 2 (drop 6 raw)) @ drop 8 raw"

definition Scan_bytes :: "bytes \<Rightarrow> bytes \<Rightarrow> fault option \<times> bytes" where
  "Scan_bytes vt u =
     (if length vt \<noteq> 16 then (Some (Err (ErrMsg ''mssql: invalid UniqueIdentifier length'')), u)
      else (None, swap_groups vt))"

text \<open>
  The loop of \<open>Scan\<close> that removes hyphens ranges over the slice as it was, 36 bytes long, while
  each \<open>append\<close> moves the bytes of its array and shortens \<open>b\<close>; \<open>arr\<close> is the array and
  \<open>n\<close> the length of \<open>b\<close>.
\<close>

definition drop_hyphen :: "nat \<Rightarrow> string \<times> nat \<Rightarrow> fault + string \<times> nat" where
  "drop_hyphen i s =
     (case s of (arr, n) \<Rightarrow>
        if arr ! i = CHR ''-'' then
          (if n < i + 1 then Inl (RuntimePanic ''slice bounds out of range'')
           else Inr (take i arr @ take (n - (i + 1)) (drop (i + 1) arr) @ drop (n - 1) arr, n - 1))
        else Inr (arr, n))"

fun drop_hyphens :: "nat list \<Rightarrow> string \<times> nat \<Rightarrow> fault + string \<times> nat" where
  "drop_hyphens [] s = Inr s"
| "drop_hyphens (i # is) s = sbind (drop_hyphen i s) (drop_hyphens is)"

definition Scan_string :: "string \<Rightarrow> bytes \<Rightarrow> fault option \<times> bytes" where
  "Scan_string vt u =
     (if length vt \<noteq> 36 then (Some (Err (ErrMsg ''mssql: invalid UniqueIdentifier string length'')), u)
      else (case drop_hyphens [0..<36] (vt, 36) of
              Inl e \<Rightarrow> (Some e, u)
            | Inr (arr, n) \<Rightarrow> hex_Decode u 0 (take n arr)))"

datatype scan_value = ScanBytes bytes | ScanString string | ScanNil | ScanOther

fun Scan :: "scan_value \<Rightarrow> bytes \<Rightarrow> fault option \<times> bytes" where
  "Scan (ScanBytes vt) u = Scan_bytes vt u"
| "Scan (ScanString vt) u = Scan_string vt u"
| "Scan _ u = (Some (Err (ErrMsg ''mssql: cannot convert %T to UniqueIdentifier'')), u)"

definition Value :: "bytes \<Rightarrow> bytes" where
  "Value u = swap_groups u"

definition String :: "bytes \<Rightarrow> string" where
  "String u = upper_hex (take 4 u) @ ''-'' @ upper_hex (take 2 (drop 4 u)) @ ''-''
     @ upper_hex (take 2 (drop 6 u)) @ ''-'' @ upper_hex (take 2 (drop 8 u)) @ ''-'' @ upper_hex (drop 10 u)"

definition MarshalText :: "bytes \<Rightarrow> bytes" where
  "MarshalText u = str_bytes (String u)"

text \<open>\<open>hex.DecodeString\<close> decodes into a slice of half the length of its argument.\<close>

definition hex_DecodeString :: "string \<Rightarrow> fault + bytes" where
  "hex_DecodeString s =
     (case hex_Decode (replicate (length s div 2) 0) 0 s of
        (Some e, _) \<Rightarrow> Inl e | (None, bs) \<Rightarrow> Inr bs)"

text \<open>\<open>strings.Trim(s, "c")\<close>.\<close>

definition Trim :: "char \<Rightarrow> string \<Rightarrow> string" where
  "Trim c s = rev (dropWhile (\<lambda>x. x = c) (rev (dropWhile (\<lambda>x. x = c) s)))"

definition UnmarshalJSON :: "bytes \<Rightarrow> bytes \<Rightarrow> fault option \<times> bytes" where
  "UnmarshalJSON b u =
     (case hex_DecodeString (filter (\<lambda>c. c \<noteq> CHR ''-'') (Trim (CHR 0x22) (bytes_str b))) of
        Inl e \<Rightarrow> (Some e, u)
      | Inr bs \<Rightarrow> (None, take 16 bs @ drop (length bs) u))"

section \<open>NullUniqueIdentifier\<close>

record NullUniqueIdentifier =
  UUID :: bytes
  Valid :: bool

definition Null_Scan :: "scan_value \<Rightarrow> NullUniqueIdentifier \<Rightarrow> fault option \<times> NullUniqueIdentifier" where
  "Null_Scan v n =
     (if v = ScanNil then (None, \<lparr>UUID = replicate 16 0, Valid = False\<rparr>)
      else (case Scan v (UUID n) of (e, u) \<Rightarrow> (e, \<lparr>UUID = u, Valid = True\<rparr>)))"

definition Null_Value :: "NullUniqueIdentifier \<Rightarrow> bytes option" where
  "Null_Value n = (if Valid n then Some (Value (UUID n)) else None)"

definition Null_String :: "NullUniqueIdentifier \<Rightarrow> string" where
  "Null_String n = (if Valid n then String (UUID n) else ''NULL'')"

definition Null_MarshalText :: "NullUniqueIdentifier \<Rightarrow> bytes" where
  "Null_MarshalText n = (if Valid n then MarshalText (UUID n) else str_bytes ''null'')"

definition Null_UnmarshalJSON :: "bytes \<Rightarrow> NullUniqueIdentifier \<Rightarrow> fault option \<times> NullUniqueIdentifier" where
  "Null_UnmarshalJSON b n =
     (if bytes_str b = ''null'' then (None, \<lparr>UUID = replicate 16 0, Valid = False\<rparr>)
      else (case UnmarshalJSON b (UUID n) of (e, u) \<Rightarrow> (e, \<lparr>UUID = u, Valid = True\<rparr>)))"

text \<open>\<open>json.Marshal\<close> of a type with \<open>MarshalText\<close> is its text in double quotes (no character of it needs escaping).\<close>

definition Null_MarshalJSON :: "NullUniqueIdentifier \<Rightarrow> bytes" where
  "Null_MarshalJSON n =
     (if Valid n then str_bytes ([CHR 0x22] @ String (UUID n) @ [CHR 0x22]) else str_bytes ''null'')"

section \<open>Decoding what was printed\<close>

lemma code_hex_digit: "n < 16 \<Longrightarrow> code (hex_digit n) = (if n < 10 then 48 + n else 55 + n)"
  by (auto simp: hex_digit_def code_def)

lemma from_hex_digit [simp]: "n < 16 \<Longrightarrow> from_hex (hex_digit n) = Some n"
  by (simp add: from_hex_def code_hex_digit Let_def)

lemma hex_digit_not: "n < 16 \<Longrightarrow> code c < 48 \<Longrightarrow> hex_digit n \<noteq> c"
  using code_hex_digit [of n] by (auto split: if_splits)

lemma byte_digits: "(b :: byte) = word_of_nat (unat b div 16 * 16 + unat b mod 16)" "unat b div 16 < 16"
proof -
  have b: "unat b < 256" using unsigned_less [of b, where 'a = nat] by simp
  show "b = word_of_nat (unat b div 16 * 16 + unat b mod 16)" by (simp only: div_mult_mod_eq) simp
  from b show "unat b div 16 < 16" by (simp add: div_less_iff_less_mult)
qed

lemma hex_Decode_upper_hex:
  assumes "length done + length bs \<le> length (done @ rest)"
  shows "hex_Decode (done @ rest) (length done) (upper_hex bs) = (None, done @ bs @ drop (length bs) rest)"
  using assms
proof (induction bs arbitrary: "done" rest)
  case Nil
  then show ?case by (simp add: upper_hex_def)
next
  case (Cons b bs)
  then obtain r rs where rest: "rest = r # rs" by (cases rest) auto
  have e: "upper_hex (b # bs) = hex_digit (unat b div 16) # hex_digit (unat b mod 16) # upper_hex bs"
    by (simp add: upper_hex_def)
  have "hex_Decode (done @ rest) (length done) (upper_hex (b # bs)) =
      hex_Decode ((done @ [b]) @ rs) (length (done @ [b])) (upper_hex bs)"
    unfolding e rest using byte_digits [of b] by (simp add: list_update_append)
  with Cons.IH [of "done @ [b]" rs] Cons.prems rest show ?case by simp
qed

lemma upper_hex_append: "upper_hex (xs @ ys) = upper_hex xs @ upper_hex ys"
  by (simp add: upper_hex_def)

lemma length_upper_hex [simp]: "length (upper_hex bs) = 2 * length bs"
  by (induction bs) (auto simp: upper_hex_def)

lemma set_upper_hex: "c \<in> set (upper_hex bs) \<Longrightarrow> 48 \<le> code c"
  using byte_digits(2) by (auto simp: upper_hex_def code_hex_digit split: if_splits)

lemma drop_hyphens_append: "drop_hyphens (is @ js) s = sbind (drop_hyphens is s) (drop_hyphens js)"
  by (induction "is" arbitrary: s) (auto simp: sbind_def split: sum.splits)

lemma drop_hyphens_skip:
  "CHR ''-'' \<notin> set P \<Longrightarrow> \<forall>j \<in> set is. j < length P \<Longrightarrow> drop_hyphens is (P @ R, n) = Inr (P @ R, n)"
proof (induction "is")
  case (Cons i "is")
  then have "P ! i \<noteq> CHR ''-''" by (metis list.set_intros(1) nth_mem)
  with Cons show ?case by (simp add: drop_hyphen_def nth_append)
qed simp

lemma drop_hyphens_hit:
  assumes "length P = i" "length P + 1 + length Q = n" "Q \<noteq> []"
  shows "drop_hyphens [i] (P @ CHR ''-'' # Q @ R, n) = Inr (P @ Q @ last Q # R, n - 1)"
proof -
  have "drop (n - 1) (P @ CHR ''-'' # Q @ R) = last Q # R"
    using assms by (cases Q rule: rev_cases) auto
  with assms show ?thesis by (simp add: drop_hyphen_def nth_append)
qed

lemma drop_hyphens_groups:
  assumes "length A = 8" "length B = 4" "length C = 4" "length D = 4" "length E = 12"
    and nd: "CHR ''-'' \<notin> set (A @ B @ C @ D @ E)"
  shows "\<exists>R. drop_hyphens [0..<36] (A @ CHR ''-'' # B @ CHR ''-'' # C @ CHR ''-'' # D @ CHR ''-'' # E, 36)
     = Inr ((A @ B @ C @ D @ E) @ R, 32)"
proof -
  have E: "E \<noteq> []" using assms(5) by auto
  then have l: "last E \<in> set E" by simp
  let ?l = "last E"
  have split: "[0..<36] = [0..<8] @ [8] @ [9..<12] @ [12] @ [13..<16] @ [16] @ [17..<20] @ [20] @ [21..<36]"
    by (simp add: upt_rec)
  have 1: "drop_hyphens [0..<8] (A @ CHR ''-'' # (B @ CHR ''-'' # C @ CHR ''-'' # D @ CHR ''-'' # E) @ [], 36)
      = Inr (A @ CHR ''-'' # (B @ CHR ''-'' # C @ CHR ''-'' # D @ CHR ''-'' # E) @ [], 36)"
    by (rule drop_hyphens_skip) (use assms in auto)
  have 2: "drop_hyphens [8] (A @ CHR ''-'' # (B @ CHR ''-'' # C @ CHR ''-'' # D @ CHR ''-'' # E) @ [], 36)
      = Inr ((A @ B) @ CHR ''-'' # (C @ CHR ''-'' # D @ CHR ''-'' # E) @ [?l], 35)"
    by (subst drop_hyphens_hit) (use assms E in auto)
  have 3: "drop_hyphens [9..<12] ((A @ B) @ CHR ''-'' # (C @ CHR ''-'' # D @ CHR ''-'' # E) @ [?l], 35)
      = Inr ((A @ B) @ CHR ''-'' # (C @ CHR ''-'' # D @ CHR ''-'' # E) @ [?l], 35)"
    by (rule drop_hyphens_skip) (use assms in auto)
  have 4: "drop_hyphens [12] ((A @ B) @ CHR ''-'' # (C @ CHR ''-'' # D @ CHR ''-'' # E) @ [?l], 35)
      = Inr ((A @ B @ C) @ CHR ''-'' # (D @ CHR ''-'' # E) @ [?l, ?l], 34)"
    by (subst drop_hyphens_hit) (use assms E in auto)
  have 5: "drop_hyphens [13..<16] ((A @ B @ C) @ CHR ''-'' # (D @ CHR ''-'' # E) @ [?l, ?l], 34)
      = Inr ((A @ B @ C) @ CHR ''-'' # (D @ CHR ''-'' # E) @ [?l, ?l], 34)"
    by (rule drop_hyphens_skip) (use assms in auto)
  have 6: "drop_hyphens [16] ((A @ B @ C) @ CHR ''-'' # (D @ CHR ''-'' # E) @ [?l, ?l], 34)
      = Inr ((A @ B @ C @ D) @ CHR ''-'' # E @ [?l, ?l, ?l], 33)"
    by (subst drop_hyphens_hit) (use assms E in auto)
  have 7: "drop_hyphens [17..<20] ((A @ B @ C @ D) @ CHR ''-'' # E @ [?l, ?l, ?l], 33)
      = Inr ((A @ B @ C @ D) @ CHR ''-'' # E @ [?l, ?l, ?l], 33)"
    by (rule drop_hyphens_skip) (use assms in auto)
  have 8: "drop_hyphens [20] ((A @ B @ C @ D) @ CHR ''-'' # E @ [?l, ?l, ?l], 33)
      = Inr ((A @ B @ C @ D @ E @ [?l, ?l, ?l, ?l]) @ [], 32)"
    by (subst drop_hyphens_hit) (use assms E in auto)
  have 9: "drop_hyphens [21..<36] ((A @ B @ C @ D @ E @ [?l, ?l, ?l, ?l]) @ [], 32)
      = Inr ((A @ B @ C @ D @ E @ [?l, ?l, ?l, ?l]) @ [], 32)"
    by (rule drop_hyphens_skip) (use assms E l in auto)
  show ?thesis
    using 1 2 3 4 5 6 7 8 9 unfolding split drop_hyphens_append by simp
qed

lemma swap_groups_swap: "length u = 16 \<Longrightarrow> swap_groups (swap_groups u) = u"
  by (auto simp: swap_groups_def numeral_eq_Suc length_Suc_conv)

text \<open>
  Every identifier comes back from its wire form, from its text form and from its JSON form:
  \<open>Scan\<close> of \<open>Value\<close>, \<open>Scan\<close> of \<open>String\<close> and \<open>UnmarshalJSON\<close> of the quoted text
  store exactly the identifier, whatever the receiver held before.
\<close>

theorem uniqueidentifier_roundtrip:
  assumes "length u = 16" "length v = 16"
  shows "Scan (ScanBytes (Value u)) v = (None, u)
    \<and> Scan (ScanString (String u)) v = (None, u)
    \<and> UnmarshalJSON (Null_MarshalJSON \<lparr>UUID = u, Valid = True\<rparr>) v = (None, u)"
proof (intro conjI)
  have "length (swap_groups u) = 16" using assms(1) by (simp add: swap_groups_def)
  then show "Scan (ScanBytes (Value u)) v = (None, u)"
    by (simp add: Scan_bytes_def Value_def swap_groups_swap [OF assms(1)])
  let ?A = "upper_hex (take 4 u)" and ?B = "upper_hex (take 2 (drop 4 u))" and ?C = "upper_hex (take 2 (drop 6 u))"
    and ?D = "upper_hex (take 2 (drop 8 u))" and ?E = "upper_hex (drop 10 u)"
  have nd: "CHR ''-'' \<notin> set (upper_hex bs)" "CHR 0x22 \<notin> set (upper_hex bs)" for bs
    using set_upper_hex [of "CHR ''-''" bs] set_upper_hex [of "CHR 0x22" bs] by (auto simp: code_def)
  have len: "length ?A = 8" "length ?B = 4" "length ?C = 4" "length ?D = 4" "length ?E = 12"
    using assms(1) by simp_all
  have u: "take 4 u @ take 2 (drop 4 u) @ take 2 (drop 6 u) @ take 2 (drop 8 u) @ drop 10 u = u"
    using assms(1) by (auto simp: numeral_eq_Suc length_Suc_conv)
  have all: "?A @ ?B @ ?C @ ?D @ ?E = upper_hex u"
    using arg_cong [OF u, of upper_hex] by (simp only: upper_hex_append)
  have dec: "hex_Decode v' 0 (upper_hex u) = (None, u)" if "length v' = 16" for v'
    using hex_Decode_upper_hex [of "[]" u v'] assms(1) that by simp
  obtain R where "drop_hyphens [0..<36] (String u, 36) = Inr (upper_hex u @ R, 32)"
    using drop_hyphens_groups [OF len] nd(1) all by (auto simp: String_def)
  with len assms dec [OF assms(2)] show "Scan (ScanString (String u)) v = (None, u)"
    by (simp add: Scan_string_def String_def)
  have "Trim (CHR 0x22) ([CHR 0x22] @ String u @ [CHR 0x22]) = String u"
  proof -
    have "?A \<noteq> []" "?E \<noteq> []" using len by (metis list.size(3) zero_neq_numeral)+
    then have ends: "hd ?A \<noteq> CHR 0x22" "last ?E \<noteq> CHR 0x22" "?A \<noteq> []" "?E \<noteq> []"
      using nd(2) hd_in_set [of ?A] last_in_set [of ?E] by force+
    then obtain a as where a: "?A = a # as" "a \<noteq> CHR 0x22" by (cases ?A) auto
    from ends obtain e es where e: "?E = es @ [e]" "e \<noteq> CHR 0x22" by (cases ?E rule: rev_cases) auto
    show ?thesis using a(2) e(2) by (simp add: Trim_def String_def a(1) e(1))
  qed
  moreover have "filter (\<lambda>c. c \<noteq> CHR ''-'') (upper_hex bs) = upper_hex bs" for bs
    by (rule filter_True) (use nd(1) in blast)
  then have "filter (\<lambda>c. c \<noteq> CHR ''-'') (String u) = upper_hex u"
    using all by (simp add: String_def)
  ultimately show "UnmarshalJSON (Null_MarshalJSON \<lparr>UUID = u, Valid = True\<rparr>) v = (None, u)"
    using dec [of "replicate 16 0"] assms
    by (simp add: UnmarshalJSON_def Null_MarshalJSON_def hex_DecodeString_def)
qed

theorem uniqueidentifier_roundtrip_witness:
  "Scan (ScanBytes (Value (replicate 16 0xAB))) (replicate 16 0) = (None, replicate 16 0xAB)
    \<and> Scan (ScanString (String (replicate 16 0xAB))) (replicate 16 0) = (None, replicate 16 0xAB)
    \<and> UnmarshalJSON (Null_MarshalJSON \<lparr>UUID = replicate 16 0xAB, Valid = True\<rparr>) (replicate 16 0)
        = (None, replicate 16 0xAB)"
  by (rule uniqueidentifier_roundtrip) simp_all

lemma hex_Decode_overflow:
  "\<forall>c \<in> set s. from_hex c \<noteq> None \<Longrightarrow> i \<le> length dst \<Longrightarrow> 2 * (length dst - i) + 2 \<le> length s \<Longrightarrow>
     fst (hex_Decode dst i s) = Some (RuntimePanic ''index out of range'')"
  by (induction dst i s rule: hex_Decode.induct) (auto split: option.splits)

text \<open>
  A string of 36 hexadecimal digits without hyphens has the length \<open>Scan\<close> asks for, but decodes
  to 18 bytes: \<open>Scan\<close> panics instead of returning an error.
\<close>

theorem uniqueidentifier_scan_panics:
  assumes "length s = 36" "\<forall>c \<in> set s. from_hex c \<noteq> None" "length u = 16"
  shows "fst (Scan (ScanString s) u) = Some (RuntimePanic ''index out of range'')"
proof -
  have "from_hex (CHR ''-'') = None" by (simp add: from_hex_def code_def)
  with assms(2) have "CHR ''-'' \<notin> set s" by metis
  then have "drop_hyphens [0..<36] (s, 36) = Inr (s, 36)"
    using drop_hyphens_skip [of s "[0..<36]" "[]"] assms(1) by simp
  with hex_Decode_overflow [OF assms(2), of 0 u] assms show ?thesis by (simp add: Scan_string_def)
qed

theorem uniqueidentifier_scan_panics_witness:
  "fst (Scan (ScanString (replicate 36 (CHR ''a''))) (replicate 16 0)) = Some (RuntimePanic ''index out of range'')"
  by (rule uniqueidentifier_scan_panics) (simp_all add: from_hex_def code_def)

end
