(* ===== verification/Tds_Login.thy ===== *)
theory Tds_Login
  imports Tds_Prelogin Conn_String Unique_Identifier
begin

text \<open>
  The login sequence and the request messages: \<open>sendLogin\<close>, \<open>sendFedAuthInfo\<close>,
  \<open>writeAllHeaders\<close>, \<open>sendSqlBatch72\<close>, \<open>sendAttention\<close>, the answer to the prelogin
  negotiation and the choice of the transport in \<open>src/tds.go\<close>, \<open>sendRpc\<close> of
  \<open>src/rpc.go\<close>, the transaction requests of \<open>src/tran.go\<close> and the prelogin fields of
  \<open>src/session.go\<close>.
\<close>

declare le_bytes_numeral [simp del]

section \<open>Feature extensions\<close>

definition FedAuthLibraryLiveIDCompactToken :: int where "FedAuthLibraryLiveIDCompactToken = 0x00"
definition FedAuthLibrarySecurityToken :: int where "FedAuthLibrarySecurityToken = 0x01"
definition FedAuthLibraryADAL :: int where "FedAuthLibraryADAL = 0x02"
definition FedAuthLibraryReserved :: int where "FedAuthLibraryReserved = 0x7F"

record featureExtFedAuth =
  FedAuthLibrary :: int
  ADALWorkflow :: byte
  FedAuthEcho :: bool
  FedAuthToken :: string
  Nonce :: bytes
  Signature :: bytes

datatype featureExt = FedAuthExt featureExtFedAuth | ColumnEncryptionExt

definition featExtFEDAUTH :: byte where "featExtFEDAUTH = 0x02"
definition featExtCOLUMNENCRYPTION :: byte where "featExtCOLUMNENCRYPTION = 0x04"

fun featureID :: "featureExt \<Rightarrow> byte" where
  "featureID (FedAuthExt _) = featExtFEDAUTH"
| "featureID ColumnEncryptionExt = featExtCOLUMNENCRYPTION"

definition fedauth_toBytes :: "featureExtFedAuth \<Rightarrow> bytes" where
  "fedauth_toBytes e =
     (let opts = push_bit 1 (word_of_int (FedAuthLibrary e) :: byte) OR (if FedAuthEcho e then 1 else 0)
      in if FedAuthLibrary e = FedAuthLibrarySecurityToken then
           (let tokenBytes = str2ucs2 (FedAuthToken e)
            in opts # le_bytes 4 (word_of_nat (length tokenBytes) :: u32) @ tokenBytes
               @ (if length (Nonce e) = 32 then Nonce e else []))
         else if FedAuthLibrary e = FedAuthLibraryADAL then [opts, ADALWorkflow e]
         else [])"

fun toBytes :: "featureExt \<Rightarrow> bytes" where
  "toBytes (FedAuthExt e) = fedauth_toBytes e"
| "toBytes ColumnEncryptionExt = [1]"

text \<open>
  The feature map, as the list of its entries in the order \<open>range\<close> visits them (Go leaves that
  order open, so nothing below depends on it). \<open>Add\<close> of a nil feature does nothing.
\<close>

type_synonym featureExts = "(byte \<times> featureExt) list"

definition featureExts_Add :: "featureExt option \<Rightarrow> featureExts \<Rightarrow> err + featureExts" where
  "featureExts_Add f e =
     (case f of
        None \<Rightarrow> Inr e
      | Some x \<Rightarrow>
          if featureID x \<in> fst ` set e
          then Inl (ErrMsg ''login error: Feature with ID %v is already present in FeatureExt block'')
          else Inr (e @ [(featureID x, x)]))"

definition featureExts_toBytes :: "featureExts \<Rightarrow> bytes" where
  "featureExts_toBytes e =
     (if e = [] then []
      else concat (map (\<lambda>(i, x). i # le_bytes 4 (word_of_nat (length (toBytes x)) :: u32) @ toBytes x) e)
           @ [0xff])"

section \<open>LOGIN7\<close>

record login =
  TDSVersion :: u32
  l_PacketSize :: u32
  ClientProgVer :: u32
  ClientPID :: u32
  ConnectionID :: u32
  OptionFlags1 :: byte
  OptionFlags2 :: byte
  TypeFlags :: byte
  OptionFlags3 :: byte
  ClientTimeZone :: u32
  ClientLCID :: u32
  HostName :: string
  UserName :: string
  Password :: string
  AppName :: string
  ServerName :: string
  CtlIntName :: string
  Language :: string
  Database :: string
  ClientID :: bytes
  SSPI :: bytes
  AtchDBFile :: string
  ChangePassword :: string
  FeatureExt :: featureExts

text \<open>The header; offset and length of each field are a pair.\<close>

record loginHeader =
  h_Length :: u32
  h_TDSVersion :: u32
  h_PacketSize :: u32
  h_ClientProgVer :: u32
  h_ClientPID :: u32
  h_ConnectionID :: u32
  h_OptionFlags1 :: byte
  h_OptionFlags2 :: byte
  h_TypeFlags :: byte
  h_OptionFlags3 :: byte
  h_ClientTimeZone :: u32
  h_ClientLCID :: u32
  h_HostName :: "u16 \<times> u16"
  h_UserName :: "u16 \<times> u16"
  h_Password :: "u16 \<times> u16"
  h_AppName :: "u16 \<times> u16"
  h_ServerName :: "u16 \<times> u16"
  h_Extension :: "u16 \<times> u16"
  h_CtlIntName :: "u16 \<times> u16"
  h_Language :: "u16 \<times> u16"
  h_Database :: "u16 \<times> u16"
  h_ClientID :: bytes
  h_SSPI :: "u16 \<times> u16"
  h_AtchDBFile :: "u16 \<times> u16"
  h_ChangePassword :: "u16 \<times> u16"
  h_SSPILongLength :: u32

definition slot :: "u16 \<times> u16 \<Rightarrow> bytes" where
  "slot x = le_bytes 2 (fst x) @ le_bytes 2 (snd x)"

text \<open>\<open>binary.Write(w, binary.LittleEndian, &hdr)\<close>; \<open>binary.Size\<close> of the header is 94.\<close>

definition loginHeader_bytes :: "loginHeader \<Rightarrow> bytes" where
  "loginHeader_bytes h =
     le_bytes 4 (h_Length h) @ le_bytes 4 (h_TDSVersion h) @ le_bytes 4 (h_PacketSize h)
     @ le_bytes 4 (h_ClientProgVer h) @ le_bytes 4 (h_ClientPID h) @ le_bytes 4 (h_ConnectionID h)
     @ [h_OptionFlags1 h, h_OptionFlags2 h, h_TypeFlags h, h_OptionFlags3 h]
     @ le_bytes 4 (h_ClientTimeZone h) @ le_bytes 4 (h_ClientLCID h)
     @ slot (h_HostName h) @ slot (h_UserName h) @ slot (h_Password h) @ slot (h_AppName h)
     @ slot (h_ServerName h) @ slot (h_Extension h) @ slot (h_CtlIntName h) @ slot (h_Language h)
     @ slot (h_Database h) @ h_ClientID h @ slot (h_SSPI h) @ slot (h_AtchDBFile h)
     @ slot (h_ChangePassword h) @ le_bytes 4 (h_SSPILongLength h)"

definition loginHeader_size :: nat where "loginHeader_size = 94"

definition fExtension :: byte where "fExtension = 0x10"
definition fChangePassword :: byte where "fChangePassword = 1"
definition fUseDB :: byte where "fUseDB = 0x20"
definition fSetLang :: byte where "fSetLang = 0x80"
definition fODBC :: byte where "fODBC = 2"
definition fIntSecurity :: byte where "fIntSecurity = 0x80"
definition fReadOnlyIntent :: byte where "fReadOnlyIntent = 32"

definition rune_count :: "string \<Rightarrow> u16" where
  "rune_count s = word_of_nat (RuneCountInString s)"

definition len16 :: "bytes \<Rightarrow> u16" where
  "len16 b = word_of_nat (length b)"

text \<open>The header \<open>sendLogin\<close> fills in, and \<open>featureExtOffset\<close>.\<close>

definition login_header :: "login \<Rightarrow> loginHeader \<times> u32" where
  "login_header l =
     (let featureExt = featureExts_toBytes (FeatureExt l);
          o0 = word_of_nat loginHeader_size;
          o1 = o0 + len16 (str2ucs2 (HostName l));
          o2 = o1 + len16 (str2ucs2 (UserName l));
          o3 = o2 + len16 (manglePassword (Password l));
          o4 = o3 + len16 (str2ucs2 (AppName l));
          o5 = o4 + len16 (str2ucs2 (ServerName l));
          o6 = o5 + len16 (str2ucs2 (CtlIntName l));
          o7 = o6 + len16 (str2ucs2 (Language l));
          o8 = o7 + len16 (str2ucs2 (Database l));
          o9 = o8 + len16 (SSPI l);
          o10 = o9 + len16 (str2ucs2 (AtchDBFile l));
          o11 = o10 + len16 (manglePassword (ChangePassword l));
          ext = featureExt \<noteq> [];
          o12 = (if ext then o11 + 4 else o11)
      in (\<lparr>h_Length = ucast o12 + word_of_nat (length featureExt),
           h_TDSVersion = TDSVersion l, h_PacketSize = l_PacketSize l,
           h_ClientProgVer = ClientProgVer l, h_ClientPID = ClientPID l,
           h_ConnectionID = ConnectionID l, h_OptionFlags1 = OptionFlags1 l,
           h_OptionFlags2 = OptionFlags2 l, h_TypeFlags = TypeFlags l,
           h_OptionFlags3 = OptionFlags3 l OR (if ext then fExtension else 0)
             OR (if manglePassword (ChangePassword l) \<noteq> [] then fChangePassword else 0),
           h_ClientTimeZone = ClientTimeZone l, h_ClientLCID = ClientLCID l,
           h_HostName = (o0, rune_count (HostName l)),
           h_UserName = (o1, rune_count (UserName l)),
           h_Password = (o2, rune_count (Password l)),
           h_AppName = (o3, rune_count (AppName l)),
           h_ServerName = (o4, rune_count (ServerName l)),
           h_Extension = (if ext then (o11, 4) else (0, 0)),
           h_CtlIntName = (o5, rune_count (CtlIntName l)),
           h_Language = (o6, rune_count (Language l)),
           h_Database = (o7, rune_count (Database l)),
           h_ClientID = ClientID l,
           h_SSPI = (o8, len16 (SSPI l)),
           h_AtchDBFile = (o9, rune_count (AtchDBFile l)),
           h_ChangePassword = (o10, rune_count (ChangePassword l)),
           h_SSPILongLength = 0\<rparr>,
          if ext then ucast o12 else 0))"

fun write_all :: "bytes list \<Rightarrow> (tdsBuffer, unit) go" where
  "write_all [] = gret ()"
| "write_all (b # bs) = gthen (io_Write Write b) (write_all bs)"

text \<open>The variable part in the order it is written.\<close>

definition login_data :: "login \<Rightarrow> bytes list" where
  "login_data l =
     [str2ucs2 (HostName l), str2ucs2 (UserName l), manglePassword (Password l),
      str2ucs2 (AppName l), str2ucs2 (ServerName l), str2ucs2 (CtlIntName l),
      str2ucs2 (Language l), str2ucs2 (Database l), SSPI l, str2ucs2 (AtchDBFile l),
      manglePassword (ChangePassword l)]"

definition sendLogin :: "login \<Rightarrow> (tdsBuffer, unit) go" where
  "sendLogin l =
     gthen (BeginPacket packLogin7 False)
       (gthen
         (case login_header l of (hdr, featureExtOffset) \<Rightarrow>
            gthen (io_Write Write (loginHeader_bytes hdr))
              (gthen (write_all (login_data l))
                 (if 0 < featureExtOffset
                  then gthen (binary_Write Write 4 featureExtOffset)
                         (io_Write Write (featureExts_toBytes (FeatureExt l)))
                  else gret ())))
         FinishPacket)"

definition sendFedAuthInfo :: "featureExtFedAuth \<Rightarrow> (tdsBuffer, unit) go" where
  "sendFedAuthInfo fedAuth =
     (let fedauthtoken = str2ucs2 (FedAuthToken fedAuth);
          tokenlen = length fedauthtoken;
          datalen = 4 + tokenlen + length (Nonce fedAuth)
      in gthen (BeginPacket packFedAuthToken False)
           (gthen
             (gthen (binary_Write Write 4 (word_of_nat datalen :: u32))
               (gthen (binary_Write Write 4 (word_of_nat tokenlen :: u32))
                 (gthen (io_Write Write fedauthtoken) (io_Write Write (Nonce fedAuth)))))
             FinishPacket))"

section \<open>Where the fields of LOGIN7 are\<close>

definition login_slots :: "loginHeader \<Rightarrow> (u16 \<times> u16) list" where
  "login_slots h = [h_HostName h, h_UserName h, h_Password h, h_AppName h, h_ServerName h, h_CtlIntName h,
     h_Language h, h_Database h, h_SSPI h, h_AtchDBFile h, h_ChangePassword h]"

definition login_extension :: "login \<Rightarrow> bytes" where
  "login_extension l =
     (if 0 < snd (login_header l)
      then le_bytes 4 (snd (login_header l)) @ featureExts_toBytes (FeatureExt l) else [])"

definition login_bytes :: "login \<Rightarrow> bytes" where
  "login_bytes l = loginHeader_bytes (fst (login_header l)) @ concat (login_data l) @ login_extension l"

definition login_size :: "login \<Rightarrow> nat" where
  "login_size l = loginHeader_size + length (concat (login_data l))"

lemma emits_write_all: "tds_sink.emits w0 (write_all bs) (concat bs) ()"
proof (induction bs)
  case Nil
  then show ?case by (simp add: tds_sink.emits_ret)
next
  case (Cons b bs)
  from tds_sink.emits_then [OF tds_sink.emits_Write Cons.IH] show ?case by simp
qed

lemma sendLogin_send:
  "sendLogin l = send packLogin7 False
     (gthen (io_Write Write (loginHeader_bytes (fst (login_header l))))
        (gthen (write_all (login_data l))
           (if 0 < snd (login_header l)
            then gthen (binary_Write Write 4 (snd (login_header l)))
                   (io_Write Write (featureExts_toBytes (FeatureExt l)))
            else gret ())))"
  by (simp add: sendLogin_def send_def case_prod_beta)

lemma emits_login:
  "tds_sink.emits w0
     (gthen (io_Write Write (loginHeader_bytes (fst (login_header l))))
        (gthen (write_all (login_data l))
           (if 0 < snd (login_header l)
            then gthen (binary_Write Write 4 (snd (login_header l)))
                   (io_Write Write (featureExts_toBytes (FeatureExt l)))
            else gret ()))) (login_bytes l) ()"
proof -
  have "tds_sink.emits w0 (if 0 < snd (login_header l)
      then gthen (binary_Write Write 4 (snd (login_header l)))
             (io_Write Write (featureExts_toBytes (FeatureExt l)))
      else gret ()) (login_extension l) ()"
    unfolding login_extension_def
    using tds_sink.emits_then [OF tds_sink.emits_binary_Write tds_sink.emits_Write] tds_sink.emits_ret by auto
  from tds_sink.emits_then [OF tds_sink.emits_Write tds_sink.emits_then [OF emits_write_all this]]
  show ?thesis unfolding login_bytes_def .
qed

lemma length_loginHeader: "length (ClientID l) = 6 \<Longrightarrow>
    length (loginHeader_bytes (fst (login_header l))) = loginHeader_size"
  by (simp add: loginHeader_bytes_def slot_def login_header_def Let_def loginHeader_size_def)

lemma login_slot_offsets:
  "map fst (login_slots (fst (login_header l))) =
     map (\<lambda>i. word_of_nat (loginHeader_size + length (concat (take i (login_data l))))) [0..<11]"
  by (simp add: login_slots_def login_header_def Let_def login_data_def len16_def upt_rec ac_simps)

lemma nth_of_concat:
  "i < length ds \<Longrightarrow> take (length (ds ! i)) (drop (length H + length (concat (take i ds))) (H @ concat ds @ X)) = ds ! i"
proof -
  assume i: "i < length ds"
  have "concat ds = concat (take i ds) @ ds ! i @ concat (drop (Suc i) ds)"
    using arg_cong [OF id_take_nth_drop [OF i], of concat] by simp
  then show ?thesis by simp
qed

lemma length_concat_take: "length (concat (take i ds)) \<le> length (concat ds)"
  by (induction ds arbitrary: i) (auto simp: take_Cons split: nat.split)

lemma ucast_word_of_nat16: "n < 2 ^ 16 \<Longrightarrow> ucast (word_of_nat n :: u16) = (word_of_nat n :: u32)"
  using of_nat_unat [of "word_of_nat n :: u16", where 'a = "32 word"] by (simp add: unat_of_nat)

lemma login_extension_offset:
  assumes "featureExts_toBytes (FeatureExt l) \<noteq> []" "login_size l + 4 < 2 ^ 16"
  shows "fst (h_Extension (fst (login_header l))) = word_of_nat (login_size l)"
    and "snd (login_header l) = word_of_nat (login_size l + 4)"
proof -
  have e: "fst (h_Extension (fst (login_header l))) = word_of_nat (login_size l)"
    using assms(1) by (simp add: login_header_def Let_def login_size_def login_data_def len16_def ac_simps)
  then show "fst (h_Extension (fst (login_header l))) = word_of_nat (login_size l)" .
  have "snd (login_header l) = ucast (fst (h_Extension (fst (login_header l))) + 4)"
    using assms(1) by (simp add: login_header_def Let_def)
  also have "\<dots> = ucast (word_of_nat (login_size l + 4) :: u16)" by (simp add: e)
  also have "\<dots> = word_of_nat (login_size l + 4)"
    using assms(2) by (rule ucast_word_of_nat16)
  finally show "snd (login_header l) = word_of_nat (login_size l + 4)" .
qed

lemma login_Length:
  assumes "login_size l + 4 < 2 ^ 16"
  shows "h_Length (fst (login_header l)) = word_of_nat (login_size l + length (login_extension l))"
proof (cases "featureExts_toBytes (FeatureExt l) = []")
  case True
  have "h_Length (fst (login_header l)) = ucast (word_of_nat (login_size l) :: u16)"
    using True by (simp add: login_header_def Let_def login_size_def login_data_def len16_def ac_simps)
  moreover have "login_extension l = []" using True by (simp add: login_extension_def login_header_def Let_def)
  ultimately show ?thesis using assms ucast_word_of_nat16 [of "login_size l"] by simp
next
  case False
  have "h_Length (fst (login_header l)) = snd (login_header l) + word_of_nat (length (featureExts_toBytes (FeatureExt l)))"
    using False by (simp add: login_header_def Let_def)
  moreover have "(0 :: u32) < word_of_nat (login_size l + 4)"
    using assms by (simp add: word_less_nat_alt unat_of_nat del: of_nat_add)
  ultimately show ?thesis
    using login_extension_offset(2) [OF False assms] by (simp add: login_extension_def ac_simps)
qed

lemma length_login_bytes: "length (ClientID l) = 6 \<Longrightarrow> length (login_bytes l) = login_size l + length (login_extension l)"
  by (simp add: login_bytes_def length_loginHeader login_size_def)

text \<open>
  C24. When the strings and the SSPI data of a login fit 16-bit offsets, the LOGIN7 message the server
  receives holds, at the offset the header records for each of them, exactly its encoding, and the
  total length is the one in the header; a feature block is found through the offset stored at
  the place the header's extension offset names.
\<close>

theorem login_fields_located:
  assumes w: "wbuf_ok w" and l: "length (ClientID l) = 6" "login_size l + 4 < 2 ^ 16"
  shows "\<exists>w' pkts M hdr. sendLogin l w = (Inr (), w')
     \<and> t_out (transport w') = t_out (transport w) @ pkts
     \<and> (\<forall>r rest. rbuf_ok r \<and> packetSize w \<le> packetSize r \<and> packetSize r < 2 ^ 16
          \<and> t_in (transport r) = concat pkts @ rest \<longrightarrow> (\<exists>r'. receive r = (Inr (packLogin7, M), r')))
     \<and> take loginHeader_size M = loginHeader_bytes hdr
     \<and> h_Length hdr = word_of_nat (length M)
     \<and> (\<forall>i < 11. take (length (login_data l ! i)) (drop (unat (fst (login_slots hdr ! i))) M) = login_data l ! i)
     \<and> (let feats = featureExts_toBytes (FeatureExt l); ext = unat (fst (h_Extension hdr)) in
        feats \<noteq> [] \<longrightarrow> drop (unat (le_word (take 4 (drop ext M)) :: u32)) M = feats)"
proof -
  let ?w0 = "begun packLogin7 False w" and ?hdr = "fst (login_header l)" and ?M = "login_bytes l"
  note hl = length_loginHeader [OF l(1)]
  have ne: "?M \<noteq> []" using length_login_bytes [OF l(1)] by (auto simp: login_size_def loginHeader_size_def)
  obtain w' where w': "sendLogin l w = (Inr (), w')"
    "t_out (transport w') = t_out (transport w) @ message ?w0 ?M"
    using send_message [OF w emits_login, of packLogin7 False l] by (auto simp: sendLogin_send)
  have st: "bufmem ?w0 ! 1 = 0" using begun_status [OF w] by (simp add: begin_status_def)
  have f: "wPacketType ?w0 = packLogin7" "packetSize ?w0 = packetSize w" by (simp_all add: begun_def)
  have rd: "\<exists>r'. receive r = (Inr (packLogin7, ?M), r')"
    if "rbuf_ok r \<and> packetSize w \<le> packetSize r \<and> packetSize r < 2 ^ 16
      \<and> t_in (transport r) = concat (message ?w0 ?M) @ rest" for r rest
    using receive_message [OF begun_ok [OF w] st ne, of r rest] that f by auto
  have len: "h_Length ?hdr = word_of_nat (length ?M)"
    using login_Length [OF l(2)] length_login_bytes [OF l(1)] by simp
  have hd: "take loginHeader_size ?M = loginHeader_bytes ?hdr" using hl by (simp add: login_bytes_def)
  have dat: "take (length (login_data l ! i)) (drop (unat (fst (login_slots ?hdr ! i))) ?M) = login_data l ! i"
    if "i < 11" for i
  proof -
    have i: "i < length (login_data l)" "i < length (login_slots ?hdr)" using that by (simp_all add: login_data_def login_slots_def)
    let ?o = "loginHeader_size + length (concat (take i (login_data l)))"
    have "?o < 2 ^ 16" using l(2) length_concat_take [of i "login_data l"] by (simp add: login_size_def)
    then have "unat (fst (login_slots ?hdr ! i)) = ?o"
      using arg_cong [OF login_slot_offsets [of l], of "\<lambda>xs. xs ! i"] that i(2)
      by (simp add: unat_of_nat del: of_nat_add)
    then show ?thesis using nth_of_concat [OF i(1), of "loginHeader_bytes ?hdr"] hl by (simp add: login_bytes_def)
  qed
  have ext: "drop (unat (le_word (take 4 (drop (unat (fst (h_Extension ?hdr))) ?M)) :: u32)) ?M
      = featureExts_toBytes (FeatureExt l)" if ne: "featureExts_toBytes (FeatureExt l) \<noteq> []"
  proof -
    note o = login_extension_offset [OF ne l(2)]
    have u: "unat (fst (h_Extension ?hdr)) = login_size l" "unat (snd (login_header l)) = login_size l + 4"
      using l(2) o by (simp_all add: unat_of_nat del: of_nat_add)
    then have x: "login_extension l = le_bytes 4 (snd (login_header l)) @ featureExts_toBytes (FeatureExt l)"
      by (simp add: login_extension_def word_less_nat_alt)
    have pre: "length (loginHeader_bytes ?hdr @ concat (login_data l)) = login_size l" using hl by (simp add: login_size_def)
    have "take 4 (drop (login_size l) ?M) = le_bytes 4 (snd (login_header l))"
      using pre by (simp add: login_bytes_def x)
    then have "unat (le_word (take 4 (drop (unat (fst (h_Extension ?hdr))) ?M)) :: u32) = login_size l + 4"
      using u le_codec [of 4 "snd (login_header l)"] by simp
    moreover have "drop (login_size l + 4) ?M = featureExts_toBytes (FeatureExt l)"
      using append_eq_conv_conj [THEN iffD1, OF refl, of "loginHeader_bytes ?hdr @ concat (login_data l)
        @ le_bytes 4 (snd (login_header l))" "featureExts_toBytes (FeatureExt l)"] pre
      by (simp add: login_bytes_def x)
    ultimately show ?thesis by simp
  qed
  show ?thesis
    unfolding Let_def using w' rd hd len dat ext by blast
qed

definition ex_login :: login where
  "ex_login = \<lparr>TDSVersion = 0x74000004, l_PacketSize = 4096, ClientProgVer = 0, ClientPID = 1, ConnectionID = 0,
     OptionFlags1 = 0, OptionFlags2 = 0, TypeFlags = 0, OptionFlags3 = 0, ClientTimeZone = 0, ClientLCID = 0,
     HostName = ''h'', UserName = ''sa'', Password = ''pw'', AppName = [], ServerName = ''s'', CtlIntName = [],
     Language = [], Database = ''db'', ClientID = [1, 2, 3, 4, 5, 6], SSPI = [], AtchDBFile = [],
     ChangePassword = [], FeatureExt = [(featExtCOLUMNENCRYPTION, ColumnEncryptionExt)]\<rparr>"

lemma str2ucs2_ascii_length: "list_all (\<lambda>c. code c < 128) s \<Longrightarrow> length (str2ucs2 s) = 2 * length s"
proof -
  have "length (utf16_Encode rs) = length rs" if "\<forall>r \<in> set rs. r < 128" for rs
    using that by (induction rs) auto
  then show "list_all (\<lambda>c. code c < 128) s \<Longrightarrow> length (str2ucs2 s) = 2 * length s"
    by (simp add: length_str2ucs2 runes_ascii_string list_all_iff)
qed

lemma ex_login_ok: "length (ClientID ex_login) = 6" "login_size ex_login + 4 < 2 ^ 16"
proof -
  show "length (ClientID ex_login) = 6" by (simp add: ex_login_def)
  have "length (concat (login_data ex_login)) = 16"
    unfolding login_data_def manglePassword_def
    by (simp add: str2ucs2_ascii_length ex_login_def code_def)
  then show "login_size ex_login + 4 < 2 ^ 16" by (simp add: login_size_def loginHeader_size_def)
qed

theorem login_fields_located_witness:
  "\<exists>w' pkts M hdr. sendLogin ex_login (ex_buf 12 []) = (Inr (), w')
     \<and> t_out (transport w') = t_out (transport (ex_buf 12 [])) @ pkts
     \<and> (\<forall>r rest. rbuf_ok r \<and> packetSize (ex_buf 12 []) \<le> packetSize r \<and> packetSize r < 2 ^ 16
          \<and> t_in (transport r) = concat pkts @ rest \<longrightarrow> (\<exists>r'. receive r = (Inr (packLogin7, M), r')))
     \<and> take loginHeader_size M = loginHeader_bytes hdr
     \<and> h_Length hdr = word_of_nat (length M)
     \<and> (\<forall>i < 11. take (length (login_data ex_login ! i)) (drop (unat (fst (login_slots hdr ! i))) M)
          = login_data ex_login ! i)
     \<and> (let feats = featureExts_toBytes (FeatureExt ex_login); ext = unat (fst (h_Extension hdr)) in
        feats \<noteq> [] \<longrightarrow> drop (unat (le_word (take 4 (drop ext M)) :: u32)) M = feats)"
  by (rule login_fields_located [OF _ ex_login_ok]) (simp add: ex_buf_ok)

text \<open>
  The lengths in the header count runes, not UTF-16 units: for a user name of one character outside
  the basic plane the header says 1 and the encoding has two units.
\<close>

lemma login_length_counts_runes:
  assumes "UserName l = string_of_runes [0x1F600]"
  shows "snd (h_UserName (fst (login_header l))) = 1" "length (str2ucs2 (UserName l)) = 4"
proof -
  have r: "runes (UserName l) = [0x1F600]" using assms by (simp add: runes_string_of_runes scalar_def)
  then show "snd (h_UserName (fst (login_header l))) = 1"
    by (simp add: login_header_def Let_def rune_count_def RuneCountInString_def)
  show "length (str2ucs2 (UserName l)) = 4" using r by (simp add: length_str2ucs2)
qed

section \<open>Request messages\<close>

record headerStruct =
  hdrtype :: u16
  hdata :: bytes

definition dataStmHdrQueryNotif :: u16 where "dataStmHdrQueryNotif = 1"
definition dataStmHdrTransDescr :: u16 where "dataStmHdrTransDescr = 2"
definition dataStmHdrTraceActivity :: u16 where "dataStmHdrTraceActivity = 3"

record queryNotifHdr =
  notifyId :: string
  ssbDeployment :: string
  notifyTimeout :: u32

definition queryNotifHdr_pack :: "queryNotifHdr \<Rightarrow> bytes" where
  "queryNotifHdr_pack hdr =
     (let nid = str2ucs2 (notifyId hdr); ssb = str2ucs2 (ssbDeployment hdr) in
      le_bytes 2 (len16 nid) @ nid @ le_bytes 2 (len16 ssb) @ ssb @ le_bytes 4 (notifyTimeout hdr))"

record transDescrHdr =
  transDescr :: u64
  outstandingReqCnt :: u32

definition transDescrHdr_pack :: "transDescrHdr \<Rightarrow> bytes" where
  "transDescrHdr_pack hdr = le_bytes 8 (transDescr hdr) @ le_bytes 4 (outstandingReqCnt hdr)"

definition headers_len :: "headerStruct list \<Rightarrow> u32" where
  "headers_len headers = fold (\<lambda>hdr tot. tot + (4 + 2 + word_of_nat (length (hdata hdr)))) headers 4"

fun write_headers :: "'s writer \<Rightarrow> headerStruct list \<Rightarrow> ('s, unit) go" where
  "write_headers w [] = gret ()"
| "write_headers w (hdr # hs) =
     gthen (binary_Write w 4 (4 + 2 + word_of_nat (length (hdata hdr)) :: u32))
       (gthen (binary_Write w 2 (hdrtype hdr))
          (gthen (io_Write w (hdata hdr)) (write_headers w hs)))"

definition writeAllHeaders :: "'s writer \<Rightarrow> headerStruct list \<Rightarrow> ('s, unit) go" where
  "writeAllHeaders w headers = gthen (binary_Write w 4 (headers_len headers)) (write_headers w headers)"

definition sendSqlBatch72 :: "string \<Rightarrow> headerStruct list \<Rightarrow> bool \<Rightarrow> (tdsBuffer, unit) go" where
  "sendSqlBatch72 sqltext headers resetSession =
     gthen (BeginPacket packSQLBatch resetSession)
       (gthen (gthen (writeAllHeaders Write headers) (io_Write Write (str2ucs2 sqltext))) FinishPacket)"

definition sendAttention :: "(tdsBuffer, unit) go" where
  "sendAttention = gthen (BeginPacket packAttention False) FinishPacket"

text \<open>A call whose returned error is dropped; a panic still ends the caller.\<close>

definition gignore :: "('s, unit) go \<Rightarrow> ('s, unit) go" where
  "gignore m = (\<lambda>s. case m s of (Inl (Err e), s') \<Rightarrow> (Inr (), s') | r \<Rightarrow> r)"

record procId =
  p_id :: u16
  p_name :: string

definition sp_ExecuteSql :: procId where
  "sp_ExecuteSql = \<lparr>p_id = 10, p_name = []\<rparr>"

definition fByRevValue :: byte where "fByRevValue = 1"
definition fDefaultValue :: byte where "fDefaultValue = 2"
definition fEncrypted :: byte where "fEncrypted = 8"

record param =
  par_Name :: string
  par_Flags :: byte
  par_ti :: typeInfo
  par_buffer :: "bytes option"
  par_tiOriginal :: typeInfo
  par_cipherInfo :: bytes

fun write_params :: "'s writer \<Rightarrow> EncodeParameters \<Rightarrow> param list \<Rightarrow> ('s, unit) go" where
  "write_params w encoding [] = gret ()"
| "write_params w encoding (p # ps) =
     gthen (writeBVarChar w (par_Name p))
       (gthen (binary_Write w 1 (par_Flags p))
          (gbind (writeTypeInfo w (par_ti p) (par_Flags p AND fByRevValue \<noteq> 0)) (\<lambda>ti.
             gthen (write_value w ti (par_buffer p) encoding)
               (gthen (if par_Flags p AND fEncrypted = fEncrypted
                       then gbind (writeTypeInfo w (par_tiOriginal p) False) (\<lambda>_. io_Write w (par_cipherInfo p))
                       else gret ())
                  (write_params w encoding ps)))))"

definition sendRpc ::
    "headerStruct list \<Rightarrow> procId \<Rightarrow> u16 \<Rightarrow> param list \<Rightarrow> bool \<Rightarrow> EncodeParameters \<Rightarrow> (tdsBuffer, unit) go" where
  "sendRpc headers proc flags params resetSession encoding =
     gthen (BeginPacket packRPCRequest resetSession)
       (gthen
         (gthen (gignore (writeAllHeaders Write headers))
           (gthen (if p_name proc = []
                   then gthen (binary_Write Write 2 (0xffff :: u16)) (binary_Write Write 2 (p_id proc))
                   else writeUsVarChar Write (p_name proc))
             (gthen (binary_Write Write 2 flags) (write_params Write encoding params))))
         FinishPacket)"

section \<open>Transaction requests\<close>

definition tmBeginXact :: u16 where "tmBeginXact = 5"
definition tmCommitXact :: u16 where "tmCommitXact = 7"
definition tmRollbackXact :: u16 where "tmRollbackXact = 8"
definition fBeginXact :: byte where "fBeginXact = 1"

definition sendBeginXact :: "headerStruct list \<Rightarrow> byte \<Rightarrow> string \<Rightarrow> bool \<Rightarrow> (tdsBuffer, unit) go" where
  "sendBeginXact headers isolation nm resetSession =
     gthen (BeginPacket packTransMgrReq resetSession)
       (gthen
         (gthen (gignore (writeAllHeaders Write headers))
           (gthen (binary_Write Write 2 tmBeginXact)
             (gthen (binary_Write Write 1 isolation) (writeBVarChar Write nm))))
         FinishPacket)"

text \<open>The part \<open>sendCommitXact\<close> and \<open>sendRollbackXact\<close> share; \<open>newname\<close> is not used.\<close>

definition end_xact ::
    "u16 \<Rightarrow> headerStruct list \<Rightarrow> string \<Rightarrow> byte \<Rightarrow> byte \<Rightarrow> string \<Rightarrow> bool \<Rightarrow> (tdsBuffer, unit) go" where
  "end_xact rqtype headers nm flags isolation newname resetSession =
     gthen (BeginPacket packTransMgrReq resetSession)
       (gthen
         (gthen (gignore (writeAllHeaders Write headers))
           (gthen (binary_Write Write 2 rqtype)
             (gthen (writeBVarChar Write nm)
               (gthen (binary_Write Write 1 flags)
                 (if flags AND fBeginXact \<noteq> 0
                  then gthen (binary_Write Write 1 isolation) (writeBVarChar Write nm)
                  else gret ())))))
         FinishPacket)"

definition sendCommitXact ::
    "headerStruct list \<Rightarrow> string \<Rightarrow> byte \<Rightarrow> byte \<Rightarrow> string \<Rightarrow> bool \<Rightarrow> (tdsBuffer, unit) go" where
  "sendCommitXact = end_xact tmCommitXact"

definition sendRollbackXact ::
    "headerStruct list \<Rightarrow> string \<Rightarrow> byte \<Rightarrow> byte \<Rightarrow> string \<Rightarrow> bool \<Rightarrow> (tdsBuffer, unit) go" where
  "sendRollbackXact = end_xact tmRollbackXact"

lemma newname_not_sent:
  "sendCommitXact headers nm flags isolation n1 rs = sendCommitXact headers nm flags isolation n2 rs"
  "sendRollbackXact headers nm flags isolation n1 rs = sendRollbackXact headers nm flags isolation n2 rs"
  by (simp_all add: sendCommitXact_def sendRollbackXact_def end_xact_def)

section \<open>The server browser\<close>

type_synonym BrowserData = "string \<rightharpoonup> (string \<rightharpoonup> string)"

text \<open>
  The assignment into a map that is not there panics; \<open>binary.LittleEndian.Uint16\<close> of the one byte
  \<open>msg[5:]\<close> panics before it.
\<close>

definition parseDAC :: "bytes \<Rightarrow> string \<Rightarrow> fault + BrowserData" where
  "parseDAC msg inst =
     (if length msg = 6 \<and> msg ! 0 = 5
      then sbind (Uint16 (drop 5 msg)) (\<lambda>_. Inl (RuntimePanic ''assignment to entry in nil map''))
      else Inr Map.empty)"

lemma parseDAC_panics: "length msg = 6 \<Longrightarrow> msg ! 0 = 5 \<Longrightarrow> parseDAC msg inst = Inl (RuntimePanic ''index out of range'')"
  by (auto simp: parseDAC_def numeral_eq_Suc length_Suc_conv)

text \<open>The instance dictionary being filled is the list of its assignments, the latest first.\<close>

record instances =
  i_dict :: "(string \<times> string) list"
  i_got_name :: bool
  i_name :: string
  i_results :: BrowserData

fun parse_instances :: "(rune \<Rightarrow> rune) \<Rightarrow> string list \<Rightarrow> instances \<Rightarrow> BrowserData" where
  "parse_instances uni [] s = i_results s"
| "parse_instances uni (token # ts) s =
     (if i_got_name s
      then parse_instances uni ts (s\<lparr>i_dict := (i_name s, token) # i_dict s, i_got_name := False\<rparr>)
      else if token = [] then
        (if i_dict s = [] then i_results s
         else parse_instances uni ts
                (s\<lparr>i_name := token,
                   i_results := (i_results s)(ToUpper uni (case map_of (i_dict s) ''InstanceName'' of None \<Rightarrow> [] | Some v \<Rightarrow> v)
                                   \<mapsto> map_of (i_dict s)),
                   i_dict := []\<rparr>))
      else parse_instances uni ts (s\<lparr>i_name := token, i_got_name := True\<rparr>))"

definition parseInstances :: "(rune \<Rightarrow> rune) \<Rightarrow> bytes \<Rightarrow> BrowserData" where
  "parseInstances uni msg =
     (if 3 < length msg \<and> msg ! 0 = 5
      then parse_instances uni (Split (CHR '';'') (bytes_str (drop 3 msg)))
             \<lparr>i_dict = [], i_got_name = False, i_name = [], i_results = Map.empty\<rparr>
      else Map.empty)"

section \<open>Negotiation\<close>

definition encryptOff :: byte where "encryptOff = 0"
definition encryptOn :: byte where "encryptOn = 1"
definition encryptNotSup :: byte where "encryptNotSup = 2"
definition encryptReq :: byte where "encryptReq = 3"
definition encryptStrict :: byte where "encryptStrict = 4"

text \<open>\<open>getDriverVersion(driverVersion)\<close> for the version v1.10.0 of this source.\<close>

definition driver_version :: u32 where
  "driver_version = push_bit 24 1 OR push_bit 16 10 OR 0"

definition encryption_byte :: "Encryption \<Rightarrow> byte" where
  "encryption_byte e =
     (case e of EncryptionDisabled \<Rightarrow> encryptNotSup | EncryptionRequired \<Rightarrow> encryptOn
      | EncryptionOff \<Rightarrow> encryptOff | EncryptionStrict \<Rightarrow> encryptStrict)"

definition preparePreloginFields ::
    "bytes \<Rightarrow> bytes \<Rightarrow> Config \<Rightarrow> featureExtFedAuth \<Rightarrow> prelogin_fields" where
  "preparePreloginFields connid activityid p fe =
     (let f0 = [preloginVERSION \<mapsto> le_bytes 4 driver_version @ [0, 0],
                preloginENCRYPTION \<mapsto> [encryption_byte (c_Encryption p)],
                preloginINSTOPT \<mapsto> str_bytes (c_Instance p) @ [0],
                preloginTHREADID \<mapsto> [0, 0, 0, 0],
                preloginMARS \<mapsto> [0]];
          f1 = (if c_NoTraceID p then f0
                else f0(preloginTRACEID \<mapsto> Value connid @ Value activityid @ [0, 0, 0, 0]))
      in if FedAuthLibrary fe \<noteq> FedAuthLibraryReserved then f1(preloginFEDAUTHREQUIRED \<mapsto> [1]) else f1)"

definition interpretPreloginResponse ::
    "Config \<Rightarrow> featureExtFedAuth \<Rightarrow> prelogin_fields \<Rightarrow> fault + byte \<times> featureExtFedAuth" where
  "interpretPreloginResponse p fe flds =
     sbind (case flds preloginFEDAUTHREQUIRED of
              Some fedAuthSupport \<Rightarrow>
                if length fedAuthSupport \<noteq> 1
                then Inl (Err (ErrMsg ''federated authentication flag length should be 1: is %d''))
                else Inr (fe\<lparr>FedAuthEcho := (fedAuthSupport ! 0 \<noteq> 0)\<rparr>)
            | None \<Rightarrow>
                if FedAuthLibrary fe \<noteq> FedAuthLibraryReserved \<and> 0 < ADALWorkflow fe
                then Inl (Err (ErrMsg ''federated authentication is not supported by the server''))
                else Inr fe)
       (\<lambda>fe'.
         case flds preloginENCRYPTION of
           None \<Rightarrow> Inl (Err (ErrMsg ''encrypt negotiation failed''))
         | Some [] \<Rightarrow> Inl (RuntimePanic ''index out of range'')
         | Some (e # _) \<Rightarrow>
             if c_Encryption p = EncryptionRequired \<and> (e = encryptNotSup \<or> e = encryptOff)
             then Inl (Err (ErrMsg ''server does not support encryption''))
             else Inr (e, fe'))"

text \<open>
  The transport \<open>connect\<close> leaves in the buffer for the first packet of the login and, after the hook
  \<open>afterFirst\<close> has run, for all that follow.
\<close>

datatype channel = Plain | TLS

definition connect_transport :: "Encryption \<Rightarrow> byte \<Rightarrow> channel \<times> channel" where
  "connect_transport enc encrypt =
     (if enc = EncryptionStrict then (TLS, TLS)
      else if encrypt \<noteq> encryptNotSup then (TLS, if encrypt = encryptOff then Plain else TLS)
      else (Plain, Plain))"

definition verTDS74 :: u32 where "verTDS74 = 0x74000004"
definition verTDS80 :: u32 where "verTDS80 = 0x08000000"

text \<open>
  \<open>prepareLogin\<close>: the process id, the hardware address, the security token provider and the first
  bytes of the integrated authenticator are arguments. It also updates the token in \<open>fe\<close>.
\<close>

definition prepareLogin ::
    "u32 \<Rightarrow> bytes \<Rightarrow> err + string \<Rightarrow> (err + bytes) option \<Rightarrow> Config \<Rightarrow> featureExtFedAuth \<Rightarrow> u32
      \<Rightarrow> err + login \<times> featureExtFedAuth" where
  "prepareLogin pid mac securityToken auth p fe pktsize =
     (let serverName = (if c_Instance p \<noteq> [] then c_Host p @ [CHR 0x5C] @ c_Instance p else c_Host p);
          feats = (if c_ColumnEncryption p then [(featExtCOLUMNENCRYPTION, ColumnEncryptionExt)] else []);
          l = \<lparr>TDSVersion = (if c_Encryption p = EncryptionStrict then verTDS80 else verTDS74),
               l_PacketSize = pktsize, ClientProgVer = driver_version, ClientPID = pid, ConnectionID = 0,
               OptionFlags1 = fUseDB OR fSetLang, OptionFlags2 = fODBC,
               TypeFlags = (if c_ReadOnlyIntent p then fReadOnlyIntent else 0), OptionFlags3 = 0,
               ClientTimeZone = 0, ClientLCID = 0, HostName = c_Workstation p, UserName = [], Password = [],
               AppName = c_AppName p, ServerName = serverName, CtlIntName = ''go-mssqldb'', Language = [],
               Database = c_Database p, ClientID = mac, SSPI = [], AtchDBFile = [],
               ChangePassword = c_ChangePassword p, FeatureExt = feats\<rparr>
      in if FedAuthLibrary fe = FedAuthLibrarySecurityToken then
           sbind securityToken (\<lambda>tok.
             let fe' = fe\<lparr>FedAuthToken := tok\<rparr>
             in Inr (l\<lparr>FeatureExt := feats @ [(featExtFEDAUTH, FedAuthExt fe')]\<rparr>, fe'))
         else if FedAuthLibrary fe = FedAuthLibraryADAL
         then Inr (l\<lparr>FeatureExt := feats @ [(featExtFEDAUTH, FedAuthExt fe)]\<rparr>, fe)
         else (case auth of
                 Some initialBytes \<Rightarrow>
                   sbind initialBytes (\<lambda>b. Inr (l\<lparr>SSPI := b, OptionFlags2 := fODBC OR fIntSecurity\<rparr>, fe))
               | None \<Rightarrow> Inr (l\<lparr>UserName := c_User p, Password := c_Password p\<rparr>, fe)))"

lemma interpretPreloginResponse_Inr:
  assumes "interpretPreloginResponse p fe flds = Inr (encrypt, fe')"
  obtains r where "flds preloginENCRYPTION = Some (encrypt # r)"
    "\<not> (c_Encryption p = EncryptionRequired \<and> (encrypt = encryptNotSup \<or> encrypt = encryptOff))"
proof (cases "flds preloginENCRYPTION")
  case None
  with assms show ?thesis by (simp add: interpretPreloginResponse_def sbind_Inr_iff)
next
  case (Some v)
  with assms that show ?thesis
    by (cases v) (simp_all add: interpretPreloginResponse_def sbind_Inr_iff split: if_splits, blast+)
qed

text \<open>
  When the configuration requires encryption, or asks for strict encryption, there is no answer
  of the server to the prelogin for which \<open>connect\<close> goes on and sends any packet outside TLS. With
  encryption off, the packets after the login are sent in the clear only when the server asks
  for it, and the login itself only when the server does not support encryption.
\<close>

theorem encryption_negotiation:
  assumes "interpretPreloginResponse p fe flds = Inr (encrypt, fe')"
  shows "(c_Encryption p \<in> {EncryptionRequired, EncryptionStrict}
            \<longrightarrow> connect_transport (c_Encryption p) encrypt = (TLS, TLS))
       \<and> (fst (connect_transport (c_Encryption p) encrypt) = Plain
            \<longrightarrow> flds preloginENCRYPTION \<noteq> None \<and> hd (the (flds preloginENCRYPTION)) = encryptNotSup)
       \<and> (snd (connect_transport (c_Encryption p) encrypt) = Plain
            \<longrightarrow> hd (the (flds preloginENCRYPTION)) \<in> {encryptNotSup, encryptOff})"
proof -
  from assms obtain r where r: "flds preloginENCRYPTION = Some (encrypt # r)"
    "\<not> (c_Encryption p = EncryptionRequired \<and> (encrypt = encryptNotSup \<or> encrypt = encryptOff))"
    by (rule interpretPreloginResponse_Inr)
  then show ?thesis by (cases "c_Encryption p") (simp_all add: connect_transport_def)
qed

definition ex_cfg :: Config where "ex_cfg = zero_Config\<lparr>c_Encryption := EncryptionRequired\<rparr>"
definition ex_reply :: prelogin_fields where "ex_reply = [preloginENCRYPTION \<mapsto> [encryptOn]]"
definition ex_fe :: featureExtFedAuth where
  "ex_fe = \<lparr>FedAuthLibrary = FedAuthLibraryReserved, ADALWorkflow = 0,
     FedAuthEcho = False, FedAuthToken = [], Nonce = [], Signature = []\<rparr>"

lemma ex_reply_accepted: "interpretPreloginResponse ex_cfg ex_fe ex_reply = Inr (encryptOn, ex_fe)"
  by (simp add: interpretPreloginResponse_def encryptOn_def encryptOff_def encryptNotSup_def ex_reply_def
      ex_fe_def preloginFEDAUTHREQUIRED_def preloginENCRYPTION_def)

theorem encryption_negotiation_witness: "connect_transport EncryptionRequired encryptOn = (TLS, TLS)"
  using encryption_negotiation [OF ex_reply_accepted] by (simp add: ex_cfg_def)

end
