(* ===== verification/Type_Names.thy ===== *)
theory Type_Names
  imports Tds_Types
begin

text \<open>
  What the driver reports about a column type, \<open>src/types.go\<close>: the Go type to scan it
  into, its declaration, name, length, precision and scale. Types that a function does not
  know are a panic.
\<close>

datatype goType = TInt64 | TFloat64 | TBytes | TString | TBool | TTime | TInterface

definition sized :: "typeInfo \<Rightarrow> int list \<Rightarrow> string \<Rightarrow> 'a \<Rightarrow> fault + 'a" where
  "sized ti sizes msg x = (if Size ti \<in> set sizes then Inr x else Inl (RuntimePanic msg))"

definition makeGoLangScanType :: "typeInfo \<Rightarrow> fault + goType" where
  "makeGoLangScanType ti =
     (let t = TypeId ti in
      if t \<in> {typeInt1, typeInt2, typeInt4, typeInt8} then Inr TInt64
      else if t = typeFlt4 then Inr TFloat64
      else if t = typeIntN then sized ti [1, 2, 4, 8] ''invalid size of INTNTYPE'' TInt64
      else if t = typeFlt8 then Inr TFloat64
      else if t = typeFltN then sized ti [4, 8] ''invalid size of FLNNTYPE'' TFloat64
      else if t = typeBigVarBin then Inr TBytes
      else if t = typeVarChar then Inr TString
      else if t = typeNVarChar then Inr TString
      else if t \<in> {typeBit, typeBitN} then Inr TBool
      else if t \<in> {typeDecimalN, typeNumericN} then Inr TBytes
      else if t \<in> {typeMoney, typeMoney4, typeMoneyN} then sized ti [4, 8] ''invalid size of MONEYN'' TBytes
      else if t = typeDateTim4 then Inr TTime
      else if t = typeDateTime then Inr TTime
      else if t = typeDateTimeN then sized ti [4, 8] ''invalid size of DATETIMEN'' TTime
      else if t \<in> {typeDateTime2N, typeDateN, typeTimeN, typeDateTimeOffsetN} then Inr TTime
      else if t \<in> {typeBigVarChar, typeBigChar, typeNChar} then Inr TString
      else if t = typeGuid then Inr TBytes
      else if t \<in> {typeXml, typeText, typeNText} then Inr TString
      else if t = typeImage then Inr TBytes
      else if t = typeBigBinary then Inr TBytes
      else if t = typeVariant then Inr TInterface
      else if t = typeUdt then Inr TBytes
      else Inl (RuntimePanic ''not implemented makeGoLangScanType for type %d''))"

definition paren :: "string \<Rightarrow> int \<Rightarrow> string" where
  "paren name n = name @ ''('' @ show_int n @ '')''"

definition makeDecl :: "typeInfo \<Rightarrow> fault + string" where
  "makeDecl ti =
     (let t = TypeId ti; n = Size ti in
      if t = typeNull then Inr ''nvarchar(1)''
      else if t = typeInt1 then Inr ''tinyint''
      else if t = typeBigBinary then Inr (paren ''binary'' n)
      else if t = typeInt2 then Inr ''smallint''
      else if t = typeInt4 then Inr ''int''
      else if t = typeInt8 then Inr ''bigint''
      else if t = typeFlt4 then Inr ''real''
      else if t = typeIntN then
        (if n = 1 then Inr ''tinyint'' else if n = 2 then Inr ''smallint'' else if n = 4 then Inr ''int''
         else if n = 8 then Inr ''bigint'' else Inl (RuntimePanic ''invalid size of INTNTYPE''))
      else if t = typeFlt8 then Inr ''float''
      else if t = typeFltN then
        (if n = 4 then Inr ''real'' else if n = 8 then Inr ''float''
         else Inl (RuntimePanic ''invalid size of FLNNTYPE''))
      else if t \<in> {typeDecimal, typeDecimalN}
      then Inr (''decimal('' @ show_int (uint (Prec ti)) @ '', '' @ show_int (uint (Scale ti)) @ '')'')
      else if t \<in> {typeNumeric, typeNumericN}
      then Inr (''numeric('' @ show_int (uint (Prec ti)) @ '', '' @ show_int (uint (Scale ti)) @ '')'')
      else if t = typeMoney4 then Inr ''smallmoney''
      else if t = typeMoney then Inr ''money''
      else if t = typeMoneyN then
        (if n = 4 then Inr ''smallmoney'' else if n = 8 then Inr ''money''
         else Inl (RuntimePanic ''invalid size of MONEYNTYPE''))
      else if t = typeBigVarBin then
        (if 8000 < n \<or> n = 0 then Inr ''varbinary(max)'' else Inr (paren ''varbinary'' n))
      else if t = typeNChar then Inr (paren ''nchar'' (n sdiv 2))
      else if t \<in> {typeBigChar, typeChar} then Inr (paren ''char'' n)
      else if t \<in> {typeBigVarChar, typeVarChar} then
        (if 8000 < n \<or> n = 0 then Inr ''varchar(max)'' else Inr (paren ''varchar'' n))
      else if t = typeNVarChar then
        (if 8000 < n \<or> n = 0 then Inr ''nvarchar(max)'' else Inr (paren ''nvarchar'' (n sdiv 2)))
      else if t \<in> {typeBit, typeBitN} then Inr ''bit''
      else if t = typeDateN then Inr ''date''
      else if t = typeDateTim4 then Inr ''smalldatetime''
      else if t = typeDateTime then Inr ''datetime''
      else if t = typeDateTimeN then
        (if n = 4 then Inr ''smalldatetime'' else if n = 8 then Inr ''datetime''
         else Inl (RuntimePanic ''invalid size of DATETIMNTYPE''))
      else if t = typeTimeN then
        (if Scale ti = 7 then Inr ''time'' else Inr (paren ''time'' (uint (Scale ti))))
      else if t = typeDateTime2N then Inr (paren ''datetime2'' (uint (Scale ti)))
      else if t = typeDateTimeOffsetN then Inr (paren ''datetimeoffset'' (uint (Scale ti)))
      else if t = typeText then Inr ''text''
      else if t = typeNText then Inr ''ntext''
      else if t = typeUdt then Inr (u_TypeName (UdtInfo ti))
      else if t = typeImage then Inr ''image''
      else if t = typeGuid then Inr ''uniqueidentifier''
      else if t = typeTvp then
        (if u_SchemaName (UdtInfo ti) \<noteq> []
         then Inr (u_SchemaName (UdtInfo ti) @ ''.'' @ u_TypeName (UdtInfo ti) @ '' READONLY'')
         else Inr (u_TypeName (UdtInfo ti) @ '' READONLY''))
      else Inl (RuntimePanic ''not implemented makeDecl for type %#x''))"

text \<open>\<open>strings.ToUpper\<close>, which needs the Unicode tables, is the argument \<open>toUpper\<close>.\<close>

definition makeGoLangTypeName :: "(string \<Rightarrow> string) \<Rightarrow> typeInfo \<Rightarrow> fault + string" where
  "makeGoLangTypeName toUpper ti =
     (let t = TypeId ti; n = Size ti in
      if t = typeInt1 then Inr ''TINYINT''
      else if t = typeInt2 then Inr ''SMALLINT''
      else if t = typeInt4 then Inr ''INT''
      else if t = typeInt8 then Inr ''BIGINT''
      else if t = typeFlt4 then Inr ''REAL''
      else if t = typeIntN then
        (if n = 1 then Inr ''TINYINT'' else if n = 2 then Inr ''SMALLINT'' else if n = 4 then Inr ''INT''
         else if n = 8 then Inr ''BIGINT'' else Inl (RuntimePanic ''invalid size of INTNTYPE''))
      else if t = typeFlt8 then Inr ''FLOAT''
      else if t = typeFltN then
        (if n = 4 then Inr ''REAL'' else if n = 8 then Inr ''FLOAT''
         else Inl (RuntimePanic ''invalid size of FLNNTYPE''))
      else if t = typeBigVarBin then Inr ''VARBINARY''
      else if t = typeVarChar then Inr ''VARCHAR''
      else if t = typeNVarChar then Inr ''NVARCHAR''
      else if t \<in> {typeBit, typeBitN} then Inr ''BIT''
      else if t \<in> {typeDecimalN, typeNumericN} then Inr ''DECIMAL''
      else if t \<in> {typeMoney, typeMoney4, typeMoneyN} then
        (if n = 4 then Inr ''SMALLMONEY'' else if n = 8 then Inr ''MONEY''
         else Inl (RuntimePanic ''invalid size of MONEYN''))
      else if t = typeDateTim4 then Inr ''SMALLDATETIME''
      else if t = typeDateTime then Inr ''DATETIME''
      else if t = typeDateTimeN then
        (if n = 4 then Inr ''SMALLDATETIME'' else if n = 8 then Inr ''DATETIME''
         else Inl (RuntimePanic ''invalid size of DATETIMEN''))
      else if t = typeDateTime2N then Inr ''DATETIME2''
      else if t = typeDateN then Inr ''DATE''
      else if t = typeTimeN then Inr ''TIME''
      else if t = typeDateTimeOffsetN then Inr ''DATETIMEOFFSET''
      else if t = typeBigVarChar then Inr ''VARCHAR''
      else if t = typeBigChar then Inr ''CHAR''
      else if t = typeNChar then Inr ''NCHAR''
      else if t = typeGuid then Inr ''UNIQUEIDENTIFIER''
      else if t = typeXml then Inr ''XML''
      else if t = typeText then Inr ''TEXT''
      else if t = typeNText then Inr ''NTEXT''
      else if t = typeImage then Inr ''IMAGE''
      else if t = typeVariant then Inr ''SQL_VARIANT''
      else if t = typeBigBinary then Inr ''BINARY''
      else if t = typeUdt then Inr (toUpper (u_TypeName (UdtInfo ti)))
      else Inl (RuntimePanic ''not implemented makeGoLangTypeName for type %d''))"

definition makeGoLangTypeLength :: "typeInfo \<Rightarrow> fault + (int \<times> bool)" where
  "makeGoLangTypeLength ti =
     (let t = TypeId ti; n = Size ti; none = (0, False) in
      if t \<in> {typeInt1, typeInt2, typeInt4, typeInt8, typeFlt4} then Inr none
      else if t = typeIntN then sized ti [1, 2, 4, 8] ''invalid size of INTNTYPE'' none
      else if t = typeFlt8 then Inr none
      else if t = typeFltN then sized ti [4, 8] ''invalid size of FLNNTYPE'' none
      else if t \<in> {typeBit, typeBitN, typeDecimalN, typeNumericN} then Inr none
      else if t \<in> {typeMoney, typeMoney4, typeMoneyN} then sized ti [4, 8] ''invalid size of MONEYN'' none
      else if t \<in> {typeDateTim4, typeDateTime} then Inr none
      else if t = typeDateTimeN then sized ti [4, 8] ''invalid size of DATETIMEN'' none
      else if t \<in> {typeDateTime2N, typeDateN, typeTimeN, typeDateTimeOffsetN} then Inr none
      else if t = typeBigVarBin then (if n = 0xffff then Inr (2147483645, True) else Inr (n, True))
      else if t = typeVarChar then Inr (n, True)
      else if t = typeBigVarChar then (if n = 0xffff then Inr (2147483645, True) else Inr (n, True))
      else if t = typeBigChar then Inr (n, True)
      else if t = typeNVarChar then
        (if n = 0xffff then Inr (2147483645 sdiv 2, True) else Inr (n sdiv 2, True))
      else if t = typeNChar then Inr (n sdiv 2, True)
      else if t = typeGuid then Inr none
      else if t = typeXml then Inr (1073741822, True)
      else if t = typeText then Inr (2147483647, True)
      else if t = typeNText then Inr (1073741823, True)
      else if t = typeImage then Inr (2147483647, True)
      else if t = typeVariant then Inr none
      else if t = typeBigBinary then Inr (n, True)
      else if t = typeUdt then
        (if u_TypeName (UdtInfo ti) = ''hierarchyid'' then Inr (892, True)
         else if u_TypeName (UdtInfo ti) = ''geography'' then Inr none
         else if u_TypeName (UdtInfo ti) = ''geometry'' then Inr (2147483647, True)
         else Inl (RuntimePanic ''not implemented makeGoLangTypeLength for user defined type %s''))
      else Inl (RuntimePanic ''not implemented makeGoLangTypeLength for type %d''))"

definition makeGoLangTypePrecisionScale :: "typeInfo \<Rightarrow> fault + (int \<times> int \<times> bool)" where
  "makeGoLangTypePrecisionScale ti =
     (let t = TypeId ti; none = (0, 0, False); some = (uint (Prec ti), uint (Scale ti), True) in
      if t \<in> {typeInt1, typeInt2, typeInt4, typeInt8, typeFlt4} then Inr none
      else if t = typeIntN then sized ti [1, 2, 4, 8] ''invalid size of INTNTYPE'' none
      else if t = typeFlt8 then Inr none
      else if t = typeFltN then sized ti [4, 8] ''invalid size of FLNNTYPE'' none
      else if t \<in> {typeBit, typeBitN} then Inr none
      else if t \<in> {typeDecimalN, typeNumericN} then Inr some
      else if t \<in> {typeMoney, typeMoney4, typeMoneyN} then sized ti [4, 8] ''invalid size of MONEYN'' none
      else if t \<in> {typeDateTim4, typeDateTime} then Inr none
      else if t = typeDateTimeN then sized ti [4, 8] ''invalid size of DATETIMEN'' none
      else if t = typeDateTime2N then Inr some
      else if t = typeDateN then Inr none
      else if t = typeTimeN then Inr some
      else if t = typeDateTimeOffsetN then Inr some
      else if t \<in> {typeBigVarBin, typeVarChar, typeBigVarChar, typeBigChar, typeNVarChar, typeNChar, typeGuid,
                   typeXml, typeText, typeNText, typeImage, typeVariant, typeBigBinary, typeUdt} then Inr none
      else Inl (RuntimePanic ''not implemented makeGoLangTypePrecisionScale for type %d''))"

section \<open>Scan types\<close>

fun has_type :: "val \<Rightarrow> goType \<Rightarrow> bool" where
  "has_type VNil _ = True"
| "has_type _ TInterface = True"
| "has_type (VInt _) T = (T = TInt64)"
| "has_type (VBool _) T = (T = TBool)"
| "has_type (VFlt4 _) T = (T = TFloat64)"
| "has_type (VFlt8 _) T = (T = TFloat64)"
| "has_type (VTime _) T = (T = TTime)"
| "has_type (VBytes _) T = (T = TBytes)"
| "has_type (VStr _) T = (T = TString)"

lemma vmap_Inr: "vmap f r = Inr v \<Longrightarrow> \<exists>x. v = f x"
  by (cases r) (auto simp: vmap_def)

lemma scan_type_fixed:
  assumes "makeGoLangScanType ti = Inr T" "fixed_value (TypeId ti) xs loc = Inr v"
  shows "has_type v T"
  using assms
  by (auto simp: makeGoLangScanType_def fixed_value_def Let_def sized_def type_ids dest!: vmap_Inr split: if_splits)


lemma scan_type_bytelen:
  assumes "makeGoLangScanType ti = Inr T" "bytelen_value db ti xs e = Inr v"
  shows "has_type v T"
  using assms
  by (auto simp: makeGoLangScanType_def bytelen_value_def intn_value_def is_decimal_def Let_def sized_def type_ids
      dest!: vmap_Inr split: if_splits)

lemma scan_type_plp:
  assumes "makeGoLangScanType ti = Inr T" "plp_value db ti xs = Inr v"
  shows "has_type v T"
  using assms
  by (auto simp: makeGoLangScanType_def plp_value_def Let_def sized_def type_ids dest!: vmap_Inr split: if_splits)

lemma gfault_Inr: "gfault r s = (Inr x, s') \<longleftrightarrow> r = Inr x \<and> s' = s"
  by (auto simp: gfault_def graise_run gret_run split: sum.splits)

lemma scan_type_short:
  assumes "makeGoLangScanType ti = Inr T" "readShortLenType db ti c r = (Inr v, r')"
  shows "has_type v T"
proof -
  from assms(2) obtain n :: u16 and q where "(if n = 0xffff then gret VNil
       else gbind (read_into ti (unat n)) (\<lambda>buf.
         let t = TypeId ti in
         if t = typeBigVarChar \<or> t = typeBigChar then gret (VStr (decodeChar db (Coll ti) buf))
         else if t = typeBigVarBin \<or> t = typeBigBinary then gret (VBytes buf)
         else if t = typeNVarChar \<or> t = typeNChar then gfault (vmap VStr (decodeNChar buf))
         else if t = typeUdt then gret (VBytes (decodeUdt buf))
         else graise (StreamPanicf ''Invalid typeid''))) q = (Inr v, r')"
    unfolding readShortLenType_def by (auto dest!: gbind_Inr_D)
  with assms(1) show ?thesis
    by (auto simp: makeGoLangScanType_def gret_run graise_run gfault_Inr Let_def type_ids sized_def
        dest!: gbind_Inr_D vmap_Inr split: if_splits)
qed

lemma scan_type_long:
  assumes "makeGoLangScanType ti = Inr T" "readLongLenType db ti r = (Inr v, r')"
  shows "has_type v T"
  using assms
  by (auto simp: makeGoLangScanType_def readLongLenType_def gthen_def gret_run graise_run gfault_Inr Let_def type_ids sized_def
      dest!: gbind_Inr_D vmap_Inr split: if_splits)

text \<open>
  C28. The scan type reported for a column is the dynamic type of every value read from it:
  whatever reader the type information selects and whatever bytes arrive, a value that is not
  nil has the Go type that \<open>makeGoLangScanType\<close> promises.
\<close>

theorem scan_type_sound:
  assumes "makeGoLangScanType ti = Inr T" "Reader ti = Some RdVariant \<longrightarrow> TypeId ti = typeVariant"
    and "read_value db ti c e r = (Inr v, r')"
  shows "has_type v T"
proof (cases "Reader ti")
  case None
  with assms(3) show ?thesis by (simp add: read_value_def graise_run)
next
  case (Some rd)
  show ?thesis
  proof (cases rd)
    case RdFixed
    with Some assms(3) obtain xs where "fixed_value (TypeId ti) xs (GetTimezone e) = Inr v"
      by (auto simp: read_value_def readFixedType_def gfault_Inr dest!: gbind_Inr_D)
    then show ?thesis by (rule scan_type_fixed [OF assms(1)])
  next
    case RdByteLen
    with Some assms(3) have "v = VNil \<or> (\<exists>xs. bytelen_value db ti xs e = Inr v)"
      by (auto simp: read_value_def readByteLenTypeWithEncoding_def gfault_Inr gret_run dest!: gbind_Inr_D split: if_splits)
    with scan_type_bytelen [OF assms(1)] show ?thesis by auto
  next
    case RdShortLen
    with Some assms(3) scan_type_short [OF assms(1)] show ?thesis by (simp add: read_value_def)
  next
    case RdLongLen
    with Some assms(3) scan_type_long [OF assms(1)] show ?thesis by (simp add: read_value_def)
  next
    case RdPLP
    with Some assms(3) have "v = VNil \<or> (\<exists>xs. plp_value db ti xs = Inr v)"
      by (auto simp: read_value_def readPLPType_def gfault_Inr gret_run dest!: gbind_Inr_D split: if_splits)
    with scan_type_plp [OF assms(1)] show ?thesis by auto
  next
    case RdVariant
    with Some assms(1,2) have "T = TInterface"
      by (auto simp: makeGoLangScanType_def Let_def type_ids sized_def)
    then show ?thesis by (cases v) auto
  qed
qed

theorem scan_type_sound_witness:
  "has_type (VInt 10) TInt64"
proof -
  let ?ti = "set_size 1 RdFixed (typeInfo_zero\<lparr>TypeId := typeInt1\<rparr>)"
  let ?e = "\<lparr>Timezone = None, GuidConversion = False\<rparr>"
  have T: "makeGoLangScanType ?ti = Inr TInt64" by (simp add: makeGoLangScanType_def set_size_def)
  have R: "Reader ?ti = Some RdVariant \<longrightarrow> TypeId ?ti = typeVariant" by (simp add: set_size_def)
  have v: "fixed_value typeInt1 [10] 0 = Inr (VInt 10)" by code_simp
  have "reads (readFixedType ?ti ?e) [10] (VInt 10)"
    unfolding readFixedType_def
    by (rule reads_bind_nil, rule reads_ReadFull) (use v in \<open>auto simp: set_size_def GetTimezone_def intro!: reads_gfault\<close>)
  then have "reads (read_value (\<lambda>_ _. None) ?ti False ?e) [10] (VInt 10)"
    by (simp add: read_value_def set_size_def)
  from readsD [OF this ex_reading_ok(1), of "[20, 30, 40]"] ex_reading_ok(2)
  obtain r' where "read_value (\<lambda>_ _. None) ?ti False ?e ex_reading = (Inr (VInt 10), r')" by auto
  from scan_type_sound [OF T R this] show ?thesis .
qed

text \<open>
  The length reported for a \<open>geography\<close> column is "not variable", although
  \<open>geometry\<close>, which shares its case, is reported as unlimited: an empty case does not fall
  through.
\<close>

theorem geography_length_lost:
  "makeGoLangTypeLength (typeInfo_zero\<lparr>TypeId := typeUdt, UdtInfo := (UdtInfo typeInfo_zero)\<lparr>u_TypeName := ''geography''\<rparr>\<rparr>)
     = Inr (0, False)
   \<and> makeGoLangTypeLength (typeInfo_zero\<lparr>TypeId := typeUdt, UdtInfo := (UdtInfo typeInfo_zero)\<lparr>u_TypeName := ''geometry''\<rparr>\<rparr>)
     = Inr (2147483647, True)"
  by (simp add: makeGoLangTypeLength_def Let_def type_ids)

end
