(* ===== verification/Tds_Params.thy ===== *)
theory Tds_Params
  imports Tds_Login Type_Names Unique_Identifier
begin

text \<open>
  Parameters of requests: \<open>makeStrParam\<close>, \<open>makeParam\<close> and \<open>makeRPCParams\<close> of
  \<open>src/mssql.go\<close> and \<open>makeParamExtra\<close> of \<open>src/mssql_go19.go\<close> (less table-valued
  parameters and output parameters of type money). The lemmas show that what a receiver decodes from the parameter section of
  an RPC request are the names, the flags and the values the application passed.
\<close>

section \<open>Values\<close>

text \<open>\<open>driver.Value\<close>: what a \<open>driver.Valuer\<close> may give. Floating-point numbers are their bits.\<close>

datatype dvalue = DNil | DInt64 int | DFloat64 u64 | DBool bool | DBytes bytes | DString string | DTime time

text \<open>The dates and times of \<open>github.com/golang-sql/civil\<close>.\<close>

type_synonym civil_date = "int \<times> int \<times> int"
type_synonym civil_time = "int \<times> int \<times> int \<times> int"

text \<open>
  The values a statement accepts. The nullable types carry \<open>None\<close> when they are not valid; a
  \<open>GValuer\<close> stands for any other \<open>driver.Valuer\<close>, the decimals included.
\<close>

datatype goval =
    GNil
  | GInt int | GInt8 int | GInt16 int | GInt32 int | GInt64 int | GByte byte
  | GFloat64 u64 | GFloat32 u32 | GBytes bytes | GString string | GBool bool | GTime time
  | GUniqueIdentifier bytes | GNullUniqueIdentifier "bytes option"
  | GNullByte "byte option" | GNullInt16 "int option" | GNullInt32 "int option" | GNullInt64 "int option"
  | GNullFloat64 "u64 option" | GNullString "string option" | GNullBool "bool option" | GNullTime "time option"
  | GNullDecimal "nat option" | GNullMoney "nat option"
  | GNullDate "civil_date option" | GNullDateTime "(civil_date \<times> civil_time) option" | GNullCivilTime "civil_time option"
  | GVarChar string | GVarCharMax string | GNVarCharMax string | GNChar string
  | GDateTime1 time | GDateTimeOffset time
  | GCivilDate civil_date | GCivilDateTime civil_date civil_time | GCivilTime civil_time
  | GValuer nat
  | GOut goval
  | GUnknown

text \<open>
  What the code takes from outside: \<open>ConvertValue\<close> of the application's valuers, \<open>In\<close> of the
  civil types, the width of \<open>int\<close> and the TDS version of the login.
\<close>

record pdeps =
  p_convert :: "nat \<Rightarrow> err + dvalue"
  p_date_In :: "civil_date \<Rightarrow> time"
  p_datetime_In :: "civil_date \<Rightarrow> civil_time \<Rightarrow> time"
  p_int32 :: bool
  p_TDSVersion :: u32

definition verTDS73 :: u32 where "verTDS73 = 0x730A0003"

definition param_zero :: param where
  "param_zero = \<lparr>par_Name = [], par_Flags = 0, par_ti = typeInfo_zero, par_buffer = None, par_tiOriginal = typeInfo_zero,
     par_cipherInfo = []\<rparr>"

definition mk :: "byte \<Rightarrow> int \<Rightarrow> bytes option \<Rightarrow> param" where
  "mk t n buf = param_zero\<lparr>par_ti := typeInfo_zero\<lparr>TypeId := t, Size := n\<rparr>, par_buffer := buf\<rparr>"

definition mk_scaled :: "byte \<Rightarrow> byte \<Rightarrow> int \<Rightarrow> bytes option \<Rightarrow> param" where
  "mk_scaled t sc n buf = param_zero\<lparr>par_ti := typeInfo_zero\<lparr>TypeId := t, Size := n, Scale := sc\<rparr>, par_buffer := buf\<rparr>"

definition mk_intn :: "bytes \<Rightarrow> param" where
  "mk_intn buf = mk typeIntN (int (length buf)) (Some buf)"

definition put16 :: "int \<Rightarrow> bytes" where "put16 v = le_bytes 2 (word_of_int v :: u16)"
definition put32 :: "int \<Rightarrow> bytes" where "put32 v = le_bytes 4 (word_of_int v :: u32)"
definition put64 :: "int \<Rightarrow> bytes" where "put64 v = le_bytes 8 (word_of_int v :: u64)"

section \<open>One parameter\<close>

definition makeStrParam :: "string \<Rightarrow> param" where
  "makeStrParam s = (let buf = str2ucs2 s in mk typeNVarChar (int (length buf)) (Some buf))"

definition makeTimeOffset :: "time \<Rightarrow> fault + param" where
  "makeTimeOffset t = sbind (encodeDateTimeOffset t 7) (\<lambda>buf. Inr (mk_scaled typeDateTimeOffsetN 7 (int (length buf)) (Some buf)))"

definition makeDateTime :: "time \<Rightarrow> param" where
  "makeDateTime t = (let buf = encodeDateTime t in mk typeDateTimeN (int (length buf)) (Some buf))"

definition makeTime :: "pdeps \<Rightarrow> time \<Rightarrow> fault + param" where
  "makeTime d t = (if verTDS73 \<le> p_TDSVersion d then makeTimeOffset t else Inr (makeDateTime t))"

text \<open>A \<open>driver.Value\<close>, the second call of \<open>makeParam\<close> for a valuer.\<close>

fun makeValue :: "pdeps \<Rightarrow> dvalue \<Rightarrow> fault + param" where
  "makeValue d DNil = Inr (mk typeNull 0 None)"
| "makeValue d (DInt64 n) = Inr (mk_intn (put64 n))"
| "makeValue d (DFloat64 w) = Inr (mk typeFltN 8 (Some (le_bytes 8 w)))"
| "makeValue d (DBool b) = Inr (mk typeBitN 1 (Some [if b then 1 else 0]))"
| "makeValue d (DBytes xs) = Inr (mk typeBigVarBin (int (length xs)) (Some xs))"
| "makeValue d (DString s) = Inr (makeStrParam s)"
| "makeValue d (DTime t) = makeTime d t"

definition not_value :: "fault + param" where
  "not_value = Inl (Err (ErrMsg ''non-Value type %T returned from Value''))"

definition makeValuer :: "pdeps \<Rightarrow> nat \<Rightarrow> fault + param" where
  "makeValuer d i = (case p_convert d i of Inl e \<Rightarrow> Inl (Err e) | Inr v \<Rightarrow> makeValue d v)"

fun makeParam :: "pdeps \<Rightarrow> goval \<Rightarrow> fault + param" where
  "makeParam d GNil = Inr (mk typeNull 0 None)"
| "makeParam d (GInt n) = Inr (if p_int32 d then mk_intn (put32 n) else mk_intn (put64 n))"
| "makeParam d (GInt8 n) = Inr (mk_intn [word_of_int n])"
| "makeParam d (GInt16 n) = Inr (mk_intn (put16 n))"
| "makeParam d (GInt32 n) = Inr (mk_intn (put32 n))"
| "makeParam d (GInt64 n) = Inr (mk_intn (put64 n))"
| "makeParam d (GByte b) = Inr (mk typeIntN 1 (Some [b]))"
| "makeParam d (GFloat64 w) = Inr (mk typeFltN 8 (Some (le_bytes 8 w)))"
| "makeParam d (GFloat32 w) = Inr (mk typeFltN 4 (Some (le_bytes 4 w)))"
| "makeParam d (GBytes xs) = Inr (mk typeBigVarBin (int (length xs)) (Some xs))"
| "makeParam d (GString s) = Inr (makeStrParam s)"
| "makeParam d (GBool b) = Inr (mk typeBitN 1 (Some [if b then 1 else 0]))"
| "makeParam d (GTime t) = makeTime d t"
| "makeParam d (GUniqueIdentifier u) = Inr (mk typeGuid 16 (Some (Unique_Identifier.Value u)))"
| "makeParam d (GNullUniqueIdentifier u) =
     Inr (mk typeGuid 16 (Some (case u of None \<Rightarrow> [] | Some u \<Rightarrow> Unique_Identifier.Value u)))"
| "makeParam d (GNullByte v) = Inr (mk typeIntN 1 (Some (case v of None \<Rightarrow> [] | Some b \<Rightarrow> [b])))"
| "makeParam d (GNullInt16 v) = Inr (case v of None \<Rightarrow> mk typeIntN 2 (Some []) | Some n \<Rightarrow> mk_intn (put16 n))"
| "makeParam d (GNullInt32 v) = Inr (case v of None \<Rightarrow> mk typeIntN 4 (Some []) | Some n \<Rightarrow> mk_intn (put32 n))"
| "makeParam d (GNullInt64 v) = (case v of None \<Rightarrow> Inr (mk typeIntN 8 (Some [])) | Some n \<Rightarrow> makeValue d (DInt64 n))"
| "makeParam d (GNullFloat64 v) = (case v of None \<Rightarrow> Inr (mk typeFltN 8 (Some [])) | Some w \<Rightarrow> makeValue d (DFloat64 w))"
| "makeParam d (GNullString v) = (case v of None \<Rightarrow> Inr (mk typeNVarChar 8000 None) | Some s \<Rightarrow> makeValue d (DString s))"
| "makeParam d (GNullBool v) = (case v of None \<Rightarrow> Inr (mk typeBitN 1 (Some [])) | Some b \<Rightarrow> makeValue d (DBool b))"
| "makeParam d (GNullTime v) =
     (case v of
        None \<Rightarrow> Inr (if verTDS73 \<le> p_TDSVersion d then mk_scaled typeDateTimeOffsetN 7 8 (Some [])
                     else mk typeDateTimeN 8 (Some []))
      | Some t \<Rightarrow> makeValue d (DTime t))"
| "makeParam d (GNullDecimal v) =
     (case v of None \<Rightarrow> Inr (mk typeNVarChar 8000 None) | Some i \<Rightarrow> makeValuer d i)"
| "makeParam d (GNullMoney v) =
     (case v of None \<Rightarrow> Inr (mk typeNVarChar 8000 None) | Some i \<Rightarrow> makeValuer d i)"
| "makeParam d (GNullDate v) = (case v of None \<Rightarrow> Inr (mk typeDateN 3 (Some [])) | Some _ \<Rightarrow> not_value)"
| "makeParam d (GNullDateTime v) = (case v of None \<Rightarrow> Inr (mk_scaled typeDateTime2N 7 8 (Some [])) | Some _ \<Rightarrow> not_value)"
| "makeParam d (GNullCivilTime v) = (case v of None \<Rightarrow> Inr (mk_scaled typeTimeN 7 5 (Some [])) | Some _ \<Rightarrow> not_value)"
| "makeParam d (GValuer i) = makeValuer d i"
| "makeParam d (GVarChar s) = Inr (mk typeBigVarChar (int (length s)) (Some (str_bytes s)))"
| "makeParam d (GVarCharMax s) = Inr (mk typeBigVarChar 0 (Some (str_bytes s)))"
| "makeParam d (GNVarCharMax s) = Inr (mk typeNVarChar 0 (Some (str2ucs2 s)))"
| "makeParam d (GNChar s) = Inr (mk typeNChar (int (length (str2ucs2 s))) (Some (str2ucs2 s)))"
| "makeParam d (GDateTime1 t) = Inr (makeDateTime t)"
| "makeParam d (GDateTimeOffset t) = makeTimeOffset t"
| "makeParam d (GCivilDate c) = Inr (let buf = encodeDate (p_date_In d c) in mk typeDateN (int (length buf)) (Some buf))"
| "makeParam d (GCivilDateTime c t) =
     sbind (encodeDateTime2 (p_datetime_In d c t) 7) (\<lambda>buf. Inr (mk_scaled typeDateTime2N 7 (int (length buf)) (Some buf)))"
| "makeParam d (GCivilTime t) =
     (case t of (h, m, s, ns) \<Rightarrow>
        sbind (encodeTime h m s ns 7) (\<lambda>buf. Inr (mk_scaled typeTimeN 7 (int (length buf)) (Some buf))))"
| "makeParam d (GOut v) = sbind (makeParam d v) (\<lambda>p. Inr (p\<lparr>par_Flags := fByRevValue\<rparr>))"
| "makeParam d GUnknown = Inl (Err (ErrMsg ''mssql: unknown type for %T''))"

section \<open>The parameters of a request\<close>

record namedValue =
  nv_Name :: string
  nv_Ordinal :: nat
  nv_Value :: goval
  nv_encrypt :: "(bytes option \<Rightarrow> fault + (bytes \<times> bytes)) option"

fun isOutputValue :: "goval \<Rightarrow> bool" where
  "isOutputValue (GOut _) = True"
| "isOutputValue _ = False"

definition param_name :: "namedValue \<Rightarrow> bool \<Rightarrow> string" where
  "param_name v proc =
     (if nv_Name v \<noteq> [] then CHR ''@'' # nv_Name v
      else if proc then [] else ''@p'' @ show_nat (nv_Ordinal v))"

definition encrypt_param :: "(bytes option \<Rightarrow> fault + (bytes \<times> bytes)) \<Rightarrow> param \<Rightarrow> fault + param" where
  "encrypt_param enc p =
     (case enc (par_buffer p) of
        Inl f \<Rightarrow> Inl f
      | Inr (buf, metadata) \<Rightarrow>
          Inr (p\<lparr>par_tiOriginal := par_ti p, par_Flags := par_Flags p OR fEncrypted, par_cipherInfo := metadata,
                par_ti := (par_ti p)\<lparr>TypeId := typeBigVarBin, Size := 0\<rparr>, par_buffer := Some buf\<rparr>))"

definition makeRPCParam :: "pdeps \<Rightarrow> bool \<Rightarrow> namedValue \<Rightarrow> fault + (param \<times> string)" where
  "makeRPCParam d proc v =
     sbind (makeParam d (nv_Value v)) (\<lambda>p0.
       let p = p0\<lparr>par_Name := param_name v proc\<rparr> in
       sbind (case nv_encrypt v of None \<Rightarrow> Inr p | Some enc \<Rightarrow> encrypt_param enc p) (\<lambda>q.
         sbind (makeDecl (par_ti p)) (\<lambda>decl.
           Inr (q, par_Name p @ '' '' @ decl @ (if isOutputValue (nv_Value v) then '' output'' else [])))))"

text \<open>For a batch the first two parameters are filled in by \<open>sendQuery\<close>.\<close>

fun makeRPCParams :: "pdeps \<Rightarrow> bool \<Rightarrow> namedValue list \<Rightarrow> fault + (param list \<times> string list)" where
  "makeRPCParams d proc [] = Inr ([], [])"
| "makeRPCParams d proc (v # vs) =
     sbind (makeRPCParam d proc v) (\<lambda>(p, decl).
       sbind (makeRPCParams d proc vs) (\<lambda>(ps, decls). Inr (p # ps, decl # decls)))"

section \<open>What the receiver decodes\<close>

text \<open>
  A parameter whose bytes are understood as the value \<open>w\<close>, whether it is sent as an input or as an output parameter, which changes the form of the
  length-word types.
\<close>

definition param_ok :: "dbcs \<Rightarrow> EncodeParameters \<Rightarrow> param \<Rightarrow> val \<Rightarrow> bool" where
  "param_ok db e p w \<longleftrightarrow> sendable (par_ti p) \<and> \<not> isl (makeDecl (par_ti p))
     \<and> (\<forall>out. buffer_fits (par_ti p) out (par_buffer p) \<and> buffer_value db (par_ti p) out e (par_buffer p) = Inr w)"

lemma mk_fields [simp]:
  "par_buffer (mk t n b) = b" "TypeId (par_ti (mk t n b)) = t" "Size (par_ti (mk t n b)) = n" "par_Flags (mk t n b) = 0"
  "Coll (par_ti (mk t n b)) = \<lparr>LcidAndFlags = 0, SortId = 0\<rparr>"
  "par_buffer (mk_scaled t sc n b) = b" "TypeId (par_ti (mk_scaled t sc n b)) = t" "Size (par_ti (mk_scaled t sc n b)) = n"
  "Scale (par_ti (mk_scaled t sc n b)) = sc" "par_Flags (mk_scaled t sc n b) = 0"
  by (simp_all add: mk_def mk_scaled_def param_zero_def typeInfo_zero_def)

lemma received_bytelen:
  assumes "is_bytelen (TypeId ti)" "\<not> is_decimal (TypeId ti)" "0 \<le> Size ti"
  shows "Reader (received ti out) = Some RdByteLen" "TypeId (received ti out) = TypeId ti" "Size (received ti out) = Size ti"
  using assms by (auto simp: received_def Let_def set_size_def kind_defs)

text \<open>A value with a length byte: not NULL, and NULL.\<close>

lemma byte_param_ok:
  assumes "sendable (par_ti p)" "\<not> is_fixed (TypeId (par_ti p))" "\<not> is_shortlen (TypeId (par_ti p))" "TypeId (par_ti p) \<noteq> typeGuid"
    and "par_buffer p = Some xs" "xs \<noteq> []" "length xs \<le> 255" "Size (par_ti p) \<le> 255" "\<not> isl (makeDecl (par_ti p))"
    and "\<And>out. int (length xs) \<le> Size (received (par_ti p) out) \<and> bytelen_value db (received (par_ti p) out) xs e = Inr w"
  shows "param_ok db e p w"
proof -
  have "value_of db (received (par_ti p) out) e xs = Inr w" for out
    using assms(10) [of out] Reader_received(4) [OF assms(1-3), of out] by (simp add: value_of_def)
  with assms show ?thesis by (simp add: param_ok_def buffer_fits_def buffer_value_def obytes_def)
qed

lemma byte_null_ok:
  assumes "sendable (par_ti p)" "\<not> is_fixed (TypeId (par_ti p))" "\<not> is_shortlen (TypeId (par_ti p))" "TypeId (par_ti p) \<noteq> typeGuid"
    and "par_buffer p = Some []" "Size (par_ti p) \<le> 255" "\<not> isl (makeDecl (par_ti p))" "\<And>out. 0 \<le> Size (received (par_ti p) out)"
  shows "param_ok db e p VNil"
  using assms by (simp add: param_ok_def buffer_fits_def buffer_value_def obytes_def)

lemma kind_bytelen_param:
  assumes "t \<in> {typeIntN, typeBitN, typeFltN, typeDateTimeN}"
  shows "is_bytelen t" "\<not> is_decimal t" "\<not> is_fixed t" "t \<noteq> typeGuid" "\<not> is_shortlen t" "\<not> is_scaled_time t" "t \<noteq> typeDateN"
  using assms by (auto simp: kind_defs)

lemma bytelen_ok:
  assumes "t \<in> {typeIntN, typeBitN, typeFltN, typeDateTimeN}" "xs \<noteq> []" "length xs \<le> nat n" "n \<le> 255"
    and "\<And>ti. TypeId ti = t \<Longrightarrow> bytelen_value db ti xs e = Inr w" "\<not> isl (makeDecl (par_ti (mk t n (Some xs))))"
  shows "param_ok db e (mk t n (Some xs)) w"
proof -
  let ?ti = "par_ti (mk t n (Some xs))"
  have "0 < length xs" using assms(2) by simp
  with assms(3,4) have n: "0 \<le> n" "length xs \<le> 255" "int (length xs) \<le> n" by linarith+
  note k = kind_bytelen_param [OF assms(1)]
  note r = received_bytelen [of ?ti, unfolded mk_fields, OF k(1,2) n(1)]
  have "sendable ?ti" using k n assms(4) by (simp add: sendable_def)
  with r n k assms show ?thesis by (intro byte_param_ok [where xs = xs]) simp_all
qed

lemma bytelen_null_ok:
  assumes "t \<in> {typeIntN, typeBitN, typeFltN, typeDateTimeN}" "0 \<le> n" "n \<le> 255" "\<not> isl (makeDecl (par_ti (mk t n (Some []))))"
  shows "param_ok db e (mk t n (Some [])) VNil"
proof -
  let ?ti = "par_ti (mk t n (Some []))"
  note k = kind_bytelen_param [OF assms(1)]
  note r = received_bytelen [of ?ti, unfolded mk_fields, OF k(1,2) assms(2)]
  have "sendable ?ti" using k assms by (simp add: sendable_def)
  with r k assms show ?thesis by (intro byte_null_ok) simp_all
qed

lemma null_ok:
  "param_ok db e (mk typeNull 0 None) VNil" "param_ok db e (mk typeIntN 1 (Some [])) VNil" "param_ok db e (mk typeIntN 2 (Some [])) VNil"
  "param_ok db e (mk typeIntN 4 (Some [])) VNil" "param_ok db e (mk typeIntN 8 (Some [])) VNil" "param_ok db e (mk typeFltN 8 (Some [])) VNil"
  "param_ok db e (mk typeBitN 1 (Some [])) VNil" "param_ok db e (mk typeDateTimeN 8 (Some [])) VNil"
proof -
  have k: "is_fixed typeNull" by (simp add: kind_defs)
  have "Reader (received (par_ti (mk typeNull 0 None)) out) = Some RdFixed" "TypeId (received (par_ti (mk typeNull 0 None)) out) = typeNull" for out
    using k by (simp_all add: received_def set_size_def)
  then show "param_ok db e (mk typeNull 0 None) VNil"
    using k by (simp add: param_ok_def sendable_def buffer_fits_def buffer_value_def value_of_def fixed_value_def obytes_def fixed_size_def makeDecl_def)
qed (rule bytelen_null_ok; simp add: makeDecl_def type_ids)+

lemma intn_ok:
  assumes "length xs \<in> {1, 2, 4, 8}" "intn_value xs = Inr w"
  shows "param_ok db e (mk_intn xs) w"
  unfolding mk_intn_def
proof (rule bytelen_ok)
  show "bytelen_value db ti xs e = Inr w" if "TypeId ti = typeIntN" for ti :: typeInfo
    using assms(2) that by (simp add: bytelen_value_def Let_def type_ids is_decimal_def)
  show "\<not> isl (makeDecl (par_ti (mk typeIntN (int (length xs)) (Some xs))))"
    using assms(1) by (auto simp: makeDecl_def Let_def type_ids)
qed (use assms(1) in auto)

text \<open>The integers: one byte is unsigned for the server.\<close>

lemma Uint64_le: "Uint64 (le_bytes 8 w) = Inr w"
  using le_codec [of 8 w] by (simp add: eval_nat_numeral)

lemma Uint_le: "Uint16 (le_bytes 2 v) = Inr v" "Uint32 (le_bytes 4 w) = Inr w"
  using Uint16_le [of v "[]"] Uint32_le [of w "[]"] by simp_all

lemma sint_of_int:
  "- (2 ^ 15) \<le> v \<Longrightarrow> v < 2 ^ 15 \<Longrightarrow> sint (word_of_int v :: u16) = v"
  "- (2 ^ 31) \<le> v \<Longrightarrow> v < 2 ^ 31 \<Longrightarrow> sint (word_of_int v :: u32) = v"
  "- (2 ^ 63) \<le> v \<Longrightarrow> v < 2 ^ 63 \<Longrightarrow> sint (word_of_int v :: u64) = v"
  by (simp_all add: signed_of_int signed_take_bit_int_eq_self)

definition signed_fits :: "nat \<Rightarrow> int \<Rightarrow> bool" where
  "signed_fits k n \<longleftrightarrow> - (2 ^ k) \<le> n \<and> n < 2 ^ k"

lemma int_ok:
  "param_ok db e (mk_intn [word_of_int v]) (VInt (v mod 256))"
  "signed_fits 15 v \<Longrightarrow> param_ok db e (mk_intn (put16 v)) (VInt v)"
  "signed_fits 31 v \<Longrightarrow> param_ok db e (mk_intn (put32 v)) (VInt v)"
  "signed_fits 63 v \<Longrightarrow> param_ok db e (mk_intn (put64 v)) (VInt v)"
  unfolding signed_fits_def
  by (rule intn_ok; simp add: put16_def put32_def put64_def intn_value_def vmap_def first_byte_def Uint_le Uint64_le sint_of_int
      uint_word_of_int)+

lemma shortlen_ok:
  assumes "t \<in> {typeNVarChar, typeBigVarBin, typeNChar, typeBigVarChar}" "0 \<le> n" "length xs < 2 ^ 31" "0 < n \<and> n \<le> 8000 \<Longrightarrow> int (length xs) = n"
    and "if t = typeBigVarBin then w = VBytes xs
         else if t = typeBigVarChar then w = VStr (decodeChar db \<lparr>LcidAndFlags = 0, SortId = 0\<rparr> xs)
         else decodeNChar xs = Inr s \<and> w = VStr s"
  shows "param_ok db e (mk t n (Some xs)) w"
proof -
  let ?ti = "par_ti (mk t n (Some xs))"
  have k: "is_shortlen t" "\<not> is_fixed t" "t \<noteq> typeGuid" "\<not> is_bytelen t" "\<not> is_scaled_time t" "t \<noteq> typeDateN"
    using assms(1) by (auto simp: kind_defs)
  have c: "has_collation t \<longleftrightarrow> t \<noteq> typeBigVarBin" using assms(1) by (auto simp: kind_defs)
  have p: "as_plp ?ti out \<longleftrightarrow> \<not> (0 < n \<and> n \<le> 8000) \<or> out" for out using assms(2) by (auto simp: as_plp_def)
  have r: "TypeId (received ?ti out) = t" "Coll (received ?ti out) = \<lparr>LcidAndFlags = 0, SortId = 0\<rparr>" 
    "Reader (received ?ti out) = Some (if as_plp ?ti out then RdPLP else RdShortLen)" for out
    using k c by (simp_all add: received_def Let_def set_size_def typeInfo_zero_def)
  have "value_of db (received ?ti out) e xs = Inr w" for out
    using assms(1,5) r [of out] by (auto simp: value_of_def plp_value_def vmap_def type_ids split: if_splits)
  moreover have "sendable ?ti" using k assms(2) by (simp add: sendable_def)
  moreover have "buffer_fits ?ti out (Some xs)" for out using k p assms(3,4) by (auto simp: buffer_fits_def obytes_def Let_def)
  moreover have "\<not> isl (makeDecl ?ti)" using assms(1) by (elim insertE emptyE) (simp_all add: makeDecl_def Let_def type_ids)
  ultimately show ?thesis using k by (simp add: param_ok_def buffer_value_def)
qed

lemma nvarchar_null_ok: "param_ok db e (mk typeNVarChar 8000 None) VNil"
proof -
  have k: "is_shortlen typeNVarChar" by (simp add: kind_defs)
  note k' = kind_shortlen [OF k]
  show ?thesis using k k'
    by (simp add: param_ok_def sendable_def buffer_fits_def buffer_value_def obytes_def) (simp add: makeDecl_def type_ids)
qed

lemma nvarchar_ok:
  assumes "t \<in> {typeNVarChar, typeNChar}" "length (str2ucs2 s) < 2 ^ 31" "n = 0 \<or> n = int (length (str2ucs2 s))"
  shows "param_ok db e (mk t n (Some (str2ucs2 s))) (VStr (sanitized s))"
proof -
  have "decodeNChar (str2ucs2 s) = Inr (sanitized s)"
    using ucs22str_str2ucs2 [of s] assms(2) by (simp add: decodeNChar_def decodeUcs2_def sanitized_def)
  with assms show ?thesis by (intro shortlen_ok) (auto simp: type_ids)
qed

lemma varbinary_ok: "length xs < 2 ^ 31 \<Longrightarrow> param_ok db e (mk typeBigVarBin (int (length xs)) (Some xs)) (VBytes xs)"
  by (rule shortlen_ok) (auto simp: type_ids)

lemma varchar_ok:
  "length xs < 2 ^ 31 \<Longrightarrow> n = 0 \<or> n = int (length xs) \<Longrightarrow>
   param_ok db e (mk typeBigVarChar n (Some xs)) (VStr (decodeChar db \<lparr>LcidAndFlags = 0, SortId = 0\<rparr> xs))"
  by (rule shortlen_ok) (auto simp: type_ids)

lemma guid_ok: "length xs = 16 \<Longrightarrow> param_ok db e (mk typeGuid 16 (Some xs)) (VBytes xs)"
  using kind_single(1) by (auto simp: param_ok_def sendable_def buffer_fits_def buffer_value_def obytes_def makeDecl_def type_ids)

lemma flt_ok:
  "param_ok db e (mk typeFltN 8 (Some (le_bytes 8 (w :: u64)))) (VFlt8 w)"
  "param_ok db e (mk typeFltN 4 (Some (le_bytes 4 (w' :: u32)))) (VFlt4 w')"
proof -
  have ne: "le_bytes 8 w \<noteq> []" "le_bytes 4 w' \<noteq> []" by (simp_all flip: length_0_conv)
  show "param_ok db e (mk typeFltN 8 (Some (le_bytes 8 w))) (VFlt8 w)"
    by (rule bytelen_ok) (simp_all add: ne bytelen_value_def Let_def type_ids is_decimal_def vmap_def Uint64_le makeDecl_def)
  show "param_ok db e (mk typeFltN 4 (Some (le_bytes 4 w'))) (VFlt4 w')"
    by (rule bytelen_ok) (simp_all add: ne bytelen_value_def Let_def type_ids is_decimal_def vmap_def Uint_le makeDecl_def)
qed

lemma bit_ok: "param_ok db e (mk typeBitN 1 (Some [if b then 1 else 0])) (VBool b)"
proof (rule bytelen_ok)
  show "\<not> isl (makeDecl (par_ti (mk typeBitN 1 (Some [if b then 1 else 0]))))" by (simp add: makeDecl_def type_ids)
qed (auto simp: bytelen_value_def Let_def type_ids is_decimal_def vmap_def first_byte_def)

lemmas bit_values_ok = bit_ok [where b = True, simplified] bit_ok [where b = False, simplified]

lemma byte_ok: "param_ok db e (mk typeIntN 1 (Some [b])) (VInt (uint b))"
  using intn_ok [of "[b]"] by (simp add: mk_intn_def intn_value_def vmap_def first_byte_def)

text \<open>Dates and times: the ranges of \<open>datetimeoffset\<close>, of \<open>datetime2\<close> and \<open>date\<close>, of \<open>datetime\<close> (from 1753 to the day before the last of 9999, whose times may be rounded up beyond it) and of a time of day.\<close>

definition time_fits :: "time \<Rightarrow> bool" where
  "time_fits t \<longleftrightarrow> time_ok t \<and> 0 \<le> instant t \<and> instant t < 3652059 * day_ns \<and> 60 dvd t_zone t \<and> \<bar>t_zone t\<bar> < 60 * 2 ^ 15"

definition date_fits :: "time \<Rightarrow> bool" where
  "date_fits t \<longleftrightarrow> time_ok t \<and> 0 \<le> t_day t \<and> t_day t \<le> 3652058"

definition datetime_fits :: "time \<Rightarrow> bool" where
  "datetime_fits t \<longleftrightarrow> time_ok t \<and> 639905 \<le> t_day t \<and> t_day t < 3652058"

fun clock_fits :: "civil_time \<Rightarrow> bool" where
  "clock_fits (h, m, s, ns) \<longleftrightarrow> 0 \<le> h \<and> h < 24 \<and> 0 \<le> m \<and> m < 60 \<and> 0 \<le> s \<and> s < 60 \<and> 0 \<le> ns \<and> ns < 10 ^ 9"

fun clock_ns :: "civil_time \<Rightarrow> int" where
  "clock_ns (h, m, s, ns) = (h * 3600 + m * 60 + s) * 10 ^ 9 + ns"

lemma length_encodeDateTimeOffset: "encodeDateTimeOffset t 7 = Inr buf \<Longrightarrow> length buf = 10"
  by (auto simp: encodeDateTimeOffset_def encodeTimeInt_def Let_def calcTimeSize_def split: prod.splits)

lemma length_encodeDateTime2: "encodeDateTime2 t 7 = Inr buf \<Longrightarrow> length buf = 8"
  by (auto simp: encodeDateTime2_def encodeTimeInt_def Let_def calcTimeSize_def split: prod.splits)

lemma kind_scaled_param:
  assumes "t \<in> {typeTimeN, typeDateTime2N, typeDateTimeOffsetN}"
  shows "is_scaled_time t" "\<not> is_fixed t" "\<not> is_shortlen t" "t \<noteq> typeGuid" "t \<noteq> typeDateN" "sendable (par_ti (mk_scaled t 7 n buf))"
  using assms by (auto simp: kind_defs sendable_def)

lemma received_scaled:
  assumes "t \<in> {typeTimeN, typeDateTime2N, typeDateTimeOffsetN}"
  shows "TypeId (received (par_ti (mk_scaled t 7 n buf)) out) = t" "Scale (received (par_ti (mk_scaled t 7 n buf)) out) = 7"
    "Size (received (par_ti (mk_scaled t 7 n buf)) out) = (if t = typeTimeN then 5 else if t = typeDateTime2N then 8 else 10)"
  using kind_scaled_param [OF assms] assms by (auto simp: received_def Let_def set_size_def calcTimeSize_def type_ids)

lemma scaled_ok:
  assumes "t \<in> {typeTimeN, typeDateTime2N, typeDateTimeOffsetN}" "n = int (length buf)"
    and "length buf = (if t = typeTimeN then 5 else if t = typeDateTime2N then 8 else 10)"
    and "\<And>ti. TypeId ti = t \<Longrightarrow> Scale ti = 7 \<Longrightarrow> bytelen_value db ti buf e = Inr w"
  shows "param_ok db e (mk_scaled t 7 n (Some buf)) w"
proof -
  have "\<not> isl (makeDecl (par_ti (mk_scaled t 7 n (Some buf))))"
    using assms(1) by (elim insertE emptyE) (simp_all add: makeDecl_def Let_def type_ids)
  moreover have "buf \<noteq> []" "length buf \<le> 255" using assms(3) by (auto split: if_splits)
  ultimately show ?thesis
    using kind_scaled_param [OF assms(1)] received_scaled [OF assms(1)] assms(2-4) by (intro byte_param_ok [where xs = buf]) simp_all
qed

lemma scaled_null_ok:
  assumes "t \<in> {typeTimeN, typeDateTime2N, typeDateTimeOffsetN}" "n \<le> 255"
  shows "param_ok db e (mk_scaled t 7 n (Some [])) VNil"
proof -
  have "\<not> isl (makeDecl (par_ti (mk_scaled t 7 n (Some []))))"
    using assms(1) by (elim insertE emptyE) (simp_all add: makeDecl_def Let_def type_ids)
  then show ?thesis using kind_scaled_param [OF assms(1)] received_scaled [OF assms(1)] assms(2) by (intro byte_null_ok) simp_all
qed

lemma offset_ok:
  assumes "time_fits t"
  shows "\<exists>p. makeTimeOffset t = Inr p \<and> param_ok db e p (VTime (cut 7 t)) \<and> par_Flags p = 0"
proof -
  from assms obtain buf where b: "encodeDateTimeOffset t 7 = Inr buf" "decodeDateTimeOffset 7 buf = Inr (cut 7 t)"
    using decodeDateTimeOffset_encode [of t 7] by (auto simp: time_fits_def)
  have "param_ok db e (mk_scaled typeDateTimeOffsetN 7 (int (length buf)) (Some buf)) (VTime (cut 7 t))"
    by (rule scaled_ok) (use length_encodeDateTimeOffset [OF b(1)] b(2) in \<open>simp_all add: bytelen_value_def Let_def vmap_def type_ids\<close>)
  with b(1) show ?thesis by (simp add: makeTimeOffset_def)
qed

lemma datetime_ok: "datetime_fits t \<Longrightarrow> param_ok db e (makeDateTime t) (VTime (nearest_tick t (GetTimezone e)))"
proof -
  assume t: "datetime_fits t"
  have l: "length (encodeDateTime t) = 8" by (simp add: encodeDateTime_def Let_def split: prod.splits)
  have d: "decodeDateTime (encodeDateTime t) (GetTimezone e) = Inr (nearest_tick t (GetTimezone e))"
    using t by (intro decodeDateTime_encode) (auto simp: datetime_fits_def)
  have "encodeDateTime t \<noteq> []" using l by auto
  with l d show ?thesis
    unfolding makeDateTime_def Let_def
    by (intro bytelen_ok) (simp_all add: bytelen_value_def Let_def vmap_def type_ids is_decimal_def makeDecl_def)
qed

lemma kind_dateN: "\<not> is_fixed typeDateN" "\<not> is_shortlen typeDateN" "typeDateN \<noteq> typeGuid"
  by (simp_all add: kind_defs)

lemma date_received: "sendable (par_ti (mk typeDateN n buf))" "TypeId (received (par_ti (mk typeDateN n buf)) out) = typeDateN"
  "Size (received (par_ti (mk typeDateN n buf)) out) = 3" "\<not> isl (makeDecl (par_ti (mk typeDateN n buf)))"
  using kind_dateN by (simp_all add: sendable_def received_def set_size_def makeDecl_def type_ids)

lemma date_ok:
  assumes "date_fits t"
  shows "param_ok db e (mk typeDateN (int (length (encodeDate t))) (Some (encodeDate t))) (VTime \<lparr>t_day = t_day t, t_ns = 0, t_zone = GetTimezone e\<rparr>)"
proof -
  have l: "length (encodeDate t) = 3" by (simp add: encodeDate_def)
  then have ne: "encodeDate t \<noteq> []" by auto
  have d: "decodeDate (encodeDate t) (GetTimezone e) = Inr \<lparr>t_day = t_day t, t_ns = 0, t_zone = GetTimezone e\<rparr>"
    using assms by (intro decodeDate_encode) (simp_all add: date_fits_def)
  show ?thesis
    by (rule byte_param_ok [where xs = "encodeDate t"])
      (use l ne d kind_dateN date_received in \<open>simp_all add: bytelen_value_def Let_def vmap_def\<close>)
qed

lemma date_null_ok: "param_ok db e (mk typeDateN 3 (Some [])) VNil"
  by (rule byte_null_ok) (use kind_dateN date_received in simp_all)

lemma datetime2_ok:
  assumes "date_fits t"
  shows "\<exists>buf. encodeDateTime2 t 7 = Inr buf
     \<and> param_ok db e (mk_scaled typeDateTime2N 7 (int (length buf)) (Some buf)) (VTime ((cut 7 t)\<lparr>t_zone := GetTimezone e\<rparr>))"
proof -
  from assms obtain buf where b: "encodeDateTime2 t 7 = Inr buf" "decodeDateTime2 7 buf (GetTimezone e) = Inr ((cut 7 t)\<lparr>t_zone := GetTimezone e\<rparr>)"
    using decodeDateTime2_encode [of t 7 "GetTimezone e"] by (auto simp: date_fits_def)
  have "param_ok db e (mk_scaled typeDateTime2N 7 (int (length buf)) (Some buf)) (VTime ((cut 7 t)\<lparr>t_zone := GetTimezone e\<rparr>))"
    by (rule scaled_ok) (use length_encodeDateTime2 [OF b(1)] b(2) in \<open>simp_all add: bytelen_value_def Let_def vmap_def type_ids\<close>)
  with b(1) show ?thesis by blast
qed

lemma clock_ok:
  assumes "clock_fits (h, m, s, ns)"
  shows "\<exists>buf. encodeTime h m s ns 7 = Inr buf
     \<and> param_ok db e (mk_scaled typeTimeN 7 (int (length buf)) (Some buf))
         (VTime (cut 7 \<lparr>t_day = 0, t_ns = clock_ns (h, m, s, ns), t_zone = GetTimezone e\<rparr>))"
proof -
  from assms obtain buf where b: "encodeTime h m s ns 7 = Inr buf" "length buf = calcTimeSize 7"
    "decodeTime 7 buf (GetTimezone e) = cut 7 \<lparr>t_day = 0, t_ns = clock_ns (h, m, s, ns), t_zone = GetTimezone e\<rparr>"
    using decodeTime_encode [of h m s ns 7 _ "GetTimezone e"] by auto
  have "param_ok db e (mk_scaled typeTimeN 7 (int (length buf)) (Some buf))
      (VTime (cut 7 \<lparr>t_day = 0, t_ns = clock_ns (h, m, s, ns), t_zone = GetTimezone e\<rparr>))"
    by (rule scaled_ok) (use b(2,3) in \<open>simp_all add: bytelen_value_def Let_def type_ids calcTimeSize_def\<close>)
  with b(1) show ?thesis by blast
qed

text \<open>
  \<open>sent_as d db e v\<close>: what the receiver finds for the value \<open>v\<close> of the application. Strings arrive with
  invalid UTF-8 replaced; the bytes of a \<open>VarChar\<close> are decoded by the character set of the collation 0; times are cut to 100 nanoseconds, or
  rounded to 1/300 second where \<open>datetime\<close> is used (\<open>DateTime1\<close>, and \<open>time.Time\<close> below TDS 7.3); civil values arrive in the reader's location; and a
  negative \<open>int8\<close> arrives as its byte, because \<open>tinyint\<close> is unsigned. It is \<open>None\<close> for values that are refused (unknown types, valid civil \<open>Null\<close> types,
  failing valuers), for those beyond the range of their type, and for the \<open>NullUniqueIdentifier\<close> that is not valid.
\<close>

definition provided :: "bool \<Rightarrow> val \<Rightarrow> val option" where
  "provided b w = (if b then Some w else None)"

lemma provided_Some [simp]: "provided b w = Some w' \<longleftrightarrow> b \<and> w = w'"
  by (simp add: provided_def)

fun value_sent_as :: "pdeps \<Rightarrow> EncodeParameters \<Rightarrow> dvalue \<Rightarrow> val option" where
  "value_sent_as d e DNil = Some VNil"
| "value_sent_as d e (DInt64 n) = provided (signed_fits 63 n) (VInt n)"
| "value_sent_as d e (DFloat64 w) = Some (VFlt8 w)"
| "value_sent_as d e (DBool b) = Some (VBool b)"
| "value_sent_as d e (DBytes xs) = provided (length xs < 2 ^ 31) (VBytes xs)"
| "value_sent_as d e (DString s) = provided (length (str2ucs2 s) < 2 ^ 31) (VStr (sanitized s))"
| "value_sent_as d e (DTime t) =
     (if verTDS73 \<le> p_TDSVersion d then provided (time_fits t) (VTime (cut 7 t))
      else provided (datetime_fits t) (VTime (nearest_tick t (GetTimezone e))))"

definition valuer_sent_as :: "pdeps \<Rightarrow> EncodeParameters \<Rightarrow> nat \<Rightarrow> val option" where
  "valuer_sent_as d e i = (case p_convert d i of Inl _ \<Rightarrow> None | Inr v \<Rightarrow> value_sent_as d e v)"

definition null_or :: "('a \<Rightarrow> val option) \<Rightarrow> 'a option \<Rightarrow> val option" where
  "null_or f v = (case v of None \<Rightarrow> Some VNil | Some x \<Rightarrow> f x)"

fun sent_as :: "pdeps \<Rightarrow> dbcs \<Rightarrow> EncodeParameters \<Rightarrow> goval \<Rightarrow> val option" where
  "sent_as d db e GNil = Some VNil"
| "sent_as d db e (GInt n) = provided (signed_fits (if p_int32 d then 31 else 63) n) (VInt n)"
| "sent_as d db e (GInt8 n) = Some (VInt (n mod 256))"
| "sent_as d db e (GInt16 n) = provided (signed_fits 15 n) (VInt n)"
| "sent_as d db e (GInt32 n) = provided (signed_fits 31 n) (VInt n)"
| "sent_as d db e (GInt64 n) = provided (signed_fits 63 n) (VInt n)"
| "sent_as d db e (GByte b) = Some (VInt (uint b))"
| "sent_as d db e (GFloat64 w) = Some (VFlt8 w)"
| "sent_as d db e (GFloat32 w) = Some (VFlt4 w)"
| "sent_as d db e (GBytes xs) = provided (length xs < 2 ^ 31) (VBytes xs)"
| "sent_as d db e (GString s) = provided (length (str2ucs2 s) < 2 ^ 31) (VStr (sanitized s))"
| "sent_as d db e (GBool b) = Some (VBool b)"
| "sent_as d db e (GTime t) = value_sent_as d e (DTime t)"
| "sent_as d db e (GUniqueIdentifier u) = provided (length u = 16) (VBytes (Unique_Identifier.Value u))"
| "sent_as d db e (GNullUniqueIdentifier v) =
     (case v of None \<Rightarrow> None | Some u \<Rightarrow> provided (length u = 16) (VBytes (Unique_Identifier.Value u)))"
| "sent_as d db e (GNullByte v) = null_or (\<lambda>b. Some (VInt (uint b))) v"
| "sent_as d db e (GNullInt16 v) = null_or (\<lambda>n. provided (signed_fits 15 n) (VInt n)) v"
| "sent_as d db e (GNullInt32 v) = null_or (\<lambda>n. provided (signed_fits 31 n) (VInt n)) v"
| "sent_as d db e (GNullInt64 v) = null_or (\<lambda>n. value_sent_as d e (DInt64 n)) v"
| "sent_as d db e (GNullFloat64 v) = null_or (\<lambda>w. value_sent_as d e (DFloat64 w)) v"
| "sent_as d db e (GNullString v) = null_or (\<lambda>s. value_sent_as d e (DString s)) v"
| "sent_as d db e (GNullBool v) = null_or (\<lambda>b. value_sent_as d e (DBool b)) v"
| "sent_as d db e (GNullTime v) = null_or (\<lambda>t. value_sent_as d e (DTime t)) v"
| "sent_as d db e (GNullDecimal v) = null_or (valuer_sent_as d e) v"
| "sent_as d db e (GNullMoney v) = null_or (valuer_sent_as d e) v"
| "sent_as d db e (GNullDate v) = null_or (\<lambda>_. None) v"
| "sent_as d db e (GNullDateTime v) = null_or (\<lambda>_. None) v"
| "sent_as d db e (GNullCivilTime v) = null_or (\<lambda>_. None) v"
| "sent_as d db e (GValuer i) = valuer_sent_as d e i"
| "sent_as d db e (GVarChar s) = provided (length s < 2 ^ 31) (VStr (decodeChar db \<lparr>LcidAndFlags = 0, SortId = 0\<rparr> (str_bytes s)))"
| "sent_as d db e (GVarCharMax s) = provided (length s < 2 ^ 31) (VStr (decodeChar db \<lparr>LcidAndFlags = 0, SortId = 0\<rparr> (str_bytes s)))"
| "sent_as d db e (GNVarCharMax s) = provided (length (str2ucs2 s) < 2 ^ 31) (VStr (sanitized s))"
| "sent_as d db e (GNChar s) = provided (length (str2ucs2 s) < 2 ^ 31) (VStr (sanitized s))"
| "sent_as d db e (GDateTime1 t) = provided (datetime_fits t) (VTime (nearest_tick t (GetTimezone e)))"
| "sent_as d db e (GDateTimeOffset t) = provided (time_fits t) (VTime (cut 7 t))"
| "sent_as d db e (GCivilDate c) =
     provided (date_fits (p_date_In d c)) (VTime \<lparr>t_day = t_day (p_date_In d c), t_ns = 0, t_zone = GetTimezone e\<rparr>)"
| "sent_as d db e (GCivilDateTime c t) =
     provided (date_fits (p_datetime_In d c t)) (VTime ((cut 7 (p_datetime_In d c t))\<lparr>t_zone := GetTimezone e\<rparr>))"
| "sent_as d db e (GCivilTime t) =
     provided (clock_fits t) (VTime (cut 7 \<lparr>t_day = 0, t_ns = clock_ns t, t_zone = GetTimezone e\<rparr>))"
| "sent_as d db e (GOut v) = sent_as d db e v"
| "sent_as d db e GUnknown = None"

lemma makeStrParam_ok:
  "length (str2ucs2 s) < 2 ^ 31 \<Longrightarrow> param_ok db e (makeStrParam s) (VStr (sanitized s))" "par_Flags (makeStrParam s) = 0"
  by (simp_all add: makeStrParam_def Let_def nvarchar_ok)

lemma Flags_mk [simp]: "par_Flags (mk_intn xs) = 0" "par_Flags (makeDateTime t) = 0"
  by (simp_all add: mk_intn_def makeDateTime_def Let_def)

lemmas params_ok = int_ok byte_ok flt_ok bit_ok bit_values_ok varbinary_ok varchar_ok guid_ok nvarchar_ok nvarchar_null_ok null_ok makeStrParam_ok
  datetime_ok date_ok date_null_ok scaled_null_ok

lemma length_Value: "length u = 16 \<Longrightarrow> length (Unique_Identifier.Value u) = 16"
  by (simp add: Unique_Identifier.Value_def swap_groups_def)

lemma makeValue_sent:
  "value_sent_as d e v = Some w \<Longrightarrow> \<exists>p. makeValue d v = Inr p \<and> param_ok db e p w \<and> par_Flags p = 0"
  by (cases v) (auto simp: params_ok makeTime_def offset_ok split: if_splits)

lemma makeValuer_sent:
  "valuer_sent_as d e i = Some w \<Longrightarrow> \<exists>p. makeValuer d i = Inr p \<and> param_ok db e p w \<and> par_Flags p = 0"
  using makeValue_sent by (auto simp: valuer_sent_as_def makeValuer_def split: sum.splits)

lemma null_or_Some: "null_or f v = Some w \<longleftrightarrow> v = None \<and> w = VNil \<or> (\<exists>x. v = Some x \<and> f x = Some w)"
  by (auto simp: null_or_def split: option.splits)

lemma param_ok_Flags [simp]: "param_ok db e (p\<lparr>par_Flags := f\<rparr>) w = param_ok db e p w" "param_ok db e (p\<lparr>par_Name := n\<rparr>) w = param_ok db e p w"
  by (simp_all add: param_ok_def)

lemma makeParam_sent:
  "sent_as d db e v = Some w \<Longrightarrow> \<exists>p. makeParam d v = Inr p \<and> param_ok db e p w \<and> par_Flags p = (if isOutputValue v then fByRevValue else 0)"
proof (induction v)
  case (GTime t)
  then show ?case using makeValue_sent [of d e "DTime t" w db] by simp
next
  case (GCivilDateTime c t)
  then show ?case using datetime2_ok [of "p_datetime_In d c t" db e] by auto
next
  case (GCivilTime t)
  obtain h m s ns where t: "t = (h, m, s, ns)" by (cases t)
  with GCivilTime have c: "clock_fits (h, m, s, ns)" "w = VTime (cut 7 \<lparr>t_day = 0, t_ns = clock_ns (h, m, s, ns), t_zone = GetTimezone e\<rparr>)"
    by (simp_all del: clock_fits.simps clock_ns.simps)
  from clock_ok [OF c(1), of db e] show ?case by (auto simp: t c(2) simp del: clock_ns.simps)
qed (auto simp: params_ok Let_def null_or_Some makeValue_sent makeValuer_sent offset_ok length_Value split: option.splits if_splits simp del: makeValue.simps value_sent_as.simps)

section \<open>The parameter section of a request\<close>

text \<open>A receiver: name, flags, type information and value of every parameter.\<close>

definition read_param :: "dbcs \<Rightarrow> EncodeParameters \<Rightarrow> (tdsBuffer, string \<times> byte \<times> val) go" where
  "read_param db e =
     gbind r_BVarChar (\<lambda>name. gbind r_byte (\<lambda>flags. gbind (gbind r_byte readTypeInfo) (\<lambda>ti.
       gbind (read_value db ti False e) (\<lambda>v. gret (name, flags, v)))))"

primrec read_params :: "dbcs \<Rightarrow> EncodeParameters \<Rightarrow> nat \<Rightarrow> (tdsBuffer, (string \<times> byte \<times> val) list) go" where
  "read_params db e 0 = gret []"
| "read_params db e (Suc n) = gbind (read_param db e) (\<lambda>p. gbind (read_params db e n) (\<lambda>ps. gret (p # ps)))"

definition is_out :: "param \<Rightarrow> bool" where
  "is_out p \<longleftrightarrow> par_Flags p AND fByRevValue \<noteq> 0"

definition param_bytes :: "EncodeParameters \<Rightarrow> param \<Rightarrow> bytes" where
  "param_bytes e p = bvarchar (par_Name p) @ [par_Flags p] @ typeinfo_bytes (par_ti p) (is_out p) @ buffer_bytes (par_ti p) (is_out p) e (par_buffer p)"

definition param_sent :: "dbcs \<Rightarrow> EncodeParameters \<Rightarrow> param \<Rightarrow> string \<times> byte \<times> val \<Rightarrow> bool" where
  "param_sent db e p = (\<lambda>(name, flags, w). param_ok db e p w \<and> name = sanitized (par_Name p) \<and> flags = par_Flags p
     \<and> flags \<in> {0, fByRevValue} \<and> utf16_len (par_Name p) \<le> 0xFF)"

context byte_sink
begin

lemma emits_param_value:
  assumes "param_ok db e p w"
  shows "emits (writeTypeInfo wr (par_ti p) (par_Flags p AND fByRevValue \<noteq> 0)) (typeinfo_bytes (par_ti p) (is_out p))
      ((par_ti p)\<lparr>Writer := Some (sent_writer (par_ti p) (is_out p))\<rparr>)"
    "emits (write_value wr ((par_ti p)\<lparr>Writer := Some (sent_writer (par_ti p) (is_out p))\<rparr>) (par_buffer p) e)
      (buffer_bytes (par_ti p) (is_out p) e (par_buffer p)) ()"
proof -
  let ?ti = "(par_ti p)\<lparr>Writer := Some (sent_writer (par_ti p) (is_out p))\<rparr>"
  have s: "sendable ?ti" "buffer_fits ?ti (is_out p) (par_buffer p)" "Writer ?ti = Some (sent_writer ?ti (is_out p))"
    "buffer_bytes ?ti (is_out p) e (par_buffer p) = buffer_bytes (par_ti p) (is_out p) e (par_buffer p)" "sendable (par_ti p)"
    using assms by (simp_all add: Writer_irrelevant param_ok_def)
  show "emits (write_value wr ?ti (par_buffer p) e) (buffer_bytes (par_ti p) (is_out p) e (par_buffer p)) ()"
    using emits_buffer [OF s(1-3), of e] s(4) by simp
  show "emits (writeTypeInfo wr (par_ti p) (par_Flags p AND fByRevValue \<noteq> 0)) (typeinfo_bytes (par_ti p) (is_out p)) ?ti"
    using emits_TypeInfo [OF s(5), of "is_out p"] by (simp add: is_out_def)
qed

lemma emits_then_nil: "emits m [] () \<Longrightarrow> emits k ys y \<Longrightarrow> emits (gthen m k) ys y"
  using emits_then [of m "[]"] by force

lemma emits_params: "list_all2 (param_sent db e) ps rs \<Longrightarrow> emits (write_params wr e ps) (concat (map (param_bytes e) ps)) ()"
proof (induction rule: list_all2_induct)
  case Nil
  then show ?case by (simp add: emits_ret)
next
  case (Cons p ps r rs)
  then obtain w where p: "param_ok db e p w" "par_Flags p \<in> {0, fByRevValue}" "utf16_len (par_Name p) \<le> 0xFF"
    by (cases r) (auto simp: param_sent_def)
  have f: "par_Flags p AND fEncrypted = 0" using p(2) by (auto simp: fEncrypted_def fByRevValue_def)
  have m: "emits (write_params wr e (p # ps)) (bvarchar (par_Name p) @ [par_Flags p] @ typeinfo_bytes (par_ti p) (is_out p)
      @ buffer_bytes (par_ti p) (is_out p) e (par_buffer p) @ concat (map (param_bytes e) ps)) ()"
    unfolding write_params.simps
    by (rule emits_then, rule emits_BVarChar [OF p(3)], rule emits_then, rule emits_byte, rule emits_bind,
        rule emits_param_value(1) [OF p(1)], rule emits_then, rule emits_param_value(2) [OF p(1)], rule emits_then_nil)
      (use f Cons in \<open>simp_all add: emits_ret fEncrypted_def\<close>)
  have b: "concat (map (param_bytes e) (p # ps)) = bvarchar (par_Name p) @ [par_Flags p] @ typeinfo_bytes (par_ti p) (is_out p)
      @ buffer_bytes (par_ti p) (is_out p) e (par_buffer p) @ concat (map (param_bytes e) ps)"
    by (simp add: param_bytes_def [of e p])
  show ?case unfolding b by (rule m)
qed

end

lemma reads_param: "param_sent db e p r \<Longrightarrow> reads (read_param db e) (param_bytes e p) r"
proof -
  assume "param_sent db e p r"
  then obtain w where p: "r = (sanitized (par_Name p), par_Flags p, w)" "utf16_len (par_Name p) \<le> 0xFF"
    "sendable (par_ti p)" "buffer_fits (par_ti p) (is_out p) (par_buffer p)" "buffer_value db (par_ti p) (is_out p) e (par_buffer p) = Inr w"
    by (cases r) (auto simp: param_sent_def param_ok_def)
  show ?thesis unfolding read_param_def param_bytes_def p(1)
    by (rule reads_bind, rule reads_BVarChar_or [OF p(2)], rule reads_bind [OF reads_byte], rule reads_bind,
        rule reads_TypeInfo [OF p(3)], rule reads_bind_nil, rule reads_buffer [OF p(3-5)], rule reads_ret)
qed

lemma reads_params:
  "list_all2 (param_sent db e) ps rs \<Longrightarrow> reads (read_params db e (length ps)) (concat (map (param_bytes e) ps)) rs"
proof (induction rule: list_all2_induct)
  case Nil
  then show ?case by (simp add: reads_ret)
next
  case (Cons p ps r rs)
  then show ?case by (simp, intro reads_bind [OF reads_param] reads_bind_nil [OF Cons.IH]) (auto simp: reads_ret)
qed

text \<open>What is received for one argument: its name, its flags and its value.\<close>

definition received_param :: "bool \<Rightarrow> namedValue \<Rightarrow> val \<Rightarrow> string \<times> byte \<times> val" where
  "received_param proc v w = (sanitized (param_name v proc), if isOutputValue (nv_Value v) then fByRevValue else 0, w)"

lemma makeRPCParams_sent:
  assumes "list_all2 (\<lambda>v w. sent_as d db e (nv_Value v) = Some w) args ws"
    and "\<forall>v \<in> set args. nv_encrypt v = None \<and> utf16_len (param_name v proc) \<le> 0xFF"
  shows "\<exists>ps decls. makeRPCParams d proc args = Inr (ps, decls) \<and> length decls = length args
     \<and> list_all2 (param_sent db e) ps (map2 (received_param proc) args ws)"
  using assms
proof (induction rule: list_all2_induct)
  case (Cons v vs w ws)
  from makeParam_sent [OF Cons(1)] obtain p where p: "makeParam d (nv_Value v) = Inr p" "param_ok db e p w"
    "par_Flags p = (if isOutputValue (nv_Value v) then fByRevValue else 0)" by blast
  let ?q = "p\<lparr>par_Name := param_name v proc\<rparr>"
  from p(2) obtain decl where "makeDecl (par_ti p) = Inr decl" by (cases "makeDecl (par_ti p)") (auto simp: param_ok_def)
  with p(1) Cons(4) have "\<exists>s. makeRPCParam d proc v = Inr (?q, s)" by (simp add: makeRPCParam_def)
  moreover have "param_sent db e ?q (received_param proc v w)" using p Cons(4) by (simp add: param_sent_def received_param_def)
  ultimately show ?case using Cons(3,4) by auto
qed simp

section \<open>Theorem\<close>

text \<open>
  C9. The parameters of a request arrive: for arguments of every type \<open>makeParam\<close> and \<open>makeParamExtra\<close> accept but the table-valued ones and money output
  parameters (integers, floating-point numbers, booleans, byte slices, strings, \<open>VarChar\<close> and the other string types,
  unique identifiers, times, the civil dates and times, the nullable types of them and valuers; NULL of each of them but the unique identifier; input and output parameters)
  \<open>makeRPCParams\<close> builds one parameter and one declaration per argument, writing them succeeds, and
  a receiver that reads name, flags, type information and value of each gets the names
  (\<open>@name\<close>, or \<open>@pN\<close>, or none for a procedure), the by-reference flag of exactly the output parameters and the values of \<open>sent_as\<close>, in their order.
  \<open>sent_as\<close> says where the value is not the one that was passed: invalid UTF-8 is replaced, times are cut or rounded to the resolution of their type, and a negative \<open>int8\<close> arrives as its
  byte. It has no value for a NULL unique identifier, whose bytes are not understood (\<open>null_guid_stray_bytes\<close>), for arguments
  beyond the range of their type and for those the driver refuses. Encrypted parameters, nil byte slices and names of more than 255 UTF-16 units are not covered.
\<close>

theorem rpc_params_roundtrip:
  assumes "list_all2 (\<lambda>v w. sent_as d db e (nv_Value v) = Some w) args ws"
    and "\<forall>v \<in> set args. nv_encrypt v = None \<and> utf16_len (param_name v proc) \<le> 0xFF"
  shows "\<exists>ps decls out. makeRPCParams d proc args = Inr (ps, decls) \<and> length decls = length args
     \<and> write_params buffer_write e ps [] = (Inr (), out)
     \<and> reads (read_params db e (length args)) out (map2 (received_param proc) args ws)"
proof -
  from makeRPCParams_sent [OF assms] obtain ps decls where
    p: "makeRPCParams d proc args = Inr (ps, decls)" "length decls = length args"
    "list_all2 (param_sent db e) ps (map2 (received_param proc) args ws)" by blast
  have l: "length ps = length args" using list_all2_lengthD [OF p(3)] list_all2_lengthD [OF assms(1)] by simp
  from bytes_buffer.emitsD [OF bytes_buffer.emits_params [OF p(3)] refl, of "[]"]
  have "write_params buffer_write e ps [] = (Inr (), concat (map (param_bytes e) ps))" by auto
  with p l reads_params [OF p(3)] show ?thesis by auto
qed

definition ex_pdeps :: pdeps where
  "ex_pdeps = \<lparr>p_convert = (\<lambda>_. Inl EOF), p_date_In = (\<lambda>_. \<lparr>t_day = 0, t_ns = 0, t_zone = 0\<rparr>),
     p_datetime_In = (\<lambda>_ _. \<lparr>t_day = 0, t_ns = 0, t_zone = 0\<rparr>), p_int32 = False, p_TDSVersion = verTDS74\<rparr>"

definition ex_args :: "namedValue list" where
  "ex_args = [\<lparr>nv_Name = ''n'', nv_Ordinal = 1, nv_Value = GOut (GInt64 (-7)), nv_encrypt = None\<rparr>,
              \<lparr>nv_Name = [], nv_Ordinal = 2, nv_Value = GNullString None, nv_encrypt = None\<rparr>]"

theorem rpc_params_roundtrip_witness:
  "\<exists>ps decls out. makeRPCParams ex_pdeps False ex_args = Inr (ps, decls) \<and> write_params buffer_write \<lparr>Timezone = None, GuidConversion = False\<rparr> ps [] = (Inr (), out)
     \<and> reads (read_params (\<lambda>_ _. None) \<lparr>Timezone = None, GuidConversion = False\<rparr> 2) out [(''@n'', fByRevValue, VInt (-7)), (''@p2'', 0, VNil)]"
proof -
  let ?e = "\<lparr>Timezone = None, GuidConversion = False\<rparr>" and ?db = "\<lambda>_ _. None"
  have n: "map (\<lambda>v. param_name v False) ex_args = [''@n'', ''@p2'']" "\<forall>v \<in> set ex_args. nv_encrypt v = None" by code_simp+
  have as: "list_all (\<lambda>c. code c < 128) ''@n''" "list_all (\<lambda>c. code c < 128) ''@p2''" by (simp_all add: code_def)
  have u: "utf16_len ''@n'' \<le> 0xFF" "utf16_len ''@p2'' \<le> 0xFF" "sanitized ''@n'' = ''@n''" "sanitized ''@p2'' = ''@p2''"
    using as by (simp_all add: utf16_len_def runes_ascii_string sanitized_valid valid_ascii code_def)
  have a: "list_all2 (\<lambda>v w. sent_as ex_pdeps ?db ?e (nv_Value v) = Some w) ex_args [VInt (-7), VNil]"
    by (simp add: ex_args_def null_or_def signed_fits_def)
  have "\<forall>v \<in> set ex_args. utf16_len (param_name v False) \<le> 0xFF" using n(1) u by (simp add: ex_args_def)
  with rpc_params_roundtrip [OF a, of False] n u show ?thesis
    by (auto simp: ex_args_def received_param_def numeral_2_eq_2)
qed

end
