(* ===== verification/Tds_Progress.thy ===== *)
theory Tds_Progress
  imports Tds_Types
begin

text \<open>
  Termination of everything that reads from a \<open>tdsBuffer\<close>, whatever bytes the peer sends and in
  whatever state the buffer is. A reader makes progress: every successful call takes bytes off the
  connection or off the packet at hand. From this one fact (the locale
  \<open>progress_reader\<close>) it follows that the loops of \<open>io.ReadFull\<close>, \<open>io.CopyN\<close> and of
  the string and value readers return.
\<close>

section \<open>Computations that return\<close>

named_theorems tame_intro

text \<open>A computation that returns and does not increase a measure; one that decreases it on success.\<close>

definition tame :: "('s \<Rightarrow> nat) \<Rightarrow> ('s, 'a) go \<Rightarrow> bool" where
  "tame f m \<longleftrightarrow> (\<forall>s x s'. m s = (x, s') \<longrightarrow> x \<noteq> Inl Diverges \<and> f s' \<le> f s)"

definition live :: "('s \<Rightarrow> nat) \<Rightarrow> ('s, 'a) go \<Rightarrow> bool" where
  "live f m \<longleftrightarrow> tame f m \<and> (\<forall>s x s'. m s = (Inr x, s') \<longrightarrow> f s' < f s)"

lemma tameD: "tame f m \<Longrightarrow> m s = (x, s') \<Longrightarrow> x \<noteq> Inl Diverges \<and> f s' \<le> f s"
  by (simp add: tame_def)

lemma live_tame: "live f m \<Longrightarrow> tame f m"
  by (simp add: live_def)

lemma liveD: "live f m \<Longrightarrow> m s = (Inr x, s') \<Longrightarrow> f s' < f s"
  by (simp add: live_def)

lemma tame_ret [tame_intro]: "tame f (gret x)"
  by (simp add: tame_def gret_run)

lemma tame_raise [tame_intro]: "e \<noteq> Diverges \<Longrightarrow> tame f (graise e)"
  by (simp add: tame_def graise_run)

lemma tame_bind [tame_intro]: "tame f m \<Longrightarrow> (\<And>x. tame f (k x)) \<Longrightarrow> tame f (gbind m k)"
  by (fastforce simp: tame_def gbind_def split: prod.splits sum.splits intro: le_trans)

lemma tame_then [tame_intro]: "tame f m \<Longrightarrow> tame f k \<Longrightarrow> tame f (gthen m k)"
  by (simp add: gthen_def tame_bind)

lemma tame_if [tame_intro]: "(c \<Longrightarrow> tame f a) \<Longrightarrow> (\<not> c \<Longrightarrow> tame f b) \<Longrightarrow> tame f (if c then a else b)"
  by simp

lemma tame_or_panic [tame_intro]: "tame f m \<Longrightarrow> tame f (or_panic m)"
  by (fastforce simp: tame_def or_panic_def split: prod.splits sum.splits fault.splits)

lemma tame_glift [tame_intro]: "tame f (glift r)"
  by (auto simp: glift_def tame_def gret_run graise_run split: sum.splits)

lemma tame_gfault [tame_intro]: "r \<noteq> Inl Diverges \<Longrightarrow> tame f (gfault r)"
  by (auto simp: gfault_def tame_def gret_run graise_run split: sum.splits)

lemma tame_state [tame_intro]: "(\<And>s. f (g s) = f s) \<Longrightarrow> tame f (\<lambda>s. (Inr (h s), g s))"
  by (simp add: tame_def)

lemma live_bind: "live f m \<Longrightarrow> (\<And>x. tame f (k x)) \<Longrightarrow> live f (gbind m k)"
  unfolding live_def
  by (fastforce simp: tame_def gbind_def split: prod.splits sum.splits dest: le_less_trans intro: le_trans)

lemma live_or_panic: "live f m \<Longrightarrow> live f (or_panic m)"
  unfolding live_def
  by (fastforce simp: tame_def or_panic_def split: prod.splits sum.splits fault.splits)

section \<open>Readers that make progress\<close>

locale progress_reader =
  fixes rd :: "'s reader" and meas :: "'s \<Rightarrow> nat"
  assumes progress: "0 < n \<Longrightarrow> live meas (rd n)"
begin

lemma fill_returns:
  "\<exists>acc' e s'. io_fill rd n acc s = Some ((acc', e), s') \<and> e \<noteq> Some Diverges \<and> meas s' \<le> meas s
     \<and> (length acc < n \<and> e = None \<longrightarrow> meas s' < meas s)"
proof (induction "meas s" arbitrary: s acc rule: less_induct)
  case less
  show ?case
  proof (cases "n \<le> length acc")
    case True
    then show ?thesis by (simp add: io_fill.simps)
  next
    case False
    then have n: "0 < n - length acc" by simp
    show ?thesis
    proof (cases "rd (n - length acc) s")
      case (Pair x s1)
      have t: "x \<noteq> Inl Diverges" "meas s1 \<le> meas s"
        using tameD [OF live_tame [OF progress [OF n]] Pair] by auto
      show ?thesis
      proof (cases x)
        case (Inl e)
        with Pair t False show ?thesis by (auto simp: io_fill.simps [of rd n acc])
      next
        case (Inr bs)
        with Pair liveD [OF progress [OF n]] have lt: "meas s1 < meas s" by auto
        from less.hyps [OF lt, of "acc @ bs"] obtain acc' e s' where
          "io_fill rd n (acc @ bs) s1 = Some ((acc', e), s')" "e \<noteq> Some Diverges" "meas s' \<le> meas s1" by blast
        with Pair Inr False lt show ?thesis by (auto simp: io_fill.simps [of rd n acc])
      qed
    qed
  qed
qed

lemma ReadFull_live: "0 < n \<Longrightarrow> live meas (io_ReadFull rd n)"
  unfolding live_def tame_def io_ReadFull_def
  using fill_returns [of n "[]"]
  by (auto simp: short_read_def split: option.splits prod.splits) (metis (no_types) option.inject prod.inject)+

lemma ReadFull_tame [tame_intro]: "tame meas (io_ReadFull rd n)"
proof (cases "n = 0")
  case True
  then show ?thesis by (simp add: tame_def io_ReadFull_def io_fill.simps)
qed (simp add: ReadFull_live live_tame)

lemma CopyN_tame [tame_intro]: "tame meas (io_CopyN rd n)"
  unfolding tame_def io_CopyN_def
  using fill_returns [of n "[]"]
  by (auto split: option.splits prod.splits) (metis (no_types) option.inject prod.inject)+

lemma binary_Read_live: "0 < n \<Longrightarrow> live meas (binary_Read rd n)"
  unfolding binary_Read_def by (intro live_bind ReadFull_live tame_intro)

lemma readByte_live: "live meas (readByte rd)"
  unfolding readByte_def by (intro live_bind progress tame_intro) simp

lemma readUshort_live: "live meas (readUshort rd)"
  unfolding readUshort_def by (intro binary_Read_live) simp

lemma readUcs2_tame [tame_intro]: "tame meas (readUcs2 rd n)"
  unfolding readUcs2_def by (intro tame_intro)

lemma strings_tame [tame_intro]:
  "tame meas (readUsVarChar rd)" "tame meas (readBVarChar rd)" "tame meas (readBVarByte rd)"
  unfolding readUsVarChar_def readBVarChar_def readBVarByte_def
  by (intro tame_intro readByte_live [THEN live_tame] readUshort_live [THEN live_tame])+

end

text \<open>A limited reader on top makes progress too.\<close>

context progress_reader
begin

lemma limited_progress: "progress_reader (limited_read rd) (\<lambda>p. meas (snd p))"
proof
  fix n :: nat assume "0 < n"
  have l: "live meas (rd (min n (nat N)))" if "0 < N" for N
    using that \<open>0 < n\<close> by (simp add: progress)
  have "x \<noteq> Inl Diverges \<and> meas (snd s') \<le> meas (snd s) \<and> (\<forall>y. x = Inr y \<longrightarrow> meas (snd s') < meas (snd s))"
    if run: "limited_read rd n s = (x, s')" for s x s'
  proof (cases "0 < fst s")
    case True
    then show ?thesis using l [OF True] run
      by (cases "rd (min n (nat (fst s))) (snd s)")
        (auto simp: limited_read_def live_def tame_def split: prod.splits sum.splits)
  next
    case False
    with run show ?thesis by (auto simp: limited_read_def split: prod.splits)
  qed
  then show "live (\<lambda>p. meas (snd p)) (limited_read rd n)"
    unfolding live_def tame_def by blast
qed

end

section \<open>The buffer makes progress\<close>

definition left :: "tdsBuffer \<Rightarrow> nat" where
  "left r = length (t_in (transport r)) * (length (bufmem r) + 1) + (length (bufmem r) - (roff r + rpos r))"

lemma read_rbuf_frame:
  assumes "read_rbuf lo hi r = (x, r')"
  shows "x \<noteq> Inl Diverges" "length (bufmem r') = length (bufmem r)" "roff r' = roff r" "rpos r' = rpos r"
    "length (t_in (transport r')) \<le> length (t_in (transport r))"
    "x = Inr () \<Longrightarrow> length (t_in (transport r')) + (hi - lo) = length (t_in (transport r))"
  using assms
  by (auto simp: read_rbuf_def conn_fill short_read_def put_at_def split: if_splits)

lemma left_packet:
  assumes "length (bufmem r') = length (bufmem r)" "length (t_in (transport r')) < length (t_in (transport r))"
  shows "left r' < left r"
proof -
  have "Suc (length (t_in (transport r'))) * (length (bufmem r) + 1)
      \<le> length (t_in (transport r)) * (length (bufmem r) + 1)"
    using assms(2) by (intro mult_le_mono1) simp
  then show ?thesis using assms(1) by (simp add: left_def)
qed

lemma left_same:
  "length (bufmem r') = length (bufmem r) \<Longrightarrow> length (t_in (transport r')) \<le> length (t_in (transport r)) \<Longrightarrow>
   roff r' = roff r \<Longrightarrow> rpos r' = rpos r \<Longrightarrow> left r' \<le> left r"
  unfolding left_def by (simp only:) (intro add_mono mult_le_mono1 order_refl)

lemma readNextPacket_frame:
  assumes "readNextPacket r = (x, r')"
  shows "x \<noteq> Inl Diverges" "length (bufmem r') = length (bufmem r)" "roff r' = roff r" "left r' \<le> left r"
    "x = Inr () \<Longrightarrow> left r' < left r"
proof -
  obtain y r1 where 1: "read_rbuf 0 headerSize r = (y, r1)" by fastforce
  note f1 = read_rbuf_frame [OF 1]
  define h where "h = packet_header r1"
  obtain z r2 where 2: "read_rbuf headerSize (unat (h_Size h)) r1 = (z, r2)" by fastforce
  note f2 = read_rbuf_frame [OF 2]
  have l1: "left r1 \<le> left r" and l2: "left r2 \<le> left r1"
    using f1 f2 by (simp_all add: left_same)
  have t1: "y = Inr () \<Longrightarrow> length (t_in (transport r2)) < length (t_in (transport r))"
    using f1(6) f2(5) by (simp add: headerSize_def)
  define r3 where "r3 = r2\<lparr>rpos := headerSize, rsize := unat (h_Size h),
                    final := (h_Status h \<noteq> 0), rPacketType := h_PacketType h\<rparr>"
  have c: "x \<noteq> Inl Diverges \<and> (r' = r1 \<or> r' = r2 \<or> r' = r3 \<and> y = Inr ()) \<and> (x = Inr () \<longrightarrow> y = Inr () \<and> r' = r3)"
  proof (cases y)
    case (Inl e)
    with assms 1 f1 show ?thesis by (auto simp: readNextPacket_def gthen_def)
  next
    case (Inr u)
    with assms 1 2 f2(1) show ?thesis
      by (cases z) (auto simp: readNextPacket_def gthen_def Let_def r3_def simp flip: h_def split: if_splits)
  qed
  have r3: "length (bufmem r3) = length (bufmem r)" "roff r3 = roff r" "transport r3 = transport r2"
    using f1 f2 by (simp_all add: r3_def)
  with c f1 f2 show "x \<noteq> Inl Diverges" "length (bufmem r') = length (bufmem r)" "roff r' = roff r" by auto
  show "x = Inr () \<Longrightarrow> left r' < left r" using c t1 r3 left_packet [of r' r] by auto
  show "left r' \<le> left r"
    using c t1 r3 l1 l2 left_packet [of r' r] by auto
qed

lemma ensure_packet_frame:
  assumes "ensure_packet r = (x, r')"
  shows "x \<noteq> Inl Diverges" "length (bufmem r') = length (bufmem r)" "left r' \<le> left r"
    "x = Inr () \<Longrightarrow> left r' < left r \<or> r' = r \<and> rpos r \<noteq> rsize r"
proof -
  have c: "x = Inl (Err EOF) \<and> r' = r \<or> readNextPacket r = (x, r') \<or> x = Inr () \<and> r' = r \<and> rpos r \<noteq> rsize r"
    using assms unfolding ensure_packet_def by (metis prod.inject)
  then show "x \<noteq> Inl Diverges" "length (bufmem r') = length (bufmem r)" "left r' \<le> left r"
    using readNextPacket_frame [of r x r'] by fastforce+
  show "x = Inr () \<Longrightarrow> left r' < left r \<or> r' = r \<and> rpos r \<noteq> rsize r"
    using c readNextPacket_frame(5) [of r x r'] by fastforce
qed

lemma left_step:
  "0 < k \<Longrightarrow> roff r + rpos r + k \<le> length (bufmem r) \<Longrightarrow> left (r\<lparr>rpos := rpos r + k\<rparr>) < left r"
  "left (r\<lparr>rpos := rpos r + k\<rparr>) \<le> left r"
  by (auto simp: left_def)

interpretation tdsp: progress_reader Read left
proof
  fix n :: nat assume n: "0 < n"
  have "x \<noteq> Inl Diverges \<and> left r' \<le> left r \<and> (\<forall>bs. x = Inr bs \<longrightarrow> left r' < left r)"
    if run: "Read n r = (x, r')" for r x r'
  proof -
    obtain y r1 where 1: "ensure_packet r = (y, r1)" by fastforce
    note f1 = ensure_packet_frame [OF 1]
    show ?thesis
    proof (cases y)
      case (Inl e)
      with 1 run f1 show ?thesis by (auto simp: Read_def gthen_def)
    next
      case (Inr u)
      let ?k = "min n (rsize r1 - rpos r1)"
      show ?thesis
      proof (cases "rsize r1 < rpos r1 \<or> length (bufmem r1) < roff r1 + rsize r1")
        case True
        with 1 Inr run f1 show ?thesis by (auto simp: Read_def gthen_def)
      next
        case False
        with 1 Inr run have r': "r' = r1\<lparr>rpos := rpos r1 + ?k\<rparr>" "x \<noteq> Inl Diverges"
          by (auto simp: Read_def gthen_def Let_def)
        have "left r' < left r"
          using f1(4) Inr left_step [where k = ?k and r = r1] False n unfolding r' by fastforce
        then show ?thesis using r' by auto
      qed
    qed
  qed
  then show "live left (Read n)" unfolding live_def tame_def by blast
qed

lemma ReadByte_live: "live left ReadByte"
proof -
  have "x \<noteq> Inl Diverges \<and> left r' \<le> left r \<and> (\<forall>bs. x = Inr bs \<longrightarrow> left r' < left r)"
    if run: "ReadByte r = (x, r')" for r x r'
  proof -
    obtain y r1 where 1: "ensure_packet r = (y, r1)" by fastforce
    note f1 = ensure_packet_frame [OF 1]
    show ?thesis
      using 1 run f1 left_step [where k = 1 and r = r1] 
      by (cases y) (auto simp: ReadByte_def gthen_def split: if_splits)
  qed
  then show ?thesis unfolding live_def tame_def by blast
qed

lemma r_byte_live: "live left r_byte"
  unfolding r_byte_def by (intro live_or_panic ReadByte_live)

lemma r_ReadFull_tame [tame_intro]: "tame left (r_ReadFull n)"
  unfolding r_ReadFull_def by (intro tame_intro tdsp.ReadFull_tame)

lemma r_uint_live:
  assumes "0 < n" shows "live left (r_uint n)"
proof -
  let ?slow = "gbind (r_ReadFull n) (\<lambda>buf. gret (le_word buf))"
  have slow: "live left ?slow"
    unfolding r_ReadFull_def by (intro live_bind live_or_panic tdsp.ReadFull_live assms tame_intro)
  have "x \<noteq> Inl Diverges \<and> left r' \<le> left r \<and> (\<forall>y. x = Inr y \<longrightarrow> left r' < left r)"
    if run: "r_uint n r = (x, r')" for r r' and x :: "fault + 'a word"
  proof (cases "rsize r \<le> rpos r + (n - 1)")
    case True
    with run have "?slow r = (x, r')" by (simp add: r_uint_def)
    then show ?thesis using tameD [OF live_tame [OF slow]] liveD [OF slow] by blast
  next
    case False
    with run left_step [where k = n and r = r] assms show ?thesis by (auto simp: r_uint_def split: if_splits)
  qed
  then show ?thesis unfolding live_def tame_def by blast
qed

lemma r_uints_live: "live left r_uint16" "live left r_uint32" "live left r_uint64" "live left r_int32"
  unfolding r_uint16_def r_uint32_def r_uint64_def r_int32_def
  by (intro live_bind r_uint_live tame_intro; simp)+

lemmas [tame_intro] = r_byte_live [THEN live_tame] r_uints_live [THEN live_tame]
  tdsp.ReadFull_tame tdsp.CopyN_tame tdsp.strings_tame

section \<open>Values and type information\<close>

named_theorems clean

lemma sbind_clean [clean]:
  "r \<noteq> Inl Diverges \<Longrightarrow> (\<And>x. f x \<noteq> Inl Diverges) \<Longrightarrow> sbind r f \<noteq> Inl Diverges"
  by (cases r) simp_all

lemma basic_clean [clean]: "Inr x \<noteq> Inl Diverges" "Inl (RuntimePanic m) \<noteq> Inl Diverges"
  "Inl (StreamPanicf m) \<noteq> Inl Diverges"
  by simp_all

lemma if_clean [clean]:
  "(c \<Longrightarrow> a \<noteq> Inl Diverges) \<Longrightarrow> (\<not> c \<Longrightarrow> b \<noteq> Inl Diverges) \<Longrightarrow> (if c then a else b) \<noteq> Inl Diverges"
  by simp

lemma vmap_clean [clean]: "r \<noteq> Inl Diverges \<Longrightarrow> vmap f r \<noteq> Inl Diverges"
  unfolding vmap_def by (intro clean)

lemma ints_clean [clean]:
  "decodeDateInt buf \<noteq> Inl Diverges" "Uint16 buf \<noteq> Inl Diverges" "Uint32 buf \<noteq> Inl Diverges" "Uint64 buf \<noteq> Inl Diverges"
  "first_byte buf \<noteq> Inl Diverges"
  by (auto simp: first_byte_def split: list.splits elim: decodeDateInt.elims Uint16.elims Uint32.elims Uint64.elims)

lemma dates_clean [clean]:
  "decodeDateTim4 buf loc \<noteq> Inl Diverges" "decodeDateTime buf loc \<noteq> Inl Diverges"
  "decodeDate buf loc \<noteq> Inl Diverges" "decodeDateTime2 sc buf loc \<noteq> Inl Diverges"
  "decodeDateTimeOffset sc buf \<noteq> Inl Diverges"
  unfolding decodeDateTim4_def decodeDateTime_def decodeDate_def decodeDateTime2_def
    decodeDateTimeOffset_def Let_def split_def
  by (intro clean)+

lemma numbers_clean [clean]:
  "decodeMoney4 buf \<noteq> Inl Diverges" "decodeMoney buf \<noteq> Inl Diverges" "decodeDecimal pr sc buf \<noteq> Inl Diverges"
proof -
  have sb: "ScaleBytes s k \<noteq> Inl Diverges" for s k
    by (auto simp: ScaleBytes_def Let_def split: list.splits)
  have si: "set_integers i bs d \<noteq> Inl Diverges" for i bs d
    by (induction i bs d rule: set_integers.induct) (auto simp: SetInteger_def)
  show "decodeMoney4 buf \<noteq> Inl Diverges" unfolding decodeMoney4_def by (intro clean sb)
  show "decodeMoney buf \<noteq> Inl Diverges" by (cases buf rule: decodeMoney.cases) (simp_all add: sb)
  show "decodeDecimal pr sc buf \<noteq> Inl Diverges"
    unfolding decodeDecimal_def Decimal_Bytes_def by (cases buf) (simp_all, intro clean sb si)
qed

lemma texts_clean [clean]: "decodeNChar buf \<noteq> Inl Diverges" "decodeXml buf \<noteq> Inl Diverges"
  by (auto simp: decodeNChar_def decodeXml_def decodeUcs2_def split: sum.splits)

lemma values_clean [clean]:
  "fixed_value t buf loc \<noteq> Inl Diverges" "intn_value buf \<noteq> Inl Diverges"
  "bytelen_value db ti buf encoding \<noteq> Inl Diverges" "plp_value db ti buf \<noteq> Inl Diverges"
  "scale_size sc \<noteq> Inl Diverges"
  unfolding fixed_value_def intn_value_def bytelen_value_def plp_value_def scale_size_def Let_def
  by (intro clean)+

lemma plp_returns: "\<exists>x r'. plp_loop buf r = Some (x, r') \<and> x \<noteq> Inl Diverges \<and> left r' \<le> left r"
proof (induction "left r" arbitrary: buf r rule: less_induct)
  case less
  obtain y r1 where 1: "r_uint32 r = (y, r1)" by fastforce
  have t: "y \<noteq> Inl Diverges" "left r1 \<le> left r" using tameD [OF live_tame [OF r_uints_live(2)] 1] by auto
  show ?case
  proof (cases y)
    case (Inl e)
    with 1 t show ?thesis by (auto simp: plp_loop.simps)
  next
    case (Inr n)
    then have lt: "left r1 < left r" using liveD [OF r_uints_live(2)] 1 by blast
    obtain z r2 where 2: "io_CopyN Read (unat n) r1 = (z, r2)" by fastforce
    have t2: "z \<noteq> Inl Diverges" "left r2 \<le> left r1" using tameD [OF tdsp.CopyN_tame 2] by auto
    show ?thesis
    proof (cases z)
      case (Inl f)
      with 1 2 t2 lt Inr show ?thesis by (cases f) (auto simp: plp_loop.simps)
    next
      case (Inr bs)
      with lt t2 less.hyps [of r2 "buf @ bs"] obtain x r' where
        "plp_loop (buf @ bs) r2 = Some (x, r')" "x \<noteq> Inl Diverges" "left r' \<le> left r2" by auto
      with 1 2 Inr lt t2 \<open>y = Inr n\<close> show ?thesis by (auto simp: plp_loop.simps [of buf])
    qed
  qed
qed

lemma readPLP_tame [tame_intro]: "tame left readPLP"
proof -
  have "x \<noteq> Inl Diverges \<and> left r' \<le> left r" if "readPLP r = (x, r')" for x r r'
    using that plp_returns [of "[]" r] by (auto simp: readPLP_def)
  then show ?thesis by (auto simp: tame_def)
qed

lemma state_tame [tame_intro]: "tame f (\<lambda>r. (Inr (g r), r))"
  by (simp add: tame_def)

lemma r_strings_tame [tame_intro]: "tame left r_BVarChar" "tame left r_UsVarChar"
  unfolding r_BVarChar_def r_UsVarChar_def by (intro tame_intro)+

lemma collation_tame [tame_intro]: "tame left readCollation"
  unfolding readCollation_def by (intro tame_intro)

lemma skip_tame [tame_intro]: "tame left (skip_UsVarChars n)"
  by (induction n) (auto intro!: tame_intro)

lemma xml_udt_tame [tame_intro]: "tame left readXmlInfo" "tame left readUdtInfo"
  unfolding readXmlInfo_def readUdtInfo_def by (intro tame_intro)+

lemma read_make_tame [tame_intro]: "tame left (read_make n)" "tame left (read_into ti k)"
  unfolding read_make_def read_into_def by (intro tame_intro; simp)+

lemma readVarLen_tame [tame_intro]: "tame left (readVarLen ti)"
  unfolding readVarLen_def Let_def by (intro tame_intro clean) simp_all

lemma readTypeInfo_tame [tame_intro]: "tame left (readTypeInfo t)"
  unfolding readTypeInfo_def Let_def by (intro tame_intro)

lemma value_readers_tame [tame_intro]:
  "tame left (readFixedType ti e)" "tame left (readByteLenTypeWithEncoding db ti c e)"
  "tame left (readShortLenType db ti c)" "tame left (readLongLenType db ti)"
  "tame left (readVariantTypeWithEncoding db e)"
  unfolding readFixedType_def readByteLenTypeWithEncoding_def readShortLenType_def readLongLenType_def
    readVariantTypeWithEncoding_def Let_def
  by (intro tame_intro clean; simp)+

lemma readPLPType_tame [tame_intro]: "tame left (readPLPType db ti c)"
proof (cases c)
  case True
  then show ?thesis using values_clean(4)
    by (auto simp: readPLPType_def tame_def gfault_def gret_run graise_run split: sum.splits)
next
  case False
  then show ?thesis unfolding readPLPType_def by (simp only: if_False) (intro tame_intro clean)
qed

lemma read_value_tame [tame_intro]: "tame left (read_value db ti c e)"
  unfolding read_value_def by (cases "Reader ti" rule: option.exhaust) (auto split: rdr.splits intro!: tame_intro)

end
