(* ===== verification/Cell_Encryption.thy ===== *)
theory Cell_Encryption
  imports Ucs2
begin

text \<open>
  Cell encryption, \<open>src/internal/github.com/swisscom/mssql-always-encrypted/pkg\<close>: the keys
  derived from a column encryption key, CBC mode with PKCS5 padding, and the authenticated
  encryption \<open>AEAD_AES_256_CBC_HMAC_SHA256\<close> of a value. The primitives are arguments:
  \<open>hmac input key\<close> is HMAC-SHA-256 and \<open>E key block\<close>, \<open>D key block\<close> are the
  AES block functions; the mode of operation is written out.
\<close>

unbundle bit_operations_syntax

section \<open>Keys\<close>

definition ConvertUTF16ToLittleEndianBytes :: "u16 list \<Rightarrow> bytes" where
  "ConvertUTF16ToLittleEndianBytes u = concat (map (le_bytes 2) u)"

definition ProcessUTF16LE :: "string \<Rightarrow> bytes" where
  "ProcessUTF16LE s = ConvertUTF16ToLittleEndianBytes (utf16_Encode (runes s))"

record AeadAes256CbcHmac256 =
  rootKey :: bytes
  encryptionKey :: bytes
  macKey :: bytes
  ivKey :: bytes

definition key_salt :: "string \<Rightarrow> bytes" where
  "key_salt kind = ProcessUTF16LE (''Microsoft SQL Server cell '' @ kind
     @ '' key with encryption algorithm:AEAD_AES_256_CBC_HMAC_SHA256 and key length:256'')"

definition NewAeadAes256CbcHmac256 :: "(bytes \<Rightarrow> bytes \<Rightarrow> bytes) \<Rightarrow> bytes \<Rightarrow> AeadAes256CbcHmac256" where
  "NewAeadAes256CbcHmac256 hmac root =
     \<lparr>rootKey = root, encryptionKey = hmac (key_salt ''encryption'') root,
      macKey = hmac (key_salt ''MAC'') root, ivKey = hmac (key_salt ''IV'') root\<rparr>"

section \<open>CBC mode with PKCS5 padding\<close>

definition block_size :: nat where "block_size = 16"

definition PKCS5Padding :: "bytes \<Rightarrow> nat \<Rightarrow> bytes" where
  "PKCS5Padding inArr blockSize =
     (let padding = blockSize - length inArr mod blockSize
      in inArr @ replicate padding (word_of_nat padding))"

definition PKCS5Trim :: "bytes \<Rightarrow> fault + bytes" where
  "PKCS5Trim inArr =
     (if inArr = [] then Inl (RuntimePanic ''index out of range'')
      else let padding = unat (last inArr) in
        if length inArr < padding then Inl (RuntimePanic ''slice bounds out of range'')
        else Inr (take (length inArr - padding) inArr))"

definition xor_bytes :: "bytes \<Rightarrow> bytes \<Rightarrow> bytes" where
  "xor_bytes xs ys = map2 (XOR) xs ys"

text \<open>\<open>CryptBlocks\<close> of \<open>cipher.NewCBCEncrypter\<close> and \<open>cipher.NewCBCDecrypter\<close>.\<close>

function cbc_encrypt :: "(bytes \<Rightarrow> bytes) \<Rightarrow> bytes \<Rightarrow> bytes \<Rightarrow> bytes" where
  "cbc_encrypt E iv xs =
     (if xs = [] then []
      else let c = E (xor_bytes (take block_size xs) iv) in c @ cbc_encrypt E c (drop block_size xs))"
  by pat_completeness auto
termination
  by (relation "measure (\<lambda>(E, iv, xs). length xs)") (auto simp: block_size_def)

function cbc_decrypt :: "(bytes \<Rightarrow> bytes) \<Rightarrow> bytes \<Rightarrow> bytes \<Rightarrow> bytes" where
  "cbc_decrypt D iv xs =
     (if xs = [] then []
      else xor_bytes (D (take block_size xs)) iv @ cbc_decrypt D (take block_size xs) (drop block_size xs))"
  by pat_completeness auto
termination
  by (relation "measure (\<lambda>(D, iv, xs). length xs)") (auto simp: block_size_def)

declare cbc_encrypt.simps [simp del] cbc_decrypt.simps [simp del]

record AESCbcPKCS5 =
  aes_key :: bytes
  aes_iv :: bytes

text \<open>\<open>aes.NewCipher\<close> accepts keys of 16, 24 or 32 bytes.\<close>

definition NewAESCbcPKCS5 :: "bytes \<Rightarrow> bytes \<Rightarrow> fault + AESCbcPKCS5" where
  "NewAESCbcPKCS5 key iv =
     (if length key \<in> {16, 24, 32} then Inr \<lparr>aes_key = key, aes_iv = iv\<rparr>
      else Inl (RuntimePanic ''unable to create cipher: %v''))"

definition AES_Encrypt :: "(bytes \<Rightarrow> bytes \<Rightarrow> bytes) \<Rightarrow> AESCbcPKCS5 \<Rightarrow> bytes \<Rightarrow> fault + bytes" where
  "AES_Encrypt E a cleartext =
     (if length (aes_iv a) \<noteq> block_size then Inl (RuntimePanic ''cipher.NewCBCEncrypter: IV length must equal block size'')
      else Inr (cbc_encrypt (E (aes_key a)) (aes_iv a) (PKCS5Padding cleartext block_size)))"

definition AES_Decrypt :: "(bytes \<Rightarrow> bytes \<Rightarrow> bytes) \<Rightarrow> AESCbcPKCS5 \<Rightarrow> bytes \<Rightarrow> fault + bytes" where
  "AES_Decrypt D a ciphertext =
     (if length (aes_iv a) \<noteq> block_size then Inl (RuntimePanic ''cipher.NewCBCDecrypter: IV length must equal block size'')
      else if length ciphertext mod block_size \<noteq> 0 then Inl (RuntimePanic ''crypto/cipher: input not full blocks'')
      else PKCS5Trim (cbc_decrypt (D (aes_key a)) (aes_iv a) ciphertext))"

section \<open>Authenticated encryption\<close>

record enc_type =
  Deterministic :: bool
  enc_Value :: byte

definition From :: "byte \<Rightarrow> enc_type" where
  "From encType =
     (if encType = 1 then \<lparr>Deterministic = True, enc_Value = 1\<rparr>
      else if encType = 2 then \<lparr>Deterministic = False, enc_Value = 2\<rparr>
      else \<lparr>Deterministic = False, enc_Value = 0\<rparr>)"

record AeadAlgorithm =
  algorithmVersion :: byte
  deterministic :: bool
  cek :: AeadAes256CbcHmac256
  versionSize :: bytes

definition keySizeBytes :: nat where "keySizeBytes = 32"
definition minimumCipherTextLength :: nat where
  "minimumCipherTextLength = 1 + 2 * block_size + keySizeBytes"

definition NewAeadAlgorithm :: "AeadAes256CbcHmac256 \<Rightarrow> enc_type \<Rightarrow> byte \<Rightarrow> AeadAlgorithm" where
  "NewAeadAlgorithm key encType version =
     \<lparr>algorithmVersion = version, deterministic = Deterministic encType, cek = key, versionSize = [1]\<rparr>"

definition prepareAuthTag :: "(bytes \<Rightarrow> bytes \<Rightarrow> bytes) \<Rightarrow> AeadAlgorithm \<Rightarrow> bytes \<Rightarrow> bytes \<Rightarrow> bytes" where
  "prepareAuthTag hmac a iv ciphertext =
     hmac (algorithmVersion a # iv @ ciphertext @ versionSize a) (macKey (cek a))"

text \<open>\<open>rnd\<close>: what \<open>rand.Read\<close> gives; its error is a panic.\<close>

definition Encrypt ::
    "(bytes \<Rightarrow> bytes \<Rightarrow> bytes) \<Rightarrow> (bytes \<Rightarrow> bytes \<Rightarrow> bytes) \<Rightarrow> (fault + bytes) \<Rightarrow> AeadAlgorithm \<Rightarrow> bytes \<Rightarrow> fault + bytes" where
  "Encrypt hmac E rnd a cleartext =
     sbind (if deterministic a then Inr (take block_size (hmac cleartext (ivKey (cek a)))) else rnd) (\<lambda>iv.
     sbind (NewAESCbcPKCS5 (encryptionKey (cek a)) iv) (\<lambda>aes.
     sbind (AES_Encrypt E aes cleartext) (\<lambda>ciphertext.
       Inr (algorithmVersion a # prepareAuthTag hmac a iv ciphertext @ iv @ ciphertext))))"

definition Decrypt ::
    "(bytes \<Rightarrow> bytes \<Rightarrow> bytes) \<Rightarrow> (bytes \<Rightarrow> bytes \<Rightarrow> bytes) \<Rightarrow> AeadAlgorithm \<Rightarrow> bytes \<Rightarrow> fault + bytes" where
  "Decrypt hmac D a ciphertext =
     (if length ciphertext < minimumCipherTextLength
      then Inl (Err (ErrMsg ''invalid ciphertext length: at least %v bytes expected''))
      else if hd ciphertext \<noteq> algorithmVersion a
      then Inl (Err (ErrMsg ''invalid algorithm version used: %v found but %v expected''))
      else let authTag = take keySizeBytes (drop 1 ciphertext);
               iv = take block_size (drop (1 + keySizeBytes) ciphertext);
               realCiphertext = drop (1 + keySizeBytes + block_size) ciphertext
           in if prepareAuthTag hmac a iv realCiphertext \<noteq> authTag
              then Inl (Err (ErrMsg ''invalid auth tag''))
              else sbind (NewAESCbcPKCS5 (encryptionKey (cek a)) iv) (\<lambda>aes.
                     AES_Decrypt D aes realCiphertext))"

section \<open>Round trip\<close>

text \<open>What the driver relies on of the primitives.\<close>

definition block_cipher :: "(bytes \<Rightarrow> bytes \<Rightarrow> bytes) \<Rightarrow> (bytes \<Rightarrow> bytes \<Rightarrow> bytes) \<Rightarrow> bool" where
  "block_cipher E D \<longleftrightarrow> (\<forall>k b. length b = block_size \<longrightarrow> length (E k b) = block_size \<and> D k (E k b) = b)"

definition mac256 :: "(bytes \<Rightarrow> bytes \<Rightarrow> bytes) \<Rightarrow> bool" where
  "mac256 hmac \<longleftrightarrow> (\<forall>x k. length (hmac x k) = keySizeBytes)"

lemma xor_bytes_cancel: "length xs = length ys \<Longrightarrow> xor_bytes (xor_bytes xs ys) ys = xs"
  by (induction xs ys rule: list_induct2) (simp_all add: xor_bytes_def xor.assoc)

lemma length_xor_bytes [simp]: "length (xor_bytes xs ys) = min (length xs) (length ys)"
  by (simp add: xor_bytes_def)

lemma cbc_roundtrip:
  assumes "block_cipher E D" "length iv = block_size" "length xs mod block_size = 0"
  shows "cbc_decrypt (D k) iv (cbc_encrypt (E k) iv xs) = xs
     \<and> length (cbc_encrypt (E k) iv xs) = length xs"
  using assms(2,3)
proof (induction "E k" iv xs rule: cbc_encrypt.induct)
  case (1 iv xs)
  show ?case
  proof (cases "xs = []")
    case True
    then show ?thesis by (simp add: cbc_encrypt.simps cbc_decrypt.simps)
  next
    case False
    define b where "b = take block_size xs"
    define c where "c = E k (xor_bytes b iv)"
    have "block_size \<le> length xs" by (rule ccontr) (use False 1(3) in simp)
    then have b: "length b = block_size" by (simp add: b_def)
    have c: "length c = block_size" "D k c = xor_bytes b iv"
      using assms(1) b 1(2) by (simp_all add: block_cipher_def c_def)
    have d: "length (drop block_size xs) mod block_size = 0"
      using 1(3) \<open>block_size \<le> length xs\<close> by (simp add: le_mod_geq)
    have ih: "cbc_decrypt (D k) c (cbc_encrypt (E k) c (drop block_size xs)) = drop block_size xs"
      "length (cbc_encrypt (E k) c (drop block_size xs)) = length (drop block_size xs)"
      using 1(1) [OF False c_def [unfolded b_def] c(1) d] by auto
    have e: "cbc_encrypt (E k) iv xs = c @ cbc_encrypt (E k) c (drop block_size xs)"
      using False by (subst cbc_encrypt.simps) (simp add: Let_def c_def b_def)
    have "c \<noteq> []" using c by (auto simp: block_size_def)
    then have "cbc_decrypt (D k) iv (cbc_encrypt (E k) iv xs) = xor_bytes (xor_bytes b iv) iv @ drop block_size xs"
      unfolding e by (subst cbc_decrypt.simps) (simp add: c ih)
    with b 1(2) ih c \<open>block_size \<le> length xs\<close> show ?thesis
      by (simp add: xor_bytes_cancel e b_def)
  qed
qed

lemma padding_roundtrip:
  "length (PKCS5Padding xs block_size) mod block_size = 0" "PKCS5Trim (PKCS5Padding xs block_size) = Inr xs"
  "block_size \<le> length (PKCS5Padding xs block_size)"
proof -
  define p where "p = block_size - length xs mod block_size"
  have p: "0 < p" "p \<le> 16" by (simp_all add: p_def block_size_def)
  have e: "PKCS5Padding xs block_size = xs @ replicate p (word_of_nat p)"
    by (simp add: PKCS5Padding_def Let_def p_def)
  have m: "(length xs + p) mod 16 = 0" "16 \<le> length xs + p"
    unfolding p_def block_size_def by presburger+
  then show "length (PKCS5Padding xs block_size) mod block_size = 0"
    "block_size \<le> length (PKCS5Padding xs block_size)"
    unfolding e by (simp_all add: block_size_def)
  have "unat (word_of_nat p :: byte) = p" using p by (simp add: unat_of_nat)
  with p show "PKCS5Trim (PKCS5Padding xs block_size) = Inr xs"
    by (simp add: e PKCS5Trim_def Let_def last_append)
qed

lemma AES_roundtrip:
  assumes "block_cipher E D" "length (aes_iv a) = block_size"
  obtains c where "AES_Encrypt E a xs = Inr c" "AES_Decrypt D a c = Inr xs" "block_size \<le> length c"
  using assms cbc_roundtrip [OF assms(1,2) padding_roundtrip(1), of "aes_key a" xs] padding_roundtrip [of xs]
  by (simp add: AES_Encrypt_def AES_Decrypt_def)

lemma encrypt_roundtrip:
  assumes "block_cipher E D" "mac256 hmac"
    and "length root = keySizeBytes" "iv = Inr ivb" "length ivb = block_size"
    and "a = NewAeadAlgorithm (NewAeadAes256CbcHmac256 hmac root) t ver"
  shows "\<exists>c. Encrypt hmac E iv a xs = Inr c \<and> Decrypt hmac D a c = Inr xs"
proof -
  define iv' where "iv' = (if Deterministic t then take block_size (hmac xs (ivKey (cek a))) else ivb)"
  have iv: "length iv' = block_size" using assms by (auto simp: iv'_def mac256_def keySizeBytes_def block_size_def)
  have k: "NewAESCbcPKCS5 (encryptionKey (cek a)) iv' = Inr \<lparr>aes_key = encryptionKey (cek a), aes_iv = iv'\<rparr>"
    using assms by (simp add: NewAESCbcPKCS5_def NewAeadAlgorithm_def NewAeadAes256CbcHmac256_def mac256_def keySizeBytes_def)
  obtain c where c: "AES_Encrypt E \<lparr>aes_key = encryptionKey (cek a), aes_iv = iv'\<rparr> xs = Inr c"
    "AES_Decrypt D \<lparr>aes_key = encryptionKey (cek a), aes_iv = iv'\<rparr> c = Inr xs" "block_size \<le> length c"
    using AES_roundtrip [of E D "\<lparr>aes_key = encryptionKey (cek a), aes_iv = iv'\<rparr>" xs] assms(1) iv by auto
  define tag where "tag = prepareAuthTag hmac a iv' c"
  have tag: "length tag = 32" using assms(2) by (simp add: tag_def prepareAuthTag_def mac256_def keySizeBytes_def)
  have "Encrypt hmac E iv a xs = Inr (algorithmVersion a # tag @ iv' @ c)"
    using k c assms(4,6) by (simp add: Encrypt_def iv'_def NewAeadAlgorithm_def tag_def split: if_splits)
  moreover have "Decrypt hmac D a (algorithmVersion a # tag @ iv' @ c) = Inr xs"
    using c k iv tag
    by (simp add: Decrypt_def minimumCipherTextLength_def keySizeBytes_def block_size_def Let_def flip: tag_def)
  ultimately show ?thesis by blast
qed

text \<open>
  C20. A cell that was encrypted is decrypted to the same bytes by an algorithm of the same
  keys and version, for a deterministic and a randomized column alike; and whatever is
  decrypted without an error carries the authentication tag of its version, initialization vector and
  ciphertext under the column's MAC key.
\<close>

theorem cell_roundtrip:
  assumes "block_cipher E D" "mac256 hmac"
    and "length root = keySizeBytes" "iv = Inr ivb" "length ivb = block_size"
    and "a = NewAeadAlgorithm (NewAeadAes256CbcHmac256 hmac root) t ver"
  shows "(\<exists>c. Encrypt hmac E iv a xs = Inr c \<and> Decrypt hmac D a c = Inr xs)
     \<and> (\<forall>c ys. Decrypt hmac D a c = Inr ys \<longrightarrow>
          take 32 (drop 1 c) = hmac (ver # drop 33 c @ [1]) (macKey (NewAeadAes256CbcHmac256 hmac root)))"
proof
  show "\<exists>c. Encrypt hmac E iv a xs = Inr c \<and> Decrypt hmac D a c = Inr xs" by (rule encrypt_roundtrip [OF assms])
next
  have "take 16 (drop 33 c) @ drop 49 c = drop 33 c" for c :: bytes
    using append_take_drop_id [of 16 "drop 33 c"] by simp
  then show "\<forall>c ys. Decrypt hmac D a c = Inr ys \<longrightarrow>
          take 32 (drop 1 c) = hmac (ver # drop 33 c @ [1]) (macKey (NewAeadAes256CbcHmac256 hmac root))"
    using assms(6)
    by (simp add: Decrypt_def Let_def prepareAuthTag_def NewAeadAlgorithm_def keySizeBytes_def block_size_def
        flip: append_assoc split: if_splits)
qed

definition ex_hmac :: "bytes \<Rightarrow> bytes \<Rightarrow> bytes" where "ex_hmac x k = take 32 (rev x @ k @ replicate 32 7)"
definition ex_E :: "bytes \<Rightarrow> bytes \<Rightarrow> bytes" where "ex_E k b = rev b"
definition ex_alg :: AeadAlgorithm where
  "ex_alg = NewAeadAlgorithm (NewAeadAes256CbcHmac256 ex_hmac (replicate 32 9)) (From 1) 1"

lemma ex_primitives: "block_cipher ex_E ex_E" "mac256 ex_hmac"
  by (auto simp: block_cipher_def mac256_def ex_E_def ex_hmac_def keySizeBytes_def min_def)

theorem cell_roundtrip_witness:
  "\<exists>c. Encrypt ex_hmac ex_E (Inr (replicate 16 5)) ex_alg [1, 2, 3] = Inr c \<and> Decrypt ex_hmac ex_E ex_alg c = Inr [1, 2, 3]"
  using cell_roundtrip [OF ex_primitives, of "replicate 32 9" "Inr (replicate 16 5)" "replicate 16 5" ex_alg "From 1" 1 "[1, 2, 3]"]
  by (simp add: keySizeBytes_def block_size_def ex_alg_def)

end
