(* ===== verification/Tds_Tokens.thy ===== *)
theory Tds_Tokens
  imports Tds_Progress Cell_Encryption Go_Strings
begin

text \<open>
  The token stream of a response, \<open>src/token.go\<close>: one definition per token parser, over the
  reading half of the packet buffer, the ENVCHANGE handler, and the reader goroutine
  \<open>processSingleResponse\<close> with the tokens it sends. Logging has no effect on the state
  and is left out.
\<close>

declare le_bytes_numeral [simp del]

unbundle bit_operations_syntax

section \<open>Tokens\<close>

definition tokenReturnStatus :: byte where "tokenReturnStatus = 121"
definition tokenColMetadata :: byte where "tokenColMetadata = 129"
definition tokenTabName :: byte where "tokenTabName = 164"
definition tokenColInfo :: byte where "tokenColInfo = 165"
definition tokenOrder :: byte where "tokenOrder = 169"
definition tokenError :: byte where "tokenError = 170"
definition tokenInfo :: byte where "tokenInfo = 171"
definition tokenReturnValue :: byte where "tokenReturnValue = 0xAC"
definition tokenLoginAck :: byte where "tokenLoginAck = 173"
definition tokenFeatureExtAck :: byte where "tokenFeatureExtAck = 174"
definition tokenRow :: byte where "tokenRow = 209"
definition tokenNbcRow :: byte where "tokenNbcRow = 210"
definition tokenEnvChange :: byte where "tokenEnvChange = 227"
definition tokenSSPI :: byte where "tokenSSPI = 237"
definition tokenFedAuthInfo :: byte where "tokenFedAuthInfo = 238"
definition tokenDone :: byte where "tokenDone = 253"
definition tokenDoneProc :: byte where "tokenDoneProc = 254"
definition tokenDoneInProc :: byte where "tokenDoneInProc = 255"

lemmas token_ids = tokenReturnStatus_def tokenColMetadata_def tokenTabName_def tokenColInfo_def
  tokenOrder_def tokenError_def tokenInfo_def tokenReturnValue_def tokenLoginAck_def
  tokenFeatureExtAck_def tokenRow_def tokenNbcRow_def tokenEnvChange_def tokenSSPI_def
  tokenFedAuthInfo_def tokenDone_def tokenDoneProc_def tokenDoneInProc_def

definition doneMore :: u16 where "doneMore = 1"
definition doneError :: u16 where "doneError = 2"
definition doneCount :: u16 where "doneCount = 0x10"
definition doneAttn :: u16 where "doneAttn = 0x20"
definition doneSrvError :: u16 where "doneSrvError = 0x100"
definition cmdSelect :: u16 where "cmdSelect = 0xc1"

definition colFlagEncrypted :: u16 where "colFlagEncrypted = 0x0800"

text \<open>\<open>Error\<close> of \<open>src/error.go\<close>.\<close>

datatype sqlError =
  SqlError (e_Number: int) (e_State: byte) (e_Class: byte) (e_Message: string) (e_ServerName: string)
    (e_ProcName: string) (e_LineNo: int) (e_All: "sqlError list")

record doneStruct =
  Status :: u16
  CurCmd :: u16
  RowCount :: u64
  done_errors :: "sqlError list"

definition isError :: "doneStruct \<Rightarrow> bool" where
  "isError d \<longleftrightarrow> Status d AND doneError \<noteq> 0 \<or> 0 < length (done_errors d)"

definition getError :: "doneStruct \<Rightarrow> sqlError" where
  "getError d =
     (if done_errors d = []
      then SqlError 0 0 0 ''Request failed but didn't provide reason'' [] [] 0 []
      else case last (done_errors d) of
        SqlError n st cl msg srv prc ln _ \<Rightarrow> SqlError n st cl msg srv prc ln (done_errors d))"

record fedAuthInfoStruct =
  STSURL :: string
  fai_ServerSPN :: string

record fedAuthInfoOpt =
  fedAuthInfoID :: byte
  dataLength :: u32
  dataOffset :: u32

record loginAckStruct =
  Interface :: byte
  TDSVersion :: u32
  ProgName :: string
  ProgVer :: u32

datatype ackValue =
    FedAuthAck (Nonce: bytes) (Signature: bytes)
  | ColAck (ack_Version: nat) (EnclaveType: string)

record encryptionKeyInfo =
  encryptedKey :: bytes
  k_databaseID :: int
  k_cekID :: int
  k_cekVersion :: int
  k_cekMdVersion :: bytes
  keyPath :: string
  keyStoreName :: string
  k_algorithmName :: string

record cekTableEntry =
  databaseID :: int
  keyId :: int
  keyVersion :: int
  mdVersion :: bytes
  valueCount :: nat
  cekValues :: "encryptionKeyInfo list"

record cryptoMetadata =
  entry :: "cekTableEntry option"
  ordinal :: u16
  algorithmId :: byte
  algorithmName :: "string option"
  encType :: byte
  normRuleVer :: byte
  cm_typeInfo :: typeInfo

record columnStruct =
  col_UserType :: u32
  col_Flags :: u16
  ColName :: string
  col_ti :: typeInfo
  cryptoMeta :: "cryptoMetadata option"

definition isEncryptedFlag :: "u16 \<Rightarrow> bool" where
  "isEncryptedFlag flags \<longleftrightarrow> colFlagEncrypted = (flags AND colFlagEncrypted)"

definition isEncrypted :: "columnStruct \<Rightarrow> bool" where
  "isEncrypted c = isEncryptedFlag (col_Flags c)"

text \<open>Nil dereferences of \<open>cryptoMeta\<close> are panics.\<close>

definition originalTypeInfo :: "columnStruct \<Rightarrow> fault + typeInfo" where
  "originalTypeInfo c =
     (if isEncrypted c
      then (case cryptoMeta c of None \<Rightarrow> Inl (RuntimePanic ''nil pointer dereference'')
            | Some cm \<Rightarrow> Inr (cm_typeInfo cm))
      else Inr (col_ti c))"

text \<open>
  What goes over the channel from the reader to the statement. Errors are what implements Go's
  \<open>error\<close> there: of the connection, of the server, of a cell, of an output parameter, and
  whatever a panic carried.
\<close>

datatype tokenError_t =
    OpError err
  | ServerError sqlError
  | CellError err
  | ScanError err
  | Recovered fault

datatype token =
    SSPIMsg bytes
  | FedAuthInfo fedAuthInfoStruct
  | ReturnStatus int
  | LoginAck loginAckStruct
  | FeatureExtAck "(byte \<times> ackValue) list"
  | Order "u16 list"
  | DoneInProc doneStruct
  | Done doneStruct
  | Columns "columnStruct list"
  | Row "val list"
  | TokErr tokenError_t

text \<open>The messages for \<open>sqlexp\<close>'s queue, and everything the reader does that others see.\<close>

datatype message =
    MsgRowsAffected int
  | MsgNextResultSet
  | MsgNext
  | MsgError sqlError
  | MsgFault fault
  | MsgNotice sqlError

datatype event = Send token | Queue message | Scanned string val | Close

section \<open>The session\<close>

record tdsSession =
  s_buf :: tdsBuffer
  s_database :: string
  s_partner :: string
  s_tranid :: u64
  s_routedServer :: string
  s_routedPort :: u16
  s_alwaysEncrypted :: bool
  s_encoding :: EncodeParameters
  s_events :: "event list"

text \<open>
  What the reader takes from outside: the double-byte code pages, the key providers the
  application registered, the primitives of cell encryption and the UTF-16 decoder of
  \<open>golang.org/x/text\<close>.
\<close>

record deps =
  d_dbcs :: dbcs
  d_provider :: "string \<Rightarrow> (string \<Rightarrow> bytes \<Rightarrow> err + bytes) option"
  d_hmac :: "bytes \<Rightarrow> bytes \<Rightarrow> bytes"
  d_aes :: "bytes \<Rightarrow> bytes \<Rightarrow> bytes"
  d_utf16 :: "bytes \<Rightarrow> string"

text \<open>\<open>outs\<close>: output parameters are the functions that scan a value into them.\<close>

record outputs =
  o_params :: "string \<rightharpoonup> (val \<Rightarrow> err option)"
  o_msgq :: bool

definition on_buf :: "(tdsBuffer, 'a) go \<Rightarrow> (tdsSession, 'a) go" where
  "on_buf m s = (case m (s_buf s) of (x, b) \<Rightarrow> (x, s\<lparr>s_buf := b\<rparr>))"

definition sess_Read :: "tdsSession reader" where
  "sess_Read n = on_buf (Read n)"

section \<open>ENVCHANGE\<close>

text \<open>\<open>strconv.Atoi\<close>, an \<open>int\<close> being 64 bits wide.\<close>

definition Atoi :: "string \<Rightarrow> int option" where
  "Atoi s =
     (case s of
        CHR ''-'' # r \<Rightarrow> (case ParseUint r 10 64 of
            Some n \<Rightarrow> if n \<le> 2 ^ 63 then Some (- int n) else None | None \<Rightarrow> None)
      | CHR ''+'' # r \<Rightarrow> (case ParseUint r 10 64 of
            Some n \<Rightarrow> if n < 2 ^ 63 then Some (int n) else None | None \<Rightarrow> None)
      | _ \<Rightarrow> (case ParseUint s 10 64 of
            Some n \<Rightarrow> if n < 2 ^ 63 then Some (int n) else None | None \<Rightarrow> None))"

text \<open>
  The handler works on the session through a reader limited to the size of the record; its state
  is the number of bytes left and the session.
\<close>

type_synonym env_state = "int \<times> tdsSession"

definition env_rd :: "env_state reader" where
  "env_rd = limited_read sess_Read"

definition upd :: "(tdsSession \<Rightarrow> tdsSession) \<Rightarrow> (env_state, unit) go" where
  "upd f = (\<lambda>(N, s). (Inr (), (N, f s)))"

text \<open>\<open>x, err = readBVarChar(r); if err != nil { badStreamPanic(err) }\<close>: \<open>x\<close> is assigned first.\<close>

definition assign_BVarChar :: "(string \<Rightarrow> tdsSession \<Rightarrow> tdsSession) \<Rightarrow> (env_state, unit) go" where
  "assign_BVarChar f st =
     (case readBVarChar env_rd st of
        (Inl (Err e), st') \<Rightarrow> gthen (upd (f [])) (graise (StreamPanic e)) st'
      | (Inl g, st') \<Rightarrow> (Inl g, st')
      | (Inr x, st') \<Rightarrow> upd (f x) st')"

definition skip_BVarChar :: "(env_state, unit) go" where
  "skip_BVarChar = gthen (or_panic (readBVarChar env_rd)) (gret ())"

definition skip_BVarByte :: "(env_state, unit) go" where
  "skip_BVarByte = gthen (or_panic (readBVarByte env_rd)) (gret ())"

definition env_packet_size :: "(env_state, unit) go" where
  "env_packet_size =
     gbind (or_panic (readBVarChar env_rd)) (\<lambda>packetsize. gthen skip_BVarChar
       (case Atoi packetsize of
          None \<Rightarrow> graise (StreamPanicf ''Invalid Packet size value returned from server (%s): %s'')
        | Some n \<Rightarrow> upd (\<lambda>s. s\<lparr>s_buf := snd (ResizeBuffer n (s_buf s))\<rparr>)))"

definition env_collation :: "(env_state, unit) go" where
  "env_collation =
     gbind (or_panic (binary_Read env_rd 1)) (\<lambda>collationSize :: byte.
       if collationSize \<noteq> 5
       then graise (StreamPanicf ''Invalid SQL Collation size value returned from server: %d'')
       else gthen (or_panic (binary_Read env_rd 4) :: (env_state, u32) go)
         (gthen (or_panic (binary_Read env_rd 1) :: (env_state, byte) go) skip_BVarChar))"

text \<open>
  \<open>tranid, err := readBVarByte(r)\<close> with the result also when it fails: the slice has the
  announced length, filled as far as bytes came.
\<close>

definition readBVarByte_raw :: "(env_state, bytes \<times> err option) go" where
  "readBVarByte_raw st =
     (case readByte env_rd st of
        (Inl (Err e), st') \<Rightarrow> (Inr ([], Some e), st')
      | (Inl f, st') \<Rightarrow> (Inl f, st')
      | (Inr len, st') \<Rightarrow>
          (case io_fill env_rd (unat len) [] st' of
             None \<Rightarrow> (Inl Diverges, st')
           | Some ((acc, None), st'') \<Rightarrow> (Inr (acc, None), st'')
           | Some ((acc, Some f), st'') \<Rightarrow>
               (case short_read acc f of
                  Err e \<Rightarrow> (Inr (acc @ replicate (unat len - length acc) 0, Some e), st'')
                | g \<Rightarrow> (Inl g, st''))))"

definition env_begin_tran :: "(env_state, unit) go" where
  "env_begin_tran =
     gbind readBVarByte_raw (\<lambda>(tranid, err).
       if length tranid \<noteq> 8 then graise (StreamPanicf ''invalid size of transaction identifier: %d'')
       else gthen (upd (\<lambda>s. s\<lparr>s_tranid := le_word tranid\<rparr>))
         (case err of Some e \<Rightarrow> graise (StreamPanic e) | None \<Rightarrow> skip_BVarByte))"

definition env_routing :: "(env_state, unit) go" where
  "env_routing =
     gthen (or_panic (readUshort env_rd))
       (gbind (or_panic (readByte env_rd)) (\<lambda>protocol.
          if protocol \<noteq> 0 then graise (StreamPanic NilErr)
          else gbind (or_panic (readUshort env_rd)) (\<lambda>newPort.
            gbind (or_panic (readUsVarChar env_rd)) (\<lambda>newServer.
              gthen (or_panic (readUshort env_rd))
                (upd (\<lambda>s. s\<lparr>s_routedServer := newServer, s_routedPort := newPort\<rparr>))))))"

text \<open>One record; \<open>False\<close>: the record is unknown and the handler returns.\<close>

definition env_record :: "byte \<Rightarrow> (env_state, bool) go" where
  "env_record envtype =
     (if envtype = 1
      then gthen (assign_BVarChar (\<lambda>x s. s\<lparr>s_database := x\<rparr>)) (gthen skip_BVarChar (gret True))
      else if envtype = 4 then gthen env_packet_size (gret True)
      else if envtype = 7 then gthen env_collation (gret True)
      else if envtype = 8 then gthen env_begin_tran (gret True)
      else if envtype \<in> {9, 10}
      then gthen skip_BVarByte (gthen skip_BVarByte (gthen (upd (\<lambda>s. s\<lparr>s_tranid := 0\<rparr>)) (gret True)))
      else if envtype = 13
      then gthen (assign_BVarChar (\<lambda>x s. s\<lparr>s_partner := x\<rparr>)) (gthen skip_BVarChar (gret True))
      else if envtype = 20 then gthen env_routing (gret True)
      else if envtype \<in> {2, 3, 5, 6, 11, 12, 15, 16, 17, 18, 19}
      then gthen skip_BVarChar (gthen skip_BVarChar (gret True))
      else gret False)"

text \<open>The loop over the records; \<open>None\<close>: it never ends.\<close>

partial_function (option) env_loop :: "env_state \<Rightarrow> ((fault + unit) \<times> env_state) option" where
  "env_loop st =
     (case binary_Read env_rd 1 st of
        (Inl (Err e), st') \<Rightarrow> if e = EOF then Some (Inr (), st') else Some (Inl (StreamPanic e), st')
      | (Inl f, st') \<Rightarrow> Some (Inl f, st')
      | (Inr envtype, st') \<Rightarrow>
          (case env_record envtype st' of
             (Inl f, st'') \<Rightarrow> Some (Inl f, st'')
           | (Inr go_on, st'') \<Rightarrow> if go_on then env_loop st'' else Some (Inr (), st'')))"

definition processEnvChg :: "(tdsSession, unit) go" where
  "processEnvChg =
     gbind (on_buf r_uint16) (\<lambda>size s.
       case env_loop (int (unat size), s) of
         None \<Rightarrow> (Inl Diverges, s)
       | Some (x, (_, s')) \<Rightarrow> (x, s'))"

section \<open>The token parsers\<close>

definition parseReturnStatus :: "(tdsBuffer, int) go" where
  "parseReturnStatus = r_int32"

primrec r_uint16s :: "nat \<Rightarrow> (tdsBuffer, u16 list) go" where
  "r_uint16s 0 = gret []"
| "r_uint16s (Suc n) = gbind r_uint16 (\<lambda>x. gbind (r_uint16s n) (\<lambda>xs. gret (x # xs)))"

definition parseOrder :: "(tdsBuffer, u16 list) go" where
  "parseOrder = gbind r_uint16 (\<lambda>len. r_uint16s (unat len div 2))"

definition parseTabName :: "(tdsBuffer, unit) go" where
  "parseTabName = gbind r_uint16 (\<lambda>size. gthen (or_panic (io_CopyN Read (unat size))) (gret ()))"

definition parseColInfo :: "(tdsBuffer, unit) go" where
  "parseColInfo = gbind r_uint16 (\<lambda>size. gthen (or_panic (io_CopyN Read (unat size))) (gret ()))"

definition parseDone :: "(tdsBuffer, doneStruct) go" where
  "parseDone =
     gbind r_uint16 (\<lambda>st. gbind r_uint16 (\<lambda>cmd. gbind r_uint64 (\<lambda>n.
       gret \<lparr>Status = st, CurCmd = cmd, RowCount = n, done_errors = []\<rparr>)))"

definition parseDoneInProc :: "(tdsBuffer, doneStruct) go" where
  "parseDoneInProc =
     gbind r_uint16 (\<lambda>st. gbind r_uint16 (\<lambda>cmd. gbind r_uint64 (\<lambda>n.
       gret \<lparr>Status = st, CurCmd = cmd, RowCount = n, done_errors = []\<rparr>)))"

definition parseSSPIMsg :: "(tdsBuffer, bytes) go" where
  "parseSSPIMsg = gbind r_uint16 (\<lambda>size. r_ReadFull (unat size))"

primrec read_fedAuth_opts :: "nat \<Rightarrow> (tdsBuffer, fedAuthInfoOpt list) go" where
  "read_fedAuth_opts 0 = gret []"
| "read_fedAuth_opts (Suc n) =
     gbind r_byte (\<lambda>i. gbind r_uint32 (\<lambda>l. gbind r_uint32 (\<lambda>off.
       gbind (read_fedAuth_opts n) (\<lambda>opts.
         gret (\<lparr>fedAuthInfoID = i, dataLength = l, dataOffset = off\<rparr> # opts)))))"

text \<open>One option: the bounds are checked in \<open>uint32\<close> arithmetic.\<close>

definition fedAuth_opt ::
    "u32 \<Rightarrow> u32 \<Rightarrow> bytes \<Rightarrow> fedAuthInfoOpt \<Rightarrow> fedAuthInfoStruct \<Rightarrow> fault + fedAuthInfoStruct" where
  "fedAuth_opt sz offset data opt res =
     (if dataOffset opt < offset
      then Inl (StreamPanicf ''Fed auth info opt stated data offset %d is before data begins in packet at %d'')
      else if sz < dataOffset opt + dataLength opt
      then Inl (StreamPanicf ''Fed auth info opt stated data length %d added to stated offset exceeds size of packet %d'')
      else let lo = unat (dataOffset opt - offset); hi = unat (dataOffset opt - offset + dataLength opt) in
        if hi < lo \<or> length data < hi then Inl (RuntimePanic ''slice bounds out of range'')
        else let optData = take (hi - lo) (drop lo data) in
          if fedAuthInfoID opt = 1
          then (case ucs22str optData of Inl e \<Rightarrow> Inl (StreamPanic e) | Inr u \<Rightarrow> Inr (res\<lparr>STSURL := u\<rparr>))
          else if fedAuthInfoID opt = 2
          then (case ucs22str optData of Inl e \<Rightarrow> Inl (StreamPanic e) | Inr u \<Rightarrow> Inr (res\<lparr>fai_ServerSPN := u\<rparr>))
          else Inl (StreamPanic (ErrMsg ''unexpected fed auth info opt ID %d'')))"

primrec fedAuth_opts ::
    "u32 \<Rightarrow> u32 \<Rightarrow> bytes \<Rightarrow> fedAuthInfoOpt list \<Rightarrow> fedAuthInfoStruct \<Rightarrow> fault + fedAuthInfoStruct" where
  "fedAuth_opts sz offset data [] res = Inr res"
| "fedAuth_opts sz offset data (opt # opts) res =
     sbind (fedAuth_opt sz offset data opt res) (fedAuth_opts sz offset data opts)"

definition parseFedAuthInfo :: "(tdsBuffer, fedAuthInfoStruct) go" where
  "parseFedAuthInfo =
     gbind r_uint32 (\<lambda>size. gbind r_uint32 (\<lambda>count.
       gbind (read_fedAuth_opts (unat count)) (\<lambda>opts.
         let offset = 4 + 9 * count in
         gbind (r_ReadFull (unat (size - offset))) (\<lambda>data.
           gfault (fedAuth_opts size offset data opts \<lparr>STSURL = [], fai_ServerSPN = []\<rparr>)))))"

text \<open>
  The slices of the login acknowledgement; the length of the name, \<open>prognamelen*2\<close>, and its
  end are computed in \<open>uint8\<close>, \<open>size-4\<close> in \<open>uint16\<close>.
\<close>

definition loginAck :: "u16 \<Rightarrow> bytes \<Rightarrow> fault + loginAckStruct" where
  "loginAck sz buf =
     (if length buf < 6 then Inl (RuntimePanic ''index out of range'')
      else let hi = unat (1 + 4 + 1 + (buf ! 5) * 2) in
        if hi < 6 \<or> length buf < hi then Inl (RuntimePanic ''slice bounds out of range'')
        else (case ucs22str (take (hi - 6) (drop 6 buf)) of
                Inl e \<Rightarrow> Inl (StreamPanic e)
              | Inr name \<Rightarrow>
                  let off = unat (sz - 4) in
                  if length buf < off then Inl (RuntimePanic ''slice bounds out of range'')
                  else if length buf < off + 4 then Inl (RuntimePanic ''index out of range'')
                  else Inr \<lparr>Interface = buf ! 0, TDSVersion = be_word (take 4 (drop 1 buf)), ProgName = name,
                            ProgVer = be_word (take 4 (drop off buf))\<rparr>))"

definition parseLoginAck :: "(tdsBuffer, loginAckStruct) go" where
  "parseLoginAck = gbind r_uint16 (\<lambda>size. gbind (r_ReadFull (unat size)) (\<lambda>buf. gfault (loginAck size buf)))"

text \<open>
  Feature acknowledgements. \<open>length\<close> is a \<open>uint32\<close> and wraps around; the error of
  skipping the rest is dropped.
\<close>

definition ignore_err :: "('s, 'a) go \<Rightarrow> ('s, unit) go" where
  "ignore_err m s = (case m s of (Inl (Err e), s') \<Rightarrow> (Inr (), s') | (Inl f, s') \<Rightarrow> (Inl f, s') | (Inr _, s') \<Rightarrow> (Inr (), s'))"

definition read_32_if :: "u32 \<Rightarrow> (tdsBuffer, bytes \<times> u32) go" where
  "read_32_if len = (if 32 \<le> len then gbind (r_ReadFull 32) (\<lambda>bs. gret (bs, len - 32)) else gret ([], len))"

definition fedAuthAck :: "u32 \<Rightarrow> (tdsBuffer, ackValue \<times> u32) go" where
  "fedAuthAck len =
     gbind (read_32_if len) (\<lambda>(nonce, len). gbind (read_32_if len) (\<lambda>(sig, len). gret (FedAuthAck nonce sig, len)))"

definition colAck :: "u32 \<Rightarrow> (tdsBuffer, ackValue \<times> u32) go" where
  "colAck len =
     gbind r_byte (\<lambda>v.
       let len = len - 1 in
       if 0 < len then
         gbind r_byte (\<lambda>b.
           let enclaveLength = b * 2; len = len - 1 in
           gbind (r_ReadFull (unat enclaveLength)) (\<lambda>bs.
             gret (ColAck (unat v) (case ucs22str bs of Inl _ \<Rightarrow> [] | Inr e \<Rightarrow> e), len - ucast enclaveLength)))
       else gret (ColAck (unat v) [], len))"

definition featureAck :: "byte \<Rightarrow> u32 \<Rightarrow> (tdsBuffer, (byte \<times> ackValue) list \<times> u32) go" where
  "featureAck feature len =
     (if feature = 2 then gbind (fedAuthAck len) (\<lambda>(a, len). gret ([(feature, a)], len))
      else if feature = 4 then gbind (colAck len) (\<lambda>(a, len). gret ([(feature, a)], len))
      else gret ([], len))"

partial_function (option) featureAcks ::
    "(byte \<times> ackValue) list \<Rightarrow> tdsBuffer \<Rightarrow> ((fault + (byte \<times> ackValue) list) \<times> tdsBuffer) option" where
  "featureAcks ack r =
     (case r_byte r of
        (Inl f, r') \<Rightarrow> Some (Inl f, r')
      | (Inr feature, r') \<Rightarrow>
          if feature = 0xFF then Some (Inr ack, r')
          else (case gbind r_uint32 (\<lambda>len. gbind (featureAck feature len) (\<lambda>(a, len).
                       gthen (if 0 < len then ignore_err (io_CopyN Read (unat len)) else gret ()) (gret a))) r' of
                  (Inl f, r'') \<Rightarrow> Some (Inl f, r'')
                | (Inr a, r'') \<Rightarrow> featureAcks (a @ ack) r''))"

text \<open>The map of the acknowledgements, the latest first.\<close>

definition parseFeatureExtAck :: "(tdsBuffer, (byte \<times> ackValue) list) go" where
  "parseFeatureExtAck r = (case featureAcks [] r of None \<Rightarrow> (Inl Diverges, r) | Some x \<Rightarrow> x)"

definition parseError72 :: "(tdsBuffer, sqlError) go" where
  "parseError72 =
     gthen r_uint16 (gbind r_int32 (\<lambda>num. gbind r_byte (\<lambda>st. gbind r_byte (\<lambda>cl.
       gbind r_UsVarChar (\<lambda>msg. gbind r_BVarChar (\<lambda>srv. gbind r_BVarChar (\<lambda>prc. gbind r_int32 (\<lambda>ln.
         gret (SqlError num st cl msg srv prc ln [])))))))))"

definition parseInfo :: "(tdsBuffer, sqlError) go" where
  "parseInfo =
     gthen r_uint16 (gbind r_int32 (\<lambda>num. gbind r_byte (\<lambda>st. gbind r_byte (\<lambda>cl.
       gbind r_UsVarChar (\<lambda>msg. gbind r_BVarChar (\<lambda>srv. gbind r_BVarChar (\<lambda>prc. gbind r_int32 (\<lambda>ln.
         gret (SqlError num st cl msg srv prc ln [])))))))))"

section \<open>Column metadata\<close>

definition getBaseTypeInfo :: "bool \<Rightarrow> (tdsBuffer, typeInfo) go" where
  "getBaseTypeInfo parseFlags =
     gbind r_uint32 (\<lambda>userType. gbind (if parseFlags then r_uint16 else gret 0) (\<lambda>flags. gbind r_byte (\<lambda>tId.
       gret (typeInfo_zero\<lparr>UserType := userType, Flags := flags, TypeId := tId\<rparr>))))"

text \<open>\<open>n*2\<close> as the size of a slice, in the width of \<open>n\<close>.\<close>

definition read_doubled :: "'a::len word \<Rightarrow> (tdsBuffer, bytes) go" where
  "read_doubled n = r_ReadFull (unat (n * 2))"

definition readCekValue :: "deps \<Rightarrow> int \<Rightarrow> int \<Rightarrow> int \<Rightarrow> bytes \<Rightarrow> (tdsBuffer, encryptionKeyInfo) go" where
  "readCekValue d db i ver md =
     gbind r_uint16 (\<lambda>n. gbind (r_ReadFull (unat n)) (\<lambda>cek.
       gbind r_byte (\<lambda>ks. gbind (read_doubled ks) (\<lambda>store.
         gbind r_uint16 (\<lambda>kp. gbind (read_doubled kp) (\<lambda>path.
           gbind r_byte (\<lambda>al. gbind (read_doubled al) (\<lambda>alg.
             gret \<lparr>encryptedKey = cek, k_databaseID = db, k_cekID = i, k_cekVersion = ver, k_cekMdVersion = md,
                   keyPath = d_utf16 d path, keyStoreName = d_utf16 d store, k_algorithmName = d_utf16 d alg\<rparr>))))))))"

primrec repeat :: "nat \<Rightarrow> ('s, 'a) go \<Rightarrow> ('s, 'a list) go" where
  "repeat 0 m = gret []"
| "repeat (Suc n) m = gbind m (\<lambda>x. gbind (repeat n m) (\<lambda>xs. gret (x # xs)))"

text \<open>The metadata version is one call of \<open>Read\<close>: what it does not deliver stays zero.\<close>

definition readMdVersion :: "(tdsBuffer, bytes) go" where
  "readMdVersion r =
     (case Read 8 r of
        (Inl (Err e), r') \<Rightarrow> (Inl (StreamPanicf ''unable to read cekMdVersion''), r')
      | (Inl f, r') \<Rightarrow> (Inl f, r')
      | (Inr bs, r') \<Rightarrow> (Inr (bs @ replicate (8 - length bs) 0), r'))"

definition readCekTableEntry :: "deps \<Rightarrow> (tdsBuffer, cekTableEntry) go" where
  "readCekTableEntry d =
     gbind r_int32 (\<lambda>db. gbind r_int32 (\<lambda>i. gbind r_int32 (\<lambda>ver. gbind readMdVersion (\<lambda>md.
       gbind r_byte (\<lambda>n. gbind (repeat (unat n) (readCekValue d db i ver md)) (\<lambda>vs.
         gret \<lparr>databaseID = db, keyId = i, keyVersion = ver, mdVersion = md, valueCount = unat n,
               cekValues = vs\<rparr>))))))"

definition readCekTable :: "deps \<Rightarrow> (tdsBuffer, cekTableEntry list option) go" where
  "readCekTable d =
     gbind r_uint16 (\<lambda>n.
       if n = 0 then gret None
       else gbind (repeat (unat n) (readCekTableEntry d)) (\<lambda>es. gret (Some es)))"

definition parseCryptoMetadata :: "deps \<Rightarrow> cekTableEntry list option \<Rightarrow> (tdsBuffer, cryptoMetadata) go" where
  "parseCryptoMetadata d table =
     gbind (case table of None \<Rightarrow> gret 0 | Some _ \<Rightarrow> r_uint16) (\<lambda>ord.
       gbind (getBaseTypeInfo False) (\<lambda>base. gbind (readTypeInfo (TypeId base)) (\<lambda>ti.
         let ti = ti\<lparr>UserType := UserType base, Flags := Flags base, TypeId := TypeId base\<rparr> in
         gbind r_byte (\<lambda>alg.
           gbind (if alg = 0
                  then gbind r_byte (\<lambda>n. gbind (r_ReadFull (unat n * 2)) (\<lambda>bs. gret (Some (d_utf16 d bs))))
                  else gret None) (\<lambda>name.
             gbind r_byte (\<lambda>et. gbind r_byte (\<lambda>nr.
               gbind (case table of None \<Rightarrow> gret None
                      | Some es \<Rightarrow> if length es \<le> unat ord
                                   then graise (StreamPanicf ''invalid ordinal, cekTable only has %d entries'')
                                   else gret (Some (es ! unat ord))) (\<lambda>e.
                 gret \<lparr>entry = e, ordinal = ord, algorithmId = alg, algorithmName = name, encType = et,
                       normRuleVer = nr, cm_typeInfo = ti\<rparr>))))))))"

definition readColumn :: "deps \<Rightarrow> bool \<Rightarrow> cekTableEntry list option \<Rightarrow> (tdsBuffer, columnStruct) go" where
  "readColumn d ae table =
     gbind (getBaseTypeInfo True) (\<lambda>base. gbind (readTypeInfo (TypeId base)) (\<lambda>ti.
       let ti = ti\<lparr>UserType := UserType base, Flags := Flags base, TypeId := TypeId base\<rparr> in
       gbind (if isEncryptedFlag (Flags base) \<and> ae
              then gbind (parseCryptoMetadata d table) (\<lambda>cm.
                     gret (Some (cm\<lparr>cm_typeInfo := (cm_typeInfo cm)\<lparr>Flags := Flags base\<rparr>\<rparr>)))
              else gret None) (\<lambda>cm.
         gbind r_BVarChar (\<lambda>name.
           gret \<lparr>col_UserType = UserType base, col_Flags = Flags base, ColName = name, col_ti = ti,
                 cryptoMeta = cm\<rparr>))))"

definition parseColMetadata72 :: "deps \<Rightarrow> bool \<Rightarrow> (tdsBuffer, columnStruct list) go" where
  "parseColMetadata72 d ae =
     gbind r_uint16 (\<lambda>count.
       if count = 0xffff then gret []
       else gbind (if ae then readCekTable d else gret None) (\<lambda>table.
              repeat (unat count) (readColumn d ae table)))"

section \<open>Rows\<close>

text \<open>
  A decrypted cell is read from a buffer of its own: the value is its \<open>rbuf\<close>, and its
  transport is a reader over the same bytes. The readers set \<open>typeInfo.Buffer\<close> of the
  column before each use, so it is passed along here. Go's \<open>append\<close> may leave spare
  capacity behind a value of fewer than eight bytes; a read past such a value then ends with
  the error of the transport and not with the slice panic below. Both reach the channel as an error.
\<close>

definition cell_buffer :: "bytes \<Rightarrow> tdsBuffer" where
  "cell_buffer xs =
     \<lparr>transport = \<lparr>t_in = xs, t_rerr = EOF, t_out = [], t_wres = []\<rparr>, packetSize = 0, bufmem = xs, wlen = 0,
      wpos = 0, wPacketSeq = 0, wPacketType = 0, roff = 0, rpos = 0, rsize = length xs, final = False,
      rPacketType = 0, afterFirst = None\<rparr>"

definition nil_panic :: "fault + 'a" where
  "nil_panic = Inl (RuntimePanic ''nil pointer dereference'')"

definition cek_value :: "cryptoMetadata \<Rightarrow> fault + encryptionKeyInfo \<times> bytes" where
  "cek_value cm =
     (case entry cm of
        None \<Rightarrow> nil_panic
      | Some e \<Rightarrow>
          if length (cekValues e) \<le> unat (ordinal cm) then Inl (RuntimePanic ''index out of range'')
          else Inr (cekValues e ! unat (ordinal cm), encryptedKey (hd (cekValues e))))"

text \<open>The type information to read the cell with, and its clear text.\<close>

definition decryptColumn :: "deps \<Rightarrow> columnStruct \<Rightarrow> val \<Rightarrow> fault + typeInfo \<times> bytes" where
  "decryptColumn d column content =
     (case cryptoMeta column of
        None \<Rightarrow> nil_panic
      | Some cm \<Rightarrow>
          sbind (cek_value cm) (\<lambda>(v, key0).
            case d_provider d (keyStoreName v) of
              None \<Rightarrow> Inl (StreamPanicf ''Unable to find provider %s to decrypt CEK'')
            | Some getDecryptedKey \<Rightarrow>
                (case getDecryptedKey (keyPath v) key0 of
                   Inl e \<Rightarrow> Inl (Err e)
                 | Inr ck \<Rightarrow>
                     let alg = NewAeadAlgorithm (NewAeadAes256CbcHmac256 (d_hmac d) ck) (From (encType cm))
                                 (word_of_int (k_cekVersion v))
                     in (case content of
                           VBytes xs \<Rightarrow>
                             (case Decrypt (d_hmac d) (d_aes d) alg xs of
                                Inl (Err e) \<Rightarrow> Inl (Err (ErrMsg ''Unable to decrypt key using AES256''))
                              | Inl f \<Rightarrow> Inl f
                              | Inr clear \<Rightarrow>
                                  let ti = cm_typeInfo cm;
                                      clear = (if 0 < Size ti \<and> Size ti < int (length clear)
                                               then take (nat (Size ti)) clear else clear)
                                  in Inr (ti\<lparr>Buffer := clear\<rparr>, clear))
                         | _ \<Rightarrow> Inl (RuntimePanic ''interface conversion'')))))"

definition read_cell :: "deps \<Rightarrow> EncodeParameters \<Rightarrow> columnStruct \<Rightarrow> val \<Rightarrow> fault + val" where
  "read_cell d encoding column content =
     sbind (decryptColumn d column content) (\<lambda>(ti, clear).
       fst (read_value (d_dbcs d) ti True encoding (cell_buffer clear)))"

primrec parseRow :: "deps \<Rightarrow> EncodeParameters \<Rightarrow> columnStruct list \<Rightarrow> (tdsBuffer, val list) go" where
  "parseRow d encoding [] = gret []"
| "parseRow d encoding (column # columns) =
     gbind (read_value (d_dbcs d) (col_ti column) False encoding) (\<lambda>content.
       gbind (if content = VNil \<or> \<not> isEncrypted column then gret content
              else gfault (read_cell d encoding column content)) (\<lambda>v.
         gbind (parseRow d encoding columns) (\<lambda>vs. gret (v # vs))))"

definition is_null :: "bytes \<Rightarrow> nat \<Rightarrow> bool" where
  "is_null pres i \<longleftrightarrow> bit (pres ! (i div 8)) (i mod 8)"

primrec parse_nbc ::
    "deps \<Rightarrow> EncodeParameters \<Rightarrow> bytes \<Rightarrow> nat \<Rightarrow> columnStruct list \<Rightarrow> (tdsBuffer, val list) go" where
  "parse_nbc d encoding pres i [] = gret []"
| "parse_nbc d encoding pres i (column # columns) =
     gbind (if is_null pres i then gret VNil
            else gbind (read_value (d_dbcs d) (col_ti column) False encoding) (\<lambda>content.
                   if \<not> isEncrypted column then gret content
                   else gfault (read_cell d encoding column content))) (\<lambda>v.
       gbind (parse_nbc d encoding pres (i + 1) columns) (\<lambda>vs. gret (v # vs)))"

definition parseNbcRow :: "deps \<Rightarrow> EncodeParameters \<Rightarrow> columnStruct list \<Rightarrow> (tdsBuffer, val list) go" where
  "parseNbcRow d encoding columns =
     gbind (r_ReadFull ((length columns + 7) div 8)) (\<lambda>pres. parse_nbc d encoding pres 0 columns)"

text \<open>Output parameters; \<open>ti.Flags\<close> is compared with \<open>fEncrypted\<close>.\<close>

definition fEncrypted_flag :: u16 where "fEncrypted_flag = 8"

definition parseReturnValue :: "deps \<Rightarrow> bool \<Rightarrow> EncodeParameters \<Rightarrow> (tdsBuffer, string \<times> val) go" where
  "parseReturnValue d ae encoding =
     gthen r_uint16 (gbind r_BVarChar (\<lambda>name. gthen r_byte (gbind (getBaseTypeInfo True) (\<lambda>ti.
       gbind (if ae \<and> Flags ti AND fEncrypted_flag = fEncrypted_flag
              then gbind (parseCryptoMetadata d None) (\<lambda>cm. gret True) else gret False) (\<lambda>c.
         gbind (readTypeInfo (TypeId ti)) (\<lambda>ti2.
           gbind (read_value (d_dbcs d) ti2 c encoding) (\<lambda>v. gret (name, v))))))))"

section \<open>The reader of a response\<close>

definition emit :: "event \<Rightarrow> (tdsSession, unit) go" where
  "emit e = (\<lambda>s. (Inr (), s\<lparr>s_events := s_events s @ [e]\<rparr>))"

definition send_tok :: "token \<Rightarrow> (tdsSession, unit) go" where
  "send_tok t = emit (Send t)"

definition enqueue :: "outputs \<Rightarrow> message \<Rightarrow> (tdsSession, unit) go" where
  "enqueue outs m = (if o_msgq outs then emit (Queue m) else gret ())"

record loop =
  l_columns :: "columnStruct list"
  l_errs :: "sqlError list"
  l_colsReceived :: bool

definition rows_affected :: "outputs \<Rightarrow> loop \<Rightarrow> doneStruct \<Rightarrow> (tdsSession, unit) go" where
  "rows_affected outs l dn =
     (if Status dn AND doneCount \<noteq> 0 \<and> (l_colsReceived l \<or> CurCmd dn \<noteq> cmdSelect)
      then enqueue outs (MsgRowsAffected (sint (RowCount dn))) else gret ())"

text \<open>After a done token: \<open>None\<close> ends the response.\<close>

definition after_done :: "outputs \<Rightarrow> loop \<Rightarrow> doneStruct \<Rightarrow> (tdsSession, loop option) go" where
  "after_done outs l dn =
     gthen (enqueue outs MsgNextResultSet)
       (if Status dn AND doneMore = 0
        then gthen (enqueue outs MsgNextResultSet) (gret None)
        else gret (Some (l\<lparr>l_colsReceived := False\<rparr>)))"

definition handle_done_in_proc :: "outputs \<Rightarrow> loop \<Rightarrow> (tdsSession, loop option) go" where
  "handle_done_in_proc outs l =
     gbind (on_buf parseDoneInProc) (\<lambda>dn.
       gthen (rows_affected outs l dn) (gthen (send_tok (DoneInProc dn)) (after_done outs l dn)))"

definition handle_done :: "outputs \<Rightarrow> loop \<Rightarrow> (tdsSession, loop option) go" where
  "handle_done outs l =
     gbind (on_buf parseDone) (\<lambda>dn.
       let dn = dn\<lparr>done_errors := l_errs l\<rparr>; l = (if o_msgq outs then l\<lparr>l_errs := []\<rparr> else l) in
       if Status dn AND doneSrvError \<noteq> 0
       then gthen (send_tok (TokErr (ServerError (getError dn))))
              (gthen (enqueue outs MsgNextResultSet) (gret None))
       else gthen (rows_affected outs l dn) (gthen (send_tok (Done dn)) (after_done outs l dn)))"

text \<open>A row, or the error a cell could not be decrypted with, which ends the response.\<close>

definition handle_row :: "(tdsBuffer, val list) go \<Rightarrow> loop \<Rightarrow> (tdsSession, loop option) go" where
  "handle_row m l s =
     (case on_buf m s of
        (Inl (Err e), s') \<Rightarrow> gthen (send_tok (TokErr (CellError e))) (gret None) s'
      | (Inl f, s') \<Rightarrow> (Inl f, s')
      | (Inr row, s') \<Rightarrow> gthen (send_tok (Row row)) (gret (Some l)) s')"

definition handle_return_value :: "deps \<Rightarrow> outputs \<Rightarrow> loop \<Rightarrow> (tdsSession, loop option) go" where
  "handle_return_value d outs l s =
     gbind (on_buf (parseReturnValue d (s_alwaysEncrypted s) (s_encoding s))) (\<lambda>(name, v).
       if name = [] then gret (Some l)
       else (case o_params outs (tl name) of
               None \<Rightarrow> gret (Some l)
             | Some scan \<Rightarrow>
                 gthen (emit (Scanned (tl name) v))
                   (gthen (case scan v of None \<Rightarrow> gret () | Some e \<Rightarrow> send_tok (TokErr (ScanError e)))
                      (gret (Some l))))) s"

definition handle_token :: "deps \<Rightarrow> outputs \<Rightarrow> loop \<Rightarrow> byte \<Rightarrow> (tdsSession, loop option) go" where
  "handle_token d outs l t s =
     (if t = tokenSSPI then gbind (on_buf parseSSPIMsg) (\<lambda>m. gthen (send_tok (SSPIMsg m)) (gret None)) s
      else if t = tokenFedAuthInfo
      then gbind (on_buf parseFedAuthInfo) (\<lambda>i. gthen (send_tok (FedAuthInfo i)) (gret None)) s
      else if t = tokenReturnStatus
      then gbind (on_buf parseReturnStatus) (\<lambda>x. gthen (send_tok (ReturnStatus x)) (gret (Some l))) s
      else if t = tokenLoginAck
      then gbind (on_buf parseLoginAck) (\<lambda>a. gthen (send_tok (LoginAck a)) (gret (Some l))) s
      else if t = tokenFeatureExtAck
      then gbind (on_buf parseFeatureExtAck) (\<lambda>a. gthen (send_tok (FeatureExtAck a)) (gret (Some l))) s
      else if t = tokenTabName then gthen (on_buf parseTabName) (gret (Some l)) s
      else if t = tokenColInfo then gthen (on_buf parseColInfo) (gret (Some l)) s
      else if t = tokenOrder
      then gbind (on_buf parseOrder) (\<lambda>ord. gthen (send_tok (Order ord)) (gret (Some l))) s
      else if t = tokenDoneInProc then handle_done_in_proc outs l s
      else if t = tokenDone \<or> t = tokenDoneProc then handle_done outs l s
      else if t = tokenColMetadata
      then gbind (on_buf (parseColMetadata72 d (s_alwaysEncrypted s))) (\<lambda>cols.
             gthen (send_tok (Columns cols)) (gthen (enqueue outs MsgNext)
               (gret (Some (l\<lparr>l_columns := cols, l_colsReceived := True\<rparr>))))) s
      else if t = tokenRow then handle_row (parseRow d (s_encoding s) (l_columns l)) l s
      else if t = tokenNbcRow then handle_row (parseNbcRow d (s_encoding s) (l_columns l)) l s
      else if t = tokenEnvChange then gthen processEnvChg (gret (Some l)) s
      else if t = tokenError
      then gbind (on_buf parseError72) (\<lambda>e. gthen (enqueue outs (MsgError e))
             (gret (Some (l\<lparr>l_errs := l_errs l @ [e]\<rparr>)))) s
      else if t = tokenInfo
      then gbind (on_buf parseInfo) (\<lambda>i. gthen (enqueue outs (MsgNotice i)) (gret (Some l))) s
      else if t = tokenReturnValue then handle_return_value d outs l s
      else graise (StreamPanic (ErrMsg ''unknown token type returned: %v'')) s)"

partial_function (option) response_loop ::
    "deps \<Rightarrow> outputs \<Rightarrow> loop \<Rightarrow> tdsSession \<Rightarrow> ((fault + unit) \<times> tdsSession) option" where
  "response_loop d outs l s =
     (case gbind (on_buf r_byte) (handle_token d outs l) s of
        (Inl f, s') \<Rightarrow> Some (Inl f, s')
      | (Inr None, s') \<Rightarrow> Some (Inr (), s')
      | (Inr (Some l'), s') \<Rightarrow> response_loop d outs l' s')"

definition response_body :: "deps \<Rightarrow> outputs \<Rightarrow> (tdsSession, unit) go" where
  "response_body d outs s =
     (case on_buf BeginRead s of
        (Inl (Err e), s') \<Rightarrow> send_tok (TokErr (OpError e)) s'
      | (Inl f, s') \<Rightarrow> (Inl f, s')
      | (Inr packet_type, s') \<Rightarrow>
          if packet_type \<noteq> packReply
          then (Inl (StreamPanic (ErrMsg ''unexpected packet type in reply: got %v, expected %v'')), s')
          else (case response_loop d outs \<lparr>l_columns = [], l_errs = [], l_colsReceived = False\<rparr> s' of
                  None \<Rightarrow> (Inl Diverges, s')
                | Some r \<Rightarrow> r))"

text \<open>The deferred function: a panic becomes the last token, and the channel is closed.\<close>

definition processSingleResponse :: "deps \<Rightarrow> outputs \<Rightarrow> (tdsSession, unit) go" where
  "processSingleResponse d outs s =
     (case response_body d outs s of
        (Inr _, s') \<Rightarrow> emit Close s'
      | (Inl Diverges, s') \<Rightarrow> (Inl Diverges, s')
      | (Inl f, s') \<Rightarrow>
          gthen (enqueue outs (MsgFault f)) (gthen (send_tok (TokErr (Recovered f))) (emit Close)) s')"

end
