(* ===== verification/Tds_Response.thy ===== *)
theory Tds_Response
  imports Tds_Tokens
begin

text \<open>
  The reader of a response always returns, whatever the peer sends, closes its channel, and ends
  the tokens with exactly one that closes the response. The parsers are covered by the progress
  lemmas; the session around the buffer adds the loop over ENVCHANGE records and the main loop.
\<close>

section \<open>Code that leaves a part of the state alone\<close>

named_theorems quiet_intro

definition quiet :: "('s \<Rightarrow> 'b) \<Rightarrow> ('s, 'a) go \<Rightarrow> bool" where
  "quiet f m \<longleftrightarrow> (\<forall>s x s'. m s = (x, s') \<longrightarrow> f s' = f s)"

lemma quietD: "quiet f m \<Longrightarrow> m s = (x, s') \<Longrightarrow> f s' = f s"
  by (simp add: quiet_def)

lemma quiet_basic [quiet_intro]: "quiet f (gret x)" "quiet f (graise e)"
  by (simp_all add: quiet_def gret_run graise_run)

lemma quiet_bind [quiet_intro]: "quiet f m \<Longrightarrow> (\<And>x. quiet f (k x)) \<Longrightarrow> quiet f (gbind m k)"
  by (fastforce simp: quiet_def gbind_def split: prod.splits sum.splits)

lemma quiet_then [quiet_intro]: "quiet f m \<Longrightarrow> quiet f k \<Longrightarrow> quiet f (gthen m k)"
  by (simp add: gthen_def quiet_bind)

lemma quiet_if [quiet_intro]: "(c \<Longrightarrow> quiet f a) \<Longrightarrow> (\<not> c \<Longrightarrow> quiet f b) \<Longrightarrow> quiet f (if c then a else b)"
  by simp

lemma quiet_or_panic [quiet_intro]: "quiet f m \<Longrightarrow> quiet f (or_panic m)"
  by (fastforce simp: quiet_def or_panic_def split: prod.splits sum.splits fault.splits)

lemma quiet_glift [quiet_intro]: "quiet f (glift r)"
  by (cases r) (auto simp: glift_def intro: quiet_intro)

lemma quiet_option [quiet_intro]:
  "quiet f a \<Longrightarrow> (\<And>y. quiet f (b y)) \<Longrightarrow> quiet f (case x of None \<Rightarrow> a | Some y \<Rightarrow> b y)"
  by (cases x) simp_all

locale quiet_reader =
  fixes rd :: "'s reader" and f :: "'s \<Rightarrow> 'b"
  assumes quiet_rd [quiet_intro]: "quiet f (rd n)"
begin

lemma fill_quiet: "io_fill rd n acc s = Some r \<Longrightarrow> f (snd r) = f s"
proof (rule io_fill.raw_induct [where P = "\<lambda>rd' n acc s r. rd' = rd \<longrightarrow> f (snd r) = f s", THEN mp])
  fix fill rd' n acc s and r :: "(bytes \<times> fault option) \<times> 's"
  assume ih: "\<And>rd' n acc s r. fill rd' n acc s = Some r \<Longrightarrow> rd' = rd \<longrightarrow> f (snd r) = f s"
    and run: "(if n \<le> length acc then Some ((acc, None), s)
      else case rd' (n - length acc) s of (Inl e, s') \<Rightarrow> Some ((acc, Some e), s')
           | (Inr bs, s') \<Rightarrow> fill rd' n (acc @ bs) s') = Some r"
  show "rd' = rd \<longrightarrow> f (snd r) = f s"
  proof
    assume [simp]: "rd' = rd"
    obtain x s1 where 1: "rd (n - length acc) s = (x, s1)" by fastforce
    have "f s1 = f s" by (rule quietD [OF quiet_rd 1])
    with run 1 show "f (snd r) = f s"
      by (auto split: if_splits sum.splits dest!: ih)
  qed
qed auto

lemma ReadFull_quiet [quiet_intro]: "quiet f (io_ReadFull rd n)"
  by (auto simp: quiet_def io_ReadFull_def split: option.splits prod.splits dest!: fill_quiet)

lemma readers_quiet [quiet_intro]:
  "quiet f (binary_Read rd n)" "quiet f (readByte rd)" "quiet f (readUshort rd)" "quiet f (readUcs2 rd n)"
  "quiet f (readUsVarChar rd)" "quiet f (readBVarChar rd)" "quiet f (readBVarByte rd)"
  unfolding binary_Read_def readByte_def readUshort_def readUcs2_def readUsVarChar_def readBVarChar_def
    readBVarByte_def
  by (intro quiet_intro)+

end

section \<open>The session makes progress\<close>

abbreviation sleft :: "tdsSession \<Rightarrow> nat" where "sleft s \<equiv> left (s_buf s)"
abbreviation eleft :: "env_state \<Rightarrow> nat" where "eleft st \<equiv> sleft (snd st)"
abbreviation sent_before :: "env_state \<Rightarrow> event list" where "sent_before st \<equiv> s_events (snd st)"

lemma on_buf_tame [tame_intro]: "tame left m \<Longrightarrow> tame sleft (on_buf m)"
  by (fastforce simp: tame_def on_buf_def split: prod.splits)

lemma on_buf_live: "live left m \<Longrightarrow> live sleft (on_buf m)"
  by (fastforce simp: live_def tame_def on_buf_def split: prod.splits)

lemma on_buf_quiet [quiet_intro]: "quiet s_events (on_buf m)"
  by (auto simp: quiet_def on_buf_def split: prod.splits)

interpretation sessp: progress_reader sess_Read sleft
  by unfold_locales (simp add: sess_Read_def on_buf_live tdsp.progress)

interpretation envp: progress_reader env_rd eleft
  unfolding env_rd_def by (rule sessp.limited_progress)

interpretation envq: quiet_reader env_rd sent_before
proof
  fix n
  have "s_events s' = s_events s" if "sess_Read k s = (x, s')" for k s x s'
    using that quietD [OF on_buf_quiet] by (auto simp: sess_Read_def)
  then show "quiet sent_before (env_rd n)"
    by (fastforce simp: quiet_def env_rd_def limited_read_def split: if_splits prod.splits sum.splits)
qed

lemmas [tame_intro] = envp.strings_tame envp.readByte_live [THEN live_tame]
  envp.readUshort_live [THEN live_tame] envp.binary_Read_live [THEN live_tame]

lemmas [quiet_intro] = envq.readers_quiet

lemma upd_tame [tame_intro]: "(\<And>s. sleft (f s) = sleft s) \<Longrightarrow> tame eleft (upd f)"
  by (auto simp: tame_def upd_def)

lemma upd_quiet [quiet_intro]: "(\<And>s. s_events (f s) = s_events s) \<Longrightarrow> quiet sent_before (upd f)"
  by (auto simp: quiet_def upd_def)

lemma assign_tame [tame_intro]:
  assumes "\<And>x s. sleft (f x s) = sleft s"
  shows "tame eleft (assign_BVarChar f)"
proof -
  have "y \<noteq> Inl Diverges \<and> eleft st' \<le> eleft st" if run: "assign_BVarChar f st = (y, st')" for y st st'
  proof -
    obtain z st1 where Pair: "readBVarChar env_rd st = (z, st1)" by (rule prod.exhaust)
    have t: "z \<noteq> Inl Diverges" "eleft st1 \<le> eleft st" using tameD [OF envp.strings_tame(2) Pair] by auto
    from run Pair t assms show ?thesis
      by (cases st1) (auto simp: assign_BVarChar_def upd_def gthen_def gbind_def graise_run split: sum.splits fault.splits)
  qed
  then show ?thesis by (simp add: tame_def)
qed

lemma assign_quiet [quiet_intro]:
  assumes "\<And>x s. s_events (f x s) = s_events s"
  shows "quiet sent_before (assign_BVarChar f)"
proof -
  have "sent_before st' = sent_before st" if run: "assign_BVarChar f st = (y, st')" for y st st'
  proof -
    obtain z st1 where Pair: "readBVarChar env_rd st = (z, st1)" by (rule prod.exhaust)
    with run assms quietD [OF envq.readers_quiet(6) Pair] show ?thesis
      by (cases st1) (auto simp: assign_BVarChar_def upd_def gthen_def gbind_def graise_run split: sum.splits fault.splits)
  qed
  then show ?thesis by (simp add: quiet_def)
qed

lemma raw_tame [tame_intro]: "tame eleft readBVarByte_raw"
proof -
  have "y \<noteq> Inl Diverges \<and> eleft st' \<le> eleft st" if run: "readBVarByte_raw st = (y, st')" for y st st'
  proof -
    obtain z st1 where Pair: "readByte env_rd st = (z, st1)" by (rule prod.exhaust)
    have t: "z \<noteq> Inl Diverges" "eleft st1 \<le> eleft st"
      using tameD [OF envp.readByte_live [THEN live_tame] Pair] by auto
    show ?thesis
    proof (cases z)
      case (Inl f)
      with run Pair t show ?thesis by (auto simp: readBVarByte_raw_def split: fault.splits)
    next
      case (Inr len)
      obtain acc e st2 where 2: "io_fill env_rd (unat len) [] st1 = Some ((acc, e), st2)"
        "e \<noteq> Some Diverges" "eleft st2 \<le> eleft st1" using envp.fill_returns by blast
      with run Pair t Inr show ?thesis
        by (auto simp: readBVarByte_raw_def short_read_def split: option.splits fault.splits if_splits)
    qed
  qed
  then show ?thesis by (simp add: tame_def)
qed

lemma raw_quiet [quiet_intro]: "quiet sent_before readBVarByte_raw"
proof -
  have "sent_before st' = sent_before st" if run: "readBVarByte_raw st = (y, st')" for y st st'
  proof -
    obtain z st1 where Pair: "readByte env_rd st = (z, st1)" by (rule prod.exhaust)
    have t: "sent_before st1 = sent_before st" using quietD [OF envq.readers_quiet(2) Pair] .
    from run Pair t show ?thesis
      by (auto simp: readBVarByte_raw_def split: option.splits fault.splits sum.splits prod.splits dest!: envq.fill_quiet)
  qed
  then show ?thesis by (simp add: quiet_def)
qed

lemma tame_option [tame_intro]:
  "tame f a \<Longrightarrow> (\<And>y. tame f (b y)) \<Longrightarrow> tame f (case x of None \<Rightarrow> a | Some y \<Rightarrow> b y)"
  by (cases x) simp_all

lemma resize_frame: "left (snd (ResizeBuffer n r)) = left r"
  by (simp add: ResizeBuffer_def left_def)

lemma env_tame [tame_intro]: "tame eleft (env_record t)"
  unfolding env_record_def env_packet_size_def env_collation_def env_begin_tran_def env_routing_def
    skip_BVarChar_def skip_BVarByte_def split_def
  by (intro tame_intro) (simp_all add: resize_frame)

lemma env_quiet [quiet_intro]: "quiet sent_before (env_record t)"
  unfolding env_record_def env_packet_size_def env_collation_def env_begin_tran_def env_routing_def
    skip_BVarChar_def skip_BVarByte_def split_def
  by (intro quiet_intro) simp_all

lemma env_returns:
  "\<exists>x st'. env_loop st = Some (x, st') \<and> x \<noteq> Inl Diverges \<and> eleft st' \<le> eleft st \<and> sent_before st' = sent_before st"
proof (induction "eleft st" arbitrary: st rule: less_induct)
  case less
  have lv: "live eleft (binary_Read env_rd 1 :: (env_state, byte) go)" by (rule envp.binary_Read_live) simp
  obtain y st1 where 1: "(binary_Read env_rd 1 :: (env_state, byte) go) st = (y, st1)" by (rule prod.exhaust)
  have t: "y \<noteq> Inl Diverges" "eleft st1 \<le> eleft st" "sent_before st1 = sent_before st"
    using tameD [OF live_tame [OF lv] 1] quietD [OF envq.readers_quiet(1) 1] by auto
  show ?case
  proof (cases y)
    case (Inl f)
    with 1 t show ?thesis by (cases st1; cases f) (auto simp: env_loop.simps)
  next
    case (Inr et)
    then have lt: "eleft st1 < eleft st" using liveD [OF lv] 1 by blast
    obtain z st2 where 2: "env_record et st1 = (z, st2)" by (rule prod.exhaust)
    have t2: "z \<noteq> Inl Diverges" "eleft st2 \<le> eleft st1" "sent_before st2 = sent_before st1"
      using tameD [OF env_tame 2] quietD [OF env_quiet 2] by auto
    show ?thesis
    proof (cases z)
      case (Inl f)
      with 1 2 t t2 lt Inr show ?thesis by (auto simp: env_loop.simps)
    next
      case (Inr go_on)
      show ?thesis
      proof (cases go_on)
        case True
        from lt t2 less.hyps [of st2] obtain x st' where
          "env_loop st2 = Some (x, st')" "x \<noteq> Inl Diverges" "eleft st' \<le> eleft st2" "sent_before st' = sent_before st2"
          by auto
        with 1 2 Inr True lt t t2 \<open>y = Inr et\<close> show ?thesis by (auto simp: env_loop.simps [of st])
      next
        case False
        with 1 2 Inr lt t t2 \<open>y = Inr et\<close> show ?thesis by (auto simp: env_loop.simps [of st])
      qed
    qed
  qed
qed

lemma processEnvChg_ok: "tame sleft processEnvChg" "quiet s_events processEnvChg"
proof -
  let ?k = "\<lambda>sz :: u16. \<lambda>s. case env_loop (int (unat sz), s) of None \<Rightarrow> (Inl Diverges, s) | Some (x, (_, s')) \<Rightarrow> (x, s')"
  have "y \<noteq> Inl Diverges \<and> sleft s' \<le> sleft s \<and> s_events s' = s_events s" if "?k sz s = (y, s')" for sz s y s'
    using that env_returns [of "(int (unat sz), s)"] by (auto split: option.splits prod.splits)
  then have k: "tame sleft (?k sz)" "quiet s_events (?k sz)" for sz
    by (simp_all add: tame_def quiet_def)
  show "tame sleft processEnvChg" "quiet s_events processEnvChg"
    unfolding processEnvChg_def by (intro tame_intro quiet_intro k)+
qed

section \<open>The parsers return\<close>

lemma repeat_tame [tame_intro]: "tame f m \<Longrightarrow> tame f (repeat n m)"
  by (induction n) (simp_all add: tame_bind tame_ret)

lemma uint16s_tame [tame_intro]: "tame left (r_uint16s n)"
  by (induction n) (simp, intro tame_intro, simp, intro tame_intro, assumption)

lemma small_parsers_tame [tame_intro]:
  "tame left parseReturnStatus" "tame left parseOrder" "tame left parseTabName" "tame left parseColInfo"
  "tame left parseDone" "tame left parseDoneInProc" "tame left parseSSPIMsg" "tame left parseError72" "tame left parseInfo"
  unfolding parseReturnStatus_def parseOrder_def parseTabName_def parseColInfo_def parseDone_def
    parseDoneInProc_def parseSSPIMsg_def parseError72_def parseInfo_def
  by (intro tame_intro)+

lemma fedAuth_clean [clean]: "fedAuth_opts sz off dat opts res \<noteq> Inl Diverges"
proof (induction opts arbitrary: res)
  case (Cons opt opts)
  have "fedAuth_opt sz off dat opt res \<noteq> Inl Diverges"
    by (auto simp: fedAuth_opt_def Let_def split: sum.splits)
  then show ?case using Cons by (simp add: clean)
qed simp

lemma loginAck_clean [clean]: "loginAck sz buf \<noteq> Inl Diverges"
  by (auto simp: loginAck_def Let_def split: sum.splits)

lemma fedAuth_opts_tame [tame_intro]: "tame left (read_fedAuth_opts n)"
  by (induction n) (simp, intro tame_intro, simp, intro tame_intro, assumption)

lemma login_parsers_tame [tame_intro]: "tame left parseFedAuthInfo" "tame left parseLoginAck"
  unfolding parseFedAuthInfo_def parseLoginAck_def Let_def by (intro tame_intro clean)+

lemma ignore_err_tame [tame_intro]: "tame f m \<Longrightarrow> tame f (ignore_err m)"
  by (fastforce simp: tame_def ignore_err_def split: prod.splits sum.splits fault.splits)

lemma featureAck_tame [tame_intro]: "tame left (featureAck t n)"
  unfolding featureAck_def fedAuthAck_def colAck_def read_32_if_def Let_def split_def by (intro tame_intro)

lemma featureAcks_returns:
  "\<exists>x r'. featureAcks ack r = Some (x, r') \<and> x \<noteq> Inl Diverges \<and> left r' \<le> left r"
proof (induction "left r" arbitrary: ack r rule: less_induct)
  case less
  let ?one = "\<lambda>feature. gbind r_uint32 (\<lambda>len. gbind (featureAck feature len) (\<lambda>(a, len).
                       gthen (if 0 < len then ignore_err (io_CopyN Read (unat len)) else gret ()) (gret a)))"
  have one: "tame left (?one feature)" for feature unfolding split_def by (intro tame_intro)
  obtain y r1 where 1: "r_byte r = (y, r1)" by (rule prod.exhaust)
  have t: "y \<noteq> Inl Diverges" "left r1 \<le> left r" using tameD [OF live_tame [OF r_byte_live] 1] by auto
  show ?case
  proof (cases y)
    case (Inl f)
    with 1 t show ?thesis by (auto simp: featureAcks.simps)
  next
    case (Inr feature)
    then have lt: "left r1 < left r" using liveD [OF r_byte_live] 1 by blast
    obtain z r2 where 2: "?one feature r1 = (z, r2)" by (rule prod.exhaust)
    have t2: "z \<noteq> Inl Diverges" "left r2 \<le> left r1" using tameD [OF one 2] by auto
    show ?thesis
    proof (cases z)
      case (Inl f)
      with 1 2 t2 lt Inr show ?thesis by (auto simp: featureAcks.simps [of ack])
    next
      case (Inr a)
      from lt t2 less.hyps [of r2 "a @ ack"] obtain x r' where
        "featureAcks (a @ ack) r2 = Some (x, r')" "x \<noteq> Inl Diverges" "left r' \<le> left r2" by auto
      with 1 2 Inr lt t2 \<open>y = Inr feature\<close> show ?thesis by (auto simp: featureAcks.simps [of ack])
    qed
  qed
qed

lemma parseFeatureExtAck_tame [tame_intro]: "tame left parseFeatureExtAck"
proof -
  have "x \<noteq> Inl Diverges \<and> left r' \<le> left r" if "parseFeatureExtAck r = (x, r')" for x r r'
    using that featureAcks_returns [of "[]" r] by (auto simp: parseFeatureExtAck_def)
  then show ?thesis by (auto simp: tame_def)
qed

lemma readMdVersion_tame [tame_intro]: "tame left readMdVersion"
proof -
  have "x \<noteq> Inl Diverges \<and> left r' \<le> left r" if "readMdVersion r = (x, r')" for x r r'
    using that tameD [OF live_tame [OF tdsp.progress [of 8]], of r]
    by (cases "Read 8 r") (auto simp: readMdVersion_def split: sum.splits fault.splits)
  then show ?thesis by (auto simp: tame_def)
qed

lemma metadata_tame [tame_intro]:
  "tame left (getBaseTypeInfo b)" "tame left (readCekTable d)" "tame left (parseCryptoMetadata d table)"
  unfolding getBaseTypeInfo_def readCekTable_def readCekTableEntry_def readCekValue_def read_doubled_def
    parseCryptoMetadata_def Let_def
  by (intro tame_intro; simp)+

lemma columns_tame [tame_intro]: "tame left (parseColMetadata72 d ae)" "tame left (parseReturnValue d ae e)"
  unfolding parseColMetadata72_def readColumn_def parseReturnValue_def Let_def by (intro tame_intro)+

lemma decrypt_clean: "Decrypt hmac D a xs \<noteq> Inl Diverges"
  by (auto simp: Decrypt_def Let_def NewAESCbcPKCS5_def AES_Decrypt_def PKCS5Trim_def)

lemma read_cell_clean [clean]: "read_cell d e c v \<noteq> Inl Diverges"
proof -
  have a: "decryptColumn d c v \<noteq> Inl Diverges"
    using decrypt_clean
    by (auto simp: decryptColumn_def cek_value_def nil_panic_def sbind_def Let_def
        split: option.splits sum.splits val.splits fault.splits)
  have "fst (read_value db ti True e r) \<noteq> Inl Diverges" for db ti r
    using tameD [OF read_value_tame, of db ti True e r] by (metis prod.collapse)
  then show ?thesis unfolding read_cell_def split_def by (intro clean a)
qed

lemma rows_tame [tame_intro]: "tame left (parseRow d e cols)" "tame left (parseNbcRow d e cols)"
proof -
  show "tame left (parseRow d e cols)"
    by (induction cols) (simp, intro tame_intro, simp, intro tame_intro clean, assumption)
  have "tame left (parse_nbc d e pres i cols)" for pres i
  proof (induction cols arbitrary: i)
    case (Cons c cols)
    show ?case unfolding parse_nbc.simps by (intro tame_intro clean Cons)
  qed (simp add: tame_ret)
  then show "tame left (parseNbcRow d e cols)" unfolding parseNbcRow_def by (intro tame_intro)
qed

section \<open>What a response sends\<close>

fun sent :: "event list \<Rightarrow> token list" where
  "sent [] = []"
| "sent (Send t # es) = t # sent es"
| "sent (e # es) = sent es"

text \<open>The tokens after which no more follow: a final done, an error that ends the response, and the two
  login messages that wait for an answer.\<close>

fun closing :: "token \<Rightarrow> bool" where
  "closing (SSPIMsg _) = True"
| "closing (FedAuthInfo _) = True"
| "closing (DoneInProc dn) = (Status dn AND doneMore = 0)"
| "closing (Done dn) = (Status dn AND doneMore = 0)"
| "closing (TokErr (ScanError _)) = False"
| "closing (TokErr _) = True"
| "closing _ = False"

lemma sent_append [simp]: "sent (es @ es') = sent es @ sent es'"
  by (induction es rule: sent.induct) simp_all

definition open_so_far :: "event list \<Rightarrow> bool" where
  "open_so_far evs \<longleftrightarrow> Close \<notin> set evs \<and> (\<forall>t \<in> set (sent evs). \<not> closing t)"

definition closed_once :: "event list \<Rightarrow> bool" where
  "closed_once evs \<longleftrightarrow>
     Close \<notin> set evs \<and> (\<exists>ts t. sent evs = ts @ [t] \<and> closing t \<and> (\<forall>u \<in> set ts. \<not> closing u))"

definition step_ok :: "fault + loop option \<Rightarrow> event list \<Rightarrow> bool" where
  "step_ok x evs \<longleftrightarrow> (case x of Inr None \<Rightarrow> closed_once evs | _ \<Rightarrow> open_so_far evs)"

definition steps :: "(tdsSession, loop option) go \<Rightarrow> bool" where
  "steps m \<longleftrightarrow> (\<forall>s x s'. m s = (x, s') \<longrightarrow>
     x \<noteq> Inl Diverges \<and> sleft s' \<le> sleft s \<and> (\<exists>evs. s_events s' = s_events s @ evs \<and> step_ok x evs))"

lemma steps_bind:
  assumes "tame sleft m" "quiet s_events m" "\<And>x. steps (k x)"
  shows "steps (gbind m k)"
  unfolding steps_def
proof (intro allI impI)
  fix s x s' assume run: "gbind m k s = (x, s')"
  obtain y s1 where 1: "m s = (y, s1)" by (rule prod.exhaust)
  have t: "y \<noteq> Inl Diverges" "sleft s1 \<le> sleft s" "s_events s1 = s_events s"
    using tameD [OF assms(1) 1] quietD [OF assms(2) 1] by auto
  show "x \<noteq> Inl Diverges \<and> sleft s' \<le> sleft s \<and> (\<exists>evs. s_events s' = s_events s @ evs \<and> step_ok x evs)"
  proof (cases y)
    case (Inl f)
    with run 1 t show ?thesis by (auto simp: step_ok_def open_so_far_def)
  next
    case (Inr a)
    with run 1 have "k a s1 = (x, s')" by simp
    with assms(3) [of a] t show ?thesis unfolding steps_def by (metis order_trans)
  qed
qed

lemma steps_parse: "tame left m \<Longrightarrow> (\<And>x. steps (k x)) \<Longrightarrow> steps (gbind (on_buf m) k)"
  by (intro steps_bind tame_intro quiet_intro)

lemma emit_run: "emit e s = (Inr (), s\<lparr>s_events := s_events s @ [e]\<rparr>)"
  by (simp add: emit_def)

lemmas tail_simps = steps_def step_ok_def open_so_far_def closed_once_def gthen_def gbind_def
  send_tok_def enqueue_def emit_run gret_run

lemma steps_send:
  "\<not> closing t \<Longrightarrow> steps (gthen (send_tok t) (gret (Some l)))"
  "closing t \<Longrightarrow> steps (gthen (send_tok t) (gret None))"
  by (auto simp: tail_simps)

lemma steps_done:
  assumes "\<And>dn. closing (mk dn) \<longleftrightarrow> Status dn AND doneMore = 0"
  shows "steps (gthen (rows_affected outs l dn) (gthen (send_tok (mk dn)) (after_done outs l dn)))"
  using assms by (auto simp: tail_simps rows_affected_def after_done_def)

lemma steps_handle_done: "steps (handle_done_in_proc outs l)" "steps (handle_done outs l)"
proof -
  show "steps (handle_done_in_proc outs l)"
    unfolding handle_done_in_proc_def by (intro steps_parse tame_intro steps_done) simp
  have "steps (gthen (send_tok (TokErr (ServerError e))) (gthen (enqueue outs MsgNextResultSet) (gret None)))" for e
    by (auto simp: tail_simps)
  then show "steps (handle_done outs l)"
    unfolding handle_done_def Let_def
    by (intro steps_parse tame_intro) (simp add: steps_done)
qed

lemma steps_handle_row:
  assumes "tame left m" shows "steps (handle_row m l)"
  unfolding steps_def
proof (intro allI impI)
  fix s x s' assume run: "handle_row m l s = (x, s')"
  obtain y s1 where 1: "on_buf m s = (y, s1)" by (rule prod.exhaust)
  have t: "y \<noteq> Inl Diverges" "sleft s1 \<le> sleft s" "s_events s1 = s_events s"
    using tameD [OF on_buf_tame [OF assms] 1] quietD [OF on_buf_quiet 1] by auto
  from run 1 t show "x \<noteq> Inl Diverges \<and> sleft s' \<le> sleft s \<and> (\<exists>evs. s_events s' = s_events s @ evs \<and> step_ok x evs)"
    by (cases y) (auto simp: handle_row_def tail_simps split: fault.splits)
qed

lemma steps_at: "(\<And>s0. steps (m s0)) \<Longrightarrow> steps (\<lambda>s. m s s)"
  by (simp add: steps_def)

lemma steps_return_value: "steps (handle_return_value d outs l)"
proof -
  have "steps (gthen (emit (Scanned nm v)) (gthen (case scan v of None \<Rightarrow> gret () | Some e \<Rightarrow> send_tok (TokErr (ScanError e)))
                      (gret (Some l))))" for nm v and scan :: "val \<Rightarrow> err option"
    by (auto simp: tail_simps split: option.splits)
  moreover have "steps (gret (Some l))" by (auto simp: tail_simps)
  ultimately have "steps (gbind (on_buf (parseReturnValue d ae en)) (\<lambda>(name, v).
       if name = [] then gret (Some l)
       else (case o_params outs (tl name) of
               None \<Rightarrow> gret (Some l)
             | Some scan \<Rightarrow>
                 gthen (emit (Scanned (tl name) v))
                   (gthen (case scan v of None \<Rightarrow> gret () | Some e \<Rightarrow> send_tok (TokErr (ScanError e)))
                      (gret (Some l))))))" for ae en
    by (intro steps_parse tame_intro) (auto split: option.splits)
  then show ?thesis unfolding handle_return_value_def by (rule steps_at)
qed

lemma steps_if: "steps a \<Longrightarrow> steps b \<Longrightarrow> steps (\<lambda>s. if c then a s else b s)"
  by (simp add: steps_def)

lemma steps_tail: "steps (gret (Some l))" "steps (gthen (enqueue outs m) (gret (Some l)))"
  "steps (gthen (send_tok (Columns cols)) (gthen (enqueue outs MsgNext) (gret (Some l))))"
  "steps (graise (StreamPanic e))"
  by (auto simp: tail_simps graise_run)

lemma steps_then: "tame sleft m \<Longrightarrow> quiet s_events m \<Longrightarrow> steps k \<Longrightarrow> steps (gthen m k)"
  by (simp add: gthen_def steps_bind)

lemma steps_metadata:
  "steps (\<lambda>s. gbind (on_buf (parseColMetadata72 d (s_alwaysEncrypted s))) (\<lambda>cols.
             gthen (send_tok (Columns cols)) (gthen (enqueue outs MsgNext)
               (gret (Some (l\<lparr>l_columns := cols, l_colsReceived := True\<rparr>))))) s)"
  by (rule steps_at) (intro steps_parse tame_intro steps_tail)

lemma steps_rows:
  "steps (\<lambda>s. handle_row (parseRow d (s_encoding s) cols) l s)"
  "steps (\<lambda>s. handle_row (parseNbcRow d (s_encoding s) cols) l s)"
  by (rule steps_at, intro steps_handle_row tame_intro)+

lemma steps_token: "steps (handle_token d outs l t)"
  unfolding handle_token_def
  by (intro steps_if steps_metadata steps_rows steps_handle_done steps_return_value steps_parse steps_then
      steps_send steps_tail tame_intro processEnvChg_ok quiet_intro) simp_all

lemma response_loop_returns:
  "\<exists>x s' evs. response_loop d outs l s = Some (x, s') \<and> x \<noteq> Inl Diverges \<and> s_events s' = s_events s @ evs
     \<and> (case x of Inr _ \<Rightarrow> closed_once evs | Inl _ \<Rightarrow> open_so_far evs)"
proof (induction "sleft s" arbitrary: l s rule: less_induct)
  case less
  let ?m = "gbind (on_buf r_byte) (handle_token d outs l)"
  obtain y s1 where 1: "?m s = (y, s1)" by (rule prod.exhaust)
  have "steps ?m" by (intro steps_parse tame_intro steps_token)
  with 1 obtain evs where t: "y \<noteq> Inl Diverges" "s_events s1 = s_events s @ evs" "step_ok y evs"
    unfolding steps_def by blast
  have "live sleft ?m"
  proof (rule live_bind)
    show "live sleft (on_buf r_byte)" by (intro on_buf_live r_byte_live)
    show "tame sleft (handle_token d outs l x)" for x
      using steps_token [of d outs l x] by (auto simp: steps_def tame_def)
  qed
  note lv = this
  show ?case
  proof (cases y)
    case (Inl f)
    with 1 t show ?thesis by (auto simp: response_loop.simps step_ok_def)
  next
    case (Inr o')
    then have lt: "sleft s1 < sleft s" using liveD [OF lv] 1 by blast
    show ?thesis
    proof (cases o')
      case None
      with 1 t Inr show ?thesis by (auto simp: response_loop.simps step_ok_def)
    next
      case (Some l')
      from less.hyps [OF lt, of l'] obtain x s' evs' where
        "response_loop d outs l' s1 = Some (x, s')" "x \<noteq> Inl Diverges" "s_events s' = s_events s1 @ evs'"
        "case x of Inr _ \<Rightarrow> closed_once evs' | Inl _ \<Rightarrow> open_so_far evs'" by blast
      moreover from t Inr Some have "open_so_far evs" by (simp add: step_ok_def)
      ultimately show ?thesis using 1 Inr Some t
        by (auto simp: response_loop.simps [of d outs l] open_so_far_def closed_once_def split: sum.splits)
    qed
  qed
qed

lemma response_body_returns:
  "\<exists>x s' evs. response_body d outs s = (x, s') \<and> x \<noteq> Inl Diverges \<and> s_events s' = s_events s @ evs
     \<and> (case x of Inr _ \<Rightarrow> closed_once evs | Inl _ \<Rightarrow> open_so_far evs)"
proof -
  have "tame left BeginRead"
    using readNextPacket_frame
    by (fastforce simp: tame_def BeginRead_def gthen_def gbind_def split: prod.splits sum.splits)
  note tame = on_buf_tame [OF this]
  obtain y s1 where 1: "on_buf BeginRead s = (y, s1)" by (rule prod.exhaust)
  have t: "y \<noteq> Inl Diverges" "s_events s1 = s_events s"
    using tameD [OF tame 1] quietD [OF on_buf_quiet 1] by auto
  show ?thesis
  proof (cases y)
    case (Inl f)
    with 1 t show ?thesis
      by (cases f) (auto simp: response_body_def send_tok_def emit_run closed_once_def open_so_far_def)
  next
    case (Inr pt)
    with 1 t response_loop_returns [of d outs "\<lparr>l_columns = [], l_errs = [], l_colsReceived = False\<rparr>" s1]
    show ?thesis by (cases "pt = packReply") (auto simp: response_body_def open_so_far_def)
  qed
qed

lemma response_closed_once:
  "\<exists>s' evs. processSingleResponse d outs s = (Inr (), s')
     \<and> s_events s' = s_events s @ evs @ [Close] \<and> closed_once evs"
proof -
  obtain x s1 evs where b: "response_body d outs s = (x, s1)" "x \<noteq> Inl Diverges" "s_events s1 = s_events s @ evs"
    "case x of Inr _ \<Rightarrow> closed_once evs | Inl _ \<Rightarrow> open_so_far evs"
    using response_body_returns by blast
  show ?thesis
  proof (cases x)
    case (Inl f)
    with b have p: "processSingleResponse d outs s =
        gthen (enqueue outs (MsgFault f)) (gthen (send_tok (TokErr (Recovered f))) (emit Close)) s1" "open_so_far evs"
      by (cases f; simp add: processSingleResponse_def)+
    show ?thesis unfolding p(1)
      using b(3) p(2) by (fastforce simp: tail_simps)
  next
    case (Inr u)
    with b show ?thesis
      by (fastforce simp: processSingleResponse_def emit_run)
  qed
qed

text \<open>
  C3. Reading a response always ends, for every state of the buffer and whatever bytes the peer
  sends: \<open>processSingleResponse\<close> returns, having closed the channel, and before that it sent
  exactly one token that ends the response (a final DONE, an error, or a login message that waits for an
  answer), as the last one.
\<close>

theorem response_returns:
  "\<exists>s' evs ts t. processSingleResponse d outs s = (Inr (), s')
     \<and> s_events s' = s_events s @ evs @ [Close] \<and> Close \<notin> set evs
     \<and> sent evs = ts @ [t] \<and> closing t \<and> filter closing ts = []"
  using response_closed_once [of d outs s] by (fastforce simp: closed_once_def filter_empty_conv)

end
