(* ===== verification/Tds_Reply.thy ===== *)
theory Tds_Reply
  imports Tds_Response Tds_Message
begin

text \<open>
  A specification of a response as the peer means it, and its refinement by the reader: a response
  is a list of replies, each with its form on the wire and with what the reader owes to the
  application for it. The reader, fed the packets of such a response, does exactly that.
\<close>

unbundle bit_operations_syntax

section \<open>Replies\<close>

text \<open>
  A column is its user type, flags, type and name; a value its raw bytes. A done reply names its
  token: DONE, DONEPROC or DONEINPROC.
\<close>

record column =
  cUserType :: u32
  cFlags :: u16
  cType :: typeInfo
  cName :: string

datatype reply =
    RStatus int
  | ROrder "u16 list"
  | RTabName bytes
  | RColInfo bytes
  | RError sqlError
  | RInfo sqlError
  | RColumns "column list"
  | RRow "bytes list"
  | RDone byte u16 u16 u64
  | RDatabase string string
  | RBeginTran u64
  | REndTran bool u64

definition error_bytes :: "sqlError \<Rightarrow> bytes" where
  "error_bytes e =
     le_bytes 2 (0 :: u16) @ le_bytes 4 (word_of_int (e_Number e) :: u32) @ [e_State e] @ [e_Class e]
       @ usvarchar (e_Message e) @ bvarchar (e_ServerName e) @ bvarchar (e_ProcName e)
       @ le_bytes 4 (word_of_int (e_LineNo e) :: u32)"

definition column_bytes :: "column \<Rightarrow> bytes" where
  "column_bytes c = le_bytes 4 (cUserType c) @ le_bytes 2 (cFlags c) @ typeinfo_bytes (cType c) False @ bvarchar (cName c)"

definition env_bytes :: "bytes \<Rightarrow> bytes" where
  "env_bytes xs = le_bytes 2 (word_of_nat (length xs) :: u16) @ xs"

fun reply_bytes :: "EncodeParameters \<Rightarrow> typeInfo list \<Rightarrow> reply \<Rightarrow> bytes" where
  "reply_bytes e tis (RStatus n) = tokenReturnStatus # le_bytes 4 (word_of_int n :: u32)"
| "reply_bytes e tis (ROrder cols) =
     tokenOrder # le_bytes 2 (word_of_nat (2 * length cols) :: u16) @ concat (map (le_bytes 2) cols)"
| "reply_bytes e tis (RTabName xs) = tokenTabName # le_bytes 2 (word_of_nat (length xs) :: u16) @ xs"
| "reply_bytes e tis (RColInfo xs) = tokenColInfo # le_bytes 2 (word_of_nat (length xs) :: u16) @ xs"
| "reply_bytes e tis (RError er) = tokenError # error_bytes er"
| "reply_bytes e tis (RInfo er) = tokenInfo # error_bytes er"
| "reply_bytes e tis (RColumns cs) =
     tokenColMetadata # le_bytes 2 (word_of_nat (length cs) :: u16) @ concat (map column_bytes cs)"
| "reply_bytes e tis (RRow vs) = tokenRow # concat (map2 (\<lambda>ti xs. value_bytes ti e xs) tis vs)"
| "reply_bytes e tis (RDone t st cmd n) = t # le_bytes 2 st @ le_bytes 2 cmd @ le_bytes 8 n"
| "reply_bytes e tis (RDatabase new old) = tokenEnvChange # env_bytes (1 # bvarchar new @ bvarchar old)"
| "reply_bytes e tis (RBeginTran t) = tokenEnvChange # env_bytes (8 # 8 # le_bytes 8 t @ [0])"
| "reply_bytes e tis (REndTran commit t) =
     tokenEnvChange # env_bytes ((if commit then 9 else 10) # 0 # 8 # le_bytes 8 t)"

section \<open>What the reader owes\<close>

text \<open>Between two replies: the columns in force, the errors so far, whether columns came since the last
  done, the database and the transaction.\<close>

record rstate =
  st_columns :: "column list"
  st_errors :: "sqlError list"
  st_fresh :: bool
  st_database :: string
  st_tran :: u64

definition str_ok :: "nat \<Rightarrow> string \<Rightarrow> bool" where
  "str_ok n s \<longleftrightarrow> utf16_len s \<le> n \<and> valid_utf8 s"

definition error_ok :: "sqlError \<Rightarrow> bool" where
  "error_ok e \<longleftrightarrow> e_Number e \<in> {- (2 ^ 31) ..< 2 ^ 31} \<and> e_LineNo e \<in> {- (2 ^ 31) ..< 2 ^ 31} \<and> e_All e = []
     \<and> str_ok 0xFFFF (e_Message e) \<and> str_ok 0xFF (e_ServerName e) \<and> str_ok 0xFF (e_ProcName e)"

definition column_ok :: "column \<Rightarrow> bool" where
  "column_ok c \<longleftrightarrow> sendable (cType c) \<and> TypeId (cType c) \<noteq> typeGuid \<and> str_ok 0xFF (cName c) \<and> \<not> isEncryptedFlag (cFlags c)"

text \<open>What the metadata of a column needs to be read back.\<close>

definition described :: "column \<Rightarrow> bool" where
  "described c \<longleftrightarrow> sendable (cType c) \<and> str_ok 0xFF (cName c)"

lemma column_ok_described: "column_ok c \<Longrightarrow> described c"
  by (simp add: column_ok_def described_def)

definition seen_column :: "column \<Rightarrow> columnStruct" where
  "seen_column c =
     \<lparr>col_UserType = cUserType c, col_Flags = cFlags c, ColName = cName c,
      col_ti = (received (cType c) False)\<lparr>UserType := cUserType c, Flags := cFlags c, TypeId := TypeId (cType c)\<rparr>, cryptoMeta = None\<rparr>"

fun row_values :: "dbcs \<Rightarrow> EncodeParameters \<Rightarrow> column list \<Rightarrow> bytes list \<Rightarrow> val list option" where
  "row_values db e [] [] = Some []"
| "row_values db e (c # cs) (xs # vs) =
     (if value_fits (cType c) xs
      then (case value_of db (received (cType c) False) e xs of
              Inr v \<Rightarrow> map_option ((#) v) (row_values db e cs vs)
            | Inl _ \<Rightarrow> None)
      else None)"
| "row_values db e _ _ = None"

definition queued :: "outputs \<Rightarrow> message \<Rightarrow> event list" where
  "queued outs m = (if o_msgq outs then [Queue m] else [])"

definition done_events :: "outputs \<Rightarrow> rstate \<Rightarrow> (doneStruct \<Rightarrow> token) \<Rightarrow> doneStruct \<Rightarrow> event list" where
  "done_events outs st mk dn =
     (if Status dn AND doneCount \<noteq> 0 \<and> (st_fresh st \<or> CurCmd dn \<noteq> cmdSelect)
      then queued outs (MsgRowsAffected (sint (RowCount dn))) else [])
     @ [Send (mk dn)] @ queued outs MsgNextResultSet
     @ (if Status dn AND doneMore = 0 then queued outs MsgNextResultSet else [])"

text \<open>
  One reply: \<open>None\<close> when it is no legal reply here, otherwise what is sent and queued, the
  state after it, and whether the response goes on.
\<close>

fun owed :: "dbcs \<Rightarrow> EncodeParameters \<Rightarrow> outputs \<Rightarrow> rstate \<Rightarrow> reply \<Rightarrow> (event list \<times> rstate \<times> bool) option" where
  "owed db e outs st (RStatus n) =
     (if n \<in> {- (2 ^ 31) ..< 2 ^ 31} then Some ([Send (ReturnStatus n)], st, True) else None)"
| "owed db e outs st (ROrder cols) =
     (if 2 * length cols < 2 ^ 16 then Some ([Send (Order cols)], st, True) else None)"
| "owed db e outs st (RTabName xs) = (if length xs < 2 ^ 16 then Some ([], st, True) else None)"
| "owed db e outs st (RColInfo xs) = (if length xs < 2 ^ 16 then Some ([], st, True) else None)"
| "owed db e outs st (RError er) =
     (if error_ok er then Some (queued outs (MsgError er), st\<lparr>st_errors := st_errors st @ [er]\<rparr>, True) else None)"
| "owed db e outs st (RInfo er) = (if error_ok er then Some (queued outs (MsgNotice er), st, True) else None)"
| "owed db e outs st (RColumns cs) =
     (if list_all column_ok cs \<and> length cs < 0xffff
      then Some (Send (Columns (map seen_column cs)) # queued outs MsgNext, st\<lparr>st_columns := cs, st_fresh := True\<rparr>, True)
      else None)"
| "owed db e outs st (RRow vs) =
     (case row_values db e (st_columns st) vs of
        None \<Rightarrow> None | Some row \<Rightarrow> Some ([Send (Row row)], st, True))"
| "owed db e outs st (RDone t stat cmd n) =
     (let dn = \<lparr>Status = stat, CurCmd = cmd, RowCount = n, done_errors = []\<rparr>;
          go_on = (stat AND doneMore \<noteq> 0) in
      if t = tokenDoneInProc then Some (done_events outs st DoneInProc dn, st\<lparr>st_fresh := False\<rparr>, go_on)
      else if t = tokenDone \<or> t = tokenDoneProc
      then (let dn = dn\<lparr>done_errors := st_errors st\<rparr>;
                st' = (if o_msgq outs then st\<lparr>st_errors := []\<rparr> else st) in
            if stat AND doneSrvError \<noteq> 0
            then Some (Send (TokErr (ServerError (getError dn))) # queued outs MsgNextResultSet, st', False)
            else Some (done_events outs st Done dn, st'\<lparr>st_fresh := False\<rparr>, go_on))
      else None)"
| "owed db e outs st (RDatabase new old) =
     (if str_ok 0xFF new \<and> str_ok 0xFF old then Some ([], st\<lparr>st_database := new\<rparr>, True) else None)"
| "owed db e outs st (RBeginTran t) = Some ([], st\<lparr>st_tran := t\<rparr>, True)"
| "owed db e outs st (REndTran commit t) = Some ([], st\<lparr>st_tran := 0\<rparr>, True)"

text \<open>A whole response: it ends with the first reply that ends it.\<close>

fun owed_all ::
    "dbcs \<Rightarrow> EncodeParameters \<Rightarrow> outputs \<Rightarrow> rstate \<Rightarrow> reply list \<Rightarrow> (bytes \<times> event list \<times> rstate) option" where
  "owed_all db e outs st [] = None"
| "owed_all db e outs st (r # rs) =
     (let bs = reply_bytes e (map cType (st_columns st)) r in
      case owed db e outs st r of
        None \<Rightarrow> None
      | Some (evs, st', go_on) \<Rightarrow>
          if go_on
          then map_option (\<lambda>(bs', evs', st''). (bs @ bs', evs @ evs', st'')) (owed_all db e outs st' rs)
          else if rs = [] then Some (bs, evs, st') else None)"

section \<open>Reading within a session\<close>

text \<open>
  \<open>does e m xs x evs\<close>: in a session with encoding \<open>e\<close> and without encrypted columns,
  \<open>m\<close> takes the bytes \<open>xs\<close> off the stream, returns \<open>x\<close>, and emits \<open>evs\<close>;
  nothing else of the session changes.
\<close>

named_theorems does_intro

definition does :: "EncodeParameters \<Rightarrow> (tdsSession, 'a) go \<Rightarrow> bytes \<Rightarrow> 'a \<Rightarrow> event list \<Rightarrow> bool" where
  "does e m xs x evs \<longleftrightarrow>
     (\<forall>s ys. s_encoding s = e \<longrightarrow> \<not> s_alwaysEncrypted s \<longrightarrow> rok (s_buf s) \<longrightarrow> stream (s_buf s) = xs @ ys \<longrightarrow>
        (\<exists>b. m s = (Inr x, s\<lparr>s_buf := b, s_events := s_events s @ evs\<rparr>) \<and> rok b \<and> stream b = ys))"

lemma doesI:
  assumes "\<And>s ys. \<lbrakk>s_encoding s = e; \<not> s_alwaysEncrypted s; rok (s_buf s); stream (s_buf s) = xs @ ys\<rbrakk> \<Longrightarrow>
        \<exists>b. m s = (Inr x, s\<lparr>s_buf := b, s_events := s_events s @ evs\<rparr>) \<and> rok b \<and> stream b = ys"
  shows "does e m xs x evs"
  using assms by (simp add: does_def)

lemma doesD:
  assumes "does e m xs x evs" "s_encoding s = e" "\<not> s_alwaysEncrypted s" "rok (s_buf s)" "stream (s_buf s) = xs @ ys"
  obtains b where "m s = (Inr x, s\<lparr>s_buf := b, s_events := s_events s @ evs\<rparr>)" "rok b" "stream b = ys"
  using assms unfolding does_def by blast

lemma does_bind:
  assumes "does e m xs x e1" "does e (k x) ys y e2"
  shows "does e (gbind m k) (xs @ ys) y (e1 @ e2)"
proof (rule doesI)
  fix s :: tdsSession and zs assume s: "s_encoding s = e" "\<not> s_alwaysEncrypted s" "rok (s_buf s)" "stream (s_buf s) = (xs @ ys) @ zs"
  obtain b where b: "m s = (Inr x, s\<lparr>s_buf := b, s_events := s_events s @ e1\<rparr>)" "rok b" "stream b = ys @ zs"
    by (rule doesD [OF assms(1) s(1-3), of "ys @ zs"]) (use s(4) in auto)
  let ?s = "s\<lparr>s_buf := b, s_events := s_events s @ e1\<rparr>"
  obtain c where c: "k x ?s = (Inr y, ?s\<lparr>s_buf := c, s_events := s_events ?s @ e2\<rparr>)" "rok c" "stream c = zs"
    by (rule doesD [OF assms(2), of ?s zs]) (use s b in auto)
  from b(1) c show "\<exists>b. gbind m k s = (Inr y, s\<lparr>s_buf := b, s_events := s_events s @ e1 @ e2\<rparr>) \<and> rok b \<and> stream b = zs"
    by auto
qed

lemma does_then: "does e m xs x e1 \<Longrightarrow> does e k ys y e2 \<Longrightarrow> does e (gthen m k) (xs @ ys) y (e1 @ e2)"
  by (simp add: gthen_def does_bind)

lemma does_on_buf:
  assumes "reads m xs x" shows "does e (on_buf m) xs x []"
proof (rule doesI)
  fix s :: tdsSession and ys assume "rok (s_buf s)" "stream (s_buf s) = xs @ ys"
  from readsD [OF assms this] obtain b where "m (s_buf s) = (Inr x, b)" "rok b" "stream b = ys" by blast
  then show "\<exists>b. on_buf m s = (Inr x, s\<lparr>s_buf := b, s_events := s_events s @ []\<rparr>) \<and> rok b \<and> stream b = ys"
    by (auto simp: on_buf_def)
qed

lemma does_small:
  "does e (gret x) [] x []" "does e (emit ev) [] () [ev]" "does e (send_tok t) [] () [Send t]"
  "does e (enqueue outs m) [] () (queued outs m)"
proof -
  show r: "does e (gret x) [] x []" for x :: 'b by (rule doesI) (auto simp: gret_run intro!: exI [of _ "s_buf _"])
  show em: "does e (emit ev) [] () [ev]" for ev by (rule doesI) (auto simp: emit_def intro!: exI [of _ "s_buf _"])
  show "does e (send_tok t) [] () [Send t]" by (simp add: send_tok_def em)
  show "does e (enqueue outs m) [] () (queued outs m)" using r [of "()"] em by (simp add: enqueue_def queued_def r)
qed

section \<open>The parsers on well-formed replies\<close>

lemma sint_range: "n \<in> {- (2 ^ 31) ..< 2 ^ 31} \<Longrightarrow> sint (word_of_int n :: u32) = n"
  by (simp add: signed_of_int signed_take_bit_int_eq_self)

lemma reads_int: "n \<in> {- (2 ^ 31) ..< 2 ^ 31} \<Longrightarrow> reads r_int32 (le_bytes 4 (word_of_int n :: u32)) n"
  using reads_int32 [of "word_of_int n"] sint_range [of n] by simp

lemma reads_str: "str_ok 0xFF s \<Longrightarrow> reads r_BVarChar (bvarchar s) s" "str_ok 0xFFFF s \<Longrightarrow> reads r_UsVarChar (usvarchar s) s"
  using reads_BVarChar_or [of s] reads_UsVarChar_or [of s] by (auto simp: str_ok_def sanitized_valid)

lemma reads_uint16s: "reads (r_uint16s (length cols)) (concat (map (le_bytes 2) cols)) cols"
proof (induction cols)
  case (Cons c cols)
  show ?case
    unfolding r_uint16s.simps list.size add_0_right add_Suc_right list.map concat.simps
    by (rule reads_bind, rule reads_uint16, rule reads_map [OF Cons, where f = "(#) c"])
qed (simp add: reads_ret)

lemma reads_Order:
  assumes "2 * length cols < 2 ^ 16"
  shows "reads parseOrder (le_bytes 2 (word_of_nat (2 * length cols) :: u16) @ concat (map (le_bytes 2) cols)) cols"
  unfolding parseOrder_def
proof (rule reads_bind [OF reads_uint16])
  have "unat (word_of_nat (2 * length cols) :: u16) div 2 = length cols"
    using assms unfolding unat_of_nat by simp
  then show "reads (r_uint16s (unat (word_of_nat (2 * length cols) :: u16) div 2)) (concat (map (le_bytes 2) cols)) cols"
    using reads_uint16s by (simp only:)
qed

lemma reads_skipped:
  assumes "length xs < 2 ^ 16"
  shows "reads parseTabName (le_bytes 2 (word_of_nat (length xs) :: u16) @ xs) ()"
    "reads parseColInfo (le_bytes 2 (word_of_nat (length xs) :: u16) @ xs) ()"
proof -
  have "reads (gthen (or_panic (io_CopyN Read (length xs))) (gret ())) xs ()"
    using reads_then [OF reads_or_panic [OF reads_CopyN [OF refl]] reads_ret, of xs "()"] by simp
  then show "reads parseTabName (le_bytes 2 (word_of_nat (length xs) :: u16) @ xs) ()"
    "reads parseColInfo (le_bytes 2 (word_of_nat (length xs) :: u16) @ xs) ()"
    unfolding parseTabName_def parseColInfo_def
    by (rule_tac [!] reads_bind [OF reads_uint16]) (use assms in \<open>simp_all add: unat_of_nat\<close>)
qed

lemma reads_Error:
  assumes "error_ok er"
  shows "reads parseError72 (error_bytes er) er" "reads parseInfo (error_bytes er) er"
proof -
  obtain num st cl msg srv prc ln al where er: "er = SqlError num st cl msg srv prc ln al" by (cases er)
  with assms have ok: "num \<in> {- (2 ^ 31) ..< 2 ^ 31}" "ln \<in> {- (2 ^ 31) ..< 2 ^ 31}" "al = []"
    "str_ok 0xFFFF msg" "str_ok 0xFF srv" "str_ok 0xFF prc" by (auto simp: error_ok_def)
  have "reads parseError72 (le_bytes 2 (0 :: u16) @ le_bytes 4 (word_of_int num :: u32) @ [st] @ [cl]
       @ usvarchar msg @ bvarchar srv @ bvarchar prc @ le_bytes 4 (word_of_int ln :: u32) @ []) (SqlError num st cl msg srv prc ln [])"
    unfolding parseError72_def
    by (rule reads_then reads_bind reads_uint16 reads_int reads_byte reads_str reads_ret ok)+
  then show "reads parseError72 (error_bytes er) er" by (simp add: er ok error_bytes_def)
  moreover have "parseInfo = parseError72" by (simp add: parseInfo_def parseError72_def)
  ultimately show "reads parseInfo (error_bytes er) er" by simp
qed

lemma reads_Done:
  "reads parseDone (le_bytes 2 st @ le_bytes 2 cmd @ le_bytes 8 n) \<lparr>Status = st, CurCmd = cmd, RowCount = n, done_errors = []\<rparr>"
  "reads parseDoneInProc (le_bytes 2 st @ le_bytes 2 cmd @ le_bytes 8 n) \<lparr>Status = st, CurCmd = cmd, RowCount = n, done_errors = []\<rparr>"
proof -
  have "reads parseDone (le_bytes 2 st @ le_bytes 2 cmd @ le_bytes 8 n @ []) \<lparr>Status = st, CurCmd = cmd, RowCount = n, done_errors = []\<rparr>"
    unfolding parseDone_def by (rule reads_bind reads_uint16 reads_uint64 reads_ret)+
  then show "reads parseDone (le_bytes 2 st @ le_bytes 2 cmd @ le_bytes 8 n) \<lparr>Status = st, CurCmd = cmd, RowCount = n, done_errors = []\<rparr>"
    "reads parseDoneInProc (le_bytes 2 st @ le_bytes 2 cmd @ le_bytes 8 n) \<lparr>Status = st, CurCmd = cmd, RowCount = n, done_errors = []\<rparr>"
    by (simp_all add: parseDone_def parseDoneInProc_def)
qed

lemma reads_byte_dep:
  assumes "reads (gbind r_byte f) (b # xs) y" "reads (k b y) ys z"
  shows "reads (gbind r_byte (\<lambda>t. gbind (f t) (k t))) (b # xs @ ys) z"
  unfolding reads_def
proof (intro allI impI)
  fix r zs assume r: "rok r" "stream r = (b # xs @ ys) @ zs"
  obtain r1 where r1: "r_byte r = (Inr b, r1)" using readsD [OF reads_byte r(1), of b] r(2) by auto
  obtain r2 where r2: "gbind r_byte f r = (Inr y, r2)" "rok r2" "stream r2 = ys @ zs"
    using readsD [OF assms(1) r(1), of "ys @ zs"] r(2) by auto
  from r1 r2(1) have "f b r1 = (Inr y, r2)" by simp
  with readsD [OF assms(2) r2(2,3)] r1
  show "\<exists>r'. gbind r_byte (\<lambda>t. gbind (f t) (k t)) r = (Inr z, r') \<and> rok r' \<and> stream r' = zs" by auto
qed

lemma typeinfo_head: obtains xs where "typeinfo_bytes ti out = TypeId ti # xs"
  by (simp add: typeinfo_bytes_def Let_def)

lemma TypeId_received: "TypeId (received ti out) = TypeId ti"
  by (simp add: received_def set_size_def Let_def typeInfo_zero_def)

lemma reads_Column:
  assumes "described c" shows "reads (readColumn d False table) (column_bytes c) (seen_column c)"
proof -
  let ?k = "\<lambda>ut fl t ti. gbind r_BVarChar (\<lambda>name. gret \<lparr>col_UserType = ut, col_Flags = fl, ColName = name,
       col_ti = ti\<lparr>UserType := ut, Flags := fl, TypeId := t\<rparr>, cryptoMeta = None\<rparr>)"
  have e: "readColumn d False table = gbind r_uint32 (\<lambda>ut. gbind r_uint16 (\<lambda>fl. gbind r_byte (\<lambda>t. gbind (readTypeInfo t) (?k ut fl t))))"
    by (simp add: readColumn_def getBaseTypeInfo_def gbind_assoc Let_def)
  let ?ti = "cType c"
  have ok: "sendable ?ti" "str_ok 0xFF (cName c)" using assms by (auto simp: described_def)
  have "reads (?k (cUserType c) (cFlags c) (TypeId ?ti) (received ?ti False)) (bvarchar (cName c)) (seen_column c)"
    by (rule reads_bind_nil [OF reads_str(1) [OF ok(2)]])
      (simp add: seen_column_def reads_ret)
  note name = this
  obtain xs where xs: "typeinfo_bytes ?ti False = TypeId ?ti # xs" by (rule typeinfo_head)
  note k = reads_byte_dep [where k = "?k (cUserType c) (cFlags c)", OF reads_TypeInfo [OF ok(1), of False, unfolded xs] name]
  have "reads (readColumn d False table) (le_bytes 4 (cUserType c) @ le_bytes 2 (cFlags c) @ TypeId ?ti # xs @ bvarchar (cName c)) (seen_column c)"
    unfolding e by (rule reads_bind reads_uint32 reads_uint16 k)+
  then show ?thesis by (simp add: column_bytes_def xs)
qed

lemma reads_repeat:
  assumes "\<And>x. x \<in> set xs \<Longrightarrow> reads m (f x) (g x)"
  shows "reads (repeat (length xs) m) (concat (map f xs)) (map g xs)"
  using assms
proof (induction xs)
  case (Cons x xs)
  have "reads (gbind (repeat (length xs) m) (\<lambda>ys. gret (g x # ys))) (concat (map f xs)) (g x # map g xs)"
    by (rule reads_map [where f = "(#) (g x)"]) (use Cons in simp)
  with Cons.prems [of x] show ?case by (simp add: reads_bind)
qed (simp add: reads_ret)

lemma reads_Columns:
  assumes "list_all described cs" "length cs < 0xffff"
  shows "reads (parseColMetadata72 d False)
     (le_bytes 2 (word_of_nat (length cs) :: u16) @ concat (map column_bytes cs)) (map seen_column cs)"
  unfolding parseColMetadata72_def
proof (rule reads_bind [OF reads_uint16])
  let ?n = "word_of_nat (length cs) :: u16"
  have n: "unat ?n = length cs" using assms(2) by (simp add: unat_of_nat)
  moreover have "unat (0xffff :: u16) = 65535" by simp
  ultimately have "?n \<noteq> 0xffff" using assms(2) by fastforce
  moreover have "reads (repeat (length cs) (readColumn d False None)) (concat (map column_bytes cs)) (map seen_column cs)"
    by (rule reads_repeat) (use assms(1) in \<open>auto simp: list_all_iff intro: reads_Column\<close>)
  ultimately show "reads (if ?n = 0xffff then gret []
       else gbind (if False then readCekTable d else gret None) (\<lambda>table. repeat (unat ?n) (readColumn d False table)))
      (concat (map column_bytes cs)) (map seen_column cs)"
    by (simp add: n)
qed

lemma read_value_frame:
  assumes "TypeId ti = t"
  shows "read_value db (ti\<lparr>UserType := u, Flags := f, TypeId := t\<rparr>) c e = read_value db ti c e"
proof -
  let ?ti = "ti\<lparr>UserType := u, Flags := f, TypeId := t\<rparr>"
  have f: "TypeId ?ti = TypeId ti" "Buffer ?ti = Buffer ti" "Scale ?ti = Scale ti" "Prec ?ti = Prec ti"
    "Coll ?ti = Coll ti" "Reader ?ti = Reader ti" using assms by simp_all
  show ?thesis
    by (simp only: read_value_def readFixedType_def readByteLenTypeWithEncoding_def readShortLenType_def
      readLongLenType_def readPLPType_def bytelen_value_def read_into_def plp_value_def f)
qed

lemma reads_Row:
  "list_all column_ok cs \<Longrightarrow> row_values (d_dbcs d) e cs vs = Some row \<Longrightarrow>
   reads (parseRow d e (map seen_column cs)) (concat (map2 (\<lambda>ti xs. value_bytes ti e xs) (map cType cs) vs)) row"
proof (induction "d_dbcs d" e cs vs arbitrary: row rule: row_values.induct)
  case (1 e)
  then show ?case by (simp add: reads_ret)
next
  case (2 e c cs xs vs)
  from 2(3) obtain v row' where v: "value_fits (cType c) xs" "value_of (d_dbcs d) (received (cType c) False) e xs = Inr v"
    "row_values (d_dbcs d) e cs vs = Some row'" "row = v # row'" by (auto split: if_splits sum.splits)
  from 2(2) have c: "sendable (cType c)" "TypeId (cType c) \<noteq> typeGuid" "\<not> isEncrypted (seen_column c)"
    by (auto simp: column_ok_def isEncrypted_def seen_column_def)
  have rd: "reads (read_value (d_dbcs d) (col_ti (seen_column c)) False e) (value_bytes (cType c) e xs) v"
    using reads_value [OF c(1) v(1,2) c(2)] by (simp add: seen_column_def read_value_frame TypeId_received)
  have "reads (parseRow d e (map seen_column cs)) (concat (map2 (\<lambda>ti xs. value_bytes ti e xs) (map cType cs) vs)) row'"
    using 2(1) [OF v(1,2)] 2(2) v(3) by simp
  from reads_bind [where f = "\<lambda>content. gbind (if content = VNil \<or> \<not> isEncrypted (seen_column c) then gret content
              else gfault (read_cell d e (seen_column c) content)) (\<lambda>v.
         gbind (parseRow d e (map seen_column cs)) (\<lambda>vs. gret (v # vs)))", OF rd] reads_map [where f = "(#) v", OF this]
  show ?case by (simp add: v(4) c(3))
qed simp_all

section \<open>ENVCHANGE records\<close>

text \<open>
  The limited reader over the session, as long as the record holds bytes: what is read comes off the
  stream and off the limit, and only the buffer of the session changes.
\<close>

definition ereads :: "(env_state, 'a) go \<Rightarrow> bytes \<Rightarrow> 'a \<Rightarrow> bool" where
  "ereads m xs x \<longleftrightarrow>
     (\<forall>N s ys. rok (s_buf s) \<longrightarrow> stream (s_buf s) = xs @ ys \<longrightarrow> int (length xs) \<le> N \<longrightarrow>
        (\<exists>b. m (N, s) = (Inr x, (N - int (length xs), s\<lparr>s_buf := b\<rparr>)) \<and> rok b \<and> stream b = ys))"

lemma ereadsD:
  assumes "ereads m xs x" "rok (s_buf s)" "stream (s_buf s) = xs @ ys" "int (length xs) \<le> N"
  obtains b where "m (N, s) = (Inr x, (N - int (length xs), s\<lparr>s_buf := b\<rparr>))" "rok b" "stream b = ys"
  using assms unfolding ereads_def by blast

lemma ereads_bind:
  assumes "ereads m xs x" "ereads (k x) ys y"
  shows "ereads (gbind m k) (xs @ ys) y"
  unfolding ereads_def
proof (intro allI impI)
  fix N and s :: tdsSession and zs
  assume s: "rok (s_buf s)" "stream (s_buf s) = (xs @ ys) @ zs" "int (length (xs @ ys)) \<le> N"
  obtain b where b: "m (N, s) = (Inr x, (N - int (length xs), s\<lparr>s_buf := b\<rparr>))" "rok b" "stream b = ys @ zs"
    by (rule ereadsD [OF assms(1) s(1), of "ys @ zs" N]) (use s in auto)
  obtain c where c: "k x (N - int (length xs), s\<lparr>s_buf := b\<rparr>)
      = (Inr y, (N - int (length xs) - int (length ys), s\<lparr>s_buf := b\<rparr>\<lparr>s_buf := c\<rparr>))" "rok c" "stream c = zs"
    by (rule ereadsD [OF assms(2), of "s\<lparr>s_buf := b\<rparr>" zs "N - int (length xs)"]) (use s b in auto)
  from b(1) c show "\<exists>b. gbind m k (N, s) = (Inr y, (N - int (length (xs @ ys)), s\<lparr>s_buf := b\<rparr>)) \<and> rok b \<and> stream b = zs"
    by (auto simp: diff_diff_eq)
qed

lemma ereads_ret: "ereads (gret x) [] x"
  unfolding ereads_def gret_run by (auto intro!: exI [of _ "s_buf _"])

lemma ereads_or_panic: "ereads m xs x \<Longrightarrow> ereads (or_panic m) xs x"
  unfolding ereads_def by (metis or_panic_Inr)

lemma Read_length: "Read k r = (Inr bs, r') \<Longrightarrow> length bs \<le> k"
  by (auto simp: Read_def gthen_def gbind_def Let_def split: prod.splits sum.splits if_splits)

lemma env_rd_run:
  assumes "0 < k" "int k \<le> N"
  shows "env_rd k (N, s) = (case Read k (s_buf s) of
     (Inl f, b) \<Rightarrow> (Inl f, (N, s\<lparr>s_buf := b\<rparr>))
   | (Inr bs, b) \<Rightarrow> (Inr bs, (N - int (length bs), s\<lparr>s_buf := b\<rparr>)))"
proof -
  have "min k (nat N) = k" using assms by auto
  then show ?thesis using assms
    by (auto simp: env_rd_def limited_read_def sess_Read_def on_buf_def split: prod.splits sum.splits)
qed

lemma env_fill:
  "io_fill Read n acc r = Some q \<Longrightarrow> snd (fst q) = None \<Longrightarrow> length acc \<le> n \<Longrightarrow> int (n - length acc) \<le> N \<Longrightarrow> s_buf s = r \<Longrightarrow>
   io_fill env_rd n acc (N, s) = Some (fst q, (N - int (n - length acc), s\<lparr>s_buf := snd q\<rparr>))"
proof (induction "left r" arbitrary: acc r N s rule: less_induct)
  case less
  show ?case
  proof (cases "n \<le> length acc")
    case True
    with less.prems show ?thesis by (auto simp: io_fill.simps)
  next
    case False
    then have k: "0 < n - length acc" by simp
    obtain x r1 where x: "Read (n - length acc) r = (x, r1)" by (rule prod.exhaust)
    note e = env_rd_run [OF k less.prems(4), of s]
    show ?thesis
    proof (cases x)
      case (Inl f)
      with less.prems(1,2) False x show ?thesis by (auto simp: io_fill.simps [of Read])
    next
      case (Inr bs)
      have lt: "left r1 < left r" using liveD [OF tdsp.progress [OF k]] x Inr by blast
      have l: "length bs \<le> n - length acc" using Read_length x Inr by blast
      have q: "io_fill Read n (acc @ bs) r1 = Some q"
        using less.prems(1) False x Inr by (simp add: io_fill.simps [of Read n acc])
      have "io_fill env_rd n (acc @ bs) (N - int (length bs), s\<lparr>s_buf := r1\<rparr>) =
          Some (fst q, (N - int (length bs) - int (n - length (acc @ bs)), s\<lparr>s_buf := r1\<rparr>\<lparr>s_buf := snd q\<rparr>))"
        by (rule less.hyps [OF lt q less.prems(2)]) (use l False less.prems(4) in auto)
      moreover have "N - int (length bs) - int (n - length (acc @ bs)) = N - int (n - length acc)"
        using l False by auto
      moreover have "io_fill env_rd n acc (N, s) = io_fill env_rd n (acc @ bs) (N - int (length bs), s\<lparr>s_buf := r1\<rparr>)"
        using False e x Inr less.prems(5) by (simp add: io_fill.simps [of env_rd n acc])
      ultimately show ?thesis by simp
    qed
  qed
qed

lemma ereads_ReadFull: "length xs = n \<Longrightarrow> ereads (io_ReadFull env_rd n) xs xs"
  unfolding ereads_def
proof (intro allI impI)
  fix N and s :: tdsSession and ys
  assume n: "length xs = n" and s: "rok (s_buf s)" "stream (s_buf s) = xs @ ys" "int (length xs) \<le> N"
  obtain b where b: "io_ReadFull Read n (s_buf s) = (Inr xs, b)" "rok b" "stream b = ys"
    using readsD [OF reads_io_ReadFull [OF n] s(1,2)] by blast
  then have "io_fill Read n [] (s_buf s) = Some ((xs, None), b)"
    by (auto simp: io_ReadFull_def split: option.splits prod.splits)
  from env_fill [OF this, of N s] b s(3) n
  show "\<exists>b. io_ReadFull env_rd n (N, s) = (Inr xs, (N - int (length xs), s\<lparr>s_buf := b\<rparr>)) \<and> rok b \<and> stream b = ys"
    by (auto simp: io_ReadFull_def)
qed

lemma ereads_Read1: "ereads (env_rd 1) [x] [x]"
  unfolding ereads_def
proof (intro allI impI)
  fix N and s :: tdsSession and ys
  assume s: "rok (s_buf s)" "stream (s_buf s) = [x] @ ys" "int (length [x]) \<le> N"
  obtain b where "Read 1 (s_buf s) = (Inr [x], b)" "rok b" "stream b = ys"
    using readsD [OF reads_Read1 s(1,2)] by blast
  with env_rd_run [of 1 N s] s(3)
  show "\<exists>b. env_rd 1 (N, s) = (Inr [x], (N - int (length [x]), s\<lparr>s_buf := b\<rparr>)) \<and> rok b \<and> stream b = ys"
    by auto
qed

lemma ereads_map: "ereads m xs x \<Longrightarrow> ereads (gbind m (\<lambda>y. gret (f y))) xs (f x)"
  using ereads_bind [where k = "\<lambda>y. gret (f y)", OF _ ereads_ret] by fastforce

lemma ereads_byte: "ereads (readByte env_rd) [b] b"
  unfolding readByte_def using ereads_map [OF ereads_Read1, of "\<lambda>b. case b of [] \<Rightarrow> 0 | x # _ \<Rightarrow> x" b] by simp

lemma ereads_binary1: "ereads (binary_Read env_rd 1 :: (env_state, byte) go) [b] b"
  unfolding binary_Read_def using ereads_map [OF ereads_ReadFull [of "[b]" 1], of "le_word :: bytes \<Rightarrow> byte"] by simp

lemma ereads_Ucs2:
  assumes "utf16_len s = n" "n < 2 ^ 31" "valid_utf8 s"
  shows "ereads (readUcs2 env_rd n) (str2ucs2 s) s"
proof -
  have l: "length (str2ucs2 s) = n * 2" using assms by (simp add: length_str2ucs2 utf16_len_def)
  have "(glift (ucs22str (str2ucs2 s)) :: (env_state, string) go) = gret s"
    using ucs22str_str2ucs2 [of s] sanitized_valid [OF assms(3)] l assms(2) by (simp add: sanitized_def glift_def)
  with ereads_bind [where k = "\<lambda>buf. glift (ucs22str buf)", OF ereads_ReadFull [OF l], of "[]" s] ereads_ret [of s]
  show ?thesis by (simp add: readUcs2_def)
qed

lemma ereads_BVarChar:
  assumes "str_ok 0xFF s" shows "ereads (readBVarChar env_rd) (bvarchar s) s"
proof -
  have ok: "utf16_len s \<le> 0xFF" "valid_utf8 s" using assms by (auto simp: str_ok_def)
  let ?k = "\<lambda>numchars :: byte. if numchars = 0 then gret [] else readUcs2 env_rd (unat numchars)"
  have u: "unat (word_of_nat (utf16_len s) :: byte) = utf16_len s" using ok(1) by (simp add: unat_of_nat)
  have "ereads (?k (word_of_nat (utf16_len s))) (str2ucs2 s) s"
  proof (cases "utf16_len s = 0")
    case True
    with utf16_empty [of s] sanitized_valid [OF ok(2)] have "str2ucs2 s = []" "s = []" by metis+
    with True show ?thesis by (simp add: ereads_ret)
  next
    case False
    with u have "word_of_nat (utf16_len s) \<noteq> (0 :: byte)" by auto
    with u ok show ?thesis by (simp add: ereads_Ucs2)
  qed
  from ereads_bind [where k = ?k, OF ereads_byte this] show ?thesis by (simp add: readBVarChar_def bvarchar_def)
qed

lemma ereads_BVarByte: "length xs < 256 \<Longrightarrow> ereads (readBVarByte env_rd) (word_of_nat (length xs) # xs) xs"
  using ereads_bind [where k = "\<lambda>len. io_ReadFull env_rd (unat len)",
      OF ereads_byte ereads_ReadFull, of xs "word_of_nat (length xs)"]
  by (simp add: readBVarByte_def unat_of_nat)

lemma ereads_skip:
  "str_ok 0xFF s \<Longrightarrow> ereads skip_BVarChar (bvarchar s) ()"
  "length xs < 256 \<Longrightarrow> ereads skip_BVarByte (word_of_nat (length xs) # xs) ()"
  unfolding skip_BVarChar_def skip_BVarByte_def gthen_def
  by (rule ereads_map [where f = "\<lambda>_. ()"], erule ereads_or_panic [OF ereads_BVarChar] ereads_or_panic [OF ereads_BVarByte])+

section \<open>ENVCHANGE replies\<close>

text \<open>\<open>changes e m xs f\<close>: the handler takes \<open>xs\<close> off the stream and changes the session by \<open>f\<close>.\<close>

definition changes :: "(tdsSession, 'a) go \<Rightarrow> bytes \<Rightarrow> 'a \<Rightarrow> (tdsSession \<Rightarrow> tdsSession) \<Rightarrow> bool" where
  "changes m xs x f \<longleftrightarrow>
     (\<forall>s ys. rok (s_buf s) \<longrightarrow> stream (s_buf s) = xs @ ys \<longrightarrow>
        (\<exists>b. m s = (Inr x, f (s\<lparr>s_buf := b\<rparr>)) \<and> rok b \<and> stream b = ys))"

text \<open>A record that fills the token: after it the limited reader is at its end.\<close>

definition record_does :: "byte \<Rightarrow> bytes \<Rightarrow> (tdsSession \<Rightarrow> tdsSession) \<Rightarrow> bool" where
  "record_does t xs f \<longleftrightarrow>
     (\<forall>s ys. rok (s_buf s) \<longrightarrow> stream (s_buf s) = xs @ ys \<longrightarrow>
        (\<exists>b. env_record t (int (length xs), s) = (Inr True, (0, f (s\<lparr>s_buf := b\<rparr>))) \<and> rok b \<and> stream b = ys))"

lemma env_end: "(binary_Read env_rd 1 :: (env_state, byte) go) (0, s) = (Inl (Err EOF), (0, s))"
  by (simp add: binary_Read_def io_ReadFull_def io_fill.simps env_rd_def limited_read_def short_read_def)

lemma changes_env:
  assumes "record_does t xs f" "length xs + 1 < 2 ^ 16"
  shows "changes processEnvChg (env_bytes (t # xs)) () f"
  unfolding changes_def
proof (intro allI impI)
  fix s :: tdsSession and ys
  assume s: "rok (s_buf s)" "stream (s_buf s) = env_bytes (t # xs) @ ys"
  have "unat (word_of_nat (length (t # xs)) :: u16) = length xs + 1" using assms(2) unfolding unat_of_nat by simp
  then obtain n where n: "unat (n :: u16) = length xs + 1" "env_bytes (t # xs) = le_bytes 2 n @ t # xs"
    unfolding env_bytes_def by blast
  obtain b where b: "r_uint16 (s_buf s) = (Inr n, b)" "rok b" "stream b = [t] @ xs @ ys"
    using readsD [OF reads_uint16 s(1), of n "t # xs @ ys"] s(2) n(2) by auto
  let ?s = "s\<lparr>s_buf := b\<rparr>"
  obtain c where c: "(binary_Read env_rd 1 :: (env_state, byte) go) (int (length xs + 1), ?s)
      = (Inr t, (int (length xs), ?s\<lparr>s_buf := c\<rparr>))" "rok c" "stream c = xs @ ys"
    by (rule ereadsD [OF ereads_binary1, of ?s t "xs @ ys" "int (length xs + 1)"]) (use b in auto)
  obtain d where d: "env_record t (int (length xs), ?s\<lparr>s_buf := c\<rparr>) = (Inr True, (0, f (s\<lparr>s_buf := d\<rparr>)))" "rok d" "stream d = ys"
    using assms(1) [unfolded record_does_def, rule_format, of "?s\<lparr>s_buf := c\<rparr>" ys] c by auto
  have e0: "env_loop (0, s) = Some (Inr (), (0, s))" for s
    by (subst env_loop.simps) (use env_end [of s] in simp)
  have "env_loop (int (length xs + 1), ?s) = Some (Inr (), (0, f (s\<lparr>s_buf := d\<rparr>)))"
    by (subst env_loop.simps) (use c(1) d(1) e0 in simp)
  then have "env_loop (int (unat n), ?s) = Some (Inr (), (0, f (s\<lparr>s_buf := d\<rparr>)))" by (simp only: n(1))
  with b(1) have "processEnvChg s = (Inr (), f (s\<lparr>s_buf := d\<rparr>))"
    by (simp add: processEnvChg_def on_buf_def)
  with d show "\<exists>b. processEnvChg s = (Inr (), f (s\<lparr>s_buf := b\<rparr>)) \<and> rok b \<and> stream b = ys" by blast
qed

lemma ereads_then: "ereads m xs x \<Longrightarrow> ereads k ys y \<Longrightarrow> ereads (gthen m k) (xs @ ys) y"
  by (simp add: gthen_def ereads_bind)

text \<open>The records in which a field of the session is assigned.\<close>

lemma record_database:
  assumes "str_ok 0xFF new" "str_ok 0xFF old"
  shows "record_does 1 (bvarchar new @ bvarchar old) (\<lambda>s. s\<lparr>s_database := new\<rparr>)"
  unfolding record_does_def
proof (intro allI impI)
  fix s :: tdsSession and ys
  assume s: "rok (s_buf s)" "stream (s_buf s) = (bvarchar new @ bvarchar old) @ ys"
  let ?N = "int (length (bvarchar new @ bvarchar old))"
  obtain b where b: "readBVarChar env_rd (?N, s) = (Inr new, (int (length (bvarchar old)), s\<lparr>s_buf := b\<rparr>))"
    "rok b" "stream b = bvarchar old @ ys"
    by (rule ereadsD [OF ereads_BVarChar [OF assms(1)] s(1), of "bvarchar old @ ys" ?N]) (use s in auto)
  obtain c where c: "skip_BVarChar (int (length (bvarchar old)), s\<lparr>s_buf := b, s_database := new\<rparr>)
      = (Inr (), (0, s\<lparr>s_buf := b, s_database := new\<rparr>\<lparr>s_buf := c\<rparr>))" "rok c" "stream c = ys"
    by (rule ereadsD [OF ereads_skip(1) [OF assms(2)], of "s\<lparr>s_buf := b, s_database := new\<rparr>" ys "int (length (bvarchar old))"])
      (use b in auto)
  have "env_record 1 (?N, s) = (Inr True, (0, s\<lparr>s_buf := c, s_database := new\<rparr>))"
    using b(1) c(1) by (simp add: env_record_def gthen_def gbind_def assign_BVarChar_def upd_def gret_run)
  with c show "\<exists>b. env_record 1 (?N, s) = (Inr True, (0, (s\<lparr>s_buf := b\<rparr>)\<lparr>s_database := new\<rparr>)) \<and> rok b \<and> stream b = ys"
    by auto
qed

lemma ereads_raw: "length xs < 256 \<Longrightarrow> ereads readBVarByte_raw (word_of_nat (length xs) # xs) (xs, None)"
  unfolding ereads_def
proof (intro allI impI)
  fix N and s :: tdsSession and ys
  assume l: "length xs < 256" and s: "rok (s_buf s)" "stream (s_buf s) = (word_of_nat (length xs) # xs) @ ys"
    "int (length (word_of_nat (length xs) # xs)) \<le> N"
  let ?n = "word_of_nat (length xs) :: byte"
  have n: "unat ?n = length xs" using l by (simp add: unat_of_nat)
  obtain b where b: "readByte env_rd (N, s) = (Inr ?n, (N - 1, s\<lparr>s_buf := b\<rparr>))" "rok b" "stream b = xs @ ys"
    by (rule ereadsD [OF ereads_byte s(1), of ?n "xs @ ys" N]) (use s in auto)
  obtain c where c: "io_ReadFull env_rd (length xs) (N - 1, s\<lparr>s_buf := b\<rparr>)
      = (Inr xs, (N - 1 - int (length xs), s\<lparr>s_buf := b\<rparr>\<lparr>s_buf := c\<rparr>))" "rok c" "stream c = ys"
    by (rule ereadsD [OF ereads_ReadFull [OF refl], of "s\<lparr>s_buf := b\<rparr>" xs ys "N - 1"]) (use b s in auto)
  then have "io_fill env_rd (length xs) [] (N - 1, s\<lparr>s_buf := b\<rparr>) = Some ((xs, None), (N - 1 - int (length xs), s\<lparr>s_buf := c\<rparr>))"
    by (auto simp: io_ReadFull_def split: option.splits prod.splits)
  with b(1) n c(2,3) show "\<exists>b. readBVarByte_raw (N, s) =
      (Inr (xs, None), (N - int (length (word_of_nat (length xs) # xs)), s\<lparr>s_buf := b\<rparr>)) \<and> rok b \<and> stream b = ys"
    by (auto simp: readBVarByte_raw_def)
qed

lemma record_begin_tran: "record_does 8 (8 # le_bytes 8 (t :: u64) @ [0]) (\<lambda>s. s\<lparr>s_tranid := t\<rparr>)"
  unfolding record_does_def
proof (intro allI impI)
  fix s :: tdsSession and ys
  assume s: "rok (s_buf s)" "stream (s_buf s) = (8 # le_bytes 8 t @ [0]) @ ys"
  have l: "length (8 # le_bytes 8 t @ [0]) = 10" by simp
  obtain b where b: "readBVarByte_raw (10, s) = (Inr (le_bytes 8 t, None), (1, s\<lparr>s_buf := b\<rparr>))" "rok b" "stream b = [0] @ ys"
    by (rule ereadsD [OF ereads_raw [of "le_bytes 8 t"] s(1), of "[0] @ ys" 10]) (use s in auto)
  let ?s = "s\<lparr>s_buf := b, s_tranid := t\<rparr>"
  obtain c where c: "skip_BVarByte (1, ?s) = (Inr (), (0, ?s\<lparr>s_buf := c\<rparr>))" "rok c" "stream c = ys"
    by (rule ereadsD [OF ereads_skip(2) [of "[]"], of ?s ys 1]) (use b in auto)
  have "env_record 8 (10, s) = (Inr True, (0, s\<lparr>s_buf := c, s_tranid := t\<rparr>))"
    using b(1) c(1) le_codec [of 8 t] by (simp add: env_record_def env_begin_tran_def gthen_def gbind_def upd_def gret_run)
  with c l show "\<exists>b. env_record 8 (int (length (8 # le_bytes 8 t @ [0])), s) = (Inr True, (0, (s\<lparr>s_buf := b\<rparr>)\<lparr>s_tranid := t\<rparr>)) \<and> rok b \<and> stream b = ys"
    by auto
qed

lemma record_end_tran:
  "record_does (if commit then 9 else 10) (0 # 8 # le_bytes 8 (t :: u64)) (\<lambda>s. s\<lparr>s_tranid := 0\<rparr>)"
  unfolding record_does_def
proof (intro allI impI)
  fix s :: tdsSession and ys
  assume s: "rok (s_buf s)" "stream (s_buf s) = (0 # 8 # le_bytes 8 t) @ ys"
  have e: "ereads (gthen skip_BVarByte skip_BVarByte) ([0] @ 8 # le_bytes 8 t) ()"
    using ereads_then [OF ereads_skip(2) [of "[]"] ereads_skip(2) [of "le_bytes 8 t"]] by simp
  obtain b where b: "gthen skip_BVarByte skip_BVarByte (10, s) = (Inr (), (0, s\<lparr>s_buf := b\<rparr>))" "rok b" "stream b = ys"
    by (rule ereadsD [OF e s(1), of ys 10]) (use s in auto)
  have "env_record (if commit then 9 else 10) = gthen (gthen skip_BVarByte skip_BVarByte) (gthen (upd (\<lambda>s. s\<lparr>s_tranid := 0\<rparr>)) (gret True))"
    by (simp add: env_record_def gthen_def gbind_assoc)
  with b show "\<exists>b. env_record (if commit then 9 else 10) (int (length (0 # 8 # le_bytes 8 t)), s) =
      (Inr True, (0, (s\<lparr>s_buf := b\<rparr>)\<lparr>s_tranid := 0\<rparr>)) \<and> rok b \<and> stream b = ys"
    by (auto simp: gthen_def gbind_def upd_def gret_run)
qed

section \<open>One reply\<close>

text \<open>How a session carries the state of the specification.\<close>

definition carries :: "EncodeParameters \<Rightarrow> rstate \<Rightarrow> tdsSession \<Rightarrow> bool" where
  "carries e st s \<longleftrightarrow> s_encoding s = e \<and> \<not> s_alwaysEncrypted s \<and> rok (s_buf s)
     \<and> s_database s = st_database st \<and> s_tranid s = st_tran st \<and> list_all column_ok (st_columns st)"

definition loop_of :: "rstate \<Rightarrow> loop" where
  "loop_of st = \<lparr>l_columns = map seen_column (st_columns st), l_errs = st_errors st, l_colsReceived = st_fresh st\<rparr>"

definition step_to :: "(tdsSession, loop option) go \<Rightarrow> EncodeParameters \<Rightarrow> rstate \<Rightarrow> bytes \<Rightarrow> event list \<Rightarrow> rstate \<Rightarrow> bool \<Rightarrow> bool" where
  "step_to m e st xs evs st' go_on \<longleftrightarrow>
     (\<forall>s ys. carries e st s \<longrightarrow> stream (s_buf s) = xs @ ys \<longrightarrow>
        (\<exists>s'. m s = (Inr (if go_on then Some (loop_of st') else None), s') \<and> carries e st' s'
            \<and> stream (s_buf s') = ys \<and> s_events s' = s_events s @ evs))"

lemma step_toI:
  assumes "does e m xs (if go_on then Some (loop_of st') else None) evs"
    and "st_database st' = st_database st" "st_tran st' = st_tran st"
    and "list_all column_ok (st_columns st) \<Longrightarrow> list_all column_ok (st_columns st')"
  shows "step_to m e st xs evs st' go_on"
  unfolding step_to_def
proof (intro allI impI)
  fix s ys assume s: "carries e st s" "stream (s_buf s) = xs @ ys"
  then have c: "s_encoding s = e" "\<not> s_alwaysEncrypted s" "rok (s_buf s)" by (auto simp: carries_def)
  obtain b where "m s = (Inr (if go_on then Some (loop_of st') else None), s\<lparr>s_buf := b, s_events := s_events s @ evs\<rparr>)"
    "rok b" "stream b = ys" by (rule doesD [OF assms(1) c s(2)])
  with s(1) assms(2-) show "\<exists>s'. m s = (Inr (if go_on then Some (loop_of st') else None), s') \<and> carries e st' s'
            \<and> stream (s_buf s') = ys \<and> s_events s' = s_events s @ evs"
    by (auto simp: carries_def)
qed

lemma step_to_env:
  assumes "changes processEnvChg xs () f" "\<And>s. s_buf (f s) = s_buf s" "\<And>s. s_events (f s) = s_events s"
    and "\<And>s. rok (s_buf s) \<Longrightarrow> carries e st s \<Longrightarrow> carries e st' (f s)" "loop_of st' = loop_of st"
  shows "step_to (gthen processEnvChg (gret (Some (loop_of st)))) e st xs [] st' True"
  unfolding step_to_def
proof (intro allI impI)
  fix s ys assume s: "carries e st s" "stream (s_buf s) = xs @ ys"
  then obtain b where b: "processEnvChg s = (Inr (), f (s\<lparr>s_buf := b\<rparr>))" "rok b" "stream b = ys"
    using assms(1) unfolding changes_def carries_def by blast
  have "carries e st' (f (s\<lparr>s_buf := b\<rparr>))" by (rule assms(4)) (use s b in \<open>auto simp: carries_def\<close>)
  with b assms(2,3,5) show "\<exists>s'. gthen processEnvChg (gret (Some (loop_of st))) s = (Inr (if True then Some (loop_of st') else None), s') \<and> carries e st' s'
            \<and> stream (s_buf s') = ys \<and> s_events s' = s_events s @ []"
    by (auto simp: gthen_def gret_run)
qed

text \<open>The handler of each token on its reply.\<close>

lemma does_send_on: "reads m xs x \<Longrightarrow> does e (gbind (on_buf m) (\<lambda>x. gthen (send_tok (mk x)) (gret r))) xs r [Send (mk x)]"
  using does_bind [where k = "\<lambda>x. gthen (send_tok (mk x)) (gret r)", OF does_on_buf [of m xs x e]
      does_then [OF does_small(3) [of e "mk x"] does_small(1) [of e r]]] by simp

lemma does_queue_on: "reads m xs x \<Longrightarrow> does e (gbind (on_buf m) (\<lambda>x. gthen (enqueue outs (mk x)) (gret (r x)))) xs (r x) (queued outs (mk x))"
  using does_bind [where k = "\<lambda>x. gthen (enqueue outs (mk x)) (gret (r x))", OF does_on_buf [of m xs x e]
      does_then [OF does_small(4) [of e outs "mk x"] does_small(1) [of e "r x"]]] by simp

lemma does_skip_on: "reads m xs () \<Longrightarrow> does e (gthen (on_buf m) (gret r)) xs r []"
  using does_then [OF does_on_buf [of m xs "()" e] does_small(1) [of e r]] by simp

lemma does_rows_affected:
  "does e (rows_affected outs (loop_of st) dn) [] ()
     (if Status dn AND doneCount \<noteq> 0 \<and> (st_fresh st \<or> CurCmd dn \<noteq> cmdSelect)
      then queued outs (MsgRowsAffected (sint (RowCount dn))) else [])"
  using does_small(1) [of e "()"] does_small(4) by (simp add: rows_affected_def loop_of_def)

lemma does_after_done:
  "does e (after_done outs l dn) [] (if Status dn AND doneMore \<noteq> 0 then Some (l\<lparr>l_colsReceived := False\<rparr>) else None)
     (queued outs MsgNextResultSet @ (if Status dn AND doneMore = 0 then queued outs MsgNextResultSet else []))"
proof (cases "Status dn AND doneMore = 0")
  case True
  then show ?thesis
    using does_then [OF does_small(4) [of e outs MsgNextResultSet] does_then [OF does_small(4) [of e outs MsgNextResultSet] does_small(1) [of e "None :: loop option"]]]
    by (simp add: after_done_def)
next
  case False
  then show ?thesis
    using does_then [OF does_small(4) [of e outs MsgNextResultSet] does_small(1) [of e "Some (l\<lparr>l_colsReceived := False\<rparr>)"]]
    by (simp add: after_done_def)
qed

lemma does_done_tail:
  "does e (gthen (rows_affected outs (loop_of st) dn) (gthen (send_tok (mk dn)) (after_done outs l dn))) []
     (if Status dn AND doneMore \<noteq> 0 then Some (l\<lparr>l_colsReceived := False\<rparr>) else None) (done_events outs st mk dn)"
  using does_then [OF does_rows_affected [of e outs st dn] does_then [OF does_small(3) [of e "mk dn"] does_after_done [of e outs l dn]]]
  by (simp add: done_events_def)

lemma step_to_cong:
  assumes "step_to m' e st xs evs st' go_on" "\<And>s. carries e st s \<Longrightarrow> m s = m' s"
  shows "step_to m e st xs evs st' go_on"
  using assms unfolding step_to_def by metis

lemma reply_status:
  assumes "n \<in> {- (2 ^ 31) ..< 2 ^ 31}"
  shows "step_to (handle_token d outs (loop_of st) tokenReturnStatus) e st (le_bytes 4 (word_of_int n :: u32)) [Send (ReturnStatus n)] st True"
proof (rule step_to_cong)
  show "step_to (gbind (on_buf parseReturnStatus) (\<lambda>x. gthen (send_tok (ReturnStatus x)) (gret (Some (loop_of st))))) e st
      (le_bytes 4 (word_of_int n :: u32)) [Send (ReturnStatus n)] st True"
    by (rule step_toI) (use does_send_on [OF reads_int [OF assms]] in \<open>simp_all add: parseReturnStatus_def\<close>)
qed (simp add: handle_token_def token_ids)

lemma reply_order:
  assumes "2 * length cols < 2 ^ 16"
  shows "step_to (handle_token d outs (loop_of st) tokenOrder) e st
     (le_bytes 2 (word_of_nat (2 * length cols) :: u16) @ concat (map (le_bytes 2) cols)) [Send (Order cols)] st True"
proof (rule step_to_cong)
  show "step_to (gbind (on_buf parseOrder) (\<lambda>x. gthen (send_tok (Order x)) (gret (Some (loop_of st))))) e st
      (le_bytes 2 (word_of_nat (2 * length cols) :: u16) @ concat (map (le_bytes 2) cols)) [Send (Order cols)] st True"
    by (rule step_toI) (use does_send_on [OF reads_Order [OF assms]] in simp_all)
qed (simp add: handle_token_def token_ids)

lemma reply_skipped:
  assumes "length xs < 2 ^ 16" "t = tokenTabName \<or> t = tokenColInfo"
  shows "step_to (handle_token d outs (loop_of st) t) e st (le_bytes 2 (word_of_nat (length xs) :: u16) @ xs) [] st True"
proof (rule step_to_cong)
  let ?m = "if t = tokenTabName then parseTabName else parseColInfo"
  have "reads ?m (le_bytes 2 (word_of_nat (length xs) :: u16) @ xs) ()" using reads_skipped [OF assms(1)] by simp
  note k = does_skip_on [OF this]
  show "step_to (gthen (on_buf ?m) (gret (Some (loop_of st)))) e st (le_bytes 2 (word_of_nat (length xs) :: u16) @ xs) [] st True"
    by (rule step_toI) (simp_all only: if_True k)
qed (use assms(2) in \<open>auto simp: handle_token_def token_ids\<close>)

lemma reply_error:
  assumes "error_ok er"
  shows "step_to (handle_token d outs (loop_of st) tokenError) e st (error_bytes er) (queued outs (MsgError er))
     (st\<lparr>st_errors := st_errors st @ [er]\<rparr>) True"
proof (rule step_to_cong)
  have l: "(loop_of st)\<lparr>l_errs := l_errs (loop_of st) @ [x]\<rparr> = loop_of (st\<lparr>st_errors := st_errors st @ [x]\<rparr>)" for x
    by (simp add: loop_of_def)
  show "step_to (gbind (on_buf parseError72) (\<lambda>x. gthen (enqueue outs (MsgError x))
          (gret (Some ((loop_of st)\<lparr>l_errs := l_errs (loop_of st) @ [x]\<rparr>))))) e st (error_bytes er) (queued outs (MsgError er))
     (st\<lparr>st_errors := st_errors st @ [er]\<rparr>) True"
    unfolding l by (rule step_toI)
      (use does_queue_on [OF reads_Error(1) [OF assms], where r = "\<lambda>x. Some (loop_of (st\<lparr>st_errors := st_errors st @ [x]\<rparr>))"] in simp_all)
qed (simp add: handle_token_def token_ids)

lemma reply_info:
  assumes "error_ok er"
  shows "step_to (handle_token d outs (loop_of st) tokenInfo) e st (error_bytes er) (queued outs (MsgNotice er)) st True"
proof (rule step_to_cong)
  show "step_to (gbind (on_buf parseInfo) (\<lambda>x. gthen (enqueue outs (MsgNotice x)) (gret (Some (loop_of st))))) e st
     (error_bytes er) (queued outs (MsgNotice er)) st True"
    by (rule step_toI) (use does_queue_on [OF reads_Error(2) [OF assms], where r = "\<lambda>x. Some (loop_of st)"] in simp_all)
qed (simp add: handle_token_def token_ids)

lemma reply_columns:
  assumes "list_all column_ok cs" "length cs < 0xffff"
  shows "step_to (handle_token d outs (loop_of st) tokenColMetadata) e st
     (le_bytes 2 (word_of_nat (length cs) :: u16) @ concat (map column_bytes cs))
     (Send (Columns (map seen_column cs)) # queued outs MsgNext) (st\<lparr>st_columns := cs, st_fresh := True\<rparr>) True"
proof (rule step_to_cong)
  let ?k = "\<lambda>cols. gthen (send_tok (Columns cols)) (gthen (enqueue outs MsgNext)
               (gret (Some ((loop_of st)\<lparr>l_columns := cols, l_colsReceived := True\<rparr>))))"
  have "does e (?k (map seen_column cs)) [] (Some ((loop_of st)\<lparr>l_columns := map seen_column cs, l_colsReceived := True\<rparr>))
      (Send (Columns (map seen_column cs)) # queued outs MsgNext)"
    using does_then [OF does_small(3) [of e "Columns (map seen_column cs)"] does_then [OF does_small(4) [of e outs MsgNext]
        does_small(1) [of e "Some ((loop_of st)\<lparr>l_columns := map seen_column cs, l_colsReceived := True\<rparr>)"]]] by simp
  have "list_all described cs" using assms(1) by (auto simp: list_all_iff column_ok_described)
  note t = does_bind [where k = ?k, OF does_on_buf [OF reads_Columns [OF this assms(2)]] \<open>does e (?k (map seen_column cs)) [] _ _\<close>]
  have l: "(loop_of st)\<lparr>l_columns := map seen_column cs, l_colsReceived := True\<rparr> = loop_of (st\<lparr>st_columns := cs, st_fresh := True\<rparr>)"
    by (simp add: loop_of_def)
  show "step_to (gbind (on_buf (parseColMetadata72 d False)) ?k) e st
     (le_bytes 2 (word_of_nat (length cs) :: u16) @ concat (map column_bytes cs))
     (Send (Columns (map seen_column cs)) # queued outs MsgNext) (st\<lparr>st_columns := cs, st_fresh := True\<rparr>) True"
    by (rule step_toI) (use t [of d] l assms in simp_all)
qed (simp add: handle_token_def token_ids carries_def)

lemma reply_row:
  assumes "row_values (d_dbcs d) e (st_columns st) vs = Some row"
  shows "step_to (handle_token d outs (loop_of st) tokenRow) e st
     (concat (map2 (\<lambda>ti xs. value_bytes ti e xs) (map cType (st_columns st)) vs)) [Send (Row row)] st True"
proof (rule step_to_cong)
  let ?xs = "concat (map2 (\<lambda>ti xs. value_bytes ti e xs) (map cType (st_columns st)) vs)"
  show "step_to (handle_row (parseRow d e (l_columns (loop_of st))) (loop_of st)) e st ?xs [Send (Row row)] st True"
    unfolding step_to_def
  proof (intro allI impI)
    fix s ys assume s: "carries e st s" "stream (s_buf s) = ?xs @ ys"
    then have c: "rok (s_buf s)" "list_all column_ok (st_columns st)" by (auto simp: carries_def)
    obtain b where "parseRow d e (map seen_column (st_columns st)) (s_buf s) = (Inr row, b)" "rok b" "stream b = ys"
      using readsD [OF reads_Row [OF c(2) assms] c(1) s(2)] by blast
    with s(1) show "\<exists>s'. handle_row (parseRow d e (l_columns (loop_of st))) (loop_of st) s =
        (Inr (if True then Some (loop_of st) else None), s') \<and> carries e st s' \<and> stream (s_buf s') = ys \<and> s_events s' = s_events s @ [Send (Row row)]"
      by (auto simp: handle_row_def on_buf_def loop_of_def gthen_def gbind_def send_tok_def emit_def gret_run carries_def)
  qed
qed (simp add: handle_token_def token_ids carries_def)

lemma reply_done_in_proc:
  fixes stat cmd n defines "dn \<equiv> \<lparr>Status = stat, CurCmd = cmd, RowCount = n, done_errors = []\<rparr>"
  shows "step_to (handle_token d outs (loop_of st) tokenDoneInProc) e st (le_bytes 2 stat @ le_bytes 2 cmd @ le_bytes 8 n)
     (done_events outs st DoneInProc dn) (st\<lparr>st_fresh := False\<rparr>) (stat AND doneMore \<noteq> 0)"
proof (rule step_to_cong)
  let ?k = "\<lambda>dn. gthen (rows_affected outs (loop_of st) dn) (gthen (send_tok (DoneInProc dn)) (after_done outs (loop_of st) dn))"
  have l: "(loop_of st)\<lparr>l_colsReceived := False\<rparr> = loop_of (st\<lparr>st_fresh := False\<rparr>)" by (simp add: loop_of_def)
  note t = does_bind [where k = ?k, OF does_on_buf [OF reads_Done(2) [of stat cmd n]] does_done_tail [where mk = DoneInProc]]
  show "step_to (handle_done_in_proc outs (loop_of st)) e st (le_bytes 2 stat @ le_bytes 2 cmd @ le_bytes 8 n)
     (done_events outs st DoneInProc dn) (st\<lparr>st_fresh := False\<rparr>) (stat AND doneMore \<noteq> 0)"
    unfolding handle_done_in_proc_def by (rule step_toI) (use t [of e] l in \<open>simp_all add: dn_def cong: if_cong\<close>)
qed (simp add: handle_token_def token_ids)

lemma reply_done:
  fixes stat cmd n st outs
  defines "dn \<equiv> \<lparr>Status = stat, CurCmd = cmd, RowCount = n, done_errors = st_errors st\<rparr>"
    and "st' \<equiv> (if o_msgq outs then st\<lparr>st_errors := []\<rparr> else st)"
  assumes "t = tokenDone \<or> t = tokenDoneProc"
  shows "if stat AND doneSrvError \<noteq> 0
     then step_to (handle_token d outs (loop_of st) t) e st (le_bytes 2 stat @ le_bytes 2 cmd @ le_bytes 8 n)
            (Send (TokErr (ServerError (getError dn))) # queued outs MsgNextResultSet) st' False
     else step_to (handle_token d outs (loop_of st) t) e st (le_bytes 2 stat @ le_bytes 2 cmd @ le_bytes 8 n)
            (done_events outs st Done dn) (st'\<lparr>st_fresh := False\<rparr>) (stat AND doneMore \<noteq> 0)"
proof -
  let ?raw = "\<lparr>Status = stat, CurCmd = cmd, RowCount = n, done_errors = []\<rparr>"
  let ?k = "\<lambda>dn. let dn = dn\<lparr>done_errors := l_errs (loop_of st)\<rparr>;
                     l = (if o_msgq outs then (loop_of st)\<lparr>l_errs := []\<rparr> else loop_of st) in
       if Status dn AND doneSrvError \<noteq> 0
       then gthen (send_tok (TokErr (ServerError (getError dn)))) (gthen (enqueue outs MsgNextResultSet) (gret None))
       else gthen (rows_affected outs l dn) (gthen (send_tok (Done dn)) (after_done outs l dn))"
  have l: "(if o_msgq outs then (loop_of st)\<lparr>l_errs := []\<rparr> else loop_of st) = loop_of st'" "l_errs (loop_of st) = st_errors st"
    by (simp_all add: loop_of_def st'_def)
  have k: "?k ?raw = (if stat AND doneSrvError \<noteq> 0
       then gthen (send_tok (TokErr (ServerError (getError dn)))) (gthen (enqueue outs MsgNextResultSet) (gret None))
       else gthen (rows_affected outs (loop_of st') dn) (gthen (send_tok (Done dn)) (after_done outs (loop_of st') dn)))"
    by (simp only: l Let_def dn_def) simp
  have h: "handle_done outs (loop_of st) = gbind (on_buf parseDone) ?k" by (simp only: handle_done_def)
  have t: "handle_token d outs (loop_of st) t = handle_done outs (loop_of st)"
    using assms(3) by (auto simp: handle_token_def token_ids fun_eq_iff)
  have f: "st_database st' = st_database st" "st_tran st' = st_tran st" "st_columns st' = st_columns st" "st_fresh st' = st_fresh st"
    by (simp_all add: st'_def)
  note b = does_bind [where k = ?k, OF does_on_buf [OF reads_Done(1) [of stat cmd n]], of e "[]"]
  show ?thesis
  proof (cases "stat AND doneSrvError = 0")
    case True
    have "(loop_of st')\<lparr>l_colsReceived := False\<rparr> = loop_of (st'\<lparr>st_fresh := False\<rparr>)" by (simp add: loop_of_def)
    moreover have "done_events outs st' Done dn = done_events outs st Done dn" "Status dn = stat"
      by (simp_all add: done_events_def f(4) dn_def)
    ultimately have "does e (?k ?raw) [] (if stat AND doneMore \<noteq> 0 then Some (loop_of (st'\<lparr>st_fresh := False\<rparr>)) else None) (done_events outs st Done dn)"
      using does_done_tail [of e outs st' dn Done "loop_of st'"] True unfolding k by (simp only: if_False if_True simp_thms)
    from b [OF this] have "step_to (handle_token d outs (loop_of st) t) e st (le_bytes 2 stat @ le_bytes 2 cmd @ le_bytes 8 n)
            (done_events outs st Done dn) (st'\<lparr>st_fresh := False\<rparr>) (stat AND doneMore \<noteq> 0)"
      unfolding t h by (intro step_toI) (simp_all add: f)
    with True show ?thesis by simp
  next
    case False
    then have "does e (?k ?raw) [] (None :: loop option) (Send (TokErr (ServerError (getError dn))) # queued outs MsgNextResultSet)"
      unfolding k using does_then [OF does_small(3) [of e "TokErr (ServerError (getError dn))"]
          does_then [OF does_small(4) [of e outs MsgNextResultSet] does_small(1) [of e "None :: loop option"]]] by simp
    from b [OF this] have "step_to (handle_token d outs (loop_of st) t) e st (le_bytes 2 stat @ le_bytes 2 cmd @ le_bytes 8 n)
            (Send (TokErr (ServerError (getError dn))) # queued outs MsgNextResultSet) st' False"
      unfolding t h by (intro step_toI) (simp_all add: f)
    with False show ?thesis by simp
  qed
qed

lemma reply_env:
  assumes "record_does t xs f" "length xs + 1 < 2 ^ 16" "\<And>s. s_buf (f s) = s_buf s" "\<And>s. s_events (f s) = s_events s"
    and "\<And>s. carries e st s \<Longrightarrow> carries e st' (f s)" "loop_of st' = loop_of st"
  shows "step_to (handle_token d outs (loop_of st) tokenEnvChange) e st (env_bytes (t # xs)) [] st' True"
  by (rule step_to_cong, rule step_to_env [OF changes_env [OF assms(1,2)] assms(3,4) assms(5,6)])
    (simp_all add: handle_token_def token_ids)

lemma bvarchar_length: "str_ok 0xFF s \<Longrightarrow> length (bvarchar s) \<le> 511"
  by (simp add: str_ok_def bvarchar_def length_str2ucs2 utf16_len_def)

text \<open>Every legal reply is handled as owed.\<close>

lemma reply_step:
  assumes "owed (d_dbcs d) e outs st r = Some (evs, st', go_on)"
  obtains t rest where "reply_bytes e (map cType (st_columns st)) r = t # rest"
    "step_to (handle_token d outs (loop_of st) t) e st rest evs st' go_on"
  using assms
proof (cases r)
  case (RStatus n)
  with assms that reply_status [of n] show thesis by (auto split: if_splits)
next
  case (ROrder cols)
  with assms that reply_order [of cols] show thesis by (auto split: if_splits)
next
  case (RTabName xs)
  with assms that reply_skipped [of xs] show thesis by (auto split: if_splits)
next
  case (RColInfo xs)
  with assms that reply_skipped [of xs] show thesis by (auto split: if_splits)
next
  case (RError er)
  with assms that reply_error [of er] show thesis by (auto split: if_splits)
next
  case (RInfo er)
  with assms that reply_info [of er] show thesis by (auto split: if_splits)
next
  case (RColumns cs)
  with assms that reply_columns [of cs] show thesis by (auto split: if_splits)
next
  case (RRow vs)
  with assms that reply_row [of d e st vs] show thesis by (auto split: option.splits)
next
  case (RDone t stat cmd n)
  show thesis
  proof (cases "t = tokenDoneInProc")
    case True
    with assms that reply_done_in_proc [of d outs st e stat cmd n] show thesis by (auto simp: RDone)
  next
    case False
    with assms have "t = tokenDone \<or> t = tokenDoneProc" by (auto simp: RDone split: if_splits)
    from reply_done [OF this, where st = st and outs = outs and stat = stat and cmd = cmd and n = n and d = d and e = e]
      assms that False this show thesis
      by (auto simp: RDone Let_def split: if_splits)
  qed
next
  case (RDatabase new old)
  with assms have ok: "str_ok 0xFF new" "str_ok 0xFF old" and o: "evs = []" "st' = st\<lparr>st_database := new\<rparr>" "go_on"
    by (auto split: if_splits)
  have "step_to (handle_token d outs (loop_of st) tokenEnvChange) e st (env_bytes (1 # bvarchar new @ bvarchar old)) [] st' True"
    by (rule reply_env [OF record_database [OF ok]])
      (use bvarchar_length [OF ok(1)] bvarchar_length [OF ok(2)] o in \<open>auto simp: carries_def loop_of_def\<close>)
  with that o RDatabase show thesis by simp
next
  case (RBeginTran t)
  with assms have o: "evs = []" "st' = st\<lparr>st_tran := t\<rparr>" "go_on" by auto
  have "step_to (handle_token d outs (loop_of st) tokenEnvChange) e st (env_bytes (8 # 8 # le_bytes 8 t @ [0])) [] st' True"
    by (rule reply_env [OF record_begin_tran]) (use o in \<open>auto simp: carries_def loop_of_def\<close>)
  with that o RBeginTran show thesis by simp
next
  case (REndTran commit t)
  with assms have o: "evs = []" "st' = st\<lparr>st_tran := 0\<rparr>" "go_on" by auto
  have "step_to (handle_token d outs (loop_of st) tokenEnvChange) e st (env_bytes ((if commit then 9 else 10) # 0 # 8 # le_bytes 8 t)) [] st' True"
    by (rule reply_env [OF record_end_tran]) (use o in \<open>auto simp: carries_def loop_of_def\<close>)
  with that o REndTran show thesis by simp
qed

section \<open>Whole responses\<close>

lemma response_run:
  "owed_all (d_dbcs d) e outs st rs = Some (bs, evs, st') \<Longrightarrow> carries e st s \<Longrightarrow> stream (s_buf s) = bs @ ys \<Longrightarrow>
   \<exists>s'. response_loop d outs (loop_of st) s = Some (Inr (), s') \<and> carries e st' s' \<and> s_events s' = s_events s @ evs"
proof (induction rs arbitrary: st bs evs s)
  case (Cons r rs)
  from Cons.prems(1) obtain ev1 st1 go_on where o: "owed (d_dbcs d) e outs st r = Some (ev1, st1, go_on)"
    by (auto simp: Let_def split: option.splits)
  obtain t rest where t: "reply_bytes e (map cType (st_columns st)) r = t # rest"
    "step_to (handle_token d outs (loop_of st) t) e st rest ev1 st1 go_on" by (rule reply_step [OF o])
  obtain bs' where bs: "bs = t # rest @ bs'" and
    tail: "if go_on then \<exists>evs'. owed_all (d_dbcs d) e outs st1 rs = Some (bs', evs', st') \<and> evs = ev1 @ evs'
           else bs' = [] \<and> evs = ev1 \<and> st' = st1"
    using Cons.prems(1) o t(1) by (auto simp: Let_def split: if_splits)
  have c: "s_encoding s = e" "\<not> s_alwaysEncrypted s" "rok (s_buf s)" using Cons.prems(2) by (auto simp: carries_def)
  obtain b where b: "on_buf r_byte s = (Inr t, s\<lparr>s_buf := b\<rparr>)" "rok b" "stream b = rest @ bs' @ ys"
    using readsD [OF reads_byte c(3), of t "rest @ bs' @ ys"] Cons.prems(3) bs by (auto simp: on_buf_def)
  have "carries e st (s\<lparr>s_buf := b\<rparr>)" using Cons.prems(2) b(2) by (simp add: carries_def)
  then obtain s1 where s1: "handle_token d outs (loop_of st) t (s\<lparr>s_buf := b\<rparr>) = (Inr (if go_on then Some (loop_of st1) else None), s1)"
    "carries e st1 s1" "stream (s_buf s1) = bs' @ ys" "s_events s1 = s_events s @ ev1"
    using t(2) [unfolded step_to_def, rule_format, of "s\<lparr>s_buf := b\<rparr>" "bs' @ ys"] b(3) by auto
  have run: "gbind (on_buf r_byte) (handle_token d outs (loop_of st)) s = (Inr (if go_on then Some (loop_of st1) else None), s1)"
    using b(1) s1(1) by simp
  show ?case
  proof (cases go_on)
    case True
    with tail obtain evs' where ev: "owed_all (d_dbcs d) e outs st1 rs = Some (bs', evs', st')" "evs = ev1 @ evs'" by auto
    from Cons.IH [OF ev(1) s1(2,3)] run True ev(2) s1(4) show ?thesis
      by (auto simp: response_loop.simps [of d outs "loop_of st"])
  next
    case False
    with run tail s1 show ?thesis by (auto simp: response_loop.simps [of d outs "loop_of st"])
  qed
qed simp

lemma owed_all_bytes: "owed_all db e outs st rs = Some (bs, evs, st') \<Longrightarrow> bs \<noteq> []"
proof (cases rs)
  case (Cons r rs')
  assume "owed_all db e outs st rs = Some (bs, evs, st')"
  moreover have "reply_bytes e tis r \<noteq> []" for tis by (cases r) auto
  ultimately show ?thesis using Cons by (auto simp: Let_def split: option.splits if_splits)
qed simp

definition start_state :: "tdsSession \<Rightarrow> rstate" where
  "start_state s = \<lparr>st_columns = [], st_errors = [], st_fresh = False, st_database = s_database s, st_tran = s_tranid s\<rparr>"

lemma reply_message:
  assumes peer: "wbuf_ok w" "pkts = message (begun packReply False w) bs"
    and wire: "rbuf_ok (s_buf s)" "packetSize w \<le> packetSize (s_buf s)" "packetSize (s_buf s) < 2 ^ 16"
      "t_in (transport (s_buf s)) = concat pkts @ rest"
    and resp: "\<not> s_alwaysEncrypted s"
      "owed_all (d_dbcs d) (s_encoding s) outs (start_state s) rs = Some (bs, evs, st')"
  shows "\<exists>s'. processSingleResponse d outs s = (Inr (), s') \<and> s_events s' = s_events s @ evs @ [Close]
     \<and> s_database s' = st_database st' \<and> s_tranid s' = st_tran st'"
proof -
  let ?w0 = "begun packReply False w" and ?r = "s_buf s"
  note pk = peer(2)
  have ne: "bs \<noteq> []" by (rule owed_all_bytes [OF resp(2)])
  have st: "bufmem ?w0 ! 1 = 0" using begun_status [OF peer(1)] by (simp add: begin_status_def)
  have f: "wPacketType ?w0 = packReply" "packetSize ?w0 = packetSize w" by (simp_all add: begun_def)
  have ok: "wbuf_ok ?w0" by (rule begun_ok [OF peer(1)])
  have ps: "packetSize ?w0 \<le> int (nat (packetSize ?r))" "nat (packetSize ?r) < 2 ^ 16"
    using wire(2,3) peer(1) f by (auto simp: wbuf_ok_def)
  note mp = message_payload [OF ok st ps, of bs rest]
  note br = BeginRead_message [OF wire(1), unfolded wire(4) pk, OF mp(3) disjI2, OF mp(2) [OF ne]]
  have "stream (after_packet ?r) = bs" using after_packet_stream(2) [OF wire(1)] mp(1,3) by (simp add: wire(4) pk)
  let ?s = "s\<lparr>s_buf := after_packet ?r\<rparr>"
  have b: "on_buf BeginRead s = (Inr packReply, ?s)" using br(1) mp(4) f(1) by (simp add: on_buf_def)
  have c: "carries (s_encoding s) (start_state s) ?s" using resp(1) br(2) by (simp add: carries_def start_state_def)
  have l: "loop_of (start_state s) = \<lparr>l_columns = [], l_errs = [], l_colsReceived = False\<rparr>" by (simp add: loop_of_def start_state_def)
  from response_run [OF resp(2) c, of "[]"] \<open>stream (after_packet ?r) = bs\<close> obtain s' where
    "response_loop d outs (loop_of (start_state s)) ?s = Some (Inr (), s')" "carries (s_encoding s) st' s'" "s_events s' = s_events s @ evs"
    by auto
  with b l show ?thesis by (auto simp: processSingleResponse_def response_body_def emit_run carries_def)
qed

text \<open>
  C2. Reading a response refines its specification: when the peer writes the replies of a legal
  response as one message, in packets of any size that fits, the reader of a session without
  encrypted columns returns, has sent and queued exactly what the specification owes for the
  replies, in their order, then closes the channel, and the session has the database and the
  transaction the replies announced.
\<close>

theorem response_refines:
  assumes peer: "wbuf_ok w" "Tds_Message.send packReply False (io_Write Write bs) w = (Inr (), w')"
      "t_out (transport w') = t_out (transport w) @ pkts"
    and wire: "rbuf_ok (s_buf s)" "packetSize w \<le> packetSize (s_buf s)" "packetSize (s_buf s) < 2 ^ 16"
      "t_in (transport (s_buf s)) = concat pkts @ rest"
    and resp: "\<not> s_alwaysEncrypted s"
      "owed_all (d_dbcs d) (s_encoding s) outs (start_state s) rs = Some (bs, evs, st')"
  shows "\<exists>s'. processSingleResponse d outs s = (Inr (), s') \<and> s_events s' = s_events s @ evs @ [Close]
     \<and> s_database s' = st_database st' \<and> s_tranid s' = st_tran st'"
proof -
  obtain w1 where "Tds_Message.send packReply False (io_Write Write bs) w = (Inr (), w1)"
    "t_out (transport w1) = t_out (transport w) @ message (begun packReply False w) bs"
    using send_message [OF peer(1) tds_sink.emits_Write, of packReply False bs] by blast
  with peer(2,3) have "pkts = message (begun packReply False w) bs" by simp
  then show ?thesis by (rule reply_message [OF peer(1) _ wire resp])
qed

text \<open>A return status and a final DONE of seven rows, in packets of 24 bytes.\<close>

definition ex_deps :: deps where
  "ex_deps = \<lparr>d_dbcs = (\<lambda>_ _. None), d_provider = (\<lambda>_. None), d_hmac = (\<lambda>x k. x), d_aes = (\<lambda>k b. b), d_utf16 = (\<lambda>_. [])\<rparr>"
definition ex_outs :: outputs where "ex_outs = \<lparr>o_params = Map.empty, o_msgq = True\<rparr>"
definition ex_session :: "bytes \<Rightarrow> tdsSession" where
  "ex_session xs = \<lparr>s_buf = ex_buf 24 xs, s_database = ''master'', s_partner = [], s_tranid = 0, s_routedServer = [],
     s_routedPort = 0, s_alwaysEncrypted = False, s_encoding = \<lparr>Timezone = None, GuidConversion = False\<rparr>, s_events = []\<rparr>"
definition ex_replies :: "reply list" where
  "ex_replies = [RStatus 3, RBeginTran 5, RDone tokenDone 0x10 0xc3 7]"
definition ex_reply_bytes :: bytes where
  "ex_reply_bytes = tokenReturnStatus # le_bytes 4 (3 :: u32) @ tokenEnvChange # env_bytes (8 # 8 # le_bytes 8 (5 :: u64) @ [0])
     @ tokenDone # le_bytes 2 (0x10 :: u16) @ le_bytes 2 (0xc3 :: u16) @ le_bytes 8 (7 :: u64)"
definition ex_wire :: bytes where
  "ex_wire = concat (message (begun packReply False (ex_buf 24 [])) ex_reply_bytes)"

theorem response_refines_witness:
  "\<exists>s'. processSingleResponse ex_deps ex_outs (ex_session ex_wire) = (Inr (), s')
     \<and> s_events s' = [Send (ReturnStatus 3), Queue (MsgRowsAffected 7),
          Send (Done \<lparr>Status = 0x10, CurCmd = 0xc3, RowCount = 7, done_errors = []\<rparr>),
          Queue MsgNextResultSet, Queue MsgNextResultSet, Close]
     \<and> s_tranid s' = 5"
proof -
  have w: "wbuf_ok (ex_buf 24 [])" "rbuf_ok (ex_buf 24 ex_wire)" using ex_buf_ok [of 24] by auto
  obtain w' where w': "Tds_Message.send packReply False (io_Write Write ex_reply_bytes) (ex_buf 24 []) = (Inr (), w')"
    "t_out (transport w') = t_out (transport (ex_buf 24 [])) @ message (begun packReply False (ex_buf 24 [])) ex_reply_bytes"
    using send_message [OF w(1) tds_sink.emits_Write, of packReply False ex_reply_bytes] by blast
  have b: "s_buf (ex_session ex_wire) = ex_buf 24 ex_wire" "packetSize (ex_buf 24 xs) = 24" "t_in (transport (ex_buf 24 xs)) = xs" for xs
    by (simp_all add: ex_session_def ex_buf_def ex_conn_def)
  have o: "owed_all (d_dbcs ex_deps) (s_encoding (ex_session ex_wire)) ex_outs (start_state (ex_session ex_wire)) ex_replies
    = Some (ex_reply_bytes, [Send (ReturnStatus 3), Queue (MsgRowsAffected 7),
          Send (Done \<lparr>Status = 0x10, CurCmd = 0xc3, RowCount = 7, done_errors = []\<rparr>),
          Queue MsgNextResultSet, Queue MsgNextResultSet],
          (start_state (ex_session ex_wire))\<lparr>st_tran := 5, st_fresh := False\<rparr>)"
    by (simp add: ex_replies_def ex_reply_bytes_def Let_def done_events_def queued_def ex_outs_def start_state_def token_ids
        doneMore_def doneCount_def doneSrvError_def cmdSelect_def)
  show ?thesis
    using response_refines [OF w(1) w', of "ex_session ex_wire" "[]" ex_deps ex_outs ex_replies] w(2) b o
    by (auto simp: ex_wire_def ex_session_def start_state_def)
qed

end
