(* ===== verification/Tds_Cancel.thy ===== *)
theory Tds_Cancel
  imports Tds_Reply Tds_Login
begin

text \<open>
  Responses read in the background, and cancellation, of \<open>src/token.go\<close>:
  \<open>startResponseReader\<close>, \<open>startReading\<close>, \<open>nextToken\<close>,
  \<open>readCancelConfirmation\<close>, \<open>cancelDrainError\<close> and \<open>iterateResponse\<close>.

  The goroutine of a reader, the goroutines that drain abandoned channels, the context and the caller
  are the actors of one step relation. The tokens a reader sends are those of
  \<open>processSingleResponse\<close>; it delivers them one by one into a channel of capacity five, closes the
  channel and then signals \<open>readDone\<close>. The reader only reads the stream, which the caller never touches
  meanwhile, so its run is computed when it starts and its sends are steps of their own.

  The lemmas show the order of the tokens, that at most one reader runs, that a cancellation is reported
  only with the server's confirmation in hand, that a cancelled call returns without waiting for the
  network, and that a response given up with more than five tokens left blocks the next request.
\<close>

section \<open>Channels\<close>

record chan =
  c_script :: "token list"
  c_taken :: "token list"
  c_items :: "token list"
  c_pending :: "token list"
  c_closed :: bool
  c_exited :: bool

definition chan_cap :: nat where "chan_cap = 5"

text \<open>\<open>make(chan tokenStruct, 5)\<close> for a reader with these tokens to send. The script and the tokens
  taken are kept for the statements only.\<close>

definition make_chan :: "token list \<Rightarrow> chan" where
  "make_chan ts = \<lparr>c_script = ts, c_taken = [], c_items = [], c_pending = ts, c_closed = False, c_exited = False\<rparr>"

definition chan_send :: "chan \<Rightarrow> chan option" where
  "chan_send c =
     (case c_pending c of
        t # ts \<Rightarrow> if length (c_items c) < chan_cap
                  then Some (c\<lparr>c_items := c_items c @ [t], c_pending := ts\<rparr>) else None
      | [] \<Rightarrow> None)"

definition chan_recv :: "chan \<Rightarrow> (token \<times> chan) option" where
  "chan_recv c =
     (case c_items c of
        t # ts \<Rightarrow> Some (t, c\<lparr>c_items := ts, c_taken := c_taken c @ [t]\<rparr>)
      | [] \<Rightarrow> None)"

definition chan_ended :: "chan \<Rightarrow> bool" where
  "chan_ended c \<longleftrightarrow> c_items c = [] \<and> c_closed c"

section \<open>The caller\<close>

datatype phase = CurrentResponse | SecondResponse

datatype cancelConfirmationResult = Received | ChannelClosed | Unavailable "tokenError_t option"

datatype cause = TokenCause tokenError_t | DrainTimeout

datatype outcome =
    Tok token
  | Finished
  | Failed tokenError_t
  | CtxErr
  | AttentionFailed fault
  | NotConfirmed phase "cause option"
  | NilPanic

definition cancelDrainError :: "phase \<Rightarrow> bool \<Rightarrow> tokenError_t option \<Rightarrow> outcome" where
  "cancelDrainError ph expired tokErr =
     NotConfirmed ph (case tokErr of Some e \<Rightarrow> Some (TokenCause e)
                      | None \<Rightarrow> if expired then Some DrainTimeout else None)"

text \<open>One token in \<open>readCancelConfirmation\<close>; \<open>None\<close> goes on with the loop.\<close>

fun confirmation :: "token \<Rightarrow> cancelConfirmationResult option" where
  "confirmation (Done dn) = (if Status dn AND doneAttn \<noteq> 0 then Some Received else None)"
| "confirmation (TokErr e) = Some (Unavailable (Some e))"
| "confirmation _ = None"

datatype pc =
    Caller
  | Starting
  | Polling
  | Waiting
  | Attention
  | Draining phase
  | Expired phase
  | Restarting

record world =
  w_sess :: tdsSession
  w_chans :: "chan list"
  w_cur :: nat
  w_outs :: outputs
  w_cancelled :: bool
  w_noAttn :: bool
  w_attn :: bool
  w_pc :: pc
  w_results :: "outcome list"
  w_drained :: "nat list"

definition last_chan :: "world \<Rightarrow> nat" where
  "last_chan w = length (w_chans w) - 1"

definition set_chan :: "nat \<Rightarrow> chan \<Rightarrow> world \<Rightarrow> world" where
  "set_chan k c w = w\<lparr>w_chans := (w_chans w)[k := c]\<rparr>"

definition finish :: "outcome \<Rightarrow> world \<Rightarrow> world" where
  "finish r w = w\<lparr>w_pc := Caller, w_results := w_results w @ [r]\<rparr>"

text \<open>What \<open>nextToken\<close> makes of a token: the first \<open>select\<close> formats the text of an error for the log,
  which dereferences the inner error of a \<open>StreamError\<close>.\<close>

fun token_outcome :: "bool \<Rightarrow> token \<Rightarrow> outcome" where
  "token_outcome logged (TokErr e) =
     (if logged \<and> e = Recovered (StreamPanic NilErr) then NilPanic else Failed e)"
| "token_outcome logged t = Tok t"

text \<open>\<open>readDone\<close> of the last reader is closed, or there was none.\<close>

definition reader_idle :: "world \<Rightarrow> bool" where
  "reader_idle w \<longleftrightarrow> w_chans w = [] \<or> c_exited (last (w_chans w))"

definition new_events :: "tdsSession \<Rightarrow> tdsSession \<Rightarrow> event list" where
  "new_events s s' = drop (length (s_events s)) (s_events s')"

definition startResponseReader :: "deps \<Rightarrow> world \<Rightarrow> world" where
  "startResponseReader d w =
     (case processSingleResponse d (w_outs w) (w_sess w) of
        (_, s') \<Rightarrow> w\<lparr>w_sess := s', w_chans := w_chans w @ [make_chan (sent (new_events (w_sess w) s'))]\<rparr>)"

text \<open>The channel a phase of the cancellation reads: \<open>t.tokChan\<close>, or the second one, which only this
  call of \<open>nextToken\<close> knows.\<close>

definition phase_chan :: "phase \<Rightarrow> world \<Rightarrow> nat" where
  "phase_chan ph w = (case ph of CurrentResponse \<Rightarrow> w_cur w | SecondResponse \<Rightarrow> last_chan w)"

definition confirm_done :: "phase \<Rightarrow> bool \<Rightarrow> cancelConfirmationResult \<Rightarrow> world \<Rightarrow> world" where
  "confirm_done ph expired r w =
     (case r of
        Received \<Rightarrow> finish CtxErr w
      | Unavailable e \<Rightarrow>
          finish (cancelDrainError ph expired e) (w\<lparr>w_drained := phase_chan ph w # w_drained w\<rparr>)
      | ChannelClosed \<Rightarrow>
          (if ph = CurrentResponse then w\<lparr>w_pc := Restarting\<rparr>
           else finish (cancelDrainError ph expired None) (w\<lparr>w_drained := phase_chan ph w # w_drained w\<rparr>)))"

definition confirm_token :: "phase \<Rightarrow> bool \<Rightarrow> token \<Rightarrow> world \<Rightarrow> world" where
  "confirm_token ph expired t w =
     (case confirmation t of None \<Rightarrow> w | Some r \<Rightarrow> confirm_done ph expired r w)"

definition send_attention :: "world \<Rightarrow> world" where
  "send_attention w =
     (case on_buf sendAttention (w_sess w) of
        (Inl f, s') \<Rightarrow> finish (AttentionFailed f) (w\<lparr>w_sess := s'\<rparr>)
      | (Inr _, s') \<Rightarrow> w\<lparr>w_sess := s', w_attn := True, w_pc := Draining CurrentResponse\<rparr>)"

section \<open>Steps\<close>

datatype actor = Client | Reader nat | Exit nat | Drainer nat | Context

definition the_chan :: "nat \<Rightarrow> world \<Rightarrow> chan \<Rightarrow> bool" where
  "the_chan k w c \<longleftrightarrow> k < length (w_chans w) \<and> w_chans w ! k = c"

inductive step :: "deps \<Rightarrow> actor \<Rightarrow> world \<Rightarrow> world \<Rightarrow> bool" for d where
  begin_request: "w_pc w = Caller \<Longrightarrow>
     step d Client w (w\<lparr>w_pc := Starting, w_outs := outs, w_cancelled := cn, w_noAttn := b, w_attn := False, w_results := []\<rparr>)"
| start: "w_pc w = Starting \<Longrightarrow> reader_idle w \<Longrightarrow>
     step d Client w ((startResponseReader d w)\<lparr>w_pc := Caller, w_cur := length (w_chans w)\<rparr>)"
| call: "w_pc w = Caller \<Longrightarrow> w_cur w < length (w_chans w) \<Longrightarrow> step d Client w (w\<lparr>w_pc := Polling\<rparr>)"
| poll_token: "w_pc w = Polling \<Longrightarrow> the_chan (w_cur w) w c \<Longrightarrow> chan_recv c = Some (t, c') \<Longrightarrow>
     step d Client w (finish (token_outcome True t) (set_chan (w_cur w) c' w))"
| poll_closed: "w_pc w = Polling \<Longrightarrow> the_chan (w_cur w) w c \<Longrightarrow> chan_ended c \<Longrightarrow>
     step d Client w (finish Finished w)"
| poll_empty: "w_pc w = Polling \<Longrightarrow> the_chan (w_cur w) w c \<Longrightarrow> c_items c = [] \<Longrightarrow> \<not> c_closed c \<Longrightarrow>
     step d Client w (w\<lparr>w_pc := Waiting\<rparr>)"
| wait_token: "w_pc w = Waiting \<Longrightarrow> the_chan (w_cur w) w c \<Longrightarrow> chan_recv c = Some (t, c') \<Longrightarrow>
     step d Client w (finish (token_outcome False t) (set_chan (w_cur w) c' w))"
| wait_closed: "w_pc w = Waiting \<Longrightarrow> the_chan (w_cur w) w c \<Longrightarrow> chan_ended c \<Longrightarrow>
     step d Client w (finish Finished w)"
| wait_ctx: "w_pc w = Waiting \<Longrightarrow> w_cancelled w \<Longrightarrow>
     step d Client w (if w_noAttn w then finish CtxErr w else w\<lparr>w_pc := Attention\<rparr>)"
| attention: "w_pc w = Attention \<Longrightarrow> step d Client w (send_attention w)"
| drain_token: "w_pc w = Draining ph \<Longrightarrow> the_chan (phase_chan ph w) w c \<Longrightarrow> chan_recv c = Some (t, c') \<Longrightarrow>
     step d Client w (confirm_token ph False t (set_chan (phase_chan ph w) c' w))"
| drain_closed: "w_pc w = Draining ph \<Longrightarrow> the_chan (phase_chan ph w) w c \<Longrightarrow> chan_ended c \<Longrightarrow>
     step d Client w (confirm_done ph False ChannelClosed w)"
| drain_timeout: "w_pc w = Draining ph \<Longrightarrow> step d Client w (w\<lparr>w_pc := Expired ph\<rparr>)"
| expired_token: "w_pc w = Expired ph \<Longrightarrow> the_chan (phase_chan ph w) w c \<Longrightarrow> chan_recv c = Some (t, c') \<Longrightarrow>
     step d Client w (confirm_token ph True t (set_chan (phase_chan ph w) c' w))"
| expired_closed: "w_pc w = Expired ph \<Longrightarrow> the_chan (phase_chan ph w) w c \<Longrightarrow> chan_ended c \<Longrightarrow>
     step d Client w (confirm_done ph True ChannelClosed w)"
| expired_empty: "w_pc w = Expired ph \<Longrightarrow> the_chan (phase_chan ph w) w c \<Longrightarrow> c_items c = [] \<Longrightarrow> \<not> c_closed c \<Longrightarrow>
     step d Client w (confirm_done ph True (Unavailable None) w)"
| restart: "w_pc w = Restarting \<Longrightarrow> reader_idle w \<Longrightarrow>
     step d Client w ((startResponseReader d w)\<lparr>w_pc := Draining SecondResponse\<rparr>)"
| deliver: "the_chan k w c \<Longrightarrow> chan_send c = Some c' \<Longrightarrow> step d (Reader k) w (set_chan k c' w)"
| close: "the_chan k w c \<Longrightarrow> c_pending c = [] \<Longrightarrow> \<not> c_closed c \<Longrightarrow>
     step d (Reader k) w (set_chan k (c\<lparr>c_closed := True\<rparr>) w)"
| exit: "the_chan k w c \<Longrightarrow> c_closed c \<Longrightarrow> \<not> c_exited c \<Longrightarrow>
     step d (Exit k) w (set_chan k (c\<lparr>c_exited := True\<rparr>) w)"
| drainer: "k \<in> set (w_drained w) \<Longrightarrow> the_chan k w c \<Longrightarrow> chan_recv c = Some (t, c') \<Longrightarrow>
     step d (Drainer k) w (set_chan k c' w)"
| cancel: "\<not> w_cancelled w \<Longrightarrow> step d Context w (w\<lparr>w_cancelled := True\<rparr>)"

definition steps_to :: "deps \<Rightarrow> world \<Rightarrow> world \<Rightarrow> bool" where
  "steps_to d = (\<lambda>w w'. \<exists>a. step d a w w')\<^sup>*\<^sup>*"

text \<open>A session that has not started to read.\<close>

definition fresh_world :: "tdsSession \<Rightarrow> outputs \<Rightarrow> world" where
  "fresh_world s outs = \<lparr>w_sess = s, w_chans = [], w_cur = 0, w_outs = outs, w_cancelled = False, w_noAttn = False,
     w_attn = False, w_pc = Caller, w_results = [], w_drained = []\<rparr>"

inductive reach :: "deps \<Rightarrow> world \<Rightarrow> bool" for d where
  fresh: "reach d (fresh_world s outs)"
| later: "reach d w \<Longrightarrow> step d a w w' \<Longrightarrow> reach d w'"

section \<open>Channels deliver in order\<close>

text \<open>What the caller relies on of a bounded channel with one sender: the queue and what is still to be sent.\<close>

locale bounded_fifo =
  fixes put :: "'c \<Rightarrow> 'c option" and get :: "'c \<Rightarrow> ('t \<times> 'c) option"
    and queue :: "'c \<Rightarrow> 't list" and todo :: "'c \<Rightarrow> 't list" and cap :: nat
  assumes put_SomeD: "put c = Some c' \<Longrightarrow> \<exists>t. todo c = t # todo c' \<and> queue c' = queue c @ [t] \<and> length (queue c) < cap"
    and put_NoneD: "put c = None \<Longrightarrow> todo c = [] \<or> cap \<le> length (queue c)"
    and get_SomeD: "get c = Some (t, c') \<Longrightarrow> queue c = t # queue c' \<and> todo c' = todo c"
    and get_NoneD: "get c = None \<Longrightarrow> queue c = []"
    and cap_pos: "0 < cap"
begin

inductive run :: "'c \<Rightarrow> 't list \<Rightarrow> 'c \<Rightarrow> bool" where
  run_done: "run c [] c"
| run_put: "put c = Some c1 \<Longrightarrow> run c1 ts c2 \<Longrightarrow> run c ts c2"
| run_get: "get c = Some (t, c1) \<Longrightarrow> run c1 ts c2 \<Longrightarrow> run c (t # ts) c2"

lemma run_fifo: "run c ts c' \<Longrightarrow> queue c @ todo c = ts @ queue c' @ todo c'"
  by (induction rule: run.induct) (force dest: put_SomeD get_SomeD)+

lemma run_bounded: "run c ts c' \<Longrightarrow> length (queue c) \<le> cap \<Longrightarrow> length (queue c') \<le> cap"
  by (induction rule: run.induct) (force dest: put_SomeD get_SomeD)+

lemma run_drains: "\<exists>c'. run c (queue c @ todo c) c' \<and> queue c' = [] \<and> todo c' = []"
proof (induction "length (queue c) + 2 * length (todo c)" arbitrary: c rule: less_induct)
  case less
  show ?case
  proof (cases "get c")
    case None
    then have q: "queue c = []" by (rule get_NoneD)
    show ?thesis
    proof (cases "put c")
      case None
      then have "todo c = []" using put_NoneD q cap_pos by force
      with q show ?thesis using run_done by fastforce
    next
      case (Some c1)
      then obtain t where "todo c = t # todo c1" "queue c1 = queue c @ [t]" using put_SomeD by blast
      with less [of c1] Some q show ?thesis by (auto intro: run_put)
    qed
  next
    case (Some p)
    then obtain t c1 where p: "get c = Some (t, c1)" by (cases p) simp
    then have "queue c = t # queue c1" "todo c1 = todo c" using get_SomeD by blast+
    with less [of c1] p show ?thesis by (auto intro: run_get)
  qed
qed

end

interpretation tokChan: bounded_fifo chan_send chan_recv c_items c_pending chan_cap
  by unfold_locales
    (auto simp: chan_send_def chan_recv_def chan_cap_def split: list.splits if_splits)

section \<open>Invariant\<close>

definition one_closing :: "token list \<Rightarrow> bool" where
  "one_closing ts \<longleftrightarrow> (\<exists>us t. ts = us @ [t] \<and> closing t \<and> filter closing us = [])"

definition chan_ok :: "chan \<Rightarrow> bool" where
  "chan_ok c \<longleftrightarrow> c_script c = c_taken c @ c_items c @ c_pending c \<and> length (c_items c) \<le> chan_cap
     \<and> (c_closed c \<longrightarrow> c_pending c = []) \<and> (c_exited c \<longrightarrow> c_closed c) \<and> one_closing (c_script c)"

lemma chan_recv_Some:
  "chan_recv c = Some (t, c') \<longleftrightarrow> (\<exists>ts. c_items c = t # ts \<and> c' = c\<lparr>c_items := ts, c_taken := c_taken c @ [t]\<rparr>)"
  by (auto simp: chan_recv_def split: list.splits)

lemma chan_send_Some:
  "chan_send c = Some c' \<longleftrightarrow>
     (\<exists>t ts. c_pending c = t # ts \<and> length (c_items c) < chan_cap \<and> c' = c\<lparr>c_items := c_items c @ [t], c_pending := ts\<rparr>)"
  by (auto simp: chan_send_def split: list.splits if_splits)

lemma chan_ok_steps:
  "chan_ok c \<Longrightarrow> chan_recv c = Some (t, c') \<Longrightarrow> chan_ok c'"
  "chan_ok c \<Longrightarrow> chan_send c = Some c' \<Longrightarrow> chan_ok c'"
  "chan_ok c \<Longrightarrow> c_pending c = [] \<Longrightarrow> chan_ok (c\<lparr>c_closed := True\<rparr>)"
  "chan_ok c \<Longrightarrow> c_closed c \<Longrightarrow> chan_ok (c\<lparr>c_exited := True\<rparr>)"
  by (auto simp: chan_ok_def chan_recv_Some chan_send_Some)

text \<open>What a reader sends ends with the one token that closes the response.\<close>

lemma startResponseReader_run:
  obtains s' ts where "startResponseReader d w = w\<lparr>w_sess := s', w_chans := w_chans w @ [make_chan ts]\<rparr>"
    "one_closing ts" "processSingleResponse d (w_outs w) (w_sess w) = (Inr (), s')" "ts = sent (new_events (w_sess w) s')"
proof -
  from response_closed_once [of d "w_outs w" "w_sess w"] obtain s' evs ts t where
    r: "processSingleResponse d (w_outs w) (w_sess w) = (Inr (), s')" "s_events s' = s_events (w_sess w) @ evs @ [Close]"
    "sent evs = ts @ [t]" "closing t" "filter closing ts = []" by (auto simp: closed_once_def filter_empty_conv)
  then have "sent (new_events (w_sess w) s') = ts @ [t]" by (simp add: new_events_def)
  with r show thesis
    by (intro that [of "ts @ [t]" s']) (simp_all add: startResponseReader_def one_closing_def)
qed

definition on_current :: "pc \<Rightarrow> bool" where
  "on_current p \<longleftrightarrow> p \<in> {Waiting, Attention, Draining CurrentResponse, Expired CurrentResponse, Restarting}"

definition world_ok :: "world \<Rightarrow> bool" where
  "world_ok w \<longleftrightarrow>
     (\<forall>c \<in> set (w_chans w). chan_ok c)
   \<and> (\<forall>k. Suc k < length (w_chans w) \<longrightarrow> c_exited (w_chans w ! k))
   \<and> (w_chans w \<noteq> [] \<longrightarrow> w_cur w < length (w_chans w))
   \<and> (w_pc w \<noteq> Caller \<and> w_pc w \<noteq> Starting \<longrightarrow> w_chans w \<noteq> [])
   \<and> (on_current (w_pc w) \<longrightarrow> Suc (w_cur w) = length (w_chans w))
   \<and> (w_pc w = Restarting \<longrightarrow> c_closed (last (w_chans w)))
   \<and> (\<forall>k \<in> set (w_drained w). k < length (w_chans w))"

lemma world_okD:
  assumes "world_ok w"
  shows "\<And>c. c \<in> set (w_chans w) \<Longrightarrow> chan_ok c" "\<And>k. Suc k < length (w_chans w) \<Longrightarrow> c_exited (w_chans w ! k)"
    "w_chans w \<noteq> [] \<Longrightarrow> w_cur w < length (w_chans w)" "w_pc w \<noteq> Caller \<Longrightarrow> w_pc w \<noteq> Starting \<Longrightarrow> w_chans w \<noteq> []"
    "on_current (w_pc w) \<Longrightarrow> Suc (w_cur w) = length (w_chans w)" "w_pc w = Restarting \<Longrightarrow> c_closed (last (w_chans w))"
    "\<And>k. k \<in> set (w_drained w) \<Longrightarrow> k < length (w_chans w)"
  using assms by (simp_all add: world_ok_def)

lemma last_nth: "Suc k = length xs \<Longrightarrow> last xs = xs ! k"
  by (cases xs rule: rev_cases) simp_all

lemma the_chan_ok: "world_ok w \<Longrightarrow> the_chan k w c \<Longrightarrow> chan_ok c"
  by (auto simp: world_ok_def the_chan_def)

lemma set_chan_fields [simp]:
  "w_sess (set_chan k c w) = w_sess w" "w_cur (set_chan k c w) = w_cur w" "w_outs (set_chan k c w) = w_outs w"
  "w_cancelled (set_chan k c w) = w_cancelled w" "w_noAttn (set_chan k c w) = w_noAttn w"
  "w_attn (set_chan k c w) = w_attn w" "w_pc (set_chan k c w) = w_pc w" "w_results (set_chan k c w) = w_results w"
  "w_drained (set_chan k c w) = w_drained w" "w_chans (set_chan k c w) = (w_chans w)[k := c]"
  "phase_chan ph (set_chan k c w) = phase_chan ph w"
  by (simp_all add: set_chan_def phase_chan_def last_chan_def split: phase.split)

lemma finish_fields [simp]:
  "w_sess (finish r w) = w_sess w" "w_cur (finish r w) = w_cur w" "w_outs (finish r w) = w_outs w"
  "w_cancelled (finish r w) = w_cancelled w" "w_noAttn (finish r w) = w_noAttn w"
  "w_attn (finish r w) = w_attn w" "w_pc (finish r w) = Caller" "w_results (finish r w) = w_results w @ [r]"
  "w_drained (finish r w) = w_drained w" "w_chans (finish r w) = w_chans w"
  by (simp_all add: finish_def)

text \<open>A channel only moves forward: tokens are taken, it is closed, its reader ends.\<close>

definition chan_grows :: "chan \<Rightarrow> chan \<Rightarrow> bool" where
  "chan_grows c c' \<longleftrightarrow> c_script c' = c_script c \<and> set (c_taken c) \<subseteq> set (c_taken c')
     \<and> (c_closed c \<longrightarrow> c_closed c') \<and> (c_exited c \<longrightarrow> c_exited c')"

lemma chan_grows_steps [simp, intro]:
  "chan_recv c = Some (t, c') \<Longrightarrow> chan_grows c c'" "chan_send c = Some c' \<Longrightarrow> chan_grows c c'"
  "chan_grows c (c\<lparr>c_closed := True\<rparr>)" "chan_grows c (c\<lparr>c_exited := True\<rparr>)" "chan_grows c c"
  by (auto simp: chan_grows_def chan_recv_Some chan_send_Some)

lemma world_ok_set_chan:
  assumes "world_ok w" "the_chan k w c" "chan_grows c c'" "chan_ok c'"
  shows "world_ok (set_chan k c' w)"
proof -
  have k: "k < length (w_chans w)" "w_chans w ! k = c" using assms(2) by (auto simp: the_chan_def)
  have "\<forall>x \<in> set ((w_chans w)[k := c']). chan_ok x"
    using assms(1,4) set_update_subset_insert [of "w_chans w" k c'] by (auto simp: world_ok_def)
  moreover have "\<forall>j. Suc j < length (w_chans w) \<longrightarrow> c_exited ((w_chans w)[k := c'] ! j)"
    using assms(1,3) k by (auto simp: world_ok_def chan_grows_def nth_list_update)
  moreover have "w_pc w = Restarting \<longrightarrow> c_closed (last ((w_chans w)[k := c']))"
  proof
    assume "w_pc w = Restarting"
    with assms(1) have "c_closed (last (w_chans w))" "w_chans w \<noteq> []" by (auto simp: world_ok_def)
    moreover have "c_closed c \<longrightarrow> c_closed c'" using assms(3) by (simp add: chan_grows_def)
    ultimately show "c_closed (last ((w_chans w)[k := c']))"
      using k by (cases "k = length (w_chans w) - 1") (simp_all add: last_list_update last_conv_nth)
  qed
  ultimately show ?thesis using assms(1) by (simp add: world_ok_def)
qed

lemma world_ok_back: "world_ok w \<Longrightarrow> w_chans w' = w_chans w \<Longrightarrow> w_cur w' = w_cur w \<Longrightarrow> w_drained w' = w_drained w
    \<Longrightarrow> w_pc w' = Caller \<or> w_pc w' = Starting \<Longrightarrow> world_ok w'"
  unfolding world_ok_def by (elim disjE) (simp_all add: on_current_def)

lemma world_ok_finish: "world_ok w \<Longrightarrow> world_ok (finish r w)"
  by (rule world_ok_back) simp_all

lemma world_ok_drain: "world_ok w \<Longrightarrow> k < length (w_chans w) \<Longrightarrow> world_ok (w\<lparr>w_drained := k # w_drained w\<rparr>)"
  by (auto simp: world_ok_def)

lemma phase_chan_bound:
  assumes "world_ok w" "w_pc w \<noteq> Caller" "w_pc w \<noteq> Starting"
  shows "phase_chan ph w < length (w_chans w)"
  using assms by (auto simp: world_ok_def phase_chan_def last_chan_def split: phase.split)

lemma world_ok_confirm_done:
  assumes "world_ok w" "w_pc w = Draining ph \<or> w_pc w = Expired ph"
    and "r = ChannelClosed \<Longrightarrow> \<exists>c. the_chan (phase_chan ph w) w c \<and> chan_ended c"
  shows "world_ok (confirm_done ph expired r w)"
proof (cases "r = ChannelClosed \<and> ph = CurrentResponse")
  case True
  with assms(3) obtain c where c: "the_chan (w_cur w) w c" "chan_ended c" by (auto simp: phase_chan_def)
  have "Suc (w_cur w) = length (w_chans w)" using assms(1,2) True by (auto simp: world_ok_def on_current_def)
  then have "last (w_chans w) = c" using c(1) by (simp add: the_chan_def last_nth)
  with assms True c(2) show ?thesis
    by (auto simp: confirm_done_def world_ok_def on_current_def chan_ended_def)
next
  case False
  have "phase_chan ph w < length (w_chans w)" by (rule phase_chan_bound [OF assms(1)]) (use assms(2) in auto)
  then have "world_ok (finish r' (w\<lparr>w_drained := phase_chan ph w # w_drained w\<rparr>))" for r'
    by (intro world_ok_finish world_ok_drain assms)
  with False show ?thesis
    by (cases r) (auto simp: confirm_done_def intro: world_ok_finish [OF assms(1)])
qed

lemma world_ok_confirm_token:
  assumes "world_ok w" "w_pc w = Draining ph \<or> w_pc w = Expired ph"
  shows "world_ok (confirm_token ph expired t w)"
proof (cases "confirmation t")
  case (Some r)
  then have "r \<noteq> ChannelClosed" by (cases t rule: confirmation.cases) (auto split: if_splits)
  then have "world_ok (confirm_done ph expired r w)" using assms by (intro world_ok_confirm_done) auto
  with Some show ?thesis by (simp add: confirm_token_def)
qed (simp add: confirm_token_def assms(1))

lemma world_ok_start:
  assumes "world_ok w" "reader_idle w" and "w_pc w' = Caller \<or> w_pc w' = Draining SecondResponse"
    and "w_chans w' = w_chans w @ [make_chan ts]" "one_closing ts" "w_drained w' = w_drained w"
    and "w_cur w' = length (w_chans w) \<or> w_cur w' = w_cur w \<and> w_chans w \<noteq> []"
  shows "world_ok w'"
proof -
  have "chan_ok (make_chan ts)" using assms(5) by (simp add: chan_ok_def make_chan_def)
  moreover have "c_exited ((w_chans w @ [make_chan ts]) ! k)" if "k < length (w_chans w)" for k
  proof (cases "Suc k < length (w_chans w)")
    case True
    with assms(1) show ?thesis by (simp add: world_ok_def nth_append)
  next
    case False
    with that have "k = length (w_chans w) - 1" "w_chans w \<noteq> []" by auto
    with assms(2) show ?thesis by (simp add: reader_idle_def nth_append last_conv_nth)
  qed
  moreover have "w_cur w' < length (w_chans w')" using assms(1,4,7) world_okD(3) [of w] by auto
  moreover have "\<forall>k \<in> set (w_drained w'). k < length (w_chans w')" 
    using assms(4,6) world_okD(7) [OF assms(1)] by (simp add: less_SucI)
  moreover have "\<not> on_current (w_pc w')" "w_pc w' \<noteq> Restarting" using assms(3) by (auto simp: on_current_def)
  ultimately show ?thesis using assms(1,4) by (simp add: world_ok_def)
qed

text \<open>Steps that leave the channels alone.\<close>

lemma world_ok_cancelled: "world_ok w \<Longrightarrow> world_ok (w\<lparr>w_cancelled := b\<rparr>)"
  by (simp add: world_ok_def)

lemma world_ok_pc:
  assumes "world_ok w" "w_chans w \<noteq> []" "p \<noteq> Restarting" "on_current p \<longrightarrow> Suc (w_cur w) = length (w_chans w)"
  shows "world_ok (w\<lparr>w_pc := p\<rparr>)"
  using assms by (simp add: world_ok_def)

lemma world_ok_open:
  assumes "world_ok w" "the_chan k w c" "\<not> c_closed c"
  shows "Suc k = length (w_chans w)"
proof (rule ccontr)
  assume "Suc k \<noteq> length (w_chans w)"
  with assms(2) have "Suc k < length (w_chans w)" "w_chans w ! k = c" by (auto simp: the_chan_def)
  with assms(1) have "c_exited c" "chan_ok c" by (auto simp: world_ok_def)
  with assms(3) show False by (simp add: chan_ok_def)
qed

lemma world_ok_send_attention: "world_ok w \<Longrightarrow> w_pc w = Attention \<Longrightarrow> world_ok (send_attention w)"
proof -
  assume w: "world_ok w" "w_pc w = Attention"
  obtain x s' where r: "on_buf sendAttention (w_sess w) = (x, s')" by (rule prod.exhaust)
  have "world_ok (w\<lparr>w_sess := s'\<rparr>)" "world_ok (w\<lparr>w_sess := s', w_attn := True, w_pc := Draining CurrentResponse\<rparr>)"
    using w by (simp_all add: world_ok_def on_current_def)
  with r show ?thesis by (cases x) (simp_all add: send_attention_def world_ok_finish)
qed

lemma world_ok_chan_steps:
  assumes "world_ok w" "the_chan k w c"
  shows "chan_recv c = Some (t, c') \<Longrightarrow> world_ok (set_chan k c' w)"
    "chan_send c = Some c' \<Longrightarrow> world_ok (set_chan k c' w)"
    "c_pending c = [] \<Longrightarrow> world_ok (set_chan k (c\<lparr>c_closed := True\<rparr>) w)"
    "c_closed c \<Longrightarrow> world_ok (set_chan k (c\<lparr>c_exited := True\<rparr>) w)"
  by (rule world_ok_set_chan [OF assms]; blast intro: chan_ok_steps the_chan_ok [OF assms])+

lemma world_ok_step: "step d a w w' \<Longrightarrow> world_ok w \<Longrightarrow> world_ok w'"
proof (induction rule: step.induct)
  case (begin_request w outs b cn)
  show ?case by (rule world_ok_back [OF begin_request(2)]) simp_all
next
  case (start w)
  obtain s' ts where r: "startResponseReader d w = w\<lparr>w_sess := s', w_chans := w_chans w @ [make_chan ts]\<rparr>" "one_closing ts"
    by (rule startResponseReader_run)
  show ?case unfolding r(1) by (rule world_ok_start [OF start(3,2) _ _ r(2)]) simp_all
next
  case (restart w)
  obtain s' ts where r: "startResponseReader d w = w\<lparr>w_sess := s', w_chans := w_chans w @ [make_chan ts]\<rparr>" "one_closing ts"
    by (rule startResponseReader_run)
  have "w_chans w \<noteq> []" using restart by (auto simp: world_ok_def)
  then show ?case unfolding r(1) by (intro world_ok_start [OF restart(3,2) _ _ r(2)]) simp_all
next
  case (call w)
  then show ?case by (intro world_ok_pc) (auto simp: on_current_def)
next
  case (poll_empty w c)
  then show ?case using world_ok_open [OF poll_empty(5,2,4)] by (intro world_ok_pc) auto
next
  case (wait_ctx w)
  have "Suc (w_cur w) = length (w_chans w)" using wait_ctx by (simp add: world_ok_def on_current_def)
  then have "world_ok (w\<lparr>w_pc := Attention\<rparr>)" using wait_ctx by (intro world_ok_pc) auto
  with wait_ctx show ?case by (simp add: world_ok_finish)
next
  case (drain_timeout w ph)
  then show ?case by (intro world_ok_pc) (auto simp: world_ok_def on_current_def)
next
  case (drain_token w ph c t c')
  then show ?case by (intro world_ok_confirm_token world_ok_chan_steps(1) [OF drain_token(4,2,3)]) simp
next
  case (drain_closed w ph c)
  then show ?case by (intro world_ok_confirm_done) auto
next
  case (expired_token w ph c t c')
  then show ?case by (intro world_ok_confirm_token world_ok_chan_steps(1) [OF expired_token(4,2,3)]) simp
next
  case (expired_closed w ph c)
  then show ?case by (intro world_ok_confirm_done) auto
next
  case (expired_empty w ph c)
  then show ?case by (intro world_ok_confirm_done) auto
qed (blast intro: world_ok_finish world_ok_send_attention world_ok_cancelled world_ok_chan_steps)+

lemma world_ok_fresh: "world_ok (fresh_world s outs)"
  by (simp add: fresh_world_def world_ok_def on_current_def)

lemma world_ok_reach: "reach d w \<Longrightarrow> world_ok w"
  by (induction rule: reach.induct) (blast intro: world_ok_fresh world_ok_step)+

section \<open>What the caller has seen\<close>

definition world_grows :: "world \<Rightarrow> world \<Rightarrow> bool" where
  "world_grows w w' \<longleftrightarrow> w_cur w' = w_cur w
     \<and> (\<forall>k c. the_chan k w c \<longrightarrow> (\<exists>c'. the_chan k w' c' \<and> chan_grows c c'))"

lemma world_grows_same: "w_cur w' = w_cur w \<Longrightarrow> w_chans w' = w_chans w \<Longrightarrow> world_grows w w'"
  by (auto simp: world_grows_def the_chan_def)

lemma world_grows_set: "the_chan k w c \<Longrightarrow> chan_grows c c' \<Longrightarrow> world_grows w (set_chan k c' w)"
  by (auto simp: world_grows_def the_chan_def nth_list_update)

lemma world_grows_then:
  "world_grows w w1 \<Longrightarrow> w_cur w2 = w_cur w1 \<Longrightarrow> w_chans w2 = w_chans w1 \<Longrightarrow> world_grows w w2"
  by (simp add: world_grows_def the_chan_def)

lemma world_grows_append: "w_cur w' = w_cur w \<Longrightarrow> w_chans w' = w_chans w @ cs \<Longrightarrow> world_grows w w'"
  by (auto simp: world_grows_def the_chan_def nth_append)

lemma confirm_done_fields [simp]:
  "w_cur (confirm_done ph b r w) = w_cur w" "w_chans (confirm_done ph b r w) = w_chans w"
  "w_noAttn (confirm_done ph b r w) = w_noAttn w" "w_attn (confirm_done ph b r w) = w_attn w"
  by (cases r; simp add: confirm_done_def)+

lemma confirm_token_fields [simp]:
  "w_cur (confirm_token ph b t w) = w_cur w" "w_chans (confirm_token ph b t w) = w_chans w"
  "w_noAttn (confirm_token ph b t w) = w_noAttn w" "w_attn (confirm_token ph b t w) = w_attn w"
  by (cases "confirmation t"; simp add: confirm_token_def)+

lemma send_attention_fields [simp]:
  "w_cur (send_attention w) = w_cur w" "w_chans (send_attention w) = w_chans w" "w_noAttn (send_attention w) = w_noAttn w"
  "w_drained (send_attention w) = w_drained w"
  by (auto simp: send_attention_def split: prod.split sum.split)

lemma startResponseReader_fields [simp]:
  "w_cur (startResponseReader d w) = w_cur w" "w_noAttn (startResponseReader d w) = w_noAttn w"
  "w_attn (startResponseReader d w) = w_attn w" "w_results (startResponseReader d w) = w_results w"
  "w_drained (startResponseReader d w) = w_drained w"
  by (simp_all add: startResponseReader_def split: prod.split)

lemma startResponseReader_chans: "\<exists>ts. w_chans (startResponseReader d w) = w_chans w @ [make_chan ts]"
  by (rule startResponseReader_run [of d w]) auto

lemma step_grows: "step d a w w' \<Longrightarrow> w_pc w \<noteq> Starting \<Longrightarrow> world_grows w w'"
proof (induction rule: step.induct)
  case (restart w)
  then show ?case using startResponseReader_chans [of d w] by (auto intro: world_grows_append)
qed (auto intro: world_grows_same world_grows_set world_grows_then [OF world_grows_set])

definition confirmed :: "world \<Rightarrow> bool" where
  "confirmed w \<longleftrightarrow> (\<exists>k c dn. w_cur w \<le> k \<and> the_chan k w c \<and> Done dn \<in> set (c_taken c) \<and> Status dn AND doneAttn \<noteq> 0)"

lemma confirmed_grows: "confirmed w \<Longrightarrow> world_grows w w' \<Longrightarrow> confirmed w'"
  unfolding confirmed_def world_grows_def chan_grows_def by (metis subsetD)

text \<open>Where the results of a call come from.\<close>

lemma confirm_done_results:
  assumes "CtxErr \<in> set (w_results (confirm_done ph b r w))"
  shows "CtxErr \<in> set (w_results w) \<or> r = Received"
  using assms by (cases r) (auto simp: confirm_done_def cancelDrainError_def split: if_splits)

lemma confirm_token_results:
  assumes "CtxErr \<in> set (w_results (confirm_token ph b t w))"
  shows "CtxErr \<in> set (w_results w) \<or> (\<exists>dn. t = Done dn \<and> Status dn AND doneAttn \<noteq> 0)"
proof (cases "confirmation t")
  case (Some r)
  with assms confirm_done_results [of ph b r w] have "CtxErr \<in> set (w_results w) \<or> confirmation t = Some Received"
    by (auto simp: confirm_token_def)
  then show ?thesis by (cases t rule: confirmation.cases) (auto split: if_splits)
qed (use assms in \<open>simp add: confirm_token_def\<close>)

definition cancel_ok :: "world \<Rightarrow> bool" where
  "cancel_ok w \<longleftrightarrow> (w_pc w = Starting \<longrightarrow> w_results w = [])
     \<and> (CtxErr \<in> set (w_results w) \<longrightarrow> w_noAttn w \<or> confirmed w)"

lemma phase_chan_ge: "world_ok w \<Longrightarrow> w_chans w \<noteq> [] \<Longrightarrow> w_cur w \<le> phase_chan ph w"
  using world_okD(3) [of w] by (cases ph) (auto simp: phase_chan_def last_chan_def)

lemma taken_confirms:
  assumes "world_ok w" "the_chan k w c" "w_cur w \<le> k" "chan_recv c = Some (t, c')"
    and "t = Done dn" "Status dn AND doneAttn \<noteq> 0" "w_cur w' = w_cur w" "w_chans w' = (w_chans w)[k := c']"
  shows "confirmed w'"
proof -
  have "the_chan k w' c'" using assms(2,8) by (simp add: the_chan_def)
  moreover have "Done dn \<in> set (c_taken c')" using assms(4,5) by (auto simp: chan_recv_Some)
  ultimately show ?thesis using assms(3,6,7) by (auto simp: confirmed_def)
qed

lemma token_outcome_CtxErr [simp]: "token_outcome b t \<noteq> CtxErr" "CtxErr \<noteq> token_outcome b t"
  by (cases t; simp)+

lemma step_results:
  assumes "step d a w w'" "world_ok w" "CtxErr \<in> set (w_results w')"
  shows "CtxErr \<in> set (w_results w) \<or> w_noAttn w' \<or> confirmed w'"
  using assms
proof (induction rule: step.induct)
  case (drain_token w ph c t c')
  then have "w_cur w \<le> phase_chan ph w" by (intro phase_chan_ge) (auto simp: the_chan_def)
  with drain_token show ?case
    by (auto dest!: confirm_token_results intro!: taken_confirms [OF drain_token(4,2) _ drain_token(3)])
next
  case (expired_token w ph c t c')
  then have "w_cur w \<le> phase_chan ph w" by (intro phase_chan_ge) (auto simp: the_chan_def)
  with expired_token show ?case
    by (auto dest!: confirm_token_results intro!: taken_confirms [OF expired_token(4,2) _ expired_token(3)])
next
  case (attention w)
  then show ?case by (auto simp: send_attention_def split: prod.splits sum.splits)
qed (auto dest!: confirm_done_results split: if_splits)

lemma step_noAttn: "step d a w w' \<Longrightarrow> w_noAttn w' = w_noAttn w \<or> w_results w' = []"
  by (induction rule: step.induct) simp_all

lemma step_to_Starting: "step d a w w' \<Longrightarrow> w_pc w' = Starting \<Longrightarrow> w_results w' = [] \<or> w_pc w = Starting \<and> w_results w' = w_results w"
  by (induction rule: step.induct)
    (auto simp: confirm_token_def confirm_done_def send_attention_def split: option.splits cancelConfirmationResult.splits
      if_splits prod.splits sum.splits)

lemma cancel_ok_step:
  assumes "step d a w w'" "world_ok w" "cancel_ok w"
  shows "cancel_ok w'"
proof -
  have "w_noAttn w' \<or> confirmed w'" if c: "CtxErr \<in> set (w_results w')"
  proof (cases "CtxErr \<in> set (w_results w)")
    case True
    with assms(3) have p: "w_noAttn w \<or> confirmed w" "w_pc w \<noteq> Starting" by (auto simp: cancel_ok_def)
    have "w_noAttn w' = w_noAttn w" using step_noAttn [OF assms(1)] c by auto
    with p show ?thesis using confirmed_grows step_grows [OF assms(1)] by blast
  qed (use step_results [OF assms(1,2) c] in auto)
  moreover have "w_results w' = []" if "w_pc w' = Starting"
    using step_to_Starting [OF assms(1) that] assms(3) by (auto simp: cancel_ok_def)
  ultimately show ?thesis by (simp add: cancel_ok_def)
qed

lemma cancel_ok_reach: "reach d w \<Longrightarrow> cancel_ok w"
proof (induction rule: reach.induct)
  case (fresh s outs)
  then show ?case by (simp add: fresh_world_def cancel_ok_def)
qed (blast intro: cancel_ok_step world_ok_reach)

text \<open>The tokens behind the results of the calls, for a request that was not cancelled.\<close>

fun delivered :: "outcome \<Rightarrow> token list" where
  "delivered (Tok t) = [t]"
| "delivered (Failed e) = [TokErr e]"
| "delivered NilPanic = [TokErr (Recovered (StreamPanic NilErr))]"
| "delivered _ = []"

lemma delivered_token [simp]: "delivered (token_outcome b t) = [t]"
  by (cases t) auto

lemma token_outcome_Finished [simp]: "token_outcome b t \<noteq> Finished" "Finished \<noteq> token_outcome b t"
  by (cases t; simp)+

definition cancelling :: "pc \<Rightarrow> bool" where
  "cancelling p \<longleftrightarrow> p = Restarting \<or> (\<exists>ph. p = Draining ph \<or> p = Expired ph)"

definition seen_of :: "outcome list \<Rightarrow> chan \<Rightarrow> bool" where
  "seen_of rs c \<longleftrightarrow> concat (map delivered rs) = c_taken c \<and> (Finished \<in> set rs \<longrightarrow> chan_ended c)"

definition seen_ok :: "world \<Rightarrow> bool" where
  "seen_ok w \<longleftrightarrow>
     (cancelling (w_pc w) \<longrightarrow> w_attn w)
   \<and> (w_pc w = Starting \<or> w_chans w = [] \<longrightarrow> w_results w = [])
   \<and> (w_pc w \<noteq> Starting \<and> w_chans w \<noteq> [] \<and> \<not> w_attn w \<longrightarrow>
        w_cur w \<notin> set (w_drained w) \<and> seen_of (w_results w) (w_chans w ! w_cur w))"

lemma seen_of_reader:
  "chan_ok c \<Longrightarrow> seen_of rs c \<Longrightarrow> chan_send c = Some c' \<Longrightarrow> seen_of rs c'"
  "seen_of rs c \<Longrightarrow> \<not> c_closed c \<Longrightarrow> seen_of rs (c\<lparr>c_closed := True\<rparr>)"
  "seen_of rs c \<Longrightarrow> seen_of rs (c\<lparr>c_exited := True\<rparr>)"
  by (auto simp: seen_of_def chan_ok_def chan_ended_def chan_send_Some)

lemma seen_of_taken:
  "seen_of rs c \<Longrightarrow> chan_recv c = Some (t, c') \<Longrightarrow> seen_of (rs @ [token_outcome b t]) c'"
  "seen_of rs c \<Longrightarrow> chan_ended c \<Longrightarrow> seen_of (rs @ [Finished]) c"
  "seen_of rs c \<Longrightarrow> delivered r = [] \<Longrightarrow> r \<noteq> Finished \<Longrightarrow> seen_of (rs @ [r]) c"
  by (auto simp: seen_of_def chan_ended_def chan_recv_Some)

text \<open>Steps that keep the current channel and the results, and steps of the reader.\<close>

lemma seen_ok_same:
  assumes "seen_ok w" "w_chans w' = w_chans w" "w_cur w' = w_cur w" "w_drained w' = w_drained w" "w_attn w' = w_attn w"
    and "w_results w' = w_results w" "w_pc w' \<noteq> Starting" "w_pc w \<noteq> Starting" "cancelling (w_pc w') \<longrightarrow> w_attn w"
  shows "seen_ok w'"
  using assms by (simp add: seen_ok_def)

lemma seen_ok_attn: "w_attn w \<Longrightarrow> w_pc w \<noteq> Starting \<Longrightarrow> w_chans w \<noteq> [] \<Longrightarrow> seen_ok w"
  by (simp add: seen_ok_def)

lemma seen_ok_cancelling:
  assumes "seen_ok w" "world_ok w" "cancelling (w_pc w)"
    and "w_attn w' = w_attn w" "length (w_chans w') = length (w_chans w)" "w_pc w' \<noteq> Starting"
  shows "seen_ok w'"
proof (rule seen_ok_attn)
  have "w_chans w \<noteq> []" using assms(2,3) by (auto simp: world_ok_def cancelling_def)
  with assms(5) show "w_chans w' \<noteq> []" by auto
qed (use assms in \<open>simp_all add: seen_ok_def\<close>)

lemma confirm_not_Starting [simp]:
  "w_pc w \<noteq> Starting \<Longrightarrow> w_pc (confirm_done ph b r w) \<noteq> Starting"
  "w_pc w \<noteq> Starting \<Longrightarrow> w_pc (confirm_token ph b t w) \<noteq> Starting"
  by (auto simp: confirm_token_def confirm_done_def split: option.split cancelConfirmationResult.split)

lemma seen_ok_chan:
  assumes "seen_ok w" "the_chan k w c" "seen_of (w_results w) c \<and> k \<notin> set (w_drained w) \<Longrightarrow> seen_of (w_results w) c'"
  shows "k = w_cur w \<and> w_pc w \<noteq> Starting \<and> \<not> w_attn w \<Longrightarrow> k \<notin> set (w_drained w)" "seen_ok (set_chan k c' w)"
  using assms by (auto simp: seen_ok_def the_chan_def nth_list_update)

lemma seen_ok_finish:
  assumes "seen_ok w" "the_chan (w_cur w) w c" "w_pc w \<noteq> Starting" "w_chans w' = (w_chans w)[w_cur w := c']" "w_pc w' = Caller"
    and "w_cur w' = w_cur w" "w_drained w' = w_drained w" "w_attn w' = w_attn w" "w_results w' = w_results w @ [r]"
    and "seen_of (w_results w) c \<Longrightarrow> seen_of (w_results w @ [r]) c'"
  shows "seen_ok w'"
  using assms by (auto simp: seen_ok_def the_chan_def cancelling_def)

lemma seen_ok_step:
  assumes "step d a w w'" "world_ok w" "seen_ok w"
  shows "seen_ok w'"
  using assms
proof (induction rule: step.induct)
  case (begin_request w outs b cn)
  then show ?case by (simp add: seen_ok_def cancelling_def)
next
  case (start w)
  obtain s' ts where r: "startResponseReader d w = w\<lparr>w_sess := s', w_chans := w_chans w @ [make_chan ts]\<rparr>"
    by (rule startResponseReader_run)
  have "length (w_chans w) \<notin> set (w_drained w)" using world_okD(7) [OF start(3)] by auto
  with start r show ?case by (simp add: seen_ok_def cancelling_def seen_of_def make_chan_def)
next
  case (poll_token w c t c')
  then show ?case by (intro seen_ok_finish [OF poll_token(5,2)]) (auto intro: seen_of_taken)
next
  case (wait_token w c t c')
  then show ?case by (intro seen_ok_finish [OF wait_token(5,2)]) (auto intro: seen_of_taken)
next
  case (poll_closed w c)
  then show ?case by (intro seen_ok_finish [OF poll_closed(5,2), where c' = c]) (auto simp: the_chan_def intro: seen_of_taken)
next
  case (wait_closed w c)
  then show ?case by (intro seen_ok_finish [OF wait_closed(5,2), where c' = c]) (auto simp: the_chan_def intro: seen_of_taken)
next
  case (wait_ctx w)
  then have c: "the_chan (w_cur w) w (w_chans w ! w_cur w)"
    using world_okD(3,4) [of w] by (simp add: the_chan_def)
  show ?case
  proof (cases "w_noAttn w")
    case True
    with wait_ctx show ?thesis
      by (simp, intro seen_ok_finish [OF wait_ctx(4) c, where c' = "w_chans w ! w_cur w"]) (auto intro: seen_of_taken)
  qed (use wait_ctx in \<open>simp add: seen_ok_def cancelling_def\<close>)
next
  case (attention w)
  then have c: "the_chan (w_cur w) w (w_chans w ! w_cur w)" "w_chans w \<noteq> []"
    using world_okD(3,4) [of w] by (auto simp: the_chan_def)
  obtain x s' where r: "on_buf sendAttention (w_sess w) = (x, s')" by (rule prod.exhaust)
  show ?case
  proof (cases x)
    case (Inl f)
    with attention r show ?thesis
      by (simp add: send_attention_def, intro seen_ok_finish [OF attention(3) c(1), where c' = "w_chans w ! w_cur w"])
        (auto intro: seen_of_taken)
  qed (use c r in \<open>simp add: send_attention_def seen_ok_attn\<close>)
next
  case (restart w)
  have "w_attn w" using restart by (simp add: seen_ok_def cancelling_def)
  then show ?case using startResponseReader_chans [of d w] by (auto intro: seen_ok_attn)
next
  case (deliver k w c c')
  then show ?case by (intro seen_ok_chan(2) [OF _ deliver(1)]) (auto intro: seen_of_reader the_chan_ok)
next
  case (close k w c)
  then show ?case by (intro seen_ok_chan(2) [OF _ close(1)]) (auto intro: seen_of_reader)
next
  case (exit k w c)
  then show ?case by (intro seen_ok_chan(2) [OF _ exit(1)]) (auto intro: seen_of_reader)
next
  case (drainer k w c t c')
  then show ?case by (intro seen_ok_chan(2) [OF _ drainer(2)]) auto
next
  case (cancel w)
  then show ?case by (simp add: seen_ok_def)
qed (simp add: seen_ok_same cancelling_def | (rule seen_ok_cancelling, assumption, assumption; simp add: cancelling_def))+

lemma seen_ok_reach: "reach d w \<Longrightarrow> seen_ok w"
proof (induction rule: reach.induct)
  case (fresh s outs)
  then show ?case by (simp add: fresh_world_def seen_ok_def cancelling_def)
qed (blast intro: seen_ok_step world_ok_reach)

section \<open>A cancelled call returns\<close>

text \<open>
  \<open>Returns d w\<close>: whatever the actors do, the call in progress returns, and at no point does it have to
  wait for a step of the reader, which may be waiting for the network. Only steps of the caller, its
  timer included, and the end of a reader that has closed its channel are relied on.
\<close>

inductive Returns :: "deps \<Rightarrow> world \<Rightarrow> bool" for d where
  returned: "w_pc w = Caller \<Longrightarrow> Returns d w"
| goes_on: "step d a w w1 \<Longrightarrow> a \<in> insert Client (range Exit) \<Longrightarrow> (\<And>a' w'. step d a' w w' \<Longrightarrow> Returns d w') \<Longrightarrow> Returns d w"

definition phase_rank :: "phase \<Rightarrow> nat" where
  "phase_rank ph = (case ph of CurrentResponse \<Rightarrow> 4 | SecondResponse \<Rightarrow> 1)"

fun rank :: "pc \<Rightarrow> nat" where
  "rank Caller = 0"
| "rank Starting = 1"
| "rank (Expired ph) = phase_rank ph"
| "rank (Draining ph) = phase_rank ph + 1"
| "rank Restarting = 3"
| "rank Attention = 6"
| "rank Waiting = 7"
| "rank Polling = 8"

definition chan_work :: "chan \<Rightarrow> nat" where
  "chan_work c = 2 * length (c_pending c) + length (c_items c) + (if c_closed c then 0 else 1) + (if c_exited c then 0 else 1)"

definition work :: "world \<Rightarrow> nat" where
  "work w = sum_list (map chan_work (w_chans w)) + (if w_cancelled w then 0 else 1)"

lemma work_set_chan:
  assumes "the_chan k w c" "chan_work c' < chan_work c"
  shows "work (set_chan k c' w) < work w"
proof -
  have k: "k < length (map chan_work (w_chans w))" "map chan_work (w_chans w) ! k = chan_work c"
    using assms(1) by (auto simp: the_chan_def)
  have "chan_work c \<le> sum_list (map chan_work (w_chans w))" using elem_le_sum_list [OF k(1)] k(2) by simp
  then show ?thesis using sum_list_update [OF k(1), of "chan_work c'"] k(2) assms(2) by (simp add: work_def map_update)
qed

lemma chan_work_steps:
  "chan_recv c = Some (t, c') \<Longrightarrow> chan_work c' < chan_work c" "chan_send c = Some c' \<Longrightarrow> chan_work c' < chan_work c"
  "\<not> c_closed c \<Longrightarrow> chan_work (c\<lparr>c_closed := True\<rparr>) < chan_work c"
  "\<not> c_exited c \<Longrightarrow> chan_work (c\<lparr>c_exited := True\<rparr>) < chan_work c"
  by (auto simp: chan_work_def chan_recv_Some chan_send_Some)

definition call_measure :: "world \<Rightarrow> nat \<times> nat" where
  "call_measure w = (rank (w_pc w), work w)"

text \<open>Every step inside a call goes down.\<close>

lemma confirm_down:
  assumes "w_pc w1 = Draining ph \<or> w_pc w1 = Expired ph" "w_pc w1 = w_pc w" "work w1 < work w"
  shows "(call_measure (confirm_token ph b t w1), call_measure w) \<in> less_than <*lex*> less_than"
  using assms
  by (auto simp: call_measure_def confirm_token_def confirm_done_def phase_rank_def split: option.split
      cancelConfirmationResult.split phase.splits)

lemma step_down:
  assumes "step d a w w'" "w_pc w \<noteq> Caller" "w_pc w \<noteq> Starting"
  shows "(call_measure w', call_measure w) \<in> less_than <*lex*> less_than"
  using assms
proof (induction rule: step.induct)
  case (drain_token w ph c t c')
  then show ?case by (intro confirm_down) (auto intro: work_set_chan chan_work_steps)
next
  case (expired_token w ph c t c')
  then show ?case by (intro confirm_down) (auto intro: work_set_chan chan_work_steps)
next
  case (attention w)
  then show ?case by (auto simp: call_measure_def send_attention_def phase_rank_def split: prod.split sum.split)
next
  case (drain_closed w ph c)
  then show ?case by (cases ph) (simp_all add: call_measure_def confirm_done_def phase_rank_def)
next
  case (expired_closed w ph c)
  then show ?case by (cases ph) (simp_all add: call_measure_def confirm_done_def phase_rank_def)
next
  case (expired_empty w ph c)
  then show ?case by (cases ph) (simp_all add: call_measure_def confirm_done_def phase_rank_def)
next
  case (cancel w)
  then show ?case by (simp add: call_measure_def work_def)
qed (simp_all add: call_measure_def work_set_chan chan_work_steps phase_rank_def)

text \<open>Once the context is cancelled, no state of the call is stuck.\<close>

lemma call_not_stuck:
  assumes "world_ok w" "w_cancelled w" "w_pc w \<noteq> Caller" "w_pc w \<noteq> Starting"
  shows "\<exists>a w'. step d a w w' \<and> a \<in> insert Client (range Exit)"
proof -
  have "w_chans w \<noteq> []" "w_cur w < length (w_chans w)" using assms by (auto simp: world_ok_def)
  then have c: "the_chan (w_cur w) w (w_chans w ! w_cur w)" by (simp add: the_chan_def)
  have p: "the_chan (phase_chan ph w) w (w_chans w ! phase_chan ph w)" for ph
    using phase_chan_bound [OF assms(1,3,4)] by (simp add: the_chan_def)
  have open_empty: "(\<exists>t x'. chan_recv x = Some (t, x')) \<or> chan_ended x \<or> c_items x = [] \<and> \<not> c_closed x" for x
    by (cases "c_items x") (auto simp: chan_recv_Some chan_ended_def)
  show ?thesis
  proof (cases "w_pc w")
    case Polling
    with c open_empty [of "w_chans w ! w_cur w"] show ?thesis by (blast intro: poll_token poll_closed poll_empty)
  next
    case Waiting
    with assms(2) show ?thesis by (blast intro: wait_ctx)
  next
    case Attention
    then show ?thesis by (blast intro: attention)
  next
    case (Draining ph)
    then show ?thesis by (blast intro: drain_timeout)
  next
    case (Expired ph)
    with p [of ph] open_empty [of "w_chans w ! phase_chan ph w"] show ?thesis
      by (blast intro: expired_token expired_closed expired_empty)
  next
    case Restarting
    let ?k = "last_chan w" and ?c = "last (w_chans w)"
    have "the_chan ?k w ?c" using \<open>w_chans w \<noteq> []\<close> by (simp add: the_chan_def last_chan_def last_conv_nth)
    moreover have "c_closed ?c" using assms(1) Restarting by (simp add: world_ok_def)
    moreover have "reader_idle w" if "c_exited ?c" using that by (simp add: reader_idle_def)
    ultimately show ?thesis using Restarting by (blast intro: step.exit restart)
  qed (use assms in auto)
qed

lemma step_keeps_cancelled:
  assumes "step d a w w'" "w_cancelled w" "w_pc w \<noteq> Caller"
  shows "w_cancelled w' \<and> w_pc w' \<noteq> Starting \<or> w_pc w = Starting"
  using assms
  by (cases rule: step.cases)
    (auto simp: confirm_token_def confirm_done_def send_attention_def startResponseReader_def
      split: option.split cancelConfirmationResult.split prod.split sum.split)

lemma cancelled_call_returns:
  assumes "world_ok w" "w_cancelled w" "w_pc w \<noteq> Starting"
  shows "Returns d w"
  using assms
proof (induction "call_measure w" arbitrary: w rule: wf_induct_rule [OF wf_lex_prod [OF wf_less_than wf_less_than]])
  case (1 w)
  show ?case
  proof (cases "w_pc w = Caller")
    case False
    with 1 obtain a w1 where "step d a w w1" "a \<in> insert Client (range Exit)" using call_not_stuck by blast
    moreover have "Returns d w'" if "step d a' w w'" for a' w'
      using 1 False that step_down step_keeps_cancelled world_ok_step by metis
    ultimately show ?thesis by (rule goes_on)
  qed (rule returned)
qed

section \<open>Responses nobody reads\<close>

lemma steps_to_trans: "steps_to d w w1 \<Longrightarrow> steps_to d w1 w2 \<Longrightarrow> steps_to d w w2"
  unfolding steps_to_def by (rule rtranclp_trans)

lemma steps_to_step: "step d a w w1 \<Longrightarrow> steps_to d w1 w2 \<Longrightarrow> steps_to d w w2"
  unfolding steps_to_def by (rule converse_rtranclp_into_rtranclp) blast

lemma steps_to_refl: "steps_to d w w"
  by (simp add: steps_to_def)

lemma set_chan_set_chan [simp]: "set_chan k c' (set_chan k c w) = set_chan k c' w"
  by (simp add: set_chan_def)

lemma the_chan_set [simp]: "the_chan k w c \<Longrightarrow> the_chan k (set_chan k c' w) c'"
  by (simp add: the_chan_def)

text \<open>What happens on one channel between its reader and a goroutine that drains it.\<close>

lemma drained_run:
  assumes "tokChan.run c ts c'" "the_chan k w c" "k \<in> set (w_drained w)"
  shows "steps_to d w (set_chan k c' w)"
  using assms
proof (induction arbitrary: w rule: tokChan.run.induct)
  case (run_done c)
  then have "set_chan k c w = w" by (auto simp: the_chan_def set_chan_def)
  then show ?case by (simp add: steps_to_refl)
next
  case (run_put c c1 ts c2)
  then show ?case using run_put.IH [of "set_chan k c1 w"] by (auto intro: steps_to_step deliver)
next
  case (run_get c t c1 ts c2)
  then show ?case using run_get.IH [of "set_chan k c1 w"] by (auto intro: steps_to_step drainer)
qed

lemma drained_reader_exits:
  assumes "the_chan k w c" "k \<in> set (w_drained w)"
  shows "\<exists>w' c'. steps_to d w w' \<and> the_chan k w' c' \<and> c_exited c' \<and> w_pc w' = w_pc w"
proof -
  obtain c1 where r: "tokChan.run c (c_items c @ c_pending c) c1" "c_pending c1 = []" using tokChan.run_drains by blast
  let ?c2 = "c1\<lparr>c_closed := True\<rparr>" and ?c3 = "c1\<lparr>c_closed := True, c_exited := True\<rparr>"
  have c: "the_chan k (set_chan k x w) x" for x using assms(1) by simp
  have 1: "steps_to d w (set_chan k c1 w)" by (rule drained_run [OF r(1) assms])
  have 2: "steps_to d (set_chan k c1 w) (set_chan k ?c2 w)"
  proof (cases "c_closed c1")
    case True
    then have "?c2 = c1" by simp
    then show ?thesis by (simp only: steps_to_refl)
  next
    case False
    then show ?thesis using step.close [OF c r(2)] by (auto intro: steps_to_step steps_to_refl)
  qed
  have 3: "\<exists>c3. steps_to d (set_chan k ?c2 w) (set_chan k c3 w) \<and> c_exited c3"
  proof (cases "c_exited c1")
    case False
    then have "step d (Exit k) (set_chan k ?c2 w) (set_chan k ?c3 w)" using step.exit [OF c [of ?c2], of d] by simp
    then show ?thesis by (intro exI [of _ ?c3] conjI steps_to_step [OF _ steps_to_refl]) simp_all
  qed (auto intro!: exI [of _ ?c2] steps_to_refl)
  then obtain c3 where "steps_to d (set_chan k ?c2 w) (set_chan k c3 w)" "c_exited c3" by blast
  then show ?thesis using steps_to_trans [OF steps_to_trans [OF 1 2]] c [of c3]
    by (intro exI [of _ "set_chan k c3 w"] exI [of _ c3]) auto
qed

text \<open>Nobody drains it: the next request waits for the reader, which cannot send its sixth token.\<close>

definition blocked :: "world \<Rightarrow> bool" where
  "blocked w \<longleftrightarrow> w_pc w = Starting \<and> last_chan w \<notin> set (w_drained w)
     \<and> (\<exists>c. the_chan (last_chan w) w c \<and> chan_cap < length (c_items c @ c_pending c))"

lemma blocked_chan:
  assumes "blocked w" "the_chan k w c" "w_pc w' = Starting" "w_drained w' = w_drained w" "w_chans w' = (w_chans w)[k := c']"
    and "k \<noteq> last_chan w \<or> length (c_items c @ c_pending c) = length (c_items c' @ c_pending c')"
  shows "blocked w'"
proof -
  have "last_chan w' = last_chan w" using assms(5) by (simp add: last_chan_def)
  then show ?thesis using assms by (cases "k = last_chan w") (auto simp: blocked_def the_chan_def)
qed

lemma blocked_step: "step d a w w' \<Longrightarrow> world_ok w \<Longrightarrow> blocked w \<Longrightarrow> blocked w'"
proof (induction rule: step.induct)
  case (start w)
  then obtain c where c: "the_chan (last_chan w) w c" "chan_cap < length (c_items c @ c_pending c)" by (auto simp: blocked_def)
  then have "w_chans w \<noteq> []" by (auto simp: the_chan_def)
  with c(1) have "last (w_chans w) = c" by (simp add: the_chan_def last_chan_def last_conv_nth)
  with \<open>w_chans w \<noteq> []\<close> have "c_exited c" using start(2) by (simp add: reader_idle_def)
  moreover have "chan_ok c" by (rule the_chan_ok [OF start(3) c(1)])
  ultimately show ?case using c(2) by (simp add: chan_ok_def)
next
  case (deliver k w c c')
  then show ?case by (intro blocked_chan [OF deliver(4,1)]) (auto simp: blocked_def chan_send_Some)
next
  case (close k w c)
  then show ?case by (intro blocked_chan [OF close(5,1)]) (auto simp: blocked_def)
next
  case (exit k w c)
  then show ?case by (intro blocked_chan [OF exit(5,1)]) (auto simp: blocked_def)
next
  case (drainer k w c t c')
  then show ?case by (intro blocked_chan [OF drainer(5,2)]) (auto simp: blocked_def)
next
  case (cancel w)
  then show ?case by (simp add: blocked_def the_chan_def last_chan_def)
qed (auto simp: blocked_def)

lemma blocked_forever:
  assumes "steps_to d w w'" "world_ok w" "blocked w"
  shows "blocked w'"
proof -
  have "world_ok w' \<and> blocked w'"
    using assms(1) unfolding steps_to_def
    by (induction rule: rtranclp_induct) (use assms(2,3) in \<open>auto intro: world_ok_step blocked_step\<close>)
  then show ?thesis ..
qed

section \<open>The caller's loop\<close>

record tokenProcessor =
  tp_columns :: "columnStruct list"
  tp_lastRow :: "val list"
  tp_rowCount :: u64
  tp_firstError :: "sqlError option"
  tp_returnStatus :: "int option"

definition new_tokenProcessor :: tokenProcessor where
  "new_tokenProcessor = \<lparr>tp_columns = [], tp_lastRow = [], tp_rowCount = 0, tp_firstError = None, tp_returnStatus = None\<rparr>"

definition count_rows :: "doneStruct \<Rightarrow> tokenProcessor \<Rightarrow> tokenProcessor" where
  "count_rows dn t = (if Status dn AND doneCount \<noteq> 0 then t\<lparr>tp_rowCount := tp_rowCount t + RowCount dn\<rparr> else t)"

fun iterate_token :: "tokenProcessor \<Rightarrow> token \<Rightarrow> tokenProcessor" where
  "iterate_token t (Columns cols) = t\<lparr>tp_columns := cols\<rparr>"
| "iterate_token t (Row row) = t\<lparr>tp_lastRow := row\<rparr>"
| "iterate_token t (DoneInProc dn) = count_rows dn t"
| "iterate_token t (Done dn) =
     (let t1 = count_rows dn t
      in if isError dn \<and> tp_firstError t1 = None then t1\<lparr>tp_firstError := Some (getError dn)\<rparr> else t1)"
| "iterate_token t (ReturnStatus n) = t\<lparr>tp_returnStatus := Some n\<rparr>"
| "iterate_token t _ = t"

datatype iter_error = DoneError sqlError | CallError outcome

text \<open>\<open>iterateResponse\<close> over the results of the calls of \<open>nextToken\<close>; \<open>None\<close> is still waiting.\<close>

fun iterateResponse :: "tokenProcessor \<Rightarrow> outcome list \<Rightarrow> (iter_error option \<times> tokenProcessor) option" where
  "iterateResponse t [] = None"
| "iterateResponse t (Tok tok # rs) = iterateResponse (iterate_token t tok) rs"
| "iterateResponse t (Finished # rs) = Some (map_option DoneError (tp_firstError t), t)"
| "iterateResponse t (r # rs) = Some (Some (CallError r), t)"

fun row_count :: "token \<Rightarrow> u64" where
  "row_count (DoneInProc dn) = (if Status dn AND doneCount \<noteq> 0 then RowCount dn else 0)"
| "row_count (Done dn) = (if Status dn AND doneCount \<noteq> 0 then RowCount dn else 0)"
| "row_count _ = 0"

fun done_error :: "token \<Rightarrow> sqlError list" where
  "done_error (Done dn) = (if isError dn then [getError dn] else [])"
| "done_error _ = []"

definition first_error :: "token list \<Rightarrow> sqlError option" where
  "first_error ts = (case concat (map done_error ts) of [] \<Rightarrow> None | e # _ \<Rightarrow> Some e)"

lemma first_error_simps [simp]:
  "first_error [] = None"
  "first_error (t # ts) = (case done_error t of [] \<Rightarrow> first_error ts | e # _ \<Rightarrow> Some e)"
  by (cases "done_error t"; simp add: first_error_def)+

lemma iterate_token_fields:
  "tp_rowCount (iterate_token t tok) = tp_rowCount t + row_count tok"
  "tp_firstError (iterate_token t tok) =
     (case tp_firstError t of Some e \<Rightarrow> Some e | None \<Rightarrow> first_error [tok])"
  by (cases tok; auto simp: count_rows_def Let_def split: option.splits)+

definition is_failure :: "token \<Rightarrow> bool" where
  "is_failure t \<longleftrightarrow> (\<exists>e. t = TokErr e)"

lemma iterate_tokens:
  "iterateResponse t (map Tok ts @ Finished # rs)
     = Some (map_option DoneError (tp_firstError (fold (\<lambda>tok t. iterate_token t tok) ts t)), fold (\<lambda>tok t. iterate_token t tok) ts t)"
  by (induction ts arbitrary: t) simp_all

lemma fold_tokens:
  "tp_rowCount (fold (\<lambda>tok t. iterate_token t tok) ts t) = tp_rowCount t + sum_list (map row_count ts)"
  "tp_firstError (fold (\<lambda>tok t. iterate_token t tok) ts t) =
     (case tp_firstError t of Some e \<Rightarrow> Some e | None \<Rightarrow> first_error ts)"
proof (induction ts arbitrary: t)
  case (Cons tok ts)
  { case 1 show ?case using Cons(1) by (simp add: iterate_token_fields) }
  { case 2 show ?case using Cons(2) by (simp add: iterate_token_fields split: option.split list.split) }
qed (simp_all split: option.split)

text \<open>The calls of a loop: every result but the last is a token.\<close>

lemma results_tokens:
  assumes "\<forall>r \<in> set rs. \<exists>t. r = Tok t"
  shows "rs = map Tok (concat (map delivered rs))"
  using assms by (induction rs) auto

section \<open>The scripts are what the readers sent\<close>

definition scripted :: "deps \<Rightarrow> chan \<Rightarrow> bool" where
  "scripted d c \<longleftrightarrow> (\<exists>outs s s'. processSingleResponse d outs s = (Inr (), s') \<and> c_script c = sent (new_events s s'))"

definition scripts_ok :: "deps \<Rightarrow> world \<Rightarrow> bool" where
  "scripts_ok d w \<longleftrightarrow> (\<forall>c \<in> set (w_chans w). scripted d c)"

lemma scripts_ok_same: "scripts_ok d w \<Longrightarrow> w_chans w' = w_chans w \<Longrightarrow> scripts_ok d w'"
  by (simp add: scripts_ok_def)

lemma scripts_ok_frame [simp]:
  "scripts_ok d (finish r w) = scripts_ok d w" "scripts_ok d (confirm_done ph b q w) = scripts_ok d w"
  "scripts_ok d (confirm_token ph b t w) = scripts_ok d w" "scripts_ok d (send_attention w) = scripts_ok d w"
  "scripts_ok d (w\<lparr>w_pc := p\<rparr>) = scripts_ok d w" "scripts_ok d (w\<lparr>w_cancelled := True\<rparr>) = scripts_ok d w"
  "scripts_ok d (w\<lparr>w_pc := p, w_outs := os, w_cancelled := cn, w_noAttn := n, w_attn := at, w_results := rs\<rparr>) = scripts_ok d w"
  by (simp_all add: scripts_ok_def)

lemma scripts_ok_set:
  assumes "scripts_ok d w" "the_chan k w c" "chan_grows c c'"
  shows "scripts_ok d (set_chan k c' w)"
proof -
  have "scripted d c'" using assms by (auto simp: scripts_ok_def the_chan_def scripted_def chan_grows_def)
  with assms(1) show ?thesis using set_update_subset_insert [of "w_chans w" k c'] by (auto simp: scripts_ok_def)
qed

lemma scripts_ok_start: "scripts_ok d w \<Longrightarrow> scripts_ok d (startResponseReader d w)"
  by (rule startResponseReader_run [of d w]) (auto simp: scripts_ok_def scripted_def make_chan_def)

lemma scripts_ok_step: "step d a w w' \<Longrightarrow> scripts_ok d w \<Longrightarrow> scripts_ok d w'"
proof (induction rule: step.induct)
  case (start w)
  show ?case by (rule scripts_ok_same [OF scripts_ok_start [OF start(3)]]) simp
next
  case (restart w)
  show ?case by (rule scripts_ok_same [OF scripts_ok_start [OF restart(3)]]) simp
qed (auto intro: scripts_ok_set)

lemma scripts_ok_reach: "reach d w \<Longrightarrow> scripts_ok d w"
proof (induction rule: reach.induct)
  case (fresh s outs)
  then show ?case by (simp add: fresh_world_def scripts_ok_def)
qed (rule scripts_ok_step)

section \<open>Runs\<close>

text \<open>A request that is read to its end.\<close>

definition quiescent :: "deps \<Rightarrow> world \<Rightarrow> chan \<Rightarrow> bool" where
  "quiescent d w c \<longleftrightarrow> reach d w \<and> w_pc w = Caller \<and> the_chan (w_cur w) w c \<and> c_items c = [] \<and> \<not> c_closed c
     \<and> \<not> w_attn w \<and> \<not> w_noAttn w \<and> \<not> w_cancelled w"

lemma read_one:
  assumes "quiescent d w c" "c_pending c = t # ts"
  shows "\<exists>w'. quiescent d w' (c\<lparr>c_pending := ts, c_taken := c_taken c @ [t]\<rparr>)
     \<and> w_results w' = w_results w @ [token_outcome True t] \<and> w_cur w' = w_cur w"
proof -
  let ?k = "w_cur w" and ?c1 = "c\<lparr>c_items := [t], c_pending := ts\<rparr>" and ?c2 = "c\<lparr>c_pending := ts, c_taken := c_taken c @ [t]\<rparr>"
  from assms(1) have q: "reach d w" "w_pc w = Caller" "the_chan ?k w c" "c_items c = []" "\<not> c_closed c"
    "\<not> w_attn w" "\<not> w_noAttn w" "\<not> w_cancelled w" by (auto simp: quiescent_def)
  have s: "chan_send c = Some ?c1" using assms(2) q(4) by (simp add: chan_send_Some chan_cap_def)
  have "?c2 = ?c1\<lparr>c_items := [], c_taken := c_taken c @ [t]\<rparr>" using q(4) by simp
  then have r: "chan_recv ?c1 = Some (t, ?c2)" by (simp add: chan_recv_Some)
  let ?w1 = "set_chan ?k ?c1 w"
  have k: "?k < length (w_chans w)" using q(3) by (simp add: the_chan_def)
  have 1: "reach d ?w1" by (rule later [OF q(1) deliver [OF q(3) s]])
  have 2: "reach d (?w1\<lparr>w_pc := Polling\<rparr>)" by (rule later [OF 1 call]) (use q k in simp_all)
  let ?w2 = "finish (token_outcome True t) (set_chan ?k ?c2 (?w1\<lparr>w_pc := Polling\<rparr>))"
  have "step d Client (?w1\<lparr>w_pc := Polling\<rparr>) (finish (token_outcome True t) (set_chan (w_cur (?w1\<lparr>w_pc := Polling\<rparr>)) ?c2 (?w1\<lparr>w_pc := Polling\<rparr>)))"
    by (rule poll_token [OF _ _ r]) (use q k in \<open>simp_all add: the_chan_def\<close>)
  then have "reach d ?w2" using later [OF 2] by simp
  moreover have "the_chan ?k ?w2 ?c2" using k by (simp add: the_chan_def)
  ultimately have "quiescent d ?w2 ?c2" using q by (simp add: quiescent_def)
  then show ?thesis by (intro exI [of _ ?w2]) simp
qed

lemma read_all:
  assumes "quiescent d w c"
  shows "\<exists>w'. reach d w' \<and> w_pc w' = Caller \<and> w_chans w' \<noteq> [] \<and> \<not> w_attn w' \<and> w_cur w' = w_cur w
     \<and> w_results w' = w_results w @ map (token_outcome True) (c_pending c) @ [Finished]"
  using assms
proof (induction "c_pending c" arbitrary: w c)
  case Nil
  then have q: "reach d w" "w_pc w = Caller" "the_chan (w_cur w) w c" "c_items c = []" "c_pending c = []" "\<not> c_closed c"
    "\<not> w_attn w" by (auto simp: quiescent_def)
  let ?c1 = "c\<lparr>c_closed := True\<rparr>"
  let ?w1 = "set_chan (w_cur w) ?c1 w"
  have k: "w_cur w < length (w_chans w)" using q(3) by (simp add: the_chan_def)
  have 1: "reach d ?w1" by (rule later [OF q(1) step.close [OF q(3,5,6)]])
  have 2: "reach d (?w1\<lparr>w_pc := Polling\<rparr>)" by (rule later [OF 1 call]) (use q k in simp_all)
  have "reach d (finish Finished (?w1\<lparr>w_pc := Polling\<rparr>))"
    by (rule later [OF 2 poll_closed [where c = ?c1]]) (use q k in \<open>simp_all add: the_chan_def chan_ended_def\<close>)
  with q k show ?case by (intro exI [of _ "finish Finished (?w1\<lparr>w_pc := Polling\<rparr>)"]) auto
next
  case (Cons t ts)
  then obtain w1 where w1: "quiescent d w1 (c\<lparr>c_pending := ts, c_taken := c_taken c @ [t]\<rparr>)"
    "w_results w1 = w_results w @ [token_outcome True t]" "w_cur w1 = w_cur w" using read_one [of d w c t ts] by metis
  from Cons(1) [OF _ w1(1)] obtain w' where "reach d w' \<and> w_pc w' = Caller \<and> w_chans w' \<noteq> [] \<and> \<not> w_attn w' \<and> w_cur w' = w_cur w1
     \<and> w_results w' = w_results w1 @ map (token_outcome True) ts @ [Finished]" by auto
  with w1(2,3) Cons(2) show ?case by (intro exI [of _ w']) (simp flip: Cons(2))
qed

text \<open>A request that is cancelled before any token arrives and whose response is the confirmation.\<close>

lemma wait_run:
  assumes "quiescent d w c"
  shows "reach d (w\<lparr>w_pc := Waiting, w_cancelled := True\<rparr>)"
proof -
  from assms have q: "reach d w" "w_pc w = Caller" "the_chan (w_cur w) w c" "c_items c = []" "\<not> c_closed c"
    "\<not> w_cancelled w" by (auto simp: quiescent_def)
  have k: "w_cur w < length (w_chans w)" using q(3) by (simp add: the_chan_def)
  have 1: "reach d (w\<lparr>w_pc := Polling\<rparr>)" by (rule later [OF q(1) call]) (use q k in simp_all)
  have "step d Client (w\<lparr>w_pc := Polling\<rparr>) ((w\<lparr>w_pc := Polling\<rparr>)\<lparr>w_pc := Waiting\<rparr>)"
    by (rule poll_empty [where c = c]) (use q in \<open>simp_all add: the_chan_def\<close>)
  then have 2: "reach d (w\<lparr>w_pc := Waiting\<rparr>)" using later [OF 1] by simp
  have "step d Context (w\<lparr>w_pc := Waiting\<rparr>) ((w\<lparr>w_pc := Waiting\<rparr>)\<lparr>w_cancelled := True\<rparr>)"
    by (rule cancel) (use q in simp)
  then show ?thesis using later [OF 2] by simp
qed

lemma cancel_run:
  assumes "quiescent d w c" "c_pending c = Done dn # ts" "Status dn AND doneAttn \<noteq> 0"
    and "on_buf sendAttention (w_sess w) = (Inr (), s')"
  shows "\<exists>w'. reach d w' \<and> CtxErr \<in> set (w_results w') \<and> \<not> w_noAttn w'"
proof -
  from assms(1) have q: "the_chan (w_cur w) w c" "c_items c = []" "\<not> w_noAttn w" by (auto simp: quiescent_def)
  have k: "w_cur w < length (w_chans w)" using q(1) by (simp add: the_chan_def)
  let ?w1 = "w\<lparr>w_pc := Waiting, w_cancelled := True\<rparr>"
  have "step d Client ?w1 (if w_noAttn ?w1 then finish CtxErr ?w1 else ?w1\<lparr>w_pc := Attention\<rparr>)" by (rule wait_ctx) simp_all
  with q(3) have 2: "reach d (?w1\<lparr>w_pc := Attention\<rparr>)" using later [OF wait_run [OF assms(1)]] by simp
  let ?w3 = "?w1\<lparr>w_sess := s', w_attn := True, w_pc := Draining CurrentResponse\<rparr>"
  have "step d Client (?w1\<lparr>w_pc := Attention\<rparr>) (send_attention (?w1\<lparr>w_pc := Attention\<rparr>))" by (rule attention) simp
  moreover have "send_attention (?w1\<lparr>w_pc := Attention\<rparr>) = ?w3" using assms(4) by (simp add: send_attention_def)
  ultimately have 3: "reach d ?w3" using later [OF 2] by simp
  let ?c1 = "c\<lparr>c_items := [Done dn], c_pending := ts\<rparr>" and ?c2 = "c\<lparr>c_items := [], c_pending := ts, c_taken := c_taken c @ [Done dn]\<rparr>"
  have s: "chan_send c = Some ?c1" using assms(2) q(2) by (simp add: chan_send_Some chan_cap_def)
  have r: "chan_recv ?c1 = Some (Done dn, ?c2)" by (simp add: chan_recv_Some)
  let ?w4 = "set_chan (w_cur w) ?c1 ?w3"
  have 4: "reach d ?w4" by (rule later [OF 3 deliver [OF _ s]]) (use q k in \<open>simp add: the_chan_def\<close>)
  have "step d Client ?w4 (confirm_token CurrentResponse False (Done dn) (set_chan (phase_chan CurrentResponse ?w4) ?c2 ?w4))"
    by (rule drain_token [OF _ _ r]) (use k in \<open>simp_all add: the_chan_def phase_chan_def\<close>)
  from later [OF 4 this] show ?thesis
    using assms(3) q(3) by (intro exI conjI) (assumption, simp_all add: confirm_token_def confirm_done_def)
qed

section \<open>Examples\<close>

declare io_fill.simps [code] response_loop.simps [code]

text \<open>A session in the middle of a request, whose reader has computed what it sends.\<close>

definition ex_request :: "bytes \<Rightarrow> world" where
  "ex_request xs = (fresh_world (ex_session xs) ex_outs)\<lparr>w_pc := Starting\<rparr>"

definition ex_world :: "bytes \<Rightarrow> world" where
  "ex_world xs = (startResponseReader ex_deps (ex_request xs))\<lparr>w_pc := Caller, w_cur := 0\<rparr>"

lemma ex_world_reach: "reach ex_deps (ex_world xs)"
proof -
  let ?w = "fresh_world (ex_session xs) ex_outs"
  have "step ex_deps Client ?w (?w\<lparr>w_pc := Starting, w_outs := ex_outs, w_cancelled := False, w_noAttn := False, w_attn := False, w_results := []\<rparr>)"
    by (rule begin_request) (simp add: fresh_world_def)
  then have 1: "reach ex_deps (ex_request xs)" using later [OF fresh] by (simp add: ex_request_def fresh_world_def)
  have "step ex_deps Client (ex_request xs) ((startResponseReader ex_deps (ex_request xs))\<lparr>w_pc := Caller, w_cur := length (w_chans (ex_request xs))\<rparr>)"
    by (rule start) (simp_all add: ex_request_def reader_idle_def fresh_world_def)
  from later [OF 1 this] show ?thesis by (simp add: ex_world_def ex_request_def fresh_world_def)
qed

definition ex_chan :: "bytes \<Rightarrow> chan" where
  "ex_chan xs = make_chan (sent (s_events (snd (processSingleResponse ex_deps ex_outs (ex_session xs)))))"

lemma ex_world_fields:
  "w_chans (ex_world xs) = [ex_chan xs]" "w_sess (ex_world xs) = snd (processSingleResponse ex_deps ex_outs (ex_session xs))"
  "w_pc (ex_world xs) = Caller" "w_cur (ex_world xs) = 0" "w_results (ex_world xs) = []" "w_drained (ex_world xs) = []"
  by (simp_all add: ex_world_def startResponseReader_def ex_request_def fresh_world_def ex_chan_def new_events_def ex_session_def
      split: prod.split)

lemma ex_world_quiescent: "quiescent ex_deps (ex_world xs) (ex_chan xs)"
  by (simp add: quiescent_def ex_world_reach ex_world_fields the_chan_def)
    (simp add: ex_chan_def make_chan_def ex_world_def startResponseReader_def ex_request_def fresh_world_def split: prod.split)

text \<open>The confirmation of a cancellation, and six return statuses and a final DONE in three packets.\<close>

definition ex_confirmation :: bytes where
  "ex_confirmation = [4, 1, 0, 21, 0, 0, 1, 0, 0xFD, 0x20, 0, 0, 0, 0, 0, 0, 0, 0, 0, 0, 0]"

definition ex_attn :: doneStruct where
  "ex_attn = \<lparr>Status = 0x20, CurCmd = 0, RowCount = 0, done_errors = []\<rparr>"

definition ex_statuses :: bytes where
  "ex_statuses = [4, 0, 0, 23, 0, 0, 1, 0, 0x79, 3, 0, 0, 0, 0x79, 3, 0, 0, 0, 0x79, 3, 0, 0, 0,
                  4, 0, 0, 23, 0, 0, 2, 0, 0x79, 3, 0, 0, 0, 0x79, 3, 0, 0, 0, 0x79, 3, 0, 0, 0,
                  4, 1, 0, 21, 0, 0, 3, 0, 0xFD, 0, 0, 0, 0, 0, 0, 0, 0, 0, 0, 0, 0]"

lemma ex_confirmation_run:
  "(case processSingleResponse ex_deps ex_outs (ex_session ex_confirmation) of
      (r, s') \<Rightarrow> sent (s_events s') = [Done ex_attn] \<and> fst (on_buf sendAttention s') = Inr ())"
  by code_simp

lemma ex_statuses_run:
  "length (sent (s_events (snd (processSingleResponse ex_deps ex_outs (ex_session ex_statuses))))) = 7"
  by code_simp

lemma ex_confirmation_chan: "c_pending (ex_chan ex_confirmation) = [Done ex_attn]" "c_script (ex_chan ex_confirmation) = [Done ex_attn]"
  using ex_confirmation_run by (simp_all add: ex_chan_def make_chan_def split: prod.splits)

section \<open>Theorems\<close>

text \<open>
  C8. The tokens of a response reach the caller unchanged and in order: in every reachable state of a
  request that has not sent an attention, what the calls of \<open>nextToken\<close> have returned, then what waits
  in the channel (five at most), then what the reader still has to send are together exactly what
  \<open>processSingleResponse\<close> sent; when a call has reported the end, nothing is missing. Every reader
  but the last has ended, so two never read the buffer at a time.
\<close>

theorem tokens_in_order:
  assumes "reach d w" "w_pc w \<noteq> Starting" "w_chans w \<noteq> []" "\<not> w_attn w"
  shows "\<exists>c outs s s'. the_chan (w_cur w) w c
     \<and> processSingleResponse d outs s = (Inr (), s')
     \<and> concat (map delivered (w_results w)) @ c_items c @ c_pending c = sent (new_events s s')
     \<and> length (c_items c) \<le> 5
     \<and> (Finished \<in> set (w_results w) \<longrightarrow> concat (map delivered (w_results w)) = sent (new_events s s'))
     \<and> (\<forall>k. Suc k < length (w_chans w) \<longrightarrow> c_exited (w_chans w ! k))"
proof -
  note ok = world_ok_reach [OF assms(1)]
  let ?c = "w_chans w ! w_cur w"
  have k: "the_chan (w_cur w) w ?c" using world_okD(3) [OF ok assms(3)] by (simp add: the_chan_def)
  have c: "chan_ok ?c" by (rule the_chan_ok [OF ok k])
  have seen: "seen_of (w_results w) ?c" using seen_ok_reach [OF assms(1)] assms by (simp add: seen_ok_def)
  have "scripted d ?c" using scripts_ok_reach [OF assms(1)] k by (auto simp: scripts_ok_def the_chan_def)
  then obtain outs s s' where r: "processSingleResponse d outs s = (Inr (), s')" "c_script ?c = sent (new_events s s')"
    by (auto simp: scripted_def)
  have "concat (map delivered (w_results w)) @ c_items ?c @ c_pending ?c = sent (new_events s s')"
    using c seen r(2) by (simp add: chan_ok_def seen_of_def)
  moreover have "c_items ?c = [] \<and> c_pending ?c = []" if "Finished \<in> set (w_results w)"
    using that c seen by (auto simp: chan_ok_def seen_of_def chan_ended_def)
  ultimately show ?thesis using k c r(1) world_okD(2) [OF ok]
    by (intro exI [of _ ?c] exI [of _ outs] exI [of _ s] exI [of _ s']) (auto simp: chan_ok_def chan_cap_def)
qed

theorem tokens_in_order_witness:
  "\<exists>w. reach ex_deps w \<and> Finished \<in> set (w_results w)
     \<and> (\<exists>outs s s'. processSingleResponse ex_deps outs s = (Inr (), s')
          \<and> concat (map delivered (w_results w)) = sent (new_events s s'))"
proof -
  obtain w where "reach ex_deps w" "w_pc w = Caller" "w_chans w \<noteq> []" "\<not> w_attn w"
    "w_results w = w_results (ex_world ex_confirmation) @ map (token_outcome True) (c_pending (ex_chan ex_confirmation)) @ [Finished]"
    using read_all [OF ex_world_quiescent] by blast
  then show ?thesis using tokens_in_order [of ex_deps w] by (intro exI [of _ w]) (auto; blast)
qed

text \<open>
  C26. The caller's loop sums up a response correctly: when the calls of \<open>nextToken\<close> returned tokens
  and then the end, \<open>iterateResponse\<close> returns the error of the first failed DONE among the tokens
  the reader sent, or none, and has counted the rows of all of them (in 64 bits).
\<close>

theorem iterateResponse_summary:
  assumes "reach d w" "w_pc w \<noteq> Starting" "w_chans w \<noteq> []" "\<not> w_attn w"
    and "w_results w = rs @ [Finished]" "\<forall>r \<in> set rs. \<exists>t. r = Tok t"
  shows "\<exists>c tp. the_chan (w_cur w) w c
     \<and> iterateResponse new_tokenProcessor (w_results w) = Some (map_option DoneError (first_error (c_script c)), tp)
     \<and> tp_rowCount tp = sum_list (map row_count (c_script c))"
proof -
  note ok = world_ok_reach [OF assms(1)]
  let ?c = "w_chans w ! w_cur w" and ?ts = "concat (map delivered rs)"
  have k: "the_chan (w_cur w) w ?c" using world_okD(3) [OF ok assms(3)] by (simp add: the_chan_def)
  have c: "chan_ok ?c" by (rule the_chan_ok [OF ok k])
  have seen: "seen_of (w_results w) ?c" using seen_ok_reach [OF assms(1)] assms by (simp add: seen_ok_def)
  with assms(5) c have s: "c_script ?c = ?ts" by (simp add: seen_of_def chan_ok_def chan_ended_def)
  have "w_results w = map Tok ?ts @ Finished # []" using assms(5) results_tokens [OF assms(6)] by simp
  then show ?thesis using k s
    by (intro exI [of _ ?c] exI [of _ "fold (\<lambda>tok t. iterate_token t tok) ?ts new_tokenProcessor"])
      (simp add: iterate_tokens fold_tokens, simp add: new_tokenProcessor_def)
qed

theorem iterateResponse_summary_witness:
  "\<exists>w tp. reach ex_deps w \<and> iterateResponse new_tokenProcessor (w_results w) = Some (None, tp) \<and> tp_rowCount tp = 0"
proof -
  obtain w where w: "reach ex_deps w" "w_pc w = Caller" "w_chans w \<noteq> []" "\<not> w_attn w"
    "w_results w = w_results (ex_world ex_confirmation) @ map (token_outcome True) (c_pending (ex_chan ex_confirmation)) @ [Finished]"
    using read_all [OF ex_world_quiescent] by blast
  then have r: "w_results w = [Tok (Done ex_attn)] @ [Finished]" by (simp add: ex_world_fields ex_confirmation_chan)
  from iterateResponse_summary [OF w(1) _ w(3,4) r] w(2) obtain c tp where
    t: "the_chan (w_cur w) w c" "iterateResponse new_tokenProcessor (w_results w) = Some (map_option DoneError (first_error (c_script c)), tp)"
    "tp_rowCount tp = sum_list (map row_count (c_script c))" by auto
  have "first_error (c_script c) = None" using t(2) r
    by (auto simp: isError_def ex_attn_def doneError_def count_rows_def new_tokenProcessor_def doneCount_def split: if_splits)
  moreover have "tp_rowCount tp = 0" using t(2) r
    by (auto simp: ex_attn_def count_rows_def new_tokenProcessor_def doneCount_def isError_def Let_def split: if_splits)
  ultimately show ?thesis using t w(1) by (intro exI [of _ w] exI [of _ tp]) simp
qed

text \<open>
  C4. A cancellation is never reported on a guess: when \<open>nextToken\<close> returns the error of the context
  for a request that sends attentions, a DONE with the attention bit has been read from this
  request's response or from the one after it; and if it was a final DONE, its reader has nothing more to
  send, so the stream is at the end of that response.
\<close>

theorem cancel_confirmed:
  assumes "reach d w" "CtxErr \<in> set (w_results w)" "\<not> w_noAttn w"
  shows "\<exists>k c dn. w_cur w \<le> k \<and> the_chan k w c \<and> Done dn \<in> set (c_taken c) \<and> Status dn AND doneAttn \<noteq> 0
     \<and> (Status dn AND doneMore = 0 \<longrightarrow> c_items c = [] \<and> c_pending c = [])"
proof -
  from cancel_ok_reach [OF assms(1)] assms(2,3) obtain k c dn where
    k: "w_cur w \<le> k" "the_chan k w c" "Done dn \<in> set (c_taken c)" "Status dn AND doneAttn \<noteq> 0"
    by (auto simp: cancel_ok_def confirmed_def)
  have "chan_ok c" by (rule the_chan_ok [OF world_ok_reach [OF assms(1)] k(2)])
  then obtain us t where u: "c_taken c @ c_items c @ c_pending c = us @ [t]" "filter closing us = []"
    unfolding chan_ok_def one_closing_def by metis
  have "c_items c @ c_pending c = []" if "Status dn AND doneMore = 0"
  proof (rule ccontr)
    assume "c_items c @ c_pending c \<noteq> []"
    then obtain zs z where "c_items c @ c_pending c = zs @ [z]" by (cases "c_items c @ c_pending c" rule: rev_cases) auto
    with u(1) have "us = c_taken c @ zs" by simp
    with k(3) u(2) that show False by (auto simp: filter_empty_conv)
  qed
  with k show ?thesis by (intro exI [of _ k] exI [of _ c] exI [of _ dn]) simp
qed

theorem cancel_confirmed_witness:
  "\<exists>w k c dn. reach ex_deps w \<and> CtxErr \<in> set (w_results w) \<and> the_chan k w c \<and> Done dn \<in> set (c_taken c) \<and> Status dn AND doneAttn \<noteq> 0"
proof -
  have a: "Status ex_attn AND doneAttn \<noteq> 0" by (simp add: ex_attn_def doneAttn_def)
  obtain s' where s: "on_buf sendAttention (w_sess (ex_world ex_confirmation)) = (Inr (), s')"
    using ex_confirmation_run by (cases "on_buf sendAttention (w_sess (ex_world ex_confirmation))")
      (auto simp: ex_world_fields split: prod.splits)
  obtain w where "reach ex_deps w" "CtxErr \<in> set (w_results w)" "\<not> w_noAttn w"
    using cancel_run [OF ex_world_quiescent ex_confirmation_chan(1) a s] by blast
  then show ?thesis using cancel_confirmed [of ex_deps w] by blast
qed

text \<open>
  C5. A cancelled call comes back: once the context is cancelled, a call of \<open>nextToken\<close> returns
  whatever the server does, because none of its waits needs a step of a reader that may be blocked on
  the network; and the reader of every channel given up without confirmation can run to its end,
  since the channel is drained.
\<close>

theorem cancelled_nextToken_returns:
  assumes "reach d w" "w_cancelled w" "w_pc w \<noteq> Starting"
  shows "Returns d w \<and> (\<forall>k \<in> set (w_drained w). \<exists>w' c. steps_to d w w' \<and> the_chan k w' c \<and> c_exited c)"
proof
  note ok = world_ok_reach [OF assms(1)]
  show "Returns d w" by (rule cancelled_call_returns [OF ok assms(2,3)])
  show "\<forall>k \<in> set (w_drained w). \<exists>w' c. steps_to d w w' \<and> the_chan k w' c \<and> c_exited c"
  proof
    fix k assume k: "k \<in> set (w_drained w)"
    then have "the_chan k w (w_chans w ! k)" using world_okD(7) [OF ok] by (simp add: the_chan_def)
    from drained_reader_exits [OF this k, of d] show "\<exists>w' c. steps_to d w w' \<and> the_chan k w' c \<and> c_exited c" by blast
  qed
qed

theorem cancelled_nextToken_returns_witness:
  "\<exists>w. reach ex_deps w \<and> w_pc w = Waiting \<and> w_cancelled w \<and> Returns ex_deps w"
  using cancelled_nextToken_returns [OF wait_run [OF ex_world_quiescent [of ex_statuses]]] wait_run [OF ex_world_quiescent [of ex_statuses]]
  by (intro exI [of _ "(ex_world ex_statuses)\<lparr>w_pc := Waiting, w_cancelled := True\<rparr>"]) simp

text \<open>
  C27. A response that is given up with more than five tokens left and that nothing drains (the
  callers stop at the first error, and an output parameter that does not scan is an error in the
  middle of a response) blocks the connection: the next request waits in \<open>startResponseReader\<close>
  for its reader and never gets any further, whatever happens, its own context included.
\<close>

theorem abandoned_response_blocks:
  assumes "reach d w" "the_chan (last_chan w) w c" "last_chan w \<notin> set (w_drained w)"
    and "5 < length (c_items c @ c_pending c)"
    and "w_pc w = Caller" "step d Client w w1" "w_pc w1 = Starting" "steps_to d w1 w2"
  shows "w_pc w2 = Starting"
proof -
  have ok: "world_ok w1" by (rule world_ok_step [OF assms(6) world_ok_reach [OF assms(1)]])
  from assms(6,5,7) have "w_chans w1 = w_chans w \<and> w_drained w1 = w_drained w" by (cases rule: step.cases) simp_all
  with assms(2-4,7) have "blocked w1" by (auto simp: blocked_def the_chan_def last_chan_def chan_cap_def)
  from blocked_forever [OF assms(8) ok this] show ?thesis by (simp add: blocked_def)
qed

theorem abandoned_response_blocks_witness:
  "\<exists>w1. reach ex_deps w1 \<and> w_pc w1 = Starting \<and> \<not> (\<exists>w2. steps_to ex_deps w1 w2 \<and> w_pc w2 \<noteq> Starting)"
proof -
  let ?w = "ex_world ex_statuses" and ?c = "ex_chan ex_statuses"
  let ?w1 = "?w\<lparr>w_pc := Starting, w_outs := ex_outs, w_cancelled := False, w_noAttn := False, w_attn := False, w_results := []\<rparr>"
  have s: "step ex_deps Client ?w ?w1" by (rule begin_request) (simp add: ex_world_fields)
  have c: "the_chan (last_chan ?w) ?w ?c" "last_chan ?w \<notin> set (w_drained ?w)" "5 < length (c_items ?c @ c_pending ?c)"
    using ex_statuses_run by (simp_all add: the_chan_def last_chan_def ex_world_fields ex_chan_def make_chan_def)
  have "w_pc w2 = Starting" if "steps_to ex_deps ?w1 w2" for w2
    by (rule abandoned_response_blocks [OF ex_world_reach c ex_world_fields(3) s _ that]) simp
  moreover have "reach ex_deps ?w1" by (rule later [OF ex_world_reach s])
  ultimately show ?thesis by (intro exI [of _ ?w1]) auto
qed

end
