(* ===== verification/Tds_Conn.thy ===== *)
theory Tds_Conn
  imports Sql_Text Tds_Params Tds_Cancel
begin

text \<open>
  Connections and statements of \<open>src/mssql.go\<close> and \<open>src/mssql_go110.go\<close>: the state of
  \<open>Conn\<close>, \<open>checkBadConn\<close>, transactions, \<open>sendQuery\<close>, the processing of
  responses and the two kinds of rows. What the calls of \<open>nextToken\<close> return for
  a request, and the session after it, come from a function of the request's outputs and the session;
  \<open>direct_reply\<close> is the one of a response that is read to its end, and the
  runs of the cancellation model give the others.

  The calls of \<open>nextToken\<close> a rows object has left are kept in it. Its properties are in the theory of the
  statements.
\<close>

section \<open>Errors\<close>

datatype ctx_error = Canceled | DeadlineExceeded

datatype derr =
    DEOF
  | DBadConn
  | DNet err
  | DStream
  | DServer sqlError
  | DSql sqlError
  | DCtx ctx_error
  | DOther
  | DRetry derr

text \<open>The errors of transports are \<open>net.Error\<close>s; \<open>io.ErrUnexpectedEOF\<close> and formatted errors are not.\<close>

fun err_of :: "err \<Rightarrow> derr" where
  "err_of EOF = DEOF"
| "err_of (TransportErr n) = DNet (TransportErr n)"
| "err_of _ = DOther"

text \<open>\<open>badStreamPanic\<close> panics with a \<open>StreamError\<close>, \<open>badStreamPanicf\<close> and the runtime with other errors.\<close>

fun token_err :: "tokenError_t \<Rightarrow> derr" where
  "token_err (OpError e) = err_of e"
| "token_err (ServerError e) = DServer e"
| "token_err (CellError _) = DOther"
| "token_err (ScanError _) = DOther"
| "token_err (Recovered (Err e)) = err_of e"
| "token_err (Recovered (StreamPanic _)) = DStream"
| "token_err (Recovered _) = DOther"

text \<open>The error a call of \<open>nextToken\<close> returned; a panic is passed on.\<close>

fun call_err :: "ctx_error \<Rightarrow> outcome \<Rightarrow> fault + derr" where
  "call_err cx (Failed e) = Inr (token_err e)"
| "call_err cx CtxErr = Inr (DCtx cx)"
| "call_err cx (AttentionFailed (Err e)) = Inr (err_of e)"
| "call_err cx (AttentionFailed f) = Inl f"
| "call_err cx (NotConfirmed _ _) = Inr DStream"
| "call_err cx NilPanic = Inl (RuntimePanic ''nil pointer dereference'')"
| "call_err cx _ = Inr DOther"

fun iter_err :: "ctx_error \<Rightarrow> iter_error \<Rightarrow> fault + derr" where
  "iter_err cx (DoneError e) = Inr (DSql e)"
| "iter_err cx (CallError r) = call_err cx r"

text \<open>\<open>net.Error\<close>: the error of an expired context is one.\<close>

fun is_net :: "derr \<Rightarrow> bool" where
  "is_net (DNet _) = True"
| "is_net (DCtx DeadlineExceeded) = True"
| "is_net _ = False"

section \<open>Connections\<close>

record Conn =
  cn_sess :: tdsSession
  cn_resetSession :: bool
  cn_processQueryText :: bool
  cn_connectionGood :: bool
  cn_inTransaction :: bool
  cn_outs :: outputs
  cn_DisableRetry :: bool
  cn_SessionInitSQL :: string

type_synonym 'a conn_op = "(Conn, 'a) go"

definition no_outs :: outputs where
  "no_outs = \<lparr>o_params = Map.empty, o_msgq = False\<rparr>"

definition clearOuts :: "Conn \<Rightarrow> Conn" where
  "clearOuts c = c\<lparr>cn_outs := no_outs\<rparr>"

definition IsValid :: "Conn \<Rightarrow> bool" where
  "IsValid c = cn_connectionGood c"

fun spoils :: "derr \<Rightarrow> bool" where
  "spoils DEOF = True"
| "spoils DStream = True"
| "spoils (DServer _) = True"
| "spoils e = is_net e"

definition checkBadConn :: "derr option \<Rightarrow> bool \<Rightarrow> derr option conn_op" where
  "checkBadConn err mayRetry c =
     (case err of
        None \<Rightarrow> (Inr None, c)
      | Some DBadConn \<Rightarrow> (Inl (RuntimePanic ''driver.ErrBadConn in checkBadConn. This should not happen.''), c)
      | Some e \<Rightarrow>
          let c' = (if spoils e then c\<lparr>cn_connectionGood := False\<rparr> else c)
          in (Inr (Some (if \<not> cn_connectionGood c' \<and> mayRetry \<and> \<not> cn_DisableRetry c' then DRetry e else e)), c'))"

definition aborted :: "Conn \<Rightarrow> bool" where
  "aborted c \<longleftrightarrow> cn_inTransaction c \<and> s_tranid (cn_sess c) = 0"

definition aborted_error :: derr where
  "aborted_error = DSql (SqlError 0 0 0 ''server does not have an active transaction: the transaction was aborted by the server, likely due to an error while SET XACT_ABORT is ON; any changes have been rolled back'' [] [] 0 [])"

definition checkServerAbortedTransaction :: "Conn \<Rightarrow> derr option" where
  "checkServerAbortedTransaction c = (if aborted c then Some aborted_error else None)"

text \<open>What the calls of \<open>nextToken\<close> return for a request, and the session afterwards.\<close>

type_synonym responder = "outputs \<Rightarrow> bool \<Rightarrow> tdsSession \<Rightarrow> outcome list \<times> tdsSession"

definition direct_reply :: "deps \<Rightarrow> responder" where
  "direct_reply d outs noAttn s =
     (case processSingleResponse d outs s of
        (_, s') \<Rightarrow> (map (token_outcome True) (sent (new_events s s')) @ [Finished], s'))"

record denv =
  e_reply :: responder
  e_ctx :: ctx_error
  e_letter :: "rune \<Rightarrow> bool"
  e_upper :: "rune \<Rightarrow> rune"
  e_pdeps :: pdeps

text \<open>\<open>startReading\<close>, \<open>clearOuts\<close> and \<open>iterateResponse\<close>; the result is the error and the row count.\<close>

definition respond :: "denv \<Rightarrow> bool \<Rightarrow> Conn \<Rightarrow> outcome list \<times> Conn" where
  "respond env noAttn c =
     (case e_reply env (cn_outs c) noAttn (cn_sess c) of (rs, s') \<Rightarrow> (rs, clearOuts (c\<lparr>cn_sess := s'\<rparr>)))"

definition run_response :: "denv \<Rightarrow> bool \<Rightarrow> (derr option \<times> u64) conn_op" where
  "run_response env noAttn c =
     (case respond env noAttn c of (rs, c1) \<Rightarrow>
        (case iterateResponse new_tokenProcessor rs of
           None \<Rightarrow> (Inl Diverges, c1)
         | Some (None, tp) \<Rightarrow> (Inr (None, tp_rowCount tp), c1)
         | Some (Some e, tp) \<Rightarrow>
             (case iter_err (e_ctx env) e of
                Inl f \<Rightarrow> (Inl f, c1)
              | Inr e \<Rightarrow> gbind (checkBadConn (Some e) False) (\<lambda>r. gret (r, tp_rowCount tp)) c1)))"

definition simpleProcessResp :: "denv \<Rightarrow> bool \<Rightarrow> derr option conn_op" where
  "simpleProcessResp env isRollback = gbind (run_response env isRollback) (\<lambda>(r, _). gret r)"

section \<open>Requests\<close>

text \<open>A request is written into the buffer of the session; an error makes the connection bad.\<close>

definition send_request :: "(tdsBuffer, unit) go \<Rightarrow> derr option conn_op" where
  "send_request m c =
     (case on_buf m (cn_sess c) of
        (Inl (Err e), s') \<Rightarrow> (Inr (Some DOther), c\<lparr>cn_sess := s', cn_connectionGood := False\<rparr>)
      | (Inl f, s') \<Rightarrow> (Inl f, c\<lparr>cn_sess := s'\<rparr>)
      | (Inr _, s') \<Rightarrow> (Inr None, c\<lparr>cn_sess := s'\<rparr>))"

definition trans_header :: "u64 \<Rightarrow> headerStruct" where
  "trans_header tran = \<lparr>hdrtype = dataStmHdrTransDescr, hdata = transDescrHdr_pack \<lparr>transDescr = tran, outstandingReqCnt = 1\<rparr>\<rparr>"

definition sendCommitRequest :: "derr option conn_op" where
  "sendCommitRequest c =
     send_request (sendCommitXact [trans_header (s_tranid (cn_sess c))] [] 0 0 [] (cn_resetSession c)) (c\<lparr>cn_resetSession := False\<rparr>)"

definition sendRollbackRequest :: "derr option conn_op" where
  "sendRollbackRequest c =
     send_request (sendRollbackXact [trans_header (s_tranid (cn_sess c))] [] 0 0 [] (cn_resetSession c)) (c\<lparr>cn_resetSession := False\<rparr>)"

definition sendBeginRequest :: "byte \<Rightarrow> derr option conn_op" where
  "sendBeginRequest il c =
     send_request (sendBeginXact [trans_header 0] il [] (cn_resetSession c)) (c\<lparr>cn_resetSession := False\<rparr>)"

text \<open>\<open>defer func() { c.inTransaction = false }()\<close>: also when the body panics.\<close>

definition ending :: "'a conn_op \<Rightarrow> 'a conn_op" where
  "ending m c = (case m c of (r, c') \<Rightarrow> (r, c'\<lparr>cn_inTransaction := False\<rparr>))"

text \<open>A request that failed to be sent, else its response.\<close>

definition after_send :: "derr option conn_op \<Rightarrow> derr option conn_op \<Rightarrow> derr option conn_op" where
  "after_send m k = gbind m (\<lambda>err. case err of Some e \<Rightarrow> checkBadConn (Some e) True | None \<Rightarrow> k)"

definition Commit :: "denv \<Rightarrow> derr option conn_op" where
  "Commit env c =
     (if \<not> cn_connectionGood c then (Inr (Some DBadConn), c)
      else ending (case checkServerAbortedTransaction c of
                     Some e \<Rightarrow> gret (Some e)
                   | None \<Rightarrow> after_send sendCommitRequest (simpleProcessResp env False)) c)"

definition Rollback :: "denv \<Rightarrow> derr option conn_op" where
  "Rollback env c =
     (if \<not> cn_connectionGood c then (Inr (Some DBadConn), c)
      else ending (if aborted c then gret None else after_send sendRollbackRequest (simpleProcessResp env True)) c)"

definition begin_tran :: "denv \<Rightarrow> byte \<Rightarrow> derr option conn_op" where
  "begin_tran env il c =
     (if \<not> cn_connectionGood c then (Inr (Some DBadConn), c)
      else after_send (sendBeginRequest il)
             (gbind (simpleProcessResp env False) (\<lambda>err. case err of
                Some e \<Rightarrow> gret (Some e)
              | None \<Rightarrow> (\<lambda>c. (Inr None, c\<lparr>cn_inTransaction := True\<rparr>)))) c)"

datatype IsolationLevel =
    LevelDefault | LevelReadUncommitted | LevelReadCommitted | LevelWriteCommitted | LevelRepeatableRead | LevelSnapshot
  | LevelSerializable | LevelLinearizable | LevelUnknown

fun convertIsolationLevel :: "IsolationLevel \<Rightarrow> byte option" where
  "convertIsolationLevel LevelDefault = Some 0"
| "convertIsolationLevel LevelReadUncommitted = Some 1"
| "convertIsolationLevel LevelReadCommitted = Some 2"
| "convertIsolationLevel LevelRepeatableRead = Some 3"
| "convertIsolationLevel LevelSerializable = Some 4"
| "convertIsolationLevel LevelSnapshot = Some 5"
| "convertIsolationLevel _ = None"

definition BeginTx :: "denv \<Rightarrow> bool \<Rightarrow> IsolationLevel \<Rightarrow> derr option conn_op" where
  "BeginTx env readOnly level c =
     (if \<not> cn_connectionGood c then (Inr (Some DBadConn), c)
      else if readOnly then (Inr (Some DOther), c)
      else (case convertIsolationLevel level of None \<Rightarrow> (Inr (Some DOther), c) | Some il \<Rightarrow> begin_tran env il c))"

section \<open>Statements\<close>

record queryNotifSub =
  q_msgText :: string
  q_options :: string
  q_timeout :: u32

record Stmt =
  st_query :: string
  st_paramCount :: int
  st_notifSub :: "queryNotifSub option"
  st_skipEncryption :: bool

definition milliseconds :: "int \<Rightarrow> u32" where
  "milliseconds timeout = (let ms = word_of_int (timeout sdiv 1000000) in if ms < 1 then 1 else ms)"

definition SetQueryNotification :: "string \<Rightarrow> string \<Rightarrow> int \<Rightarrow> Stmt \<Rightarrow> Stmt" where
  "SetQueryNotification i options timeout s =
     s\<lparr>st_notifSub := Some \<lparr>q_msgText = i, q_options = options, q_timeout = milliseconds timeout\<rparr>\<rparr>"

definition notif_header :: "queryNotifSub \<Rightarrow> headerStruct" where
  "notif_header n = \<lparr>hdrtype = dataStmHdrQueryNotif,
     hdata = queryNotifHdr_pack \<lparr>notifyId = q_msgText n, ssbDeployment = q_options n, notifyTimeout = q_timeout n\<rparr>\<rparr>"

definition query_headers :: "Stmt \<Rightarrow> Conn \<Rightarrow> headerStruct list" where
  "query_headers s c = trans_header (s_tranid (cn_sess c)) # map notif_header (case st_notifSub s of None \<Rightarrow> [] | Some n \<Rightarrow> [n])"

fun Join :: "string list \<Rightarrow> string \<Rightarrow> string" where
  "Join [] sep = []"
| "Join [x] sep = x"
| "Join (x # y # xs) sep = x @ sep @ Join (y # xs) sep"

text \<open>The error of \<open>makeRPCParams\<close> is returned as it is; nothing was sent.\<close>

definition query_params :: "denv \<Rightarrow> Stmt \<Rightarrow> namedValue list \<Rightarrow> fault + (procId \<times> param list)" where
  "query_params env s args =
     (if isProc (e_letter env) (e_upper env) (st_query s)
      then sbind (makeRPCParams (e_pdeps env) True args) (\<lambda>(params, _). Inr (sp_ExecuteSql\<lparr>p_name := st_query s\<rparr>, params))
      else sbind (makeRPCParams (e_pdeps env) False args) (\<lambda>(params, decls).
             Inr (sp_ExecuteSql, makeStrParam (st_query s) # makeStrParam (Join decls '','') # params)))"

definition sendQuery :: "denv \<Rightarrow> Stmt \<Rightarrow> namedValue list \<Rightarrow> derr option conn_op" where
  "sendQuery env s args c =
     (case checkServerAbortedTransaction c of
        Some e \<Rightarrow> (Inr (Some e), c)
      | None \<Rightarrow>
          let headers = query_headers s c; reset = cn_resetSession c; c1 = c\<lparr>cn_resetSession := False\<rparr> in
          if args = [] \<and> \<not> isProc (e_letter env) (e_upper env) (st_query s)
          then send_request (sendSqlBatch72 (st_query s) headers reset) c1
          else (case query_params env s args of
                 Inl (Err e) \<Rightarrow> (Inr (Some (err_of e)), c1)
               | Inl f \<Rightarrow> (Inl f, c1)
               | Inr (proc, params) \<Rightarrow> send_request (sendRpc headers proc 0 params reset (s_encoding (cn_sess c))) c1))"

definition doEncryption :: "Stmt \<Rightarrow> Conn \<Rightarrow> bool" where
  "doEncryption s c \<longleftrightarrow> \<not> st_skipEncryption s \<and> s_alwaysEncrypted (cn_sess c)"

definition processExec :: "denv \<Rightarrow> (derr + u64) conn_op" where
  "processExec env = gbind (run_response env False) (\<lambda>(err, n). gret (case err of Some e \<Rightarrow> Inl e | None \<Rightarrow> Inr n))"

section \<open>Rows\<close>

text \<open>
  The calls of \<open>nextToken\<close> that are left, and what the application has of the result set.
  The metadata of a result set without columns is the nil slice.
\<close>

record Rows =
  r_left :: "outcome list"
  r_cols :: "columnStruct list"
  r_nextCols :: "columnStruct list"
  r_returnStatus :: "int option"

text \<open>What one call of \<open>nextToken\<close> gave: a token, the end of the response, an error or a panic.\<close>

fun next_of :: "ctx_error \<Rightarrow> outcome \<Rightarrow> fault + (derr + token option)" where
  "next_of cx (Tok t) = Inr (Inr (Some t))"
| "next_of cx Finished = Inr (Inr None)"
| "next_of cx r = (case call_err cx r of Inl f \<Rightarrow> Inl f | Inr e \<Rightarrow> Inr (Inl e))"

definition checkedErr :: "derr \<Rightarrow> (derr + 'a) conn_op" where
  "checkedErr e = gbind (checkBadConn (Some e) False) (\<lambda>r. gret (Inl (the r)))"

fun metadata_loop :: "ctx_error \<Rightarrow> outcome list \<Rightarrow> int option \<Rightarrow> (derr + Rows) conn_op" where
  "metadata_loop cx [] rst = graise Diverges"
| "metadata_loop cx (r # rs) rst =
     (case next_of cx r of
        Inl f \<Rightarrow> graise f
      | Inr (Inl e) \<Rightarrow> checkedErr e
      | Inr (Inr None) \<Rightarrow> gret (Inr \<lparr>r_left = r # rs, r_cols = [], r_nextCols = [], r_returnStatus = rst\<rparr>)
      | Inr (Inr (Some (Columns cols))) \<Rightarrow> gret (Inr \<lparr>r_left = rs, r_cols = cols, r_nextCols = [], r_returnStatus = rst\<rparr>)
      | Inr (Inr (Some (Done dn))) \<Rightarrow> if isError dn then checkedErr (DSql (getError dn)) else metadata_loop cx rs rst
      | Inr (Inr (Some (ReturnStatus n))) \<Rightarrow> metadata_loop cx rs (Some n)
      | Inr (Inr (Some _)) \<Rightarrow> metadata_loop cx rs rst)"

text \<open>\<open>Rows.Next\<close>: \<open>Inl DEOF\<close> is \<open>io.EOF\<close>; the row has as many values as \<open>dest\<close>.\<close>

fun next_loop :: "ctx_error \<Rightarrow> nat \<Rightarrow> outcome list \<Rightarrow> Rows \<Rightarrow> ((derr + val list) \<times> Rows) conn_op" where
  "next_loop cx n [] rows = graise Diverges"
| "next_loop cx n (r # rs) rows =
     (case next_of cx r of
        Inl f \<Rightarrow> graise f
      | Inr (Inl e) \<Rightarrow> gbind (checkedErr e) (\<lambda>x. gret (x, rows\<lparr>r_left := rs\<rparr>))
      | Inr (Inr None) \<Rightarrow> gret (Inl DEOF, rows\<lparr>r_left := r # rs\<rparr>)
      | Inr (Inr (Some (Columns cols))) \<Rightarrow> gret (Inl DEOF, rows\<lparr>r_left := rs, r_nextCols := cols\<rparr>)
      | Inr (Inr (Some (Row vs))) \<Rightarrow>
          if length vs < n then graise (RuntimePanic ''index out of range'') else gret (Inr (take n vs), rows\<lparr>r_left := rs\<rparr>)
      | Inr (Inr (Some (Done dn))) \<Rightarrow>
          if isError dn then gbind (checkedErr (DSql (getError dn))) (\<lambda>x. gret (x, rows\<lparr>r_left := rs\<rparr>))
          else next_loop cx n rs rows
      | Inr (Inr (Some (ReturnStatus k))) \<Rightarrow> next_loop cx n rs (rows\<lparr>r_returnStatus := Some k\<rparr>)
      | Inr (Inr (Some _)) \<Rightarrow> next_loop cx n rs rows)"

definition Rows_Next :: "ctx_error \<Rightarrow> nat \<Rightarrow> Rows \<Rightarrow> ((derr + val list) \<times> Rows) conn_op" where
  "Rows_Next cx n rows c =
     (if \<not> cn_connectionGood c then (Inr (Inl DBadConn, rows), c)
      else if r_nextCols rows \<noteq> [] then (Inr (Inl DEOF, rows), c)
      else next_loop cx n (r_left rows) rows c)"

definition HasNextResultSet :: "Rows \<Rightarrow> bool" where
  "HasNextResultSet rows \<longleftrightarrow> r_nextCols rows \<noteq> []"

definition NextResultSet :: "Rows \<Rightarrow> derr option \<times> Rows" where
  "NextResultSet rows =
     (let rows' = rows\<lparr>r_cols := r_nextCols rows, r_nextCols := []\<rparr>
      in (if r_cols rows' = [] then Some DEOF else None, rows'))"

definition Rows_Columns :: "Rows \<Rightarrow> string list" where
  "Rows_Columns rows = map ColName (r_cols rows)"

text \<open>\<open>Rows.Close\<close>: the context was cancelled before; its error ends the loop quietly.\<close>

fun close_loop :: "ctx_error \<Rightarrow> outcome list \<Rightarrow> derr option \<Rightarrow> derr option conn_op" where
  "close_loop cx [] closeErr = graise Diverges"
| "close_loop cx (r # rs) closeErr =
     (case next_of cx r of
        Inl f \<Rightarrow> graise f
      | Inr (Inl e) \<Rightarrow> gret (if e = DCtx cx then closeErr else Some e)
      | Inr (Inr None) \<Rightarrow> gret closeErr
      | Inr (Inr (Some (Done dn))) \<Rightarrow>
          if isError dn \<and> closeErr = None
          then gbind (checkBadConn (Some (DSql (getError dn))) False) (close_loop cx rs)
          else close_loop cx rs closeErr
      | Inr (Inr (Some _)) \<Rightarrow> close_loop cx rs closeErr)"

definition Rows_Close :: "ctx_error \<Rightarrow> Rows \<Rightarrow> derr option conn_op" where
  "Rows_Close cx rows = close_loop cx (r_left rows) None"

section \<open>Rows for a message queue\<close>

record Rowsq =
  q_left :: "outcome list"
  q_cols :: "columnStruct list"
  q_requestDone :: bool
  q_inResultSet :: bool
  q_returnStatus :: "int option"

text \<open>\<open>Rowsq.Columns\<close> goes on after an error.\<close>

fun columns_loop :: "ctx_error \<Rightarrow> outcome list \<Rightarrow> Rowsq \<Rightarrow> fault + (string list \<times> Rowsq)" where
  "columns_loop cx [] rows = Inl Diverges"
| "columns_loop cx (r # rs) rows =
     (case next_of cx r of
        Inl f \<Rightarrow> Inl f
      | Inr (Inr None) \<Rightarrow> Inr ([], rows\<lparr>q_left := r # rs\<rparr>)
      | Inr (Inr (Some (Columns cols))) \<Rightarrow>
          if cols = [] then Inr ([], rows\<lparr>q_left := rs, q_inResultSet := True\<rparr>)
          else Inr (map ColName cols, rows\<lparr>q_left := rs, q_cols := cols, q_inResultSet := True\<rparr>)
      | Inr _ \<Rightarrow> columns_loop cx rs rows)"

definition Rowsq_Columns :: "ctx_error \<Rightarrow> Rowsq \<Rightarrow> fault + (string list \<times> Rowsq)" where
  "Rowsq_Columns cx rows =
     (if q_cols rows = [] then columns_loop cx (q_left rows) rows else Inr (map ColName (q_cols rows), rows))"

definition done_seen :: "doneStruct \<Rightarrow> Rowsq \<Rightarrow> Rowsq" where
  "done_seen dn rows = (if Status dn AND doneMore = 0 then rows\<lparr>q_requestDone := True\<rparr> else rows)"

text \<open>The error of a done token: an \<open>Error\<close> of the server is ignored.\<close>

definition done_fails :: "doneStruct \<Rightarrow> derr option conn_op" where
  "done_fails dn =
     (if isError dn
      then gbind (checkBadConn (Some (DSql (getError dn))) False) (\<lambda>e. gret (case e of Some (DSql _) \<Rightarrow> None | _ \<Rightarrow> e))
      else gret None)"

fun nextq_loop :: "ctx_error \<Rightarrow> nat \<Rightarrow> outcome list \<Rightarrow> Rowsq \<Rightarrow> ((derr + val list) \<times> Rowsq) conn_op" where
  "nextq_loop cx n [] rows = graise Diverges"
| "nextq_loop cx n (r # rs) rows =
     (case next_of cx r of
        Inl f \<Rightarrow> graise f
      | Inr (Inl e) \<Rightarrow> gbind (checkedErr e) (\<lambda>x. gret (x, rows\<lparr>q_left := rs\<rparr>))
      | Inr (Inr None) \<Rightarrow> gret (Inl DEOF, rows\<lparr>q_left := r # rs\<rparr>)
      | Inr (Inr (Some (Row vs))) \<Rightarrow>
          if length vs < n then graise (RuntimePanic ''index out of range'') else gret (Inr (take n vs), rows\<lparr>q_left := rs\<rparr>)
      | Inr (Inr (Some (ReturnStatus k))) \<Rightarrow> nextq_loop cx n rs (rows\<lparr>q_returnStatus := Some k\<rparr>)
      | Inr (Inr (Some (TokErr (ServerError e)))) \<Rightarrow> gret (Inl (DServer e), rows\<lparr>q_left := rs, q_requestDone := True\<rparr>)
      | Inr (Inr (Some t)) \<Rightarrow>
          (case (case t of Done dn \<Rightarrow> Some dn | DoneInProc dn \<Rightarrow> Some dn | _ \<Rightarrow> None) of
             None \<Rightarrow> nextq_loop cx n rs rows
           | Some dn \<Rightarrow>
               gbind (done_fails dn) (\<lambda>err. case err of
                   Some e \<Rightarrow> gret (Inl e, (done_seen dn rows)\<lparr>q_left := rs\<rparr>)
                 | None \<Rightarrow>
                     if q_inResultSet rows then gret (Inl DEOF, (done_seen dn rows)\<lparr>q_left := rs, q_inResultSet := False\<rparr>)
                     else nextq_loop cx n rs (done_seen dn rows))))"

definition Rowsq_Next :: "ctx_error \<Rightarrow> nat \<Rightarrow> Rowsq \<Rightarrow> ((derr + val list) \<times> Rowsq) conn_op" where
  "Rowsq_Next cx n rows c =
     (if \<not> cn_connectionGood c then (Inr (Inl DBadConn, rows), c) else nextq_loop cx n (q_left rows) rows c)"

fun resultq_loop :: "ctx_error \<Rightarrow> outcome list \<Rightarrow> Rowsq \<Rightarrow> (derr option \<times> Rowsq) conn_op" where
  "resultq_loop cx [] rows = graise Diverges"
| "resultq_loop cx (r # rs) rows =
     (case next_of cx r of
        Inl f \<Rightarrow> graise f
      | Inr (Inl e) \<Rightarrow> gret (Some e, rows\<lparr>q_left := rs\<rparr>)
      | Inr (Inr None) \<Rightarrow> gret (Some DEOF, rows\<lparr>q_left := r # rs\<rparr>)
      | Inr (Inr (Some (Columns cols))) \<Rightarrow> gret (None, rows\<lparr>q_left := rs, q_cols := cols, q_inResultSet := True\<rparr>)
      | Inr (Inr (Some (ReturnStatus k))) \<Rightarrow> resultq_loop cx rs (rows\<lparr>q_returnStatus := Some k\<rparr>)
      | Inr (Inr (Some (TokErr (ServerError e)))) \<Rightarrow> gret (Some (DServer e), rows\<lparr>q_left := rs, q_requestDone := True\<rparr>)
      | Inr (Inr (Some t)) \<Rightarrow>
          (case (case t of Done dn \<Rightarrow> Some dn | DoneInProc dn \<Rightarrow> Some dn | _ \<Rightarrow> None) of
             None \<Rightarrow> resultq_loop cx rs rows
           | Some dn \<Rightarrow>
               gbind (done_fails dn) (\<lambda>err. case err of
                   Some e \<Rightarrow> gret (Some e, (done_seen dn rows)\<lparr>q_left := rs\<rparr>)
                 | None \<Rightarrow> gret (None, (done_seen dn rows)\<lparr>q_left := rs, q_inResultSet := False, q_cols := []\<rparr>))))"

definition Rowsq_NextResultSet :: "ctx_error \<Rightarrow> Rowsq \<Rightarrow> (derr option \<times> Rowsq) conn_op" where
  "Rowsq_NextResultSet cx rows =
     (if q_requestDone rows then gret (Some DEOF, rows) else resultq_loop cx (q_left rows) rows)"

fun closeq_loop :: "ctx_error \<Rightarrow> outcome list \<Rightarrow> derr option conn_op" where
  "closeq_loop cx [] = graise Diverges"
| "closeq_loop cx (r # rs) =
     (case next_of cx r of
        Inl f \<Rightarrow> graise f
      | Inr (Inl e) \<Rightarrow> gret (if e = DCtx cx then None else Some e)
      | Inr (Inr None) \<Rightarrow> gret None
      | Inr (Inr (Some _)) \<Rightarrow> closeq_loop cx rs)"

definition Rowsq_Close :: "ctx_error \<Rightarrow> Rowsq \<Rightarrow> derr option conn_op" where
  "Rowsq_Close cx rows = closeq_loop cx (q_left rows)"

section \<open>Queries\<close>

text \<open>\<open>driver.Rows\<close>: one of the two implementations.\<close>

datatype driver_rows = PlainRows Rows | QueueRows Rowsq

fun rows_Next :: "ctx_error \<Rightarrow> nat \<Rightarrow> driver_rows \<Rightarrow> ((derr + val list) \<times> driver_rows) conn_op" where
  "rows_Next cx n (PlainRows r) = gbind (Rows_Next cx n r) (\<lambda>(x, r). gret (x, PlainRows r))"
| "rows_Next cx n (QueueRows q) = gbind (Rowsq_Next cx n q) (\<lambda>(x, q). gret (x, QueueRows q))"

fun rows_NextResultSet :: "ctx_error \<Rightarrow> driver_rows \<Rightarrow> (derr option \<times> driver_rows) conn_op" where
  "rows_NextResultSet cx (PlainRows r) = gret (case NextResultSet r of (e, r) \<Rightarrow> (e, PlainRows r))"
| "rows_NextResultSet cx (QueueRows q) = gbind (Rowsq_NextResultSet cx q) (\<lambda>(e, q). gret (e, QueueRows q))"

fun rows_Close :: "ctx_error \<Rightarrow> driver_rows \<Rightarrow> derr option conn_op" where
  "rows_Close cx (PlainRows r) = Rows_Close cx r"
| "rows_Close cx (QueueRows q) = Rowsq_Close cx q"

definition processQueryResponse :: "denv \<Rightarrow> (derr + driver_rows) conn_op" where
  "processQueryResponse env c =
     (case respond env False c of (rs, c1) \<Rightarrow>
        if o_msgq (cn_outs c)
        then (Inr (Inr (QueueRows \<lparr>q_left = rs, q_cols = [], q_requestDone = False, q_inResultSet = False, q_returnStatus = None\<rparr>)), c1)
        else gbind (metadata_loop (e_ctx env) rs None) (\<lambda>x. gret (map_sum id PlainRows x)) c1)"

text \<open>The part of \<open>queryContext\<close> and of \<open>exec\<close> after the encryption of the arguments.\<close>

definition send_then :: "denv \<Rightarrow> Stmt \<Rightarrow> namedValue list \<Rightarrow> (derr + 'a) conn_op \<Rightarrow> (derr + 'a) conn_op" where
  "send_then env s args k =
     gbind (sendQuery env s args) (\<lambda>err. case err of
         Some e \<Rightarrow> gbind (checkBadConn (Some e) True) (\<lambda>r. gret (Inl (the r)))
       | None \<Rightarrow> k)"

end
