(* ===== verification/Tds_Stmt.thy ===== *)
theory Tds_Stmt
  imports Tds_Conn
begin

text \<open>
  Always Encrypted parameters of \<open>src/encrypt.go\<close> and the entry points of statements and connections:
  \<open>encryptArgs\<close>, \<open>queryContext\<close>, \<open>exec\<close>, \<open>Ping\<close>, \<open>ResetSession\<close> and \<open>Prepare\<close>. Key providers,
  the HMAC, the block cipher and the random bytes come from outside.

  The lemmas show that a connection which reported a broken stream is never used again, what a commit
  or a rollback does in each state of the transaction, that the rows of a query are those of the response, and
  that an encrypted argument decrypts to what the application passed.
\<close>

section \<open>Describing the parameters\<close>

record cekData =
  ck_ordinal :: int
  ck_database_id :: int
  ck_id :: int
  ck_version :: int
  ck_metadataVersion :: bytes
  ck_encryptedValue :: bytes
  ck_cmkStoreName :: string
  ck_cmkPath :: string
  ck_algorithm :: string
  ck_decryptedValue :: bytes

record parameterEncData =
  pe_ordinal :: int
  pe_name :: string
  pe_algorithm :: int
  pe_encType :: int
  pe_cekOrdinal :: int
  pe_ruleVersion :: int

definition plainText :: int where "plainText = 0"

definition appendPrefixedParameterName :: "string \<Rightarrow> string \<Rightarrow> string" where
  "appendPrefixedParameterName b p = (if p = [] then b else b @ (if hd p \<noteq> CHR ''@'' then ''@'' else []) @ p)"

definition proc_argument :: "namedValue \<Rightarrow> string" where
  "proc_argument a =
     (let nm = (if nv_Name a = [] then ''@p'' @ show_nat (nv_Ordinal a) else nv_Name a);
          b = appendPrefixedParameterName '' '' nm;
          b = (if nv_Name a \<noteq> [] then appendPrefixedParameterName (b @ ''='') (nv_Name a) else b)
      in b @ (if isOutputValue (nv_Value a) then '' OUTPUT'' else []))"

definition buildStoredProcedureStatementForColumnEncryption :: "string \<Rightarrow> namedValue list \<Rightarrow> string" where
  "buildStoredProcedureStatementForColumnEncryption sproc args = ''EXEC '' @ ID sproc @ Join (map proc_argument args) '',''"

definition buildParametersForColumnEncryption :: "denv \<Rightarrow> namedValue list \<Rightarrow> fault + string" where
  "buildParametersForColumnEncryption env args =
     sbind (makeRPCParams (e_pdeps env) False args) (\<lambda>(_, decls). Inr (Join decls '', ''))"

definition text_arg :: "string \<Rightarrow> nat \<Rightarrow> string \<Rightarrow> namedValue" where
  "text_arg nm i v = \<lparr>nv_Name = nm, nv_Ordinal = i, nv_Value = GString v, nv_encrypt = None\<rparr>"

definition prepareEncryptionQuery :: "denv \<Rightarrow> bool \<Rightarrow> string \<Rightarrow> namedValue list \<Rightarrow> fault + namedValue list" where
  "prepareEncryptionQuery env proc q args =
     sbind (buildParametersForColumnEncryption env args) (\<lambda>params.
       Inr [text_arg ''tsql'' 0 (if proc then buildStoredProcedureStatementForColumnEncryption q args else q),
            text_arg ''params'' 1 params])"

text \<open>Type assertions on the values of a row.\<close>

definition assertion :: "fault + 'a" where
  "assertion = Inl (RuntimePanic ''interface conversion'')"

fun as_int :: "val \<Rightarrow> fault + int" where
  "as_int (VInt n) = Inr n"
| "as_int _ = assertion"

fun as_bytes :: "val \<Rightarrow> fault + bytes" where
  "as_bytes (VBytes b) = Inr b"
| "as_bytes _ = assertion"

fun as_string :: "val \<Rightarrow> fault + string" where
  "as_string (VStr s) = Inr s"
| "as_string _ = assertion"

definition cek_row :: "val list \<Rightarrow> fault + cekData" where
  "cek_row v =
     sbind (as_int (v ! 0)) (\<lambda>o'. sbind (as_int (v ! 1)) (\<lambda>db. sbind (as_int (v ! 2)) (\<lambda>i. sbind (as_int (v ! 3)) (\<lambda>ver.
     sbind (as_bytes (v ! 4)) (\<lambda>mv. sbind (as_bytes (v ! 5)) (\<lambda>enc. sbind (as_string (v ! 6)) (\<lambda>st. sbind (as_string (v ! 7)) (\<lambda>path.
     sbind (as_string (v ! 8)) (\<lambda>alg.
       Inr \<lparr>ck_ordinal = o', ck_database_id = db, ck_id = i, ck_version = ver, ck_metadataVersion = mv, ck_encryptedValue = enc,
            ck_cmkStoreName = st, ck_cmkPath = path, ck_algorithm = alg, ck_decryptedValue = []\<rparr>)))))))))"

definition enc_row :: "val list \<Rightarrow> fault + parameterEncData" where
  "enc_row v =
     sbind (as_int (v ! 0)) (\<lambda>o'. sbind (as_string (v ! 1)) (\<lambda>nm. sbind (as_int (v ! 2)) (\<lambda>alg. sbind (as_int (v ! 3)) (\<lambda>ty.
     sbind (as_int (v ! 4)) (\<lambda>co. sbind (as_int (v ! 5)) (\<lambda>rv.
       Inr \<lparr>pe_ordinal = o', pe_name = nm, pe_algorithm = alg, pe_encType = ty, pe_cekOrdinal = co, pe_ruleVersion = rv\<rparr>))))))"

text \<open>
  \<open>rows.Next\<close> until it fails. Every round but the last takes a row of the response, so that as many
  rounds as there are calls left, and one more, are enough.
\<close>

fun rows_left :: "driver_rows \<Rightarrow> nat" where
  "rows_left (PlainRows r) = length (r_left r)"
| "rows_left (QueueRows q) = length (q_left q)"

primrec collect_fuel ::
    "('r \<Rightarrow> ((derr + val list) \<times> 'r) conn_op) \<Rightarrow> nat \<Rightarrow> (val list \<Rightarrow> fault + 'a) \<Rightarrow> 'r \<Rightarrow> ('a list \<times> derr \<times> 'r) conn_op" where
  "collect_fuel next 0 f rows = graise Diverges"
| "collect_fuel next (Suc k) f rows =
     gbind (next rows) (\<lambda>(x, rows). case x of
         Inl e \<Rightarrow> gret ([], e, rows)
       | Inr v \<Rightarrow> (case f v of
             Inl p \<Rightarrow> graise p
           | Inr y \<Rightarrow> gbind (collect_fuel next k f rows) (\<lambda>(ys, e, rows). gret (y # ys, e, rows))))"

definition collect :: "ctx_error \<Rightarrow> nat \<Rightarrow> (val list \<Rightarrow> fault + 'a) \<Rightarrow> driver_rows \<Rightarrow> ('a list \<times> derr \<times> driver_rows) conn_op" where
  "collect cx n f rows = collect_fuel (rows_Next cx n) (Suc (rows_left rows)) f rows"

definition processDescribeParameterEncryption ::
    "ctx_error \<Rightarrow> driver_rows \<Rightarrow> ((derr + (cekData list \<times> parameterEncData list)) \<times> driver_rows) conn_op" where
  "processDescribeParameterEncryption cx rows =
     gbind (collect cx 9 cek_row rows) (\<lambda>(ceks, e, rows).
       if e \<noteq> DEOF then gret (Inl e, rows)
       else if ceks = [] then gret (Inr ([], []), rows)
       else gbind (rows_NextResultSet cx rows) (\<lambda>(err, rows). case err of
           Some e \<Rightarrow> gret (Inl e, rows)
         | None \<Rightarrow>
             gbind (collect cx 6 enc_row rows) (\<lambda>(ps, e, rows).
               if e \<noteq> DEOF then gret (Inl e, rows)
               else if ps = [] then graise (StreamPanic (ErrMsg ''no parameter encryption rows were returned from sp_describe_parameter_encryption''))
               else gret (Inr (ceks, ps), rows))))"

section \<open>Keys and encryptors\<close>

record keydeps =
  k_provider :: "string \<Rightarrow> (string \<Rightarrow> bytes \<Rightarrow> err + bytes) option"
  k_hmac :: "bytes \<Rightarrow> bytes \<Rightarrow> bytes"
  k_aes :: "bytes \<Rightarrow> bytes \<Rightarrow> bytes"
  k_rand :: "fault + bytes"

fun decryptCek :: "keydeps \<Rightarrow> cekData list \<Rightarrow> err + cekData list" where
  "decryptCek k [] = Inr []"
| "decryptCek k (info # infos) =
     (case k_provider k (ck_cmkStoreName info) of
        None \<Rightarrow> Inl (ErrMsg ''no provider found for key store %s'')
      | Some kp \<Rightarrow>
          (case kp (ck_cmkPath info) (ck_encryptedValue info) of
             Inl e \<Rightarrow> Inl e
           | Inr dk \<Rightarrow> (case decryptCek k infos of Inl e \<Rightarrow> Inl e | Inr xs \<Rightarrow> Inr (info\<lparr>ck_decryptedValue := dk\<rparr> # xs))))"

definition cipher_metadata :: "cekData \<Rightarrow> parameterEncData \<Rightarrow> bytes" where
  "cipher_metadata ck p =
     [word_of_int (pe_algorithm p), word_of_int (pe_encType p)] @ le_bytes 4 (word_of_int (ck_database_id ck) :: u32)
       @ le_bytes 4 (word_of_int (ck_id ck) :: u32) @ le_bytes 4 (word_of_int (ck_version ck) :: u32)
       @ ck_metadataVersion ck @ [word_of_int (pe_ruleVersion p)]"

definition param_algorithm :: "keydeps \<Rightarrow> cekData \<Rightarrow> parameterEncData \<Rightarrow> AeadAlgorithm" where
  "param_algorithm k ck p =
     NewAeadAlgorithm (NewAeadAes256CbcHmac256 (k_hmac k) (ck_decryptedValue ck)) (From (word_of_int (pe_encType p)))
       (word_of_int (ck_version ck))"

definition getEncryptor :: "keydeps \<Rightarrow> cekData \<Rightarrow> parameterEncData \<Rightarrow> bytes option \<Rightarrow> fault + (bytes \<times> bytes)" where
  "getEncryptor k ck p b =
     sbind (Encrypt (k_hmac k) (k_aes k) (k_rand k) (param_algorithm k ck p) (case b of None \<Rightarrow> [] | Some xs \<Rightarrow> xs))
       (\<lambda>enc. Inr (enc, cipher_metadata ck p))"

text \<open>\<open>paramMap\<close>: a key out of range panics, a later parameter of the same name wins.\<close>

type_synonym param_map = "string \<rightharpoonup> (cekData option \<times> parameterEncData)"

fun param_map_of :: "cekData list \<Rightarrow> param_map \<Rightarrow> parameterEncData list \<Rightarrow> fault + param_map" where
  "param_map_of ceks m [] = Inr m"
| "param_map_of ceks m (p # ps) =
     (if pe_encType p = plainText then param_map_of ceks (m(pe_name p \<mapsto> (None, p))) ps
      else if pe_cekOrdinal p < 1 \<or> int (length ceks) < pe_cekOrdinal p then Inl (RuntimePanic ''index out of range'')
      else param_map_of ceks (m(pe_name p \<mapsto> (Some (ceks ! nat (pe_cekOrdinal p - 1)), p))) ps)"

definition nil_deref :: "fault + 'a" where
  "nil_deref = Inl (RuntimePanic ''nil pointer dereference'')"

definition arg_key :: "namedValue \<Rightarrow> string" where
  "arg_key a = (if nv_Name a \<noteq> [] then CHR ''@'' # nv_Name a else ''@p'' @ show_nat (nv_Ordinal a))"

definition encrypted_arg :: "keydeps \<Rightarrow> param_map \<Rightarrow> namedValue \<Rightarrow> fault + namedValue" where
  "encrypted_arg k m a =
     (case m (arg_key a) of
        None \<Rightarrow> nil_deref
      | Some (ck, p) \<Rightarrow>
          if pe_encType p = plainText \<or> nv_Value a = GNil then Inr a
          else (case ck of None \<Rightarrow> nil_deref | Some ck \<Rightarrow> Inr (a\<lparr>nv_encrypt := Some (getEncryptor k ck p)\<rparr>)))"

fun encrypted_args :: "keydeps \<Rightarrow> param_map \<Rightarrow> namedValue list \<Rightarrow> fault + namedValue list" where
  "encrypted_args k m [] = Inr []"
| "encrypted_args k m (a # as) = sbind (encrypted_arg k m a) (\<lambda>b. sbind (encrypted_args k m as) (\<lambda>bs. Inr (b # bs)))"

section \<open>Statements\<close>

definition bad_conn :: "(derr + 'a) conn_op" where
  "bad_conn = gret (Inl DBadConn)"

text \<open>\<open>queryContext\<close> of a statement that encrypts nothing.\<close>

definition queryPlain :: "denv \<Rightarrow> Stmt \<Rightarrow> namedValue list \<Rightarrow> (derr + driver_rows) conn_op" where
  "queryPlain env s args c =
     (if \<not> cn_connectionGood c then bad_conn c else send_then env s args (processQueryResponse env) c)"

definition describe_stmt :: "Stmt \<Rightarrow> Stmt" where
  "describe_stmt s = \<lparr>st_query = ''sp_describe_parameter_encryption'', st_paramCount = st_paramCount s, st_notifSub = None,
     st_skipEncryption = True\<rparr>"

definition set_outs :: "outputs \<Rightarrow> unit conn_op" where
  "set_outs outs c = (Inr (), c\<lparr>cn_outs := outs\<rparr>)"

definition lift_pure :: "fault + 'a \<Rightarrow> (derr + 'a) conn_op" where
  "lift_pure x = (case x of Inl (Err e) \<Rightarrow> gret (Inl (err_of e)) | Inl f \<Rightarrow> graise f | Inr y \<Rightarrow> gret (Inr y))"

definition ebind :: "(derr + 'a) conn_op \<Rightarrow> ('a \<Rightarrow> (derr + 'b) conn_op) \<Rightarrow> (derr + 'b) conn_op" where
  "ebind m k = gbind m (\<lambda>x. case x of Inl e \<Rightarrow> gret (Inl e) | Inr y \<Rightarrow> k y)"

text \<open>The error of \<open>rows.Close\<close> is dropped.\<close>

definition describe :: "denv \<Rightarrow> Stmt \<Rightarrow> namedValue list \<Rightarrow> outputs \<Rightarrow> (derr + (cekData list \<times> parameterEncData list)) conn_op" where
  "describe env s newArgs oldouts =
     gbind (queryPlain env (describe_stmt s) newArgs) (\<lambda>x. case x of
         Inl e \<Rightarrow> gthen (set_outs oldouts) (gret (Inl e))
       | Inr rows \<Rightarrow>
           gbind (processDescribeParameterEncryption (e_ctx env) rows) (\<lambda>(y, rows).
             gthen (rows_Close (e_ctx env) rows) (gthen (set_outs oldouts) (gret y))))"

definition encryptArgs :: "denv \<Rightarrow> keydeps \<Rightarrow> Stmt \<Rightarrow> namedValue list \<Rightarrow> (derr + namedValue list) conn_op" where
  "encryptArgs env k s args c =
     ebind (lift_pure (prepareEncryptionQuery env (isProc (e_letter env) (e_upper env) (st_query s)) (st_query s) args)) (\<lambda>newArgs.
       ebind (describe env s newArgs (cn_outs c)) (\<lambda>(cekInfo, paramsInfo).
         if cekInfo = [] then gret (Inr args)
         else case decryptCek k cekInfo of
             Inl e \<Rightarrow> gret (Inl (err_of e))
           | Inr ceks \<Rightarrow> lift_pure (sbind (param_map_of ceks Map.empty paramsInfo) (\<lambda>m. encrypted_args k m args))))
       (clearOuts c)"

definition maybe_encrypt :: "denv \<Rightarrow> keydeps \<Rightarrow> Stmt \<Rightarrow> namedValue list \<Rightarrow> (derr + namedValue list) conn_op" where
  "maybe_encrypt env k s args c =
     (if doEncryption s c \<and> args \<noteq> [] then encryptArgs env k s args c else (Inr (Inr args), c))"

definition queryContext :: "denv \<Rightarrow> keydeps \<Rightarrow> Stmt \<Rightarrow> namedValue list \<Rightarrow> (derr + driver_rows) conn_op" where
  "queryContext env k s args c =
     (if \<not> cn_connectionGood c then bad_conn c
      else ebind (maybe_encrypt env k s args) (\<lambda>args. send_then env s args (processQueryResponse env)) c)"

definition exec :: "denv \<Rightarrow> keydeps \<Rightarrow> Stmt \<Rightarrow> namedValue list \<Rightarrow> (derr + u64) conn_op" where
  "exec env k s args c =
     (if \<not> cn_connectionGood c then bad_conn c
      else ebind (maybe_encrypt env k s args) (\<lambda>args. send_then env s args (processExec env)) c)"

text \<open>\<open>defer s.c.clearOuts()\<close>: also after a panic.\<close>

definition clearing :: "'a conn_op \<Rightarrow> 'a conn_op" where
  "clearing m c = (case m c of (r, c') \<Rightarrow> (r, clearOuts c'))"

definition QueryContext :: "denv \<Rightarrow> keydeps \<Rightarrow> Stmt \<Rightarrow> namedValue list \<Rightarrow> (derr + driver_rows) conn_op" where
  "QueryContext env k s args = clearing (\<lambda>c. if \<not> cn_connectionGood c then bad_conn c else queryContext env k s args c)"

definition ExecContext :: "denv \<Rightarrow> keydeps \<Rightarrow> Stmt \<Rightarrow> namedValue list \<Rightarrow> (derr + u64) conn_op" where
  "ExecContext env k s args = clearing (\<lambda>c. if \<not> cn_connectionGood c then bad_conn c else exec env k s args c)"

definition Ping :: "denv \<Rightarrow> keydeps \<Rightarrow> (derr + unit) conn_op" where
  "Ping env k c =
     (if \<not> cn_connectionGood c then bad_conn c
      else ebind (ExecContext env k \<lparr>st_query = ''select 1;'', st_paramCount = 0, st_notifSub = None, st_skipEncryption = True\<rparr> [])
             (\<lambda>_. gret (Inr ())) c)"

definition prepareContext :: "string \<Rightarrow> Conn \<Rightarrow> Stmt" where
  "prepareContext query c =
     (case (if cn_processQueryText c then ParseParams query else (query, -1)) of
        (q, n) \<Rightarrow> \<lparr>st_query = q, st_paramCount = n, st_notifSub = None, st_skipEncryption = False\<rparr>)"

text \<open>The error of the initial statement is replaced: the session is given up.\<close>

definition ResetSession :: "denv \<Rightarrow> keydeps \<Rightarrow> (derr + unit) conn_op" where
  "ResetSession env k c =
     (if \<not> cn_connectionGood c then bad_conn c
      else let c = c\<lparr>cn_resetSession := True\<rparr> in
           if cn_SessionInitSQL c = [] then (Inr (Inr ()), c)
           else gbind (exec env k (prepareContext (cn_SessionInitSQL c) c) [])
                  (\<lambda>x. gret (case x of Inl _ \<Rightarrow> Inl DBadConn | Inr _ \<Rightarrow> Inr ())) c)"

section \<open>Encrypted arguments\<close>

lemma encrypted_args_nth:
  "encrypted_args k m args = Inr bs \<Longrightarrow> length bs = length args \<and> (\<forall>i<length args. encrypted_arg k m (args ! i) = Inr (bs ! i))"
proof (induction args arbitrary: bs)
  case (Cons a args)
  then obtain b bs' where "bs = b # bs'" "encrypted_arg k m a = Inr b" "encrypted_args k m args = Inr bs'"
    by (auto simp: sbind_def split: sum.splits)
  with Cons.IH show ?case by (auto simp: nth_Cons split: nat.split)
qed simp

lemma getEncryptor_recovers:
  assumes "block_cipher (k_aes k) D" "mac256 (k_hmac k)" "length (ck_decryptedValue ck) = keySizeBytes"
    and "k_rand k = Inr iv" "length iv = block_size"
  shows "\<exists>c. getEncryptor k ck p b = Inr (c, cipher_metadata ck p)
     \<and> Decrypt (k_hmac k) D (param_algorithm k ck p) c = Inr (case b of None \<Rightarrow> [] | Some xs \<Rightarrow> xs)"
proof -
  obtain c where "Encrypt (k_hmac k) (k_aes k) (k_rand k) (param_algorithm k ck p) (case b of None \<Rightarrow> [] | Some xs \<Rightarrow> xs) = Inr c"
    "Decrypt (k_hmac k) D (param_algorithm k ck p) c = Inr (case b of None \<Rightarrow> [] | Some xs \<Rightarrow> xs)"
    using encrypt_roundtrip [OF assms refl] unfolding param_algorithm_def by blast
  then show ?thesis by (auto simp: getEncryptor_def)
qed

text \<open>
  C21. An argument for an encrypted column leaves the driver as ciphertext of its column's key: the
  parameter is sent as binary data with the encrypted flag, its original type and the key's metadata beside it, and
  the ciphertext decrypts to the bytes of the argument; arguments for other columns and untyped NULLs are sent as
  they are. A typed NULL (\<open>sql.NullString\<close> and the like) has no bytes and is sent as the encryption of the
  empty string.
\<close>

theorem encrypted_argument_recovers:
  assumes "block_cipher (k_aes k) D" "mac256 (k_hmac k)" "k_rand k = Inr iv" "length iv = block_size"
    and "encrypted_args k m args = Inr bs" "i < length args" "m (arg_key (args ! i)) = Some (ck, pe)"
    and "\<forall>y. ck = Some y \<longrightarrow> length (ck_decryptedValue y) = keySizeBytes"
    and "makeParam d (nv_Value (args ! i)) = Inr p0" "makeDecl (par_ti p0) = Inr decl"
  shows "if pe_encType pe = plainText \<or> nv_Value (args ! i) = GNil then bs ! i = args ! i
     else \<exists>y q c sql. ck = Some y \<and> makeRPCParam d proc (bs ! i) = Inr (q, sql) \<and> par_buffer q = Some c
       \<and> Decrypt (k_hmac k) D (param_algorithm k y pe) c = Inr (case par_buffer p0 of None \<Rightarrow> [] | Some xs \<Rightarrow> xs)
       \<and> TypeId (par_ti q) = typeBigVarBin \<and> par_Flags q AND fEncrypted \<noteq> 0
       \<and> par_tiOriginal q = par_ti p0 \<and> par_cipherInfo q = cipher_metadata y pe"
proof (cases "pe_encType pe = plainText \<or> nv_Value (args ! i) = GNil")
  case True
  with encrypted_args_nth [OF assms(5)] assms(6,7) show ?thesis by (auto simp: encrypted_arg_def arg_key_def)
next
  case False
  have "encrypted_arg k m (args ! i) = Inr (bs ! i)" using encrypted_args_nth [OF assms(5)] assms(6) by blast
  with False assms(7) obtain y where y: "ck = Some y" "bs ! i = (args ! i)\<lparr>nv_encrypt := Some (getEncryptor k y pe)\<rparr>"
    by (auto simp: encrypted_arg_def arg_key_def nil_deref_def split: option.splits)
  obtain c where c: "getEncryptor k y pe (par_buffer p0) = Inr (c, cipher_metadata y pe)"
    "Decrypt (k_hmac k) D (param_algorithm k y pe) c = Inr (case par_buffer p0 of None \<Rightarrow> [] | Some xs \<Rightarrow> xs)"
    using getEncryptor_recovers [OF assms(1,2) _ assms(3,4), of y pe "par_buffer p0"] assms(8) y(1) by blast
  have "(w OR fEncrypted) AND fEncrypted = fEncrypted" for w :: byte by (rule bit_word_eqI) (auto simp: bit_simps)
  then have fl: "(w OR fEncrypted) AND fEncrypted \<noteq> 0" for w :: byte by (simp add: fEncrypted_def)
  let ?p = "p0\<lparr>par_Name := param_name (args ! i) proc\<rparr>"
  let ?q = "?p\<lparr>par_tiOriginal := par_ti p0, par_Flags := par_Flags p0 OR fEncrypted, par_cipherInfo := cipher_metadata y pe,
      par_ti := (par_ti p0)\<lparr>TypeId := typeBigVarBin, Size := 0\<rparr>, par_buffer := Some c\<rparr>"
  have "encrypt_param (getEncryptor k y pe) ?p = Inr ?q" using c(1) by (simp add: encrypt_param_def)
  moreover have "param_name (bs ! i) proc = param_name (args ! i) proc" using y(2) by (simp add: param_name_def)
  ultimately have "\<exists>sql. makeRPCParam d proc (bs ! i) = Inr (?q, sql)"
    using y(2) assms(9,10) by (simp add: makeRPCParam_def Let_def)
  then obtain sql where "makeRPCParam d proc (bs ! i) = Inr (?q, sql)" ..
  moreover have "TypeId (par_ti ?q) = typeBigVarBin" "par_Flags ?q AND fEncrypted \<noteq> 0" "par_buffer ?q = Some c"
    "par_tiOriginal ?q = par_ti p0" "par_cipherInfo ?q = cipher_metadata y pe"
    using fl by simp_all
  ultimately show ?thesis using y(1) c(2) False by metis
qed

section \<open>A bad connection is not used again\<close>

text \<open>The calls of the application, and the error each returns.\<close>

datatype call =
    CallBegin bool IsolationLevel
  | CallCommit
  | CallRollback
  | CallQuery Stmt "namedValue list"
  | CallExec Stmt "namedValue list"
  | CallPing
  | CallReset

definition err_only :: "(derr + 'a) conn_op \<Rightarrow> derr option conn_op" where
  "err_only m = gbind m (\<lambda>x. gret (case x of Inl e \<Rightarrow> Some e | Inr _ \<Rightarrow> None))"

fun perform :: "denv \<Rightarrow> keydeps \<Rightarrow> call \<Rightarrow> derr option conn_op" where
  "perform env k (CallBegin readOnly level) = BeginTx env readOnly level"
| "perform env k CallCommit = Commit env"
| "perform env k CallRollback = Rollback env"
| "perform env k (CallQuery s args) = err_only (QueryContext env k s args)"
| "perform env k (CallExec s args) = err_only (ExecContext env k s args)"
| "perform env k CallPing = err_only (Ping env k)"
| "perform env k CallReset = err_only (ResetSession env k)"

fun perform_all :: "denv \<Rightarrow> keydeps \<Rightarrow> call list \<Rightarrow> Conn \<Rightarrow> (fault + derr option) list \<times> Conn" where
  "perform_all env k [] c = ([], c)"
| "perform_all env k (x # xs) c =
     (case perform env k x c of (r, c1) \<Rightarrow> case perform_all env k xs c1 of (rs, c2) \<Rightarrow> (r # rs, c2))"

text \<open>The statement of a call asks the server how to encrypt its arguments.\<close>

fun describes :: "call \<Rightarrow> Conn \<Rightarrow> bool" where
  "describes (CallQuery s args) c = (doEncryption s c \<and> args \<noteq> [])"
| "describes (CallExec s args) c = (doEncryption s c \<and> args \<noteq> [])"
| "describes _ c = False"

text \<open>The errors after which the stream cannot be trusted: those of the connection and those offered for a retry.\<close>

definition broken :: "derr \<Rightarrow> bool" where
  "broken e \<longleftrightarrow> spoils e \<or> (\<exists>x. e = DRetry x)"

text \<open>Operations whose broken errors come with a bad connection.\<close>

definition honest :: "derr option conn_op \<Rightarrow> bool" where
  "honest m \<longleftrightarrow> (\<forall>c e c'. m c = (Inr (Some e), c') \<longrightarrow> broken e \<longrightarrow> \<not> cn_connectionGood c')"

lemma honestI: "(\<And>c e c'. m c = (Inr (Some e), c') \<Longrightarrow> broken e \<Longrightarrow> \<not> cn_connectionGood c') \<Longrightarrow> honest m"
  by (auto simp: honest_def)

lemma honestD: "honest m \<Longrightarrow> m c = (Inr (Some e), c') \<Longrightarrow> broken e \<Longrightarrow> \<not> cn_connectionGood c'"
  by (auto simp: honest_def)

lemma broken_simps [simp]:
  "broken DEOF" "broken DStream" "broken (DServer x)" "broken (DNet y)" "broken (DRetry e)"
  "\<not> broken DOther" "\<not> broken DBadConn" "\<not> broken (DSql x)" "\<not> broken aborted_error"
  by (simp_all add: broken_def aborted_error_def)

definition raw :: "derr \<Rightarrow> bool" where
  "raw e \<longleftrightarrow> (\<forall>x. e \<noteq> DRetry x)"

lemma raw_simps [simp]:
  "raw DEOF" "raw DOther" "raw DStream" "raw (DServer x)" "raw (DSql x)" "raw (DNet y)" "raw (DCtx z)" "raw DBadConn"
  "raw aborted_error" "raw (err_of y)"
  by (simp_all add: raw_def aborted_error_def) (cases y; simp)

lemma raw_token [simp]: "raw (token_err e)"
proof (cases e)
  case (Recovered f)
  then show ?thesis by (cases f) simp_all
qed simp_all

lemma raw_call: "call_err cx r = Inr e \<Longrightarrow> raw e"
  by (induction cx r rule: call_err.induct) auto

lemma raw_iter: "iter_err cx r = Inr e \<Longrightarrow> raw e"
  by (cases r) (auto dest: raw_call)

lemma raw_send: "send_request m c = (Inr (Some e), c') \<Longrightarrow> raw e"
  by (auto simp: send_request_def split: prod.splits sum.splits fault.splits)

lemma raw_sendQuery: "sendQuery env s args c = (Inr (Some e), c') \<Longrightarrow> raw e"
  by (auto simp: sendQuery_def checkServerAbortedTransaction_def Let_def dest: raw_send
      split: option.splits if_splits sum.splits fault.splits prod.splits)

lemma honest_checkBadConn: "raw e \<Longrightarrow> honest (checkBadConn (Some e) r)"
  by (rule honestI) (auto simp: checkBadConn_def Let_def broken_def raw_def split: derr.splits if_splits)

lemma honest_gret: "(\<And>e. x = Some e \<Longrightarrow> \<not> broken e) \<Longrightarrow> honest (gret x)"
  by (auto simp: honest_def gret_def)

text \<open>An error of a request that was sent is checked; the response decides otherwise.\<close>

lemma honest_after:
  assumes "\<And>c e c'. m c = (Inr (Some e), c') \<Longrightarrow> raw e" "honest k"
  shows "honest (after_send m k)"
proof (rule honestI)
  fix c e c' assume a: "after_send m k c = (Inr (Some e), c')" and b: "broken e"
  show "\<not> cn_connectionGood c'"
  proof (cases "m c")
    case (Pair r c1)
    with a obtain x where r: "r = Inr x" by (cases r) (auto simp: after_send_def gbind_def)
    show ?thesis
    proof (cases x)
      case None
      with a b Pair r show ?thesis by (auto simp: after_send_def gbind_def dest: honestD [OF assms(2)])
    next
      case (Some e1)
      with assms(1) Pair r have "honest (checkBadConn (Some e1) True)" by (auto intro: honest_checkBadConn)
      from honestD [OF this, of c1 e c'] a b Pair r Some show ?thesis by (auto simp: after_send_def gbind_def)
    qed
  qed
qed

lemma honest_run:
  assumes "run_response env b c = (Inr (Some e, n), c')" "broken e"
  shows "\<not> cn_connectionGood c'"
proof -
  obtain rs c1 where r: "respond env b c = (rs, c1)" by force
  with assms(1) obtain x tp where "iterateResponse new_tokenProcessor rs = Some (Some x, tp)"
    by (auto simp: run_response_def split: option.splits)
  with assms(1) r obtain e1 where "iter_err (e_ctx env) x = Inr e1" "checkBadConn (Some e1) False c1 = (Inr (Some e), c')"
    by (auto simp: run_response_def gbind_def gret_def split: sum.splits prod.splits)
  with assms(2) show ?thesis by (meson honestD honest_checkBadConn raw_iter)
qed

lemma honest_simple: "honest (simpleProcessResp env b)"
  by (rule honestI) (auto simp: simpleProcessResp_def gbind_def gret_def split: prod.splits sum.splits dest: honest_run)

lemma honest_ending: "honest m \<Longrightarrow> honest (ending m)"
  by (auto simp: honest_def ending_def split: prod.splits)

lemma honest_process: "honest (err_only (processExec env))"
  by (rule honestI)
    (auto simp: processExec_def err_only_def gbind_def gret_def split: prod.splits sum.splits option.splits dest: honest_run)

lemma raw_next: "next_of cx r = Inr (Inl e) \<Longrightarrow> raw e"
  by (induction cx r rule: next_of.induct) (auto dest: raw_call split: sum.splits)

lemma checkedErr_honest: "checkedErr e c = (Inr (Inl e'), c') \<Longrightarrow> raw e \<Longrightarrow> broken e' \<Longrightarrow> \<not> cn_connectionGood c'"
  by (auto simp: checkedErr_def gbind_def gret_def checkBadConn_def Let_def broken_def raw_def split: derr.splits if_splits)

lemma checkedErr_not_Inr [simp]: "checkedErr e c \<noteq> (Inr (Inr x), c')"
  by (auto simp: checkedErr_def gbind_def gret_def split: prod.splits sum.splits)

lemma metadata_honest:
  "metadata_loop cx rs st c = (Inr (Inl e), c') \<Longrightarrow> broken e \<Longrightarrow> \<not> cn_connectionGood c'"
proof (induction rs arbitrary: st)
  case (Cons r rs)
  then show ?case
    by (auto simp: graise_def gret_def split: sum.splits option.splits token.splits if_splits dest: raw_next dest!: checkedErr_honest)
qed (simp add: graise_def)

lemma map_sum_Inl: "map_sum id f x = Inl e \<Longrightarrow> (x = Inl e \<Longrightarrow> P) \<Longrightarrow> P"
  by (cases x) auto

lemma processQuery_honest: "honest (err_only (processQueryResponse env))"
  by (rule honestI)
    (auto simp: processQueryResponse_def err_only_def gbind_def gret_def split: prod.splits sum.splits if_splits dest: metadata_honest
      elim!: map_sum_Inl)

lemma err_only_send_then:
  "err_only (send_then env s args k) = after_send (sendQuery env s args) (err_only k)"
  by (auto simp: err_only_def send_then_def after_send_def gbind_def gret_def checkBadConn_def Let_def fun_eq_iff
      split: prod.splits sum.splits option.splits derr.splits)

lemma honest_statement:
  assumes "honest (err_only k)"
  shows "honest (err_only (send_then env s args k))"
  unfolding err_only_send_then by (rule honest_after [OF raw_sendQuery assms])

lemma clearing_good [simp]: "cn_connectionGood (clearOuts c) = cn_connectionGood c" "cn_sess (clearOuts c) = cn_sess c"
  by (simp_all add: clearOuts_def)

lemma honest_begin: "honest (BeginTx env ro level)"
proof -
  have h: "honest (gbind (simpleProcessResp env False) (\<lambda>err. case err of
                Some e \<Rightarrow> gret (Some e) | None \<Rightarrow> (\<lambda>c. (Inr None, c\<lparr>cn_inTransaction := True\<rparr>))))"
    by (rule honestI) (auto simp: gbind_def gret_def split: prod.splits sum.splits option.splits dest: honestD [OF honest_simple])
  have s: "honest (after_send (sendBeginRequest il) (gbind (simpleProcessResp env False) (\<lambda>err. case err of
                Some e \<Rightarrow> gret (Some e) | None \<Rightarrow> (\<lambda>c. (Inr None, c\<lparr>cn_inTransaction := True\<rparr>)))))" for il
    by (rule honest_after [OF _ h]) (auto simp: sendBeginRequest_def dest: raw_send)
  show ?thesis
    by (rule honestI) (auto simp: BeginTx_def begin_tran_def split: if_splits option.splits dest: honestD [OF s])
qed

lemma honest_commit: "honest (Commit env)"
proof -
  have s: "honest (after_send sendCommitRequest (simpleProcessResp env False))"
    by (rule honest_after [OF _ honest_simple]) (auto simp: sendCommitRequest_def dest: raw_send)
  show ?thesis
    by (rule honestI)
      (auto simp: Commit_def checkServerAbortedTransaction_def gret_def ending_def split: if_splits option.splits prod.splits
        dest: honestD [OF s])
qed

lemma honest_rollback: "honest (Rollback env)"
proof -
  have s: "honest (after_send sendRollbackRequest (simpleProcessResp env True))"
    by (rule honest_after [OF _ honest_simple]) (auto simp: sendRollbackRequest_def dest: raw_send)
  show ?thesis
    by (rule honestI) (auto simp: Rollback_def gret_def ending_def split: if_splits prod.splits dest: honestD [OF s])
qed

text \<open>A statement that encrypts nothing.\<close>

lemma maybe_encrypt_plain: "\<not> (doEncryption s c \<and> args \<noteq> []) \<Longrightarrow> ebind (maybe_encrypt env k s args) f c = f args c"
  by (auto simp: maybe_encrypt_def ebind_def gbind_def)

lemma err_only_clearing: "err_only (clearing m) = clearing (err_only m)"
  by (auto simp: err_only_def clearing_def gbind_def gret_def fun_eq_iff split: prod.splits sum.splits)

lemma honest_query:
  assumes "\<not> (doEncryption s c \<and> args \<noteq> [])" "err_only (QueryContext env k s args) c = (Inr (Some e), c')" "broken e"
  shows "\<not> cn_connectionGood c'"
proof -
  let ?m = "send_then env s args (processQueryResponse env)"
  have "err_only (\<lambda>c. if \<not> cn_connectionGood c then bad_conn c else queryContext env k s args c) c
      = (if cn_connectionGood c then err_only ?m c else (Inr (Some DBadConn), c))"
    using assms(1) by (simp add: err_only_def gbind_def gret_def bad_conn_def queryContext_def maybe_encrypt_plain)
  with assms(2,3) honestD [OF honest_statement [OF processQuery_honest], of env s args env c e] show ?thesis
    by (auto simp: QueryContext_def err_only_clearing clearing_def split: prod.splits if_splits)
qed

lemma honest_exec:
  assumes "\<not> (doEncryption s c \<and> args \<noteq> [])" "err_only (ExecContext env k s args) c = (Inr (Some e), c')" "broken e"
  shows "\<not> cn_connectionGood c'"
proof -
  let ?m = "send_then env s args (processExec env)"
  have "err_only (\<lambda>c. if \<not> cn_connectionGood c then bad_conn c else exec env k s args c) c
      = (if cn_connectionGood c then err_only ?m c else (Inr (Some DBadConn), c))"
    using assms(1) by (simp add: err_only_def gbind_def gret_def bad_conn_def exec_def maybe_encrypt_plain)
  with assms(2,3) honestD [OF honest_statement [OF honest_process], of env s args env c e] show ?thesis
    by (auto simp: ExecContext_def err_only_clearing clearing_def split: prod.splits if_splits)
qed

lemma err_only_Some: "err_only m c = (Inr (Some e), c') \<longleftrightarrow> m c = (Inr (Inl e), c')"
  by (auto simp: err_only_def gbind_def gret_def split: prod.splits sum.splits)

lemma honest_ping:
  assumes "err_only (Ping env k) c = (Inr (Some e), c')" "broken e"
  shows "\<not> cn_connectionGood c'"
proof -
  let ?s = "\<lparr>st_query = ''select 1;'', st_paramCount = 0, st_notifSub = None, st_skipEncryption = True\<rparr>"
  have "e = DBadConn \<or> ExecContext env k ?s [] c = (Inr (Inl e), c')"
    using assms(1) unfolding err_only_Some
    by (auto simp: Ping_def bad_conn_def ebind_def gbind_def gret_def split: if_splits prod.splits sum.splits)
  with assms(2) honest_exec [of ?s c "[]" env k e c'] show ?thesis by (auto simp: err_only_Some)
qed

lemma perform_honest:
  assumes "\<not> describes x c" "perform env k x c = (Inr (Some e), c')" "broken e"
  shows "\<not> cn_connectionGood c'"
proof (cases x)
  case (CallQuery s args)
  with assms honest_query [of s c args env k e c'] show ?thesis by auto
next
  case (CallExec s args)
  with assms honest_exec [of s c args env k e c'] show ?thesis by auto
next
  case CallReset
  then have "e = DBadConn"
    using assms(2) by (auto simp: err_only_Some ResetSession_def bad_conn_def Let_def gbind_def gret_def split: if_splits prod.splits sum.splits)
  with assms(3) show ?thesis by simp
qed (use assms in \<open>auto dest: honestD [OF honest_begin] honestD [OF honest_commit] honestD [OF honest_rollback] honest_ping\<close>)

text \<open>Nothing is done with a bad connection.\<close>

lemma perform_bad:
  assumes "\<not> cn_connectionGood c"
  shows "perform env k x c = (Inr (Some DBadConn), case x of CallQuery _ _ \<Rightarrow> clearOuts c | CallExec _ _ \<Rightarrow> clearOuts c | _ \<Rightarrow> c)"
  using assms
  by (cases x) (simp_all add: BeginTx_def Commit_def Rollback_def QueryContext_def ExecContext_def Ping_def ResetSession_def
      err_only_def clearing_def bad_conn_def gbind_def gret_def)

lemma perform_all_bad:
  "\<not> cn_connectionGood c \<Longrightarrow>
     \<exists>c'. perform_all env k xs c = (replicate (length xs) (Inr (Some DBadConn)), c') \<and> \<not> cn_connectionGood c' \<and> cn_sess c' = cn_sess c"
proof (induction xs arbitrary: c)
  case (Cons x xs)
  let ?c = "case x of CallQuery _ _ \<Rightarrow> clearOuts c | CallExec _ _ \<Rightarrow> clearOuts c | _ \<Rightarrow> c"
  have c: "\<not> cn_connectionGood ?c" "cn_sess ?c = cn_sess c" using Cons.prems by (simp_all split: call.split)
  from Cons.IH [OF c(1)] c(2) show ?case by (auto simp: perform_bad [OF Cons.prems])
qed simp

text \<open>
  C6. A call that reports a broken stream -- an end of file, a network error, an expired deadline, a
  protocol error, a fatal server error, or an error offered for a retry -- leaves the connection
  bad: every later call, whatever the order, returns \<open>driver.ErrBadConn\<close> and leaves the session as
  it is, so nothing more is sent or read, and the rows of a query yield nothing more. Statements that
  first ask the server how to encrypt their arguments are excepted.
\<close>

theorem broken_connection_unused:
  assumes "perform env k x c = (Inr (Some e), c1)" "broken e" "\<not> describes x c"
  shows "\<exists>c2. perform_all env k xs c1 = (replicate (length xs) (Inr (Some DBadConn)), c2) \<and> \<not> IsValid c2 \<and> cn_sess c2 = cn_sess c1
     \<and> Rows_Next cx n rows c2 = (Inr (Inl DBadConn, rows), c2)"
proof -
  have "\<not> cn_connectionGood c1" by (rule perform_honest [OF assms(3,1,2)])
  from perform_all_bad [OF this, of env k xs] show ?thesis by (auto simp: IsValid_def Rows_Next_def)
qed

section \<open>Transactions\<close>

fun is_statement :: "call \<Rightarrow> bool" where
  "is_statement (CallQuery _ _) = True"
| "is_statement (CallExec _ _) = True"
| "is_statement CallPing = True"
| "is_statement _ = False"

lemma aborted_clearing [simp]: "aborted (clearOuts c) = aborted c"
  by (simp add: aborted_def clearOuts_def)

lemma aborted_send:
  assumes "aborted c" "cn_connectionGood c"
  shows "send_then env s args f c = (Inr (Inl aborted_error), c)"
  using assms
  by (simp add: send_then_def gbind_def gret_def sendQuery_def checkServerAbortedTransaction_def checkBadConn_def aborted_error_def)

lemma aborted_statement:
  assumes "aborted c" "cn_connectionGood c" "is_statement x" "\<not> describes x c"
  shows "perform env k x c = (Inr (Some aborted_error), clearOuts c)"
proof (cases x)
  case (CallQuery s args)
  with assms show ?thesis
    by (simp add: err_only_def QueryContext_def clearing_def queryContext_def maybe_encrypt_plain aborted_send gbind_def gret_def)
next
  case (CallExec s args)
  with assms show ?thesis
    by (simp add: err_only_def ExecContext_def clearing_def exec_def maybe_encrypt_plain aborted_send gbind_def gret_def)
next
  case CallPing
  with assms show ?thesis
    by (simp add: err_only_def Ping_def ExecContext_def clearing_def exec_def maybe_encrypt_def aborted_send ebind_def gbind_def gret_def)
qed (use assms in simp_all)

lemma describes_clearing [simp]: "describes x (clearOuts c) = describes x c"
  by (cases x) (simp_all add: doEncryption_def)

lemma aborted_statements:
  assumes "aborted c" "cn_connectionGood c" "\<forall>x\<in>set xs. is_statement x \<and> \<not> describes x c"
  shows "\<exists>c1. perform_all env k xs c = (replicate (length xs) (Inr (Some aborted_error)), c1) \<and> aborted c1 \<and> cn_connectionGood c1
     \<and> cn_sess c1 = cn_sess c"
  using assms
proof (induction xs arbitrary: c)
  case (Cons x xs)
  then obtain c1 where "perform_all env k xs (clearOuts c) = (replicate (length xs) (Inr (Some aborted_error)), c1)" "aborted c1"
    "cn_connectionGood c1" "cn_sess c1 = cn_sess c" using Cons.IH [of "clearOuts c"] by auto
  with aborted_statement [of c x env k] Cons.prems show ?case by simp
qed simp

text \<open>
  C13. When the server has rolled back the transaction behind the driver's back, no statement of the
  application runs outside of it: every statement and ping returns the error and sends nothing, until the
  commit, which reports the error too, or the rollback, which succeeds; both end the transaction
  without a request.
\<close>

theorem aborted_transaction_runs_nothing:
  assumes "aborted c" "cn_connectionGood c" "\<forall>x\<in>set xs. is_statement x \<and> \<not> describes x c"
  shows "\<exists>c1. perform_all env k xs c = (replicate (length xs) (Inr (Some aborted_error)), c1) \<and> cn_sess c1 = cn_sess c
     \<and> Commit env c1 = (Inr (Some aborted_error), c1\<lparr>cn_inTransaction := False\<rparr>)
     \<and> Rollback env c1 = (Inr None, c1\<lparr>cn_inTransaction := False\<rparr>)"
  using aborted_statements [OF assms, of env k]
  by (auto simp: Commit_def Rollback_def ending_def gret_def checkServerAbortedTransaction_def)

lemma run_clean:
  assumes "e_reply env (cn_outs c) b (cn_sess c) = (map Tok ts @ [Finished], s')"
  shows "run_response env b c = (Inr (map_option DSql (first_error ts), sum_list (map row_count ts)), clearOuts (c\<lparr>cn_sess := s'\<rparr>))"
  using assms
  by (cases "first_error ts")
    (simp_all add: run_response_def respond_def iterate_tokens fold_tokens new_tokenProcessor_def gbind_def gret_def checkBadConn_def)

text \<open>The request that ends the transaction, its reply and what is left of the connection.\<close>

definition ended :: "Conn \<Rightarrow> tdsSession \<Rightarrow> Conn" where
  "ended c s = c\<lparr>cn_sess := s, cn_resetSession := False, cn_inTransaction := False, cn_outs := no_outs\<rparr>"

text \<open>
  C22. The commit and the rollback of a transaction the server still has: the request names the
  session's transaction and carries the pending reset of the session, the result is the first error the server
  reports, if any, and the connection is out of the transaction either way. A rollback is not interrupted by
  the context.
\<close>

theorem transaction_end:
  assumes "cn_connectionGood c" "\<not> aborted c"
    and "on_buf (sendCommitXact [trans_header (s_tranid (cn_sess c))] [] 0 0 [] (cn_resetSession c)) (cn_sess c) = (Inr (), s1)"
      "e_reply env (cn_outs c) False s1 = (map Tok ts @ [Finished], s2)"
    and "on_buf (sendRollbackXact [trans_header (s_tranid (cn_sess c))] [] 0 0 [] (cn_resetSession c)) (cn_sess c) = (Inr (), s3)"
      "e_reply env (cn_outs c) True s3 = (map Tok us @ [Finished], s4)"
  shows "Commit env c = (Inr (map_option DSql (first_error ts)), ended c s2)
     \<and> Rollback env c = (Inr (map_option DSql (first_error us)), ended c s4)"
proof -
  let ?c1 = "c\<lparr>cn_resetSession := False, cn_sess := s1\<rparr>" and ?c3 = "c\<lparr>cn_resetSession := False, cn_sess := s3\<rparr>"
  have c: "sendCommitRequest c = (Inr None, ?c1)" and r: "sendRollbackRequest c = (Inr None, ?c3)"
    using assms(3,5) by (simp_all add: sendCommitRequest_def sendRollbackRequest_def send_request_def)
  have rc: "run_response env False ?c1 = (Inr (map_option DSql (first_error ts), sum_list (map row_count ts)), clearOuts (?c1\<lparr>cn_sess := s2\<rparr>))"
    by (rule run_clean) (use assms(4) in simp)
  have rr: "run_response env True ?c3 = (Inr (map_option DSql (first_error us), sum_list (map row_count us)), clearOuts (?c3\<lparr>cn_sess := s4\<rparr>))"
    by (rule run_clean) (use assms(6) in simp)
  have "Commit env c = (Inr (map_option DSql (first_error ts)), ended c s2)"
    using assms(1,2) c rc
    by (simp add: Commit_def ending_def checkServerAbortedTransaction_def after_send_def simpleProcessResp_def gbind_def gret_def
        clearOuts_def ended_def)
  moreover have "Rollback env c = (Inr (map_option DSql (first_error us)), ended c s4)"
    using assms(1,2) r rr
    by (simp add: Rollback_def ending_def after_send_def simpleProcessResp_def gbind_def gret_def clearOuts_def ended_def)
  ultimately show ?thesis ..
qed

text \<open>
  An argument that cannot be converted loses the pending reset of the session: nothing is sent and the
  connection stays good, but the flag is cleared, so that the next request runs in the state the previous user
  of the connection left.
\<close>

theorem bad_argument_drops_reset:
  assumes "cn_connectionGood c" "cn_resetSession c" "\<not> aborted c" "args \<noteq> []" "\<not> doEncryption s c"
    and "query_params env s args = Inl (Err (ErrMsg m))"
  shows "ExecContext env k s args c = (Inr (Inl DOther), clearOuts (c\<lparr>cn_resetSession := False\<rparr>))"
  using assms
  by (simp add: ExecContext_def clearing_def exec_def maybe_encrypt_plain send_then_def sendQuery_def checkServerAbortedTransaction_def
      gbind_def gret_def checkBadConn_def)

section \<open>The result sets of a query\<close>

text \<open>What a response holds: the columns and the rows of every result set.\<close>

fun result_rows :: "token list \<Rightarrow> val list list" where
  "result_rows [] = []"
| "result_rows (Columns _ # ts) = []"
| "result_rows (Row vs # ts) = vs # result_rows ts"
| "result_rows (_ # ts) = result_rows ts"

fun result_sets :: "token list \<Rightarrow> (columnStruct list \<times> val list list) list" where
  "result_sets [] = []"
| "result_sets (Columns cols # ts) = (cols, result_rows ts) # result_sets ts"
| "result_sets (_ # ts) = result_sets ts"

text \<open>Rows have the values of their columns, and no error of the stream is among the tokens.\<close>

fun shaped :: "nat \<Rightarrow> token list \<Rightarrow> bool" where
  "shaped n [] = True"
| "shaped n (Columns cols # ts) = (cols \<noteq> [] \<and> shaped (length cols) ts)"
| "shaped n (Row vs # ts) = (length vs = n \<and> shaped n ts)"
| "shaped n (TokErr _ # ts) = False"
| "shaped n (_ # ts) = shaped n ts"

text \<open>
  The loop of an application over \<open>database/sql\<close>: all rows of a result set, then the next one. The
  rounds are bounded by the calls left.
\<close>

primrec read_sets :: "nat \<Rightarrow> ctx_error \<Rightarrow> Rows \<Rightarrow> (derr + (columnStruct list \<times> val list list) list) conn_op" where
  "read_sets 0 cx r = graise Diverges"
| "read_sets (Suc k) cx r =
     gbind (collect_fuel (Rows_Next cx (length (r_cols r))) (Suc (length (r_left r))) Inr r) (\<lambda>(vs, e, r').
       if e \<noteq> DEOF then gret (Inl e)
       else if HasNextResultSet r'
       then ebind (read_sets k cx (snd (NextResultSet r'))) (\<lambda>sets. gret (Inr ((r_cols r, vs) # sets)))
       else gret (Inr [(r_cols r, vs)]))"

definition read_query :: "denv \<Rightarrow> (derr + (columnStruct list \<times> val list list) list) conn_op" where
  "read_query env = ebind (processQueryResponse env) (\<lambda>rows. case rows of
       PlainRows r \<Rightarrow> read_sets (Suc (length (r_left r))) (e_ctx env) r
     | QueueRows _ \<Rightarrow> gret (Inr []))"

text \<open>One call of \<open>Next\<close> skips the tokens without a row.\<close>

lemma checkedErr_sql [simp]: "checkedErr (DSql e) c = (Inr (Inl (DSql e)), c)"
  by (simp add: checkedErr_def gbind_def gret_def checkBadConn_def)

text \<open>The tokens up to the next result set.\<close>

fun this_set :: "token list \<Rightarrow> token list" where
  "this_set [] = []"
| "this_set (Columns _ # ts) = []"
| "this_set (t # ts) = t # this_set ts"

fun next_sets :: "token list \<Rightarrow> token list" where
  "next_sets [] = []"
| "next_sets (Columns cols # ts) = Columns cols # ts"
| "next_sets (_ # ts) = next_sets ts"

fun after_columns :: "token list \<Rightarrow> Rows \<Rightarrow> Rows" where
  "after_columns (Columns cols # ts) r = r\<lparr>r_left := map Tok ts @ [Finished], r_nextCols := cols\<rparr>"
| "after_columns _ r = r\<lparr>r_left := [Finished]\<rparr>"

lemma next_loop_left [simp]: "next_loop cx n rs (r\<lparr>r_left := xs\<rparr>) = next_loop cx n rs r"
proof (induction rs arbitrary: r)
  case (Cons x rs)
  have "r\<lparr>r_left := xs, r_returnStatus := q\<rparr> = r\<lparr>r_returnStatus := q, r_left := xs\<rparr>" for q by simp
  then have "next_loop cx n rs (r\<lparr>r_left := xs, r_returnStatus := q\<rparr>) = next_loop cx n rs (r\<lparr>r_returnStatus := q\<rparr>)" for q
    using Cons by metis
  with Cons show ?case by (auto split: sum.split option.split token.split)
qed simp

text \<open>A token that is neither a row, nor the columns of a result set, nor an error.\<close>

fun passed :: "token \<Rightarrow> Rows \<Rightarrow> Rows option" where
  "passed (Columns _) r = None"
| "passed (Row _) r = None"
| "passed (TokErr _) r = None"
| "passed (Done dn) r = (if isError dn then None else Some r)"
| "passed (ReturnStatus q) r = Some (r\<lparr>r_returnStatus := Some q\<rparr>)"
| "passed _ r = Some r"

lemma collect_passed:
  assumes "passed t r = Some r1" "r_left r = Tok t # rs" "r_nextCols r = []" "cn_connectionGood c"
  shows "collect_fuel (Rows_Next cx n) k f r c = collect_fuel (Rows_Next cx n) k f (r1\<lparr>r_left := rs\<rparr>) c"
proof -
  have "Rows_Next cx n r c = Rows_Next cx n (r1\<lparr>r_left := rs\<rparr>) c"
    using assms by (cases t) (auto simp: Rows_Next_def split: if_splits)
  then show ?thesis by (cases k) (simp_all add: gbind_def)
qed

lemma passed_facts:
  "passed t r = Some r1 \<Longrightarrow> shaped n (t # ts) = shaped n ts"
  "passed t r = Some r1 \<Longrightarrow> this_set (t # ts) = t # this_set ts"
  "passed t r = Some r1 \<Longrightarrow> next_sets (t # ts) = next_sets ts"
  "passed t r = Some r1 \<Longrightarrow> result_rows (t # ts) = result_rows ts"
  "passed t r = Some r1 \<Longrightarrow> result_sets (t # ts) = result_sets ts"
  "passed t r = Some r1 \<Longrightarrow> first_error (t # us) = first_error us"
  "passed t r = Some r1 \<Longrightarrow> \<exists>q. r1 = r\<lparr>r_returnStatus := q\<rparr>"
  by (cases t; auto split: if_splits intro: exI [of _ "r_returnStatus r"])+

lemma collect_set:
  assumes "shaped n ts" "r_left r = map Tok ts @ [Finished]" "r_nextCols r = []" "cn_connectionGood c" "length ts < k"
  shows "\<exists>vs r' q. collect_fuel (Rows_Next cx n) k Inr r c =
     (case first_error (this_set ts) of
        Some e \<Rightarrow> (Inr (vs, DSql e, r'), c)
      | None \<Rightarrow> (Inr (result_rows ts, DEOF, after_columns (next_sets ts) (r\<lparr>r_returnStatus := q\<rparr>)), c))"
  using assms
proof (induction ts arbitrary: r k)
  case Nil
  then obtain j where "k = Suc j" by (cases k) auto
  with Nil show ?case
    by (auto simp: Rows_Next_def gbind_def gret_def intro!: exI [of _ "r_returnStatus r"])
next
  case (Cons t ts)
  then obtain j where j: "k = Suc j" "length ts < j" by (cases k) auto
  show ?case
  proof (cases "passed t r")
    case (Some r1)
    note p = passed_facts [OF Some]
    from p(7) obtain q1 where r1: "r1 = r\<lparr>r_returnStatus := q1\<rparr>" by blast
    have "collect_fuel (Rows_Next cx n) k Inr r c = collect_fuel (Rows_Next cx n) k Inr (r1\<lparr>r_left := map Tok ts @ [Finished]\<rparr>) c"
      by (rule collect_passed [OF Some]) (use Cons.prems in simp_all)
    moreover have "\<exists>vs r' q. collect_fuel (Rows_Next cx n) k Inr (r1\<lparr>r_left := map Tok ts @ [Finished]\<rparr>) c =
       (case first_error (this_set ts) of Some e \<Rightarrow> (Inr (vs, DSql e, r'), c)
        | None \<Rightarrow> (Inr (result_rows ts, DEOF, after_columns (next_sets ts) (r1\<lparr>r_left := map Tok ts @ [Finished], r_returnStatus := q\<rparr>)), c))"
      by (rule Cons.IH) (use Cons.prems p(1) r1 in simp_all)
    moreover have "after_columns us (r1\<lparr>r_left := xs, r_returnStatus := q\<rparr>) = after_columns us (r\<lparr>r_returnStatus := q\<rparr>)" for us xs q
      unfolding r1 by (cases "(us, r)" rule: after_columns.cases) simp_all
    ultimately show ?thesis by (simp only: p)
  next
    case None
    then show ?thesis
    proof (cases t)
      case (Row vs)
      let ?r = "r\<lparr>r_left := map Tok ts @ [Finished]\<rparr>"
      have "Rows_Next cx n r c = (Inr (Inr vs, ?r), c)" using Cons.prems Row by (simp add: Rows_Next_def gret_def)
      moreover obtain ws r' q where "collect_fuel (Rows_Next cx n) j Inr ?r c =
         (case first_error (this_set ts) of Some e \<Rightarrow> (Inr (ws, DSql e, r'), c)
        | None \<Rightarrow> (Inr (result_rows ts, DEOF, after_columns (next_sets ts) (?r\<lparr>r_returnStatus := q\<rparr>)), c))"
        using Cons.IH [of ?r j] Cons.prems Row j by auto
      moreover have "after_columns us (?r\<lparr>r_returnStatus := q\<rparr>) = after_columns us (r\<lparr>r_returnStatus := q\<rparr>)" for us q
        by (cases "(us, r)" rule: after_columns.cases) simp_all
      ultimately show ?thesis using Row j by (auto simp: gbind_def gret_def split: option.split)
    next
      case (Columns cols)
      with Cons.prems j show ?thesis
        by (auto simp: Rows_Next_def gbind_def gret_def intro!: exI [of _ "r_returnStatus r"])
    next
      case (Done dn)
      with None Cons.prems j show ?thesis by (auto simp: Rows_Next_def gbind_def gret_def split: if_splits)
    qed (use Cons.prems in simp_all)
  qed
qed

lemma sets_split: "ts = this_set ts @ next_sets ts"
  by (induction ts rule: this_set.induct) auto

lemma sets_tail:
  "next_sets ts = [] \<or> (\<exists>cols us. next_sets ts = Columns cols # us \<and> length us < length ts)"
  "result_sets ts = result_sets (next_sets ts)"
  "shaped n ts \<Longrightarrow> shaped n (next_sets ts)"
  by (induction ts rule: next_sets.induct) auto

lemma first_error_append: "first_error (xs @ ys) = (case first_error xs of Some e \<Rightarrow> Some e | None \<Rightarrow> first_error ys)"
  by (induction xs) (auto split: list.split option.split)

lemma first_error_sets: "first_error ts = (case first_error (this_set ts) of Some e \<Rightarrow> Some e | None \<Rightarrow> first_error (next_sets ts))"
  by (subst sets_split) (rule first_error_append)

lemma read_sets_ok:
  assumes "shaped (length (r_cols r)) ts" "r_left r = map Tok ts @ [Finished]" "r_nextCols r = []" "cn_connectionGood c" "length ts < k"
  shows "read_sets k cx r c =
     (case first_error ts of
        Some e \<Rightarrow> (Inr (Inl (DSql e)), c)
      | None \<Rightarrow> (Inr (Inr ((r_cols r, result_rows ts) # result_sets ts)), c))"
  using assms
proof (induction k arbitrary: r ts)
  case (Suc k)
  obtain vs r' q where col: "collect_fuel (Rows_Next cx (length (r_cols r))) (Suc (length (r_left r))) Inr r c =
     (case first_error (this_set ts) of
        Some e \<Rightarrow> (Inr (vs, DSql e, r'), c)
      | None \<Rightarrow> (Inr (result_rows ts, DEOF, after_columns (next_sets ts) (r\<lparr>r_returnStatus := q\<rparr>)), c))"
    using collect_set [OF Suc.prems(1-4), of "Suc (length (r_left r))" cx] Suc.prems(2) by auto
  show ?case
  proof (cases "first_error (this_set ts)")
    case (Some e)
    then have "first_error ts = Some e" by (subst first_error_sets) simp
    with Some col show ?thesis by (simp add: gbind_def gret_def)
  next
    case None
    then have fe: "first_error ts = first_error (next_sets ts)" by (subst first_error_sets) simp
    from sets_tail(1) [of ts] show ?thesis
    proof (elim disjE exE conjE)
      assume n: "next_sets ts = []"
      then have "result_sets ts = []" using sets_tail(2) [of ts] by simp
      with n None fe col Suc.prems(3) show ?thesis by (simp add: gbind_def gret_def HasNextResultSet_def)
    next
      fix cols us assume n: "next_sets ts = Columns cols # us" and l: "length us < length ts"
      have sh: "cols \<noteq> []" "shaped (length cols) us" using sets_tail(3) [OF Suc.prems(1)] n by simp_all
      let ?r = "r\<lparr>r_returnStatus := q, r_left := map Tok us @ [Finished], r_cols := cols\<rparr>"
      have r: "snd (NextResultSet (after_columns (next_sets ts) (r\<lparr>r_returnStatus := q\<rparr>))) = ?r"
        using n Suc.prems(3) by (simp add: NextResultSet_def Let_def)
      have ih: "read_sets k cx ?r c = (case first_error us of Some e \<Rightarrow> (Inr (Inl (DSql e)), c)
          | None \<Rightarrow> (Inr (Inr ((cols, result_rows us) # result_sets us)), c))"
        using Suc.IH [of ?r us] sh l Suc.prems by (simp split: option.split)
      have "result_sets ts = (cols, result_rows us) # result_sets us" using sets_tail(2) [of ts] n by simp
      moreover have "HasNextResultSet (after_columns (next_sets ts) (r\<lparr>r_returnStatus := q\<rparr>))" using n sh by (simp add: HasNextResultSet_def)
      ultimately show ?thesis using None col fe n ih r
        by (simp add: gbind_def gret_def ebind_def split: option.split)
    qed
  qed
qed simp

lemma metadata_ok:
  assumes "shaped n ts"
  shows "\<exists>q. metadata_loop cx (map Tok ts @ [Finished]) st c =
     (case first_error (this_set ts) of
        Some e \<Rightarrow> (Inr (Inl (DSql e)), c)
      | None \<Rightarrow> (case next_sets ts of
            Columns cols # us \<Rightarrow> (Inr (Inr \<lparr>r_left = map Tok us @ [Finished], r_cols = cols, r_nextCols = [], r_returnStatus = q\<rparr>), c)
          | _ \<Rightarrow> (Inr (Inr \<lparr>r_left = [Finished], r_cols = [], r_nextCols = [], r_returnStatus = q\<rparr>), c)))"
  using assms
proof (induction ts arbitrary: st)
  case Nil
  then show ?case by (auto simp: gret_def)
next
  case (Cons t ts)
  then show ?case
  proof (cases t)
    case (Done dn)
    with Cons show ?thesis by (cases "first_error (this_set ts)") (auto simp: gret_def)
  qed (auto simp: gret_def split: option.splits)
qed

text \<open>
  C7. The result sets of a query: reading all rows of every result set, as an application does through
  \<open>database/sql\<close>, yields the columns and the rows the response holds, in order and each row once, when no
  done token reports an error; otherwise the reading ends with the first error reported. A
  response without a result set is one without columns and rows.
\<close>

theorem query_reads_result_sets:
  assumes "e_reply env (cn_outs c) False (cn_sess c) = (map Tok ts @ [Finished], s')"
    and "shaped 0 ts" "cn_connectionGood c" "\<not> o_msgq (cn_outs c)"
  shows "read_query env c =
     (Inr (case first_error ts of
         Some e \<Rightarrow> Inl (DSql e)
       | None \<Rightarrow> Inr (if result_sets ts = [] then [([], [])] else result_sets ts)), clearOuts (c\<lparr>cn_sess := s'\<rparr>))"
proof -
  let ?c = "clearOuts (c\<lparr>cn_sess := s'\<rparr>)"
  obtain q where m: "metadata_loop (e_ctx env) (map Tok ts @ [Finished]) None ?c =
     (case first_error (this_set ts) of
        Some e \<Rightarrow> (Inr (Inl (DSql e)), ?c)
      | None \<Rightarrow> (case next_sets ts of
            Columns cols # us \<Rightarrow> (Inr (Inr \<lparr>r_left = map Tok us @ [Finished], r_cols = cols, r_nextCols = [], r_returnStatus = q\<rparr>), ?c)
          | _ \<Rightarrow> (Inr (Inr \<lparr>r_left = [Finished], r_cols = [], r_nextCols = [], r_returnStatus = q\<rparr>), ?c)))"
    using metadata_ok [OF assms(2), of "e_ctx env" None ?c] by blast
  have p: "processQueryResponse env c = gbind (metadata_loop (e_ctx env) (map Tok ts @ [Finished]) None) (\<lambda>x. gret (map_sum id PlainRows x)) ?c"
    using assms(1,4) by (simp add: processQueryResponse_def respond_def)
  show ?thesis
  proof (cases "first_error (this_set ts)")
    case (Some e)
    then have "first_error ts = Some e" by (subst first_error_sets) simp
    with Some m p show ?thesis by (simp add: read_query_def ebind_def gbind_def gret_def)
  next
    case None
    then have fe: "first_error ts = first_error (next_sets ts)" by (subst first_error_sets) simp
    from sets_tail(1) [of ts] show ?thesis
    proof (elim disjE exE conjE)
      assume n: "next_sets ts = []"
      let ?r = "\<lparr>r_left = [Finished], r_cols = [], r_nextCols = [], r_returnStatus = q\<rparr>"
      have "read_sets (Suc (length (r_left ?r))) (e_ctx env) ?r ?c = (Inr (Inr [([], [])]), ?c)"
        using read_sets_ok [of ?r "[]" ?c "Suc (length (r_left ?r))" "e_ctx env"] assms(3)
        by (simp del: read_sets.simps)
      with n None m p fe sets_tail(2) [of ts] show ?thesis
        by (simp add: read_query_def ebind_def gbind_def gret_def del: read_sets.simps)
    next
      fix cols us assume n: "next_sets ts = Columns cols # us"
      let ?r = "\<lparr>r_left = map Tok us @ [Finished], r_cols = cols, r_nextCols = [], r_returnStatus = q\<rparr>"
      have "shaped (length cols) us" using sets_tail(3) [OF assms(2)] n by simp
      then have "read_sets (Suc (length (r_left ?r))) (e_ctx env) ?r ?c =
         (case first_error us of Some e \<Rightarrow> (Inr (Inl (DSql e)), ?c) | None \<Rightarrow> (Inr (Inr ((cols, result_rows us) # result_sets us)), ?c))"
        using read_sets_ok [of ?r us ?c "Suc (length (r_left ?r))" "e_ctx env"] assms(3)
        by (simp del: read_sets.simps split: option.split)
      with n None m p fe sets_tail(2) [of ts] show ?thesis
        by (simp add: read_query_def ebind_def gbind_def gret_def del: read_sets.simps split: option.split)
    qed
  qed
qed

section \<open>Examples\<close>


declare Write_loop.simps [code]

definition ex_stmt :: Stmt where
  "ex_stmt = \<lparr>st_query = [], st_paramCount = -1, st_notifSub = None, st_skipEncryption = False\<rparr>"

definition ex_denv :: "responder \<Rightarrow> denv" where
  "ex_denv r = \<lparr>e_reply = r, e_ctx = Canceled, e_letter = (\<lambda>_. False), e_upper = id, e_pdeps = ex_pdeps\<rparr>"

definition ex_keys :: keydeps where
  "ex_keys = \<lparr>k_provider = (\<lambda>_. None), k_hmac = (\<lambda>x k. x), k_aes = (\<lambda>k b. b), k_rand = Inr []\<rparr>"

definition ex_Conn :: "bool \<Rightarrow> Conn" where
  "ex_Conn tx = \<lparr>cn_sess = ex_session [], cn_resetSession = True, cn_processQueryText = False, cn_connectionGood = True, cn_inTransaction = tx,
     cn_outs = no_outs, cn_DisableRetry = False, cn_SessionInitSQL = []\<rparr>"

text \<open>The server closes the connection instead of answering a commit.\<close>

lemma ex_commit_fails: "fst (Commit (ex_denv (direct_reply ex_deps)) (ex_Conn False)) = Inr (Some DEOF)"
  by code_simp

theorem broken_connection_unused_witness:
  "\<exists>c1 c2. perform (ex_denv (direct_reply ex_deps)) ex_keys CallCommit (ex_Conn False) = (Inr (Some DEOF), c1)
     \<and> perform_all (ex_denv (direct_reply ex_deps)) ex_keys [CallPing, CallExec ex_stmt [], CallRollback] c1
         = (replicate 3 (Inr (Some DBadConn)), c2) \<and> \<not> IsValid c2 \<and> cn_sess c2 = cn_sess c1"
proof -
  let ?env = "ex_denv (direct_reply ex_deps)"
  obtain c1 where "Commit ?env (ex_Conn False) = (Inr (Some DEOF), c1)"
    using ex_commit_fails by (cases "Commit ?env (ex_Conn False)") simp
  then have p: "perform ?env ex_keys CallCommit (ex_Conn False) = (Inr (Some DEOF), c1)" by simp
  from broken_connection_unused [OF p, of "[CallPing, CallExec ex_stmt [], CallRollback]"] p show ?thesis
    by (simp add: eval_nat_numeral) blast
qed

theorem aborted_transaction_runs_nothing_witness:
  "\<exists>c1. perform_all (ex_denv (direct_reply ex_deps)) ex_keys [CallPing, CallExec ex_stmt []] (ex_Conn True)
       = (replicate 2 (Inr (Some aborted_error)), c1) \<and> cn_sess c1 = ex_session []
     \<and> Commit (ex_denv (direct_reply ex_deps)) c1 = (Inr (Some aborted_error), c1\<lparr>cn_inTransaction := False\<rparr>)
     \<and> Rollback (ex_denv (direct_reply ex_deps)) c1 = (Inr None, c1\<lparr>cn_inTransaction := False\<rparr>)"
proof -
  have "aborted (ex_Conn True)" "cn_connectionGood (ex_Conn True)" "cn_sess (ex_Conn True) = ex_session []"
    by (simp_all add: aborted_def ex_Conn_def ex_session_def)
  with aborted_transaction_runs_nothing [of "ex_Conn True" "[CallPing, CallExec ex_stmt []]" "ex_denv (direct_reply ex_deps)" ex_keys]
  show ?thesis by (simp add: numeral_2_eq_2)
qed

definition ex_sqlError :: sqlError where
  "ex_sqlError = SqlError 3902 1 16 ''The COMMIT TRANSACTION request has no corresponding BEGIN TRANSACTION.'' [] [] 1 []"

definition ex_done :: "sqlError list \<Rightarrow> token" where
  "ex_done es = Done \<lparr>Status = 0, CurCmd = 0, RowCount = 0, done_errors = es\<rparr>"

definition ex_answer :: "token list \<Rightarrow> responder" where
  "ex_answer ts outs noAttn s = (map Tok ts @ [Finished], s)"

lemma ex_sent:
  "fst (on_buf (sendCommitXact [trans_header 0] [] 0 0 [] True) (ex_session [])) = Inr ()"
  "fst (on_buf (sendRollbackXact [trans_header 0] [] 0 0 [] True) (ex_session [])) = Inr ()"
  by code_simp+

theorem transaction_end_witness:
  "\<exists>s s'. Commit (ex_denv (ex_answer [ex_done [ex_sqlError]])) (ex_Conn False)
       = (Inr (Some (DSql (getError \<lparr>Status = 0, CurCmd = 0, RowCount = 0, done_errors = [ex_sqlError]\<rparr>))), ended (ex_Conn False) s)
     \<and> Rollback (ex_denv (ex_answer [ex_done [ex_sqlError]])) (ex_Conn False)
       = (Inr (Some (DSql (getError \<lparr>Status = 0, CurCmd = 0, RowCount = 0, done_errors = [ex_sqlError]\<rparr>))), ended (ex_Conn False) s')"
proof -
  let ?c = "ex_Conn False" and ?ts = "[ex_done [ex_sqlError]]"
  have c: "cn_connectionGood ?c" "\<not> aborted ?c" "s_tranid (cn_sess ?c) = 0" "cn_resetSession ?c" "cn_sess ?c = ex_session []"
    by (simp_all add: ex_Conn_def aborted_def ex_session_def)
  obtain s1 s3 where s: "on_buf (sendCommitXact [trans_header 0] [] 0 0 [] True) (ex_session []) = (Inr (), s1)"
    "on_buf (sendRollbackXact [trans_header 0] [] 0 0 [] True) (ex_session []) = (Inr (), s3)"
    using ex_sent by (metis prod.exhaust fst_conv)
  have e: "e_reply (ex_denv (ex_answer ?ts)) outs b s = (map Tok ?ts @ [Finished], s)" for outs b s
    by (simp add: ex_denv_def ex_answer_def)
  have f: "first_error ?ts = Some (getError \<lparr>Status = 0, CurCmd = 0, RowCount = 0, done_errors = [ex_sqlError]\<rparr>)"
    by (simp add: ex_done_def isError_def)
  from transaction_end [OF c(1,2), of s1 _ ?ts s1 s3 ?ts s3] s c e f show ?thesis by auto
qed

theorem bad_argument_drops_reset_witness:
  "ExecContext (ex_denv (ex_answer [])) ex_keys ex_stmt [\<lparr>nv_Name = [], nv_Ordinal = 1, nv_Value = GUnknown, nv_encrypt = None\<rparr>] (ex_Conn False)
     = (Inr (Inl DOther), clearOuts ((ex_Conn False)\<lparr>cn_resetSession := False\<rparr>))"
proof (rule bad_argument_drops_reset)
  show "query_params (ex_denv (ex_answer [])) ex_stmt [\<lparr>nv_Name = [], nv_Ordinal = 1, nv_Value = GUnknown, nv_encrypt = None\<rparr>]
      = Inl (Err (ErrMsg ''mssql: unknown type for %T''))"
    by (simp add: query_params_def ex_stmt_def isProc_def ex_denv_def makeRPCParam_def)
qed (simp_all add: ex_Conn_def aborted_def doEncryption_def ex_session_def)

definition ex_column :: "string \<Rightarrow> columnStruct" where
  "ex_column nm = \<lparr>col_UserType = 0, col_Flags = 0, ColName = nm, col_ti = typeInfo_zero, cryptoMeta = None\<rparr>"

definition ex_response :: "token list" where
  "ex_response = [ex_done [], Columns [ex_column ''a''], Row [VInt 1], Row [VInt 2], ex_done [], ReturnStatus 0,
     Columns [ex_column ''b'', ex_column ''c''], Row [VInt 3, VNil], ex_done []]"

theorem query_reads_result_sets_witness:
  "fst (read_query (ex_denv (ex_answer ex_response)) (ex_Conn False))
     = Inr (Inr [([ex_column ''a''], [[VInt 1], [VInt 2]]), ([ex_column ''b'', ex_column ''c''], [[VInt 3, VNil]])])"
proof -
  let ?c = "ex_Conn False" and ?env = "ex_denv (ex_answer ex_response)"
  have "e_reply ?env (cn_outs ?c) False (cn_sess ?c) = (map Tok ex_response @ [Finished], cn_sess ?c)"
    by (simp add: ex_denv_def ex_answer_def)
  moreover have "shaped 0 ex_response" "first_error ex_response = None" "result_sets ex_response =
      [([ex_column ''a''], [[VInt 1], [VInt 2]]), ([ex_column ''b'', ex_column ''c''], [[VInt 3, VNil]])]"
    by (simp_all add: ex_response_def ex_done_def isError_def doneError_def)
  ultimately show ?thesis using query_reads_result_sets [of ?env ?c ex_response "cn_sess ?c"]
    by (simp add: ex_Conn_def no_outs_def)
qed

definition ex_cek :: cekData where
  "ex_cek = \<lparr>ck_ordinal = 1, ck_database_id = 5, ck_id = 1, ck_version = 1, ck_metadataVersion = [1, 0, 0, 0, 0, 0, 0, 0], ck_encryptedValue = [],
     ck_cmkStoreName = [], ck_cmkPath = [], ck_algorithm = [], ck_decryptedValue = replicate 32 9\<rparr>"

definition ex_enc :: parameterEncData where
  "ex_enc = \<lparr>pe_ordinal = 1, pe_name = ''@p1'', pe_algorithm = 2, pe_encType = 1, pe_cekOrdinal = 1, pe_ruleVersion = 1\<rparr>"

definition ex_keydeps :: keydeps where
  "ex_keydeps = \<lparr>k_provider = (\<lambda>_. None), k_hmac = ex_hmac, k_aes = ex_E, k_rand = Inr (replicate 16 5)\<rparr>"

definition ex_arg :: namedValue where
  "ex_arg = \<lparr>nv_Name = ''a'', nv_Ordinal = 1, nv_Value = GBytes [1, 2, 3], nv_encrypt = None\<rparr>"

theorem encrypted_argument_recovers_witness:
  "\<exists>q c sql. makeRPCParam ex_pdeps False (ex_arg\<lparr>nv_encrypt := Some (getEncryptor ex_keydeps ex_cek ex_enc)\<rparr>) = Inr (q, sql)
     \<and> par_buffer q = Some c \<and> Decrypt ex_hmac ex_E (param_algorithm ex_keydeps ex_cek ex_enc) c = Inr [1, 2, 3]"
proof -
  let ?m = "[''@a'' \<mapsto> (Some ex_cek, ex_enc)]" and ?b = "ex_arg\<lparr>nv_encrypt := Some (getEncryptor ex_keydeps ex_cek ex_enc)\<rparr>"
  have e: "encrypted_args ex_keydeps ?m [ex_arg] = Inr [?b]"
    by (simp add: encrypted_arg_def arg_key_def ex_arg_def ex_enc_def plainText_def)
  have "makeParam ex_pdeps (nv_Value ([ex_arg] ! 0)) = Inr (mk typeBigVarBin 3 (Some [1, 2, 3]))" by (simp add: ex_arg_def)
  moreover have "\<exists>decl. makeDecl (par_ti (mk typeBigVarBin 3 (Some [1, 2, 3]))) = Inr decl" by (simp add: makeDecl_def Let_def type_ids)
  ultimately show ?thesis
    using encrypted_argument_recovers [of ex_keydeps ex_E "replicate 16 5" ?m "[ex_arg]" "[?b]" 0 "Some ex_cek" ex_enc ex_pdeps
        "mk typeBigVarBin 3 (Some [1, 2, 3])" _ False] e ex_primitives
    by (auto simp: ex_keydeps_def arg_key_def ex_arg_def ex_cek_def keySizeBytes_def block_size_def ex_enc_def plainText_def)
qed

end
