(* ===== verification/Bulk_Copy.thy ===== *)
theory Bulk_Copy
  imports Float_Decimal Tds_Stmt Tds_Reply
begin

text \<open>
  Bulk copy, \<open>src/bulkcopy.go\<close> and \<open>src/bulkcopy_sql.go\<close>: the \<open>INSERT BULK\<close> statement, the stream
  of column metadata and rows, the conversion of values to the types of the columns, and the statement that
  \<open>Prepare\<close> makes of an \<open>INSERTBULK\<close> text. The lemmas show what a receiver finds in the
  rows, that a row is sent whole or not at all, and what the whole message is.
\<close>

section \<open>Values\<close>

text \<open>
  The values of a row. A byte slice may be nil. \<open>RBoolType\<close> is a value of a type of the application whose kind is
  bool, \<open>RValuer\<close> any \<open>driver.Valuer\<close>, the decimals and the money of decimals included.
\<close>

datatype rowval =
    RNil
  | RInt int | RInt8 int | RInt16 int | RInt32 int | RInt64 int
  | RFloat32 u32 | RFloat64 u64 | RString string | RBytes "bytes option" | RBool bool | RBoolType | RTime time
  | RValuer nat | ROther

fun of_dvalue :: "dvalue \<Rightarrow> rowval" where
  "of_dvalue DNil = RNil"
| "of_dvalue (DInt64 n) = RInt64 n"
| "of_dvalue (DFloat64 w) = RFloat64 w"
| "of_dvalue (DBool b) = RBool b"
| "of_dvalue (DBytes xs) = RBytes (Some xs)"
| "of_dvalue (DString s) = RString s"
| "of_dvalue (DTime t) = RTime t"

record BulkOptions =
  CheckConstraints :: bool
  FireTriggers :: bool
  KeepNulls :: bool
  KilobytesPerBatch :: int
  RowsPerBatch :: int
  bo_Order :: "string list"
  Tablock :: bool

type_synonym bulk_config = "string \<times> string list \<times> BulkOptions"

text \<open>
  What comes from outside: the application's valuers, \<open>time.ParseInLocation\<close> (layout, value, zone), what the processor makes of floats
  that do not fit \<open>int64\<close> and of the payload of NaNs, and \<open>encoding/json\<close> on the configuration.
\<close>

record bdeps =
  b_convert :: "nat \<Rightarrow> err + dvalue"
  b_ParseInLocation :: "string \<Rightarrow> string \<Rightarrow> int \<Rightarrow> err + time"
  b_int64 :: "flt \<Rightarrow> int"
  b_nan32 :: "u64 \<Rightarrow> u32"
  b_nan64 :: "u32 \<Rightarrow> u64"
  b_Marshal :: "bulk_config \<Rightarrow> err + string"
  b_Unmarshal :: "string \<Rightarrow> err + bulk_config"

definition sqlDateFormat :: string where "sqlDateFormat = ''2006-01-02''"
definition sqlDateTimeFormat :: string where "sqlDateTimeFormat = ''2006-01-02 15:04:05.999999999Z07:00''"
definition sqlTimeFormat :: string where "sqlTimeFormat = ''15:04:05.9999999''"

section \<open>Conversion to the type of a column\<close>

text \<open>The conversions between Go's numeric types.\<close>

definition to_int64 :: "bdeps \<Rightarrow> flt \<Rightarrow> int" where
  "to_int64 d x =
     (case int_of_flt x of
        Some i \<Rightarrow> if - (2 ^ 63) \<le> i \<and> i < 2 ^ 63 then i else b_int64 d x
      | None \<Rightarrow> b_int64 d x)"

definition fconv :: "fformat \<Rightarrow> flt \<Rightarrow> flt" where
  "fconv fm x = (case x of FFin s m e \<Rightarrow> fround fm s m e | _ \<Rightarrow> x)"

definition to_float64 :: "bdeps \<Rightarrow> u32 \<Rightarrow> u64" where
  "to_float64 d w = word_of_nat (fbits 53 11 (unat (b_nan64 d w)) (fconv f64 (unpack32 w)))"

definition to_float32 :: "bdeps \<Rightarrow> u64 \<Rightarrow> u32" where
  "to_float32 d w = word_of_nat (fbits 24 8 (unat (b_nan32 d w)) (fconv f32 (unpack64 w)))"

definition int_float64 :: "int \<Rightarrow> u64" where
  "int_float64 i = word_of_nat (fbits 53 11 0 (flt_of_int i))"

definition invalid :: "fault + 'a" where
  "invalid = Inl (Err (ErrMsg ''mssql: invalid type for column''))"

fun int_value :: "bdeps \<Rightarrow> rowval \<Rightarrow> fault + int" where
  "int_value d (RInt n) = Inr n"
| "int_value d (RInt32 n) = Inr n"
| "int_value d (RInt64 n) = Inr n"
| "int_value d (RFloat32 w) = Inr (to_int64 d (unpack32 w))"
| "int_value d (RFloat64 w) = Inr (to_int64 d (unpack64 w))"
| "int_value d _ = invalid"

definition int_bytes_of :: "int \<Rightarrow> int \<Rightarrow> bytes" where
  "int_bytes_of sz n =
     (if sz = 1 then [word_of_int n] else if sz = 2 then put16 n else if sz = 4 then put32 n
      else if sz = 8 then put64 n else replicate (nat sz) 0)"

fun float_value :: "bdeps \<Rightarrow> rowval \<Rightarrow> fault + u64" where
  "float_value d (RFloat32 w) = Inr (to_float64 d w)"
| "float_value d (RFloat64 w) = Inr w"
| "float_value d (RInt n) = Inr (int_float64 n)"
| "float_value d (RInt64 n) = Inr (int_float64 n)"
| "float_value d _ = invalid"

definition float_bytes :: "bdeps \<Rightarrow> int \<Rightarrow> u64 \<Rightarrow> bytes option" where
  "float_bytes d sz w =
     (if sz = 4 then Some (le_bytes 4 (to_float32 d w)) else if sz = 8 then Some (le_bytes 8 w) else None)"

definition FormatInt :: "int \<Rightarrow> bytes option" where
  "FormatInt n = Some (str_bytes (show_int n))"

fun nchar_value :: "rowval \<Rightarrow> fault + bytes option" where
  "nchar_value (RString s) = Inr (Some (str2ucs2 s))"
| "nchar_value (RInt64 n) = Inr (FormatInt n)"
| "nchar_value (RInt n) = Inr (FormatInt n)"
| "nchar_value (RInt8 n) = Inr (FormatInt n)"
| "nchar_value (RInt32 n) = Inr (FormatInt n)"
| "nchar_value (RInt16 n) = Inr (FormatInt n)"
| "nchar_value (RBytes xs) = Inr xs"
| "nchar_value _ = invalid"

fun char_value :: "rowval \<Rightarrow> fault + bytes option" where
  "char_value (RString s) = Inr (Some (str_bytes s))"
| "char_value (RBytes xs) = Inr xs"
| "char_value (RInt n) = Inr (FormatInt n)"
| "char_value (RInt8 n) = Inr (FormatInt n)"
| "char_value (RInt16 n) = Inr (FormatInt n)"
| "char_value (RInt32 n) = Inr (FormatInt n)"
| "char_value (RInt64 n) = Inr (FormatInt n)"
| "char_value _ = invalid"

text \<open>A bool of another type passes the test of its kind and fails the type assertion.\<close>

fun bit_value :: "rowval \<Rightarrow> fault + bool" where
  "bit_value (RBool b) = Inr b"
| "bit_value RBoolType = Inl (RuntimePanic ''interface conversion'')"
| "bit_value _ = invalid"

text \<open>A time, or a string in the given layout and zone.\<close>

definition time_value :: "bdeps \<Rightarrow> string \<Rightarrow> int \<Rightarrow> rowval \<Rightarrow> fault + time" where
  "time_value d layout loc v =
     (case v of
        RTime t \<Rightarrow> Inr t
      | RString s \<Rightarrow> (case b_ParseInLocation d layout s loc of
            Inl e \<Rightarrow> Inl (Err (ErrMsg ''bulk: unable to convert string to date: %v'')) | Inr t \<Rightarrow> Inr t)
      | _ \<Rightarrow> invalid)"

definition money_bytes :: "int \<Rightarrow> Decimal \<Rightarrow> fault + bytes" where
  "money_bytes sz dec =
     sbind (GetInteger 0 dec) (\<lambda>integer0.
       if sz = 4 then Inr (le_bytes 4 (if IsPositive dec then integer0 else NOT integer0 + 1))
       else sbind (GetInteger 1 dec) (\<lambda>integer1.
         let i = push_bit 32 (ucast integer1) OR ucast integer0 :: u64; i = (if IsPositive dec then i else NOT i + 1)
         in if sz < 8 then Inl (RuntimePanic ''index out of range'')
            else Inr (le_bytes 4 (ucast (drop_bit 32 i) :: u32) @ le_bytes 4 (ucast i :: u32) @ replicate (nat sz - 8) 0)))"

definition money_value :: "int \<Rightarrow> rowval \<Rightarrow> fault + bytes" where
  "money_value sz v =
     (case v of
        RString s \<Rightarrow> (case StringToDecimalScale s 4 of Inl e \<Rightarrow> Inl (Err e) | Inr dec \<Rightarrow> money_bytes sz dec)
      | _ \<Rightarrow> Inl (Err (ErrMsg ''unknown value for money: %T %#v'')))"

definition of_int64 :: "int \<Rightarrow> Decimal" where
  "of_int64 n = Int64ToDecimalScale (word_of_int n) 0"

fun decimal_value :: "bdeps \<Rightarrow> byte \<Rightarrow> rowval \<Rightarrow> fault + Decimal" where
  "decimal_value d sc (RInt n) = Inr (of_int64 n)"
| "decimal_value d sc (RInt8 n) = Inr (of_int64 n)"
| "decimal_value d sc (RInt16 n) = Inr (of_int64 n)"
| "decimal_value d sc (RInt32 n) = Inr (of_int64 n)"
| "decimal_value d sc (RInt64 n) = Inr (of_int64 n)"
| "decimal_value d sc (RFloat32 w) = Float64ToDecimalScale (unpack64 (to_float64 d w)) sc"
| "decimal_value d sc (RFloat64 w) = Float64ToDecimalScale (unpack64 w) sc"
| "decimal_value d sc (RString s) = (case StringToDecimalScale s sc of Inl e \<Rightarrow> Inl (Err e) | Inr dec \<Rightarrow> Inr dec)"
| "decimal_value d sc _ = Inl (Err (ErrMsg ''unknown value for decimal: %T %#v''))"

definition decimal_length :: "byte \<Rightarrow> nat" where
  "decimal_length pr = (if pr \<le> 9 then 4 else if pr \<le> 19 then 8 else if pr \<le> 28 then 12 else 16)"

definition decimal_bytes :: "byte \<Rightarrow> Decimal \<Rightarrow> fault + bytes" where
  "decimal_bytes pr dec =
     (let dec = SetPrec pr dec; n = decimal_length pr; ub = UnscaledBytes dec in
      if n < length ub then Inl (Err (ErrMsg ''decimal out of range: %s''))
      else Inr ((if IsPositive dec then 1 else 0) # rev ub @ replicate (n - length ub) 0))"

fun binary_value :: "rowval \<Rightarrow> fault + bytes option" where
  "binary_value (RBytes xs) = Inr xs"
| "binary_value _ = invalid"

text \<open>The parameter with a new buffer, and with the length of the buffer as its size.\<close>

definition with_buf :: "typeInfo \<Rightarrow> bytes option \<Rightarrow> param" where
  "with_buf ti buf = mk (TypeId ti) (Size ti) buf"

definition sized_buf :: "typeInfo \<Rightarrow> bytes option \<Rightarrow> param" where
  "sized_buf ti buf = mk (TypeId ti) (int (length (obytes buf))) buf"

definition sized_param :: "typeInfo \<Rightarrow> fault + bytes \<Rightarrow> fault + param" where
  "sized_param ti r = sbind r (\<lambda>buf. Inr (sized_buf ti (Some buf)))"

definition column_param :: "bdeps \<Rightarrow> int \<Rightarrow> typeInfo \<Rightarrow> rowval \<Rightarrow> fault + param" where
  "column_param d loc ti v =
     (let t = TypeId ti; sz = Size ti; sc = unat (Scale ti) in
      if t \<in> {typeInt1, typeInt2, typeInt4, typeInt8, typeIntN}
      then sbind (int_value d v) (\<lambda>n. Inr (with_buf ti (Some (int_bytes_of sz n))))
      else if t \<in> {typeFlt4, typeFlt8, typeFltN}
      then sbind (float_value d v) (\<lambda>w. Inr (with_buf ti (float_bytes d sz w)))
      else if t \<in> {typeNVarChar, typeNText, typeNChar} then sbind (nchar_value v) (\<lambda>b. Inr (sized_buf ti b))
      else if t \<in> {typeVarChar, typeBigVarChar, typeText, typeChar, typeBigChar}
      then sbind (char_value v) (\<lambda>b. Inr (sized_buf ti b))
      else if t \<in> {typeBit, typeBitN}
      then sbind (bit_value v) (\<lambda>b. Inr (mk typeBitN 1 (Some [if b then 1 else 0])))
      else if t = typeDateTime2N
      then sized_param ti (sbind (time_value d sqlDateTimeFormat 0 v) (\<lambda>t. encodeDateTime2 t sc))
      else if t = typeDateTimeOffsetN
      then sized_param ti (sbind (time_value d sqlDateTimeFormat 0 v) (\<lambda>t. encodeDateTimeOffset t sc))
      else if t = typeDateN
      then sized_param ti (sbind (time_value d sqlDateFormat loc v) (\<lambda>t. Inr (encodeDate t)))
      else if t \<in> {typeDateTime, typeDateTimeN, typeDateTim4}
      then sized_param ti (sbind (time_value d sqlDateTimeFormat 0 v) (\<lambda>t.
             if sz = 4 then Inr (encodeDateTim4 t loc) else if sz = 8 then Inr (encodeDateTime t)
             else Inl (Err (ErrMsg ''mssql: invalid size of column %d''))))
      else if t = typeTimeN
      then sized_param ti (sbind (time_value d sqlTimeFormat 0 v) (\<lambda>t. encodeTime (Hour t) (Minute t) (Second t) (Nanosecond t) sc))
      else if t \<in> {typeMoney, typeMoney4, typeMoneyN} then sbind (money_value sz v) (\<lambda>b. Inr (with_buf ti (Some b)))
      else if is_decimal t
      then sized_param ti (sbind (decimal_value d (Scale ti) v) (decimal_bytes (Prec ti)))
      else if t \<in> {typeBigVarBin, typeBigBinary, typeImage} then sbind (binary_value v) (\<lambda>b. Inr (sized_buf ti b))
      else if t = typeGuid then sbind (binary_value v) (\<lambda>b. Inr (sized_buf ti b))
      else Inl (Err (ErrMsg ''mssql: type %x not implemented'')))"

text \<open>A nil value, also one of a valuer, has no bytes; other values of valuers are converted in a second call.\<close>

definition bulk_makeParam :: "bdeps \<Rightarrow> int \<Rightarrow> typeInfo \<Rightarrow> rowval \<Rightarrow> fault + param" where
  "bulk_makeParam d loc ti v =
     sbind (case v of
              RValuer i \<Rightarrow> (case b_convert d i of Inl e \<Rightarrow> Inl (Err e) | Inr x \<Rightarrow> Inr (of_dvalue x))
            | _ \<Rightarrow> Inr v) (\<lambda>v.
       if v = RNil then Inr (mk (TypeId ti) 0 None) else column_param d loc ti v)"

section \<open>A bulk copy\<close>

record Bulk =
  bk_metadata :: "columnStruct list"
  bk_bulkColumns :: "columnStruct list"
  bk_columnsName :: "string list"
  bk_tablename :: string
  bk_numRows :: nat
  bk_headerSent :: bool
  bk_Options :: BulkOptions

definition no_options :: BulkOptions where
  "no_options = \<lparr>CheckConstraints = False, FireTriggers = False, KeepNulls = False, KilobytesPerBatch = 0, RowsPerBatch = 0,
     bo_Order = [], Tablock = False\<rparr>"

definition CreateBulkContext :: "string \<Rightarrow> string list \<Rightarrow> Bulk" where
  "CreateBulkContext table cols = \<lparr>bk_metadata = [], bk_bulkColumns = [], bk_columnsName = cols, bk_tablename = table, bk_numRows = 0,
     bk_headerSent = False, bk_Options = no_options\<rparr>"

record benv =
  be_env :: denv
  be_keys :: keydeps
  be_deps :: bdeps

type_synonym 'a bulk_op = "(Bulk \<times> Conn, 'a) go"

definition on_conn :: "'a conn_op \<Rightarrow> 'a bulk_op" where
  "on_conn m = (\<lambda>(b, c). case m c of (r, c') \<Rightarrow> (r, (b, c')))"

definition set_bulk :: "(Bulk \<Rightarrow> Bulk) \<Rightarrow> unit bulk_op" where
  "set_bulk g = (\<lambda>(b, c). (Inr (), (g b, c)))"

definition run_text :: "benv \<Rightarrow> string \<Rightarrow> (derr + u64) conn_op" where
  "run_text E q c = ExecContext (be_env E) (be_keys E) (prepareContext q c) [] c"

text \<open>
  \<open>getMetadata\<close>: the deferred \<open>SET FMTONLY OFF\<close> runs when the query failed, whatever its
  own result is, and also when it panicked.
\<close>

definition fmtonly_off :: "benv \<Rightarrow> (fault + derr option) \<Rightarrow> derr option conn_op" where
  "fmtonly_off E r c = (case run_text E ''SET FMTONLY OFF'' c of (Inl f, c') \<Rightarrow> (Inl f, c') | (Inr _, c') \<Rightarrow> (r, c'))"

definition getMetadata :: "benv \<Rightarrow> derr option bulk_op" where
  "getMetadata E = (\<lambda>(b, c).
     case run_text E ''SET FMTONLY ON'' c of
       (Inl f, c1) \<Rightarrow> (Inl f, (b, c1))
     | (Inr (Inl e), c1) \<Rightarrow> (Inr (Some e), (b, c1))
     | (Inr (Inr _), c1) \<Rightarrow>
         (case QueryContext (be_env E) (be_keys E)
                 (prepareContext (''select * from '' @ bk_tablename b @ '' SET FMTONLY OFF'') c1) [] c1 of
            (Inl f, c2) \<Rightarrow> on_conn (fmtonly_off E (Inl f)) (b, c2)
          | (Inr (Inl e), c2) \<Rightarrow> on_conn (fmtonly_off E (Inr (Some DOther))) (b, c2)
          | (Inr (Inr (QueueRows q)), c2) \<Rightarrow> (Inl (RuntimePanic ''interface conversion''), (b, c2))
          | (Inr (Inr (PlainRows rows)), c2) \<Rightarrow>
              on_conn (Rows_Close (e_ctx (be_env E)) rows) (b\<lparr>bk_metadata := r_cols rows\<rparr>, c2)))"

text \<open>Columns of type XML and of user-defined types are sent as others. The columns found before a missing one stay.\<close>

definition bulk_column :: "columnStruct \<Rightarrow> columnStruct" where
  "bulk_column m =
     (let t = TypeId (col_ti m) in
      if t = typeXml then m\<lparr>col_ti := (col_ti m)\<lparr>TypeId := typeNVarChar\<rparr>\<rparr>
      else if t = typeUdt then m\<lparr>col_ti := (col_ti m)\<lparr>TypeId := typeBigVarBin\<rparr>\<rparr>
      else m)"

fun match_columns :: "columnStruct list \<Rightarrow> string list \<Rightarrow> columnStruct list \<Rightarrow> bool \<times> columnStruct list" where
  "match_columns ms [] acc = (True, acc)"
| "match_columns ms (n # ns) acc =
     (case find (\<lambda>m. ColName m = n) ms of
        None \<Rightarrow> (False, acc)
      | Some m \<Rightarrow> match_columns ms ns (acc @ [bulk_column m]))"

fun col_defs :: "columnStruct list \<Rightarrow> fault + string list" where
  "col_defs [] = Inr []"
| "col_defs (c # cs) = sbind (makeDecl (col_ti c)) (\<lambda>t. sbind (col_defs cs) (\<lambda>ds. Inr ((ID (ColName c) @ '' '' @ t) # ds)))"

definition with_opts :: "BulkOptions \<Rightarrow> string list" where
  "with_opts opt =
     (if CheckConstraints opt then [''CHECK_CONSTRAINTS''] else [])
     @ (if FireTriggers opt then [''FIRE_TRIGGERS''] else [])
     @ (if KeepNulls opt then [''KEEP_NULLS''] else [])
     @ (if 0 < KilobytesPerBatch opt then [''KILOBYTES_PER_BATCH = '' @ show_int (KilobytesPerBatch opt)] else [])
     @ (if 0 < RowsPerBatch opt then [''ROWS_PER_BATCH = '' @ show_int (RowsPerBatch opt)] else [])
     @ (if bo_Order opt \<noteq> [] then [''ORDER('' @ Join (bo_Order opt) '','' @ '')''] else [])
     @ (if Tablock opt then [''TABLOCK''] else [])"

definition bulk_query :: "string \<Rightarrow> string list \<Rightarrow> BulkOptions \<Rightarrow> string" where
  "bulk_query table defs opt =
     ''INSERT BULK '' @ table @ '' ('' @ Join defs '', '' @ '') ''
     @ (if with_opts opt = [] then [] else ''WITH ('' @ Join (with_opts opt) '','' @ '')'')"

section \<open>Preparing\<close>

record copyin =
  ci_bulkcopy :: Bulk
  ci_closed :: bool

datatype driver_stmt = PlainStmt Stmt | CopyStmt copyin

definition prepareCopyIn :: "bdeps \<Rightarrow> string \<Rightarrow> derr + copyin" where
  "prepareCopyIn d query =
     (case b_Unmarshal d (drop 11 query) of
        Inl e \<Rightarrow> Inl DOther
      | Inr (table, cols, opt) \<Rightarrow> Inr \<lparr>ci_bulkcopy = (CreateBulkContext table cols)\<lparr>bk_Options := opt\<rparr>, ci_closed = False\<rparr>)"

definition PrepareContext :: "bdeps \<Rightarrow> string \<Rightarrow> Conn \<Rightarrow> derr + driver_stmt" where
  "PrepareContext d query c =
     (if \<not> cn_connectionGood c then Inl DBadConn
      else if 10 < length query \<and> EqualFold (take 10 query) ''INSERTBULK'' then map_sum id CopyStmt (prepareCopyIn d query)
      else Inr (PlainStmt (prepareContext query c)))"

section \<open>The column metadata\<close>

definition verTDS72 :: u32 where "verTDS72 = 0x72090002"

definition is_lob :: "byte \<Rightarrow> bool" where
  "is_lob t \<longleftrightarrow> t \<in> {typeNText, typeText, typeImage}"

text \<open>One column; the writer chosen by \<open>writeTypeInfo\<close> is kept in it. A length of more than a byte is cut.\<close>

definition write_column :: "u32 \<Rightarrow> string \<Rightarrow> columnStruct \<Rightarrow> (bytes, columnStruct) go" where
  "write_column ver table col =
     gthen (if verTDS72 \<le> ver then binary_Write buffer_write 4 (col_UserType col)
            else binary_Write buffer_write 2 (ucast (col_UserType col) :: u16))
       (gthen (binary_Write buffer_write 2 (col_Flags col))
         (gbind (writeTypeInfo buffer_write (col_ti col) False) (\<lambda>ti.
           gthen (if is_lob (TypeId (col_ti col))
                  then (let t = str2ucs2 table in
                        gthen (binary_Write buffer_write 2 (word_of_nat (length t div 2) :: u16)) (io_Write buffer_write t))
                  else gret ())
             (let n = str2ucs2 (ColName col) in
              gthen (binary_Write buffer_write 1 (word_of_nat (length n div 2) :: byte))
                (gthen (io_Write buffer_write n) (gret (col\<lparr>col_ti := ti\<rparr>)))))))"

primrec write_columns :: "u32 \<Rightarrow> string \<Rightarrow> columnStruct list \<Rightarrow> (bytes, columnStruct list) go" where
  "write_columns ver table [] = gret []"
| "write_columns ver table (c # cs) =
     gbind (write_column ver table c) (\<lambda>c. gbind (write_columns ver table cs) (\<lambda>cs. gret (c # cs)))"

definition createColMetadata :: "u32 \<Rightarrow> bool \<Rightarrow> string \<Rightarrow> columnStruct list \<Rightarrow> fault + (bytes \<times> columnStruct list)" where
  "createColMetadata ver ae table cols =
     (case gthen (io_Write buffer_write [tokenColMetadata])
             (gthen (binary_Write buffer_write 2 (word_of_nat (length cols) :: u16))
               (gthen (if ae then binary_Write buffer_write 2 (0 :: u16) else gret ()) (write_columns ver table cols))) [] of
        (Inl f, _) \<Rightarrow> Inl f
      | (Inr cols', bs) \<Rightarrow> Inr (bs, cols'))"

section \<open>Sending\<close>

definition conn_buf :: "(tdsBuffer, 'a) go \<Rightarrow> 'a conn_op" where
  "conn_buf m c = (case on_buf m (cn_sess c) of (r, s) \<Rightarrow> (r, c\<lparr>cn_sess := s\<rparr>))"

text \<open>\<open>_, err = buf.Write(p)\<close>: the error is returned as it is.\<close>

definition write_buf :: "bytes \<Rightarrow> derr option conn_op" where
  "write_buf p c =
     (case conn_buf (io_Write Write p) c of
        (Inl (Err e), c') \<Rightarrow> (Inr (Some (err_of e)), c')
      | (Inl f, c') \<Rightarrow> (Inl f, c')
      | (Inr _, c') \<Rightarrow> (Inr None, c'))"

definition start_load :: "benv \<Rightarrow> derr option bulk_op" where
  "start_load E =
     gthen (set_bulk (\<lambda>b. b\<lparr>bk_headerSent := True\<rparr>))
       (gthen (on_conn (conn_buf (BeginPacket packBulkLoadBCP False)))
         (\<lambda>(b, c). case createColMetadata (p_TDSVersion (e_pdeps (be_env E))) (s_alwaysEncrypted (cn_sess c)) (bk_tablename b) (bk_bulkColumns b) of
            Inl f \<Rightarrow> (Inl f, (b, c))
          | Inr (bs, cols) \<Rightarrow> on_conn (write_buf bs) (b\<lparr>bk_bulkColumns := cols\<rparr>, c)))"

text \<open>The error of \<open>PrepareContext\<close> is formatted into another; the type assertion fails for a bulk copy.\<close>

definition insert_bulk :: "benv \<Rightarrow> string \<Rightarrow> derr option conn_op" where
  "insert_bulk E q c =
     (case PrepareContext (be_deps E) q c of
        Inl e \<Rightarrow> (Inr (Some DOther), c)
      | Inr (CopyStmt _) \<Rightarrow> (Inl (RuntimePanic ''interface conversion''), c)
      | Inr (PlainStmt s) \<Rightarrow>
          gbind (ExecContext (be_env E) (be_keys E) s []) (\<lambda>x. gret (case x of Inl e \<Rightarrow> Some e | Inr _ \<Rightarrow> None)) c)"

definition obind :: "derr option bulk_op \<Rightarrow> derr option bulk_op \<Rightarrow> derr option bulk_op" where
  "obind m k = gbind m (\<lambda>err. case err of Some e \<Rightarrow> gret (Some e) | None \<Rightarrow> k)"

definition sendBulkCommand :: "benv \<Rightarrow> derr option bulk_op" where
  "sendBulkCommand E =
     obind (getMetadata E) (\<lambda>(b, c).
       case match_columns (bk_metadata b) (bk_columnsName b) (bk_bulkColumns b) of
         (found, cols) \<Rightarrow>
           let b = b\<lparr>bk_bulkColumns := cols\<rparr> in
           if \<not> found then (Inr (Some DOther), (b, c))
           else (case col_defs cols of
                   Inl f \<Rightarrow> (Inl f, (b, c))
                 | Inr defs \<Rightarrow> obind (on_conn (insert_bulk E (bulk_query (bk_tablename b) defs (bk_Options b)))) (start_load E) (b, c)))"

fun row_cells :: "bdeps \<Rightarrow> EncodeParameters \<Rightarrow> columnStruct list \<Rightarrow> rowval list \<Rightarrow> (bytes, unit) go" where
  "row_cells d e [] vs = gret ()"
| "row_cells d e (c # cs) (v # vs) =
     gbind (gfault (bulk_makeParam d (GetTimezone e) (col_ti c) v)) (\<lambda>p.
       if Writer (col_ti c) = None then graise (Err (ErrMsg ''no writer for column: %s, TypeId: %#x''))
       else gthen (write_value buffer_write ((par_ti p)\<lparr>Writer := Writer (col_ti c)\<rparr>) (par_buffer p) e) (row_cells d e cs vs))"
| "row_cells d e (c # cs) [] = graise (RuntimePanic ''index out of range'')"

definition makeRowData :: "bdeps \<Rightarrow> EncodeParameters \<Rightarrow> columnStruct list \<Rightarrow> rowval list \<Rightarrow> fault + bytes" where
  "makeRowData d e cols row =
     (case gthen (io_Write buffer_write [tokenRow]) (row_cells d e cols row) [] of (Inl f, _) \<Rightarrow> Inl f | (Inr _, bs) \<Rightarrow> Inr bs)"

definition add_row :: "benv \<Rightarrow> rowval list \<Rightarrow> derr option bulk_op" where
  "add_row E row = (\<lambda>(b, c).
     if length row \<noteq> length (bk_bulkColumns b) then (Inr (Some DOther), (b, c))
     else case makeRowData (be_deps E) (s_encoding (cn_sess c)) (bk_bulkColumns b) row of
         Inl (Err e) \<Rightarrow> (Inr (Some DOther), (b, c))
       | Inl f \<Rightarrow> (Inl f, (b, c))
       | Inr bs \<Rightarrow> obind (on_conn (write_buf bs)) (gthen (set_bulk (\<lambda>b. b\<lparr>bk_numRows := bk_numRows b + 1\<rparr>)) (gret None)) (b, c))"

definition AddRow :: "benv \<Rightarrow> rowval list \<Rightarrow> derr option bulk_op" where
  "AddRow E row = (\<lambda>(b, c).
     (if bk_headerSent b then add_row E row else obind (sendBulkCommand E) (add_row E row)) (b, c))"

text \<open>The results of writes and of \<open>FinishPacket\<close> are not looked at.\<close>

definition ignoring :: "(tdsBuffer, 'a) go \<Rightarrow> (tdsBuffer, unit) go" where
  "ignoring m w = (case m w of (Inl (Err e), w') \<Rightarrow> (Inr (), w') | (Inl f, w') \<Rightarrow> (Inl f, w') | (Inr _, w') \<Rightarrow> (Inr (), w'))"

definition finish_load :: "u32 \<Rightarrow> (tdsBuffer, unit) go" where
  "finish_load ver =
     gthen (ignoring (WriteByte tokenDone))
       (gthen (ignoring (binary_Write Write 2 (0 :: u16)))
         (gthen (ignoring (binary_Write Write 2 (0 :: u16)))
           (gthen (ignoring (if verTDS72 \<le> ver then binary_Write Write 8 (0 :: u64) else binary_Write Write 4 (0 :: u32)))
             (ignoring FinishPacket))))"

definition load_response :: "denv \<Rightarrow> (u64 \<times> derr option) conn_op" where
  "load_response env c =
     (case e_reply env no_outs False (cn_sess c) of (rs, s) \<Rightarrow>
        let c1 = c\<lparr>cn_sess := s\<rparr> in
        (case iterateResponse new_tokenProcessor rs of
           None \<Rightarrow> (Inl Diverges, c1)
         | Some (None, tp) \<Rightarrow> (Inr (tp_rowCount tp, None), c1)
         | Some (Some e, tp) \<Rightarrow>
             (case iter_err (e_ctx env) e of
                Inl f \<Rightarrow> (Inl f, c1)
              | Inr e \<Rightarrow> gbind (checkBadConn (Some e) False) (\<lambda>r. gret (0, r)) c1)))"

definition bulk_Done :: "benv \<Rightarrow> (u64 \<times> derr option) bulk_op" where
  "bulk_Done E = (\<lambda>(b, c).
     if \<not> bk_headerSent b then (Inr (0, None), (b, c))
     else gthen (on_conn (conn_buf (finish_load (p_TDSVersion (e_pdeps (be_env E)))))) (on_conn (load_response (be_env E))) (b, c))"

section \<open>The statement of a bulk copy\<close>

definition CopyIn :: "bdeps \<Rightarrow> string \<Rightarrow> BulkOptions \<Rightarrow> string list \<Rightarrow> fault + string" where
  "CopyIn d table opt cols =
     (case b_Marshal d (table, cols, opt) of
        Inl e \<Rightarrow> Inl (RuntimePanic ''json'') | Inr s \<Rightarrow> Inr (''INSERTBULK '' @ s))"

definition copyin_Exec :: "benv \<Rightarrow> rowval list \<Rightarrow> copyin \<Rightarrow> Conn \<Rightarrow> (fault + (derr option \<times> u64)) \<times> copyin \<times> Conn" where
  "copyin_Exec E v ci c =
     (if ci_closed ci then (Inr (Some DOther, 0), ci, c)
      else if v = [] then
        (case bulk_Done E (ci_bulkcopy ci, c) of
           (Inl f, (b, c')) \<Rightarrow> (Inl f, ci\<lparr>ci_bulkcopy := b\<rparr>, c')
         | (Inr (n, err), (b, c')) \<Rightarrow> (Inr (err, n), \<lparr>ci_bulkcopy = b, ci_closed = True\<rparr>, c'))
      else (case AddRow E v (ci_bulkcopy ci, c) of
              (Inl f, (b, c')) \<Rightarrow> (Inl f, ci\<lparr>ci_bulkcopy := b\<rparr>, c')
            | (Inr err, (b, c')) \<Rightarrow> (Inr (err, 0), ci\<lparr>ci_bulkcopy := b\<rparr>, c')))"

section \<open>Cells\<close>

declare le_bytes_numeral [simp del]

text \<open>The parameter of a cell carries a value: what is written for it is read as the value by a receiver that knows the column.\<close>

definition cell_carries :: "dbcs \<Rightarrow> EncodeParameters \<Rightarrow> typeInfo \<Rightarrow> param \<Rightarrow> val \<Rightarrow> bool" where
  "cell_carries db e ti p w \<longleftrightarrow> (\<exists>B. bytes_buffer.emits (write_value buffer_write ((par_ti p)\<lparr>Writer := Some (sent_writer ti False)\<rparr>) (par_buffer p) e) B ()
     \<and> reads (read_value db (received ti False) False e) B w)"

text \<open>The bytes of a value fit the column, and the size of the parameter is theirs.\<close>

definition cell_fits :: "typeInfo \<Rightarrow> int \<Rightarrow> nat \<Rightarrow> bool" where
  "cell_fits ti sz n \<longleftrightarrow>
     (let t = TypeId ti in
      if is_fixed t then int n = fixed_size t
      else if t = typeGuid then Size ti = 0x10 \<and> n = 16 \<and> sz = 16
      else if is_shortlen t then (if as_plp ti False then n < 2 ^ 32 else int n \<le> Size ti \<and> sz = int n)
      else 0 < n \<and> n \<le> 0xff \<and> sz \<le> 0xff \<and> Size ti \<le> 0xff \<and> int n \<le> Size (received ti False))"

lemma emits_cell:
  assumes "sendable ti" "cell_fits ti (Size pt) (length xs)"
  shows "bytes_buffer.emits (write_value buffer_write (pt\<lparr>Writer := Some (sent_writer ti False)\<rparr>) (Some xs) e) (value_bytes ti e xs) ()"
proof -
  let ?t = "TypeId ti"
  have len: "bytes_buffer.emits (gthen (binary_Write buffer_write 1 (word_of_nat (length xs) :: byte)) (io_Write buffer_write ys)) (word_of_nat (length xs) # ys) ()" for ys
    using bytes_buffer.emits_then [OF bytes_buffer.emits_byte bytes_buffer.emits_Write, of "word_of_nat (length xs)" ys] by simp
  consider (fixed) "is_fixed ?t" | (guid) "?t = typeGuid" "\<not> is_fixed ?t"
    | (plp) "is_shortlen ?t" "as_plp ti False" | (short) "is_shortlen ?t" "\<not> as_plp ti False"
    | (byte) "\<not> is_fixed ?t" "?t \<noteq> typeGuid" "\<not> is_shortlen ?t"
    by blast
  then show ?thesis
  proof cases
    case fixed
    then show ?thesis
      by (auto simp: write_value_def sent_writer_def writeFixedType_def obytes_def value_bytes_def)
  next
    case guid
    with assms(2) have f: "Size pt = 0x10" "length xs = 16" by (auto simp: cell_fits_def Let_def)
    with guid kind_single(1) len [of "if GuidConversion e
        then rev (take 4 xs) @ rev (take 2 (drop 4 xs)) @ rev (take 2 (drop 6 xs)) @ drop 8 xs else xs"]
    show ?thesis
      by (simp add: write_value_def sent_writer_def writeGuidType_def obytes_def value_bytes_def Let_def)
  next
    case plp
    with assms kind_shortlen [OF plp(1)] show ?thesis
      by (auto simp: write_value_def sent_writer_def value_bytes_def cell_fits_def Let_def obytes_def intro!: bytes_buffer.emits_PLPType)
  next
    case short
    note k = kind_shortlen [OF short(1)]
    with assms(2) short have n: "int (length xs) \<le> Size ti" "Size ti \<le> 8000" "Size pt = int (length xs)"
      by (auto simp: cell_fits_def Let_def as_plp_def)
    have "bytes_buffer.emits (gthen (binary_Write buffer_write 2 (word_of_nat (length xs) :: u16)) (io_Write buffer_write xs))
        (le_bytes 2 (word_of_nat (length xs) :: u16) @ xs) ()"
      by (rule bytes_buffer.emits_then bytes_buffer.emits_binary_Write bytes_buffer.emits_Write)+
    with short k n show ?thesis
      by (simp add: write_value_def sent_writer_def writeShortLenType_def value_bytes_def Let_def)
  next
    case byte
    then have "Size pt \<le> 0xff" using assms(2) by (simp add: cell_fits_def Let_def)
    with byte len [of xs] show ?thesis
      by (simp add: write_value_def sent_writer_def writeByteLenType_def obytes_def value_bytes_def Let_def)
  qed
qed

lemma reads_cell:
  assumes "sendable ti" "cell_fits ti sz (length xs)" "value_of db (received ti False) e xs = Inr v"
    "TypeId ti \<noteq> typeGuid"
  shows "reads (read_value db (received ti False) False e) (value_bytes ti e xs) v"
proof (cases "is_shortlen (TypeId ti) \<and> \<not> as_plp ti False")
  case True
  note k = kind_shortlen [OF conjunct1 [OF True]]
  from assms(2) True k have n: "int (length xs) \<le> Size ti" "Size ti \<le> 8000" by (auto simp: cell_fits_def Let_def as_plp_def)
  then show ?thesis using True k assms(3,4) reads_ShortLen [of xs "received ti False" db e v]
    by (auto simp: received_def set_size_def value_bytes_def Let_def)
next
  case False
  then have "value_fits ti xs"
    using assms(2,4) by (auto simp: cell_fits_def value_fits_def Let_def split: if_splits)
  then show ?thesis using assms by (intro reads_value) auto
qed

lemma carries_value:
  assumes "sendable ti" "par_buffer p = Some xs" "cell_fits ti (Size (par_ti p)) (length xs)" "TypeId ti \<noteq> typeGuid"
    and "value_of db (received ti False) e xs = Inr w"
  shows "cell_carries db e ti p w"
  unfolding cell_carries_def assms(2)
  using emits_cell [OF assms(1,3)] reads_cell [OF assms(1,3) assms(5) assms(4)] by blast

lemma carries_guid:
  assumes "TypeId ti = typeGuid" "Size ti = 16" "par_buffer p = Some xs" "length xs = 16" "Size (par_ti p) = 16"
  shows "cell_carries db e ti p (VBytes xs)"
proof -
  have s: "sendable ti" using assms kind_single(1) by (simp add: sendable_def)
  have f: "value_fits ti xs" "cell_fits ti (Size (par_ti p)) (length xs)" using assms kind_single(1) by (simp_all add: value_fits_def cell_fits_def)
  have "buffer_value db ti False e (Some xs) = Inr (VBytes xs)" using assms(1,4) kind_single(1) by (auto simp: buffer_value_def obytes_def)
  from reads_buffer [OF s value_buffer(1) [OF f(1)] this] value_buffer(2) [OF f(1), of e]
  have "reads (read_value db (received ti False) False e) (value_bytes ti e xs) (VBytes xs)" by simp
  with emits_cell [OF s f(2), of e] assms(3) show ?thesis unfolding cell_carries_def by auto
qed

text \<open>A nil value, and an empty value of a length-byte type, is NULL, unless the type of the column has none.\<close>

lemma carries_null:
  assumes "sendable ti" "\<not> is_fixed (TypeId ti)" "par_buffer p = None" "Size (par_ti p) = 0"
  shows "cell_carries db e ti p VNil"
proof -
  let ?t = "TypeId ti" and ?r = "received ti False"
  let ?w = "write_value buffer_write ((par_ti p)\<lparr>Writer := Some (sent_writer ti False)\<rparr>) None e"
  note R = Reader_received [OF assms(1), of False]
  have zero: "bytes_buffer.emits ?w [0] ()" if "\<not> is_shortlen ?t"
    using that assms bytes_buffer.emits_then_ret [OF bytes_buffer.emits_byte, of 0 "()"] kind_single(1)
      bytes_buffer.emits_then [OF bytes_buffer.emits_byte bytes_buffer.emits_Write, of 0 "[]"]
    by (cases "?t = typeGuid") (simp_all add: write_value_def sent_writer_def writeGuidType_def writeByteLenType_def obytes_def)
  consider (plp) "is_shortlen ?t" "as_plp ti False" | (short) "is_shortlen ?t" "\<not> as_plp ti False" | (byte) "\<not> is_shortlen ?t" by blast
  then show ?thesis
  proof cases
    case plp
    have "bytes_buffer.emits ?w (le_bytes 8 PLP_NULL) ()"
      using plp kind_shortlen [OF plp(1)] by (auto simp: write_value_def sent_writer_def writePLPType_def)
    moreover have "reads (read_value db ?r False e) (le_bytes 8 PLP_NULL) VNil"
      using R(2) [OF plp] by (simp add: read_value_def reads_PLP_null)
    ultimately show ?thesis unfolding cell_carries_def assms(3) by blast
  next
    case short
    have "bytes_buffer.emits ?w (le_bytes 2 (0xffff :: u16)) ()"
      using short kind_shortlen [OF short(1)] by (auto simp: write_value_def sent_writer_def writeShortLenType_def)
    with reads_ShortLen_null [of ?r db e] R(3) [OF short] show ?thesis unfolding cell_carries_def assms(3) by blast
  next
    case byte
    with zero reads_ByteLen_null [of ?r db e] R(4) [OF assms(2) byte] show ?thesis unfolding cell_carries_def assms(3) by blast
  qed
qed

lemma carries_empty:
  assumes "sendable ti" "\<not> is_fixed (TypeId ti)" "\<not> is_shortlen (TypeId ti)" "par_buffer p = Some []" "Size (par_ti p) = 0"
  shows "cell_carries db e ti p VNil"
proof -
  let ?w = "write_value buffer_write ((par_ti p)\<lparr>Writer := Some (sent_writer ti False)\<rparr>) (Some []) e"
  have "bytes_buffer.emits ?w [0] ()"
    using assms bytes_buffer.emits_then_ret [OF bytes_buffer.emits_byte, of 0 "()"] kind_single(1)
      bytes_buffer.emits_then [OF bytes_buffer.emits_byte bytes_buffer.emits_Write, of 0 "[]"]
    by (cases "TypeId ti = typeGuid") (simp_all add: write_value_def sent_writer_def writeGuidType_def writeByteLenType_def obytes_def)
  with reads_ByteLen_null [of "received ti False" db e] Reader_received(4) [OF assms(1-3), of False] show ?thesis
    unfolding cell_carries_def assms(4) by blast
qed

section \<open>Numbers in columns\<close>

lemma SetBytes_zeros: "SetBytes (replicate k 0 @ xs) = SetBytes xs"
  by (induction k) (simp_all add: SetBytes_Cons)

lemma SetBytes_Nil: "SetBytes [] = 0"
  by (simp add: SetBytes_def)

lemma unat_le_word4: "unat (le_word [b0, b1, b2, b3] :: u32) = SetBytes [b3, b2, b1, b0]"
proof -
  let ?w = "le_word [b0, b1, b2, b3] :: u32"
  have "be_bytes 4 ?w = [b3, b2, b1, b0]"
    using le_bytes_le_word [of "[b0, b1, b2, b3]", where 'a = 32] by (simp add: be_bytes_def le_bytes_numeral del: le_word.simps)
  moreover have "SetBytes (be_bytes 4 ?w) = unat ?w"
    using unsigned_less [of ?w, where 'a = nat] by (simp add: SetBytes_be_bytes del: le_word.simps)
  ultimately show ?thesis by simp
qed

text \<open>Bytes in groups of four are the limbs of a decimal.\<close>

lemma set_integers_value:
  assumes "length rest \<in> {4, 8, 12, 16}" "integer dec = [0, 0, 0, 0]"
  shows "\<exists>d. set_integers 0 rest dec = Inr d \<and> positive d = positive dec \<and> scale d = scale dec \<and> dec_nat d = SetBytes (rev rest)"
proof -
  note s = SetInteger_def assms(2) dec_nat_def unat_le_word4 SetBytes_Cons SetBytes_Nil algebra_simps
  from assms(1) consider "length rest = Suc (Suc (Suc (Suc 0)))" | "length rest = 8" | "length rest = 12" | "length rest = 16" by auto
  then show ?thesis
  proof cases
    case 1
    then obtain b0 b1 b2 b3 where "rest = [b0, b1, b2, b3]" by (auto simp: length_Suc_conv)
    then show ?thesis by (simp add: s del: le_word.simps)
  next
    case 2
    then obtain b0 b1 b2 b3 b4 b5 b6 b7 where "rest = [b0, b1, b2, b3, b4, b5, b6, b7]"
      by (auto simp: length_Suc_conv eval_nat_numeral)
    then show ?thesis by (simp add: s del: le_word.simps)
  next
    case 3
    then obtain b0 b1 b2 b3 b4 b5 b6 b7 b8 b9 ba bb where "rest = [b0, b1, b2, b3, b4, b5, b6, b7, b8, b9, ba, bb]"
      by (auto simp: length_Suc_conv eval_nat_numeral)
    then show ?thesis by (simp add: s del: le_word.simps)
  next
    case 4
    then obtain b0 b1 b2 b3 b4 b5 b6 b7 b8 b9 ba bb bc bd be bf
      where "rest = [b0, b1, b2, b3, b4, b5, b6, b7, b8, b9, ba, bb, bc, bd, be, bf]"
      by (auto simp: length_Suc_conv eval_nat_numeral)
    then show ?thesis by (simp add: s del: le_word.simps)
  qed
qed

lemma decodeDecimal_value:
  assumes "length rest \<in> {4, 8, 12, 16}"
  shows "decodeDecimal pr sc (sign # rest)
     = ScaleBytes (show_int (if sign \<noteq> 0 then int (SetBytes (rev rest)) else - int (SetBytes (rev rest)))) (unat sc)"
proof -
  let ?d = "SetScale sc (SetPrec pr (SetPositive (sign \<noteq> 0) Decimal_zero))"
  have "integer ?d = [0, 0, 0, 0]" "positive ?d = (sign \<noteq> 0)" "scale ?d = sc"
    by (simp_all add: SetScale_def SetPrec_def SetPositive_def Decimal_zero_def)
  with set_integers_value [OF assms, of ?d] obtain d where
    "set_integers 0 rest ?d = Inr d" "positive d = (sign \<noteq> 0)" "scale d = sc" "dec_nat d = SetBytes (rev rest)" by auto
  then show ?thesis by (simp add: decodeDecimal_def Decimal_Bytes_def BigInt_dec_nat)
qed

lemma decimal_bytes_value:
  assumes "decimal_bytes pr dec = Inr xs"
  shows "length xs = decimal_length pr + 1 \<and> decodeDecimal pr' sc xs = ScaleBytes (show_int (BigInt dec)) (unat sc)"
proof -
  let ?ub = "UnscaledBytes (SetPrec pr dec)" and ?n = "decimal_length pr"
  have B: "BigInt (SetPrec pr dec) = BigInt dec" "IsPositive (SetPrec pr dec) = positive dec"
    by (simp_all add: BigInt_def SetPrec_def IsPositive_def)
  from assms have l: "length ?ub \<le> ?n" and xs: "xs = (if positive dec then 1 else 0) # rev ?ub @ replicate (?n - length ?ub) 0"
    by (auto simp: decimal_bytes_def Let_def B split: if_splits)
  have n: "?n \<in> {4, 8, 12, 16}" by (simp add: decimal_length_def)
  have "SetBytes (rev (rev ?ub @ replicate (?n - length ?ub) 0)) = nat \<bar>BigInt dec\<bar>"
    by (simp add: SetBytes_zeros UnscaledBytes_def SetBytes_nat_Bytes B)
  moreover have "length (rev ?ub @ replicate (?n - length ?ub) 0) \<in> {4, 8, 12, 16}" using l n by simp
  moreover have "positive dec \<Longrightarrow> \<bar>BigInt dec\<bar> = BigInt dec" "\<not> positive dec \<Longrightarrow> - \<bar>BigInt dec\<bar> = BigInt dec"
    by (simp_all add: BigInt_dec_nat)
  ultimately show ?thesis using l by (simp add: xs decodeDecimal_value)
qed

text \<open>Integers of the widths of the integer types; one byte is unsigned.\<close>

definition wrap_int :: "int \<Rightarrow> int \<Rightarrow> int" where
  "wrap_int sz n = (if sz = 1 then n mod 256 else signed_take_bit (nat (8 * sz - 1)) n)"

lemma int_bytes_of_value:
  assumes "sz \<in> {1, 2, 4, 8}"
  shows "int (length (int_bytes_of sz n)) = sz" "intn_value (int_bytes_of sz n) = Inr (VInt (wrap_int sz n))"
    "sz = 1 \<Longrightarrow> vmap (\<lambda>b. VInt (uint b)) (first_byte (int_bytes_of sz n)) = Inr (VInt (wrap_int sz n))"
    "sz = 2 \<Longrightarrow> vmap (\<lambda>w. VInt (sint w)) (Uint16 (int_bytes_of sz n)) = Inr (VInt (wrap_int sz n))"
    "sz = 4 \<Longrightarrow> vmap (\<lambda>w. VInt (sint w)) (Uint32 (int_bytes_of sz n)) = Inr (VInt (wrap_int sz n))"
    "sz = 8 \<Longrightarrow> vmap (\<lambda>w. VInt (sint w)) (Uint64 (int_bytes_of sz n)) = Inr (VInt (wrap_int sz n))"
  using assms
  by (auto simp: int_bytes_of_def wrap_int_def put16_def put32_def put64_def intn_value_def vmap_def first_byte_def Uint_le Uint64_le
      signed_of_int uint_word_of_int)

text \<open>An integer that fits the column is kept.\<close>

lemma wrap_int_fits:
  "0 \<le> n \<Longrightarrow> n < 256 \<Longrightarrow> wrap_int 1 n = n" "signed_fits 15 n \<Longrightarrow> wrap_int 2 n = n" "signed_fits 31 n \<Longrightarrow> wrap_int 4 n = n"
  "signed_fits 63 n \<Longrightarrow> wrap_int 8 n = n"
  by (simp_all add: wrap_int_def signed_fits_def signed_take_bit_int_eq_self)

text \<open>Money: the 32 or 64 low bits of the number of ten-thousandths, in two's complement.\<close>

lemma low_limbs:
  assumes "dec_nat d < 2 ^ 64"
  shows "unat (integer d ! 0) + unat (integer d ! 1) * 2 ^ 32 = dec_nat d" "dec_nat d < 2 ^ 32 \<Longrightarrow> unat (integer d ! 0) = dec_nat d"
  using assms by (auto simp: dec_nat_def)

lemma twos_complement:
  assumes "uint (w :: 'a :: len word) = \<bar>i\<bar>" "if p then 0 \<le> i else i \<le> 0" "\<bar>i\<bar> < 2 ^ (LENGTH('a) - 1)"
  shows "sint (if p then w else NOT w + 1) = i"
proof -
  have w: "w = word_of_int \<bar>i\<bar>" using assms(1) by (metis word_of_int_uint)
  have "NOT w + 1 = - w" by (simp add: minus_eq_not_plus_1)
  then have "(if p then w else NOT w + 1) = word_of_int i" using assms(2) by (auto simp: w split: if_splits)
  moreover have "sint (word_of_int i :: 'a word) = i" using assms(3) by (simp add: signed_of_int signed_take_bit_int_eq_self)
  ultimately show ?thesis by simp
qed

lemma join_words: "uint (push_bit 32 (ucast hi) OR ucast lo :: u64) = uint (lo :: u32) + uint (hi :: u32) * 2 ^ 32"
proof -
  have "push_bit 32 (ucast hi) OR ucast lo = (push_bit 32 (ucast hi) + ucast lo :: u64)"
    by (rule disjunctive_add [symmetric]) (use bit_imp_le_length [of lo] in \<open>fastforce simp: bit_simps\<close>)
  moreover have h: "uint lo < 2 ^ 32" "uint hi < 2 ^ 32" using unsigned_less [of lo, where 'a = int] unsigned_less [of hi, where 'a = int] by simp_all
  ultimately show ?thesis
    by (simp add: uint_word_ariths unsigned_push_bit_eq unsigned_ucast_eq push_bit_eq_mult take_bit_eq_mod)
qed

lemma split_words: "(ucast (ucast i :: u32) OR push_bit 32 (ucast (ucast (drop_bit 32 i) :: u32)) :: u64) = i"
  by (rule bit_word_eqI) (auto simp: bit_simps)

lemma money_bytes_value:
  assumes "sz \<in> {4, 8}" "\<bar>BigInt dec\<bar> < 2 ^ nat (8 * sz - 1)" "length (integer dec) = 4"
  shows "\<exists>xs. money_bytes sz dec = Inr xs \<and> int (length xs) = sz
     \<and> (if sz = 4 then decodeMoney4 xs else decodeMoney xs) = ScaleBytes (show_int (BigInt dec)) 4"
proof -
  let ?p = "positive dec" and ?lo = "integer dec ! 0" and ?hi = "integer dec ! 1"
  have n: "\<bar>BigInt dec\<bar> = int (dec_nat dec)" "if ?p then 0 \<le> BigInt dec else BigInt dec \<le> 0" by (simp_all add: BigInt_dec_nat)
  have g: "GetInteger 0 dec = Inr ?lo" "GetInteger 1 dec = Inr ?hi" using assms(3) by (simp_all add: GetInteger_def)
  show ?thesis
  proof (cases "sz = 4")
    case True
    let ?w = "if ?p then ?lo else NOT ?lo + 1"
    have b: "dec_nat dec < 2 ^ 31" using assms(2) n(1) True by simp
    then have "int (unat ?lo) = int (dec_nat dec)" using low_limbs(2) [of dec] by simp
    then have "uint ?lo = \<bar>BigInt dec\<bar>" using n(1) by simp
    then have "sint ?w = BigInt dec" using n(2) assms(2) True by (intro twos_complement) simp_all
    then show ?thesis using True g Uint_le(2) [of ?w]
      by (auto simp: money_bytes_def decodeMoney4_def IsPositive_def)
  next
    case False
    then have sz: "sz = 8" using assms(1) by simp
    let ?j = "push_bit 32 (ucast ?hi) OR ucast ?lo :: u64"
    let ?i = "if ?p then ?j else NOT ?j + 1"
    have b: "dec_nat dec < 2 ^ 63" using assms(2) n(1) sz by simp
    have "int (unat ?lo + unat ?hi * 2 ^ 32) = \<bar>BigInt dec\<bar>" using low_limbs(1) [of dec] b n(1) by simp
    then have "uint ?j = \<bar>BigInt dec\<bar>" unfolding join_words by simp
    then have "sint ?i = BigInt dec" using n(2) assms(2) sz by (intro twos_complement) simp_all
    moreover have "decodeMoney (le_bytes 4 (ucast (drop_bit 32 ?i) :: u32) @ le_bytes 4 (ucast ?i :: u32)) = ScaleBytes (show_int (sint ?i)) 4"
      unfolding decodeMoney_words split_words ..
    moreover have "money_bytes 8 dec = Inr (le_bytes 4 (ucast (drop_bit 32 ?i) :: u32) @ le_bytes 4 (ucast ?i :: u32))"
      unfolding money_bytes_def g sbind_simps Let_def IsPositive_def by simp
    ultimately show ?thesis unfolding sz by (intro exI [of _ "le_bytes 4 (ucast (drop_bit 32 ?i) :: u32) @ le_bytes 4 (ucast ?i :: u32)"]) simp
  qed
qed

lemma StringToDecimalScale_limbs: "StringToDecimalScale s sc = Inr dec \<Longrightarrow> length (integer dec) = 4"
  by (auto simp: StringToDecimalScale_def Let_def split: if_splits option.splits sum.splits prod.splits)

section \<open>What arrives in a column\<close>

text \<open>The column as the server described it: a type of fixed length has its size.\<close>

definition sized_column :: "typeInfo \<Rightarrow> bool" where
  "sized_column ti \<longleftrightarrow> sendable ti \<and> (is_fixed (TypeId ti) \<longrightarrow> Size ti = fixed_size (TypeId ti)) \<and> (TypeId ti = typeGuid \<longrightarrow> Size ti = 16)
     \<and> (\<not> is_shortlen (TypeId ti) \<longrightarrow> Size ti \<le> 0xff)"

definition is_int_type :: "byte \<Rightarrow> bool" where
  "is_int_type t \<longleftrightarrow> t \<in> {typeInt1, typeInt2, typeInt4, typeInt8, typeIntN}"

definition room :: "typeInfo \<Rightarrow> nat \<Rightarrow> bool" where
  "room ti n \<longleftrightarrow> n < 2 ^ 31 \<and> (as_plp ti False \<or> int n \<le> Size ti)"

text \<open>
  \<open>arrives d db e ti v w\<close>: the value \<open>v\<close> of the application and what the receiver finds for it in a column of type
  \<open>ti\<close>. A number in an integer column arrives cut to the width of the column, a number in a floating-point column rounded to it. Strings in national character
  columns arrive with invalid UTF-8 replaced; integers and byte slices in such columns are sent as they are, and arrive as the UTF-16 text that their bytes spell. Character columns
  arrive decoded by the character set of their collation. Times, and strings that \<open>time.ParseInLocation\<close> makes times of, arrive cut to the scale of the column, or rounded to 1/300 second
  in a \<open>datetime\<close> column; in a \<open>smalldatetime\<close> column the day is that of the instant in the reader's zone and the minute that of the value's own. Decimals and money arrive as the text of the number; an
  integer in a decimal column as the digits of the integer with the point of the column's scale in it.
\<close>

inductive arrives :: "bdeps \<Rightarrow> dbcs \<Rightarrow> EncodeParameters \<Rightarrow> typeInfo \<Rightarrow> rowval \<Rightarrow> val \<Rightarrow> bool" for d db e where
  null: "\<not> is_fixed (TypeId ti) \<Longrightarrow> arrives d db e ti RNil VNil"
| nil: "TypeId ti \<in> {typeNVarChar, typeNChar, typeBigVarChar, typeBigChar, typeVarChar, typeChar, typeBigVarBin, typeBigBinary, typeGuid} \<Longrightarrow>
    arrives d db e ti (RBytes None) VNil"
| int: "is_int_type (TypeId ti) \<Longrightarrow> Size ti \<in> {1, 2, 4, 8} \<Longrightarrow> int_value d v = Inr n \<Longrightarrow> arrives d db e ti v (VInt (wrap_int (Size ti) n))"
| float: "TypeId ti \<in> {typeFlt8, typeFltN} \<Longrightarrow> Size ti = 8 \<Longrightarrow> float_value d v = Inr w64 \<Longrightarrow> arrives d db e ti v (VFlt8 w64)"
| float4: "TypeId ti \<in> {typeFlt4, typeFltN} \<Longrightarrow> Size ti = 4 \<Longrightarrow> float_value d v = Inr w64 \<Longrightarrow> arrives d db e ti v (VFlt4 (to_float32 d w64))"
| nchar: "TypeId ti \<in> {typeNVarChar, typeNChar} \<Longrightarrow> room ti (length (str2ucs2 s)) \<Longrightarrow> arrives d db e ti (RString s) (VStr (sanitized s))"
| nchar_raw: "TypeId ti \<in> {typeNVarChar, typeNChar} \<Longrightarrow> nchar_value v = Inr (Some xs) \<Longrightarrow> room ti (length xs) \<Longrightarrow> decodeNChar xs = Inr s \<Longrightarrow>
    arrives d db e ti v (VStr s)"
| char: "TypeId ti \<in> {typeBigVarChar, typeBigChar} \<Longrightarrow> char_value v = Inr (Some xs) \<Longrightarrow> room ti (length xs) \<Longrightarrow>
    arrives d db e ti v (VStr (decodeChar db (Coll ti) xs))"
| char_byte: "TypeId ti \<in> {typeVarChar, typeChar} \<Longrightarrow> char_value v = Inr (Some xs) \<Longrightarrow> int (length xs) \<le> Size ti \<Longrightarrow>
    arrives d db e ti v (if xs = [] then VNil else VStr (decodeChar db \<lparr>LcidAndFlags = 0, SortId = 0\<rparr> xs))"
| bin: "TypeId ti \<in> {typeBigVarBin, typeBigBinary} \<Longrightarrow> room ti (length xs) \<Longrightarrow> arrives d db e ti (RBytes (Some xs)) (VBytes xs)"
| guid: "TypeId ti = typeGuid \<Longrightarrow> length xs = 16 \<Longrightarrow> arrives d db e ti (RBytes (Some xs)) (VBytes xs)"
| no_guid: "TypeId ti = typeGuid \<Longrightarrow> arrives d db e ti (RBytes (Some [])) VNil"
| bit: "TypeId ti \<in> {typeBit, typeBitN} \<Longrightarrow> Size ti = 1 \<Longrightarrow> arrives d db e ti (RBool b) (VBool b)"
| datetime2: "TypeId ti = typeDateTime2N \<Longrightarrow> time_value d sqlDateTimeFormat 0 v = Inr t \<Longrightarrow> date_fits t \<Longrightarrow>
    arrives d db e ti v (VTime ((cut (unat (Scale ti)) t)\<lparr>t_zone := GetTimezone e\<rparr>))"
| offset: "TypeId ti = typeDateTimeOffsetN \<Longrightarrow> time_value d sqlDateTimeFormat 0 v = Inr t \<Longrightarrow> Tds_Params.time_fits t \<Longrightarrow>
    arrives d db e ti v (VTime (cut (unat (Scale ti)) t))"
| date: "TypeId ti = typeDateN \<Longrightarrow> time_value d sqlDateFormat (GetTimezone e) v = Inr t \<Longrightarrow> date_fits t \<Longrightarrow>
    arrives d db e ti v (VTime \<lparr>t_day = t_day t, t_ns = 0, t_zone = GetTimezone e\<rparr>)"
| clock: "TypeId ti = typeTimeN \<Longrightarrow> time_value d sqlTimeFormat 0 v = Inr t \<Longrightarrow> time_ok t \<Longrightarrow>
    arrives d db e ti v (VTime (cut (unat (Scale ti)) \<lparr>t_day = 0, t_ns = t_ns t, t_zone = GetTimezone e\<rparr>))"
| datetime: "TypeId ti \<in> {typeDateTime, typeDateTimeN} \<Longrightarrow> Size ti = 8 \<Longrightarrow> time_value d sqlDateTimeFormat 0 v = Inr t \<Longrightarrow> datetime_fits t \<Longrightarrow>
    arrives d db e ti v (VTime (nearest_tick t (GetTimezone e)))"
| smalldatetime: "TypeId ti \<in> {typeDateTim4, typeDateTimeN} \<Longrightarrow> Size ti = 4 \<Longrightarrow> time_value d sqlDateTimeFormat 0 v = Inr t \<Longrightarrow> time_ok t \<Longrightarrow>
    day = t_day t - base1900 + (t_ns t - (t_zone t - GetTimezone e) * 10 ^ 9) div day_ns \<Longrightarrow> 0 \<le> day \<Longrightarrow> day < 2 ^ 16 \<Longrightarrow>
    arrives d db e ti v (VTime (time_Date (base1900 + day) ((Hour t * 60 + Minute t) * 60) 0 (GetTimezone e)))"
| money: "TypeId ti \<in> {typeMoney, typeMoney4, typeMoneyN} \<Longrightarrow> Size ti \<in> {4, 8} \<Longrightarrow> StringToDecimalScale s 4 = Inr dec \<Longrightarrow>
    \<bar>BigInt dec\<bar> < 2 ^ nat (8 * Size ti - 1) \<Longrightarrow> ScaleBytes (show_int (BigInt dec)) 4 = Inr m \<Longrightarrow> arrives d db e ti (RString s) (VBytes (str_bytes m))"
| decimal: "is_decimal (TypeId ti) \<Longrightarrow> decimal_value d (Scale ti) v = Inr dec \<Longrightarrow> nat \<bar>BigInt dec\<bar> < 256 ^ decimal_length (Prec ti) \<Longrightarrow>
    int (decimal_length (Prec ti)) < Size ti \<Longrightarrow>
    ScaleBytes (show_int (BigInt dec)) (unat (Scale ti)) = Inr s \<Longrightarrow> arrives d db e ti v (VBytes (str_bytes s))"
| valuer: "b_convert d i = Inr x \<Longrightarrow> arrives d db e ti (of_dvalue x) w \<Longrightarrow> arrives d db e ti (RValuer i) w"

lemmas column_defs = column_param_def Let_def type_ids is_decimal_def with_buf_def sized_buf_def sized_param_def obytes_def

lemma bulk_plain: "v \<noteq> RNil \<Longrightarrow> (\<And>i. v \<noteq> RValuer i) \<Longrightarrow> bulk_makeParam d loc ti v = column_param d loc ti v"
  by (cases v) (auto simp: bulk_makeParam_def)

text \<open>A value with a conversion is no nil and no valuer.\<close>

lemma converted_plain:
  "int_value d v = Inr n \<Longrightarrow> bulk_makeParam d loc ti v = column_param d loc ti v"
  "float_value d v = Inr w \<Longrightarrow> bulk_makeParam d loc ti v = column_param d loc ti v"
  "nchar_value v = Inr b \<Longrightarrow> bulk_makeParam d loc ti v = column_param d loc ti v"
  "char_value v = Inr b \<Longrightarrow> bulk_makeParam d loc ti v = column_param d loc ti v"
  "time_value d layout z v = Inr t \<Longrightarrow> bulk_makeParam d loc ti v = column_param d loc ti v"
  "decimal_value d sc v = Inr dec \<Longrightarrow> bulk_makeParam d loc ti v = column_param d loc ti v"
  by (cases v; simp add: bulk_makeParam_def time_value_def invalid_def)+

lemma value_of_fixed: "is_fixed (TypeId ti) \<Longrightarrow> value_of db (received ti False) e xs = fixed_value (TypeId ti) xs (GetTimezone e)"
  by (simp add: value_of_def received_def set_size_def Let_def)

lemma value_of_bytelen:
  assumes "sendable ti" "\<not> is_fixed (TypeId ti)" "\<not> is_shortlen (TypeId ti)"
  shows "value_of db (received ti False) e xs = bytelen_value db (received ti False) xs e"
  using Reader_received(4) [OF assms, of False] by (simp add: value_of_def)

lemma bytelen_cell:
  assumes "sized_column ti" "\<not> is_fixed (TypeId ti)" "\<not> is_shortlen (TypeId ti)" "TypeId ti \<noteq> typeGuid" "par_buffer p = Some xs"
    "0 < length xs" "length xs \<le> 0xff" "Size (par_ti p) \<le> 0xff" "int (length xs) \<le> Size (received ti False)"
    "bytelen_value db (received ti False) xs e = Inr w"
  shows "cell_carries db e ti p w"
proof (rule carries_value)
  show s: "sendable ti" using assms(1) by (simp add: sized_column_def)
  show "cell_fits ti (Size (par_ti p)) (length xs)" using assms by (simp add: cell_fits_def sized_column_def)
  show "value_of db (received ti False) e xs = Inr w" using value_of_bytelen [OF s assms(2,3)] assms(10) by simp
qed (use assms in simp_all)

lemma fixed_cell:
  assumes "sized_column ti" "is_fixed (TypeId ti)" "par_buffer p = Some xs" "int (length xs) = Size ti"
    "fixed_value (TypeId ti) xs (GetTimezone e) = Inr w"
  shows "cell_carries db e ti p w"
proof (rule carries_value)
  show "sendable ti" using assms(1) by (simp add: sized_column_def)
  show "cell_fits ti (Size (par_ti p)) (length xs)" using assms by (simp add: cell_fits_def sized_column_def)
  show "value_of db (received ti False) e xs = Inr w" using value_of_fixed [OF assms(2)] assms(5) by simp
qed (use assms kind_fixed in auto)

text \<open>A column of a type of fixed length, or of the nullable type of that kind and its size.\<close>

lemma sized_cell:
  assumes "sized_column ti" "TypeId ti \<in> {typeInt1, typeInt2, typeInt4, typeInt8, typeIntN, typeFlt4, typeFlt8, typeFltN, typeBit, typeBitN,
      typeDateTime, typeDateTim4, typeDateTimeN, typeMoney, typeMoney4, typeMoneyN}"
    and "par_buffer p = Some xs" "int (length xs) = Size ti" "0 < Size ti" "Size (par_ti p) \<le> 0xff"
    and "is_fixed (TypeId ti) \<Longrightarrow> fixed_value (TypeId ti) xs (GetTimezone e) = Inr w"
    and "\<And>r. \<not> is_fixed (TypeId ti) \<Longrightarrow> TypeId r = TypeId ti \<Longrightarrow> bytelen_value db r xs e = Inr w"
  shows "cell_carries db e ti p w"
proof (cases "is_fixed (TypeId ti)")
  case True
  then show ?thesis using assms by (intro fixed_cell)
next
  case False
  then have k: "is_bytelen (TypeId ti)" "\<not> is_decimal (TypeId ti)" using assms(2) by (auto simp: kind_defs)
  note k' = kind_bytelen [OF k(1)]
  have "Size ti \<le> 0xff" using assms(1) k' by (simp add: sized_column_def)
  moreover have "Size (received ti False) = Size ti" using received_bytelen(3) [OF k] assms(5) by simp
  moreover have "bytelen_value db (received ti False) xs e = Inr w" using assms(8) [OF False] by (simp add: TypeId_received)
  ultimately show ?thesis using assms(1,3-6) k' False by (intro bytelen_cell) auto
qed

lemma short_cell:
  assumes "sized_column ti" "is_shortlen (TypeId ti)" "par_buffer p = Some xs" "Size (par_ti p) = int (length xs)" "room ti (length xs)"
    "if TypeId ti \<in> {typeBigVarBin, typeBigBinary} then w = VBytes xs
     else if TypeId ti \<in> {typeBigVarChar, typeBigChar} then w = VStr (decodeChar db (Coll ti) xs)
     else decodeNChar xs = Inr s \<and> w = VStr s"
  shows "cell_carries db e ti p w"
proof (rule carries_value)
  note k = kind_shortlen [OF assms(2)]
  show "sendable ti" using assms(1) by (simp add: sized_column_def)
  show "cell_fits ti (Size (par_ti p)) (length xs)" using assms(2,4,5) k by (auto simp: cell_fits_def room_def)
  have r: "typeInfo.Reader (received ti False) = Some (if as_plp ti False then RdPLP else RdShortLen)" "TypeId (received ti False) = TypeId ti"
    using k by (simp_all add: received_def set_size_def Let_def)
  have c: "Coll (received ti False) = Coll ti" if "TypeId ti \<in> {typeBigVarChar, typeBigChar}"
    using k that by (auto simp: received_def set_size_def Let_def has_collation_def)
  show "value_of db (received ti False) e xs = Inr w"
    using assms(2,6) r c unfolding is_shortlen_def
    by (elim insertE emptyE) (simp_all add: value_of_def plp_value_def vmap_def type_ids Let_def split: if_splits)
  show "TypeId ti \<noteq> typeGuid" using k by simp
qed (rule assms(3))

lemma int_column:
  assumes "sized_column ti" "is_int_type (TypeId ti)" "Size ti \<in> {1, 2, 4, 8}" "int_value d v = Inr n"
  shows "\<exists>p. bulk_makeParam d loc ti v = Inr p \<and> cell_carries db e ti p (VInt (wrap_int (Size ti) n))"
proof -
  let ?xs = "int_bytes_of (Size ti) n" and ?p = "with_buf ti (Some (int_bytes_of (Size ti) n))"
  note iv = int_bytes_of_value [OF assms(3), of n]
  have p: "bulk_makeParam d loc ti v = Inr ?p"
    using assms(2,4) by (auto simp: converted_plain(1) [OF assms(4)] column_param_def Let_def is_int_type_def)
  have "cell_carries db e ti ?p (VInt (wrap_int (Size ti) n))"
  proof (rule sized_cell [OF assms(1), where xs = ?xs])
    show "fixed_value (TypeId ti) ?xs (GetTimezone e) = Inr (VInt (wrap_int (Size ti) n))" if "is_fixed (TypeId ti)"
    proof -
      have "Size ti = fixed_size (TypeId ti)" "TypeId ti \<in> {typeInt1, typeInt2, typeInt4, typeInt8}"
        using that assms(1,2) by (auto simp: sized_column_def is_int_type_def kind_defs)
      then show ?thesis using iv(3-6) by (elim insertE emptyE) (simp_all add: fixed_value_def fixed_size_def type_ids)
    qed
    show "bytelen_value db r ?xs e = Inr (VInt (wrap_int (Size ti) n))" if "\<not> is_fixed (TypeId ti)" "TypeId r = TypeId ti" for r
      using that assms(2) iv(2) by (auto simp: is_int_type_def kind_defs bytelen_value_def)
  qed (use assms(2,3) iv(1) in \<open>auto simp: with_buf_def is_int_type_def\<close>)
  with p show ?thesis by blast
qed

lemma float_column:
  assumes "sized_column ti" "float_value d v = Inr w"
  shows "TypeId ti \<in> {typeFlt8, typeFltN} \<Longrightarrow> Size ti = 8 \<Longrightarrow> \<exists>p. bulk_makeParam d loc ti v = Inr p \<and> cell_carries db e ti p (VFlt8 w)"
    "TypeId ti \<in> {typeFlt4, typeFltN} \<Longrightarrow> Size ti = 4 \<Longrightarrow> \<exists>p. bulk_makeParam d loc ti v = Inr p \<and> cell_carries db e ti p (VFlt4 (to_float32 d w))"
proof -
  have p: "bulk_makeParam d loc ti v = Inr (with_buf ti (float_bytes d (Size ti) w))" if "TypeId ti \<in> {typeFlt4, typeFlt8, typeFltN}"
    using that assms(2) by (auto simp: converted_plain(2) [OF assms(2)] column_param_def Let_def type_ids)
  show "\<exists>p. bulk_makeParam d loc ti v = Inr p \<and> cell_carries db e ti p (VFlt8 w)" if t: "TypeId ti \<in> {typeFlt8, typeFltN}" "Size ti = 8"
  proof -
    have "cell_carries db e ti (with_buf ti (float_bytes d (Size ti) w)) (VFlt8 w)"
      by (rule sized_cell [OF assms(1), where xs = "le_bytes 8 w"])
        (use t in \<open>auto simp: with_buf_def float_bytes_def kind_defs fixed_value_def bytelen_value_def vmap_def Uint64_le\<close>)
    with p t(1) show ?thesis by blast
  qed
  show "\<exists>p. bulk_makeParam d loc ti v = Inr p \<and> cell_carries db e ti p (VFlt4 (to_float32 d w))" if t: "TypeId ti \<in> {typeFlt4, typeFltN}" "Size ti = 4"
  proof -
    have "cell_carries db e ti (with_buf ti (float_bytes d (Size ti) w)) (VFlt4 (to_float32 d w))"
      by (rule sized_cell [OF assms(1), where xs = "le_bytes 4 (to_float32 d w)"])
        (use t in \<open>auto simp: with_buf_def float_bytes_def kind_defs fixed_value_def bytelen_value_def vmap_def Uint_le\<close>)
    with p t(1) show ?thesis by blast
  qed
qed

lemma nchar_column:
  assumes "sized_column ti" "TypeId ti \<in> {typeNVarChar, typeNChar}" "nchar_value v = Inr (Some xs)" "room ti (length xs)" "decodeNChar xs = Inr s"
  shows "\<exists>p. bulk_makeParam d loc ti v = Inr p \<and> cell_carries db e ti p (VStr s)"
proof -
  have "cell_carries db e ti (sized_buf ti (Some xs)) (VStr s)"
    using assms by (intro short_cell [where s = s]) (auto simp: sized_buf_def obytes_def is_shortlen_def type_ids)
  moreover have "bulk_makeParam d loc ti v = Inr (sized_buf ti (Some xs))"
    using assms(2,3) by (auto simp: converted_plain(3) [OF assms(3)] column_param_def Let_def type_ids)
  ultimately show ?thesis by blast
qed

lemma decodeNChar_str2ucs2: "length (str2ucs2 s) < 2 ^ 31 \<Longrightarrow> decodeNChar (str2ucs2 s) = Inr (sanitized s)"
  using ucs22str_str2ucs2 [of s] by (simp add: decodeNChar_def decodeUcs2_def sanitized_def)

lemma char_column:
  assumes "sized_column ti" "char_value v = Inr (Some xs)"
  shows "TypeId ti \<in> {typeBigVarChar, typeBigChar} \<Longrightarrow> room ti (length xs) \<Longrightarrow>
      \<exists>p. bulk_makeParam d loc ti v = Inr p \<and> cell_carries db e ti p (VStr (decodeChar db (Coll ti) xs))"
    "TypeId ti \<in> {typeVarChar, typeChar} \<Longrightarrow> int (length xs) \<le> Size ti \<Longrightarrow>
      \<exists>p. bulk_makeParam d loc ti v = Inr p \<and> cell_carries db e ti p (if xs = [] then VNil else VStr (decodeChar db \<lparr>LcidAndFlags = 0, SortId = 0\<rparr> xs))"
proof -
  have p: "bulk_makeParam d loc ti v = Inr (sized_buf ti (Some xs))" if "TypeId ti \<in> {typeBigVarChar, typeBigChar, typeVarChar, typeChar}"
    using that assms(2) by (auto simp: converted_plain(4) [OF assms(2)] column_param_def Let_def type_ids)
  show "\<exists>p. bulk_makeParam d loc ti v = Inr p \<and> cell_carries db e ti p (VStr (decodeChar db (Coll ti) xs))"
    if "TypeId ti \<in> {typeBigVarChar, typeBigChar}" "room ti (length xs)"
  proof -
    have "cell_carries db e ti (sized_buf ti (Some xs)) (VStr (decodeChar db (Coll ti) xs))"
      using assms that by (intro short_cell) (auto simp: sized_buf_def obytes_def is_shortlen_def type_ids)
    with p that(1) show ?thesis by blast
  qed
  show "\<exists>p. bulk_makeParam d loc ti v = Inr p \<and> cell_carries db e ti p (if xs = [] then VNil else VStr (decodeChar db \<lparr>LcidAndFlags = 0, SortId = 0\<rparr> xs))"
    if t: "TypeId ti \<in> {typeVarChar, typeChar}" "int (length xs) \<le> Size ti"
  proof -
    have k: "is_bytelen (TypeId ti)" "\<not> is_decimal (TypeId ti)" using t(1) by (auto simp: kind_defs)
    note k' = kind_bytelen [OF k(1)] and r = received_bytelen [OF k]
    have s: "sendable ti" "Size ti \<le> 0xff" using assms(1) k' by (auto simp: sized_column_def)
    have "cell_carries db e ti (sized_buf ti (Some xs)) (VStr (decodeChar db \<lparr>LcidAndFlags = 0, SortId = 0\<rparr> xs))" if "xs \<noteq> []"
    proof (rule bytelen_cell [OF assms(1)])
      have "Coll (received ti False) = \<lparr>LcidAndFlags = 0, SortId = 0\<rparr>"
        using k k' by (simp add: received_def set_size_def Let_def typeInfo_zero_def)
      then show "bytelen_value db (received ti False) xs e = Inr (VStr (decodeChar db \<lparr>LcidAndFlags = 0, SortId = 0\<rparr> xs))"
        using t(1) by (auto simp: bytelen_value_def TypeId_received kind_defs)
    qed (use k' t s r that in \<open>auto simp: sized_buf_def obytes_def\<close>)
    moreover have "cell_carries db e ti (sized_buf ti (Some [])) VNil"
      by (rule carries_empty) (use s k' in \<open>auto simp: sized_buf_def obytes_def\<close>)
    ultimately show ?thesis using p t(1) by auto
  qed
qed

lemma binary_plain: "TypeId ti \<in> {typeBigVarBin, typeBigBinary, typeGuid} \<Longrightarrow> bulk_makeParam d loc ti (RBytes b) = Inr (sized_buf ti b)"
  by (auto simp: bulk_plain column_param_def Let_def type_ids is_decimal_def)

lemma nil_column:
  assumes "sized_column ti"
    "TypeId ti \<in> {typeNVarChar, typeNChar, typeBigVarChar, typeBigChar, typeVarChar, typeChar, typeBigVarBin, typeBigBinary, typeGuid}"
  shows "\<exists>p. bulk_makeParam d loc ti (RBytes None) = Inr p \<and> cell_carries db e ti p VNil"
proof -
  have "bulk_makeParam d loc ti (RBytes None) = Inr (sized_buf ti None)"
    using assms(2) by (auto simp: bulk_plain column_param_def Let_def type_ids is_decimal_def)
  moreover have "\<not> is_fixed (TypeId ti)" using assms(2) by (auto simp: kind_defs)
  then have "cell_carries db e ti (sized_buf ti None) VNil"
    using assms(1) by (intro carries_null) (simp_all add: sized_column_def sized_buf_def obytes_def)
  ultimately show ?thesis by blast
qed

lemma bin_column:
  assumes "sized_column ti" "TypeId ti \<in> {typeBigVarBin, typeBigBinary}" "room ti (length xs)"
  shows "cell_carries db e ti (sized_buf ti (Some xs)) (VBytes xs)"
  using assms by (intro short_cell) (auto simp: sized_buf_def obytes_def is_shortlen_def)

lemma guid_column:
  assumes "sized_column ti" "TypeId ti = typeGuid"
  shows "length xs = 16 \<Longrightarrow> cell_carries db e ti (sized_buf ti (Some xs)) (VBytes xs)" "cell_carries db e ti (sized_buf ti (Some [])) VNil"
proof -
  show "length xs = 16 \<Longrightarrow> cell_carries db e ti (sized_buf ti (Some xs)) (VBytes xs)"
    using assms by (intro carries_guid) (simp_all add: sized_column_def sized_buf_def obytes_def)
  show "cell_carries db e ti (sized_buf ti (Some [])) VNil"
    using assms kind_single(1) by (intro carries_empty) (simp_all add: sized_column_def sized_buf_def obytes_def)
qed

lemma bit_column:
  assumes "sized_column ti" "TypeId ti \<in> {typeBit, typeBitN}" "Size ti = 1"
  shows "\<exists>p. bulk_makeParam d loc ti (RBool b) = Inr p \<and> cell_carries db e ti p (VBool b)"
proof -
  let ?p = "mk typeBitN 1 (Some [if b then 1 else 0])"
  have "bulk_makeParam d loc ti (RBool b) = Inr ?p"
    using assms(2) by (auto simp: bulk_plain column_param_def Let_def type_ids)
  moreover have "cell_carries db e ti ?p (VBool b)"
    by (rule sized_cell [OF assms(1), where xs = "[if b then 1 else 0]"])
      (use assms(2,3) in \<open>auto simp: kind_defs fixed_value_def bytelen_value_def vmap_def first_byte_def\<close>)
  ultimately show ?thesis by blast
qed

lemma received_time:
  assumes "is_scaled_time (TypeId ti)"
  shows "Scale (received ti False) = Scale ti" "Size (received ti False) = int (calcTimeSize (unat (Scale ti)))
     + (if TypeId ti = typeDateTime2N then 3 else if TypeId ti = typeDateTimeOffsetN then 5 else 0)"
  using assms kind_time [OF assms] by (simp_all add: received_def set_size_def Let_def)

lemma scaled_column:
  assumes "sized_column ti" "is_scaled_time (TypeId ti)"
    "int (length buf) = int (calcTimeSize (unat (Scale ti)))
     + (if TypeId ti = typeDateTime2N then 3 else if TypeId ti = typeDateTimeOffsetN then 5 else 0)"
    "bytelen_value db (received ti False) buf e = Inr w"
  shows "cell_carries db e ti (sized_buf ti (Some buf)) w"
proof -
  have "calcTimeSize (unat (Scale ti)) \<in> {3, 4, 5}" by (simp add: calcTimeSize_def)
  then have "buf \<noteq> []" "length buf \<le> 255" using assms(3) by (auto split: if_splits)
  with assms received_time [OF assms(2)] show ?thesis
    by (intro bytelen_cell) (auto simp: sized_buf_def obytes_def kind_defs TypeId_received)
qed

lemma scale_bound:
  assumes "sized_column ti" "is_scaled_time (TypeId ti)"
  shows "unat (Scale ti) \<le> 7"
  using assms kind_time [OF assms(2)] by (auto simp: sized_column_def sendable_def Let_def)

lemma datetime2_column:
  assumes "sized_column ti" "TypeId ti = typeDateTime2N" "time_value d sqlDateTimeFormat 0 v = Inr t" "date_fits t"
  shows "\<exists>p. bulk_makeParam d loc ti v = Inr p
     \<and> cell_carries db e ti p (VTime ((cut (unat (Scale ti)) t)\<lparr>t_zone := GetTimezone e\<rparr>))"
proof -
  let ?s = "unat (Scale ti)"
  have k: "is_scaled_time (TypeId ti)" by (simp add: assms(2) kind_defs)
  obtain buf where b: "encodeDateTime2 t ?s = Inr buf" "decodeDateTime2 ?s buf (GetTimezone e) = Inr ((cut ?s t)\<lparr>t_zone := GetTimezone e\<rparr>)"
    using decodeDateTime2_encode [OF _ _ _ scale_bound [OF assms(1) k]] assms(4) by (auto simp: date_fits_def)
  have "length buf = calcTimeSize ?s + 3"
    using b(1) by (auto simp: encodeDateTime2_def encodeTimeInt_def Let_def split: prod.splits if_splits)
  then have "cell_carries db e ti (sized_buf ti (Some buf)) (VTime ((cut ?s t)\<lparr>t_zone := GetTimezone e\<rparr>))"
    using received_time [OF k] b(2) assms(2)
    by (intro scaled_column [OF assms(1) k]) (simp_all add: kind_defs bytelen_value_def TypeId_received vmap_def)
  moreover have "bulk_makeParam d loc ti v = Inr (sized_buf ti (Some buf))"
    using b(1) assms(2,3) by (simp add: converted_plain(5) [OF assms(3)] column_param_def Let_def type_ids sized_param_def)
  ultimately show ?thesis by blast
qed

lemma offset_column:
  assumes "sized_column ti" "TypeId ti = typeDateTimeOffsetN" "time_value d sqlDateTimeFormat 0 v = Inr t" "Tds_Params.time_fits t"
  shows "\<exists>p. bulk_makeParam d loc ti v = Inr p \<and> cell_carries db e ti p (VTime (cut (unat (Scale ti)) t))"
proof -
  let ?s = "unat (Scale ti)"
  have k: "is_scaled_time (TypeId ti)" by (simp add: assms(2) kind_defs)
  obtain buf where b: "encodeDateTimeOffset t ?s = Inr buf" "decodeDateTimeOffset ?s buf = Inr (cut ?s t)"
    using decodeDateTimeOffset_encode [of t ?s] assms(4) scale_bound [OF assms(1) k] by (auto simp: Tds_Params.time_fits_def)
  have "length buf = calcTimeSize ?s + 5"
    using b(1) by (auto simp: encodeDateTimeOffset_def encodeTimeInt_def Let_def split: prod.splits if_splits)
  then have "cell_carries db e ti (sized_buf ti (Some buf)) (VTime (cut ?s t))"
    using received_time [OF k] b(2) assms(2)
    by (intro scaled_column [OF assms(1) k]) (simp_all add: kind_defs bytelen_value_def TypeId_received vmap_def)
  moreover have "bulk_makeParam d loc ti v = Inr (sized_buf ti (Some buf))"
    using b(1) assms(2,3) by (simp add: converted_plain(5) [OF assms(3)] column_param_def Let_def type_ids sized_param_def)
  ultimately show ?thesis by blast
qed

lemma clock_column:
  assumes "sized_column ti" "TypeId ti = typeTimeN" "time_value d sqlTimeFormat 0 v = Inr t" "time_ok t"
  shows "\<exists>p. bulk_makeParam d loc ti v = Inr p
     \<and> cell_carries db e ti p (VTime (cut (unat (Scale ti)) \<lparr>t_day = 0, t_ns = t_ns t, t_zone = GetTimezone e\<rparr>))"
proof -
  let ?s = "unat (Scale ti)" and ?t = "\<lparr>t_day = 0, t_ns = t_ns t, t_zone = GetTimezone e\<rparr>"
  have k: "is_scaled_time (TypeId ti)" by (simp add: assms(2) kind_defs)
  have n: "0 \<le> t_ns t" "t_ns t < 86400 * 10 ^ 9" using assms(4) by (simp_all add: time_ok_def day_ns_def)
  have "Hour t * 3600 + Minute t * 60 + Second t = t_ns t div 10 ^ 9" using clock_total(1) [OF n(1)] by simp
  then have ns: "t_ns t = (Hour t * 3600 + Minute t * 60 + Second t) * 10 ^ 9 + Nanosecond t" by (simp add: Nanosecond_def)
  have "0 \<le> Hour t \<and> Hour t < 24 \<and> 0 \<le> Minute t \<and> Minute t < 60 \<and> 0 \<le> Second t \<and> Second t < 60 \<and> 0 \<le> Nanosecond t \<and> Nanosecond t < 10 ^ 9"
    using n by (auto simp: Hour_def Minute_def Second_def Nanosecond_def pos_imp_zdiv_nonneg_iff)
  then obtain buf where b: "encodeTime (Hour t) (Minute t) (Second t) (Nanosecond t) ?s = Inr buf" "length buf = calcTimeSize ?s"
    "decodeTime ?s buf (GetTimezone e) = cut ?s ?t"
    using decodeTime_encode [of "Hour t" "Minute t" "Second t" "Nanosecond t" ?s ?t "GetTimezone e"] scale_bound [OF assms(1) k] ns by auto
  have "cell_carries db e ti (sized_buf ti (Some buf)) (VTime (cut ?s ?t))"
    using received_time [OF k] b(2,3) assms(2)
    by (intro scaled_column [OF assms(1) k]) (simp_all add: kind_defs bytelen_value_def TypeId_received)
  moreover have "bulk_makeParam d loc ti v = Inr (sized_buf ti (Some buf))"
    using b(1) assms(2,3) by (simp add: converted_plain(5) [OF assms(3)] column_param_def Let_def type_ids sized_param_def)
  ultimately show ?thesis by blast
qed

lemma date_column:
  assumes "sized_column ti" "TypeId ti = typeDateN" "time_value d sqlDateFormat loc v = Inr t" "date_fits t"
  shows "\<exists>p. bulk_makeParam d loc ti v = Inr p \<and> cell_carries db e ti p (VTime \<lparr>t_day = t_day t, t_ns = 0, t_zone = GetTimezone e\<rparr>)"
proof -
  let ?w = "\<lparr>t_day = t_day t, t_ns = 0, t_zone = GetTimezone e\<rparr>"
  have v: "decodeDate (encodeDate t) (GetTimezone e) = Inr ?w"
    using assms(4) by (intro decodeDate_encode) (simp_all add: date_fits_def)
  have l: "length (encodeDate t) = 3" by (simp add: encodeDate_def)
  have p: "bulk_makeParam d loc ti v = Inr (sized_buf ti (Some (encodeDate t)))"
    using assms(2,3) by (simp add: converted_plain(5) [OF assms(3)] column_param_def Let_def type_ids sized_param_def)
  have "Size (received ti False) = 3" using assms(2) kind_single(2) by (simp add: received_def set_size_def Let_def)
  moreover have "encodeDate t \<noteq> []" using l by auto
  ultimately have "cell_carries db e ti (sized_buf ti (Some (encodeDate t))) (VTime ?w)"
    using assms(1,2) v l
    by (intro bytelen_cell) (auto simp: sized_buf_def obytes_def kind_defs bytelen_value_def TypeId_received vmap_def)
  with p show ?thesis by blast
qed

lemma datetime_column:
  assumes "sized_column ti" "TypeId ti \<in> {typeDateTime, typeDateTimeN}" "Size ti = 8" "time_value d sqlDateTimeFormat 0 v = Inr t" "datetime_fits t"
  shows "\<exists>p. bulk_makeParam d loc ti v = Inr p \<and> cell_carries db e ti p (VTime (nearest_tick t (GetTimezone e)))"
proof -
  have v: "decodeDateTime (encodeDateTime t) (GetTimezone e) = Inr (nearest_tick t (GetTimezone e))"
    using assms(5) by (intro decodeDateTime_encode) (simp_all add: datetime_fits_def)
  have l: "length (encodeDateTime t) = 8" by (simp add: encodeDateTime_def Let_def split: prod.splits)
  have "bulk_makeParam d loc ti v = Inr (sized_buf ti (Some (encodeDateTime t)))"
    using assms(2-4) by (auto simp: converted_plain(5) [OF assms(4)] column_param_def Let_def type_ids sized_param_def)
  moreover have "cell_carries db e ti (sized_buf ti (Some (encodeDateTime t))) (VTime (nearest_tick t (GetTimezone e)))"
    by (rule sized_cell [OF assms(1), where xs = "encodeDateTime t"])
      (use assms(2,3) v l in \<open>auto simp: sized_buf_def obytes_def kind_defs fixed_value_def bytelen_value_def vmap_def\<close>)
  ultimately show ?thesis by blast
qed

lemma smalldatetime_column:
  assumes "sized_column ti" "TypeId ti \<in> {typeDateTim4, typeDateTimeN}" "Size ti = 4" "time_value d sqlDateTimeFormat 0 v = Inr t" "time_ok t"
    "day = t_day t - base1900 + (t_ns t - (t_zone t - GetTimezone e) * 10 ^ 9) div day_ns" "0 \<le> day" "day < 2 ^ 16"
  shows "\<exists>p. bulk_makeParam d (GetTimezone e) ti v = Inr p
     \<and> cell_carries db e ti p (VTime (time_Date (base1900 + day) ((Hour t * 60 + Minute t) * 60) 0 (GetTimezone e)))"
proof -
  let ?xs = "encodeDateTim4 t (GetTimezone e)" and ?w = "time_Date (base1900 + day) ((Hour t * 60 + Minute t) * 60) 0 (GetTimezone e)"
  have v: "decodeDateTim4 ?xs (GetTimezone e) = Inr ?w" by (rule decodeDateTim4_encode [OF assms(5-8)])
  have l: "length ?xs = 4" by (simp add: encodeDateTim4_def Let_def split: prod.splits)
  have "bulk_makeParam d (GetTimezone e) ti v = Inr (sized_buf ti (Some ?xs))"
    using assms(2-4) by (auto simp: converted_plain(5) [OF assms(4)] column_param_def Let_def type_ids sized_param_def)
  moreover have "cell_carries db e ti (sized_buf ti (Some ?xs)) (VTime ?w)"
    by (rule sized_cell [OF assms(1), where xs = ?xs])
      (use assms(2,3) v l in \<open>auto simp: sized_buf_def obytes_def kind_defs fixed_value_def bytelen_value_def vmap_def\<close>)
  ultimately show ?thesis by blast
qed

lemma money_column:
  assumes "sized_column ti" "TypeId ti \<in> {typeMoney, typeMoney4, typeMoneyN}" "Size ti \<in> {4, 8}" "StringToDecimalScale s 4 = Inr dec"
    "\<bar>BigInt dec\<bar> < 2 ^ nat (8 * Size ti - 1)" "ScaleBytes (show_int (BigInt dec)) 4 = Inr m"
  shows "\<exists>p. bulk_makeParam d loc ti (RString s) = Inr p \<and> cell_carries db e ti p (VBytes (str_bytes m))"
proof -
  obtain xs where xs: "money_bytes (Size ti) dec = Inr xs" "int (length xs) = Size ti"
    "(if Size ti = 4 then decodeMoney4 xs else decodeMoney xs) = Inr m"
    using money_bytes_value [OF assms(3,5) StringToDecimalScale_limbs [OF assms(4)]] assms(6) by auto
  have "bulk_makeParam d loc ti (RString s) = Inr (with_buf ti (Some xs))"
    using assms(2,4) xs(1) by (auto simp: bulk_plain column_param_def Let_def type_ids money_value_def)
  moreover have "cell_carries db e ti (with_buf ti (Some xs)) (VBytes (str_bytes m))"
  proof (rule sized_cell [OF assms(1), where xs = xs])
    have l: "length xs = nat (Size ti)" using xs(2) by simp
    show "fixed_value (TypeId ti) xs (GetTimezone e) = Inr (VBytes (str_bytes m))" if "is_fixed (TypeId ti)"
    proof -
      have "Size ti = fixed_size (TypeId ti)" "TypeId ti \<in> {typeMoney, typeMoney4}"
        using that assms(1,2) by (auto simp: sized_column_def kind_defs)
      then show ?thesis using xs(3) by (elim insertE emptyE) (simp_all add: fixed_value_def fixed_size_def type_ids vmap_def)
    qed
    show "bytelen_value db r xs e = Inr (VBytes (str_bytes m))" if "\<not> is_fixed (TypeId ti)" "TypeId r = TypeId ti" for r
    proof -
      have "TypeId r = typeMoneyN" using that assms(2) by (auto simp: kind_defs)
      then have "bytelen_value db r xs e = (if length xs = 4 then vmap (\<lambda>s. VBytes (str_bytes s)) (decodeMoney4 xs)
         else if length xs = 8 then vmap (\<lambda>s. VBytes (str_bytes s)) (decodeMoney xs) else Inl (StreamPanicf ''Invalid size for MONEYNTYPE''))"
        by (simp add: bytelen_value_def Let_def kind_defs)
      with assms(3) xs(3) l show ?thesis by (elim insertE emptyE) (simp_all add: vmap_def)
    qed
    show "Size (par_ti (with_buf ti (Some xs))) \<le> 0xff" "0 < Size ti" using assms(3) by (auto simp: with_buf_def)
    show "par_buffer (with_buf ti (Some xs)) = Some xs" by (simp add: with_buf_def)
  qed (use assms(2) xs(2) in blast)+
  ultimately show ?thesis by blast
qed

lemma decimal_column:
  assumes "sized_column ti" "is_decimal (TypeId ti)" "decimal_value d (Scale ti) v = Inr dec"
    "nat \<bar>BigInt dec\<bar> < 256 ^ decimal_length (Prec ti)" "int (decimal_length (Prec ti)) < Size ti"
    "ScaleBytes (show_int (BigInt dec)) (unat (Scale ti)) = Inr s"
  shows "\<exists>p. bulk_makeParam d loc ti v = Inr p \<and> cell_carries db e ti p (VBytes (str_bytes s))"
proof -
  have k: "is_bytelen (TypeId ti)" "\<not> is_fixed (TypeId ti)" "\<not> is_shortlen (TypeId ti)" "TypeId ti \<noteq> typeGuid" "TypeId ti \<noteq> typeDateN"
    "\<not> is_scaled_time (TypeId ti)"
    using assms(2) by (auto simp: kind_defs)
  have "BigInt (SetPrec (Prec ti) dec) = BigInt dec" by (simp add: BigInt_def SetPrec_def)
  then have "length (UnscaledBytes (SetPrec (Prec ti) dec)) \<le> decimal_length (Prec ti)"
    using assms(4) by (simp add: UnscaledBytes_def length_nat_Bytes)
  then obtain xs where xs: "decimal_bytes (Prec ti) dec = Inr xs" by (simp add: decimal_bytes_def Let_def)
  note dv = decimal_bytes_value [OF xs]
  have l: "length xs \<le> 17" using dv by (simp add: decimal_length_def split: if_splits)
  have "bulk_makeParam d loc ti v = Inr (sized_buf ti (Some xs))"
    using assms(2,3) xs by (auto simp: converted_plain(6) [OF assms(3)] column_param_def Let_def kind_defs sized_param_def)
  moreover have "cell_carries db e ti (sized_buf ti (Some xs)) (VBytes (str_bytes s))"
  proof (rule bytelen_cell)
    have r: "TypeId (received ti False) = TypeId ti" "Scale (received ti False) = Scale ti" "Size (received ti False) = Size ti"
      using k assms(2) by (simp_all add: received_def set_size_def Let_def)
    show "int (length xs) \<le> Size (received ti False)" using r(3) dv assms(5) by simp
    have n: "TypeId ti \<noteq> typeTimeN" "TypeId ti \<noteq> typeDateTime2N" "TypeId ti \<noteq> typeDateTimeOffsetN" "TypeId ti \<noteq> typeIntN"
      using assms(2) by (auto simp: kind_defs)
    show "bytelen_value db (received ti False) xs e = Inr (VBytes (str_bytes s))"
      using k n assms(2,6) dv by (simp add: bytelen_value_def r vmap_def)
  qed (use assms(1) k l dv in \<open>auto simp: sized_buf_def obytes_def\<close>)
  ultimately show ?thesis by blast
qed

lemma arrives_carries:
  assumes "arrives d db e ti v w" "sized_column ti"
  shows "\<exists>p. bulk_makeParam d (GetTimezone e) ti v = Inr p \<and> cell_carries db e ti p w"
  using assms
proof (induction rule: arrives.induct)
  case (null ti)
  then show ?case using carries_null [of ti "mk (TypeId ti) 0 None"] by (auto simp: bulk_makeParam_def sized_column_def)
next
  case (valuer i x ti w)
  then obtain p where p: "bulk_makeParam d (GetTimezone e) ti (of_dvalue x) = Inr p" "cell_carries db e ti p w" by blast
  then have "bulk_makeParam d (GetTimezone e) ti (RValuer i) = Inr p"
    using valuer.hyps(1) by (cases x) (simp_all add: bulk_makeParam_def)
  with p show ?case by blast
next
  case (nchar ti s)
  then show ?case using decodeNChar_str2ucs2 [of s] by (intro nchar_column) (auto simp: room_def)
next
  case (bin ti xs)
  then show ?case using bin_column binary_plain by blast
next
  case (guid ti xs)
  then show ?case using guid_column(1) binary_plain by blast
next
  case (no_guid ti)
  then show ?case using guid_column(2) binary_plain by blast
qed (rule nil_column int_column float_column nchar_column char_column bit_column datetime2_column offset_column date_column clock_column
    datetime_column smalldatetime_column money_column decimal_column; assumption)+

section \<open>Rows\<close>

text \<open>A column of the load, and how the receiver sees it.\<close>

definition as_column :: "columnStruct \<Rightarrow> column" where
  "as_column c = \<lparr>cUserType = col_UserType c, cFlags = col_Flags c, cType = col_ti c, cName = ColName c\<rparr>"

definition seen :: "columnStruct \<Rightarrow> columnStruct" where
  "seen c = seen_column (as_column c)"

definition with_writer :: "columnStruct \<Rightarrow> columnStruct" where
  "with_writer c = c\<lparr>col_ti := (col_ti c)\<lparr>Writer := Some (sent_writer (col_ti c) False)\<rparr>\<rparr>"

fun row_arrives :: "bdeps \<Rightarrow> dbcs \<Rightarrow> EncodeParameters \<Rightarrow> columnStruct list \<Rightarrow> rowval list \<Rightarrow> val list \<Rightarrow> bool" where
  "row_arrives d db e [] [] [] \<longleftrightarrow> True"
| "row_arrives d db e (c # cs) (v # vs) (w # ws) \<longleftrightarrow> arrives d db e (col_ti c) v w \<and> row_arrives d db e cs vs ws"
| "row_arrives d db e _ _ _ \<longleftrightarrow> False"

definition load_column :: "columnStruct \<Rightarrow> bool" where
  "load_column c \<longleftrightarrow> sized_column (col_ti c) \<and> str_ok 0xFF (ColName c) \<and> \<not> isEncryptedFlag (col_Flags c)"

lemma load_column_described: "load_column c \<Longrightarrow> described (as_column c)"
  by (simp add: load_column_def described_def as_column_def sized_column_def)

lemma makeParam_Writer: "bulk_makeParam d loc (ti\<lparr>Writer := w\<rparr>) v = bulk_makeParam d loc ti v"
proof -
  have f: "TypeId (ti\<lparr>Writer := w\<rparr>) = TypeId ti" "Size (ti\<lparr>Writer := w\<rparr>) = Size ti"
    "Scale (ti\<lparr>Writer := w\<rparr>) = Scale ti" "Prec (ti\<lparr>Writer := w\<rparr>) = Prec ti" by simp_all
  show ?thesis by (simp only: bulk_makeParam_def column_param_def with_buf_def sized_buf_def sized_param_def f)
qed

lemma row_cells_ok:
  assumes "list_all load_column cs" "row_arrives d (d_dbcs dp) e cs vs ws"
  shows "\<exists>B. bytes_buffer.emits (row_cells d e (map with_writer cs) vs) B () \<and> reads (parseRow dp e (map seen cs)) B ws"
  using assms
proof (induction d "d_dbcs dp" e cs vs ws rule: row_arrives.induct)
  case (1 d e)
  then show ?case by (auto simp: reads_ret intro!: exI [of _ "[]"])
next
  case (2 d e c cs v vs w ws)
  from 2 obtain B where B: "bytes_buffer.emits (row_cells d e (map with_writer cs) vs) B ()"
    "reads (parseRow dp e (map seen cs)) B ws" by auto
  have c: "sized_column (col_ti c)" "\<not> isEncrypted (seen c)"
    using 2(2) by (auto simp: load_column_def isEncrypted_def seen_def seen_column_def as_column_def)
  obtain p where p: "bulk_makeParam d (GetTimezone e) (col_ti c) v = Inr p" "cell_carries (d_dbcs dp) e (col_ti c) p w"
    using arrives_carries [OF _ c(1), of d "d_dbcs dp" e v w] 2(3) by auto
  obtain C where C: "bytes_buffer.emits (write_value buffer_write ((par_ti p)\<lparr>Writer := Some (sent_writer (col_ti c) False)\<rparr>) (par_buffer p) e) C ()"
    "reads (read_value (d_dbcs dp) (received (col_ti c) False) False e) C w"
    using p(2) by (auto simp: cell_carries_def)
  have pw: "bulk_makeParam d (GetTimezone e) (col_ti (with_writer c)) v = Inr p"
    using p(1) by (simp add: with_writer_def makeParam_Writer)
  have "bytes_buffer.emits (row_cells d e (map with_writer (c # cs)) (v # vs)) (C @ B) ()"
    using bytes_buffer.emits_then [OF C(1) B(1)] pw by (simp add: gfault_def with_writer_def)
  moreover have "reads (parseRow dp e (map seen (c # cs))) (C @ B) (w # ws)"
  proof -
    have rd: "reads (read_value (d_dbcs dp) (col_ti (seen c)) False e) C w"
      using C(2) by (simp add: seen_def seen_column_def as_column_def read_value_frame TypeId_received)
    from reads_bind [where f = "\<lambda>content. gbind (if content = VNil \<or> \<not> isEncrypted (seen c) then gret content
              else gfault (read_cell dp e (seen c) content)) (\<lambda>v.
         gbind (parseRow dp e (map seen cs)) (\<lambda>vs. gret (v # vs)))", OF rd] reads_map [where f = "(#) w", OF B(2)]
    show ?thesis by (simp add: c(2))
  qed
  ultimately show ?case by blast
qed simp_all

lemma makeRowData_ok:
  assumes "list_all load_column cs" "row_arrives d (d_dbcs dp) e cs vs ws"
  shows "\<exists>B. makeRowData d e (map with_writer cs) vs = Inr (tokenRow # B) \<and> reads (parseRow dp e (map seen cs)) B ws"
proof -
  obtain B where B: "bytes_buffer.emits (row_cells d e (map with_writer cs) vs) B ()" "reads (parseRow dp e (map seen cs)) B ws"
    using row_cells_ok [OF assms] by blast
  have "bytes_buffer.emits (gthen (io_Write buffer_write [tokenRow]) (row_cells d e (map with_writer cs) vs)) ([tokenRow] @ B) ()"
    by (rule bytes_buffer.emits_then [OF bytes_buffer.emits_Write B(1)])
  from bytes_buffer.emitsD [OF this refl, of "[]"] B(2) show ?thesis by (auto simp: makeRowData_def)
qed

section \<open>The column metadata\<close>

lemma write_column_ok:
  assumes "described (as_column c)" "verTDS72 \<le> ver"
  shows "bytes_buffer.emits (write_column ver table c) (column_bytes (as_column c)) (with_writer c)"
proof -
  let ?ti = "col_ti c"
  have ok: "sendable ?ti" "utf16_len (ColName c) \<le> 0xFF" using assms(1) by (auto simp: described_def str_ok_def as_column_def)
  then have lob: "\<not> is_lob (TypeId ?ti)" by (auto simp: sendable_def is_lob_def kind_defs Let_def)
  have n: "length (str2ucs2 (ColName c)) div 2 = utf16_len (ColName c)" by (simp add: length_str2ucs2 utf16_len_def)
  have name: "bytes_buffer.emits (gthen (binary_Write buffer_write 1 (word_of_nat (utf16_len (ColName c)) :: byte))
        (gthen (io_Write buffer_write (str2ucs2 (ColName c))) (gret x))) ([word_of_nat (utf16_len (ColName c))] @ str2ucs2 (ColName c)) x" for x :: columnStruct
    by (rule bytes_buffer.emits_then [OF bytes_buffer.emits_byte bytes_buffer.emits_then_ret [OF bytes_buffer.emits_Write]])
  have "write_column ver table c = gthen (binary_Write buffer_write 4 (col_UserType c)) (gthen (binary_Write buffer_write 2 (col_Flags c))
      (gbind (writeTypeInfo buffer_write ?ti False) (\<lambda>ti. gthen (binary_Write buffer_write 1 (word_of_nat (utf16_len (ColName c)) :: byte))
        (gthen (io_Write buffer_write (str2ucs2 (ColName c))) (gret (c\<lparr>col_ti := ti\<rparr>))))))"
    using assms(2) lob by (simp add: write_column_def n Let_def gthen_def)
  moreover have "bytes_buffer.emits \<dots> (le_bytes 4 (col_UserType c) @ le_bytes 2 (col_Flags c) @ typeinfo_bytes ?ti False
      @ [word_of_nat (utf16_len (ColName c))] @ str2ucs2 (ColName c)) (with_writer c)"
    unfolding with_writer_def
    by (rule bytes_buffer.emits_then bytes_buffer.emits_binary_Write bytes_buffer.emits_bind bytes_buffer.emits_TypeInfo [OF ok(1)] name)+
  ultimately show ?thesis by (simp add: column_bytes_def as_column_def bvarchar_def)
qed

lemma write_columns_ok:
  assumes "list_all (\<lambda>c. described (as_column c)) cs" "verTDS72 \<le> ver"
  shows "bytes_buffer.emits (write_columns ver table cs) (concat (map column_bytes (map as_column cs))) (map with_writer cs)"
  using assms(1)
proof (induction cs)
  case (Cons c cs)
  have "bytes_buffer.emits (gbind (write_columns ver table cs) (\<lambda>cs. gret (with_writer c # cs)))
      (concat (map column_bytes (map as_column cs)) @ []) (with_writer c # map with_writer cs)"
    by (rule bytes_buffer.emits_bind) (use Cons in auto)
  with Cons.prems bytes_buffer.emits_bind [OF write_column_ok [of c ver table]] assms(2) show ?case by simp
qed auto

definition metadata_bytes :: "columnStruct list \<Rightarrow> bytes" where
  "metadata_bytes cs = tokenColMetadata # le_bytes 2 (word_of_nat (length cs) :: u16) @ concat (map column_bytes (map as_column cs))"

lemma createColMetadata_ok:
  assumes "list_all (\<lambda>c. described (as_column c)) cs" "verTDS72 \<le> ver"
  shows "createColMetadata ver False table cs = Inr (metadata_bytes cs, map with_writer cs)"
proof -
  have "bytes_buffer.emits (gthen (io_Write buffer_write [tokenColMetadata]) (gthen (binary_Write buffer_write 2 (word_of_nat (length cs) :: u16))
      (gthen (gret ()) (write_columns ver table cs))))
      ([tokenColMetadata] @ le_bytes 2 (word_of_nat (length cs) :: u16) @ [] @ concat (map column_bytes (map as_column cs))) (map with_writer cs)"
    by (rule bytes_buffer.emits_then bytes_buffer.emits_Write bytes_buffer.emits_binary_Write bytes_buffer.emits_ret write_columns_ok [OF assms])+
  from bytes_buffer.emitsD [OF this refl, of "[]"] show ?thesis by (auto simp: createColMetadata_def metadata_bytes_def)
qed

section \<open>The load\<close>

text \<open>Only the buffer of the session changes while rows are sent.\<close>

definition with_buffer :: "Conn \<Rightarrow> tdsBuffer \<Rightarrow> Conn" where
  "with_buffer c w = c\<lparr>cn_sess := (cn_sess c)\<lparr>s_buf := w\<rparr>\<rparr>"

lemma with_buffer_simps [simp]:
  "s_buf (cn_sess (with_buffer c w)) = w" "s_encoding (cn_sess (with_buffer c w)) = s_encoding (cn_sess c)"
  "s_alwaysEncrypted (cn_sess (with_buffer c w)) = s_alwaysEncrypted (cn_sess c)" "with_buffer (with_buffer c w) w' = with_buffer c w'"
  by (simp_all add: with_buffer_def)

lemma conn_buf_run: "m (s_buf (cn_sess c)) = (r, w) \<Longrightarrow> conn_buf m c = (r, with_buffer c w)"
  by (simp add: conn_buf_def on_buf_def with_buffer_def)

lemma write_buf_writing:
  assumes "writing w0 M (s_buf (cn_sess c))"
  shows "\<exists>w. write_buf p c = (Inr None, with_buffer c w) \<and> writing w0 (M @ p) w"
proof -
  obtain w where w: "io_Write Write p (s_buf (cn_sess c)) = (Inr (), w)" "writing w0 (M @ p) w"
    using tds_sink.emitsD [OF tds_sink.emits_Write assms] by blast
  from conn_buf_run [of "io_Write Write p", OF w(1)] w(2) show ?thesis by (auto simp: write_buf_def)
qed

text \<open>Whether the driver takes a row: it has as many values as there are columns and each is converted and written. \<open>row_data\<close> is what it then writes.\<close>

definition accepted :: "bdeps \<Rightarrow> EncodeParameters \<Rightarrow> columnStruct list \<Rightarrow> rowval list \<Rightarrow> bool" where
  "accepted d e cs row \<longleftrightarrow> length row = length cs \<and> \<not> isl (makeRowData d e (map with_writer cs) row)"

definition row_data :: "bdeps \<Rightarrow> EncodeParameters \<Rightarrow> columnStruct list \<Rightarrow> rowval list \<Rightarrow> bytes" where
  "row_data d e cs row = projr (makeRowData d e (map with_writer cs) row)"

text \<open>A conversion panics on a bool of an application's own type, and where the size of a column is none of its type.\<close>

definition panics :: "bdeps \<Rightarrow> EncodeParameters \<Rightarrow> columnStruct list \<Rightarrow> rowval list \<Rightarrow> bool" where
  "panics d e cs row \<longleftrightarrow> length row = length cs \<and> (case makeRowData d e (map with_writer cs) row of Inl (Err _) \<Rightarrow> False | Inl _ \<Rightarrow> True | Inr _ \<Rightarrow> False)"

fun run_rows :: "benv \<Rightarrow> rowval list list \<Rightarrow> Bulk \<times> Conn \<Rightarrow> (fault + derr option) list \<times> Bulk \<times> Conn" where
  "run_rows E [] s = ([], s)"
| "run_rows E (r # rs) s = (case AddRow E r s of (x, s) \<Rightarrow> case run_rows E rs s of (xs, s) \<Rightarrow> (x # xs, s))"

definition read_row :: "deps \<Rightarrow> EncodeParameters \<Rightarrow> columnStruct list \<Rightarrow> (tdsBuffer, val list) go" where
  "read_row dp e cols = gbind r_byte (\<lambda>t. if t = tokenRow then parseRow dp e cols else graise (Err (ErrMsg ''not a row'')))"

lemma reads_rows:
  assumes "list_all2 (\<lambda>B ws. reads m B ws) Bs wss"
  shows "reads (repeat (length wss) m) (concat Bs) wss"
  using assms
proof (induction rule: list_all2_induct)
  case (Cons B Bs ws wss)
  have "reads (gbind (repeat (length wss) m) (\<lambda>ys. gret (ws # ys))) (concat Bs) (ws # wss)"
    by (rule reads_map [where f = "(#) ws"]) (use Cons in simp)
  with Cons.hyps(1) show ?case by (simp add: reads_bind)
qed (simp add: reads_ret)

lemma reads_row:
  assumes "list_all load_column cs" "row_arrives d (d_dbcs dp) e cs row ws"
  shows "reads (read_row dp e (map seen cs)) (row_data d e cs row) ws"
proof -
  obtain B where "makeRowData d e (map with_writer cs) row = Inr (tokenRow # B)" "reads (parseRow dp e (map seen cs)) B ws"
    using makeRowData_ok [OF assms] by blast
  then show ?thesis by (auto simp: read_row_def row_data_def intro!: reads_byte_then)
qed

lemma add_row_outcome:
  assumes "\<not> panics (be_deps E) e cs row" "s_encoding (cn_sess c) = e"
    "bk_headerSent b" "bk_bulkColumns b = map with_writer cs" "writing w0 M (s_buf (cn_sess c))"
  shows "\<exists>w. AddRow E row (b, c) = (Inr (if accepted (be_deps E) e cs row then None else Some DOther),
       (b\<lparr>bk_numRows := bk_numRows b + length (filter (accepted (be_deps E) e cs) [row])\<rparr>, with_buffer c w))
     \<and> writing w0 (M @ concat (map (row_data (be_deps E) e cs) (filter (accepted (be_deps E) e cs) [row]))) w"
proof (cases "accepted (be_deps E) e cs row")
  case False
  have c: "with_buffer c (s_buf (cn_sess c)) = c" by (simp add: with_buffer_def)
  have "AddRow E row (b, c) = (Inr (Some DOther), (b, c))"
  proof (cases "length row = length cs")
    case True
    with False obtain f where "makeRowData (be_deps E) e (map with_writer cs) row = Inl f" by (auto simp: accepted_def isl_def)
    with True assms(1-4) show ?thesis by (cases f) (auto simp: AddRow_def add_row_def panics_def)
  qed (use assms(3,4) in \<open>simp add: AddRow_def add_row_def\<close>)
  with False assms(5) c show ?thesis by (intro exI [of _ "s_buf (cn_sess c)"]) simp
next
  case True
  then have r: "length row = length cs" "makeRowData (be_deps E) e (map with_writer cs) row = Inr (row_data (be_deps E) e cs row)"
    by (cases "makeRowData (be_deps E) e (map with_writer cs) row"; simp add: accepted_def row_data_def)+
  obtain w where w: "write_buf (row_data (be_deps E) e cs row) c = (Inr None, with_buffer c w)" "writing w0 (M @ row_data (be_deps E) e cs row) w"
    using write_buf_writing [OF assms(5)] by blast
  have "AddRow E row (b, c) = (Inr None, (b\<lparr>bk_numRows := bk_numRows b + 1\<rparr>, with_buffer c w))"
    using r w(1) assms(2-4) by (simp add: AddRow_def add_row_def obind_def on_conn_def set_bulk_def gthen_def gbind_def gret_def)
  with True w(2) show ?thesis by (intro exI [of _ w]) simp
qed

lemma run_rows_outcome:
  assumes "list_all (\<lambda>row. \<not> panics (be_deps E) e cs row) rows" "s_encoding (cn_sess c) = e"
    "bk_headerSent b" "bk_bulkColumns b = map with_writer cs" "writing w0 M (s_buf (cn_sess c))"
  shows "\<exists>w. run_rows E rows (b, c) = (map (\<lambda>row. Inr (if accepted (be_deps E) e cs row then None else Some DOther)) rows,
       (b\<lparr>bk_numRows := bk_numRows b + length (filter (accepted (be_deps E) e cs) rows)\<rparr>, with_buffer c w))
     \<and> writing w0 (M @ concat (map (row_data (be_deps E) e cs) (filter (accepted (be_deps E) e cs) rows))) w"
  using assms
proof (induction rows arbitrary: b c M)
  case Nil
  have "with_buffer c (s_buf (cn_sess c)) = c" by (simp add: with_buffer_def)
  with Nil show ?case by (intro exI [of _ "s_buf (cn_sess c)"]) simp
next
  case (Cons row rows)
  let ?a = "accepted (be_deps E) e cs" and ?d = "row_data (be_deps E) e cs"
  have p: "\<not> panics (be_deps E) e cs row" using Cons.prems(1) by simp
  from add_row_outcome [OF p Cons.prems(2-5)]
  obtain w1 where 1: "AddRow E row (b, c) = (Inr (if ?a row then None else Some DOther),
       (b\<lparr>bk_numRows := bk_numRows b + length (filter ?a [row])\<rparr>, with_buffer c w1))"
    "writing w0 (M @ concat (map ?d (filter ?a [row]))) w1" by blast
  let ?b = "b\<lparr>bk_numRows := bk_numRows b + length (filter ?a [row])\<rparr>" and ?c = "with_buffer c w1"
  from Cons.IH [of ?c ?b "M @ concat (map ?d (filter ?a [row]))"] Cons.prems 1(2)
  obtain w2 where 2: "run_rows E rows (?b, ?c) = (map (\<lambda>row. Inr (if ?a row then None else Some DOther)) rows,
       (?b\<lparr>bk_numRows := bk_numRows ?b + length (filter ?a rows)\<rparr>, with_buffer ?c w2))"
    "writing w0 ((M @ concat (map ?d (filter ?a [row]))) @ concat (map ?d (filter ?a rows))) w2" by auto
  show ?case using 1(1) 2 by (intro exI [of _ w2]) (cases "?a row"; simp)
qed

lemma start_load_ok:
  assumes "list_all load_column (bk_bulkColumns b)" "verTDS72 \<le> p_TDSVersion (e_pdeps (be_env E))" "\<not> s_alwaysEncrypted (cn_sess c)"
    "wbuf_ok (s_buf (cn_sess c))"
  shows "\<exists>w. start_load E (b, c) = (Inr None, (b\<lparr>bk_headerSent := True, bk_bulkColumns := map with_writer (bk_bulkColumns b)\<rparr>, with_buffer c w))
     \<and> writing (begun packBulkLoadBCP False (s_buf (cn_sess c))) (metadata_bytes (bk_bulkColumns b)) w"
proof -
  let ?w0 = "begun packBulkLoadBCP False (s_buf (cn_sess c))" and ?c = "with_buffer c (begun packBulkLoadBCP False (s_buf (cn_sess c)))"
  note bp = BeginPacket_writing [OF assms(4), of packBulkLoadBCP False]
  have m: "createColMetadata (p_TDSVersion (e_pdeps (be_env E))) False (bk_tablename b) (bk_bulkColumns b)
      = Inr (metadata_bytes (bk_bulkColumns b), map with_writer (bk_bulkColumns b))"
    using assms(1,2) by (intro createColMetadata_ok) (auto simp: list_all_iff load_column_described)
  obtain w where w: "write_buf (metadata_bytes (bk_bulkColumns b)) ?c = (Inr None, with_buffer ?c w)"
    "writing ?w0 ([] @ metadata_bytes (bk_bulkColumns b)) w"
    using write_buf_writing [of ?w0 "[]" ?c] bp(2) by auto
  then show ?thesis
    using conn_buf_run [of "BeginPacket packBulkLoadBCP False" c, OF bp(1)] m assms(3)
    by (intro exI [of _ w]) (simp add: start_load_def gthen_def gbind_def set_bulk_def on_conn_def)
qed

definition done_bytes :: bytes where
  "done_bytes = tokenDone # le_bytes 2 (0 :: u16) @ le_bytes 2 (0 :: u16) @ le_bytes 8 (0 :: u64)"

lemma ignoring_emits: "tds_sink.emits w0 m xs x \<Longrightarrow> tds_sink.emits w0 (ignoring m) xs ()"
  unfolding tds_sink.emits_def ignoring_def by fastforce

lemma WriteByte_emits: "tds_sink.emits w0 (WriteByte t) [t] ()"
  unfolding tds_sink.emits_def using WriteByte_writing by blast

lemma finish_load_ok:
  assumes "writing w0 M w" "verTDS72 \<le> ver"
  shows "\<exists>w'. finish_load ver w = (Inr (), w') \<and> wbuf_ok w' \<and> t_out (transport w') = t_out (transport w0) @ message w0 (M @ done_bytes)"
proof -
  let ?m = "gthen (ignoring (WriteByte tokenDone)) (gthen (ignoring (binary_Write Write 2 (0 :: u16)))
      (gthen (ignoring (binary_Write Write 2 (0 :: u16))) (ignoring (binary_Write Write 8 (0 :: u64)))))"
  have "tds_sink.emits w0 ?m ([tokenDone] @ le_bytes 2 (0 :: u16) @ le_bytes 2 (0 :: u16) @ le_bytes 8 (0 :: u64)) ()"
    by (rule tds_sink.emits_then ignoring_emits WriteByte_emits tds_sink.emits_binary_Write)+
  from tds_sink.emitsD [OF this assms(1)] obtain w1 where w1: "?m w = (Inr (), w1)" "writing w0 (M @ done_bytes) w1"
    by (auto simp: done_bytes_def)
  obtain w2 where w2: "FinishPacket w1 = (Inr (), w2)" "wbuf_ok w2" "t_out (transport w2) = t_out (transport w0) @ message w0 (M @ done_bytes)"
    using FinishPacket_writing [OF w1(2)] by blast
  have "finish_load ver = gthen ?m (ignoring FinishPacket)" using assms(2) by (simp add: finish_load_def gthen_def gbind_assoc)
  then show ?thesis using w1(1) w2 by (simp add: gthen_def gbind_def ignoring_def)
qed

text \<open>The receiver of a load: the columns, as many rows as come, and the end.\<close>

definition read_load :: "deps \<Rightarrow> EncodeParameters \<Rightarrow> nat \<Rightarrow> (tdsBuffer, columnStruct list \<times> val list list) go" where
  "read_load dp e n =
     gbind r_byte (\<lambda>t. if t \<noteq> tokenColMetadata then graise (Err (ErrMsg ''no columns'')) else
       gbind (parseColMetadata72 dp False) (\<lambda>cols.
         gbind (repeat n (read_row dp e cols)) (\<lambda>rows.
           gbind r_byte (\<lambda>t. if t \<noteq> tokenDone then graise (Err (ErrMsg ''no end'')) else
             gthen r_uint16 (gthen r_uint16 (gthen r_uint64 (gret (cols, rows))))))))"

lemma reads_load:
  assumes "list_all load_column cs" "length cs < 0xffff"
    "list_all2 (\<lambda>B ws. reads (read_row dp e (map seen cs)) B ws) Bs wss"
  shows "reads (read_load dp e (length wss)) (metadata_bytes cs @ concat Bs @ done_bytes) (map seen cs, wss)"
proof -
  let ?k = "\<lambda>rows. gbind r_byte (\<lambda>t. if t \<noteq> tokenDone then graise (Err (ErrMsg ''no end'')) else
      gthen r_uint16 (gthen r_uint16 (gthen r_uint64 (gret (map seen cs, rows)))))"
  have end': "reads (?k rows) done_bytes (map seen cs, rows)" for rows :: "val list list"
  proof -
    have "reads (gthen r_uint16 (gthen r_uint16 (gthen r_uint64 (gret (map seen cs, rows)))))
        (le_bytes 2 (0 :: u16) @ le_bytes 2 (0 :: u16) @ le_bytes 8 (0 :: u64) @ []) (map seen cs, rows)"
      by (rule reads_then reads_uint16 reads_uint64 reads_ret)+
    then show ?thesis by (auto simp: done_bytes_def intro!: reads_byte_then)
  qed
  have rows: "reads (gbind (repeat (length wss) (read_row dp e (map seen cs))) ?k) (concat Bs @ done_bytes) (map seen cs, wss)"
    by (rule reads_bind [where f = ?k, OF reads_rows end']) (rule assms(3))
  have "reads (parseColMetadata72 dp False) (le_bytes 2 (word_of_nat (length (map as_column cs)) :: u16) @ concat (map column_bytes (map as_column cs)))
      (map seen_column (map as_column cs))"
    by (rule reads_Columns) (use assms(1,2) in \<open>auto simp: list_all_iff load_column_described\<close>)
  moreover have eq: "map seen_column (map as_column cs) = map seen cs" by (simp add: seen_def)
  ultimately have cols: "reads (parseColMetadata72 dp False)
      (le_bytes 2 (word_of_nat (length cs) :: u16) @ concat (map column_bytes (map as_column cs))) (map seen cs)"
    by (simp only: eq length_map)
  have "reads (gbind (parseColMetadata72 dp False) (\<lambda>cols. gbind (repeat (length wss) (read_row dp e cols)) (\<lambda>rows.
           gbind r_byte (\<lambda>t. if t \<noteq> tokenDone then graise (Err (ErrMsg ''no end'')) else
             gthen r_uint16 (gthen r_uint16 (gthen r_uint64 (gret (cols, rows))))))))
      ((le_bytes 2 (word_of_nat (length cs) :: u16) @ concat (map column_bytes (map as_column cs))) @ concat Bs @ done_bytes) (map seen cs, wss)"
    by (rule reads_bind [where f = "\<lambda>cols. gbind (repeat (length wss) (read_row dp e cols)) (\<lambda>rows.
           gbind r_byte (\<lambda>t. if t \<noteq> tokenDone then graise (Err (ErrMsg ''no end'')) else
             gthen r_uint16 (gthen r_uint16 (gthen r_uint64 (gret (cols, rows))))))", OF cols rows])
  then show ?thesis unfolding read_load_def metadata_bytes_def by (auto intro!: reads_byte_then)
qed

section \<open>Preparing a bulk copy\<close>

text \<open>
  The text that \<open>CopyIn\<close> makes is prepared as the bulk copy it describes, if \<open>encoding/json\<close> reads back
  what it wrote.
\<close>

lemma PrepareContext_CopyIn:
  assumes "b_Marshal d (table, cols, opt) = Inr j" "b_Unmarshal d j = Inr (table, cols, opt)" "cn_connectionGood c"
  shows "\<exists>q. CopyIn d table opt cols = Inr q \<and> PrepareContext d q c
     = Inr (CopyStmt \<lparr>ci_bulkcopy = (CreateBulkContext table cols)\<lparr>bk_Options := opt\<rparr>, ci_closed = False\<rparr>)"
proof -
  have "EqualFold ''INSERTBULK'' ''INSERTBULK''" by (simp add: EqualFold_def)
  with assms show ?thesis by (simp add: CopyIn_def PrepareContext_def prepareCopyIn_def)
qed

text \<open>A finished bulk copy takes neither rows nor another end.\<close>

lemma copyin_closed_once:
  assumes "copyin_Exec E [] ci c = (Inr r, ci', c')"
  shows "ci_closed ci' \<and> copyin_Exec E v ci' c'' = (Inr (Some DOther, 0), ci', c'')"
  using assms by (auto simp: copyin_Exec_def split: if_splits sum.splits prod.splits)

section \<open>Values that arrive otherwise\<close>

text \<open>A nil in a column of a fixed length takes no bytes at all: the receiver reads the following values in its place.\<close>

lemma null_fixed_no_bytes:
  assumes "is_fixed (TypeId (col_ti c))"
  shows "makeRowData d e [with_writer c] [RNil] = Inr [tokenRow]"
  using assms by (simp add: makeRowData_def bulk_makeParam_def gfault_def gthen_def gbind_def gret_def with_writer_def
      write_value_def sent_writer_def io_Write_def buffer_write_def kind_fixed obytes_def Let_def writeFixedType_def)

section \<open>The stream of a load\<close>

text \<open>
  C12. A bulk load is one message. From a connection that has accepted the \<open>INSERT BULK\<close> statement, \<open>AddRow\<close> takes a row exactly when it has a value for each column and the
  conversion of each value succeeds (\<open>accepted\<close>, the driver's own decision); it then sends the row whole, and of a row it refuses it sends nothing; \<open>Done\<close>
  closes the message. Its packets are of the bulk-load type, its bytes are the metadata of the columns, the accepted rows in order and the end, and the count of rows is theirs.
  A receiver that reads the load finds the columns and, when every cell of the accepted rows is one of \<open>arrives\<close>, exactly the values \<open>arrives\<close> gives them, row by row.
  Accepted values that \<open>arrives\<close> leaves out are not claimed to be understood: NULL in a column of a fixed-length type, for which no bytes are sent at all (\<open>null_fixed_no_bytes\<close>), values longer than their column,
  \<open>uniqueidentifier\<close> values that are not 16 bytes, times beyond the range of their type (they are clamped; for \<open>datetime\<close> also the last day of the year 9999) and, in \<open>datetimeoffset\<close> columns, offsets that are no whole minutes, money beyond its range (it wraps around) and bytes of odd length in national character columns. Not covered are
  \<open>text\<close>, \<open>ntext\<close> and \<open>image\<close> columns, sessions with Always Encrypted, versions before TDS 7.2, and rows on which a conversion panics.
\<close>

theorem bulk_load_received:
  fixes b c E
  defines "cs \<equiv> bk_bulkColumns b" and "e \<equiv> s_encoding (cn_sess c)" and "d \<equiv> be_deps E" and "ver \<equiv> p_TDSVersion (e_pdeps (be_env E))"
  assumes "wbuf_ok (s_buf (cn_sess c))" "verTDS72 \<le> ver" "\<not> s_alwaysEncrypted (cn_sess c)"
    and "list_all load_column cs" "length cs < 0xffff" "list_all (\<lambda>row. \<not> panics d e cs row) rows"
  shows "\<exists>s1 b2 c2 c3 M. start_load E (b, c) = (Inr None, s1)
     \<and> run_rows E rows s1 = (map (\<lambda>row. Inr (if accepted d e cs row then None else Some DOther)) rows, (b2, c2))
     \<and> bk_numRows b2 = bk_numRows b + length (filter (accepted d e cs) rows) \<and> bk_headerSent b2
     \<and> conn_buf (finish_load ver) c2 = (Inr (), c3)
     \<and> t_out (transport (s_buf (cn_sess c3))) = t_out (transport (s_buf (cn_sess c))) @ message (begun packBulkLoadBCP False (s_buf (cn_sess c))) M
     \<and> wbuf_ok (s_buf (cn_sess c3))
     \<and> M = metadata_bytes cs @ concat (map (row_data d e cs) (filter (accepted d e cs) rows)) @ done_bytes
     \<and> (\<forall>dp wss. list_all2 (row_arrives d (d_dbcs dp) e cs) (filter (accepted d e cs) rows) wss \<longrightarrow>
          reads (read_load dp e (length wss)) M (map seen cs, wss))"
proof -
  let ?w0 = "begun packBulkLoadBCP False (s_buf (cn_sess c))" and ?rows = "filter (accepted d e cs) rows"
  let ?b1 = "b\<lparr>bk_headerSent := True, bk_bulkColumns := map with_writer cs\<rparr>"
  let ?M = "metadata_bytes cs @ concat (map (row_data d e cs) ?rows) @ done_bytes"
  obtain w1 where 1: "start_load E (b, c) = (Inr None, (?b1, with_buffer c w1))" "writing ?w0 (metadata_bytes cs) w1"
    using start_load_ok [of b E c] assms by auto
  from run_rows_outcome [of E e cs rows "with_buffer c w1" ?b1 ?w0 "metadata_bytes cs"] 1(2) assms(10)
  obtain w2 where 2: "run_rows E rows (?b1, with_buffer c w1) = (map (\<lambda>row. Inr (if accepted d e cs row then None else Some DOther)) rows,
       (?b1\<lparr>bk_numRows := bk_numRows ?b1 + length ?rows\<rparr>, with_buffer c w2))"
    "writing ?w0 (metadata_bytes cs @ concat (map (row_data d e cs) ?rows)) w2" by (auto simp: d_def e_def)
  obtain w3 where 3: "finish_load ver w2 = (Inr (), w3)" "wbuf_ok w3" "t_out (transport w3) = t_out (transport ?w0) @ message ?w0 ?M"
    using finish_load_ok [OF 2(2) assms(6)] by auto
  have "conn_buf (finish_load ver) (with_buffer c w2) = (Inr (), with_buffer c w3)"
    using conn_buf_run [of "finish_load ver" "with_buffer c w2"] 3(1) by simp
  moreover have "transport ?w0 = transport (s_buf (cn_sess c))" by (simp add: begun_def)
  moreover have "reads (read_load dp e (length wss)) ?M (map seen cs, wss)" if "list_all2 (row_arrives d (d_dbcs dp) e cs) ?rows wss" for dp wss
    by (rule reads_load [OF assms(8,9)])
      (use that reads_row [OF assms(8)] in \<open>auto simp: list_all2_map1 elim: list_all2_mono\<close>)
  ultimately show ?thesis using 1(1) 2(1) 3(2,3)
    by (intro exI [of _ "(?b1, with_buffer c w1)"] exI [of _ "?b1\<lparr>bk_numRows := bk_numRows ?b1 + length ?rows\<rparr>"]
        exI [of _ "with_buffer c w2"] exI [of _ "with_buffer c w3"] exI [of _ ?M]) simp
qed

section \<open>An example\<close>

definition ex_int_column :: columnStruct where
  "ex_int_column = \<lparr>col_UserType = 0, col_Flags = 0, ColName = ''id'', col_ti = typeInfo_zero\<lparr>TypeId := typeIntN, Size := 4\<rparr>, cryptoMeta = None\<rparr>"

definition ex_dec_column :: columnStruct where
  "ex_dec_column = \<lparr>col_UserType = 0, col_Flags = 1, ColName = ''n'',
     col_ti = typeInfo_zero\<lparr>TypeId := typeDecimalN, Size := 5, Prec := 9, Scale := 2\<rparr>, cryptoMeta = None\<rparr>"

definition ex_bdeps :: bdeps where
  "ex_bdeps = \<lparr>b_convert = (\<lambda>_. Inr DNil), b_ParseInLocation = (\<lambda>_ _ _. Inl EOF), b_int64 = (\<lambda>_. 0), b_nan32 = (\<lambda>_. 0), b_nan64 = (\<lambda>_. 0),
     b_Marshal = (\<lambda>_. Inl EOF), b_Unmarshal = (\<lambda>_. Inl EOF)\<rparr>"

definition ex_benv :: benv where
  "ex_benv = \<lparr>be_env = ex_denv (ex_answer []), be_keys = ex_keys, be_deps = ex_bdeps\<rparr>"

definition ex_Bulk :: Bulk where
  "ex_Bulk = (CreateBulkContext ''t'' [''id'', ''n''])\<lparr>bk_bulkColumns := [ex_int_column, ex_dec_column]\<rparr>"

lemma ex_columns_ok: "list_all load_column (bk_bulkColumns ex_Bulk)"
proof -
  have a: "list_all (\<lambda>c. code c < 128) s" if "s \<in> {''id'', ''n''}" for s using that by (auto simp: code_def)
  have "utf16_len s = length s" "valid_utf8 s" if "s \<in> {''id'', ''n''}" for s
    using that a [OF that] by (auto simp: utf16_len_def runes_ascii_string valid_ascii code_def)
  then have "str_ok 0xFF ''id''" "str_ok 0xFF ''n''" by (simp_all add: str_ok_def)
  then show ?thesis by (simp add: ex_Bulk_def ex_int_column_def ex_dec_column_def load_column_def sized_column_def column_ok_def as_column_def
        sendable_def kind_defs typeInfo_zero_def isEncryptedFlag_def colFlagEncrypted_def)
qed

text \<open>The integer 5 in a column \<open>decimal(9, 2)\<close> arrives as 0.05.\<close>

lemma int_decimal_arrives_divided: "arrives d db e (col_ti ex_dec_column) (RInt 5) (VBytes (str_bytes ''0.05''))"
proof (rule arrives.decimal)
  have b: "BigInt (of_int64 5) = 5" using Int64ToDecimalScale_value [of "word_of_int 5" 0] by (simp add: of_int64_def)
  show "decimal_value d (Scale (col_ti ex_dec_column)) (RInt 5) = Inr (of_int64 5)" by simp
  show "nat \<bar>BigInt (of_int64 5)\<bar> < 256 ^ decimal_length (Prec (col_ti ex_dec_column))"
    by (simp add: b decimal_length_def ex_dec_column_def)
  have "show_int 5 = ''5''" by code_simp
  then show "ScaleBytes (show_int (BigInt (of_int64 5))) (unat (Scale (col_ti ex_dec_column))) = Inr ''0.05''"
    by (simp add: b ScaleBytes_def ex_dec_column_def Let_def)
qed (simp_all add: ex_dec_column_def kind_defs decimal_length_def)

theorem bulk_load_received_witness:
  "\<exists>s1 b2 c2 c3 M. start_load ex_benv (ex_Bulk, ex_Conn False) = (Inr None, s1)
     \<and> run_rows ex_benv [[RInt64 (-7), RNil], [RString ''x'', RNil], [RNil, RInt 5]] s1 = ([Inr None, Inr (Some DOther), Inr None], (b2, c2))
     \<and> bk_numRows b2 = 2 \<and> conn_buf (finish_load (p_TDSVersion (e_pdeps (be_env ex_benv)))) c2 = (Inr (), c3)
     \<and> reads (read_load ex_deps (s_encoding (cn_sess (ex_Conn False))) 2) M
         (map seen (bk_bulkColumns ex_Bulk), [[VInt (-7), VNil], [VNil, VBytes (str_bytes ''0.05'')]])"
proof -
  let ?c = "ex_Conn False" and ?cs = "bk_bulkColumns ex_Bulk"
  let ?e = "s_encoding (cn_sess (ex_Conn False))" and ?d = "be_deps ex_benv"
  let ?rows = "[[RInt64 (-7), RNil], [RString ''x'', RNil], [RNil, RInt 5]]"
  let ?wss = "[[VInt (-7), VNil], [VNil, VBytes (str_bytes ''0.05'')]]"
  have n: "arrives d db e (col_ti ex_int_column) RNil VNil" "arrives d db e (col_ti ex_dec_column) RNil VNil" for d db e
    by (rule arrives.null; simp add: ex_int_column_def ex_dec_column_def kind_defs)+
  have "arrives d db e (col_ti ex_int_column) (RInt64 (-7)) (VInt (wrap_int (Size (col_ti ex_int_column)) (-7)))" for d db e
    by (rule arrives.int) (simp_all add: ex_int_column_def is_int_type_def)
  then have i: "arrives d db e (col_ti ex_int_column) (RInt64 (-7)) (VInt (-7))" for d db e
    by (simp add: ex_int_column_def wrap_int_fits signed_fits_def)
  have r: "makeRowData ?d ?e (map with_writer ?cs) [RString ''x'', RNil] = Inl (Err (ErrMsg ''mssql: invalid type for column''))"
    by (simp add: makeRowData_def bulk_makeParam_def column_param_def Let_def ex_Bulk_def ex_int_column_def with_writer_def gfault_def gthen_def gbind_def
        io_Write_def buffer_write_def gret_def graise_def invalid_def)
  have a: "row_arrives ?d (d_dbcs ex_deps) ?e ?cs (?rows ! 0) (?wss ! 0)" "row_arrives ?d (d_dbcs ex_deps) ?e ?cs (?rows ! 2) (?wss ! 1)"
    using n i int_decimal_arrives_divided by (simp_all add: ex_Bulk_def)
  obtain B0 B2 where B: "makeRowData ?d ?e (map with_writer ?cs) (?rows ! 0) = Inr (tokenRow # B0)"
    "makeRowData ?d ?e (map with_writer ?cs) (?rows ! 2) = Inr (tokenRow # B2)"
    using makeRowData_ok [OF ex_columns_ok a(1)] makeRowData_ok [OF ex_columns_ok a(2)] by blast
  have f: "map (accepted ?d ?e ?cs) ?rows = [True, False, True]" "list_all (\<lambda>row. \<not> panics ?d ?e ?cs row) ?rows" "filter (accepted ?d ?e ?cs) ?rows = [?rows ! 0, ?rows ! 2]"
    using B r by (simp_all add: accepted_def panics_def ex_Bulk_def)
  have w: "list_all2 (row_arrives ?d (d_dbcs ex_deps) ?e ?cs) (filter (accepted ?d ?e ?cs) ?rows) ?wss" using a f(3) by simp
  have h: "wbuf_ok (s_buf (cn_sess ?c))" "\<not> s_alwaysEncrypted (cn_sess ?c)" "verTDS72 \<le> p_TDSVersion (e_pdeps (be_env ex_benv))"
    "length ?cs < 0xffff" "bk_numRows ex_Bulk = 0"
    using ex_buf_ok [of 24 "[]"]
    by (simp_all add: ex_Conn_def ex_session_def ex_benv_def ex_denv_def ex_pdeps_def verTDS72_def verTDS74_def ex_Bulk_def CreateBulkContext_def)
  have l: "bk_numRows ex_Bulk + length (filter (accepted ?d ?e ?cs) ?rows) = 2" "length ?wss = 2" unfolding f(3) h(5) by simp_all
  have os: "map (\<lambda>row. Inr (if accepted ?d ?e ?cs row then None else Some DOther)) ?rows = [Inr None, Inr (Some DOther), Inr None :: fault + derr option]"
    using f(1) by simp
  from bulk_load_received [OF h(1,3,2) ex_columns_ok h(4) f(2)] obtain s1 b2 c2 c3 M where
    g: "start_load ex_benv (ex_Bulk, ?c) = (Inr None, s1)" "run_rows ex_benv ?rows s1 = ([Inr None, Inr (Some DOther), Inr None], (b2, c2))"
    "bk_numRows b2 = 2" "conn_buf (finish_load (p_TDSVersion (e_pdeps (be_env ex_benv)))) c2 = (Inr (), c3)"
    "\<forall>dp wss. list_all2 (row_arrives ?d (d_dbcs dp) ?e ?cs) (filter (accepted ?d ?e ?cs) ?rows) wss \<longrightarrow>
       reads (read_load dp ?e (length wss)) M (map seen ?cs, wss)"
    unfolding os l(1) by (elim exE conjE) (rule that; assumption)
  from g(5) w have "reads (read_load ex_deps ?e (length ?wss)) M (map seen ?cs, ?wss)" by blast
  from g(1-4) this [unfolded l(2)] show ?thesis by (intro exI conjI)
qed

end
