(* ===== verification/Net_Dial.thy ===== *)
theory Net_Dial
  imports Tds_Login "HOL-Library.Multiset"
begin

text \<open>
  From a configuration to a connected socket: the connection of the TLS handshake (\<open>src/net.go\<close>), the dialer of TCP with its
  parallel dials and the look-up of instances (\<open>src/protocol.go\<close>), the server browser and the order of the
  protocols (\<open>dialConnection\<close> of \<open>src/tds.go\<close>). The goroutines of the parallel dial are a step relation; the lemmas show
  that exactly one connection is kept and that every dial ends.
\<close>

section \<open>The handshake connection\<close>

record tlsHandshakeConn =
  hs_buf :: tdsBuffer
  packetPending :: bool
  continueRead :: bool

definition hs_on :: "(tdsBuffer, 'a) go \<Rightarrow> (tlsHandshakeConn, 'a) go" where
  "hs_on m c = (case m (hs_buf c) of (r, w) \<Rightarrow> (r, c\<lparr>hs_buf := w\<rparr>))"

definition hs_FinishPacket :: "(tlsHandshakeConn, bool) go" where
  "hs_FinishPacket c =
     (if packetPending c
      then (case hs_on FinishPacket c of
              (Inl (Err e), c') \<Rightarrow> (Inl (Err (ErrMsg ''cannot send handshake packet: %w'')), c')
            | (Inl f, c') \<Rightarrow> (Inl f, c')
            | (Inr _, c') \<Rightarrow> (Inr True, c'\<lparr>packetPending := False\<rparr>))
      else (Inr False, c))"

definition hs_begin_read :: "(tlsHandshakeConn, unit) go" where
  "hs_begin_read c =
     (if continueRead c then (Inr (), c)
      else (case hs_on BeginRead c of
              (Inl (Err e), c') \<Rightarrow> (Inl (Err (ErrMsg ''cannot read handshake packet: %w'')), c')
            | (Inl f, c') \<Rightarrow> (Inl f, c')
            | (Inr packet, c') \<Rightarrow>
                if packet \<noteq> packPrelogin \<and> packet \<noteq> packReply
                then (Inl (Err (ErrMsg ''unexpected packet %d, expecting prelogin'')), c')
                else (Inr (), c'\<lparr>continueRead := True\<rparr>)))"

definition hs_Read :: "nat \<Rightarrow> (tlsHandshakeConn, bytes) go" where
  "hs_Read n =
     gbind hs_FinishPacket (\<lambda>finished c.
       gthen hs_begin_read (hs_on (Read n)) (if finished then c\<lparr>continueRead := False\<rparr> else c))"

definition hs_Write :: "bytes \<Rightarrow> (tlsHandshakeConn, nat) go" where
  "hs_Write b c =
     (if packetPending c then hs_on (Write b) c
      else gthen (hs_on (BeginPacket packPrelogin False)) (\<lambda>c. hs_on (Write b) (c\<lparr>packetPending := True\<rparr>)) c)"

section \<open>Names of instances\<close>

definition lower_hex :: "nat \<Rightarrow> char" where
  "lower_hex n = ''0123456789abcdef'' ! (n mod 16)"

primrec hex_fixed :: "nat \<Rightarrow> nat \<Rightarrow> string" where
  "hex_fixed 0 n = []"
| "hex_fixed (Suc k) n = hex_fixed k (n div 16) @ [lower_hex n]"

text \<open>\<open>strconv.QuoteToASCII\<close>: one rune, and the whole string.\<close>

definition escaped_rune :: "rune \<Rightarrow> string" where
  "escaped_rune r =
     (if r = 0x22 \<or> r = 0x5C then [CHR 0x5C, char_of r]
      else if 0x20 \<le> r \<and> r < 0x7F then [char_of r]
      else if r = 0x07 then [CHR 0x5C, CHR ''a''] else if r = 0x08 then [CHR 0x5C, CHR ''b'']
      else if r = 0x0C then [CHR 0x5C, CHR ''f''] else if r = 0x0A then [CHR 0x5C, CHR ''n'']
      else if r = 0x0D then [CHR 0x5C, CHR ''r''] else if r = 0x09 then [CHR 0x5C, CHR ''t'']
      else if r = 0x0B then [CHR 0x5C, CHR ''v'']
      else if r < 0x20 \<or> r = 0x7F then [CHR 0x5C, CHR ''x''] @ hex_fixed 2 r
      else if \<not> scalar r then [CHR 0x5C, CHR ''u''] @ hex_fixed 4 0xFFFD
      else if r < 0x10000 then [CHR 0x5C, CHR ''u''] @ hex_fixed 4 r
      else [CHR 0x5C, CHR ''U''] @ hex_fixed 8 r)"

function quote_bytes :: "nat list \<Rightarrow> string" where
  "quote_bytes p =
     (if p = [] then []
      else case DecodeRune p of (r, width) \<Rightarrow>
        (if width = 1 \<and> r = RuneError then [CHR 0x5C, CHR ''x''] @ hex_fixed 2 (hd p) else escaped_rune r)
        @ quote_bytes (drop (max 1 width) p))"
  by pat_completeness auto
termination by (relation "measure length") (auto simp: neq_Nil_conv)

declare quote_bytes.simps [simp del]

definition QuoteToASCII :: "string \<Rightarrow> string" where
  "QuoteToASCII s = [CHR 0x22] @ quote_bytes (map unat (str_bytes s)) @ [CHR 0x22]"

text \<open>\<open>strings.Replace(s, old, new, -1)\<close> for an \<open>old\<close> that is not empty.\<close>

function replace_all :: "string \<Rightarrow> string \<Rightarrow> string \<Rightarrow> string" where
  "replace_all old new s =
     (if s = [] then []
      else if HasPrefix s old \<and> old \<noteq> [] then new @ replace_all old new (drop (length old) s)
      else hd s # replace_all old new (tl s))"
  by pat_completeness auto
termination by (relation "measure (\<lambda>(_, _, s). length s)") (auto simp: neq_Nil_conv)

declare replace_all.simps [simp del]

definition stringForInstanceNameComparison :: "string \<Rightarrow> string" where
  "stringForInstanceNameComparison inst =
     replace_all [CHR 0x5C, CHR ''u''] [CHR 0x5C, CHR ''x'']
       (replace_all [CHR 0x5C, CHR ''u'', CHR ''0'', CHR ''0''] [CHR 0x5C, CHR ''x''] (QuoteToASCII inst))"

section \<open>The dialer of TCP\<close>

text \<open>
  What comes from outside: \<open>net.ParseIP\<close> with the text of the address, \<open>IsLoopback\<close>, the name of the host, DNS, the dials of
  an address on a network, whether the application's dialer resolves host names itself, the order in which the results of
  parallel dials are received, one exchange with the server browser, the order of a map's iteration, and the table of
  upper-case letters.
\<close>

record 'c net =
  n_ParseIP :: "string \<Rightarrow> string option"
  n_IsLoopback :: "string \<Rightarrow> bool"
  n_Hostname :: string
  n_LookupIP :: "string \<Rightarrow> err + string list"
  n_dial :: "string \<Rightarrow> err + 'c"
  n_HostDialer :: bool
  n_arrival :: "string list \<Rightarrow> string list"
  n_browse :: "string \<Rightarrow> bytes \<Rightarrow> nat \<Rightarrow> err + bytes"
  n_range :: "BrowserData \<Rightarrow> (string \<rightharpoonup> string) list"
  n_upper :: "rune \<Rightarrow> rune"

definition defaultServerPort :: nat where "defaultServerPort = 1433"

definition resolveServerPort :: "nat \<Rightarrow> nat" where
  "resolveServerPort port = (if port = 0 then defaultServerPort else port)"

definition JoinHostPort :: "string \<Rightarrow> string \<Rightarrow> string" where
  "JoinHostPort host port = (if CHR '':'' \<in> set host then ''['' @ host @ '']:'' @ port else host @ '':'' @ port)"

definition instanceOrPort :: "string \<Rightarrow> nat \<Rightarrow> string" where
  "instanceOrPort inst port = (if inst \<noteq> [] then inst else show_nat (resolveServerPort port))"

definition generateSpn :: "'c net \<Rightarrow> string \<Rightarrow> string \<Rightarrow> string" where
  "generateSpn N host port =
     (let host = (case n_ParseIP N host of Some ip \<Rightarrow> if n_IsLoopback N ip then n_Hostname N else host | None \<Rightarrow> host)
      in ''MSSQLSvc/'' @ host @ '':'' @ port)"

definition tcp_CallBrowser :: "Config \<Rightarrow> bool" where
  "tcp_CallBrowser p \<longleftrightarrow> c_Instance p \<noteq> [] \<and> c_Port p = 0"

text \<open>
  The loop over the instances: the last value of \<open>ok\<close> and \<open>strport\<close>. An instance that matches but has no
  \<open>tcp\<close> entry ends the loop.
\<close>

fun find_instance :: "string \<Rightarrow> (string \<rightharpoonup> string) list \<Rightarrow> string option" where
  "find_instance name [] = None"
| "find_instance name (i # is) =
     (case i ''InstanceName'' of
        Some inst \<Rightarrow> if stringForInstanceNameComparison inst = name then i ''tcp'' else find_instance name is
      | None \<Rightarrow> find_instance name is)"

definition tcp_ParseBrowserData :: "'c net \<Rightarrow> BrowserData \<Rightarrow> Config \<Rightarrow> err option \<times> Config" where
  "tcp_ParseBrowserData N data p =
     (let insts = n_range N data; p = (if insts = [] then p else p\<lparr>c_Instance := ToUpper (n_upper N) (c_Instance p)\<rparr>) in
      case find_instance (stringForInstanceNameComparison (c_Instance p)) insts of
        None \<Rightarrow> (Some (ErrMsg ''no instance matching %v returned from host %v''), p)
      | Some strport \<Rightarrow>
          (case ParseUint strport 0 16 of
             None \<Rightarrow> (Some (ErrMsg ''invalid tcp port returned from Sql Server Browser %v: %v''), p)
           | Some port \<Rightarrow> (None, p\<lparr>c_Port := port\<rparr>)))"

definition wrapConnErr :: "Config \<Rightarrow> err" where
  "wrapConnErr p = ErrMsg ''unable to open tcp connection with host %v:%v: %w''"

text \<open>One address after the other, and the results of parallel dials in the order they are received.\<close>

fun dial_seq :: "('a \<Rightarrow> err + 'c) \<Rightarrow> 'a list \<Rightarrow> 'c option" where
  "dial_seq dial [] = None"
| "dial_seq dial (a # as) = (case dial a of Inr c \<Rightarrow> Some c | Inl e \<Rightarrow> dial_seq dial as)"

fun wait_loop :: "(err + 'c) list \<Rightarrow> 'c option" where
  "wait_loop [] = None"
| "wait_loop (Inr c # rs) = Some c"
| "wait_loop (Inl e # rs) = wait_loop rs"

definition DialSqlConnection :: "'c net \<Rightarrow> Config \<Rightarrow> (err + 'c) \<times> Config" where
  "DialSqlConnection N p =
     (let portStr = show_nat (resolveServerPort (c_Port p));
          dial = (\<lambda>ip. n_dial N (JoinHostPort ip portStr)) in
      if n_ParseIP N (c_Host p) = None \<and> n_HostDialer N then (dial (c_Host p), p)
      else case (case n_ParseIP N (c_Host p) of Some ip \<Rightarrow> Inr [ip] | None \<Rightarrow> n_LookupIP N (c_Host p)) of
          Inl e \<Rightarrow> (Inl e, p)
        | Inr ips \<Rightarrow>
            (case (if length ips = 1 \<or> \<not> c_MultiSubnetFailover p then dial_seq dial ips
                   else wait_loop (map dial (n_arrival N ips))) of
               None \<Rightarrow> (Inl (wrapConnErr p), p)
             | Some c \<Rightarrow>
                 let p = (if c_ServerSPN p = [] then p\<lparr>c_ServerSPN := generateSpn N (c_Host p) (instanceOrPort (c_Instance p) (c_Port p))\<rparr> else p)
                 in (Inr c, p\<lparr>c_Port := resolveServerPort (c_Port p)\<rparr>)))"

section \<open>The protocols\<close>

definition browser_byte :: "BrowserMsg \<Rightarrow> byte" where
  "browser_byte b = (case b of BrowserDefault \<Rightarrow> 0 | BrowserAllInstances \<Rightarrow> 3 | BrowserDAC \<Rightarrow> 0x0f)"

text \<open>The request to the browser and the size of the buffer for its answer.\<close>

definition browser_request :: "BrowserMsg \<Rightarrow> string \<Rightarrow> bytes \<times> nat" where
  "browser_request b inst =
     (if b = BrowserDAC then ([browser_byte BrowserDAC, 1, 0] @ str_bytes inst, 6)
      else ([browser_byte BrowserAllInstances], 16 * 1024 - 1))"

definition getInstances :: "'c net \<Rightarrow> string \<Rightarrow> BrowserMsg \<Rightarrow> string \<Rightarrow> fault + (BrowserData \<times> err option)" where
  "getInstances N address b inst =
     (case browser_request b inst of (bmsg, n) \<Rightarrow>
        (case n_browse N (JoinHostPort address ''1434'') bmsg n of
           Inl e \<Rightarrow> Inr (Map.empty, Some e)
         | Inr resp \<Rightarrow>
             if b = BrowserDAC then sbind (parseDAC resp inst) (\<lambda>d. Inr (d, None)) else Inr (parseInstances (n_upper N) resp, None)))"

text \<open>The dialers of protocols: TCP, and those of the other protocols, which know no connector.\<close>

record 'c pdialer =
  pd_CallBrowser :: "Config \<Rightarrow> bool"
  pd_ParseBrowserData :: "BrowserData \<Rightarrow> Config \<Rightarrow> err option \<times> Config"
  pd_Dial :: "Config \<Rightarrow> (err + 'c) \<times> Config"

definition tcpDialer :: "'c net \<Rightarrow> 'c pdialer" where
  "tcpDialer N = \<lparr>pd_CallBrowser = tcp_CallBrowser, pd_ParseBrowserData = tcp_ParseBrowserData N, pd_Dial = DialSqlConnection N\<rparr>"

text \<open>
  \<open>instances\<close> is fetched once: after an error it is empty, not nil. The result is the connection or the last error; \<open>None\<close> is
  the nil error of an empty list of protocols.
\<close>

definition try_dial :: "'c pdialer \<Rightarrow> Config \<Rightarrow> (err \<Rightarrow> Config \<Rightarrow> fault + ('c option \<times> err option \<times> Config))
    \<Rightarrow> fault + ('c option \<times> err option \<times> Config)" where
  "try_dial dialer p next =
     (case pd_Dial dialer p of (Inr c, p) \<Rightarrow> Inr (Some c, None, p) | (Inl e, p) \<Rightarrow> next e p)"

primrec dial_protocols :: "'c net \<Rightarrow> (string \<rightharpoonup> 'c pdialer) \<Rightarrow> string list \<Rightarrow> BrowserData option \<Rightarrow> err option \<Rightarrow> Config
    \<Rightarrow> fault + ('c option \<times> err option \<times> Config)" where
  "dial_protocols N ds [] insts err p = Inr (None, err, p)"
| "dial_protocols N ds (pr # prs) insts err p =
     (case ds pr of
        None \<Rightarrow> Inl (RuntimePanic ''nil pointer dereference'')
      | Some dialer \<Rightarrow>
          if pd_CallBrowser dialer p then
            sbind (case insts of Some d \<Rightarrow> Inr d
                   | None \<Rightarrow> sbind (getInstances N (c_Host p) (c_BrowserMessage p) (c_Instance p)) (\<lambda>(d, _). Inr d)) (\<lambda>d.
              case pd_ParseBrowserData dialer d p of
                (Some e, p) \<Rightarrow> dial_protocols N ds prs (Some d) (Some e) p
              | (None, p) \<Rightarrow> try_dial dialer p (\<lambda>e. dial_protocols N ds prs (Some d) (Some e)))
          else try_dial dialer p (\<lambda>e. dial_protocols N ds prs insts (Some e)))"

definition dialConnection :: "'c net \<Rightarrow> (string \<rightharpoonup> 'c pdialer) \<Rightarrow> Config \<Rightarrow> fault + ('c option \<times> err option \<times> Config)" where
  "dialConnection N ds p = dial_protocols N ds (c_Protocols p) None None p"

section \<open>Lemmas\<close>

text \<open>A flight of the handshake: any number of writes, then the end of the packet that the next read makes.\<close>

fun hs_writes :: "bytes list \<Rightarrow> (tlsHandshakeConn, unit) go" where
  "hs_writes [] = gret ()"
| "hs_writes (b # bs) = gthen (hs_Write b) (hs_writes bs)"

lemma hs_writes_pending:
  assumes "packetPending c" "writing w0 M (hs_buf c)"
  shows "\<exists>w. hs_writes bs c = (Inr (), c\<lparr>hs_buf := w\<rparr>) \<and> writing w0 (M @ concat bs) w"
  using assms
proof (induction bs arbitrary: c M)
  case Nil
  then show ?case by (intro exI [of _ "hs_buf c"]) (simp add: gret_def)
next
  case (Cons b bs)
  obtain n w where w: "Write b (hs_buf c) = (Inr n, w)" "writing w0 (M @ b) w" using tds_sink.write_all [OF Cons.prems(2)] by blast
  from Cons.IH [of "c\<lparr>hs_buf := w\<rparr>" "M @ b"] w Cons.prems show ?case
    by (auto simp: hs_Write_def hs_on_def gthen_def)
qed

lemma hs_flight_sent:
  assumes "wbuf_ok (hs_buf c)" "\<not> packetPending c" "bs \<noteq> []"
  shows "\<exists>c'. gthen (hs_writes bs) hs_FinishPacket c = (Inr True, c') \<and> \<not> packetPending c' \<and> wbuf_ok (hs_buf c')
     \<and> t_out (transport (hs_buf c')) = t_out (transport (hs_buf c)) @ message (begun packPrelogin False (hs_buf c)) (concat bs)"
proof -
  let ?w0 = "begun packPrelogin False (hs_buf c)"
  obtain b bs' where bs: "bs = b # bs'" using assms(3) by (cases bs) auto
  note bp = BeginPacket_writing [OF assms(1), of packPrelogin False]
  obtain n w1 where w1: "Write b ?w0 = (Inr n, w1)" "writing ?w0 ([] @ b) w1" using tds_sink.write_all [OF bp(2)] by blast
  let ?c1 = "c\<lparr>hs_buf := w1, packetPending := True\<rparr>"
  obtain w2 where w2: "hs_writes bs' ?c1 = (Inr (), ?c1\<lparr>hs_buf := w2\<rparr>)" "writing ?w0 (b @ concat bs') w2"
    using hs_writes_pending [of ?c1 ?w0 b bs'] w1(2) by auto
  obtain w3 where w3: "FinishPacket w2 = (Inr (), w3)" "wbuf_ok w3" "t_out (transport w3) = t_out (transport ?w0) @ message ?w0 (b @ concat bs')"
    using FinishPacket_writing [OF w2(2)] by blast
  have "hs_Write b c = (Inr n, ?c1)" using assms(2) bp(1) w1(1) by (simp add: hs_Write_def hs_on_def gthen_def)
  with w2(1) have "gthen (hs_writes bs) hs_FinishPacket c = (Inr True, ?c1\<lparr>hs_buf := w3, packetPending := False\<rparr>)"
    using w3(1) by (simp add: bs gthen_def gbind_def hs_FinishPacket_def hs_on_def)
  moreover have "transport ?w0 = transport (hs_buf c)" by (simp add: begun_def)
  ultimately show ?thesis using w3(2,3) by (simp add: bs)
qed

text \<open>
  Nothing is written to the peer, and no packet of it is taken for the next message, while the handshake only reads: the
  reads go on in the message of the peer.
\<close>

lemma hs_read_continues: "\<not> packetPending c \<Longrightarrow> continueRead c \<Longrightarrow> hs_Read n c = hs_on (Read n) c"
  by (simp add: hs_Read_def hs_FinishPacket_def hs_begin_read_def gthen_def gbind_def)

text \<open>For names of printable ASCII characters the comparison is that of the names.\<close>

definition plain_char :: "char \<Rightarrow> bool" where
  "plain_char c \<longleftrightarrow> 0x20 \<le> code c \<and> code c < 0x7F \<and> code c \<noteq> 0x22 \<and> code c \<noteq> 0x5C"

lemma quote_plain: "list_all plain_char s \<Longrightarrow> quote_bytes (map unat (str_bytes s)) = s"
proof (induction s)
  case (Cons c s)
  have u: "unat (char_byte c) = code c" by (simp add: code_def char_byte_def unat_of_nat)
  have "DecodeRune (code c # map unat (str_bytes s)) = (code c, 1)" using Cons.prems by (simp add: DecodeRune_def plain_char_def)
  moreover have "escaped_rune (code c) = [c]" using Cons.prems by (simp add: escaped_rune_def plain_char_def code_def)
  moreover have "code c \<noteq> RuneError" using Cons.prems by (simp add: plain_char_def RuneError_def)
  ultimately show ?case using Cons by (subst quote_bytes.simps) (simp add: str_bytes_def u)
qed (simp add: quote_bytes.simps str_bytes_def)

lemma replace_absent: "c \<notin> set s \<Longrightarrow> replace_all (c # old) new s = s"
proof (induction s)
  case (Cons a s)
  then show ?case by (subst replace_all.simps) (auto simp: HasPrefix_def)
qed (simp add: replace_all.simps)

lemma comparison_plain:
  assumes "list_all plain_char s"
  shows "stringForInstanceNameComparison s = [CHR 0x22] @ s @ [CHR 0x22]"
proof -
  have "CHR 0x5C \<notin> set s" using assms by (auto simp: list_all_iff plain_char_def code_def)
  with quote_plain [OF assms] show ?thesis by (simp add: stringForInstanceNameComparison_def QuoteToASCII_def replace_absent)
qed

text \<open>
  The entry that is taken is one whose name equals the upper-case name of the configuration. The names in the answer are not
  converted, so an instance with another spelling is not found.
\<close>

lemma find_instance_plain:
  assumes "list_all plain_char name" "\<forall>d \<in> set ds. \<forall>n. d ''InstanceName'' = Some n \<longrightarrow> list_all plain_char n"
  shows "find_instance (stringForInstanceNameComparison name) ds
     = (case find (\<lambda>d. d ''InstanceName'' = Some name) ds of None \<Rightarrow> None | Some d \<Rightarrow> d ''tcp'')"
  using assms(2) by (induction ds) (auto simp: comparison_plain [OF assms(1)] comparison_plain split: option.splits)

lemma mixed_case_instance_missed:
  "find_instance (stringForInstanceNameComparison ''AB'') [map_of [(''InstanceName'', ''Ab''), (''tcp'', ''1500'')]] = None"
  by (subst find_instance_plain) (simp_all add: plain_char_def code_def)

text \<open>With a protocol to try there is a connection or an error, never both.\<close>

lemma dial_protocols_result:
  "dial_protocols N ds prs insts err p = Inr (conn, err', p') \<Longrightarrow> prs \<noteq> [] \<or> err \<noteq> None \<Longrightarrow> (conn = None) = (err' \<noteq> None)"
proof (induction prs arbitrary: insts err p)
  case (Cons pr prs)
  then obtain dialer where d: "ds pr = Some dialer" by (auto split: option.splits)
  have dial: "(conn = None) = (err' \<noteq> None)"
    if "try_dial dialer q (\<lambda>e. dial_protocols N ds prs i (Some e)) = Inr (conn, err', p')" for i q
    using that Cons.IH by (auto simp: try_dial_def split: prod.splits sum.splits)
  show ?case
  proof (cases "pd_CallBrowser dialer p")
    case True
    with Cons.prems d obtain dt where "(case pd_ParseBrowserData dialer dt p of (Some e, p) \<Rightarrow> dial_protocols N ds prs (Some dt) (Some e) p
        | (None, p) \<Rightarrow> try_dial dialer p (\<lambda>e. dial_protocols N ds prs (Some dt) (Some e))) = Inr (conn, err', p')"
      by (auto simp: sbind_Inr_iff)
    then show ?thesis using dial Cons.IH by (auto split: prod.splits option.splits)
  next
    case False
    then show ?thesis using Cons.prems d dial by simp
  qed
qed simp

lemma dialConnection_result:
  "dialConnection N ds p = Inr (conn, err, p') \<Longrightarrow> c_Protocols p \<noteq> [] \<Longrightarrow> (conn = None) = (err \<noteq> None)"
  by (auto simp: dialConnection_def dest: dial_protocols_result)

section \<open>The parallel dial\<close>

text \<open>
  The goroutines of the parallel dial. \<open>ra_running\<close> are the dials that have not returned, \<open>ra_conns\<close> and \<open>ra_errs\<close> the two channels,
  \<open>ra_main\<close> the loop of \<open>DialSqlConnection\<close>, which waits for some more results or is done; \<open>ra_drain\<close> is the number of
  results the closing goroutine still waits for, \<open>ra_closed\<close> what it has closed. \<open>ra_seen\<close> records
  what the main loop received. A dial is its index among the addresses, \<open>res\<close> the results.
\<close>

datatype race_main = Waiting nat | Returned "nat option"

record race =
  ra_running :: "nat list"
  ra_conns :: "nat list"
  ra_errs :: "nat list"
  ra_main :: race_main
  ra_drain :: nat
  ra_closed :: "nat list"
  ra_seen :: "nat list"

definition start_race :: "nat \<Rightarrow> race" where
  "start_race n = \<lparr>ra_running = [0..<n], ra_conns = [], ra_errs = [], ra_main = Waiting n, ra_drain = 0, ra_closed = [], ra_seen = []\<rparr>"

definition dialled :: "(nat \<Rightarrow> err + 'c) \<Rightarrow> nat \<Rightarrow> bool" where
  "dialled res i \<longleftrightarrow> (\<exists>c. res i = Inr c)"

inductive race_step :: "nat \<Rightarrow> (nat \<Rightarrow> err + 'c) \<Rightarrow> race \<Rightarrow> race \<Rightarrow> bool" for cap res where
  dial_ok: "i \<in> set (ra_running r) \<Longrightarrow> dialled res i \<Longrightarrow> length (ra_conns r) < cap \<Longrightarrow>
    race_step cap res r (r\<lparr>ra_running := remove1 i (ra_running r), ra_conns := ra_conns r @ [i]\<rparr>)"
| dial_err: "i \<in> set (ra_running r) \<Longrightarrow> \<not> dialled res i \<Longrightarrow> length (ra_errs r) < cap \<Longrightarrow>
    race_step cap res r (r\<lparr>ra_running := remove1 i (ra_running r), ra_errs := ra_errs r @ [i]\<rparr>)"
| main_conn: "ra_main r = Waiting (Suc k) \<Longrightarrow> ra_conns r = i # is \<Longrightarrow>
    race_step cap res r (r\<lparr>ra_conns := is, ra_main := Returned (Some i), ra_drain := k, ra_seen := ra_seen r @ [i]\<rparr>)"
| main_err: "ra_main r = Waiting (Suc k) \<Longrightarrow> ra_errs r = i # is \<Longrightarrow>
    race_step cap res r (r\<lparr>ra_errs := is, ra_main := Waiting k, ra_seen := ra_seen r @ [i]\<rparr>)"
| main_end: "ra_main r = Waiting 0 \<Longrightarrow> race_step cap res r (r\<lparr>ra_main := Returned None\<rparr>)"
| drain_conn: "ra_drain r = Suc k \<Longrightarrow> ra_conns r = i # is \<Longrightarrow>
    race_step cap res r (r\<lparr>ra_conns := is, ra_drain := k, ra_closed := ra_closed r @ [i]\<rparr>)"
| drain_err: "ra_drain r = Suc k \<Longrightarrow> ra_errs r = i # is \<Longrightarrow> race_step cap res r (r\<lparr>ra_errs := is, ra_drain := k\<rparr>)"

inductive_cases race_stepE: "race_step cap res r r'"

definition race_inv :: "nat \<Rightarrow> (nat \<Rightarrow> err + 'c) \<Rightarrow> race \<Rightarrow> bool" where
  "race_inv n res r \<longleftrightarrow>
     length (ra_running r) + length (ra_conns r) + length (ra_errs r) = (case ra_main r of Waiting k \<Rightarrow> k | Returned _ \<Rightarrow> ra_drain r)
     \<and> mset (filter (dialled res) (ra_running r)) + mset (ra_conns r) + mset (ra_closed r)
         + (case ra_main r of Returned (Some i) \<Rightarrow> {#i#} | _ \<Rightarrow> {#}) = mset (filter (dialled res) [0..<n])
     \<and> mset (ra_running r) + mset (ra_conns r) + mset (ra_errs r) + mset (ra_seen r) \<subseteq># mset [0..<n]
     \<and> list_all (dialled res) (ra_conns r) \<and> list_all (\<lambda>i. \<not> dialled res i) (ra_errs r)
     \<and> (case ra_main r of
          Waiting _ \<Rightarrow> ra_drain r = 0 \<and> ra_closed r = [] \<and> list_all (\<lambda>i. \<not> dialled res i) (ra_seen r)
        | Returned None \<Rightarrow> ra_drain r = 0 \<and> ra_closed r = [] \<and> list_all (\<lambda>i. \<not> dialled res i) (ra_seen r)
        | Returned (Some i) \<Rightarrow> dialled res i \<and> (\<exists>es. ra_seen r = es @ [i] \<and> list_all (\<lambda>i. \<not> dialled res i) es))"

lemma race_inv_start: "race_inv n res (start_race n)"
  by (simp add: race_inv_def start_race_def)

lemma mset_take_out: "i \<in> set xs \<Longrightarrow> mset xs = add_mset i (mset (remove1 i xs))"
  by simp

lemma filter_take_out: "i \<in> set xs \<Longrightarrow> mset (filter P xs) = (if P i then {#i#} else {#}) + mset (filter P (remove1 i xs))"
proof -
  assume "i \<in> set xs"
  then have "filter_mset P (mset xs) = filter_mset P (add_mset i (mset (remove1 i xs)))" by (rule arg_cong [OF mset_take_out])
  then show ?thesis unfolding mset_filter by (simp del: mset_remove1)
qed

lemma length_take_out: "i \<in> set xs \<Longrightarrow> length xs = Suc (length (remove1 i xs))"
  using length_pos_if_in_set [of i xs] by (simp add: length_remove1)

lemma subset_less: "add_mset i A \<subseteq># B \<Longrightarrow> A \<subseteq># B"
  using mset_subset_eq_insertD by (metis subset_mset.less_imp_le)

lemma race_inv_dial:
  assumes "i \<in> set (ra_running r)" "race_inv n res r"
  shows "dialled res i \<Longrightarrow> race_inv n res (r\<lparr>ra_running := remove1 i (ra_running r), ra_conns := ra_conns r @ [i]\<rparr>)"
    and "\<not> dialled res i \<Longrightarrow> race_inv n res (r\<lparr>ra_running := remove1 i (ra_running r), ra_errs := ra_errs r @ [i]\<rparr>)"
  using assms(2) unfolding race_inv_def mset_take_out [OF assms(1)] filter_take_out [OF assms(1)] length_take_out [OF assms(1)]
  by (simp_all add: ac_simps del: mset_remove1 mset_filter cong: race_main.case_cong option.case_cong)

lemma race_inv_step: "race_step n res r r' \<Longrightarrow> race_inv n res r \<Longrightarrow> race_inv n res r'"
proof (induction rule: race_step.cases)
  case (dial_ok i r)
  then show ?case using race_inv_dial by blast
next
  case (dial_err i r)
  then show ?case using race_inv_dial by blast
next
  case (main_conn r k i js)
  then show ?case by (auto simp: race_inv_def)
next
  case (main_err r k i js)
  then show ?case by (auto simp: race_inv_def)
next
  case (main_end r)
  then show ?case by (auto simp: race_inv_def)
next
  case (drain_conn r k i js)
  then show ?case by (auto simp: race_inv_def add_mset_commute [of i] split: race_main.splits option.splits dest: subset_less)
next
  case (drain_err r k i js)
  then show ?case by (auto simp: race_inv_def add_mset_commute [of i] split: race_main.splits option.splits dest: subset_less)
qed

lemma race_inv_run: "(race_step n res)\<^sup>*\<^sup>* (start_race n) r \<Longrightarrow> race_inv n res r"
  by (induction rule: rtranclp_induct) (auto intro: race_inv_start race_inv_step)

text \<open>Every step uses something up.\<close>

definition race_left :: "race \<Rightarrow> nat" where
  "race_left r = 2 * length (ra_running r) + length (ra_conns r) + length (ra_errs r) + (case ra_main r of Waiting _ \<Rightarrow> 1 | Returned _ \<Rightarrow> 0)"

lemma race_left_step: "race_step n res r r' \<Longrightarrow> race_left r' < race_left r"
  by (induction rule: race_step.cases) (auto simp: race_left_def length_take_out split: race_main.splits)

lemma race_length:
  assumes "(race_step n res ^^ k) (start_race n) r"
  shows "k + race_left r \<le> 2 * n + 1"
  using assms
proof (induction k arbitrary: r)
  case (Suc k)
  then obtain r1 where "k + race_left r1 \<le> 2 * n + 1" "race_step n res r1 r" by auto
  with race_left_step show ?case by fastforce
qed (simp add: race_left_def start_race_def)

definition race_over :: "race \<Rightarrow> bool" where
  "race_over r \<longleftrightarrow> ra_running r = [] \<and> ra_conns r = [] \<and> ra_errs r = [] \<and> ra_drain r = 0 \<and> (\<exists>w. ra_main r = Returned w)"

lemma race_progress:
  assumes "race_inv n res r" "\<not> race_over r"
  shows "\<exists>r'. race_step n res r r'"
proof (cases "ra_running r")
  case (Cons i js)
  have "size (mset (ra_running r) + mset (ra_conns r) + mset (ra_errs r) + mset (ra_seen r)) \<le> size (mset [0..<n])"
    using assms(1) by (intro size_mset_mono) (simp add: race_inv_def)
  then have "length (ra_conns r) < n" "length (ra_errs r) < n" using Cons by simp_all
  with Cons show ?thesis using race_step.dial_ok [of i r res n] race_step.dial_err [of i r res n] by (cases "dialled res i") auto
next
  case Nil
  have l: "length (ra_conns r) + length (ra_errs r) = (case ra_main r of Waiting k \<Rightarrow> k | Returned _ \<Rightarrow> ra_drain r)"
    using assms(1) Nil by (simp add: race_inv_def)
  show ?thesis
  proof (cases "ra_conns r = [] \<and> ra_errs r = []")
    case True
    then show ?thesis using l Nil assms(2) race_step.main_end [of r n res] by (cases "ra_main r") (auto simp: race_over_def)
  next
    case False
    then consider i js where "ra_conns r = i # js" | i js where "ra_errs r = i # js" by (meson neq_Nil_conv)
    then show ?thesis
    proof cases
      case 1
      with l show ?thesis using race_step.main_conn [of r _ i js n res] race_step.drain_conn [of r _ i js n res]
        by (cases "ra_main r") (auto simp: gr0_conv_Suc dest!: sym [of "Suc _"])
    next
      case 2
      with l show ?thesis using race_step.main_err [of r _ i js n res] race_step.drain_err [of r _ i js n res]
        by (cases "ra_main r") (auto simp: gr0_conv_Suc dest!: sym [of "Suc _"])
    qed
  qed
qed

lemma wait_loop_fails: "list_all (\<lambda>i. \<not> dialled res i) es \<Longrightarrow> wait_loop (map res (es @ js)) = wait_loop (map res js)"
proof (induction es)
  case (Cons i es)
  then obtain e where "res i = Inl e" by (cases "res i") (auto simp: dialled_def)
  with Cons show ?case by simp
qed simp

definition dial_of :: "(nat \<Rightarrow> err + 'c) \<Rightarrow> nat option \<Rightarrow> 'c option" where
  "dial_of res w = (case w of None \<Rightarrow> None | Some i \<Rightarrow> (case res i of Inl _ \<Rightarrow> None | Inr c \<Rightarrow> Some c))"

lemma race_result:
  assumes "race_inv n res r" "race_over r" "ra_main r = Returned w"
  shows "mset (ra_closed r) + (case w of None \<Rightarrow> {#} | Some i \<Rightarrow> {#i#}) = mset (filter (dialled res) [0..<n])"
    and "\<exists>order. mset order = mset [0..<n] \<and> dial_of res w = wait_loop (map res order)"
proof -
  note i = assms(1) [unfolded race_inv_def] and o = assms(2) [unfolded race_over_def]
  show closed: "mset (ra_closed r) + (case w of None \<Rightarrow> {#} | Some i \<Rightarrow> {#i#}) = mset (filter (dialled res) [0..<n])"
    using i o assms(3) by (cases w) auto
  show "\<exists>order. mset order = mset [0..<n] \<and> dial_of res w = wait_loop (map res order)"
  proof (cases w)
    case None
    then have "mset (filter (dialled res) [0..<n]) = {#}" using closed i assms(3) by auto
    then have "list_all (\<lambda>i. \<not> dialled res i) [0..<n]" by (auto simp: list_all_iff filter_empty_conv simp flip: mset_filter)
    from wait_loop_fails [OF this, of "[]"] None show ?thesis by (intro exI [of _ "[0..<n]"]) (simp add: dial_of_def)
  next
    case (Some j)
    with i assms(3) obtain es where es: "ra_seen r = es @ [j]" "list_all (\<lambda>i. \<not> dialled res i) es" "dialled res j" by auto
    have "mset (ra_seen r) \<subseteq># mset [0..<n]" using i by (meson subset_mset.order_trans mset_subset_eq_add_right)
    then obtain rest where "mset rest = mset [0..<n] - mset (ra_seen r)" "mset (ra_seen r) + (mset [0..<n] - mset (ra_seen r)) = mset [0..<n]"
      using ex_mset subset_mset.add_diff_inverse by metis
    then have "mset (es @ j # rest) = mset [0..<n]" using es(1) by simp
    moreover have "wait_loop (map res (es @ j # rest)) = dial_of res w"
      using wait_loop_fails [OF es(2), of "j # rest"] es(3) Some by (auto simp: dialled_def dial_of_def)
    ultimately show ?thesis by metis
  qed
qed

text \<open>
  C14. When a host name has several addresses and they are dialled in parallel, every run of the goroutines ends, after at most
  \<open>2 * n + 1\<close> of their steps, and none of them is left waiting. Then a connection is returned if and only if a
  dial succeeded, every other connection that was made has been closed, once, and the result is that of
  receiving the results in some order.
\<close>

theorem parallel_dial:
  assumes "(race_step n res ^^ k) (start_race n) r"
  shows "k \<le> 2 * n + 1
     \<and> ((\<exists>r'. race_step n res r r')
       \<or> race_over r \<and> (\<exists>w. ra_main r = Returned w
           \<and> mset (ra_closed r) + (case w of None \<Rightarrow> {#} | Some i \<Rightarrow> {#i#}) = mset (filter (dialled res) [0..<n])
           \<and> (\<exists>order. mset order = mset [0..<n] \<and> dial_of res w = wait_loop (map res order))))"
proof -
  have inv: "race_inv n res r" using race_inv_run relpowp_imp_rtranclp [OF assms] by blast
  have "\<exists>w. ra_main r = Returned w" if "race_over r" using that by (simp add: race_over_def)
  with race_result [OF inv] race_progress [OF inv] race_length [OF assms] show ?thesis by fastforce
qed

theorem parallel_dial_witness:
  "\<exists>r. (race_step 2 (\<lambda>i. if i = 0 then Inl EOF else Inr ''c'') ^^ 4) (start_race 2) r
     \<and> race_over r \<and> ra_main r = Returned (Some 1) \<and> ra_closed r = []"
proof -
  let ?R = "race_step 2 (\<lambda>i. if i = 0 then Inl EOF else Inr ''c'')" and ?res = "\<lambda>i. if i = 0 then Inl EOF else Inr ''c''"
  define r1 where "r1 = (start_race 2)\<lparr>ra_running := [0], ra_conns := [1]\<rparr>"
  define r2 where "r2 = r1\<lparr>ra_conns := [], ra_main := Returned (Some 1), ra_drain := 1, ra_seen := [1]\<rparr>"
  define r3 where "r3 = r2\<lparr>ra_running := [], ra_errs := [0]\<rparr>"
  define r4 where "r4 = r3\<lparr>ra_errs := [], ra_drain := 0\<rparr>"
  note d = start_race_def numeral_2_eq_2 r1_def r2_def r3_def r4_def
  have o: "dialled ?res 1" "\<not> dialled ?res 0" by (simp_all add: dialled_def)
  have "?R (start_race 2) r1" using race_step.dial_ok [of 1 "start_race 2" ?res 2] o by (simp add: d)
  moreover have "?R r1 r2" using race_step.main_conn [of r1 1 1 "[]" 2 ?res] by (simp add: d)
  moreover have "?R r2 r3" using race_step.dial_err [of 0 r2 ?res 2] o by (simp add: d)
  moreover have "?R r3 r4" using race_step.drain_err [of r3 0 0 "[]" 2 ?res] by (simp add: d)
  ultimately have run: "(?R ^^ 4) (start_race 2) r4" by (auto simp: eval_nat_numeral intro!: relcomppI)
  have m: "ra_main r4 = Returned (Some 1)" "race_over r4" "ra_closed r4 = []" by (simp_all add: d race_over_def)
  then have "\<not> ?R r4 r'" for r' by (auto simp: race_over_def elim: race_stepE)
  with parallel_dial [OF run] m run show ?thesis by blast
qed

end
