(* ===== verification/Ntlm.thy ===== *)
theory Ntlm
  imports Conn_String Date_Time
begin

text \<open>
  The NTLM authenticator, \<open>src/integratedauth/ntlm/ntlm.go\<close>, the channel bindings of
  \<open>src/integratedauth/channel_binding.go\<close> and the choice of an authenticator in \<open>src/integratedauth/auth.go\<close>. The lemmas
  show where the fields of the messages lie, and that a server that knows the password accepts the answer to its
  challenge.
\<close>

unbundle bit_operations_syntax

declare le_bytes_numeral [simp del]

section \<open>Filling a buffer\<close>

text \<open>
  The messages are built in a buffer of zeros: \<open>binary.LittleEndian.PutUint32(msg[o:], v)\<close> and the like panic when
  there is no room, as does a copy to a slice \<open>msg[i:j]\<close> beyond the end; \<open>copy(msg[o:], xs)\<close> copies what fits.
\<close>

datatype store = Put nat bytes | Copy nat bytes

fun at_offset :: "store \<Rightarrow> nat" where
  "at_offset (Put i xs) = i"
| "at_offset (Copy i xs) = i"

fun stored :: "store \<Rightarrow> bytes" where
  "stored (Put i xs) = xs"
| "stored (Copy i xs) = xs"

definition out_of_range :: "fault + 'a" where
  "out_of_range = Inl (RuntimePanic ''slice bounds out of range'')"

fun run_store :: "store \<Rightarrow> bytes \<Rightarrow> fault + bytes" where
  "run_store (Put i xs) m = (if i + length xs \<le> length m then Inr (put_at i xs m) else out_of_range)"
| "run_store (Copy i xs) m = (if i \<le> length m then Inr (put_at i (take (length m - i) xs) m) else out_of_range)"

fun stores :: "store list \<Rightarrow> bytes \<Rightarrow> fault + bytes" where
  "stores [] m = Inr m"
| "stores (s # ss) m = sbind (run_store s m) (stores ss)"

definition fill :: "nat \<Rightarrow> store list \<Rightarrow> fault + bytes" where
  "fill n ss = stores ss (replicate n 0)"

definition put16_at :: "nat \<Rightarrow> nat \<Rightarrow> store" where
  "put16_at i n = Put i (le_bytes 2 (word_of_nat n :: u16))"

definition put32_at :: "nat \<Rightarrow> nat \<Rightarrow> store" where
  "put32_at i n = Put i (le_bytes 4 (word_of_nat n :: u32))"

text \<open>The slice \<open>xs[i:j]\<close>; an array that receives a hash by \<open>Sum(a[:0])\<close> keeps its length.\<close>

definition go_slice :: "nat \<Rightarrow> nat \<Rightarrow> bytes \<Rightarrow> fault + bytes" where
  "go_slice i j xs = (if i \<le> j \<and> j \<le> length xs then Inr (take (j - i) (drop i xs)) else out_of_range)"

definition into :: "nat \<Rightarrow> bytes \<Rightarrow> bytes" where
  "into n xs = take n (xs @ replicate n 0)"

section \<open>Channel bindings\<close>

datatype ChannelBindingsType = TypeTLSExporter | TypeTLSUnique | TypeTLSServerEndPoint | TypeEmpty

record ChannelBindings =
  cb_Type :: ChannelBindingsType
  InitiatorAddrType :: u32
  InitiatorAddress :: bytes
  AcceptorAddrType :: u32
  AcceptorAddress :: bytes
  ApplicationData :: bytes

definition TLS_EXPORTER_PREFIX :: string where "TLS_EXPORTER_PREFIX = ''tls-exporter:''"
definition TLS_UNIQUE_PREFIX :: string where "TLS_UNIQUE_PREFIX = ''tls-unique:''"
definition TLS_SERVER_END_POINT_PREFIX :: string where "TLS_SERVER_END_POINT_PREFIX = ''tls-server-end-point:''"

definition cb_ToBytes :: "ChannelBindings \<Rightarrow> fault + bytes" where
  "cb_ToBytes cb =
     (let a = length (InitiatorAddress cb); b = length (AcceptorAddress cb); c = length (ApplicationData cb) in
      fill (unat (20 + word_of_nat (a + b + c) :: u32))
        ([Put 0 (le_bytes 4 (InitiatorAddrType cb)), put32_at 4 a]
         @ (if 0 < a then [Put 8 (InitiatorAddress cb)] else [])
         @ [Put (8 + a) (le_bytes 4 (AcceptorAddrType cb)), put32_at (12 + a) b]
         @ (if 0 < b then [Put (16 + a) (AcceptorAddress cb)] else [])
         @ [put32_at (16 + a + b) c]
         @ (if 0 < c then [Put (20 + a + b) (ApplicationData cb)] else [])))"

record SEC_CHANNEL_BINDINGS =
  DwInitiatorAddrType :: u32
  CbInitiatorLength :: u32
  DwInitiatorOffset :: u32
  DwAcceptorAddrType :: u32
  CbAcceptorLength :: u32
  DwAcceptorOffset :: u32
  CbApplicationDataLength :: u32
  DwApplicationDataOffset :: u32
  sc_Data :: bytes

text \<open>The addresses of fewer than \<open>2 ^ 32\<close> bytes that Go can hold are copied one behind the other.\<close>

definition AsSSPI_SEC_CHANNEL_BINDINGS :: "ChannelBindings \<Rightarrow> fault + SEC_CHANNEL_BINDINGS" where
  "AsSSPI_SEC_CHANNEL_BINDINGS cb =
     (let a = word_of_nat (length (InitiatorAddress cb)) :: u32; b = word_of_nat (length (AcceptorAddress cb)) :: u32;
          c = word_of_nat (length (ApplicationData cb)) :: u32 in
      sbind (fill (unat (a + b + c))
          ((if 0 < a then [Put 0 (take (unat a) (InitiatorAddress cb))] else [])
           @ (if 0 < b then [Put (unat a) (take (unat b) (AcceptorAddress cb))] else [])
           @ (if 0 < c then [Put (unat (a + b)) (take (unat c) (ApplicationData cb))] else []))) (\<lambda>data.
        Inr \<lparr>DwInitiatorAddrType = InitiatorAddrType cb, CbInitiatorLength = a, DwInitiatorOffset = 32,
             DwAcceptorAddrType = AcceptorAddrType cb, CbAcceptorLength = b, DwAcceptorOffset = 32 + a,
             CbApplicationDataLength = c, DwApplicationDataOffset = 32 + a + b, sc_Data = data\<rparr>))"

definition sec_ToBytes :: "SEC_CHANNEL_BINDINGS \<Rightarrow> fault + bytes" where
  "sec_ToBytes cb = fill (32 + length (sc_Data cb))
     [Put 0 (le_bytes 4 (DwInitiatorAddrType cb)), Put 4 (le_bytes 4 (CbInitiatorLength cb)), Put 8 (le_bytes 4 (DwInitiatorOffset cb)),
      Put 12 (le_bytes 4 (DwAcceptorAddrType cb)), Put 16 (le_bytes 4 (CbAcceptorLength cb)), Put 20 (le_bytes 4 (DwAcceptorOffset cb)),
      Put 24 (le_bytes 4 (CbApplicationDataLength cb)), Put 28 (le_bytes 4 (DwApplicationDataOffset cb)), Copy 32 (sc_Data cb)]"

definition binding :: "ChannelBindingsType \<Rightarrow> bytes \<Rightarrow> ChannelBindings" where
  "binding t xs = \<lparr>cb_Type = t, InitiatorAddrType = 0, InitiatorAddress = [], AcceptorAddrType = 0, AcceptorAddress = [], ApplicationData = xs\<rparr>"

definition EmptyChannelBindings :: ChannelBindings where
  "EmptyChannelBindings = binding TypeEmpty []"

definition GenerateCBTFromTLSUnique :: "bytes \<Rightarrow> err + ChannelBindings" where
  "GenerateCBTFromTLSUnique tlsUnique =
     (if tlsUnique = [] then Inl (ErrMsg ''tlsUnique is empty'')
      else Inr (binding TypeTLSUnique (str_bytes TLS_UNIQUE_PREFIX @ tlsUnique)))"

definition GenerateCBTFromTLSConnState :: "bool \<Rightarrow> bytes \<Rightarrow> err + ChannelBindings option" where
  "GenerateCBTFromTLSConnState tls13 tlsUnique =
     (if tls13 then Inr None else map_sum id Some (GenerateCBTFromTLSUnique tlsUnique))"

definition GenerateCBTFromTLSExporter :: "bytes \<Rightarrow> err + ChannelBindings" where
  "GenerateCBTFromTLSExporter exporterKey =
     (if exporterKey = [] then Inl (ErrMsg ''exporterKey is empty'')
      else Inr (binding TypeTLSExporter (str_bytes TLS_EXPORTER_PREFIX @ exporterKey)))"

text \<open>The signature algorithms of \<open>x509\<close> by the hash they use; the hashes are arguments.\<close>

datatype sig_alg = WithSHA256 | WithSHA384 | WithSHA512 | OtherAlgorithm

record certificate =
  SignatureAlgorithm :: sig_alg
  cert_Raw :: bytes

record hashes =
  h_SHA256 :: "bytes \<Rightarrow> bytes"
  h_SHA384 :: "bytes \<Rightarrow> bytes"
  h_SHA512 :: "bytes \<Rightarrow> bytes"

definition GenerateCBTFromServerCert :: "hashes \<Rightarrow> certificate option \<Rightarrow> ChannelBindings option" where
  "GenerateCBTFromServerCert h cert =
     (case cert of
        None \<Rightarrow> None
      | Some c \<Rightarrow>
          let certHash = (case SignatureAlgorithm c of
                            WithSHA256 \<Rightarrow> h_SHA256 h | WithSHA384 \<Rightarrow> h_SHA384 h | WithSHA512 \<Rightarrow> h_SHA512 h
                          | OtherAlgorithm \<Rightarrow> h_SHA256 h) (cert_Raw c)
          in Some (binding TypeTLSServerEndPoint (str_bytes TLS_SERVER_END_POINT_PREFIX @ certHash)))"

section \<open>The authenticator\<close>

text \<open>The cryptographic primitives, the random bytes, the clock in nanoseconds and the table of upper-case letters.\<close>

record ntdeps =
  nt_des :: "bytes \<Rightarrow> bytes \<Rightarrow> bytes"
  nt_md4 :: "bytes \<Rightarrow> bytes"
  nt_md5 :: "bytes \<Rightarrow> bytes"
  nt_hmac :: "bytes \<Rightarrow> bytes \<Rightarrow> bytes"
  nt_rand :: "err + bytes"
  nt_now :: u64
  nt_upper :: "rune \<Rightarrow> rune"

definition Md5Hash :: "ntdeps \<Rightarrow> ChannelBindings \<Rightarrow> fault + bytes" where
  "Md5Hash d cb = (if cb_Type cb = TypeEmpty then Inr (replicate 16 0) else sbind (cb_ToBytes cb) (\<lambda>xs. Inr (nt_md5 d xs)))"

record Auth =
  Domain :: string
  UserName :: string
  au_Password :: string
  Workstation :: string
  ChannelBinding :: bytes

definition SetChannelBinding :: "ntdeps \<Rightarrow> ChannelBindings \<Rightarrow> Auth \<Rightarrow> fault + Auth" where
  "SetChannelBinding d cb auth =
     (if cb_Type cb = TypeTLSExporter then Inr (auth\<lparr>ChannelBinding := ApplicationData cb\<rparr>)
      else sbind (Md5Hash d cb) (\<lambda>h. Inr (auth\<lparr>ChannelBinding := h\<rparr>)))"

definition getAuth :: "Config \<Rightarrow> err + Auth" where
  "getAuth config =
     (case SplitN2 (CHR 0x5C) (c_User config) of
        (_, None) \<Rightarrow> Inl (ErrMsg ''ntlm : invalid username %v'')
      | (domain, Some user) \<Rightarrow> Inr \<lparr>Domain = domain, UserName = user, au_Password = c_Password config, Workstation = c_Workstation config,
                                ChannelBinding = []\<rparr>)"

text \<open>\<open>utf16.EncodeRune\<close> gives two replacement characters for a rune that needs no surrogates.\<close>

definition IsSurrogate :: "rune \<Rightarrow> bool" where
  "IsSurrogate r \<longleftrightarrow> 0xD800 \<le> r \<and> r < 0xE000"

definition utf16le_rune :: "rune \<Rightarrow> bytes" where
  "utf16le_rune r =
     (if IsSurrogate r then [0xFD, 0xFF, 0xFD, 0xFF] else [word_of_nat r, word_of_nat (r div 256)])"

definition utf16le :: "string \<Rightarrow> bytes" where
  "utf16le val = concat (map utf16le_rune (runes val))"

definition NTLMSSP :: bytes where "NTLMSSP = str_bytes ''NTLMSSP'' @ [0]"

definition NEGOTIATE_MESSAGE :: nat where "NEGOTIATE_MESSAGE = 1"
definition CHALLENGE_MESSAGE :: nat where "CHALLENGE_MESSAGE = 2"
definition AUTHENTICATE_MESSAGE :: nat where "AUTHENTICATE_MESSAGE = 3"
definition NEGOTIATE_EXTENDED_SESSIONSECURITY :: u32 where "NEGOTIATE_EXTENDED_SESSIONSECURITY = 0x00080000"
definition NEGOTIATE_TARGET_INFO :: u32 where "NEGOTIATE_TARGET_INFO = 0x00800000"
definition NEGOTIATE_FLAGS :: u32 where
  "NEGOTIATE_FLAGS = 0x00000001 OR 0x00000200 OR 0x00001000 OR 0x00002000 OR 0x00008000 OR NEGOTIATE_EXTENDED_SESSIONSECURITY"

definition put_field :: "nat \<Rightarrow> nat \<Rightarrow> nat \<Rightarrow> store list" where
  "put_field i n off = [put16_at i n, put16_at (i + 2) n, put32_at (i + 4) off]"

definition InitialBytes :: "Auth \<Rightarrow> fault + bytes" where
  "InitialBytes auth =
     (let d = length (Domain auth); w = length (Workstation auth) in
      fill (40 + d + w)
        ([Copy 0 NTLMSSP, put32_at 8 NEGOTIATE_MESSAGE, Put 12 (le_bytes 4 NEGOTIATE_FLAGS)]
         @ put_field 16 d 40 @ put_field 24 w (40 + d)
         @ [put32_at 32 0, put32_at 36 0, Copy 40 (str_bytes (Domain auth)), Copy (40 + d) (str_bytes (Workstation auth))]))"

fun createDesKey :: "bytes \<Rightarrow> fault + bytes" where
  "createDesKey (b0 # b1 # b2 # b3 # b4 # b5 # b6 # _) =
     Inr [b0, push_bit 7 b0 OR drop_bit 1 (b1 AND 0xff), push_bit 6 b1 OR drop_bit 2 (b2 AND 0xff),
          push_bit 5 b2 OR drop_bit 3 (b3 AND 0xff), push_bit 4 b3 OR drop_bit 4 (b4 AND 0xff),
          push_bit 3 b4 OR drop_bit 5 (b5 AND 0xff), push_bit 2 b5 OR drop_bit 6 (b6 AND 0xff), push_bit 1 b6]"
| "createDesKey _ = Inl (RuntimePanic ''index out of range'')"

definition encryptDes :: "ntdeps \<Rightarrow> bytes \<Rightarrow> bytes \<Rightarrow> fault + bytes" where
  "encryptDes d key cleartext = sbind (createDesKey key) (\<lambda>desKey. Inr (nt_des d desKey cleartext))"

definition nt_response :: "ntdeps \<Rightarrow> bytes \<Rightarrow> bytes \<Rightarrow> fault + bytes" where
  "nt_response d challenge hash =
     sbind (encryptDes d (take 7 hash) challenge) (\<lambda>a.
       sbind (encryptDes d (take 7 (drop 7 hash)) challenge) (\<lambda>b.
         sbind (encryptDes d (drop 14 hash) challenge) (\<lambda>c. Inr (a @ b @ c))))"

definition lmHash :: "ntdeps \<Rightarrow> string \<Rightarrow> fault + bytes" where
  "lmHash d password =
     (let lmpass = into 14 (str_bytes (ToUpper (nt_upper d) password)); magic = str_bytes ''KGS!@#$%'' in
      sbind (encryptDes d (take 7 lmpass) magic) (\<lambda>a.
        sbind (encryptDes d (drop 7 lmpass) magic) (\<lambda>b. Inr (into 21 (a @ b)))))"

definition lmResponse :: "ntdeps \<Rightarrow> bytes \<Rightarrow> string \<Rightarrow> fault + bytes" where
  "lmResponse d challenge password = sbind (lmHash d password) (nt_response d challenge)"

definition ntlmHash :: "ntdeps \<Rightarrow> string \<Rightarrow> bytes" where
  "ntlmHash d password = into 21 (nt_md4 d (utf16le password))"

definition ntResponse :: "ntdeps \<Rightarrow> bytes \<Rightarrow> string \<Rightarrow> fault + bytes" where
  "ntResponse d challenge password = nt_response d challenge (ntlmHash d password)"

definition clientChallenge :: "ntdeps \<Rightarrow> fault + bytes" where
  "clientChallenge d = (case nt_rand d of Inl e \<Rightarrow> Inl (RuntimePanic ''rand'') | Inr xs \<Rightarrow> Inr (into 8 xs))"

definition ntlmSessionResponse :: "ntdeps \<Rightarrow> bytes \<Rightarrow> bytes \<Rightarrow> string \<Rightarrow> fault + bytes" where
  "ntlmSessionResponse d clientNonce serverChallenge password =
     nt_response d (take 8 (into 16 (nt_md5 d (serverChallenge @ clientNonce)))) (ntlmHash d password)"

definition ntlmHashNoPadding :: "ntdeps \<Rightarrow> string \<Rightarrow> bytes" where
  "ntlmHashNoPadding d val = into 16 (nt_md4 d (utf16le val))"

definition ntlm_blob :: "ntdeps \<Rightarrow> bytes \<Rightarrow> bytes \<Rightarrow> fault + bytes" where
  "ntlm_blob d nonce targetInfoFields =
     (let n = length targetInfoFields in
      fill (32 + n)
        [Put 0 (be_bytes 4 (0x01010000 :: u32)), Put 4 (be_bytes 4 (0 :: u32)), Put 8 (be_bytes 8 (nt_now d)), Copy 16 nonce,
         Put 24 (be_bytes 4 (0 :: u32)), Copy 28 targetInfoFields, Put (28 + n) (be_bytes 4 (0 :: u32))])"

definition ntlmV2Hash :: "ntdeps \<Rightarrow> string \<Rightarrow> string \<Rightarrow> string \<Rightarrow> bytes" where
  "ntlmV2Hash d userDomain username password =
     nt_hmac d (ntlmHashNoPadding d password) (utf16le (ToUpper (nt_upper d) username @ userDomain))"

definition getNTLMv2AndLMv2ResponsePayloads ::
    "ntdeps \<Rightarrow> string \<Rightarrow> string \<Rightarrow> string \<Rightarrow> bytes \<Rightarrow> bytes \<Rightarrow> bytes \<Rightarrow> fault + (bytes \<times> bytes)" where
  "getNTLMv2AndLMv2ResponsePayloads d userDomain username password challenge nonce targetInfoFields =
     (let v2 = ntlmV2Hash d userDomain username password in
      sbind (ntlm_blob d nonce targetInfoFields) (\<lambda>blob.
        Inr (nt_hmac d v2 (challenge @ blob) @ blob, nt_hmac d v2 (challenge @ nonce) @ nonce)))"

text \<open>The offsets of the challenge are \<open>uint32\<close> and their sums wrap around.\<close>

definition getNTLMv2TargetInfoFields :: "bytes \<Rightarrow> fault + bytes" where
  "getNTLMv2TargetInfoFields type2 =
     (let too_small = Inl (Err (ErrMsg ''mssql: while parsing NTLMv2 type 2 message, length %d too small for offset %d'')) in
      if length type2 < 20 then too_small
      else sbind (sbind (go_slice 14 16 type2) Uint16) (\<lambda>nameAllocated.
        sbind (sbind (go_slice 16 20 type2) Uint32) (\<lambda>nameOffset.
          if length type2 < unat (nameOffset + ucast nameAllocated) then too_small
          else sbind (sbind (go_slice 42 44 type2) Uint16) (\<lambda>infoAllocated.
            sbind (sbind (go_slice 44 48 type2) Uint32) (\<lambda>infoOffset.
              if length type2 < unat (infoOffset + ucast infoAllocated) then too_small
              else sbind (go_slice (unat infoOffset) (unat (infoOffset + ucast infoAllocated)) type2) (\<lambda>info.
                Inr (into (unat infoAllocated) info)))))))"

definition AV_PAIR_MsvAvChannelBindings :: u16 where "AV_PAIR_MsvAvChannelBindings = 0x000A"

definition av_pair_cb :: "bytes \<Rightarrow> bytes" where
  "av_pair_cb channelBinding = le_bytes 2 AV_PAIR_MsvAvChannelBindings @ le_bytes 2 (word_of_nat (length channelBinding) :: u16) @ channelBinding"

definition add_channel_binding :: "bytes \<Rightarrow> bytes \<Rightarrow> fault + bytes" where
  "add_channel_binding channelBinding info =
     (if channelBinding = [] then Inr info
      else if length info < 4 then out_of_range
      else Inr (take (length info - 4) info @ av_pair_cb channelBinding @ [0, 0, 0, 0]))"

definition negotiateExtendedSessionSecurity ::
    "ntdeps \<Rightarrow> u32 \<Rightarrow> bytes \<Rightarrow> bytes \<Rightarrow> string \<Rightarrow> string \<Rightarrow> string \<Rightarrow> bytes \<Rightarrow> fault + (bytes \<times> bytes)" where
  "negotiateExtendedSessionSecurity d flags type2 challenge username password userDom channelBinding =
     sbind (clientChallenge d) (\<lambda>nonce.
       if flags AND NEGOTIATE_TARGET_INFO \<noteq> 0 then
         sbind (getNTLMv2TargetInfoFields type2) (\<lambda>info.
           sbind (add_channel_binding channelBinding info) (\<lambda>info.
             sbind (getNTLMv2AndLMv2ResponsePayloads d userDom username password challenge nonce info) (\<lambda>(nt, lm). Inr (lm, nt))))
       else sbind (ntlmSessionResponse d nonce challenge password) (\<lambda>nt. Inr (into 24 (take 8 nonce), nt)))"

definition buildNTLMResponsePayload :: "bytes \<Rightarrow> bytes \<Rightarrow> u32 \<Rightarrow> string \<Rightarrow> string \<Rightarrow> string \<Rightarrow> fault + bytes" where
  "buildNTLMResponsePayload lm nt flags domain workstation username =
     (let l = length lm; n = length nt; domain16 = utf16le domain; d = length domain16; user16 = utf16le username; u = length user16;
          workstation16 = utf16le workstation; w = length workstation16 in
      fill (88 + l + n + d + u + w)
        ([Copy 0 NTLMSSP, put32_at 8 AUTHENTICATE_MESSAGE]
         @ put_field 12 l 88 @ put_field 20 n (88 + l) @ put_field 28 d (88 + l + n) @ put_field 36 u (88 + l + n + d)
         @ put_field 44 w (88 + l + n + d + u) @ put_field 52 0 (88 + l + n + d + u + w)
         @ [Put 60 (le_bytes 4 flags), put32_at 64 0, put32_at 68 0, put32_at 72 0, put32_at 76 0, put32_at 88 0, put32_at 84 0]
         @ [Copy 88 lm, Copy (88 + l) nt, Copy (88 + l + n) domain16, Copy (88 + l + n + d) user16, Copy (88 + l + n + d + u) workstation16]))"

definition NextBytes :: "ntdeps \<Rightarrow> Auth \<Rightarrow> bytes \<Rightarrow> fault + bytes" where
  "NextBytes d auth bytes =
     sbind (go_slice 0 8 bytes) (\<lambda>signature.
       if signature \<noteq> NTLMSSP then Inl (Err (ErrMsg ''NTLM protocol error''))
       else sbind (sbind (go_slice 8 12 bytes) Uint32) (\<lambda>messageTypeIndicator.
         if messageTypeIndicator \<noteq> word_of_nat CHALLENGE_MESSAGE then Inl (Err (ErrMsg ''NTLM protocol error''))
         else sbind (go_slice 24 32 bytes) (\<lambda>challenge.
           sbind (sbind (go_slice 20 24 bytes) Uint32) (\<lambda>flags.
             if flags AND NEGOTIATE_EXTENDED_SESSIONSECURITY \<noteq> 0 then
               sbind (negotiateExtendedSessionSecurity d flags bytes challenge (UserName auth) (au_Password auth) (Domain auth) (ChannelBinding auth))
                 (\<lambda>(lm, nt). buildNTLMResponsePayload lm nt flags (Domain auth) (Workstation auth) (UserName auth))
             else sbind (lmResponse d challenge (au_Password auth)) (\<lambda>lm.
               sbind (ntResponse d challenge (au_Password auth)) (\<lambda>nt.
                 buildNTLMResponsePayload lm nt flags (Domain auth) (Workstation auth) (UserName auth)))))))"

section \<open>The choice of an authenticator\<close>

text \<open>The registered providers; without a name in the connection string an error of the default one is not reported.\<close>

type_synonym 'a providers = "string \<rightharpoonup> (Config \<Rightarrow> err + 'a)"

definition getProvider :: "'a providers \<Rightarrow> string \<Rightarrow> err + (Config \<Rightarrow> err + 'a)" where
  "getProvider ps name = (case ps name of None \<Rightarrow> Inl (ErrMsg ''provider %v not found'') | Some p \<Rightarrow> Inr p)"

definition GetIntegratedAuthenticator :: "'a providers \<Rightarrow> string \<Rightarrow> Config \<Rightarrow> err + 'a option" where
  "GetIntegratedAuthenticator ps DefaultProviderName config =
     (case c_Parameters config ''authenticator'' of
        None \<Rightarrow> sbind (getProvider ps DefaultProviderName) (\<lambda>p. case p config of Inl _ \<Rightarrow> Inr None | Inr a \<Rightarrow> Inr (Some a))
      | Some name \<Rightarrow> sbind (getProvider ps name) (\<lambda>p. map_sum id Some (p config)))"

definition SetIntegratedAuthenticationProvider :: "string \<Rightarrow> (Config \<Rightarrow> err + 'a) option \<Rightarrow> 'a providers \<Rightarrow> err option \<times> 'a providers" where
  "SetIntegratedAuthenticationProvider name p ps =
     (case p of
        None \<Rightarrow> (Some (ErrMsg ''provider cannot be nil''), ps)
      | Some f \<Rightarrow> if name = [] then (Some (ErrMsg ''provider name must be populated''), ps) else (None, ps(name \<mapsto> f)))"

section \<open>Layout\<close>

text \<open>Stores that follow one another, each where the one before ended, write the concatenation of what they store.\<close>

fun chained :: "nat \<Rightarrow> store list \<Rightarrow> bool" where
  "chained i [] \<longleftrightarrow> True"
| "chained i (s # ss) \<longleftrightarrow> at_offset s = i \<and> chained (i + length (stored s)) ss"

lemma run_store_next:
  assumes "at_offset s = length pre" "length (stored s) \<le> length zs"
  shows "run_store s (pre @ zs) = Inr ((pre @ stored s) @ drop (length (stored s)) zs)"
  using assms by (cases s) (simp_all add: put_at_def)

lemma stores_chained:
  assumes "chained (length pre) ss" "length (concat (map stored ss)) \<le> length zs"
  shows "stores ss (pre @ zs) = Inr (pre @ concat (map stored ss) @ drop (length (concat (map stored ss))) zs)"
  using assms
proof (induction ss arbitrary: pre zs)
  case (Cons s ss)
  have "stores (s # ss) (pre @ zs) = stores ss ((pre @ stored s) @ drop (length (stored s)) zs)"
    using run_store_next [of s pre zs] Cons.prems by simp
  also have "\<dots> = Inr ((pre @ stored s) @ concat (map stored ss) @ drop (length (concat (map stored ss))) (drop (length (stored s)) zs))"
    using Cons.prems by (intro Cons.IH) simp_all
  finally show ?case by (simp add: add.commute)
qed simp

lemma stores_append: "stores (ss @ ss') m = sbind (stores ss m) (stores ss')"
  by (induction ss arbitrary: m) (auto split: sum.splits simp: sbind_def)

lemma stores_then: "stores ss m = Inr m1 \<Longrightarrow> stores ss' m1 = r \<Longrightarrow> stores (ss @ ss') m = r"
  by (simp add: stores_append)

text \<open>A value that is there already.\<close>

lemma put_same: "i + length xs \<le> length m \<Longrightarrow> take (length xs) (drop i m) = xs \<Longrightarrow> run_store (Put i xs) m = Inr m"
proof -
  assume a: "i + length xs \<le> length m" "take (length xs) (drop i m) = xs"
  have "m = take i m @ take (length xs) (drop i m) @ drop (i + length xs) m"
    by (metis append_take_drop_id drop_drop add.commute)
  with a show ?thesis by (simp add: put_at_def)
qed

lemma stores_zeros:
  assumes "chained 0 ss" "concat (map stored ss) = h" "length h \<le> n"
  shows "stores ss (replicate n 0) = Inr (h @ replicate (n - length h) 0)"
  using stores_chained [of "[]" ss "replicate n 0"] assms by simp

lemma fill_chained:
  assumes "chained 0 ss" "n = length (concat (map stored ss))"
  shows "fill n ss = Inr (concat (map stored ss))"
  using stores_chained [of "[]" ss "replicate n 0"] assms by (simp add: fill_def)

text \<open>How the peer finds a field: its length, the length again, and the offset of its bytes.\<close>

definition ntlm_field :: "nat \<Rightarrow> bytes \<Rightarrow> bytes" where
  "ntlm_field i m =
     (let n = unat (le_word (take 2 (drop i m)) :: u16); off = unat (le_word (take 4 (drop (i + 4) m)) :: u32)
      in take n (drop off m))"

definition field_bytes :: "nat \<Rightarrow> nat \<Rightarrow> bytes" where
  "field_bytes n off = le_bytes 2 (word_of_nat n :: u16) @ le_bytes 2 (word_of_nat n :: u16) @ le_bytes 4 (word_of_nat off :: u32)"

lemma length_field_bytes [simp]: "length (field_bytes n off) = 8"
  by (simp add: field_bytes_def)

lemma ntlm_field_located:
  assumes "m = A @ field_bytes (length xs) (length P) @ B" "m = P @ xs @ Q" "length xs < 2 ^ 16" "length P < 2 ^ 32"
  shows "ntlm_field (length A) m = xs"
proof -
  have "take 2 (drop (length A) m) = le_bytes 2 (word_of_nat (length xs) :: u16)"
    unfolding assms(1) field_bytes_def by simp
  moreover have "drop (length A + 4) m = le_bytes 4 (word_of_nat (length P) :: u32) @ B"
    unfolding assms(1) field_bytes_def by simp
  ultimately show ?thesis using assms(3,4) unfolding ntlm_field_def
    by (simp add: le_codec unat_of_nat assms(2))
qed

lemma put_field_chained: "chained i (put_field i n off @ ss) \<longleftrightarrow> chained (i + 8) ss"
  by (simp add: put_field_def put16_at_def put32_at_def add.commute)

lemma put_field_stored: "concat (map stored (put_field i n off)) = field_bytes n off"
  by (simp add: put_field_def put16_at_def put32_at_def field_bytes_def)

lemma length_NTLMSSP [simp]: "length NTLMSSP = 8"
  by (simp add: NTLMSSP_def str_bytes_def)

text \<open>The answer to a challenge: 88 bytes with the fields, then the five parts.\<close>

definition auth_header :: "u32 \<Rightarrow> nat \<Rightarrow> nat \<Rightarrow> nat \<Rightarrow> nat \<Rightarrow> nat \<Rightarrow> bytes" where
  "auth_header flags l n d u w =
     NTLMSSP @ le_bytes 4 (word_of_nat AUTHENTICATE_MESSAGE :: u32) @ field_bytes l 88 @ field_bytes n (88 + l) @ field_bytes d (88 + l + n)
     @ field_bytes u (88 + l + n + d) @ field_bytes w (88 + l + n + d + u) @ field_bytes 0 (88 + l + n + d + u + w)
     @ le_bytes 4 flags @ replicate 24 0"

lemma length_auth_header [simp]: "length (auth_header flags l n d u w) = 88"
  by (simp add: auth_header_def)

lemma zero32: "le_bytes 4 (0 :: u32) = [0, 0, 0, 0]"
  by (simp add: eval_nat_numeral)

lemma buildNTLMResponsePayload_layout:
  assumes "4 \<le> length lm"
  shows "buildNTLMResponsePayload lm nt flags domain workstation username = Inr (auth_header flags (length lm) (length nt)
     (length (utf16le domain)) (length (utf16le username)) (length (utf16le workstation)) @ lm @ nt @ utf16le domain @ utf16le username @ utf16le workstation)"
proof -
  let ?l = "length lm" and ?n = "length nt" and ?d = "length (utf16le domain)" and ?u = "length (utf16le username)" and ?w = "length (utf16le workstation)"
  let ?N = "88 + ?l + ?n + ?d + ?u + ?w"
  let ?S1 = "[Copy 0 NTLMSSP, put32_at 8 AUTHENTICATE_MESSAGE]
         @ put_field 12 ?l 88 @ put_field 20 ?n (88 + ?l) @ put_field 28 ?d (88 + ?l + ?n) @ put_field 36 ?u (88 + ?l + ?n + ?d)
         @ put_field 44 ?w (88 + ?l + ?n + ?d + ?u) @ put_field 52 0 (88 + ?l + ?n + ?d + ?u + ?w)
         @ [Put 60 (le_bytes 4 flags), put32_at 64 0, put32_at 68 0, put32_at 72 0, put32_at 76 0]"
  let ?S3 = "[Copy 88 lm, Copy (88 + ?l) nt, Copy (88 + ?l + ?n) (utf16le domain), Copy (88 + ?l + ?n + ?d) (utf16le username),
        Copy (88 + ?l + ?n + ?d + ?u) (utf16le workstation)]"
  let ?h = "auth_header flags ?l ?n ?d ?u ?w"
  have h: "concat (map stored ?S1) = take 80 ?h" "?h = take 80 ?h @ replicate 8 0"
    by (simp_all add: put_field_stored auth_header_def put32_at_def zero32 eval_nat_numeral)
  have "chained 0 ?S1" by (simp add: put_field_chained put32_at_def)
  from stores_zeros [OF this h(1), of ?N]
  have "stores ?S1 (replicate ?N 0) = Inr (take 80 ?h @ replicate (8 + (?N - 88)) 0)" by simp
  then have s1: "stores ?S1 (replicate ?N 0) = Inr (?h @ replicate (?N - 88) 0)"
    by (subst h(2)) (simp only: replicate_add append_assoc)
  have "take 4 (drop 84 (?h @ replicate (?N - 88) 0)) = [0, 0, 0, 0]" by (subst h(2)) (simp add: eval_nat_numeral)
  then have s2: "run_store (put32_at 88 0) (?h @ replicate (?N - 88) 0) = Inr (?h @ replicate (?N - 88) 0)"
    "run_store (put32_at 84 0) (?h @ replicate (?N - 88) 0) = Inr (?h @ replicate (?N - 88) 0)"
    using assms unfolding put32_at_def by (intro put_same; simp add: zero32 eval_nat_numeral)+
  have s3: "stores ?S3 (?h @ replicate (?N - 88) 0) = Inr (?h @ lm @ nt @ utf16le domain @ utf16le username @ utf16le workstation)"
    using stores_chained [of ?h ?S3 "replicate (?N - 88) 0"] by simp
  have "stores ([put32_at 88 0, put32_at 84 0] @ ?S3) (?h @ replicate (?N - 88) 0)
      = Inr (?h @ lm @ nt @ utf16le domain @ utf16le username @ utf16le workstation)"
    by (rule stores_then [OF _ s3]) (simp only: stores.simps s2 sbind_simps)
  from stores_then [OF s1 this]
  have "stores (?S1 @ [put32_at 88 0, put32_at 84 0] @ ?S3) (replicate ?N 0)
      = Inr (?h @ lm @ nt @ utf16le domain @ utf16le username @ utf16le workstation)" .
  then show ?thesis
    unfolding buildNTLMResponsePayload_def fill_def Let_def by simp
qed

text \<open>Every field is where the header says.\<close>

lemma auth_fields:
  assumes "m = auth_header flags (length lm) (length nt) (length dm) (length us) (length ws) @ lm @ nt @ dm @ us @ ws"
    "length lm < 2 ^ 16" "length nt < 2 ^ 16" "length dm < 2 ^ 16" "length us < 2 ^ 16" "length ws < 2 ^ 16"
  shows "ntlm_field 12 m = lm" "ntlm_field 20 m = nt" "ntlm_field 28 m = dm" "ntlm_field 36 m = us" "ntlm_field 44 m = ws"
    "le_word (take 4 (drop 60 m)) = flags" "take 12 m = NTLMSSP @ le_bytes 4 (word_of_nat AUTHENTICATE_MESSAGE :: u32)"
proof -
  let ?l = "length lm" and ?n = "length nt" and ?d = "length dm" and ?u = "length us" and ?w = "length ws"
  let ?t = "NTLMSSP @ le_bytes 4 (word_of_nat AUTHENTICATE_MESSAGE :: u32)"
  let ?h = "auth_header flags ?l ?n ?d ?u ?w"
  let ?f1 = "field_bytes ?l 88" and ?f2 = "field_bytes ?n (88 + ?l)" and ?f3 = "field_bytes ?d (88 + ?l + ?n)"
    and ?f4 = "field_bytes ?u (88 + ?l + ?n + ?d)" and ?f5 = "field_bytes ?w (88 + ?l + ?n + ?d + ?u)" and ?f6 = "field_bytes 0 (88 + ?l + ?n + ?d + ?u + ?w)"
  note loc = ntlm_field_located [where m = m]
  have e: "m = ?t @ ?f1 @ ?f2 @ ?f3 @ ?f4 @ ?f5 @ ?f6 @ le_bytes 4 flags @ replicate 24 0 @ lm @ nt @ dm @ us @ ws"
    by (simp add: assms(1) auth_header_def)
  show "ntlm_field 12 m = lm"
    using loc [of ?t lm ?h _ "nt @ dm @ us @ ws"] assms by (simp add: auth_header_def)
  show "ntlm_field 20 m = nt"
    using loc [of "?t @ ?f1" nt "?h @ lm" _ "dm @ us @ ws"] assms by (simp add: auth_header_def)
  show "ntlm_field 28 m = dm"
    using loc [of "?t @ ?f1 @ ?f2" dm "?h @ lm @ nt" _ "us @ ws"] assms by (simp add: auth_header_def add.assoc)
  show "ntlm_field 36 m = us"
    using loc [of "?t @ ?f1 @ ?f2 @ ?f3" us "?h @ lm @ nt @ dm" _ ws] assms by (simp add: auth_header_def add.assoc)
  show "ntlm_field 44 m = ws"
    using loc [of "?t @ ?f1 @ ?f2 @ ?f3 @ ?f4" ws "?h @ lm @ nt @ dm @ us" _ "[]"] assms by (simp add: auth_header_def add.assoc)
  show "le_word (take 4 (drop 60 m)) = flags" "take 12 m = ?t" unfolding e by (simp_all add: le_codec)
qed

section \<open>Challenge and answer\<close>

text \<open>The challenge of a server, with a target name and the pairs of the target information.\<close>

definition challenge_message :: "u32 \<Rightarrow> bytes \<Rightarrow> bytes \<Rightarrow> bytes \<Rightarrow> bytes \<Rightarrow> bytes" where
  "challenge_message flags challenge version name info =
     NTLMSSP @ le_bytes 4 (word_of_nat CHALLENGE_MESSAGE :: u32) @ field_bytes (length name) 56 @ le_bytes 4 flags @ challenge @ replicate 8 0
     @ field_bytes (length info) (56 + length name) @ version @ name @ info"

lemma go_slice_mid: "m = A @ xs @ B \<Longrightarrow> length A = i \<Longrightarrow> i + length xs = j \<Longrightarrow> go_slice i j m = Inr xs"
  by (auto simp: go_slice_def)

lemma into_same [simp]: "length xs = n \<Longrightarrow> into n xs = xs"
  by (simp add: into_def)

lemma le_read:
  "Uint16 (le_bytes 2 v) = Inr v" "Uint32 (le_bytes 4 w) = Inr w"
  using Uint16_le [of v "[]"] Uint32_le [of w "[]"] by simp_all

lemma ucast_length: "n < 2 ^ 16 \<Longrightarrow> ucast (word_of_nat n :: u16) = (word_of_nat n :: u32)"
  by (rule word_unat_eq_iff [THEN iffD2]) (simp add: unat_of_nat unsigned_ucast_eq take_bit_nat_eq_self_iff)

lemma unat_offset:
  assumes "n < 2 ^ 16" "k < 2 ^ 17"
  shows "unat (word_of_nat k + ucast (word_of_nat n :: u16) :: u32) = k + n"
proof -
  have "word_of_nat k + ucast (word_of_nat n :: u16) = (word_of_nat (k + n) :: u32)" by (simp only: ucast_length [OF assms(1)] of_nat_add)
  moreover have "k + n < 2 ^ 32" using assms by simp
  ultimately show ?thesis by (simp only: unat_of_nat) simp
qed

lemma target_info_read:
  assumes "length challenge = 8" "length version = 8" "length name < 2 ^ 16" "length info < 2 ^ 16"
  shows "getNTLMv2TargetInfoFields (challenge_message flags challenge version name info) = Inr info"
proof -
  let ?m = "challenge_message flags challenge version name info" and ?t = "NTLMSSP @ le_bytes 4 (word_of_nat CHALLENGE_MESSAGE :: u32)"
  let ?n = "word_of_nat (length name) :: u16" and ?i = "word_of_nat (length info) :: u16" and ?o = "word_of_nat (56 + length name) :: u32"
  have l: "length ?m = 56 + length name + length info" using assms by (simp add: challenge_message_def)
  note d = challenge_message_def field_bytes_def
  have "go_slice 14 16 ?m = Inr (le_bytes 2 ?n)" "go_slice 16 20 ?m = Inr (le_bytes 4 (56 :: u32))"
    using go_slice_mid [of ?m "?t @ le_bytes 2 ?n" "le_bytes 2 ?n"] go_slice_mid [of ?m "?t @ le_bytes 2 ?n @ le_bytes 2 ?n" "le_bytes 4 (56 :: u32)"]
    by (simp_all add: d)
  moreover have "go_slice 42 44 ?m = Inr (le_bytes 2 ?i)" "go_slice 44 48 ?m = Inr (le_bytes 4 ?o)"
    using go_slice_mid [of ?m "take 42 ?m" "le_bytes 2 ?i" "drop 44 ?m"] go_slice_mid [of ?m "take 44 ?m" "le_bytes 4 ?o" "drop 48 ?m"] assms
    by (simp_all add: d)
  moreover have "unat (56 + ucast ?n :: u32) = 56 + length name" "unat ?o = 56 + length name" "unat (?o + ucast ?i) = 56 + length name + length info"
    "unat ?i = length info"
    using assms unat_offset [of "length name" 56] unat_offset [of "length info" "56 + length name"] unat_offset [of 0 "56 + length name"]
    by (simp_all add: unat_of_nat)
  moreover have "go_slice (56 + length name) (56 + length name + length info) ?m = Inr info"
    using assms by (simp add: go_slice_def l) (simp add: d)
  ultimately show ?thesis by (simp add: getNTLMv2TargetInfoFields_def Let_def le_read l)
qed

lemma blob_layout:
  assumes "length nonce = 8"
  shows "ntlm_blob d nonce info = Inr (be_bytes 4 (0x01010000 :: u32) @ be_bytes 4 (0 :: u32) @ be_bytes 8 (nt_now d) @ nonce
     @ be_bytes 4 (0 :: u32) @ info @ be_bytes 4 (0 :: u32))"
  using assms unfolding ntlm_blob_def Let_def by (subst fill_chained) simp_all

text \<open>
  The server's side, as the protocol describes it: the key is the authentication code of the upper-case user name and the domain in UTF-16, under the MD4 hash of the password in
  UTF-16; a response is accepted if it begins with the authentication code, under this key, of the server's challenge and of what follows in the response. Nothing of the
  driver's own key derivation is used.
\<close>

definition NTOWFv2 :: "ntdeps \<Rightarrow> string \<Rightarrow> string \<Rightarrow> string \<Rightarrow> bytes" where
  "NTOWFv2 d password user domain = nt_hmac d (nt_md4 d (str2ucs2 password)) (str2ucs2 (ToUpper (nt_upper d) user @ domain))"

definition v2_accepts :: "ntdeps \<Rightarrow> bytes \<Rightarrow> bytes \<Rightarrow> bytes \<Rightarrow> bool" where
  "v2_accepts d key challenge r \<longleftrightarrow> take 16 r = nt_hmac d key (challenge @ drop 16 r)"

text \<open>Only characters of the basic plane, on which the driver's conversion is UTF-16.\<close>

definition basic_plane :: "string \<Rightarrow> bool" where
  "basic_plane s \<longleftrightarrow> list_all (\<lambda>r. r < 0x10000) (runes s)"

definition bound_info :: "bytes \<Rightarrow> bytes \<Rightarrow> bytes" where
  "bound_info cb pairs = pairs @ (if cb = [] then [] else av_pair_cb cb) @ [0, 0, 0, 0]"

lemma payloads_accepted:
  assumes "length nonce = 8" "\<And>k x. length (nt_hmac d k x) = 16"
  shows "\<exists>nt. getNTLMv2AndLMv2ResponsePayloads d dm us pw challenge nonce info = Inr (nt, nt_hmac d (ntlmV2Hash d dm us pw) (challenge @ nonce) @ nonce)
     \<and> length nt = 48 + length info \<and> v2_accepts d (ntlmV2Hash d dm us pw) challenge nt \<and> take 8 (drop 32 nt) = nonce \<and> drop 44 nt = info @ [0, 0, 0, 0]"
  using assms by (simp add: getNTLMv2AndLMv2ResponsePayloads_def blob_layout v2_accepts_def be_bytes_def zero32 Let_def)

text \<open>The first message.\<close>

lemma InitialBytes_fields:
  assumes "length (Domain auth) < 2 ^ 16" "length (Workstation auth) < 2 ^ 16"
  shows "\<exists>m. InitialBytes auth = Inr m \<and> take 16 m = NTLMSSP @ le_bytes 4 (1 :: u32) @ le_bytes 4 NEGOTIATE_FLAGS
     \<and> ntlm_field 16 m = str_bytes (Domain auth) \<and> ntlm_field 24 m = str_bytes (Workstation auth)"
proof -
  let ?d = "length (Domain auth)" and ?w = "length (Workstation auth)"
  let ?t = "NTLMSSP @ le_bytes 4 (word_of_nat NEGOTIATE_MESSAGE :: u32) @ le_bytes 4 NEGOTIATE_FLAGS"
  let ?h = "?t @ field_bytes ?d 40 @ field_bytes ?w (40 + ?d) @ replicate 8 0"
  let ?S = "[Copy 0 NTLMSSP, put32_at 8 NEGOTIATE_MESSAGE, Put 12 (le_bytes 4 NEGOTIATE_FLAGS)]
         @ put_field 16 ?d 40 @ put_field 24 ?w (40 + ?d)
         @ [put32_at 32 0, put32_at 36 0, Copy 40 (str_bytes (Domain auth)), Copy (40 + ?d) (str_bytes (Workstation auth))]"
  let ?m = "?h @ str_bytes (Domain auth) @ str_bytes (Workstation auth)"
  have c: "concat (map stored ?S) = ?m" by (simp add: put_field_stored put32_at_def zero32 eval_nat_numeral)
  have "fill (length ?m) ?S = Inr (concat (map stored ?S))"
    by (rule fill_chained) (simp_all only: c, simp add: put_field_chained put32_at_def)
  then have m: "InitialBytes auth = Inr ?m" unfolding InitialBytes_def Let_def c by (simp add: add.assoc)
  have f: "ntlm_field 16 ?m = str_bytes (Domain auth)" "ntlm_field 24 ?m = str_bytes (Workstation auth)"
    using ntlm_field_located [where m = ?m and A = ?t and xs = "str_bytes (Domain auth)" and P = ?h]
      ntlm_field_located [where m = ?m and A = "?t @ field_bytes ?d 40" and xs = "str_bytes (Workstation auth)" and P = "?h @ str_bytes (Domain auth)" and Q = "[]"]
      assms by simp_all
  show ?thesis by (intro exI [of _ ?m] conjI m f) (simp add: NEGOTIATE_MESSAGE_def)
qed

text \<open>The domain is what stands before the first backslash of the user name.\<close>

lemma getAuth_user:
  assumes "CHR 0x5C \<notin> set dm" "c_User cfg = dm @ CHR 0x5C # us"
  shows "\<exists>a. getAuth cfg = Inr a \<and> Domain a = dm \<and> UserName a = us \<and> au_Password a = c_Password cfg"
  using SplitN2_append [OF assms(1)] assms(2) by (simp add: getAuth_def)

text \<open>
  \<open>utf16le\<close> is UTF-16 for the characters of the basic plane. Runes of a string are never surrogates, so the branch for them
  is not taken, and other characters lose their upper bits.
\<close>

lemma utf16le_basic: "list_all (\<lambda>r. r < 0x10000) (runes s) \<Longrightarrow> utf16le s = str2ucs2 s"
proof -
  have "list_all (\<lambda>r. r < 0x10000) rs \<Longrightarrow> list_all scalar rs \<Longrightarrow> concat (map utf16le_rune rs) = units_bytes (utf16_Encode rs)" for rs
  proof (induction rs)
    case (Cons r rs)
    then have r: "r < 0xD800 \<or> (0xE000 \<le> r \<and> r < 0x10000)" by (auto simp: scalar_def)
    moreover have "ucast (drop_bit 8 (word_of_nat r :: u16)) = (word_of_nat (r div 256) :: byte)" "ucast (word_of_nat r :: u16) = (word_of_nat r :: byte)"
      using r by (auto simp: word_unat_eq_iff unsigned_ucast_eq unsigned_drop_bit_eq unat_of_nat take_bit_eq_mod drop_bit_eq_div unat_div)
    ultimately show ?case using Cons by (auto simp: utf16le_rune_def IsSurrogate_def)
  qed simp
  then show "list_all (\<lambda>r. r < 0x10000) (runes s) \<Longrightarrow> utf16le s = str2ucs2 s"
    by (simp add: utf16le_def str2ucs2_def runes_def utf8_runes_scalar)
qed

lemma driver_key:
  assumes "\<And>x. length (nt_md4 d x) = 16" "basic_plane pw" "basic_plane (ToUpper (nt_upper d) us @ dm)"
  shows "ntlmV2Hash d dm us pw = NTOWFv2 d pw us dm"
  using assms by (simp add: ntlmV2Hash_def NTOWFv2_def ntlmHashNoPadding_def basic_plane_def utf16le_basic)

lemma utf16le_supplementary: "runes s = [0x1F600] \<Longrightarrow> utf16le s = [0x00, 0xF6] \<and> str2ucs2 s = [0x3D, 0xD8, 0x00, 0xDE]"
  by (simp add: utf16le_def utf16le_rune_def IsSurrogate_def str2ucs2_def)

text \<open>A DES key has the 56 bits of the seven bytes in the upper seven bits of its eight.\<close>

definition upper_bits :: "byte \<Rightarrow> bool list" where
  "upper_bits b = map (bit b) [7, 6, 5, 4, 3, 2, 1]"

definition all_bits :: "byte \<Rightarrow> bool list" where
  "all_bits b = map (bit b) [7, 6, 5, 4, 3, 2, 1, 0]"

lemma createDesKey_bits:
  assumes "length bs = 7"
  shows "\<exists>k. createDesKey bs = Inr k \<and> length k = 8 \<and> concat (map upper_bits k) = concat (map all_bits bs)"
proof -
  obtain b0 b1 b2 b3 b4 b5 b6 where "bs = [b0, b1, b2, b3, b4, b5, b6]"
    using assms by (auto simp: numeral_eq_Suc length_Suc_conv)
  then show ?thesis by (simp add: upper_bits_def all_bits_def bit_simps)
      (simp add: mult.commute [of _ "2 :: byte"] bit_simps numeral_2_eq_2 numeral_3_eq_3)
qed

text \<open>Challenges that are too short end in a panic instead of an error.\<close>

lemma NextBytes_short: "length m < 8 \<Longrightarrow> NextBytes d auth m = out_of_range"
  by (simp add: NextBytes_def go_slice_def out_of_range_def)

lemma target_info_missing:
  assumes "20 \<le> length m" "length m < 44" "take 8 (drop 12 m) = field_bytes 0 0"
  shows "getNTLMv2TargetInfoFields m = out_of_range"
proof -
  have "take 2 (drop 2 (take 8 (drop 12 m))) = le_bytes 2 (0 :: u16)" "take 4 (drop 4 (take 8 (drop 12 m))) = le_bytes 4 (0 :: u32)"
    unfolding assms(3) field_bytes_def by simp_all
  then have "take 2 (drop 14 m) = le_bytes 2 (0 :: u16)" "take 4 (drop 16 m) = le_bytes 4 (0 :: u32)"
    by (simp_all add: drop_take)
  with assms(1,2) show ?thesis by (simp add: getNTLMv2TargetInfoFields_def Let_def go_slice_def le_read out_of_range_def)
qed

text \<open>The bytes of channel bindings, and those of the structure of Windows.\<close>

lemma cb_ToBytes_layout:
  assumes "20 + length (InitiatorAddress cb) + length (AcceptorAddress cb) + length (ApplicationData cb) < 2 ^ 32"
  shows "cb_ToBytes cb = Inr (le_bytes 4 (InitiatorAddrType cb) @ le_bytes 4 (word_of_nat (length (InitiatorAddress cb)) :: u32) @ InitiatorAddress cb
     @ le_bytes 4 (AcceptorAddrType cb) @ le_bytes 4 (word_of_nat (length (AcceptorAddress cb)) :: u32) @ AcceptorAddress cb
     @ le_bytes 4 (word_of_nat (length (ApplicationData cb)) :: u32) @ ApplicationData cb)"
proof -
  let ?a = "length (InitiatorAddress cb)" and ?b = "length (AcceptorAddress cb)" and ?c = "length (ApplicationData cb)"
  have "20 + word_of_nat (?a + ?b + ?c) = (word_of_nat (20 + (?a + ?b + ?c)) :: u32)" by simp
  then have n: "unat (20 + word_of_nat (?a + ?b + ?c) :: u32) = 20 + (?a + ?b + ?c)" using assms by (simp only: unat_of_nat) simp
  show ?thesis unfolding cb_ToBytes_def Let_def n
    by (subst fill_chained) (simp_all add: put32_at_def split: if_splits)
qed

lemma le4_inject: "le_bytes 4 x = le_bytes 4 y \<longleftrightarrow> x = (y :: u32)"
proof
  assume e: "le_bytes 4 x = le_bytes 4 y"
  have c: "le_word (le_bytes 4 z) = z" for z :: u32 by (rule le_codec) simp
  have "le_word (le_bytes 4 x) = (le_word (le_bytes 4 y) :: u32)" by (simp only: e)
  then show "x = y" by (simp only: c)
qed simp

lemma length_inject: "a < 2 ^ 32 \<Longrightarrow> b < 2 ^ 32 \<Longrightarrow> (word_of_nat a :: u32) = word_of_nat b \<longleftrightarrow> a = b"
  by (simp add: word_unat_eq_iff unat_of_nat)

text \<open>Channel bindings with the same bytes are the same but for their type.\<close>

lemma cb_ToBytes_inject:
  assumes "20 + length (InitiatorAddress a) + length (AcceptorAddress a) + length (ApplicationData a) < 2 ^ 32"
    "20 + length (InitiatorAddress b) + length (AcceptorAddress b) + length (ApplicationData b) < 2 ^ 32" "cb_ToBytes a = cb_ToBytes b"
  shows "a = b\<lparr>cb_Type := cb_Type a\<rparr>"
proof -
  have l: "length (InitiatorAddress a) < 2 ^ 32" "length (InitiatorAddress b) < 2 ^ 32" "length (AcceptorAddress a) < 2 ^ 32" "length (AcceptorAddress b) < 2 ^ 32"
    using assms(1,2) by simp_all
  from assms(3) have 1: "InitiatorAddrType a = InitiatorAddrType b" "length (InitiatorAddress a) = length (InitiatorAddress b)"
    using l by (simp_all add: cb_ToBytes_layout [OF assms(1)] cb_ToBytes_layout [OF assms(2)] le4_inject length_inject)
  with assms(3) have 2: "InitiatorAddress a = InitiatorAddress b" "AcceptorAddrType a = AcceptorAddrType b" "length (AcceptorAddress a) = length (AcceptorAddress b)"
    using l by (simp_all add: cb_ToBytes_layout [OF assms(1)] cb_ToBytes_layout [OF assms(2)] le4_inject length_inject)
  with 1 assms(3) have "AcceptorAddress a = AcceptorAddress b" "ApplicationData a = ApplicationData b"
    by (simp_all add: cb_ToBytes_layout [OF assms(1)] cb_ToBytes_layout [OF assms(2)])
  with 1 2 show ?thesis by simp
qed

section \<open>Authentication\<close>

text \<open>
  C15. The authenticator answers the challenge of a server with target information by a message in which the server finds domain, user and
  workstation in UTF-16 where the header says, its flags, and two responses it accepts: each is the authentication code, under
  the key \<open>NTOWFv2\<close> that the server derives itself from password, upper-case user name and domain, of the server's challenge and of what stands behind the code. Behind the code of the
  longer response stand, among others, the client's nonce, the target
  information of the server and the channel binding of the connection in front of its end; behind that of the shorter one stands the nonce.
  It is for passwords and names of characters of the basic plane: others are not encoded in UTF-16 (\<open>utf16le_supplementary\<close>), and a server refuses them. What a server makes of the time stamp in the
  longer response, which is not in the format of the protocol, is outside of it, and so are challenges without extended session security or target information.
\<close>

theorem NextBytes_accepted:
  assumes "nt_rand d = Inr nonce" "length nonce = 8" "\<And>k x. length (nt_hmac d k x) = 16" "\<And>x. length (nt_md4 d x) = 16"
    and "flags AND NEGOTIATE_EXTENDED_SESSIONSECURITY \<noteq> 0" "flags AND NEGOTIATE_TARGET_INFO \<noteq> 0"
    and "length challenge = 8" "length version = 8" "length name < 2 ^ 16"
    and "length (bound_info (ChannelBinding auth) pairs) + 48 < 2 ^ 16"
    and "basic_plane (au_Password auth)" "basic_plane (ToUpper (nt_upper d) (UserName auth) @ Domain auth)"
    and "basic_plane (Domain auth)" "basic_plane (UserName auth)" "basic_plane (Workstation auth)"
    and "length (str2ucs2 (Domain auth)) < 2 ^ 16" "length (str2ucs2 (UserName auth)) < 2 ^ 16" "length (str2ucs2 (Workstation auth)) < 2 ^ 16"
  shows "\<exists>m. NextBytes d auth (challenge_message flags challenge version name (pairs @ [0, 0, 0, 0])) = Inr m
     \<and> take 12 m = NTLMSSP @ le_bytes 4 (3 :: u32) \<and> le_word (take 4 (drop 60 m)) = flags
     \<and> ntlm_field 28 m = str2ucs2 (Domain auth) \<and> ntlm_field 36 m = str2ucs2 (UserName auth) \<and> ntlm_field 44 m = str2ucs2 (Workstation auth)
     \<and> v2_accepts d (NTOWFv2 d (au_Password auth) (UserName auth) (Domain auth)) challenge (ntlm_field 20 m)
     \<and> v2_accepts d (NTOWFv2 d (au_Password auth) (UserName auth) (Domain auth)) challenge (ntlm_field 12 m)
     \<and> take 8 (drop 32 (ntlm_field 20 m)) = nonce \<and> drop 44 (ntlm_field 20 m) = bound_info (ChannelBinding auth) pairs @ [0, 0, 0, 0]
     \<and> drop 16 (ntlm_field 12 m) = nonce"
proof -
  let ?cb = "ChannelBinding auth" and ?v2 = "ntlmV2Hash d (Domain auth) (UserName auth) (au_Password auth)"
  let ?info = "pairs @ [0, 0, 0, 0]" and ?b = "bound_info (ChannelBinding auth) pairs"
  let ?c = "challenge_message flags challenge version name (pairs @ [0, 0, 0, 0])" and ?lm = "nt_hmac d ?v2 (challenge @ nonce) @ nonce"
  have key: "?v2 = NTOWFv2 d (au_Password auth) (UserName auth) (Domain auth)" by (rule driver_key [OF assms(4,11,12)])
  have u: "utf16le (Domain auth) = str2ucs2 (Domain auth)" "utf16le (UserName auth) = str2ucs2 (UserName auth)"
    "utf16le (Workstation auth) = str2ucs2 (Workstation auth)"
    using assms(13-15) by (simp_all add: basic_plane_def utf16le_basic)
  have i: "length ?info < 2 ^ 16" using assms(10) by (simp add: bound_info_def)
  obtain nt where nt: "getNTLMv2AndLMv2ResponsePayloads d (Domain auth) (UserName auth) (au_Password auth) challenge nonce ?b = Inr (nt, ?lm)"
    "length nt = 48 + length ?b" "v2_accepts d ?v2 challenge nt" "take 8 (drop 32 nt) = nonce" "drop 44 nt = ?b @ [0, 0, 0, 0]"
    using payloads_accepted [OF assms(2,3)] by blast
  have "add_channel_binding ?cb ?info = Inr ?b" by (simp add: add_channel_binding_def bound_info_def)
  then have n: "negotiateExtendedSessionSecurity d flags ?c challenge (UserName auth) (au_Password auth) (Domain auth) ?cb = Inr (?lm, nt)"
    using assms(1,2,6) nt(1) target_info_read [OF assms(7-9) i]
    by (simp add: negotiateExtendedSessionSecurity_def clientChallenge_def)
  have lm: "length ?lm = 24" "v2_accepts d ?v2 challenge ?lm" "drop 16 ?lm = nonce" using assms(2,3) by (simp_all add: v2_accepts_def)
  have s: "go_slice 0 8 ?c = Inr NTLMSSP" "go_slice 8 12 ?c = Inr (le_bytes 4 (word_of_nat CHALLENGE_MESSAGE :: u32))"
    "go_slice 24 32 ?c = Inr challenge" "go_slice 20 24 ?c = Inr (le_bytes 4 flags)"
    using assms(7) by (simp_all add: go_slice_def challenge_message_def)
  have r: "NextBytes d auth ?c = buildNTLMResponsePayload ?lm nt flags (Domain auth) (Workstation auth) (UserName auth)"
    using assms(5) by (simp add: NextBytes_def s le_read n)
  let ?m = "auth_header flags (length ?lm) (length nt) (length (str2ucs2 (Domain auth))) (length (str2ucs2 (UserName auth)))
     (length (str2ucs2 (Workstation auth))) @ ?lm @ nt @ str2ucs2 (Domain auth) @ str2ucs2 (UserName auth) @ str2ucs2 (Workstation auth)"
  have m: "NextBytes d auth ?c = Inr ?m" unfolding r u [symmetric] by (rule buildNTLMResponsePayload_layout) (use lm(1) in simp)
  have "length ?lm < 2 ^ 16" "length nt < 2 ^ 16" using lm(1) nt(2) assms(10) by simp_all
  note f = auth_fields [OF refl this assms(16-18), of flags]
  show ?thesis unfolding key [symmetric]
    by (intro exI [of _ ?m] conjI m) (simp_all only: f nt(3-5) lm(2,3) AUTHENTICATE_MESSAGE_def of_nat_numeral)
qed

definition ex_ntdeps :: ntdeps where
  "ex_ntdeps = \<lparr>nt_des = (\<lambda>k x. x), nt_md4 = into 16, nt_md5 = into 16, nt_hmac = (\<lambda>k x. into 16 (map2 (XOR) (k @ replicate 16 1) x)),
     nt_rand = Inr [1, 2, 3, 4, 5, 6, 7, 8], nt_now = 0, nt_upper = id\<rparr>"

definition ex_Auth :: Auth where
  "ex_Auth = \<lparr>Domain = ''dom'', UserName = ''joe'', au_Password = ''secret'', Workstation = ''pc'', ChannelBinding = [9, 9]\<rparr>"

theorem NextBytes_accepted_witness:
  "\<exists>m. NextBytes ex_ntdeps ex_Auth (challenge_message 0x00880201 [1, 1, 2, 2, 3, 3, 4, 4] (replicate 8 0) [68, 0] [2, 0, 2, 0, 68, 0, 0, 0, 0, 0]) = Inr m
     \<and> ntlm_field 36 m = [106, 0, 111, 0, 101, 0]
     \<and> v2_accepts ex_ntdeps (NTOWFv2 ex_ntdeps ''secret'' ''joe'' ''dom'') [1, 1, 2, 2, 3, 3, 4, 4] (ntlm_field 20 m)
     \<and> take 8 (drop 32 (ntlm_field 20 m)) = [1, 2, 3, 4, 5, 6, 7, 8]
     \<and> drop 44 (ntlm_field 20 m) = [2, 0, 2, 0, 68, 0, 10, 0, 2, 0, 9, 9, 0, 0, 0, 0, 0, 0, 0, 0]"
proof -
  have "bytes_str [74, 79, 69] = ''JOE''" by code_simp
  then have "string_of_runes [74, 79, 69] = ''JOE''" by (simp add: string_of_runes_def EncodeRune_def scalar_def)
  then have up: "ToUpper (nt_upper ex_ntdeps) ''joe'' = ''JOE''"
    using runes_ascii_string [of "''joe''"] by (simp add: ToUpper_def upper_rune_def code_def)
  have a: "list_all (\<lambda>c. code c < 128) s" if "s \<in> {''dom'', ''joe'', ''pc'', ''secret'', ''JOEdom''}" for s using that by (auto simp: code_def)
  have b: "basic_plane s" if "s \<in> {''dom'', ''joe'', ''pc'', ''secret'', ''JOEdom''}" for s
    using that a [OF that] by (auto simp: basic_plane_def runes_ascii_string code_def)
  have "utf16le ''joe'' = [106, 0, 111, 0, 101, 0]" "length (utf16le ''dom'') = 6" "length (utf16le ''pc'') = 4"
    using a by (simp_all add: utf16le_def runes_ascii_string utf16le_rune_def IsSurrogate_def code_def)
  then have r: "str2ucs2 ''joe'' = [106, 0, 111, 0, 101, 0]" "length (str2ucs2 ''dom'') = 6" "length (str2ucs2 ''pc'') = 4"
    using b by (simp_all add: basic_plane_def flip: utf16le_basic)
  have d: "nt_rand ex_ntdeps = Inr [1, 2, 3, 4, 5, 6, 7, 8]" "\<And>k x. length (nt_hmac ex_ntdeps k x) = 16" "\<And>x. length (nt_md4 ex_ntdeps x) = 16"
    by (simp_all add: ex_ntdeps_def into_def)
  have f: "(0x00880201 :: u32) AND NEGOTIATE_EXTENDED_SESSIONSECURITY \<noteq> 0" "(0x00880201 :: u32) AND NEGOTIATE_TARGET_INFO \<noteq> 0"
    by (simp_all add: NEGOTIATE_EXTENDED_SESSIONSECURITY_def NEGOTIATE_TARGET_INFO_def)
  have "le_bytes 2 (10 :: u16) = [10, 0]" "le_bytes 2 (2 :: u16) = [2, 0]" by code_simp+
  then have i: "bound_info (ChannelBinding ex_Auth) [2, 0, 2, 0, 68, 0] = [2, 0, 2, 0, 68, 0, 10, 0, 2, 0, 9, 9, 0, 0, 0, 0]"
    by (simp add: bound_info_def av_pair_cb_def AV_PAIR_MsvAvChannelBindings_def ex_Auth_def)
  from NextBytes_accepted [OF d(1) _ d(2,3) f, of "[1, 1, 2, 2, 3, 3, 4, 4]" "replicate 8 0" "[68, 0]" ex_Auth "[2, 0, 2, 0, 68, 0]"] r b i up
  show ?thesis by (auto simp: ex_Auth_def)
qed

end
