(* ===== verification/Tds_Connect.thy ===== *)
theory Tds_Connect
  imports Net_Dial Ntlm Tds_Stmt
begin

text \<open>
  Opening a connection: \<open>connect\<close> of \<open>src/tds.go\<close> from the dial to the acknowledged login, with the redirection by the server, and
  \<open>Driver.connect\<close>, \<open>failoverPartnerParams\<close> and \<open>Connector.Connect\<close> of \<open>src/mssql.go\<close> and \<open>src/mssql_go110.go\<close>. The lemmas show that a
  session is handed out only after the server acknowledged the login, that with encryption required or strict nothing but the prelogin
  leaves outside TLS, and where redirection and failover lead.
\<close>

section \<open>The environment\<close>

text \<open>
  Errors: those of the library and of writes, those of \<open>nextToken\<close>, an error the server sent during the login, and
  panics.
\<close>

datatype cerr = CErr err | CTok derr | CLogin sqlError | CLoginToken | CPanic fault

definition of_fault :: "fault \<Rightarrow> cerr" where
  "of_fault f = (case f of Err e \<Rightarrow> CErr e | _ \<Rightarrow> CPanic f)"

definition lift_err :: "err + 'a \<Rightarrow> cerr + 'a" where
  "lift_err r = (case r of Inl e \<Rightarrow> Inl (CErr e) | Inr x \<Rightarrow> Inr x)"

definition lift_fault :: "fault + 'a \<Rightarrow> cerr + 'a" where
  "lift_fault r = (case r of Inl f \<Rightarrow> Inl (of_fault f) | Inr x \<Rightarrow> Inr x)"

definition run_buf :: "(tdsBuffer, 'a) go \<Rightarrow> tdsBuffer \<Rightarrow> cerr + ('a \<times> tdsBuffer)" where
  "run_buf m w = (case m w of (Inl f, _) \<Rightarrow> Inl (of_fault f) | (Inr x, w') \<Rightarrow> Inr (x, w'))"

text \<open>An authenticator: its first bytes, and its answer to the last of the messages the server sent.\<close>

record authenticator =
  a_InitialBytes :: "err + bytes"
  a_NextBytes :: "bytes list \<Rightarrow> fault + bytes"

text \<open>
  One attempt to connect: the network and the dialers, the memory of the buffer, TLS on a connection and inside of TDS packets with the state of the
  connection and the transport below it, the environment of certificates, the registered authenticators, what the calls of
  \<open>nextToken\<close> return, and the connector's settings.
\<close>

record cenv =
  x_net :: "conn net"
  x_dialers :: "string \<rightharpoonup> conn pdialer"
  x_mem :: bytes
  x_environ :: environ
  x_tls :: "tls_config \<Rightarrow> conn \<Rightarrow> err + conn"
  x_handshake :: "tls_config \<Rightarrow> tlsHandshakeConn \<Rightarrow> (err + conn) \<times> tlsHandshakeConn"
  x_state :: "conn \<Rightarrow> bool \<times> bytes"
  x_under :: "conn \<Rightarrow> conn"
  x_providers :: "(ChannelBindings option \<Rightarrow> fault + authenticator) providers"
  x_DefaultProviderName :: string
  x_reply :: responder
  x_ctx :: ctx_error
  x_connid :: bytes
  x_pid :: u32
  x_mac :: bytes
  x_securityToken :: "err + string"
  x_adalTokenProvider :: "(string \<Rightarrow> string \<Rightarrow> err + string) option"
  x_fedAuthRequired :: bool
  x_fedAuthLibrary :: int
  x_fedAuthADALWorkflow :: byte

section \<open>From the dial to the login\<close>

definition connect_dial :: "cenv \<Rightarrow> Config \<Rightarrow> cerr + (conn \<times> Config)" where
  "connect_dial E p =
     sbind (lift_fault (dialConnection (x_net E) (x_dialers E) p)) (\<lambda>(c, err, p).
       case err of
         Some e \<Rightarrow> Inl (CErr e)
       | None \<Rightarrow> (case c of None \<Rightarrow> Inl (CPanic (RuntimePanic ''nil pointer dereference'')) | Some c \<Rightarrow> Inr (c, p)))"

definition tls_conf :: "cenv \<Rightarrow> Config \<Rightarrow> err + tls_config" where
  "tls_conf E p = (case c_TLSConfig p of Some c \<Rightarrow> Inr c | None \<Rightarrow> SetupTLS (x_environ E) [] [] False (c_Host p) [])"

text \<open>The variable \<open>cbt\<close> lives through all attempts. An error of the channel binding is logged and leaves none.\<close>

definition channel_binding :: "cenv \<Rightarrow> Config \<Rightarrow> conn \<Rightarrow> ChannelBindings option \<Rightarrow> ChannelBindings option" where
  "channel_binding E p tc cbt =
     (if c_EpaEnabled p
      then (case x_state E tc of (tls13, tlsUnique) \<Rightarrow>
              (case GenerateCBTFromTLSConnState tls13 tlsUnique of Inl _ \<Rightarrow> None | Inr cbt \<Rightarrow> cbt))
      else cbt)"

definition getTLSConn :: "cenv \<Rightarrow> Config \<Rightarrow> conn \<Rightarrow> cerr + conn" where
  "getTLSConn E p c =
     sbind (lift_err (tls_conf E p)) (\<lambda>config.
       case x_tls E config c of Inl e \<Rightarrow> Inl (CErr (ErrMsg ''TLS Handshake failed: %w'')) | Inr tc \<Rightarrow> Inr tc)"

text \<open>The buffer, and with strict encryption TLS before the first packet.\<close>

definition open_buffer :: "cenv \<Rightarrow> Config \<Rightarrow> ChannelBindings option \<Rightarrow> conn \<Rightarrow> cerr + (tdsBuffer \<times> ChannelBindings option)" where
  "open_buffer E p cbt c =
     (let w = newTdsBuffer (connect_packetSize (c_PacketSize p)) (x_mem E) c in
      if c_Encryption p = EncryptionStrict
      then sbind (getTLSConn E p c) (\<lambda>tc. Inr (w\<lparr>transport := tc\<rparr>, channel_binding E p tc cbt))
      else Inr (w, cbt))"

definition new_fedAuth :: "cenv \<Rightarrow> featureExtFedAuth" where
  "new_fedAuth E =
     (let fe = \<lparr>FedAuthLibrary = FedAuthLibraryReserved, ADALWorkflow = 0, FedAuthEcho = False, FedAuthToken = [], featureExtFedAuth.Nonce = [],
                featureExtFedAuth.Signature = []\<rparr>
      in if x_fedAuthRequired E then fe\<lparr>FedAuthLibrary := x_fedAuthLibrary E, ADALWorkflow := x_fedAuthADALWorkflow E\<rparr> else fe)"

definition exchange_prelogin :: "cenv \<Rightarrow> Config \<Rightarrow> tdsBuffer \<Rightarrow> cerr + (byte \<times> featureExtFedAuth \<times> tdsBuffer)" where
  "exchange_prelogin E p w =
     (let fe = new_fedAuth E in
      sbind (run_buf (writePrelogin packPrelogin (preparePreloginFields (x_connid E) (c_ActivityID p) p fe)) w) (\<lambda>(_, w).
        sbind (run_buf readPrelogin w) (\<lambda>(flds, w).
          sbind (lift_fault (interpretPreloginResponse p fe flds)) (\<lambda>(encrypt, fe). Inr (encrypt, fe, w)))))"

text \<open>TLS inside of TDS packets; without encryption the hook of the first packet sets the transport back.\<close>

definition start_tls :: "cenv \<Rightarrow> Config \<Rightarrow> byte \<Rightarrow> ChannelBindings option \<Rightarrow> tdsBuffer \<Rightarrow> cerr + (tdsBuffer \<times> ChannelBindings option)" where
  "start_tls E p encrypt cbt w =
     (if c_Encryption p = EncryptionStrict \<or> encrypt = encryptNotSup then Inr (w, cbt)
      else sbind (lift_err (tls_conf E p)) (\<lambda>config.
        case x_handshake E config \<lparr>hs_buf = w, packetPending = False, continueRead = False\<rparr> of
          (Inl e, _) \<Rightarrow> Inl (CErr (ErrMsg ''TLS Handshake failed: %v''))
        | (Inr tc, hs) \<Rightarrow>
            (case hs_FinishPacket hs of
               (Inl f, _) \<Rightarrow> Inl (case f of Err e \<Rightarrow> CErr (ErrMsg ''TLS Handshake flush failed: %w'') | _ \<Rightarrow> CPanic f)
             | (Inr _, hs) \<Rightarrow>
                 Inr ((hs_buf hs)\<lparr>transport := tc, afterFirst := if encrypt = encryptOff then Some (x_under E) else afterFirst (hs_buf hs)\<rparr>,
                      channel_binding E p tc cbt))))"

definition connect_auth :: "cenv \<Rightarrow> Config \<Rightarrow> ChannelBindings option \<Rightarrow> cerr + authenticator option" where
  "connect_auth E p cbt =
     sbind (lift_err (GetIntegratedAuthenticator (x_providers E) (x_DefaultProviderName E) p)) (\<lambda>a.
       case a of None \<Rightarrow> Inr None | Some f \<Rightarrow> sbind (lift_fault (f cbt)) (\<lambda>a. Inr (Some a)))"

definition newSession :: "tdsBuffer \<Rightarrow> Config \<Rightarrow> tdsSession" where
  "newSession w p = \<lparr>s_buf = w, s_database = [], s_partner = [], s_tranid = 0, s_routedServer = [], s_routedPort = 0,
     s_alwaysEncrypted = False, s_encoding = c_Encoding p, s_events = []\<rparr>"

section \<open>The login\<close>

record lstate =
  ls_sess :: tdsSession
  ls_fe :: featureExtFedAuth
  ls_sspi :: "bytes list"
  ls_ack :: "loginAckStruct option"

text \<open>The buffer in front of the login record, and the state after it was sent.\<close>

definition before_login :: "cenv \<Rightarrow> ChannelBindings option \<Rightarrow> Config \<Rightarrow> cerr + (tdsBuffer \<times> featureExtFedAuth \<times> ChannelBindings option \<times> Config)" where
  "before_login E cbt p =
     sbind (connect_dial E p) (\<lambda>(c, p).
       sbind (open_buffer E p cbt c) (\<lambda>(w, cbt).
         sbind (exchange_prelogin E p w) (\<lambda>(encrypt, fe, w).
           sbind (start_tls E p encrypt cbt w) (\<lambda>(w, cbt). Inr (w, fe, cbt, p)))))"

definition send_login :: "cenv \<Rightarrow> ChannelBindings option \<Rightarrow> Config \<Rightarrow> cerr + (authenticator option \<times> lstate \<times> ChannelBindings option \<times> Config)" where
  "send_login E cbt p =
     sbind (before_login E cbt p) (\<lambda>(w, fe, cbt, p).
       sbind (connect_auth E p cbt) (\<lambda>auth.
         sbind (lift_err (prepareLogin (x_pid E) (x_mac E) (x_securityToken E) (map_option a_InitialBytes auth) p fe (word_of_int (PackageSize w)))) (\<lambda>(l, fe).
           sbind (run_buf (sendLogin l) w) (\<lambda>(_, w).
             Inr (auth, \<lparr>ls_sess = newSession w p, ls_fe = fe, ls_sspi = [], ls_ack = None\<rparr>, cbt, p)))))"

definition send_in :: "(tdsBuffer, unit) go \<Rightarrow> lstate \<Rightarrow> cerr + lstate" where
  "send_in m s = sbind (run_buf m (s_buf (ls_sess s))) (\<lambda>(_, w). Inr (s\<lparr>ls_sess := (ls_sess s)\<lparr>s_buf := w\<rparr>\<rparr>))"

definition with_prefix :: "sqlError \<Rightarrow> sqlError" where
  "with_prefix e = (case e of SqlError n st cl msg srv prc ln all \<Rightarrow> SqlError n st cl (''login error: '' @ msg) srv prc ln all)"

fun ack_encryption :: "(byte \<times> ackValue) list \<Rightarrow> tdsSession \<Rightarrow> tdsSession" where
  "ack_encryption [] s = s"
| "ack_encryption ((_, ColAck v enclave) # as) s =
     ack_encryption as (if v \<le> 2 \<and> 0 < v then s\<lparr>s_alwaysEncrypted := True\<rparr> else s)"
| "ack_encryption (_ # as) s = ack_encryption as s"

text \<open>A message of the server for an authenticator that is not there: a method of a nil interface is called.\<close>

fun login_token :: "cenv \<Rightarrow> authenticator option \<Rightarrow> token \<Rightarrow> lstate \<Rightarrow> cerr + lstate" where
  "login_token E auth (SSPIMsg m) s =
     (case auth of
        None \<Rightarrow> Inl (CPanic (RuntimePanic ''nil pointer dereference''))
      | Some a \<Rightarrow>
          let s = s\<lparr>ls_sspi := ls_sspi s @ [m]\<rparr> in
          sbind (lift_fault (a_NextBytes a (ls_sspi s))) (\<lambda>sspi_msg.
            if sspi_msg = [] then Inr s
            else send_in (gthen (BeginPacket packSSPIMessage False) (gthen (io_Write Write sspi_msg) FinishPacket)) s))"
| "login_token E auth (FedAuthInfo i) s =
     (case x_adalTokenProvider E of
        None \<Rightarrow> Inr s
      | Some provider \<Rightarrow>
          sbind (lift_err (provider (fai_ServerSPN i) (STSURL i))) (\<lambda>tok.
            let s = s\<lparr>ls_fe := (ls_fe s)\<lparr>FedAuthToken := tok\<rparr>\<rparr> in send_in (sendFedAuthInfo (ls_fe s)) s))"
| "login_token E auth (LoginAck a) s = Inr (s\<lparr>ls_ack := Some a\<rparr>)"
| "login_token E auth (FeatureExtAck as) s = Inr (s\<lparr>ls_sess := ack_encryption as (ls_sess s)\<rparr>)"
| "login_token E auth (Done d) s = (if isError d then Inl (CLogin (with_prefix (getError d))) else Inr s)"
| "login_token E auth (TokErr e) s = Inl CLoginToken"
| "login_token E auth _ s = Inr s"

fun login_tokens :: "cenv \<Rightarrow> authenticator option \<Rightarrow> outcome list \<Rightarrow> lstate \<Rightarrow> cerr + lstate" where
  "login_tokens E auth [] s = Inl (CPanic Diverges)"
| "login_tokens E auth (Finished # os) s = Inr s"
| "login_tokens E auth (Tok t # os) s = sbind (login_token E auth t s) (login_tokens E auth os)"
| "login_tokens E auth (r # os) s = (case call_err (x_ctx E) r of Inl f \<Rightarrow> Inl (CPanic f) | Inr e \<Rightarrow> Inl (CTok e))"

text \<open>One response, and the loop until there is an acknowledgement.\<close>

definition login_response :: "cenv \<Rightarrow> authenticator option \<Rightarrow> lstate \<Rightarrow> cerr + lstate" where
  "login_response E auth s =
     (case x_reply E no_outs True (ls_sess s) of (os, sess) \<Rightarrow> login_tokens E auth os (s\<lparr>ls_sess := sess\<rparr>))"

partial_function (option) login_loop :: "cenv \<Rightarrow> authenticator option \<Rightarrow> lstate \<Rightarrow> (cerr + lstate) option" where
  "login_loop E auth s =
     (case login_response E auth s of
        Inl e \<Rightarrow> Some (Inl e)
      | Inr s' \<Rightarrow> if ls_ack s' = None then login_loop E auth s' else Some (Inr s'))"

type_synonym target = "Config \<times> ChannelBindings option"

definition attempt :: "cenv \<Rightarrow> target \<Rightarrow> (cerr + (lstate \<times> target)) option" where
  "attempt E = (\<lambda>(p, cbt).
     case send_login E cbt p of
       Inl e \<Rightarrow> Some (Inl e)
     | Inr (auth, s, cbt, p) \<Rightarrow> map_option (map_sum id (\<lambda>s. (s, (p, cbt)))) (login_loop E auth s))"

section \<open>Redirection and failover\<close>

text \<open>The configuration for the server the login was routed to.\<close>

definition routed :: "tdsSession \<Rightarrow> Config \<Rightarrow> Config" where
  "routed s p =
     (case SplitN2 (CHR 0x5C) (s_routedServer s) of (host, inst) \<Rightarrow>
        let p = p\<lparr>c_Host := host\<rparr>;
            p = (case inst of None \<Rightarrow> p | Some i \<Rightarrow> p\<lparr>c_Instance := i\<rparr>);
            p = p\<lparr>c_Port := unat (s_routedPort s)\<rparr>
        in if c_HostInCertificateProvided p then p
           else p\<lparr>c_TLSConfig := map_option (\<lambda>t. t\<lparr>tls_ServerName := c_Host p\<rparr>) (c_TLSConfig p)\<rparr>)"

text \<open>The environment may differ from attempt to attempt. The loop is as long as servers redirect.\<close>

partial_function (option) connect_from :: "(nat \<Rightarrow> cenv) \<Rightarrow> nat \<Rightarrow> target \<Rightarrow> (cerr + (tdsSession \<times> loginAckStruct option)) option" where
  "connect_from E n t =
     Option.bind (attempt (E n) t) (\<lambda>r.
       case r of
         Inl e \<Rightarrow> Some (Inl e)
       | Inr (s, (p, cbt)) \<Rightarrow>
           if s_routedServer (ls_sess s) \<noteq> [] then connect_from E (Suc n) (routed (ls_sess s) p, cbt)
           else Some (Inr (ls_sess s, ls_ack s)))"

definition tds_connect :: "(nat \<Rightarrow> cenv) \<Rightarrow> Config \<Rightarrow> (cerr + (tdsSession \<times> loginAckStruct option)) option" where
  "tds_connect E p = connect_from E 0 (p, None)"

definition failoverPartnerParams :: "Config \<Rightarrow> Config option" where
  "failoverPartnerParams params =
     (if c_FailOverPartner params = [] then None
      else let params = params\<lparr>c_Host := c_FailOverPartner params\<rparr>;
               params = (if c_FailOverPort params \<noteq> 0 then params\<lparr>c_Port := c_FailOverPort params\<rparr> else params);
               params = (if c_FailOverPartnerSPN params \<noteq> [] then params\<lparr>c_ServerSPN := c_FailOverPartnerSPN params\<rparr> else params)
           in Some params)"

fun is_panic :: "cerr \<Rightarrow> bool" where
  "is_panic (CPanic f) = True"
| "is_panic _ = False"

text \<open>A panic ends the call at once, an error leads to the partner.\<close>

definition connect_partner :: "(nat \<Rightarrow> cenv) \<Rightarrow> (nat \<Rightarrow> cenv) \<Rightarrow> Config \<Rightarrow> (cerr + (tdsSession \<times> loginAckStruct option)) option" where
  "connect_partner E F params =
     Option.bind (tds_connect E params) (\<lambda>r.
       case r of
         Inr x \<Rightarrow> Some (Inr x)
       | Inl e \<Rightarrow> if is_panic e then Some (Inl e)
                  else (case failoverPartnerParams params of None \<Rightarrow> Some (Inl e) | Some q \<Rightarrow> tds_connect F q))"

definition Driver_connect :: "(nat \<Rightarrow> cenv) \<Rightarrow> (nat \<Rightarrow> cenv) \<Rightarrow> bool \<Rightarrow> string \<Rightarrow> Config \<Rightarrow> (cerr + Conn) option" where
  "Driver_connect E F processQueryText sessionInitSQL params =
     map_option (map_sum id (\<lambda>(s, _). \<lparr>cn_sess = s, cn_resetSession = False, cn_processQueryText = processQueryText, cn_connectionGood = True,
        cn_inTransaction = False, cn_outs = no_outs, cn_DisableRetry = c_DisableRetry params, cn_SessionInitSQL = sessionInitSQL\<rparr>))
       (connect_partner E F params)"

text \<open>\<open>Connector.Connect\<close> returns the connection also with the error of the session's initialization.\<close>

definition Connector_Connect :: "denv \<Rightarrow> keydeps \<Rightarrow> (nat \<Rightarrow> cenv) \<Rightarrow> (nat \<Rightarrow> cenv) \<Rightarrow> bool \<Rightarrow> string \<Rightarrow> Config
    \<Rightarrow> (cerr + (Conn \<times> derr option)) option" where
  "Connector_Connect env k E F q sql params =
     map_option (\<lambda>r. case r of
         Inl e \<Rightarrow> Inl e
       | Inr c \<Rightarrow> (case ResetSession env k c of
                     (Inl f, _) \<Rightarrow> Inl (of_fault f)
                   | (Inr (Inl e), c) \<Rightarrow> Inr (c, Some e)
                   | (Inr (Inr _), c) \<Rightarrow> Inr (c, None)))
       (Driver_connect E F q sql params)"

section \<open>The acknowledged login\<close>

text \<open>
  What a login went through: the responses of the server, each a list of tokens, with an acknowledgement in the last one
  and no error in any.
\<close>

definition clean :: "token list \<Rightarrow> bool" where
  "clean ts \<longleftrightarrow> (\<forall>t \<in> set ts. case t of Done d \<Rightarrow> \<not> isError d | TokErr _ \<Rightarrow> False | _ \<Rightarrow> True)"

definition acks :: "token list \<Rightarrow> loginAckStruct option" where
  "acks ts = fold (\<lambda>t a. case t of LoginAck x \<Rightarrow> Some x | _ \<Rightarrow> a) ts None"

inductive logged_in :: "cenv \<Rightarrow> authenticator option \<Rightarrow> lstate \<Rightarrow> token list list \<Rightarrow> lstate \<Rightarrow> bool" for E auth where
  acked: "x_reply E no_outs True (ls_sess s) = (map Tok ts @ Finished # os, sess) \<Longrightarrow>
    login_response E auth s = Inr s' \<Longrightarrow> clean ts \<Longrightarrow> acks ts = Some a \<Longrightarrow> ls_ack s' = Some a \<Longrightarrow> logged_in E auth s [ts] s'"
| more: "x_reply E no_outs True (ls_sess s) = (map Tok ts @ Finished # os, sess) \<Longrightarrow>
    login_response E auth s = Inr s' \<Longrightarrow> clean ts \<Longrightarrow> acks ts = None \<Longrightarrow> ls_ack s' = None \<Longrightarrow> logged_in E auth s' tss s'' \<Longrightarrow> logged_in E auth s (ts # tss) s''"

lemma send_in_ack: "send_in m s = Inr s' \<Longrightarrow> ls_ack s' = ls_ack s"
  by (auto simp: send_in_def sbind_Inr_iff)

lemma login_token_ack:
  assumes "login_token E auth t s = Inr s'"
  shows "ls_ack s' = (case t of LoginAck x \<Rightarrow> Some x | _ \<Rightarrow> ls_ack s)" "clean [t]"
proof -
  show "ls_ack s' = (case t of LoginAck x \<Rightarrow> Some x | _ \<Rightarrow> ls_ack s)"
    using assms by (cases t) (auto simp: sbind_Inr_iff Let_def split: option.splits if_splits dest: send_in_ack)
  show "clean [t]" using assms by (cases t) (auto simp: clean_def split: if_splits)
qed

lemma login_tokens_clean:
  "login_tokens E auth os s = Inr s' \<Longrightarrow> \<exists>ts rest. os = map Tok ts @ Finished # rest \<and> clean ts
     \<and> ls_ack s' = fold (\<lambda>t a. case t of LoginAck x \<Rightarrow> Some x | _ \<Rightarrow> a) ts (ls_ack s)"
proof (induction E auth os s rule: login_tokens.induct)
  case (3 E auth t os s)
  then obtain s1 where s1: "login_token E auth t s = Inr s1" "login_tokens E auth os s1 = Inr s'" by (auto simp: sbind_Inr_iff)
  from 3(1) [OF s1(2)] obtain ts rest where ih: "os = map Tok ts @ Finished # rest" "clean ts"
    "ls_ack s' = fold (\<lambda>t a. case t of LoginAck x \<Rightarrow> Some x | _ \<Rightarrow> a) ts (ls_ack s1)" by blast
  with login_token_ack [OF s1(1)] show ?case by (intro exI [of _ "t # ts"] exI [of _ rest]) (simp add: clean_def)
next
  case (2 E auth os s)
  then show ?case by (intro exI [of _ "[]"] exI [of _ os]) (simp add: clean_def)
qed (simp_all split: sum.splits)

lemma login_response_clean:
  assumes "login_response E auth s = Inr s'" "ls_ack s = None"
  shows "\<exists>ts rest sess. x_reply E no_outs True (ls_sess s) = (map Tok ts @ Finished # rest, sess) \<and> clean ts \<and> ls_ack s' = acks ts"
proof -
  obtain os sess where r: "x_reply E no_outs True (ls_sess s) = (os, sess)" by fastforce
  with assms(1) have "login_tokens E auth os (s\<lparr>ls_sess := sess\<rparr>) = Inr s'" by (simp add: login_response_def)
  from login_tokens_clean [OF this] r assms(2) show ?thesis by (auto simp: acks_def)
qed

lemma login_loop_logged_in:
  assumes "login_loop E auth s = Some (Inr s')" "ls_ack s = None"
  shows "\<exists>tss. logged_in E auth s tss s'"
proof -
  let ?P = "\<lambda>E' a' s r. E' = E \<longrightarrow> a' = auth \<longrightarrow> ls_ack s = None \<longrightarrow> (\<forall>s'. r = (Inr s' :: cerr + lstate) \<longrightarrow> (\<exists>tss. logged_in E auth s tss s'))"
  have "?P E auth s (Inr s')"
  proof (rule login_loop.raw_induct [where P = ?P, OF _ assms(1)], intro impI allI)
    fix f E' a' s r s'
    assume ih: "\<And>E' a' s r. f E' a' s = Some r \<Longrightarrow> ?P E' a' s r"
      and step: "(case login_response E' a' s of Inl e \<Rightarrow> Some (Inl e) | Inr s' \<Rightarrow> if ls_ack s' = None then f E' a' s' else Some (Inr s')) = Some r"
      and e: "E' = E" "a' = auth" "ls_ack s = None" "r = Inr s'"
    from step e obtain s1 where s1: "login_response E auth s = Inr s1" by (auto split: sum.splits)
    from login_response_clean [OF this e(3)] obtain ts rest sess where
      ts: "x_reply E no_outs True (ls_sess s) = (map Tok ts @ Finished # rest, sess)" "clean ts" "ls_ack s1 = acks ts" by blast
    show "\<exists>tss. logged_in E auth s tss s'"
    proof (cases "ls_ack s1")
      case None
      then have "f E auth s1 = Some (Inr s')" using step e s1 by simp
      then obtain tss where "logged_in E auth s1 tss s'" using ih None by blast
      with logged_in.more [OF ts(1) s1 ts(2)] ts(3) None show ?thesis by auto
    next
      case (Some a)
      then have "s1 = s'" using step e s1 by simp
      with logged_in.acked [OF ts(1) s1 ts(2)] ts(3) Some show ?thesis by auto
    qed
  qed
  then show ?thesis using assms(2) by simp
qed

text \<open>The servers a connection was sent to, and the attempt at the last of them.\<close>

inductive hops :: "(nat \<Rightarrow> cenv) \<Rightarrow> nat \<Rightarrow> target \<Rightarrow> nat \<Rightarrow> target \<Rightarrow> bool" for E where
  here: "hops E n t n t"
| hop: "attempt (E n) t = Some (Inr (s, (p, cbt))) \<Longrightarrow> s_routedServer (ls_sess s) \<noteq> [] \<Longrightarrow>
    hops E (Suc n) (routed (ls_sess s) p, cbt) m t' \<Longrightarrow> hops E n t m t'"

definition arrived :: "cerr + (lstate \<times> target) \<Rightarrow> bool" where
  "arrived r \<longleftrightarrow> (case r of Inl _ \<Rightarrow> True | Inr (s, _) \<Rightarrow> s_routedServer (ls_sess s) = [])"

definition session_of :: "cerr + (lstate \<times> target) \<Rightarrow> cerr + (tdsSession \<times> loginAckStruct option)" where
  "session_of r = map_sum id (\<lambda>(s, _). (ls_sess s, ls_ack s)) r"

lemma connect_from_hops: "hops E n t m t' \<Longrightarrow> attempt (E m) t' = Some r \<Longrightarrow> arrived r \<Longrightarrow> connect_from E n t = Some (session_of r)"
proof (induction rule: hops.induct)
  case (here n t)
  then show ?case by (subst connect_from.simps) (auto simp: arrived_def session_of_def split: sum.splits)
next
  case (hop n t s p cbt m t')
  then show ?case by (subst connect_from.simps) simp
qed

lemma hops_connect_from:
  assumes "connect_from E n t = Some x"
  shows "\<exists>m t' r. hops E n t m t' \<and> attempt (E m) t' = Some r \<and> arrived r \<and> x = session_of r"
proof -
  let ?P = "\<lambda>E' n t x. E' = E \<longrightarrow> (\<exists>m t' r. hops E n t m t' \<and> attempt (E m) t' = Some r \<and> arrived r \<and> x = session_of r)"
  have "?P E n t x"
  proof (rule connect_from.raw_induct [where P = ?P, OF _ assms], intro impI)
    fix f E' n t x
    assume ih: "\<And>E' n t x. f E' n t = Some x \<Longrightarrow> ?P E' n t x"
      and step: "Option.bind (attempt (E' n) t) (\<lambda>r. case r of Inl e \<Rightarrow> Some (Inl e) | Inr (s, (p, cbt)) \<Rightarrow>
           if s_routedServer (ls_sess s) \<noteq> [] then f E' (Suc n) (routed (ls_sess s) p, cbt) else Some (Inr (ls_sess s, ls_ack s))) = Some x"
      and e: "E' = E"
    then obtain r where r: "attempt (E n) t = Some r" by (auto simp: bind_eq_Some_conv)
    show "\<exists>m t' r. hops E n t m t' \<and> attempt (E m) t' = Some r \<and> arrived r \<and> x = session_of r"
    proof (cases "arrived r")
      case True
      then have "x = session_of r" using step r e by (auto simp: arrived_def session_of_def split: sum.splits)
      with True r hops.here show ?thesis by blast
    next
      case False
      then obtain s p cbt where s: "r = Inr (s, (p, cbt))" "s_routedServer (ls_sess s) \<noteq> []" by (auto simp: arrived_def split: sum.splits)
      then have "f E (Suc n) (routed (ls_sess s) p, cbt) = Some x" using step r e by simp
      then show ?thesis using ih hops.hop [of E n t s p cbt] r s by blast
    qed
  qed
  then show ?thesis by simp
qed

lemma logged_in_login_loop: "logged_in E auth s tss s' \<Longrightarrow> login_loop E auth s = Some (Inr s')"
  by (induction rule: logged_in.induct) (simp_all add: login_loop.simps)

lemma logged_in_acks: "logged_in E auth s tss s' \<Longrightarrow> list_all clean tss \<and> tss \<noteq> [] \<and> ls_ack s' = acks (last tss) \<and> acks (last tss) \<noteq> None"
  by (induction rule: logged_in.induct) auto

lemma send_login_ack: "send_login E cbt p = Inr (auth, s, cbt', q) \<Longrightarrow> ls_ack s = None"
  by (auto simp: send_login_def sbind_Inr_iff)

lemma attempt_iff:
  "attempt E (p, cbt) = Some (Inr (s, (q, cbt'))) \<longleftrightarrow>
     (\<exists>auth s0 tss. send_login E cbt p = Inr (auth, s0, cbt', q) \<and> logged_in E auth s0 tss s)"
proof
  have ms: "map_sum id g z = Inr y \<Longrightarrow> \<exists>x. z = Inr x \<and> y = g x" for g :: "lstate \<Rightarrow> lstate \<times> target" and z :: "cerr + lstate" and y
    by (cases z) auto
  assume "attempt E (p, cbt) = Some (Inr (s, (q, cbt')))"
  then obtain auth s0 where s: "send_login E cbt p = Inr (auth, s0, cbt', q)" "login_loop E auth s0 = Some (Inr s)"
    by (auto simp: attempt_def split: sum.splits prod.splits dest!: ms)
  with login_loop_logged_in [OF s(2) send_login_ack [OF s(1)]]
  show "\<exists>auth s0 tss. send_login E cbt p = Inr (auth, s0, cbt', q) \<and> logged_in E auth s0 tss s" by blast
qed (auto simp: attempt_def dest: logged_in_login_loop)

lemma session_of_Inr: "session_of r = Inr (sess, a) \<longleftrightarrow> (\<exists>s q cbt. r = Inr (s, (q, cbt)) \<and> sess = ls_sess s \<and> a = ls_ack s)"
  by (cases r) (auto simp: session_of_def)

text \<open>
  C10. \<open>connect\<close> hands out a session exactly when, after some redirections, a login was sent over a prepared connection
  and the server answered it with responses that carry no error, the last of them (and none before it) with a login acknowledgement, and did not redirect
  the client again. The acknowledgement kept is the last one of that response.
\<close>

theorem connect_acknowledged:
  "tds_connect E p = Some (Inr (sess, a)) \<longleftrightarrow>
     (\<exists>m q cbt auth s0 cbt' q' tss s.
        hops E 0 (p, None) m (q, cbt)
        \<and> send_login (E m) cbt q = Inr (auth, s0, cbt', q')
        \<and> logged_in (E m) auth s0 tss s
        \<and> list_all clean tss \<and> acks (last tss) \<noteq> None \<and> a = acks (last tss)
        \<and> sess = ls_sess s \<and> s_routedServer sess = [])" (is "?L \<longleftrightarrow> ?R")
proof
  assume ?L
  then obtain m q cbt r where h: "hops E 0 (p, None) m (q, cbt)" "attempt (E m) (q, cbt) = Some r" "arrived r" "Inr (sess, a) = session_of r"
    unfolding tds_connect_def by (metis hops_connect_from surj_pair)
  then obtain s q' cbt' where s: "r = Inr (s, (q', cbt'))" "sess = ls_sess s" "a = ls_ack s" by (metis session_of_Inr)
  with h obtain auth s0 tss where l: "send_login (E m) cbt q = Inr (auth, s0, cbt', q')" "logged_in (E m) auth s0 tss s" by (auto simp: attempt_iff)
  have "s_routedServer sess = []" using h(3) s by (simp add: arrived_def)
  moreover have "list_all clean tss" "acks (last tss) \<noteq> None" "a = acks (last tss)" using logged_in_acks [OF l(2)] s(3) by auto
  ultimately show ?R using h(1) l s(2) by blast
next
  assume ?R
  then obtain m q cbt auth s0 cbt' q' tss s where h: "hops E 0 (p, None) m (q, cbt)" and l: "send_login (E m) cbt q = Inr (auth, s0, cbt', q')"
    "logged_in (E m) auth s0 tss s" and a: "a = acks (last tss)" "sess = ls_sess s" "s_routedServer sess = []" by blast
  have "attempt (E m) (q, cbt) = Some (Inr (s, (q', cbt')))" using l by (auto simp: attempt_iff)
  from connect_from_hops [OF h this] a logged_in_acks [OF l(2)] show ?L by (simp add: tds_connect_def arrived_def session_of_def)
qed

section \<open>The transport of the login\<close>

text \<open>The new buffer of an attempt.\<close>

abbreviation conn_buffer :: "cenv \<Rightarrow> Config \<Rightarrow> conn \<Rightarrow> tdsBuffer" where
  "conn_buffer E q c \<equiv> newTdsBuffer (connect_packetSize (c_PacketSize q)) (x_mem E) c"

lemma lift_fault_Inr: "lift_fault r = Inr x \<longleftrightarrow> r = Inr x"
  by (cases r) (simp_all add: lift_fault_def)

lemma exchange_prelogin_required:
  assumes "exchange_prelogin E q w = Inr (enc, fe, w')" "c_Encryption q = EncryptionRequired"
  shows "enc \<noteq> encryptNotSup \<and> enc \<noteq> encryptOff"
proof -
  from assms(1) obtain flds where "interpretPreloginResponse q (new_fedAuth E) flds = Inr (enc, fe)"
    by (auto simp: exchange_prelogin_def sbind_Inr_iff lift_fault_Inr Let_def)
  with assms(2) show ?thesis by (auto elim: interpretPreloginResponse_Inr)
qed

lemma start_tls_handshake:
  assumes "start_tls E q enc cbt w = Inr (w', cbt')" "c_Encryption q \<noteq> EncryptionStrict" "enc \<noteq> encryptNotSup"
  obtains conf tc hs b hs' where "tls_conf E q = Inr conf" "x_handshake E conf \<lparr>hs_buf = w, packetPending = False, continueRead = False\<rparr> = (Inr tc, hs)"
    "hs_FinishPacket hs = (Inr b, hs')" "w' = (hs_buf hs')\<lparr>transport := tc, afterFirst := if enc = encryptOff then Some (x_under E) else afterFirst (hs_buf hs')\<rparr>"
  using assms by (auto simp: start_tls_def lift_err_def sbind_Inr_iff split: sum.splits prod.splits)

text \<open>
  C11. The transport the login record is written to. With strict encryption the TLS connection is set up right after the dial and the prelogin already goes through
  it. With encryption required the prelogin is the only message in front of TLS: the buffer of the login has the connection of a finished handshake
  for its transport, with the last flight of the handshake flushed, and no hook that would set it back. With encryption
  off the login goes through TLS too, unless the server does not support encryption; the hook that sets the transport back after the
  login is there only if the server chose it.
\<close>

theorem login_inside_tls:
  "case before_login E cbt p of
     Inl _ \<Rightarrow> True
   | Inr (w, fe, cbt', q) \<Rightarrow>
       (\<exists>c. connect_dial E p = Inr (c, q)
          \<and> (if c_Encryption q = EncryptionStrict
             then \<exists>conf tc enc. tls_conf E q = Inr conf \<and> x_tls E conf c = Inr tc
                    \<and> exchange_prelogin E q ((conn_buffer E q c)\<lparr>transport := tc\<rparr>) = Inr (enc, fe, w)
             else \<exists>enc w1. exchange_prelogin E q (conn_buffer E q c) = Inr (enc, fe, w1)
                    \<and> (if enc = encryptNotSup then c_Encryption q \<noteq> EncryptionRequired \<and> w = w1
                       else \<exists>conf tc hs b hs'. tls_conf E q = Inr conf
                              \<and> x_handshake E conf \<lparr>hs_buf = w1, packetPending = False, continueRead = False\<rparr> = (Inr tc, hs)
                              \<and> hs_FinishPacket hs = (Inr b, hs')
                              \<and> (if enc = encryptOff
                                 then c_Encryption q \<noteq> EncryptionRequired \<and> w = (hs_buf hs')\<lparr>transport := tc, afterFirst := Some (x_under E)\<rparr>
                                 else w = (hs_buf hs')\<lparr>transport := tc\<rparr>))))"
proof (cases "before_login E cbt p")
  case (Inr r)
  obtain w fe cbt' q where r: "r = (w, fe, cbt', q)" by (metis prod_cases4)
  from Inr obtain c w0 cb0 enc w1 where b: "connect_dial E p = Inr (c, q)" "open_buffer E q cbt c = Inr (w0, cb0)"
    "exchange_prelogin E q w0 = Inr (enc, fe, w1)" "start_tls E q enc cb0 w1 = Inr (w, cbt')"
    by (auto simp: before_login_def sbind_Inr_iff r)
  show ?thesis
  proof (cases "c_Encryption q = EncryptionStrict")
    case True
    with b(2, 3, 4) have "w1 = w" "\<exists>conf tc. tls_conf E q = Inr conf \<and> x_tls E conf c = Inr tc \<and> w0 = (conn_buffer E q c)\<lparr>transport := tc\<rparr>"
      by (auto simp: open_buffer_def start_tls_def getTLSConn_def lift_err_def sbind_Inr_iff Let_def split: sum.splits)
    with b(1, 3) True show ?thesis by (auto simp: Inr r)
  next
    case False
    with b(2) have w0: "w0 = conn_buffer E q c" by (simp add: open_buffer_def)
    show ?thesis
    proof (cases "enc = encryptNotSup")
      case True
      with b False w0 exchange_prelogin_required [OF b(3)] show ?thesis by (auto simp: Inr r start_tls_def)
    next
      case ns: False
      obtain conf tc hs b' hs' where t: "tls_conf E q = Inr conf" "x_handshake E conf \<lparr>hs_buf = w1, packetPending = False, continueRead = False\<rparr> = (Inr tc, hs)"
        "hs_FinishPacket hs = (Inr b', hs')" "w = (hs_buf hs')\<lparr>transport := tc, afterFirst := if enc = encryptOff then Some (x_under E) else afterFirst (hs_buf hs')\<rparr>"
        by (rule start_tls_handshake [OF b(4) False ns])
      have "if enc = encryptOff then c_Encryption q \<noteq> EncryptionRequired \<and> w = (hs_buf hs')\<lparr>transport := tc, afterFirst := Some (x_under E)\<rparr>
            else w = (hs_buf hs')\<lparr>transport := tc\<rparr>"
        using t(4) exchange_prelogin_required [OF b(3)] by (cases "enc = encryptOff") auto
      with t(1-3) have "\<exists>conf tc hs b hs'. tls_conf E q = Inr conf
          \<and> x_handshake E conf \<lparr>hs_buf = w1, packetPending = False, continueRead = False\<rparr> = (Inr tc, hs) \<and> hs_FinishPacket hs = (Inr b, hs')
          \<and> (if enc = encryptOff then c_Encryption q \<noteq> EncryptionRequired \<and> w = (hs_buf hs')\<lparr>transport := tc, afterFirst := Some (x_under E)\<rparr>
             else w = (hs_buf hs')\<lparr>transport := tc\<rparr>)" by blast
      with b(1, 3) w0 False ns show ?thesis
        unfolding Inr r by (simp only: sum.case prod.case if_False) (rule exI [of _ c], rule conjI, rule refl, rule exI [of _ enc], rule exI [of _ w1], simp)
    qed
  qed
qed simp

section \<open>Findings\<close>

text \<open>A server that sends an SSPI message to a client with SQL authentication makes it panic.\<close>

lemma sspi_without_authenticator: "login_token E None (SSPIMsg m) s = Inl (CPanic (RuntimePanic ''nil pointer dereference''))"
  by simp

text \<open>Servers that redirect to each other are followed without end.\<close>

inductive redirects :: "(nat \<Rightarrow> cenv) \<Rightarrow> nat \<Rightarrow> target \<Rightarrow> nat \<Rightarrow> target \<Rightarrow> bool" for E where
  "attempt (E n) t = Some (Inr (s, (p, cbt))) \<Longrightarrow> s_routedServer (ls_sess s) \<noteq> [] \<Longrightarrow> redirects E n t (Suc n) (routed (ls_sess s) p, cbt)"

lemma redirects_forever:
  assumes "\<And>n. redirects E n (t n) (Suc n) (t (Suc n))"
  shows "connect_from E n (t n) = None"
proof (rule ccontr)
  have step: "hops E n u m u' \<Longrightarrow> u = t n \<Longrightarrow> u' = t m" for n u m u'
  proof (induction rule: hops.induct)
    case (hop n u s p cbt m u')
    then show ?case using assms [of n] by (auto elim: redirects.cases)
  qed simp
  assume "connect_from E n (t n) \<noteq> None"
  then obtain m u r where r: "hops E n (t n) m u" "attempt (E m) u = Some r" "arrived r" using hops_connect_from by blast
  from step [OF r(1)] r(2, 3) assms [of m] show False by (auto elim!: redirects.cases simp: arrived_def)
qed

text \<open>A redirection keeps the principal name that was generated for the first server, as does a failover its name in the certificate.\<close>

lemma routed_keeps_SPN: "c_ServerSPN (routed s p) = c_ServerSPN p"
  by (simp add: routed_def Let_def split: prod.splits option.splits)

lemma DialSqlConnection_keeps_SPN: "DialSqlConnection N p = (r, q) \<Longrightarrow> c_ServerSPN p \<noteq> [] \<Longrightarrow> c_ServerSPN q = c_ServerSPN p"
  by (auto simp: DialSqlConnection_def Let_def split: if_splits sum.splits option.splits)

lemma failover_keeps: "failoverPartnerParams p = Some q \<Longrightarrow>
    c_Host q = c_FailOverPartner p \<and> c_TLSConfig q = c_TLSConfig p \<and> c_Instance q = c_Instance p \<and> (c_FailOverPartnerSPN p = [] \<longrightarrow> c_ServerSPN q = c_ServerSPN p)"
  by (auto simp: failoverPartnerParams_def Let_def split: if_splits)

end
