(* ===== verification/Spec2Isabelle.thy ===== *)
theory Spec2Isabelle
  imports Batch_Split Bulk_Copy Tds_Connect
begin

text \<open>
  A verification development of go-mssqldb, the Go driver for Microsoft SQL Server.

  \<^bold>\<open>The program.\<close> An application talks to \<open>database/sql\<close>, which calls the driver's connections, statements
  and rows (\<open>src/mssql.go\<close>). A statement becomes one request message (\<open>src/tds.go\<close>, \<open>src/rpc.go\<close>,
  \<open>src/tran.go\<close>), written through a \<open>tdsBuffer\<close> that cuts messages into packets (\<open>src/buf.go\<close>). The response is
  a stream of tokens, parsed by a goroutine that hands them over through a channel (\<open>src/token.go\<close>); columns and
  values are coded as \<open>src/types.go\<close> says. Before the first request the connection string is parsed
  (\<open>src/msdsn\<close>), the prelogin exchange fixes the encryption, and the login names the user and the packet size
  (\<open>src/tds.go\<close>).

  \<^bold>\<open>The model.\<close> Go code is a function from a state to a result and a state (\<open>('s, 'a) go\<close> of
  \<open>Go_Prelude\<close>); the result is a value or a \<open>fault\<close>: a returned error, a panic of the driver
  (\<open>badStreamPanic\<close>), a panic of the runtime (an index out of range, a failed type assertion), or
  \<open>Diverges\<close>, a call that never returns. Machine integers are words where they can wrap around, slices are
  lists, strings are lists of the bytes. Loops whose end depends on the peer are partial functions into
  \<open>option\<close>: \<open>None\<close> stands for a loop that never ends, and the totality theorems show that it does not
  occur. Fuel is used only for loops over the calls of \<open>nextToken\<close> a rows object has left; one round more than
  there are calls is enough because every round but the last consumes one. The number of rounds is part of
  the definitions and the theorems show that the result is never the one of exhausted fuel.

  \<^bold>\<open>The theories.\<close>

  \<^item> \<open>Go_Prelude\<close>, \<open>Go_IO\<close>, \<open>Go_Text\<close>, \<open>Go_Strings\<close>: effects, codecs of \<open>encoding/binary\<close>, readers and
    writers of \<open>io\<close>, UTF-8 and runes, and what the driver uses of \<open>strings\<close>, \<open>strconv\<close> and \<open>unicode\<close>.
  \<^item> \<open>Tds_Buffer\<close> (\<open>src/buf.go\<close>): the buffer with its two halves in one memory, as the code has it.
    \<open>Tds_Writer\<close> and \<open>Tds_Reader\<close> show what the halves send and deliver, \<open>Tds_Message\<close> that a message
    arrives as it was written, for any chunks of writes and reads and any two packet sizes that fit.
  \<^item> \<open>Ucs2\<close>, \<open>Date_Time\<close>, \<open>Decimal\<close>, \<open>Unique_Identifier\<close>, \<open>Charset\<close>, \<open>Code_Pages\<close>: the codecs of
    \<open>src/ucs22str.go\<close>, \<open>src/types.go\<close>, \<open>src/internal/decimal\<close>, \<open>src/uniqueidentifier.go\<close> and
    \<open>src/internal/cp\<close>, with their round trips and the places where they are not exact.
  \<^item> \<open>Tds_Types\<close> and \<open>Type_Names\<close> (\<open>src/types.go\<close>): type information, the readers and writers of values, and
    what is reported of a column type.
  \<^item> \<open>Conn_String\<close> (\<open>src/msdsn\<close>), \<open>Tds_Prelogin\<close> and \<open>Tds_Login\<close> (\<open>src/tds.go\<close>): the three formats of
    connection strings and the configuration they give, the option table of the prelogin, the negotiation of
    encryption, the login record and every request message.
  \<^item> \<open>Cell_Encryption\<close> (\<open>src/internal/github.com/swisscom\<close>): authenticated encryption of cells.
  \<^item> \<open>Tds_Tokens\<close> (\<open>src/token.go\<close>): one definition per token parser and the loop over a response.
    \<open>Tds_Progress\<close> states what it means that a parser consumes its input or fails, as a locale of readers that
    the buffer and the in-memory reader of decrypted cells both provide; \<open>Tds_Response\<close> concludes that the reader of
    a response always returns. \<open>Tds_Reply\<close> specifies a legal response as a list of replies and shows
    that the reader does exactly what each reply owes.
  \<^item> \<open>Tds_Cancel\<close> (\<open>src/token.go\<close>): the goroutines, the channel of capacity five, \<open>nextToken\<close>, the attention and
    its confirmation, as one step relation; invariants by rule induction over the reachable states, and the
    runs that exist from them.
  \<^item> \<open>Sql_Text\<close>, \<open>Tds_Params\<close>, \<open>Tds_Conn\<close>, \<open>Tds_Stmt\<close> (\<open>src/quoter.go\<close>, \<open>src/internal/querytext\<close>,
    \<open>src/mssql.go\<close>, \<open>src/mssql_go19.go\<close>, \<open>src/encrypt.go\<close>): statement text, arguments, connections with
    their transactions, rows, and the encryption of arguments.
  \<^item> \<open>Float_Decimal\<close> (\<open>src/internal/decimal\<close>): floating-point numbers as dyadic numbers rounded to the nearest of
    their format, and the conversions between them and decimals.
  \<^item> \<open>Bulk_Copy\<close> (\<open>src/bulkcopy.go\<close>, \<open>src/bulkcopy_sql.go\<close>): the \<open>INSERT BULK\<close> statement, the conversion of values to the
    types of the columns, and the stream of metadata and rows, read with the parsers of \<open>Tds_Tokens\<close>.
  \<^item> \<open>Batch_Split\<close> (\<open>src/batch\<close>): the lexer that cuts a script at its separator lines, as a state machine.
  \<^item> \<open>Net_Dial\<close> (\<open>src/net.go\<close>, \<open>src/protocol.go\<close>): the TDS packets around a TLS handshake, the server browser, and the dials, the
    parallel ones as a step relation of goroutines.
  \<^item> \<open>Ntlm\<close> (\<open>src/integratedauth\<close>): the messages of NTLM, channel bindings, and the choice of an authenticator.
  \<^item> \<open>Tds_Connect\<close> (\<open>connect\<close> of \<open>src/tds.go\<close>, \<open>src/mssql.go\<close>, \<open>src/mssql_go110.go\<close>): opening a connection from the dial over the prelogin, TLS
    and the login to the acknowledgement, redirection and failover. It composes the definitions of the components before it.

  \<^bold>\<open>What is shown.\<close> Messages, values, logins, connection strings and parameters survive their encoding
  (round trips); the reader of a response refines the specification of responses, ends for every input, and hands
  its tokens over in order; a cancellation is reported only when the server has confirmed it, and a
  cancelled call returns; the rows an application reads are those of the response; a connection
  with a broken stream is not used again, and nothing runs in a transaction the server has given up;
  a session is handed out exactly when a login was acknowledged, and the login record is written inside TLS when that is required; a parallel dial ends
  and keeps one connection; an answer of NTLM is one that a server accepts which derives the key by itself, for names and passwords of the basic plane;
  a bulk load is one message with exactly the rows that the conversions accept; a script is split into the batches it was put together from;
  encryption is what the two sides agreed on and is never weaker than asked for; cells and arguments decrypt
  to what was encrypted. Some theorems state where the code fails: a response that is given up with more
  than five tokens left blocks the connection, a packet size of eight makes a write loop for ever, an empty packet is not
  skipped by \<open>ReadByte\<close>, a bad argument drops the reset of a session, rounding a float loses a carry, a nil in a
  fixed-length column of a bulk load takes no bytes, a NULL unique identifier sends bytes that belong to nothing, and the reader takes every packet of a message with the reset bit for the last.

  \<^bold>\<open>What comes from outside\<close> is an argument of the definitions that use it: the transport (bytes that arrive,
  results of writes), DNS, dials and TLS handshakes, the tables of the double-byte code pages and of the case and letter classes of Unicode, HMAC, MD4, MD5, DES,
  the AES block function and random bytes, key providers, the authenticators of integrated and federated
  authentication, the scan functions of output parameters, the values of \<open>driver.Valuer\<close>s, \<open>encoding/json\<close> and \<open>time.ParseInLocation\<close>. What is relied on
  of them is a named hypothesis (\<open>block_cipher\<close>, \<open>mac256\<close>), and a witness instantiates it.

  \<^bold>\<open>Not modelled\<close>: sockets, the inside of TLS, timeouts and DNS; Windows pipes and shared memory; Kerberos, SSPI and
  Azure libraries; certificate stores; logging; the code that works by reflection (table-valued
  parameters, \<open>convertAssign\<close>, the checks of \<open>CheckNamedValue\<close>). In the model of statements the calls of \<open>nextToken\<close> for a request are one list, fixed with the
  request: the step relation of \<open>Tds_Cancel\<close> says which lists occur, and the session of the model is the
  one after the response was read.
\<close>

end
